(* ===== verification/Prelude.thy ===== *)
theory Prelude
  imports
    Complex_Main
    "HOL-Library.Char_ord"
    "HOL-Library.List_Lexorder"
    "HOL-Library.Product_Lexorder"
    "HOL-Library.AList"
    "HOL-Library.Word"
begin

text \<open>
  Shared vocabulary of the development: the result type of fallible operations, byte
  strings and their decimal numerals, the list operations of the Rust standard library that
  the code uses, hash maps as association lists with distinct keys, and the two interfaces
  that several components implement (an encoder with its decoder, and a latch that the first
  writer wins).

  A Rust \<open>String\<close>, \<open>&str\<close> or \<open>&[u8]\<close> is a \<^typ>\<open>string\<close>: a list of bytes
  (\<^typ>\<open>char\<close> ranges over the 256 byte values). The order on strings is the
  lexicographic order of the bytes, which is Rust's \<open>Ord for str\<close>.
\<close>

section \<open>Results and the question-mark operator\<close>

named_theorems res_simps \<open>unfolding a successful or failed chain of fallible calls\<close>

fun res_bind :: "'err + 'ok \<Rightarrow> ('ok \<Rightarrow> 'err + 'res) \<Rightarrow> 'err + 'res" where
  "res_bind (Inl e) f = Inl e"
| "res_bind (Inr x) f = f x"

fun map_err :: "('e \<Rightarrow> 'f) \<Rightarrow> 'e + 'a \<Rightarrow> 'f + 'a" where
  "map_err h (Inl e) = Inl (h e)"
| "map_err h (Inr x) = Inr x"

fun ok_or :: "'e \<Rightarrow> 'a option \<Rightarrow> 'e + 'a" where
  "ok_or e None = Inl e"
| "ok_or e (Some x) = Inr x"

fun res_ok :: "'e + 'a \<Rightarrow> 'a option" where
  "res_ok (Inl e) = None"
| "res_ok (Inr x) = Some x"

fun is_ok :: "'e + 'a \<Rightarrow> bool" where
  "is_ok (Inl e) = False"
| "is_ok (Inr x) = True"

lemma res_bind_cong [fundef_cong]:
  "m = m' \<Longrightarrow> (\<And>x. m' = Inr x \<Longrightarrow> f x = g x) \<Longrightarrow> res_bind m f = res_bind m' g"
  by (cases m') auto

lemma res_bind_Inr_iff [res_simps]:
  "res_bind m f = Inr y \<longleftrightarrow> (\<exists>x. m = Inr x \<and> f x = Inr y)"
  by (cases m) auto

lemma res_bind_Inl_iff [res_simps]:
  "res_bind m f = Inl e \<longleftrightarrow> m = Inl e \<or> (\<exists>x. m = Inr x \<and> f x = Inl e)"
  by (cases m) auto

lemma map_err_Inr_iff [res_simps]: "map_err h m = Inr x \<longleftrightarrow> m = Inr x"
  by (cases m) auto

lemma map_err_Inl_iff [res_simps]: "map_err h m = Inl e \<longleftrightarrow> (\<exists>d. m = Inl d \<and> e = h d)"
  by (cases m) auto

lemma ok_or_Inr_iff [res_simps]: "ok_or e m = Inr x \<longleftrightarrow> m = Some x"
  by (cases m) auto

lemma ok_or_Inl_iff [res_simps]: "ok_or e m = Inl d \<longleftrightarrow> m = None \<and> d = e"
  by (cases m) auto

lemma is_ok_iff: "is_ok m \<longleftrightarrow> (\<exists>x. m = Inr x)"
  by (cases m) auto

lemma res_ok_Some_iff [res_simps]: "res_ok m = Some x \<longleftrightarrow> m = Inr x"
  by (cases m) auto

section \<open>Lists\<close>

text \<open>\<open>slice::get(i)\<close>, \<open>slice::get(i..j)\<close> and \<open>Iterator::position\<close>.\<close>

definition nth_opt :: "'a list \<Rightarrow> nat \<Rightarrow> 'a option" where
  "nth_opt xs i = (if i < length xs then Some (xs ! i) else None)"

definition slice_opt :: "'a list \<Rightarrow> nat \<Rightarrow> nat \<Rightarrow> 'a list option" where
  "slice_opt xs i j = (if i \<le> j \<and> j \<le> length xs then Some (take (j - i) (drop i xs)) else None)"

fun position :: "('a \<Rightarrow> bool) \<Rightarrow> 'a list \<Rightarrow> nat option" where
  "position P [] = None"
| "position P (x # xs) = (if P x then Some 0 else map_option Suc (position P xs))"

lemma position_None_iff: "position P xs = None \<longleftrightarrow> (\<forall>x\<in>set xs. \<not> P x)"
  by (induction xs) auto

lemma position_SomeD:
  "position P xs = Some i \<Longrightarrow> i < length xs \<and> P (xs ! i) \<and> (\<forall>j<i. \<not> P (xs ! j))"
  by (induction xs arbitrary: i) (auto split: if_splits simp: less_Suc_eq_0_disj)

lemma nth_opt_append: "nth_opt (xs @ ys) i = (if i < length xs then Some (xs ! i) else nth_opt ys (i - length xs))"
  by (auto simp: nth_opt_def nth_append)

lemma nth_opt_Cons_0 [simp]: "nth_opt (x # xs) 0 = Some x"
  by (simp add: nth_opt_def)

lemma nth_opt_Cons_Suc [simp]: "nth_opt (x # xs) (Suc i) = nth_opt xs i"
  by (simp add: nth_opt_def)

lemma nth_opt_Nil [simp]: "nth_opt [] i = None"
  by (simp add: nth_opt_def)

lemma filter_key: "distinct (map f xs) \<Longrightarrow> x \<in> set xs \<Longrightarrow> filter (\<lambda>y. f y = f x) xs = [x]"
  by (induction xs) (auto simp: filter_empty_conv image_iff)

lemma find_SomeD: "List.find P xs = Some x \<Longrightarrow> x \<in> set xs \<and> P x"
  by (induction xs) (auto split: if_splits)

lemma find_None_iff_all: "List.find P xs = None \<longleftrightarrow> (\<forall>x\<in>set xs. \<not> P x)"
  by (induction xs) auto

lemma takeWhile_dropWhile_unique:
  assumes "\<forall>x\<in>set as. P x" and "bs = [] \<or> \<not> P (hd bs)"
  shows "takeWhile P (as @ bs) = as" and "dropWhile P (as @ bs) = bs"
  using assms by (induction as; cases bs; simp)+

section \<open>Hash maps\<close>

text \<open>
  A \<open>HashMap\<close> is an association list whose keys are distinct. \<open>get\<close> is \<^const>\<open>map_of\<close>,
  \<open>insert\<close> is \<^const>\<open>AList.update\<close>. The code never depends on the iteration order of a
  hash map: what it iterates it collects into another map or sorts by key.
\<close>

type_synonym ('k, 'v) hash_map = "('k \<times> 'v) list"

definition keys_distinct :: "('k, 'v) hash_map \<Rightarrow> bool" where
  "keys_distinct m \<longleftrightarrow> distinct (map fst m)"

lemma keys_distinct_Nil [simp]: "keys_distinct []"
  by (simp add: keys_distinct_def)

lemma keys_distinct_update [simp]: "keys_distinct m \<Longrightarrow> keys_distinct (AList.update k v m)"
  by (simp add: keys_distinct_def distinct_update)

lemma map_of_update [simp]: "map_of (AList.update k v m) = (map_of m)(k \<mapsto> v)"
  by (simp add: update_conv')

lemma keys_distinct_map_of_iff:
  "keys_distinct m \<Longrightarrow> (k, v) \<in> set m \<longleftrightarrow> map_of m k = Some v"
  by (auto simp: keys_distinct_def)

section \<open>Decimal numerals\<close>

definition is_digit :: "char \<Rightarrow> bool" where
  "is_digit c \<longleftrightarrow> 48 \<le> (of_char c :: nat) \<and> (of_char c :: nat) \<le> 57"

definition digit_val :: "char \<Rightarrow> nat" where
  "digit_val c = of_char c - 48"

definition digit_char :: "nat \<Rightarrow> char" where
  "digit_char d = char_of (48 + d)"

fun dec :: "nat \<Rightarrow> string" where
  "dec n = (if n < 10 then [digit_char n] else dec (n div 10) @ [digit_char (n mod 10)])"

declare dec.simps [simp del]

definition undec :: "string \<Rightarrow> nat" where
  "undec ds = foldl (\<lambda>acc c. acc * 10 + digit_val c) 0 ds"

text \<open>\<open>to_string\<close> of a signed integer: the sign, then the numeral of the magnitude.\<close>

definition show_int :: "int \<Rightarrow> string" where
  "show_int n = (if n < 0 then CHR ''-'' # dec (nat (- n)) else dec (nat n))"

lemma is_digit_digit_char [simp]: "d < 10 \<Longrightarrow> is_digit (digit_char d)"
  by (simp add: is_digit_def digit_char_def of_char_of)

lemma digit_val_digit_char [simp]: "d < 10 \<Longrightarrow> digit_val (digit_char d) = d"
  by (simp add: digit_val_def digit_char_def of_char_of)

lemma digit_val_less: "is_digit c \<Longrightarrow> digit_val c < 10"
  unfolding is_digit_def digit_val_def by linarith

lemma digit_char_digit_val [simp]: "is_digit c \<Longrightarrow> digit_char (digit_val c) = c"
  by (simp add: is_digit_def digit_val_def digit_char_def)

lemma is_digit_zero [simp]: "is_digit (CHR ''0'')"
  by (simp add: is_digit_def)

lemma not_digit_punct [simp]:
  "\<not> is_digit (CHR ''-'')" "\<not> is_digit (CHR ''.'')" "\<not> is_digit (CHR '':'')"
  "\<not> is_digit (CHR ''e'')" "\<not> is_digit (CHR ''E'')" "\<not> is_digit (CHR ''+'')"
  "\<not> is_digit (CHR ''Z'')" "\<not> is_digit (CHR ''z'')" "\<not> is_digit (CHR ''T'')"
  by (simp_all add: is_digit_def)

lemma digit_val_zero [simp]: "digit_val (CHR ''0'') = 0"
  by (simp add: digit_val_def)

lemma digit_val_eq_0_iff: "is_digit c \<Longrightarrow> digit_val c = 0 \<longleftrightarrow> c = CHR ''0''"
  by (metis digit_char_digit_val digit_val_zero is_digit_zero)

lemma digit_char_0: "digit_char 0 = CHR ''0''"
  by (metis digit_char_digit_val digit_val_zero is_digit_zero)

lemma undec_Nil [simp]: "undec [] = 0"
  by (simp add: undec_def)

lemma undec_snoc [simp]: "undec (ds @ [c]) = undec ds * 10 + digit_val c"
  by (simp add: undec_def)

lemma undec_append: "undec (as @ bs) = undec as * 10 ^ length bs + undec bs"
proof (induction bs rule: rev_induct)
  case Nil
  show ?case by simp
next
  case (snoc b bs)
  have "undec (as @ bs @ [b]) = undec (as @ bs) * 10 + digit_val b"
    by (metis append.assoc undec_snoc)
  then show ?case by (simp add: snoc.IH algebra_simps)
qed

lemma undec_singleton [simp]: "undec [c] = digit_val c"
  by (simp add: undec_def)

lemma undec_Cons: "undec (c # ds) = digit_val c * 10 ^ length ds + undec ds"
  using undec_append [of "[c]" ds] by simp

lemma undec_bound: "\<forall>c\<in>set ds. is_digit c \<Longrightarrow> undec ds < 10 ^ length ds"
proof (induction ds rule: rev_induct)
  case Nil
  show ?case by simp
next
  case (snoc c ds)
  from snoc.IH snoc.prems have "undec ds < 10 ^ length ds" and "digit_val c < 10"
    by (simp_all add: digit_val_less)
  then show ?case by simp
qed

lemma dec_nonempty [simp]: "dec n \<noteq> []"
  by (subst dec.simps) simp

lemma dec_digits: "\<forall>c\<in>set (dec n). is_digit c"
proof (induction n rule: dec.induct)
  case (1 n)
  then show ?case by (cases "n < 10") (simp_all add: dec.simps [of n])
qed

lemma undec_dec [simp]: "undec (dec n) = n"
proof (induction n rule: dec.induct)
  case (1 n)
  then show ?case by (cases "n < 10") (simp_all add: dec.simps [of n])
qed

lemma dec_hd_zero: "hd (dec n) = CHR ''0'' \<longleftrightarrow> n = 0"
proof (induction n rule: dec.induct)
  case (1 n)
  show ?case
  proof (cases "n < 10")
    case True
    then show ?thesis
      by (metis dec.simps digit_char_0 digit_val_digit_char digit_val_zero list.sel(1))
  next
    case False
    then have "hd (dec n) = hd (dec (n div 10))" by (simp add: dec.simps [of n])
    with False "1.IH" show ?thesis by simp
  qed
qed

lemma dec_undec:
  assumes "ds \<noteq> []" and "\<forall>c\<in>set ds. is_digit c" and "hd ds \<noteq> CHR ''0'' \<or> length ds = 1"
  shows "dec (undec ds) = ds"
  using assms
proof (induction ds rule: rev_induct)
  case Nil
  then show ?case by simp
next
  case (snoc c ds)
  have c: "is_digit c" and ds: "\<forall>x\<in>set ds. is_digit x" using snoc.prems by auto
  then have cv: "digit_val c < 10" by (simp add: digit_val_less)
  show ?case
  proof (cases "ds = []")
    case True
    with c cv show ?thesis by (simp add: dec.simps)
  next
    case False
    with snoc.prems have hd: "hd ds \<noteq> CHR ''0''" by auto
    with False ds have "dec (undec ds) = ds" by (intro snoc.IH) auto
    moreover from this hd have "undec ds \<noteq> 0" by (metis dec_hd_zero)
    ultimately show ?thesis
      using cv c by (simp add: dec.simps [of "undec ds * 10 + digit_val c"])
  qed
qed

lemma dec_inj: "dec m = dec n \<Longrightarrow> m = n"
  by (metis undec_dec)

lemma length_dec_le: "0 < k \<Longrightarrow> length (dec n) \<le> k \<longleftrightarrow> n < 10 ^ k"
proof (induction k arbitrary: n rule: nat_induct_non_zero)
  case 1
  show ?case by (simp add: dec.simps [of n] Suc_le_eq)
next
  case (Suc k)
  show ?case
  proof (cases "n < 10")
    case True
    have "(10::nat) \<le> 10 ^ Suc k" by simp
    with True have "n < 10 ^ Suc k" by (rule less_le_trans)
    with True show ?thesis by (simp add: dec.simps [of n])
  next
    case False
    then have "length (dec n) \<le> Suc k \<longleftrightarrow> n div 10 < 10 ^ k"
      by (simp add: dec.simps [of n] Suc.IH)
    also have "\<dots> \<longleftrightarrow> n < 10 ^ Suc k" by (simp add: div_less_iff_less_mult mult.commute)
    finally show ?thesis .
  qed
qed

lemma length_dec_pos [simp]: "0 < length (dec n)"
  by simp

lemma undec_replicate_zero [simp]: "undec (replicate k (CHR ''0'')) = 0"
  by (induction k) (simp_all add: undec_Cons)

lemma undec_eq_0_iff:
  "\<forall>c\<in>set ds. is_digit c \<Longrightarrow> undec ds = 0 \<longleftrightarrow> (\<forall>c\<in>set ds. c = CHR ''0'')"
  by (induction ds rule: rev_induct) (auto simp: digit_val_eq_0_iff)

lemma undec_inj:
  assumes "length as = length bs" "\<forall>c\<in>set as. is_digit c" "\<forall>c\<in>set bs. is_digit c" "undec as = undec bs"
  shows "as = bs"
  using assms
proof (induction as arbitrary: bs rule: rev_induct)
  case Nil
  then show ?case by simp
next
  case (snoc a as)
  then obtain b bs' where bs: "bs = bs' @ [b]" by (cases bs rule: rev_cases) auto
  have "undec as * 10 + digit_val a = undec bs' * 10 + digit_val b" "digit_val a < 10" "digit_val b < 10"
    using snoc.prems by (auto simp: bs digit_val_less)
  then have "undec as = undec bs'" "digit_val a = digit_val b" by presburger+
  moreover have "a = b" using \<open>digit_val a = digit_val b\<close> snoc.prems
    by (metis bs digit_char_digit_val in_set_conv_decomp)
  ultimately show ?case using snoc.prems snoc.IH [of bs'] by (simp add: bs)
qed

text \<open>Rust's \<open>/\<close> on signed integers truncates towards zero.\<close>

definition trunc_div :: "int \<Rightarrow> int \<Rightarrow> int" where
  "trunc_div num den =
     (let q = \<bar>num\<bar> div \<bar>den\<bar> in if (num < 0) = (den < 0) then q else - q)"

lemma trunc_div_nonneg: "0 \<le> num \<Longrightarrow> 0 < den \<Longrightarrow> trunc_div num den = num div den"
  unfolding trunc_div_def Let_def by simp

section \<open>Text\<close>

text \<open>\<open>str::split_once\<close>, \<open>str::strip_suffix\<close> and \<open>char::is_ascii_alphanumeric\<close>.\<close>

fun split_once :: "string \<Rightarrow> string \<Rightarrow> (string \<times> string) option" where
  "split_once pat [] = (if pat = [] then Some ([], []) else None)"
| "split_once pat (c # cs) =
     (if take (length pat) (c # cs) = pat then Some ([], drop (length pat) (c # cs))
      else map_option (map_prod ((#) c) id) (split_once pat cs))"

definition strip_suffix :: "string \<Rightarrow> string \<Rightarrow> string option" where
  "strip_suffix suf s =
     (let n = length s - length suf in
      if length suf \<le> length s \<and> drop n s = suf then Some (take n s) else None)"

definition ascii_alphanumeric :: "char \<Rightarrow> bool" where
  "ascii_alphanumeric c \<longleftrightarrow>
     is_digit c \<or> (65 \<le> (of_char c :: nat) \<and> (of_char c :: nat) \<le> 90) \<or>
     (97 \<le> (of_char c :: nat) \<and> (of_char c :: nat) \<le> 122)"

section \<open>Three interfaces\<close>

text \<open>
  An encoder with its decoder. \<open>wf\<close> is what the decoder needs of a value; the law is that
  decoding an encoded value gives it back. Clients get that encoding loses nothing.
\<close>

locale roundtrip =
  fixes enc :: "'a \<Rightarrow> 'b"
    and dcd :: "'b \<Rightarrow> 'a option"
    and wf :: "'a \<Rightarrow> bool"
  assumes dcd_enc: "wf x \<Longrightarrow> dcd (enc x) = Some x"
begin

lemma enc_inj: "wf x \<Longrightarrow> wf y \<Longrightarrow> enc x = enc y \<Longrightarrow> x = y"
  by (metis dcd_enc option.inject)

lemma enc_eq_iff: "wf x \<Longrightarrow> wf y \<Longrightarrow> enc x = enc y \<longleftrightarrow> x = y"
  using enc_inj by blast

lemma inj_on_enc: "inj_on enc {x. wf x}"
  by (auto intro: inj_onI enc_inj)

lemma enc_not_none: "wf x \<Longrightarrow> dcd (enc x) \<noteq> None"
  by (simp add: dcd_enc)

end

text \<open>An exact codec also accepts nothing but encodings of well-formed values.\<close>

locale exact_codec = roundtrip +
  assumes enc_dcd: "dcd b = Some x \<Longrightarrow> wf x \<and> enc x = b"
begin

lemma dcd_wf: "dcd b = Some x \<Longrightarrow> wf x"
  by (simp add: enc_dcd)

lemma dcd_inj: "dcd b = Some x \<Longrightarrow> dcd c = Some x \<Longrightarrow> b = c"
  by (metis enc_dcd)

lemma dcd_iff: "dcd b = Some x \<longleftrightarrow> wf x \<and> enc x = b"
  using dcd_enc enc_dcd by blast

end

text \<open>
  A latch: a cell of a larger state that is empty until the first write and never changes
  again, whatever is written later.
\<close>

locale latch =
  fixes peek :: "'s \<Rightarrow> 'v option"
    and put :: "'v \<Rightarrow> 's \<Rightarrow> 's"
  assumes put_first: "peek s = None \<Longrightarrow> peek (put v s) = Some v"
    and put_again: "peek s = Some w \<Longrightarrow> peek (put v s) = Some w"
begin

lemma put_set: "peek (put v s) \<noteq> None"
  using put_first put_again by (cases "peek s") auto

lemma put_idem: "peek (put w (put v s)) = peek (put v s)"
proof -
  obtain u where "peek (put v s) = Some u" using put_set [of v s] by blast
  then show ?thesis by (simp add: put_again)
qed

lemma puts_keep: "peek s = Some w \<Longrightarrow> peek (fold put vs s) = Some w"
  by (induction vs arbitrary: s) (auto simp: put_again)

lemma puts_first: "peek s = None \<Longrightarrow> peek (fold put (v # vs) s) = Some v"
  by (simp add: puts_keep put_first)

end

text \<open>
  A consumer of a stream that arrives in pieces, on the states it can be in: consuming nothing
  changes nothing, and consuming a concatenation is consuming the pieces in order. Clients get
  that the way a stream was cut cannot matter.
\<close>

locale incremental =
  fixes inv :: "'s \<Rightarrow> bool"
    and consume :: "'x list \<Rightarrow> 's \<Rightarrow> 's"
  assumes consume_inv: "inv s \<Longrightarrow> inv (consume xs s)"
    and consume_Nil: "inv s \<Longrightarrow> consume [] s = s"
    and consume_append: "inv s \<Longrightarrow> consume (xs @ ys) s = consume ys (consume xs s)"
begin

lemma consume_pieces: "inv s \<Longrightarrow> fold consume pieces s = consume (concat pieces) s"
  by (induction pieces arbitrary: s) (simp_all add: consume_inv consume_Nil consume_append)

lemma same_stream: "inv s \<Longrightarrow> concat ps = concat qs \<Longrightarrow> fold consume ps s = fold consume qs s"
  by (simp add: consume_pieces)

end

end
