(* ===== verification/Ordered_Map.thy ===== *)
theory Ordered_Map
  imports Prelude
begin

text \<open>
  \<open>BTreeMap\<close> as the strictly key-sorted association list it iterates as, and \<open>BTreeSet\<close> as the
  strictly sorted list of its elements. The representation is canonical: two maps with the same
  lookups are the same list.
\<close>

type_synonym ('k, 'v) btree_map = "('k \<times> 'v) list"

definition btree_ok :: "('k::linorder, 'v) btree_map \<Rightarrow> bool" where
  "btree_ok m \<longleftrightarrow> sorted_wrt (<) (map fst m)"

fun btree_insert :: "'k::linorder \<Rightarrow> 'v \<Rightarrow> ('k, 'v) btree_map \<Rightarrow> ('k, 'v) btree_map" where
  "btree_insert k v [] = [(k, v)]"
| "btree_insert k v ((k', v') # m) =
     (if k < k' then (k, v) # (k', v') # m
      else if k = k' then (k, v) # m
      else (k', v') # btree_insert k v m)"

definition btree_remove :: "'k \<Rightarrow> ('k, 'v) btree_map \<Rightarrow> ('k, 'v) btree_map" where
  "btree_remove k m = filter (\<lambda>p. fst p \<noteq> k) m"

definition btree_of :: "('k::linorder \<times> 'v) list \<Rightarrow> ('k, 'v) btree_map" where
  "btree_of ps = foldl (\<lambda>m p. btree_insert (fst p) (snd p) m) [] ps"

lemma btree_ok_Nil [simp]: "btree_ok []"
  by (simp add: btree_ok_def)

lemma map_of_btree_insert [simp]: "map_of (btree_insert k v m) = (map_of m)(k \<mapsto> v)"
  by (induction k v m rule: btree_insert.induct) auto

lemma keys_btree_insert [simp]: "fst ` set (btree_insert k v m) = insert k (fst ` set m)"
  by (induction k v m rule: btree_insert.induct) auto

lemma btree_ok_insert [simp]: "btree_ok m \<Longrightarrow> btree_ok (btree_insert k v m)"
proof (induction k v m rule: btree_insert.induct)
  case (2 k v k' v' m)
  have keys: "set (map fst (btree_insert k v m)) = insert k (set (map fst m))"
    using keys_btree_insert [of k v m] by simp
  show ?case
  proof (cases "k < k'")
    case True
    then show ?thesis using 2(2) by (force simp: btree_ok_def)
  next
    case False
    then show ?thesis using 2 keys unfolding btree_ok_def by (cases "k = k'") (simp_all del: set_map)
  qed
qed (simp add: btree_ok_def)

lemma btree_ok_distinct: "btree_ok m \<Longrightarrow> distinct (map fst m) \<and> sorted (map fst m)"
  unfolding btree_ok_def using strict_sorted_iff by auto

lemma btree_ok_remove [simp]: "btree_ok m \<Longrightarrow> btree_ok (btree_remove k m)"
  unfolding btree_ok_def btree_remove_def by (induction m) auto

lemma map_of_btree_remove [simp]: "map_of (btree_remove k m) = (map_of m)(k := None)"
  by (induction m) (auto simp: btree_remove_def)

lemma btree_ok_foldl: "btree_ok m \<Longrightarrow> btree_ok (foldl (\<lambda>m p. btree_insert (fst p) (snd p) m) m ps)"
  by (induction ps arbitrary: m) simp_all

lemma btree_ok_of [simp]: "btree_ok (btree_of ps)"
  by (simp add: btree_of_def btree_ok_foldl)

lemma map_of_foldl_btree:
  "map_of (foldl (\<lambda>m p. btree_insert (fst p) (snd p) m) m ps) = map_of (rev ps @ m)"
  by (induction ps arbitrary: m) (auto simp: map_add_def fun_eq_iff split: option.splits)

lemma map_of_btree_of: "map_of (btree_of ps) = map_of (rev ps)"
  by (simp add: btree_of_def map_of_foldl_btree)

lemma btree_ext:
  assumes "btree_ok m" "btree_ok n" "map_of m = map_of n"
  shows "m = n"
proof (rule map_sorted_distinct_set_unique [of fst])
  note d = btree_ok_distinct [OF assms(1)] btree_ok_distinct [OF assms(2)]
  show "sorted (map fst m)" "distinct (map fst m)" "sorted (map fst n)" "distinct (map fst n)"
    using d by auto
  have "(k, v) \<in> set m \<longleftrightarrow> (k, v) \<in> set n" for k v
    using d assms(3) by (metis map_of_eq_Some_iff)
  then show eq: "set m = set n" by auto
  show "inj_on fst (set m \<union> set n)" using d unfolding eq by (simp add: distinct_map)
qed

lemma btree_of_id: "btree_ok m \<Longrightarrow> btree_of m = m"
proof (rule btree_ext)
  assume "btree_ok m"
  then have "distinct (map fst m)" by (simp add: btree_ok_distinct)
  then have "map_of (rev m) = map_of m"
    by (intro map_of_inject_set [THEN iffD2]) (simp_all flip: rev_map)
  then show "map_of (btree_of m) = map_of m" by (simp add: map_of_btree_of)
qed simp_all

section \<open>Sets\<close>

text \<open>Collecting into a \<open>BTreeSet\<close>: the strictly sorted list of the elements.\<close>

definition btree_set :: "'a::linorder list \<Rightarrow> 'a list" where
  "btree_set xs = map fst (btree_of (map (\<lambda>x. (x, ())) xs))"

lemma btree_set_set [simp]: "set (btree_set xs) = set xs"
proof -
  have "fst ` set (foldl (\<lambda>m p. btree_insert (fst p) (snd p) m) m ps) = fst ` set m \<union> fst ` set ps"
    for m :: "('a::linorder, unit) btree_map" and ps
    by (induction ps arbitrary: m) auto
  then show ?thesis by (simp add: btree_set_def btree_of_def image_image)
qed

lemma btree_set_sorted: "sorted_wrt (<) (btree_set xs)"
  using btree_ok_of [of "map (\<lambda>x. (x, ())) xs"] by (simp add: btree_set_def btree_ok_def)

lemma btree_set_distinct [simp]: "distinct (btree_set xs)"
  using btree_set_sorted [of xs] by (simp add: strict_sorted_iff)

lemma btree_set_length: "length (btree_set xs) = length xs \<longleftrightarrow> distinct xs"
  by (metis btree_set_distinct btree_set_set card_distinct distinct_card)

end
