(* ===== verification/Json.thy ===== *)
theory Json
  imports Ordered_Map
begin

text \<open>
  What serde hands to the code: a JSON value as its tree of events. An object is the list of
  its members in the order they were read, so a repeated key is still visible, which is what
  the hand-written visitors of the code look at. The tree stands for serde's data model, not
  for serde's parser: whether a text is JSON at all is a parameter wherever it matters.

  \<open>de_string\<close>, \<open>de_u64\<close> and \<open>de_bool\<close> are the primitive
  \<open>Deserialize\<close> impls (\<open>next_value::<String>()\<close> and so on): a value of any other
  JSON type is serde's invalid-type error.
\<close>

datatype json =
    JNull
  | JBool bool
  | JInt int
  | JFloat string
  | JStr string
  | JArr "json list"
  | JObj "(string \<times> json) list"

datatype de_error =
    DuplicateField string
  | MissingField string
  | UnknownField string
  | UnknownVariant string
  | InvalidType
  | Custom

fun de_string :: "json \<Rightarrow> de_error + string" where
  "de_string (JStr s) = Inr s"
| "de_string _ = Inl InvalidType"

fun de_bool :: "json \<Rightarrow> de_error + bool" where
  "de_bool (JBool b) = Inr b"
| "de_bool _ = Inl InvalidType"

definition u64_max :: int where
  "u64_max = 2 ^ 64 - 1"

text \<open>\<open>u64::try_from(n).unwrap_or(u64::MAX)\<close>.\<close>

definition u64_of_usize :: "nat \<Rightarrow> nat" where
  "u64_of_usize n = (if int n \<le> u64_max then n else nat u64_max)"

lemma u64_of_usize_le [simp]: "int (u64_of_usize n) \<le> u64_max"
  by (simp add: u64_of_usize_def u64_max_def)

fun de_u64 :: "json \<Rightarrow> de_error + nat" where
  "de_u64 (JInt n) = (if 0 \<le> n \<and> n \<le> u64_max then Inr (nat n) else Inl Custom)"
| "de_u64 _ = Inl InvalidType"

text \<open>\<open>Value::get\<close>, \<open>as_u64\<close> and \<open>as_str\<close> of a parsed value.\<close>

fun json_get :: "string \<Rightarrow> json \<Rightarrow> json option" where
  "json_get k (JObj ms) = map_of ms k"
| "json_get k _ = None"

fun json_u64 :: "json \<Rightarrow> nat option" where
  "json_u64 (JInt n) = (if 0 \<le> n \<and> n \<le> u64_max then Some (nat n) else None)"
| "json_u64 _ = None"

fun json_str :: "json \<Rightarrow> string option" where
  "json_str (JStr s) = Some s"
| "json_str _ = None"

text \<open>\<open>Option<T>\<close>: null is absent, anything else is a \<open>T\<close>.\<close>

fun de_option :: "(json \<Rightarrow> de_error + 'a) \<Rightarrow> json \<Rightarrow> de_error + 'a option" where
  "de_option f JNull = Inr None"
| "de_option f j = map_sum id Some (f j)"

text \<open>\<open>deserialize_map\<close> with a visitor that has only \<open>visit_map\<close>.\<close>

fun de_object :: "((string \<times> json) list \<Rightarrow> de_error + 'a) \<Rightarrow> json \<Rightarrow> de_error + 'a" where
  "de_object visit (JObj members) = visit members"
| "de_object visit _ = Inl InvalidType"

fun json_opt :: "('a \<Rightarrow> json) \<Rightarrow> 'a option \<Rightarrow> json" where
  "json_opt f None = JNull"
| "json_opt f (Some x) = f x"

lemma de_string_Inr_iff [res_simps]: "de_string j = Inr s \<longleftrightarrow> j = JStr s"
  by (cases j) auto

lemma de_bool_Inr_iff [res_simps]: "de_bool j = Inr b \<longleftrightarrow> j = JBool b"
  by (cases j) auto

lemma de_u64_Inr_iff [res_simps]:
  "de_u64 j = Inr n \<longleftrightarrow> j = JInt (int n) \<and> int n \<le> u64_max"
  by (cases j) auto

lemma de_object_Inr_iff [res_simps]:
  "de_object visit j = Inr x \<longleftrightarrow> (\<exists>ms. j = JObj ms \<and> visit ms = Inr x)"
  by (cases j) auto

section \<open>A parsed value\<close>

text \<open>
  \<open>serde_json::Value\<close>: the parse that keeps one member for a repeated key (the last) and
  keeps the members of every object sorted, because its map is a \<open>BTreeMap\<close>.
\<close>

primrec json_value :: "json \<Rightarrow> json" where
  "json_value JNull = JNull"
| "json_value (JBool b) = JBool b"
| "json_value (JInt n) = JInt n"
| "json_value (JFloat s) = JFloat s"
| "json_value (JStr s) = JStr s"
| "json_value (JArr js) = JArr (map json_value js)"
| "json_value (JObj ms) = JObj (btree_of (map (map_prod id json_value) ms))"

definition de_value :: "json \<Rightarrow> de_error + json" where
  "de_value j = Inr (json_value j)"

definition de_map :: "json \<Rightarrow> de_error + (string \<times> json) list" where
  "de_map = de_object (\<lambda>ms. Inr (btree_of (map (map_prod id json_value) ms)))"

definition json_parsed :: "json \<Rightarrow> bool" where
  "json_parsed j \<longleftrightarrow> json_value j = j"

definition map_parsed :: "(string \<times> json) list \<Rightarrow> bool" where
  "map_parsed ms \<longleftrightarrow> json_parsed (JObj ms)"

lemma de_value_parsed: "json_parsed j \<Longrightarrow> de_value j = Inr j"
  by (simp add: de_value_def json_parsed_def)

lemma de_map_parsed: "map_parsed ms \<Longrightarrow> de_map (JObj ms) = Inr ms"
  by (simp add: de_map_def map_parsed_def json_parsed_def)

section \<open>Arrays\<close>

fun de_list :: "(json \<Rightarrow> de_error + 'a) \<Rightarrow> json list \<Rightarrow> de_error + 'a list" where
  "de_list f [] = Inr []"
| "de_list f (j # js) = res_bind (f j) (\<lambda>x. res_bind (de_list f js) (\<lambda>xs. Inr (x # xs)))"

definition de_vec :: "(json \<Rightarrow> de_error + 'a) \<Rightarrow> json \<Rightarrow> de_error + 'a list" where
  "de_vec f j = (case j of JArr js \<Rightarrow> de_list f js | _ \<Rightarrow> Inl InvalidType)"

lemma de_vec_map: "(\<And>x. x \<in> set xs \<Longrightarrow> f (g x) = Inr x) \<Longrightarrow> de_vec f (JArr (map g xs)) = Inr xs"
proof -
  assume "\<And>x. x \<in> set xs \<Longrightarrow> f (g x) = Inr x"
  then have "de_list f (map g xs) = Inr xs" by (induction xs) auto
  then show ?thesis by (simp add: de_vec_def)
qed

section \<open>Derived structs\<close>

text \<open>
  What \<open>#[derive(Deserialize)]\<close> with \<open>deny_unknown_fields\<close> accepts behind the \<open>object_only!\<close>
  wrapper of \<open>core/wire/src/shape.rs\<close>: an object whose keys are known and not repeated. The
  fields are then read one by one; which of several faults is reported first is not modelled
  (to the code every fault is the same refusal). A derived serialisation writes the members in
  order and leaves out the skipped ones.
\<close>

definition known_fields :: "string list \<Rightarrow> (string \<times> json) list \<Rightarrow> de_error + unit" where
  "known_fields fields ms =
     (case List.find (\<lambda>k. k \<notin> set fields) (map fst ms) of
        Some k \<Rightarrow> Inl (UnknownField k)
      | None \<Rightarrow> if distinct (map fst ms) then Inr ()
                else Inl (DuplicateField (hd (filter (\<lambda>k. 1 < count_list (map fst ms) k) (map fst ms)))))"

definition de_struct ::
  "string list \<Rightarrow> ((string \<Rightarrow> json option) \<Rightarrow> de_error + 'a) \<Rightarrow> json \<Rightarrow> de_error + 'a" where
  "de_struct fields build =
     de_object (\<lambda>ms. res_bind (known_fields fields ms) (\<lambda>_. build (map_of ms)))"

text \<open>A required field, and a field with a default.\<close>

definition req :: "(string \<Rightarrow> json option) \<Rightarrow> string \<Rightarrow> (json \<Rightarrow> de_error + 'a) \<Rightarrow> de_error + 'a" where
  "req get k f = res_bind (ok_or (MissingField k) (get k)) f"

definition dflt ::
  "(string \<Rightarrow> json option) \<Rightarrow> string \<Rightarrow> 'a \<Rightarrow> (json \<Rightarrow> de_error + 'a) \<Rightarrow> de_error + 'a" where
  "dflt get k d f = (case get k of None \<Rightarrow> Inr d | Some j \<Rightarrow> f j)"

definition present :: "(string \<times> json option) list \<Rightarrow> (string \<times> json) list" where
  "present kvs = List.map_filter (\<lambda>(k, v). map_option (Pair k) v) kvs"

definition ser_struct :: "(string \<times> json option) list \<Rightarrow> json" where
  "ser_struct kvs = JObj (present kvs)"

lemma present_keys: "set (map fst (present kvs)) \<subseteq> set (map fst kvs)"
  by (force simp: present_def map_filter_def)

lemma present_Nil: "present [] = []"
  by (simp add: present_def)

lemma present_Cons: "present ((k, v) # kvs) = (case v of None \<Rightarrow> present kvs | Some j \<Rightarrow> (k, j) # present kvs)"
  by (simp add: present_def List.map_filter_simps split: option.split)

lemma present_distinct: "distinct (map fst kvs) \<Longrightarrow> distinct (map fst (present kvs))"
proof (induction kvs)
  case (Cons p kvs)
  obtain k v where p: "p = (k, v)" by fastforce
  with Cons show ?case using present_keys [of kvs] by (cases v) (auto simp: present_Cons)
qed (simp add: present_Nil)

lemma present_get:
  "distinct (map fst kvs) \<Longrightarrow> map_of (present kvs) k = Option.bind (map_of kvs k) id"
proof (induction kvs)
  case (Cons p kvs)
  obtain k' v where p: "p = (k', v)" by fastforce
  have "k' \<notin> fst ` set (present kvs)" using Cons(2) present_keys [of kvs] by (auto simp: p)
  then have "map_of (present kvs) k' = None" by (simp add: map_of_eq_None_iff)
  with Cons p show ?case by (cases v) (auto simp: present_Cons)
qed (simp add: present_Nil)

lemma known_fields_ok: "set (map fst ms) \<subseteq> set fields \<Longrightarrow> distinct (map fst ms) \<Longrightarrow> known_fields fields ms = Inr ()"
proof -
  assume "set (map fst ms) \<subseteq> set fields" "distinct (map fst ms)"
  then have "List.find (\<lambda>k. k \<notin> set fields) (map fst ms) = None" by (auto simp: find_None_iff)
  with \<open>distinct (map fst ms)\<close> show ?thesis by (simp add: known_fields_def)
qed

lemma known_fields_Inr_iff [res_simps]:
  "known_fields fields ms = Inr u \<longleftrightarrow> set (map fst ms) \<subseteq> set fields \<and> distinct (map fst ms)"
proof (cases "List.find (\<lambda>k. k \<notin> set fields) (map fst ms)")
  case None
  then have "set (map fst ms) \<subseteq> set fields" by (auto simp: find_None_iff)
  with None show ?thesis by (simp add: known_fields_def)
next
  case (Some k)
  then show ?thesis using find_SomeD [OF Some] by (auto simp: known_fields_def)
qed

lemma de_ser_struct:
  assumes "distinct (map fst kvs)" "set (map fst kvs) \<subseteq> set fields"
  shows "de_struct fields build (ser_struct kvs) = build (\<lambda>k. Option.bind (map_of kvs k) id)"
proof -
  have "known_fields fields (present kvs) = Inr ()"
    by (rule known_fields_ok) (use present_keys [of kvs] present_distinct [OF assms(1)] assms(2) in blast)+
  moreover have "map_of (present kvs) = (\<lambda>k. Option.bind (map_of kvs k) id)"
    by (rule ext) (rule present_get [OF assms(1)])
  ultimately show ?thesis by (simp add: de_struct_def ser_struct_def)
qed

text \<open>A derived enum without payloads: its name as a string, or as the key of a null.\<close>

definition de_unit_enum :: "(string \<times> 'a) list \<Rightarrow> json \<Rightarrow> de_error + 'a" where
  "de_unit_enum table j =
     (case j of
        JStr s \<Rightarrow> ok_or (UnknownVariant s) (map_of table s)
      | JObj [(s, v)] \<Rightarrow>
          res_bind (ok_or (UnknownVariant s) (map_of table s)) (\<lambda>x. if v = JNull then Inr x else Inl InvalidType)
      | _ \<Rightarrow> Inl InvalidType)"

definition some_json :: "('a \<Rightarrow> json) \<Rightarrow> 'a option \<Rightarrow> json option" where
  "some_json f v = map_option f v"

named_theorems wire_simps \<open>reading back what was written\<close>

lemma req_Some [wire_simps]: "get k = Some j \<Longrightarrow> req get k f = f j"
  by (simp add: req_def)

lemma dflt_some_json [wire_simps]:
  "get k = some_json g v \<Longrightarrow> (\<And>x. v = Some x \<Longrightarrow> f (g x) = Inr x \<and> g x \<noteq> JNull) \<Longrightarrow>
   dflt get k None (de_option f) = Inr v"
proof (cases v)
  case (Some x)
  assume "get k = some_json g v" "\<And>x. v = Some x \<Longrightarrow> f (g x) = Inr x \<and> g x \<noteq> JNull"
  with Some have "get k = Some (g x)" "f (g x) = Inr x" "g x \<noteq> JNull" by (simp_all add: some_json_def)
  then show ?thesis using Some by (cases "g x") (simp_all add: dflt_def)
qed (simp add: dflt_def some_json_def)

end
