(* ===== verification/Money.thy ===== *)
theory Money
  imports Prelude Json
begin

text \<open>
  The crate \<open>sumer-money\<close> (\<open>core/money/src\<close>): asset identifiers, exact decimal amounts,
  their one textual grammar, arithmetic and comparison, and the wire object. A
  \<open>num_bigint::BigInt\<close> is a mathematical integer (\<^typ>\<open>int\<close>) and
  \<open>to_str_radix(10)\<close> of its magnitude is its decimal numeral (\<^const>\<open>dec\<close>). The scale,
  a \<open>u8\<close>, is a \<^typ>\<open>nat\<close> that the one conversion into it keeps below 256.
\<close>

section \<open>Limits and errors\<close>

definition MAX_SCALE :: nat where "MAX_SCALE = 38"
definition MAX_DIGITS :: nat where "MAX_DIGITS = 128"
definition MAX_ASSET_ID_LEN :: nat where "MAX_ASSET_ID_LEN = 128"
definition MAX_INPUT_LEN :: nat where "MAX_INPUT_LEN = 192"

named_theorems limits \<open>the numeric limits of the wire contract\<close>

lemmas [limits] = MAX_SCALE_def MAX_DIGITS_def MAX_ASSET_ID_LEN_def MAX_INPUT_LEN_def

datatype money_error =
    Empty
  | InputTooLong nat
  | InvalidByte nat
  | LeadingZero nat
  | SignOnZero
  | MissingIntegerPart
  | MissingFractionDigits
  | ExponentNotation nat
  | TooManyDigits nat
  | ScaleTooLarge nat
  | CoefficientOverflow
  | AssetMismatch
  | AssetIdEmpty
  | AssetIdTooLong nat
  | AssetIdInvalidByte nat

section \<open>Asset identifiers\<close>

datatype asset_id = AssetId (as_str: string)

definition printable :: "char \<Rightarrow> bool" where
  "printable b \<longleftrightarrow> 33 \<le> (of_char b :: nat) \<and> (of_char b :: nat) \<le> 126"

definition asset_new :: "string \<Rightarrow> money_error + asset_id" where
  "asset_new s =
     (if s = [] then Inl AssetIdEmpty
      else if MAX_ASSET_ID_LEN < length s then Inl (AssetIdTooLong (length s))
      else case position (\<lambda>b. \<not> printable b) s of
             Some off \<Rightarrow> Inl (AssetIdInvalidByte off)
           | None \<Rightarrow> Inr (AssetId s))"

text \<open>The derived \<open>Ord\<close>: the bytes, lexicographically.\<close>

instantiation asset_id :: linorder
begin

definition less_eq_asset_id :: "asset_id \<Rightarrow> asset_id \<Rightarrow> bool" where
  "less_eq_asset_id a b \<longleftrightarrow> as_str a \<le> as_str b"

definition less_asset_id :: "asset_id \<Rightarrow> asset_id \<Rightarrow> bool" where
  "less_asset_id a b \<longleftrightarrow> as_str a < as_str b"

instance
  by standard (auto simp: less_eq_asset_id_def less_asset_id_def asset_id.expand)

end

definition asset_ok :: "asset_id \<Rightarrow> bool" where
  "asset_ok a \<longleftrightarrow> as_str a \<noteq> [] \<and> length (as_str a) \<le> MAX_ASSET_ID_LEN \<and>
     (\<forall>b\<in>set (as_str a). printable b)"

lemma asset_new_Inr_iff [res_simps]: "asset_new s = Inr a \<longleftrightarrow> as_str a = s \<and> asset_ok a"
proof (cases "position (\<lambda>b. \<not> printable b) s")
  case None
  then have "\<forall>b\<in>set s. printable b" by (simp add: position_None_iff)
  with None show ?thesis by (cases a) (auto simp: asset_new_def asset_ok_def)
next
  case (Some i)
  then have "\<exists>b\<in>set s. \<not> printable b" using position_SomeD nth_mem by blast
  with Some show ?thesis by (cases a) (auto simp: asset_new_def asset_ok_def)
qed

interpretation asset_codec: exact_codec as_str "\<lambda>s. res_ok (asset_new s)" asset_ok
  by unfold_locales (auto simp: res_simps)

section \<open>Amounts\<close>

record amount =
  asset :: asset_id
  units :: int
  scale :: nat

definition digit_count :: "int \<Rightarrow> nat" where
  "digit_count n = length (dec (nat \<bar>n\<bar>))"

definition checked :: "asset_id \<Rightarrow> int \<Rightarrow> nat \<Rightarrow> money_error + amount" where
  "checked a u k =
     (if MAX_DIGITS < digit_count u then Inl (TooManyDigits (digit_count u))
      else if MAX_SCALE < k then Inl (ScaleTooLarge k)
      else Inr \<lparr>asset = a, units = u, scale = k\<rparr>)"

definition digits_to_bigint :: "string \<Rightarrow> int" where
  "digits_to_bigint ds = foldl (\<lambda>acc b. acc * 10 + int (digit_val b)) 0 ds"

text \<open>The sign, the digits before the point, then everything after them.\<close>

definition parse_sign :: "string \<Rightarrow> bool \<times> string" where
  "parse_sign s = (case s of b # tail \<Rightarrow> if b = CHR ''-'' then (True, tail) else (False, s)
                           | [] \<Rightarrow> (False, s))"

definition parse_int_part :: "nat \<Rightarrow> string \<Rightarrow> money_error + string \<times> string" where
  "parse_int_part int_start rest =
     (case rest of
        [] \<Rightarrow> Inl MissingIntegerPart
      | d # tail \<Rightarrow>
          if d = CHR ''.'' then Inl MissingIntegerPart
          else if d = CHR ''0'' then
            (if (case tail of c # _ \<Rightarrow> is_digit c | [] \<Rightarrow> False) then Inl (LeadingZero int_start)
             else Inr ([d], tail))
          else if is_digit d then Inr (takeWhile is_digit rest, dropWhile is_digit rest)
          else Inl (InvalidByte int_start))"

definition is_exp :: "char \<Rightarrow> bool" where
  "is_exp b \<longleftrightarrow> b = CHR ''e'' \<or> b = CHR ''E''"

definition parse_frac_part :: "nat \<Rightarrow> string \<Rightarrow> money_error + string \<times> string \<times> nat" where
  "parse_frac_part len after_int =
     (case after_int of
        [] \<Rightarrow> Inr (after_int, after_int, 0)
      | d # frac_rest \<Rightarrow>
          if d = CHR ''.'' then
            (let count = length (takeWhile is_digit frac_rest) in
             if count = 0 then
               (let off = len - length frac_rest in
                case frac_rest of
                  [] \<Rightarrow> Inl MissingFractionDigits
                | b # _ \<Rightarrow> if is_exp b then Inl (ExponentNotation off) else Inl (InvalidByte off))
             else Inr (take count frac_rest, drop count frac_rest, count))
          else if is_exp d then Inl (ExponentNotation (len - length after_int))
          else Inl (InvalidByte (len - length after_int)))"

definition parse :: "asset_id \<Rightarrow> string \<Rightarrow> money_error + amount" where
  "parse a s =
     (if MAX_INPUT_LEN < length s then Inl (InputTooLong (length s))
      else if s = [] then Inl Empty
      else
        let len = length s; (neg, rest) = parse_sign s; int_start = len - length rest in
        res_bind (parse_int_part int_start rest) (\<lambda>(int_digits, after_int).
        res_bind (parse_frac_part len after_int) (\<lambda>(frac_digits, tail, scale_count).
          case tail of
            b # _ \<Rightarrow> (let off = len - length tail in
                       if is_exp b then Inl (ExponentNotation off) else Inl (InvalidByte off))
          | [] \<Rightarrow>
              if neg \<and> int_digits = ''0'' \<and> list_all (\<lambda>b. b = CHR ''0'') frac_digits
              then Inl SignOnZero
              else if 255 < scale_count then Inl (ScaleTooLarge scale_count)
              else
                let magnitude = digits_to_bigint (int_digits @ frac_digits) in
                checked a (if neg then - magnitude else magnitude) scale_count)))"

definition is_zero :: "amount \<Rightarrow> bool" where
  "is_zero x \<longleftrightarrow> units x = 0"

definition pow10 :: "nat \<Rightarrow> int" where
  "pow10 e = 10 ^ e"

definition rescale_units :: "int \<Rightarrow> nat \<Rightarrow> nat \<Rightarrow> int" where
  "rescale_units u from_scale to_scale =
     (if from_scale = to_scale then u else u * pow10 (to_scale - from_scale))"

definition amount_add :: "amount \<Rightarrow> amount \<Rightarrow> money_error + amount" where
  "amount_add x y =
     (if asset x \<noteq> asset y then Inl AssetMismatch
      else
        let k = max (scale x) (scale y);
            a = rescale_units (units x) (scale x) k;
            b = rescale_units (units y) (scale y) k
        in map_err (\<lambda>err. case err of TooManyDigits _ \<Rightarrow> CoefficientOverflow | other \<Rightarrow> other)
             (checked (asset x) (a + b) k))"

definition amount_neg :: "amount \<Rightarrow> amount" where
  "amount_neg x = \<lparr>asset = asset x, units = - units x, scale = scale x\<rparr>"

definition amount_sub :: "amount \<Rightarrow> amount \<Rightarrow> money_error + amount" where
  "amount_sub x y = amount_add x (amount_neg y)"

datatype ordering = Less | Equal | Greater

definition cmp :: "'a::linorder \<Rightarrow> 'a \<Rightarrow> ordering" where
  "cmp a b = (if a < b then Less else if a = b then Equal else Greater)"

definition cmp_same_asset :: "amount \<Rightarrow> amount \<Rightarrow> money_error + ordering" where
  "cmp_same_asset x y =
     (if asset x \<noteq> asset y then Inl AssetMismatch
      else
        let k = max (scale x) (scale y);
            a = rescale_units (units x) (scale x) k;
            b = rescale_units (units y) (scale y) k
        in Inr (cmp a b))"

definition same_repr :: "amount \<Rightarrow> amount \<Rightarrow> bool" where
  "same_repr x y \<longleftrightarrow> asset x = asset y \<and> units x = units y \<and> scale x = scale y"

text \<open>
  The loop of \<open>normalized\<close>. The remainder of the source truncates towards zero; it is zero
  exactly when ten divides, and the division that follows is then exact.
\<close>

fun normalized_loop :: "int \<Rightarrow> nat \<Rightarrow> int \<times> nat" where
  "normalized_loop u 0 = (u, 0)"
| "normalized_loop u (Suc k) = (if u mod 10 \<noteq> 0 then (u, Suc k) else normalized_loop (u div 10) k)"

definition normalized :: "amount \<Rightarrow> int \<times> nat" where
  "normalized x = normalized_loop (units x) (scale x)"

definition amount_eq :: "amount \<Rightarrow> amount \<Rightarrow> bool" where
  "amount_eq x y \<longleftrightarrow> cmp_same_asset x y = Inr Equal"

definition partial_cmp :: "amount \<Rightarrow> amount \<Rightarrow> ordering option" where
  "partial_cmp x y = res_ok (cmp_same_asset x y)"

text \<open>What \<open>Hash\<close> feeds to the hasher, in order.\<close>

definition hash_input :: "amount \<Rightarrow> asset_id \<times> int \<times> nat" where
  "hash_input x = (asset x, normalized x)"

definition format_decimal :: "int \<Rightarrow> nat \<Rightarrow> string" where
  "format_decimal u k =
     (let magnitude = dec (nat \<bar>u\<bar>); sgn = (if u < 0 then ''-'' else []) in
      if k = 0 then sgn @ magnitude
      else if k < length magnitude then
        (let split = length magnitude - k in
         sgn @ take split magnitude @ ''.'' @ drop split magnitude)
      else sgn @ ''0.'' @ replicate (k - length magnitude) (CHR ''0'') @ magnitude)"

definition display :: "amount \<Rightarrow> string" where
  "display x = format_decimal (units x) (scale x)"

section \<open>The wire object\<close>

record amount_wire =
  wire_asset :: string
  wire_amount :: string

fun visit_amount_wire ::
  "(string \<times> json) list \<Rightarrow> string option \<Rightarrow> string option \<Rightarrow> de_error + amount_wire" where
  "visit_amount_wire [] ast amt =
     res_bind (ok_or (MissingField ''asset'') ast) (\<lambda>a.
     res_bind (ok_or (MissingField ''amount'') amt) (\<lambda>m.
     Inr \<lparr>wire_asset = a, wire_amount = m\<rparr>))"
| "visit_amount_wire ((key, v) # ms) ast amt =
     (if key = ''asset'' \<and> ast \<noteq> None then Inl (DuplicateField ''asset'')
      else if key = ''amount'' \<and> amt \<noteq> None then Inl (DuplicateField ''amount'')
      else if key = ''asset'' then res_bind (de_string v) (\<lambda>s. visit_amount_wire ms (Some s) amt)
      else if key = ''amount'' then res_bind (de_string v) (\<lambda>s. visit_amount_wire ms ast (Some s))
      else Inl (UnknownField key))"

definition de_amount_wire :: "json \<Rightarrow> de_error + amount_wire" where
  "de_amount_wire = de_object (\<lambda>ms. visit_amount_wire ms None None)"

definition try_from_wire :: "amount_wire \<Rightarrow> money_error + amount" where
  "try_from_wire w = res_bind (asset_new (wire_asset w)) (\<lambda>a. parse a (wire_amount w))"

definition de_amount :: "json \<Rightarrow> de_error + amount" where
  "de_amount j = res_bind (de_amount_wire j) (\<lambda>w. map_err (\<lambda>_. Custom) (try_from_wire w))"

definition from_amount :: "amount \<Rightarrow> amount_wire" where
  "from_amount x = \<lparr>wire_asset = as_str (asset x), wire_amount = display x\<rparr>"

definition ser_amount :: "amount \<Rightarrow> json" where
  "ser_amount x =
     JObj [(''asset'', JStr (wire_asset (from_amount x))),
           (''amount'', JStr (wire_amount (from_amount x)))]"

section \<open>The text of an error\<close>

definition money_error_text :: "money_error \<Rightarrow> string" where
  "money_error_text e =
     (case e of
        Empty \<Rightarrow> ''amount string is empty''
      | InputTooLong n \<Rightarrow>
          ''amount string is '' @ dec n @ '' bytes, exceeds the '' @ dec MAX_INPUT_LEN @ ''-byte input limit''
      | InvalidByte pos \<Rightarrow> ''invalid byte at offset '' @ dec pos
      | LeadingZero pos \<Rightarrow> ''leading zero not allowed at offset '' @ dec pos
      | SignOnZero \<Rightarrow> ''sign not allowed on a zero value''
      | MissingIntegerPart \<Rightarrow> ''missing integer part before the decimal point''
      | MissingFractionDigits \<Rightarrow> ''missing fraction digits after the decimal point''
      | ExponentNotation pos \<Rightarrow>
          ''exponent notation at offset '' @ dec pos @
          '' is not allowed; format the decimal as plain digits before encoding it (Python: format(d, '' @
          [CHR 0x27] @ ''f'' @ [CHR 0x27] @ ''), not str(d); Java: toPlainString(), not toString(); Go: Text('' @
          [CHR 0x27] @ ''f'' @ [CHR 0x27] @ '', -1); JS decimal.js: .toFixed())''
      | TooManyDigits n \<Rightarrow>
          ''coefficient has '' @ dec n @ '' significant digits, exceeds the '' @ dec MAX_DIGITS @ ''-digit limit''
      | ScaleTooLarge n \<Rightarrow> ''scale '' @ dec n @ '' exceeds the maximum scale of '' @ dec MAX_SCALE
      | CoefficientOverflow \<Rightarrow>
          ''coefficient overflow: result exceeds the '' @ dec MAX_DIGITS @ ''-digit limit''
      | AssetMismatch \<Rightarrow> ''asset mismatch between operands''
      | AssetIdEmpty \<Rightarrow> ''asset id is empty''
      | AssetIdTooLong n \<Rightarrow>
          ''asset id is '' @ dec n @ '' bytes, exceeds the '' @ dec MAX_ASSET_ID_LEN @ ''-byte limit''
      | AssetIdInvalidByte pos \<Rightarrow> ''asset id has invalid byte at offset '' @ dec pos)"

end
