(* ===== verification/Money_Correct.thy ===== *)
theory Money_Correct
  imports Money
begin

text \<open>
  What the amount type guarantees: the grammar accepted by \<^const>\<open>parse\<close> and the text
  produced by \<^const>\<open>format_decimal\<close> are the same language, arithmetic is exact decimal
  arithmetic with one overflow check, the comparison is the order of the values, and the
  hashed normal form agrees with it. The abstract reading of an amount is the rational number
  \<open>value\<close>; every operation is related to it.
\<close>

section \<open>Digit strings\<close>

lemma digits_to_bigint_undec: "digits_to_bigint ds = int (undec ds)"
  by (induction ds rule: rev_induct) (simp_all add: digits_to_bigint_def)

lemma fixed_width_exists: "n < 10 ^ k \<Longrightarrow> \<exists>ds. length ds = k \<and> (\<forall>c\<in>set ds. is_digit c) \<and> undec ds = n"
proof (induction k arbitrary: n)
  case 0
  then show ?case by simp
next
  case (Suc k)
  then have "n div 10 < 10 ^ k" by (simp add: div_less_iff_less_mult mult.commute)
  from Suc.IH [OF this] obtain ds where
    ds: "length ds = k" "\<forall>c\<in>set ds. is_digit c" "undec ds = n div 10" by blast
  have "length (ds @ [digit_char (n mod 10)]) = Suc k \<and>
      (\<forall>c\<in>set (ds @ [digit_char (n mod 10)]). is_digit c) \<and>
      undec (ds @ [digit_char (n mod 10)]) = n"
    using ds by auto
  then show ?case by blast
qed

section \<open>The grammar\<close>

text \<open>
  The grammar of the wire contract, \<open>-?(0|[1-9][0-9]*)(\.[0-9]+)?\<close> with no sign on zero,
  as a decomposition of the text into a sign flag, integer digits and fraction digits.
\<close>

definition canonical_parts :: "bool \<Rightarrow> string \<Rightarrow> string \<Rightarrow> bool" where
  "canonical_parts neg ints fds \<longleftrightarrow>
     ints \<noteq> [] \<and> (\<forall>c\<in>set ints. is_digit c) \<and> (\<forall>c\<in>set fds. is_digit c) \<and>
     (hd ints \<noteq> CHR ''0'' \<or> length ints = 1) \<and> (neg \<longrightarrow> undec (ints @ fds) \<noteq> 0)"

definition assemble :: "bool \<Rightarrow> string \<Rightarrow> string \<Rightarrow> string" where
  "assemble neg ints fds =
     (if neg then ''-'' else []) @ ints @ (if fds = [] then [] else CHR ''.'' # fds)"

definition coefficient :: "bool \<Rightarrow> string \<Rightarrow> string \<Rightarrow> int" where
  "coefficient neg ints fds =
     (if neg then - int (undec (ints @ fds)) else int (undec (ints @ fds)))"

lemma abs_coefficient: "nat \<bar>coefficient neg ints fds\<bar> = undec (ints @ fds)"
  by (simp add: coefficient_def)

lemma coefficient_neg_iff:
  "canonical_parts neg ints fds \<Longrightarrow> coefficient neg ints fds < 0 \<longleftrightarrow> neg"
  by (auto simp: coefficient_def canonical_parts_def)

lemma dec_leading:
  assumes "canonical_parts neg ints fds" and "hd ints \<noteq> CHR ''0''"
  shows "dec (undec (ints @ fds)) = ints @ fds"
  using assms by (intro dec_undec) (auto simp: canonical_parts_def)

lemma ints_zero:
  assumes "canonical_parts neg ints fds" and "hd ints = CHR ''0''"
  shows "ints = ''0''"
  using assms by (cases ints) (auto simp: canonical_parts_def)

lemma length_dec_undec_le: "\<forall>c\<in>set ds. is_digit c \<Longrightarrow> ds \<noteq> [] \<Longrightarrow> length (dec (undec ds)) \<le> length ds"
  by (simp add: length_dec_le undec_bound)

lemma format_assemble:
  assumes can: "canonical_parts neg ints fds"
  shows "format_decimal (coefficient neg ints fds) (length fds) = assemble neg ints fds"
proof (cases "fds = []")
  case True
  from can have "dec (undec ints) = ints" by (intro dec_undec) (auto simp: canonical_parts_def)
  with True can show ?thesis
    by (simp add: format_decimal_def assemble_def abs_coefficient coefficient_neg_iff Let_def)
next
  case fds: False
  let ?n = "undec (ints @ fds)"
  have digs: "\<forall>c\<in>set fds. is_digit c" and ints: "ints \<noteq> []"
    using can by (simp_all add: canonical_parts_def)
  show ?thesis
  proof (cases "hd ints = CHR ''0''")
    case True
    then have z: "ints = ''0''" by (rule ints_zero [OF can])
    then have n: "?n = undec fds" by (simp add: undec_Cons)
    from digs fds have le: "length (dec ?n) \<le> length fds" unfolding n by (rule length_dec_undec_le)
    have "replicate (length fds - length (dec ?n)) (CHR ''0'') @ dec ?n = fds"
      using le digs dec_digits [of ?n] n
      by (intro undec_inj) (auto simp: undec_append)
    with le fds z can show ?thesis
      by (simp add: format_decimal_def assemble_def abs_coefficient coefficient_neg_iff Let_def)
  next
    case False
    then have "dec ?n = ints @ fds" by (rule dec_leading [OF can])
    with fds ints can show ?thesis
      by (simp add: format_decimal_def assemble_def abs_coefficient coefficient_neg_iff Let_def)
  qed
qed

lemma parts_exist:
  obtains neg ints fds where "canonical_parts neg ints fds" "length fds = k"
    "u = coefficient neg ints fds"
proof -
  let ?n = "nat \<bar>u\<bar>"
  have "?n mod 10 ^ k < 10 ^ k" by simp
  from fixed_width_exists [OF this] obtain fds where
    fds: "length fds = k" "\<forall>c\<in>set fds. is_digit c" "undec fds = ?n mod 10 ^ k" by blast
  let ?ints = "dec (?n div 10 ^ k)"
  have n: "undec (?ints @ fds) = ?n" by (simp only: undec_append fds undec_dec div_mult_mod_eq)
  have "hd ?ints \<noteq> CHR ''0'' \<or> length ?ints = 1"
    using dec_hd_zero [of "?n div 10 ^ k"] by (auto simp: dec.simps)
  then have "canonical_parts (u < 0) ?ints fds"
    using fds n dec_digits by (auto simp: canonical_parts_def)
  moreover have "u = coefficient (u < 0) ?ints fds" unfolding coefficient_def n by simp
  ultimately show ?thesis using that fds by blast
qed

section \<open>Parsing\<close>

lemma takeWhile_digits: "\<forall>c\<in>set ds. is_digit c \<Longrightarrow> rest = [] \<or> \<not> is_digit (hd rest) \<Longrightarrow>
    takeWhile is_digit (ds @ rest) = ds \<and> dropWhile is_digit (ds @ rest) = rest"
  using takeWhile_dropWhile_unique [of ds is_digit rest] by blast

lemma parse_sign_assemble:
  "canonical_parts neg ints fds \<Longrightarrow>
   parse_sign (assemble neg ints fds) = (neg, assemble False ints fds)"
  by (cases ints) (auto simp: parse_sign_def assemble_def canonical_parts_def)

lemma parse_int_part_assemble:
  assumes can: "canonical_parts neg ints fds"
  shows "parse_int_part i (assemble False ints fds) =
    Inr (ints, if fds = [] then [] else CHR ''.'' # fds)"
proof -
  let ?rest = "if fds = [] then [] else CHR ''.'' # fds"
  obtain d tail where ints: "ints = d # tail" and d: "is_digit d"
    using can by (cases ints) (auto simp: canonical_parts_def)
  show ?thesis
  proof (cases "d = CHR ''0''")
    case True
    then have "ints = ''0''" using ints_zero [OF can] ints by simp
    then show ?thesis by (simp add: parse_int_part_def assemble_def)
  next
    case False
    moreover have "takeWhile is_digit (ints @ ?rest) = ints \<and> dropWhile is_digit (ints @ ?rest) = ?rest"
      using can by (intro takeWhile_digits) (auto simp: canonical_parts_def)
    moreover have "d \<noteq> CHR ''.''" using d by auto
    ultimately show ?thesis using ints d by (simp add: parse_int_part_def assemble_def)
  qed
qed

lemma parse_frac_part_assemble:
  assumes "canonical_parts neg ints fds"
  shows "parse_frac_part n (if fds = [] then [] else CHR ''.'' # fds) = Inr (fds, [], length fds)"
proof -
  have w: "takeWhile is_digit fds = fds" using assms by (simp add: canonical_parts_def takeWhile_eq_all_conv)
  show ?thesis unfolding parse_frac_part_def Let_def by (simp add: w)
qed

lemma zero_value_iff:
  assumes "canonical_parts neg ints fds"
  shows "ints = ''0'' \<and> list_all (\<lambda>b. b = CHR ''0'') fds \<longleftrightarrow> undec (ints @ fds) = 0"
proof -
  have "undec (ints @ fds) = 0 \<longleftrightarrow> (\<forall>c\<in>set (ints @ fds). c = CHR ''0'')"
    using assms by (intro undec_eq_0_iff) (auto simp: canonical_parts_def)
  moreover have "(\<forall>c\<in>set ints. c = CHR ''0'') \<longleftrightarrow> ints = ''0''"
    using assms by (cases ints) (auto simp: canonical_parts_def)
  ultimately show ?thesis by (auto simp: list_all_iff)
qed

lemma length_assemble:
  "length (assemble neg ints fds) =
   (if neg then 1 else 0) + length ints + (if fds = [] then 0 else Suc (length fds))"
  by (simp add: assemble_def)

lemma parse_assemble:
  assumes can: "canonical_parts neg ints fds"
    and len: "length (assemble neg ints fds) \<le> MAX_INPUT_LEN"
  shows "parse a (assemble neg ints fds) = checked a (coefficient neg ints fds) (length fds)"
proof -
  have ne: "assemble neg ints fds \<noteq> []" using can by (simp add: assemble_def canonical_parts_def)
  have fit: "\<not> 255 < length fds"
    using len by (auto simp: length_assemble limits split: if_splits)
  have signed: "\<not> (neg \<and> ints = ''0'' \<and> list_all (\<lambda>b. b = CHR ''0'') fds)"
    using can zero_value_iff [OF can] by (auto simp: canonical_parts_def)
  show ?thesis
    using len ne fit signed
    by (auto simp: parse_def parse_sign_assemble [OF can] parse_int_part_assemble [OF can]
        parse_frac_part_assemble [OF can] coefficient_def digits_to_bigint_undec Let_def)
qed

lemma parse_int_partE:
  assumes "parse_int_part i rest = Inr (ints, after)"
  obtains "rest = ints @ after" "ints \<noteq> []" "\<forall>c\<in>set ints. is_digit c"
    "hd ints \<noteq> CHR ''0'' \<or> length ints = 1" "after = [] \<or> \<not> is_digit (hd after)"
proof -
  obtain d tail where rest: "rest = d # tail"
    using assms by (cases rest) (auto simp: parse_int_part_def)
  show ?thesis
  proof (cases "d = CHR ''0''")
    case True
    then show ?thesis
      using assms rest that by (auto simp: parse_int_part_def split: if_splits list.splits)
  next
    case False
    then have d: "is_digit d" and eq: "ints = takeWhile is_digit rest" "after = dropWhile is_digit rest"
      using assms rest by (auto simp: parse_int_part_def split: if_splits)
    have "\<forall>c\<in>set ints. is_digit c" using eq set_takeWhileD by fastforce
    moreover have "after = [] \<or> \<not> is_digit (hd after)"
      using eq hd_dropWhile [of is_digit rest] by blast
    ultimately show ?thesis using that eq d False rest by auto
  qed
qed

lemma parse_frac_partE:
  assumes "parse_frac_part n after = Inr (fds, [], k)" and "after = [] \<or> \<not> is_digit (hd after)"
  obtains "after = (if fds = [] then [] else CHR ''.'' # fds)" "\<forall>c\<in>set fds. is_digit c"
    "k = length fds"
proof (cases after)
  case Nil
  with assms that show ?thesis by (auto simp: parse_frac_part_def)
next
  case (Cons d fr)
  let ?w = "takeWhile is_digit fr"
  have d: "d = CHR ''.''" and w: "?w \<noteq> []" and eq: "fds = take (length ?w) fr"
    "drop (length ?w) fr = []" "k = length ?w"
    using assms Cons by (auto simp: parse_frac_part_def Let_def split: if_splits list.splits)
  from eq have fr: "fds = fr" by (metis append_Nil2 append_take_drop_id)
  from eq have "?w = fr" by (metis append_Nil2 takeWhile_dropWhile_id dropWhile_eq_drop)
  then have "\<forall>c\<in>set fr. is_digit c" by (metis set_takeWhileD)
  with d fr w eq \<open>?w = fr\<close> Cons that show ?thesis by auto
qed

lemma parse_InrE:
  assumes "parse a s = Inr x"
  obtains neg ints fds where "canonical_parts neg ints fds" "s = assemble neg ints fds"
    "checked a (coefficient neg ints fds) (length fds) = Inr x" "length s \<le> MAX_INPUT_LEN"
proof -
  obtain neg rest where sg: "parse_sign s = (neg, rest)" by fastforce
  have s: "s = (if neg then ''-'' else []) @ rest"
    using sg by (auto simp: parse_sign_def split: list.splits if_splits)
  from assms sg obtain ints after fds k where
    int: "parse_int_part (length s - length rest) rest = Inr (ints, after)" and
    fds: "parse_frac_part (length s) after = Inr (fds, [], k)" and
    zero: "\<not> (neg \<and> ints = ''0'' \<and> list_all (\<lambda>b. b = CHR ''0'') fds)" and
    fin: "checked a (if neg then - digits_to_bigint (ints @ fds) else digits_to_bigint (ints @ fds)) k = Inr x"
    and len: "length s \<le> MAX_INPUT_LEN"
    by (auto simp: parse_def res_simps Let_def split: if_splits list.splits)
  from int obtain ip: "rest = ints @ after" "ints \<noteq> []" "\<forall>c\<in>set ints. is_digit c"
    "hd ints \<noteq> CHR ''0'' \<or> length ints = 1" "after = [] \<or> \<not> is_digit (hd after)"
    by (rule parse_int_partE)
  from fds ip(5) obtain fp: "after = (if fds = [] then [] else CHR ''.'' # fds)"
    "\<forall>c\<in>set fds. is_digit c" "k = length fds" by (rule parse_frac_partE)
  have plain: "canonical_parts False ints fds"
    using ip fp by (simp add: canonical_parts_def)
  then have "canonical_parts neg ints fds"
    using zero zero_value_iff [OF plain] by (auto simp: canonical_parts_def)
  moreover have "s = assemble neg ints fds" using s ip(1) fp(1) by (simp add: assemble_def)
  moreover have "checked a (coefficient neg ints fds) (length fds) = Inr x"
    using fin fp(3) by (cases neg) (simp_all add: coefficient_def digits_to_bigint_undec)
  ultimately show ?thesis using that len by blast
qed

section \<open>Well-formed amounts\<close>

definition amount_ok :: "amount \<Rightarrow> bool" where
  "amount_ok x \<longleftrightarrow> digit_count (units x) \<le> MAX_DIGITS \<and> scale x \<le> MAX_SCALE"

lemma checked_Inr_iff [res_simps]:
  "checked a u k = Inr x \<longleftrightarrow> x = \<lparr>asset = a, units = u, scale = k\<rparr> \<and> amount_ok x"
  by (auto simp: checked_def amount_ok_def)

lemma digit_count_iff: "digit_count u \<le> MAX_DIGITS \<longleftrightarrow> \<bar>u\<bar> < 10 ^ MAX_DIGITS"
proof -
  have "digit_count u \<le> MAX_DIGITS \<longleftrightarrow> nat \<bar>u\<bar> < 10 ^ MAX_DIGITS"
    unfolding digit_count_def by (rule length_dec_le) (simp add: MAX_DIGITS_def)
  also have "\<dots> \<longleftrightarrow> int (nat \<bar>u\<bar>) < int (10 ^ MAX_DIGITS)" by (rule of_nat_less_iff [symmetric])
  finally show ?thesis by simp
qed

lemma display_fits:
  assumes can: "canonical_parts neg ints fds"
    and dc: "digit_count (coefficient neg ints fds) \<le> MAX_DIGITS" and sc: "length fds \<le> MAX_SCALE"
  shows "length (assemble neg ints fds) \<le> MAX_INPUT_LEN"
proof (cases "hd ints = CHR ''0''")
  case True
  then have "length ints = 1" using ints_zero [OF can] by simp
  with sc show ?thesis by (auto simp: length_assemble limits)
next
  case False
  then have "length ints + length fds \<le> MAX_DIGITS"
    using dc dec_leading [OF can] by (simp add: digit_count_def abs_coefficient)
  then show ?thesis by (auto simp: length_assemble limits)
qed

lemma parse_display:
  assumes "amount_ok x"
  shows "parse (asset x) (display x) = Inr x"
proof -
  obtain neg ints fds where p: "canonical_parts neg ints fds" "length fds = scale x"
    "units x = coefficient neg ints fds"
    by (rule parts_exist [where k = "scale x" and u = "units x"]) blast
  then have "display x = assemble neg ints fds" by (metis display_def format_assemble)
  moreover have "length (assemble neg ints fds) \<le> MAX_INPUT_LEN"
    using assms p by (intro display_fits) (auto simp: amount_ok_def)
  ultimately show ?thesis
    using p assms by (simp add: parse_assemble) (simp add: res_simps)
qed

lemma display_parse:
  assumes "parse a s = Inr x"
  shows "asset x = a \<and> amount_ok x \<and> display x = s"
proof -
  from assms obtain neg ints fds where p: "canonical_parts neg ints fds" "s = assemble neg ints fds"
    "checked a (coefficient neg ints fds) (length fds) = Inr x" by (rule parse_InrE)
  then show ?thesis by (auto simp: res_simps display_def format_assemble)
qed

interpretation amount_text: exact_codec display "\<lambda>s. res_ok (parse a s)" "\<lambda>x. amount_ok x \<and> asset x = a"
  for a
  by unfold_locales (auto simp: res_simps parse_display dest: display_parse)

section \<open>Values\<close>

definition value_of :: "amount \<Rightarrow> rat" where
  "value_of x = of_int (units x) / 10 ^ scale x"

lemma rescale_value:
  assumes "k \<le> m"
  shows "(of_int (rescale_units u k m) :: rat) = of_int u / 10 ^ k * 10 ^ m"
proof -
  have "(10::rat) ^ m = 10 ^ k * 10 ^ (m - k)" using assms by (simp flip: power_add)
  then show ?thesis by (simp add: rescale_units_def pow10_def)
qed

lemma common_scale:
  fixes x y :: amount
  defines "m \<equiv> max (scale x) (scale y)"
  shows "(of_int (rescale_units (units x) (scale x) m) :: rat) = value_of x * 10 ^ m"
    and "(of_int (rescale_units (units y) (scale y) m) :: rat) = value_of y * 10 ^ m"
  by (simp_all add: m_def rescale_value value_of_def)

lemma cmp_same_asset_value:
  assumes "asset x = asset y"
  shows "cmp_same_asset x y = Inr (cmp (value_of x) (value_of y))"
proof -
  let ?m = "max (scale x) (scale y)"
  let ?a = "rescale_units (units x) (scale x) ?m" and ?b = "rescale_units (units y) (scale y) ?m"
  have ab: "?a < ?b \<longleftrightarrow> value_of x < value_of y" "?a = ?b \<longleftrightarrow> value_of x = value_of y"
    by (simp_all flip: of_int_less_iff [where 'a = rat] of_int_eq_iff [where 'a = rat]
        add: common_scale)
  then show ?thesis using assms by (simp add: cmp_same_asset_def cmp_def Let_def)
qed

lemma cmp_Equal_iff [simp]: "cmp a b = Equal \<longleftrightarrow> a = b"
  by (auto simp: cmp_def)

lemma amount_eq_iff: "amount_eq x y \<longleftrightarrow> asset x = asset y \<and> value_of x = value_of y"
proof (cases "asset x = asset y")
  case True
  then show ?thesis by (simp add: amount_eq_def cmp_same_asset_value)
next
  case False
  then show ?thesis by (simp add: amount_eq_def cmp_same_asset_def)
qed

lemma digit_count_value:
  "digit_count (a :: int) \<le> MAX_DIGITS \<longleftrightarrow> \<bar>of_int a :: rat\<bar> < 10 ^ MAX_DIGITS"
proof -
  have "(\<bar>of_int a\<bar> :: rat) = of_int \<bar>a\<bar>" and "(10 :: rat) ^ MAX_DIGITS = of_int (10 ^ MAX_DIGITS)"
    by simp_all
  then show ?thesis by (simp only: digit_count_iff of_int_less_iff)
qed

lemma amount_neg_ok [simp]: "amount_ok (amount_neg x) = amount_ok x"
  by (simp add: amount_ok_def amount_neg_def digit_count_def)

lemma amount_neg_simps [simp]:
  "asset (amount_neg x) = asset x" "scale (amount_neg x) = scale x"
  "value_of (amount_neg x) = - value_of x" "amount_neg (amount_neg x) = x"
  by (simp_all add: amount_neg_def value_of_def)

text \<open>The outcome of an exact operation whose true result is \<open>v\<close>.\<close>

definition exact_result :: "amount \<Rightarrow> amount \<Rightarrow> rat \<Rightarrow> money_error + amount \<Rightarrow> bool" where
  "exact_result x y v r \<longleftrightarrow>
     (case r of
        Inr z \<Rightarrow> value_of z = v \<and> asset z = asset x \<and> scale z = max (scale x) (scale y) \<and> amount_ok z
      | Inl e \<Rightarrow> e = CoefficientOverflow \<and> 10 ^ MAX_DIGITS \<le> \<bar>v\<bar> * 10 ^ max (scale x) (scale y))"

lemma add_exact:
  assumes "asset x = asset y" and "amount_ok x" and "amount_ok y"
  shows "exact_result x y (value_of x + value_of y) (amount_add x y)"
proof -
  let ?m = "max (scale x) (scale y)"
  let ?s = "rescale_units (units x) (scale x) ?m + rescale_units (units y) (scale y) ?m"
  have v: "(of_int ?s :: rat) = (value_of x + value_of y) * 10 ^ ?m"
    by (simp add: common_scale algebra_simps)
  have m: "?m \<le> MAX_SCALE" using assms by (simp add: amount_ok_def)
  then have m': "\<not> MAX_SCALE < ?m" by (simp only: not_less)
  show ?thesis
  proof (cases "digit_count ?s \<le> MAX_DIGITS")
    case True
    with m' have "amount_add x y = Inr \<lparr>asset = asset x, units = ?s, scale = ?m\<rparr>"
      using assms by (simp add: amount_add_def checked_def Let_def del: max_less_iff_conj less_max_iff_disj)
    moreover have "value_of \<lparr>asset = asset x, units = ?s, scale = ?m\<rparr> = value_of x + value_of y"
      unfolding value_of_def [of "\<lparr>asset = asset x, units = ?s, scale = ?m\<rparr>"] using v by simp
    ultimately show ?thesis using True m by (simp add: exact_result_def amount_ok_def)
  next
    case False
    then have "amount_add x y = Inl CoefficientOverflow"
      using assms by (simp add: amount_add_def checked_def Let_def)
    moreover have "10 ^ MAX_DIGITS \<le> \<bar>(value_of x + value_of y) * 10 ^ ?m\<bar>"
      using False unfolding digit_count_value v by (simp add: not_less)
    ultimately show ?thesis by (simp add: exact_result_def abs_mult)
  qed
qed

section \<open>The normal form\<close>

lemma normalized_loop_spec:
  "normalized_loop u k = (v, j) \<Longrightarrow>
   (of_int v :: rat) / 10 ^ j = of_int u / 10 ^ k \<and> (j = 0 \<or> v mod 10 \<noteq> 0) \<and> j \<le> k"
proof (induction u k rule: normalized_loop.induct)
  case (1 u)
  then show ?case by simp
next
  case (2 u k)
  show ?case
  proof (cases "u mod 10 = 0")
    case True
    then have "10 * (u div 10) = u" using mult_div_mod_eq [of 10 u] by simp
    then have "(of_int (u div 10) :: rat) = of_int u / 10"
      by (metis nonzero_mult_div_cancel_left of_int_mult of_int_numeral zero_neq_numeral)
    with True 2 show ?thesis by (auto simp: field_simps)
  next
    case False
    with 2 show ?thesis by auto
  qed
qed

lemma normal_form_unique:
  assumes eq: "(of_int v :: rat) / 10 ^ j = of_int w / 10 ^ k"
    and v: "j = 0 \<or> v mod 10 \<noteq> 0" and w: "k = 0 \<or> w mod 10 \<noteq> 0" and le: "j \<le> k"
  shows "v = w \<and> j = k"
proof -
  have "(10::rat) ^ k = 10 ^ j * 10 ^ (k - j)" using le by (simp flip: power_add)
  with eq have "(of_int w :: rat) = of_int v * 10 ^ (k - j)" by (simp add: field_simps)
  also have "\<dots> = of_int (v * 10 ^ (k - j))" by simp
  finally have vw: "w = v * 10 ^ (k - j)" by (simp only: of_int_eq_iff)
  show ?thesis
  proof (cases "k = j")
    case False
    with le have "0 < k - j" by simp
    then have "(10::int) dvd 10 ^ (k - j)" by (intro dvd_power) simp
    then have "w mod 10 = 0" unfolding vw by (simp add: mod_eq_0_iff_dvd)
    with w False le show ?thesis by simp
  qed (use vw in simp)
qed

lemma normalized_eq_iff: "normalized x = normalized y \<longleftrightarrow> value_of x = value_of y"
proof -
  obtain v j w k where n: "normalized x = (v, j)" "normalized y = (w, k)" by fastforce
  note sx = normalized_loop_spec [OF n(1) [unfolded normalized_def]]
    and sy = normalized_loop_spec [OF n(2) [unfolded normalized_def]]
  show ?thesis
  proof
    assume "normalized x = normalized y"
    with n sx sy show "value_of x = value_of y" by (simp add: value_of_def)
  next
    assume "value_of x = value_of y"
    then have eq: "(of_int v :: rat) / 10 ^ j = of_int w / 10 ^ k"
      using sx sy by (simp add: value_of_def)
    show "normalized x = normalized y"
    proof (cases "j \<le> k")
      case True
      with eq sx sy n show ?thesis using normal_form_unique [of v j w k] by simp
    next
      case False
      with eq sx sy n show ?thesis using normal_form_unique [of w k v j] by simp
    qed
  qed
qed

section \<open>The wire object\<close>

lemma visit_both: "visit_amount_wire ms (Some a) (Some m) = Inr w \<longleftrightarrow>
    ms = [] \<and> w = \<lparr>wire_asset = a, wire_amount = m\<rparr>"
  by (cases ms) (auto split: if_splits)

lemma visit_asset: "visit_amount_wire ms (Some a) None = Inr w \<longleftrightarrow>
    (\<exists>m. ms = [(''amount'', JStr m)] \<and> w = \<lparr>wire_asset = a, wire_amount = m\<rparr>)"
  by (cases ms) (auto simp: res_simps visit_both split: if_splits)

lemma visit_amount: "visit_amount_wire ms None (Some m) = Inr w \<longleftrightarrow>
    (\<exists>a. ms = [(''asset'', JStr a)] \<and> w = \<lparr>wire_asset = a, wire_amount = m\<rparr>)"
  by (cases ms) (auto simp: res_simps visit_both split: if_splits)

lemma visit_neither: "visit_amount_wire ms None None = Inr w \<longleftrightarrow>
    ms = [(''asset'', JStr (wire_asset w)), (''amount'', JStr (wire_amount w))] \<or>
    ms = [(''amount'', JStr (wire_amount w)), (''asset'', JStr (wire_asset w))]"
  by (cases ms) (auto simp: res_simps visit_asset visit_amount split: if_splits)

lemma try_from_wire_iff: "try_from_wire w = Inr x \<longleftrightarrow>
    amount_ok x \<and> asset_ok (asset x) \<and> w = from_amount x"
  by (cases w) (auto simp: try_from_wire_def from_amount_def res_simps parse_display dest: display_parse)

lemma de_amount_iff: "de_amount j = Inr x \<longleftrightarrow>
    amount_ok x \<and> asset_ok (asset x) \<and>
    (j = ser_amount x \<or>
     j = JObj [(''amount'', JStr (display x)), (''asset'', JStr (as_str (asset x)))])"
  by (auto simp: de_amount_def de_amount_wire_def res_simps visit_neither try_from_wire_iff
      ser_amount_def from_amount_def)

interpretation amount_json: roundtrip ser_amount "\<lambda>j. res_ok (de_amount j)"
  "\<lambda>x. amount_ok x \<and> asset_ok (asset x)"
  by unfold_locales (simp add: res_simps de_amount_iff)

section \<open>The properties of amounts\<close>

text \<open>
  C31. The parser accepts exactly the canonical texts: it returns an amount if and only if the
  text is what \<open>Display\<close> prints for that amount, the amount is in bounds and names the asked
  asset. Hence no two texts parse to the same representation, nothing is rounded, and every
  in-bounds amount has a text.
\<close>

theorem parse_exact: "parse a s = Inr x \<longleftrightarrow> asset x = a \<and> amount_ok x \<and> display x = s"
  using amount_text.dcd_iff [of a s x] by (auto simp: res_simps)

text \<open>
  C32. Addition and subtraction of in-bounds amounts of one asset are exact: the result has the
  exact rational value at the larger scale and is in bounds, or the operation fails with
  \<^const>\<open>CoefficientOverflow\<close> and the exact value really needs more than 128 digits. Amounts of
  different assets are refused.
\<close>

theorem arithmetic_exact:
  assumes "amount_ok x" and "amount_ok y"
  shows "if asset x = asset y
         then exact_result x y (value_of x + value_of y) (amount_add x y) \<and>
              exact_result x y (value_of x - value_of y) (amount_sub x y)
         else amount_add x y = Inl AssetMismatch \<and> amount_sub x y = Inl AssetMismatch"
proof (cases "asset x = asset y")
  case True
  have "exact_result x (amount_neg y) v = exact_result x y v" for v
    unfolding exact_result_def amount_neg_simps ..
  with add_exact [of x "amount_neg y"] assms True
  have "exact_result x y (value_of x - value_of y) (amount_sub x y)" by (simp add: amount_sub_def)
  with True assms show ?thesis by (simp add: add_exact)
qed (simp add: amount_add_def amount_sub_def)

theorem arithmetic_exact_witness:
  "exact_result \<lparr>asset = AssetId ''btc'', units = 15, scale = 1\<rparr> \<lparr>asset = AssetId ''btc'', units = 25, scale = 2\<rparr>
     (7 / 4) (amount_add \<lparr>asset = AssetId ''btc'', units = 15, scale = 1\<rparr> \<lparr>asset = AssetId ''btc'', units = 25, scale = 2\<rparr>)"
proof -
  let ?x = "\<lparr>asset = AssetId ''btc'', units = 15, scale = 1\<rparr>" and ?y = "\<lparr>asset = AssetId ''btc'', units = 25, scale = 2\<rparr>"
  have "digit_count 15 = 2" "digit_count 25 = 2" by code_simp+
  then have ok: "amount_ok ?x" "amount_ok ?y" by (simp_all add: amount_ok_def limits)
  have v: "value_of ?x + value_of ?y = 7 / 4" by (simp add: value_of_def)
  show ?thesis using arithmetic_exact [OF ok, unfolded v] by simp
qed

text \<open>
  Equality of amounts is equality of asset and exact value, whatever the scales, and it
  agrees with the hash: amounts are equal if and only if they feed the same input to the hasher.
\<close>

theorem equality_hash_agree:
  "amount_eq x y = (hash_input x = hash_input y) \<and>
   amount_eq x y = (asset x = asset y \<and> value_of x = value_of y)"
  by (auto simp: amount_eq_iff hash_input_def normalized_eq_iff)

text \<open>
  The partial order of amounts is the order of the exact values within one asset, and
  amounts of different assets are incomparable.
\<close>

theorem compare_exact:
  "partial_cmp x y = (if asset x = asset y then Some (cmp (value_of x) (value_of y)) else None)"
  by (simp add: partial_cmp_def cmp_same_asset_value) (simp add: cmp_same_asset_def)

text \<open>
  An amount object on the wire is accepted exactly if it has the two members, each once
  and in either order, both strings, and they are the identifier and the canonical text of a
  valid amount; serialising gives the first of the two orders.
\<close>

theorem amount_wire_exact:
  "de_amount j = Inr x \<longleftrightarrow>
     amount_ok x \<and> asset_ok (asset x) \<and>
     (j = ser_amount x \<or> j = JObj [(''amount'', JStr (display x)), (''asset'', JStr (as_str (asset x)))])"
  by (rule de_amount_iff)

end
