(* ===== verification/Timestamp.thy ===== *)
theory Timestamp
  imports Prelude
begin

text \<open>
  Timestamps: the structural RFC 3339 validator and the plain-text rule of the wire crate
  (\<open>core/wire/src/observation.rs\<close>), the calendar arithmetic and the instants of the host
  (\<open>core/host/src/time.rs\<close>), and the adapter's rendering of a block time
  (\<open>adapters/bitcoin/src/map.rs\<close>). The \<open>i64\<close> and \<open>u32\<close> values are
  \<^typ>\<open>int\<close> and \<^typ>\<open>nat\<close>; the bounds theorem shows that they fit. The truncating
  division of the source is only ever applied to non-negative dividends there, where it is
  \<open>div\<close>.
\<close>

section \<open>The validator\<close>

datatype rfc3339 = Rfc3339 (ts_str: string)

text \<open>The derived \<open>Ord\<close> of the newtype: the text, bytewise.\<close>

instantiation rfc3339 :: linorder
begin

definition less_eq_rfc3339 :: "rfc3339 \<Rightarrow> rfc3339 \<Rightarrow> bool" where
  "less_eq_rfc3339 a b \<longleftrightarrow> ts_str a \<le> ts_str b"

definition less_rfc3339 :: "rfc3339 \<Rightarrow> rfc3339 \<Rightarrow> bool" where
  "less_rfc3339 a b \<longleftrightarrow> ts_str a < ts_str b"

instance
  by standard (auto simp: less_eq_rfc3339_def less_rfc3339_def rfc3339.expand)

end

definition two_digits :: "string \<Rightarrow> nat \<Rightarrow> nat option" where
  "two_digits b i =
     (case nth_opt b i of None \<Rightarrow> None | Some x \<Rightarrow>
      (case nth_opt b (i + 1) of None \<Rightarrow> None | Some y \<Rightarrow>
       if is_digit x \<and> is_digit y then Some (digit_val x * 10 + digit_val y) else None))"

text \<open>A loop \<open>while b.get(i).is_some_and(is_ascii_digit) { i += 1 }\<close>.\<close>

definition skip_digits :: "string \<Rightarrow> nat \<Rightarrow> nat" where
  "skip_digits b i = i + length (takeWhile is_digit (drop i b))"

text \<open>\<open>two_digits(b, i).ok_or(at i)?\<close> followed by the range check of the field.\<close>

definition field :: "string \<Rightarrow> nat \<Rightarrow> nat \<Rightarrow> nat \<Rightarrow> nat + unit" where
  "field b i lo hi =
     res_bind (ok_or i (two_digits b i)) (\<lambda>v. if lo \<le> v \<and> v \<le> hi then Inr () else Inl i)"

definition sep :: "string \<Rightarrow> nat \<Rightarrow> char \<Rightarrow> nat + unit" where
  "sep b i c = (if b ! i \<noteq> c then Inl i else Inr ())"

definition sign_or_end :: "nat \<Rightarrow> nat \<Rightarrow> nat" where
  "sign_or_end i len = (if i < len then i else len)"

definition validate_zone :: "string \<Rightarrow> nat \<Rightarrow> nat + unit" where
  "validate_zone b i =
     (case nth_opt b i of
        Some c \<Rightarrow>
          if c = CHR ''Z'' \<or> c = CHR ''z'' then
            (if i + 1 = length b then Inr () else Inl (i + 1))
          else if c = CHR ''+'' \<or> c = CHR ''-'' then
            res_bind (field b (i + 1) 0 23) (\<lambda>_.
            if nth_opt b (i + 3) \<noteq> Some (CHR '':'') then Inl (i + 3)
            else res_bind (field b (i + 4) 0 59) (\<lambda>_.
            if i + 6 = length b then Inr () else Inl (i + 6)))
          else Inl (sign_or_end i (length b))
      | None \<Rightarrow> Inl (sign_or_end i (length b)))"

definition validate_rfc3339 :: "string \<Rightarrow> nat + unit" where
  "validate_rfc3339 b =
     (if length b < 20 then Inl (length b)
      else if \<not> list_all is_digit (take 4 b) then Inl 0
      else
        res_bind (sep b 4 (CHR ''-'')) (\<lambda>_.
        res_bind (field b 5 1 12) (\<lambda>_.
        res_bind (sep b 7 (CHR ''-'')) (\<lambda>_.
        res_bind (field b 8 1 31) (\<lambda>_.
        if b ! 10 \<noteq> CHR ''T'' \<and> b ! 10 \<noteq> CHR ''t'' then Inl 10 else
        res_bind (field b 11 0 23) (\<lambda>_.
        res_bind (sep b 13 (CHR '':'')) (\<lambda>_.
        res_bind (field b 14 0 59) (\<lambda>_.
        res_bind (sep b 16 (CHR '':'')) (\<lambda>_.
        res_bind (field b 17 0 60) (\<lambda>_.
        if nth_opt b 19 = Some (CHR ''.'') then
          (let i = skip_digits b 20 in if i = 20 then Inl i else validate_zone b i)
        else validate_zone b 19))))))))))"

definition rfc3339_new :: "string \<Rightarrow> nat + rfc3339" where
  "rfc3339_new s = res_bind (validate_rfc3339 s) (\<lambda>_. Inr (Rfc3339 s))"

section \<open>Plain text\<close>

definition plain_byte :: "char \<Rightarrow> bool" where
  "plain_byte b \<longleftrightarrow>
     \<not> ((of_char b :: nat) < 32 \<and> b \<noteq> CHR 0x09) \<and> (of_char b :: nat) \<noteq> 127 \<and>
     b \<noteq> CHR ''<'' \<and> b \<noteq> CHR ''>''"

definition validate_plain_text :: "string \<Rightarrow> nat + unit" where
  "validate_plain_text s =
     (case position (\<lambda>b. \<not> plain_byte b) s of Some i \<Rightarrow> Inl i | None \<Rightarrow> Inr ())"

section \<open>Calendar arithmetic\<close>

definition civil_from_days :: "int \<Rightarrow> int \<times> int \<times> int" where
  "civil_from_days days =
     (let z = days + 719468;
          era = z div 146097;
          doe = z - era * 146097;
          yoe = (doe - doe div 1460 + doe div 36524 - doe div 146096) div 365;
          y = yoe + era * 400;
          doy = doe - (365 * yoe + yoe div 4 - yoe div 100);
          mp = (5 * doy + 2) div 153;
          d = doy - (153 * mp + 2) div 5 + 1;
          m = (if mp < 10 then mp + 3 else mp - 9)
      in (if m \<le> 2 then y + 1 else y, m, d))"

definition days_from_civil :: "int \<Rightarrow> int \<Rightarrow> int \<Rightarrow> int" where
  "days_from_civil year month day =
     (let y = year - (if month \<le> 2 then 1 else 0);
          era = y div 400;
          yoe = y - era * 400;
          mp = (if month > 2 then month - 3 else month + 9);
          doy = (153 * mp + 2) div 5 + day - 1;
          doe = yoe * 365 + yoe div 4 - yoe div 100 + doy
      in era * 146097 + doe - 719468)"

section \<open>Formatting a clock value\<close>

text \<open>\<open>{n:0w}\<close>: sign-aware zero padding to at least \<open>w\<close> characters.\<close>

definition pad0 :: "nat \<Rightarrow> int \<Rightarrow> string" where
  "pad0 w n =
     (let m = dec (nat \<bar>n\<bar>) in
      if n < 0 then CHR ''-'' # replicate (w - 1 - length m) (CHR ''0'') @ m
      else replicate (w - length m) (CHR ''0'') @ m)"

definition format_utc :: "int \<Rightarrow> string" where
  "format_utc unix_secs =
     (let days = unix_secs div 86400; secs = unix_secs mod 86400;
          (y, m, d) = civil_from_days days
      in pad0 4 y @ ''-'' @ pad0 2 m @ ''-'' @ pad0 2 d @ ''T'' @ pad0 2 (secs div 3600) @ '':'' @
         pad0 2 ((secs mod 3600) div 60) @ '':'' @ pad0 2 (secs mod 60) @ ''Z'')"

definition i64_max :: int where
  "i64_max = 2 ^ 63 - 1"

text \<open>
  The host clock. \<open>as_secs\<close> is what the system clock reports as whole seconds since the
  epoch; \<^const>\<open>None\<close> is the deliberate panic of the arm the source calls unreachable.
\<close>

definition now_rfc3339 :: "nat \<Rightarrow> rfc3339 option" where
  "now_rfc3339 as_secs =
     (let total_secs = (if int as_secs \<le> i64_max then int as_secs else i64_max)
      in res_ok (rfc3339_new (format_utc total_secs)))"

text \<open>The adapter's own copy of the calendar, and its rendering of a block time.\<close>

definition btc_civil_from_days :: "int \<Rightarrow> int \<times> int \<times> int" where
  "btc_civil_from_days days =
     (let z = days + 719468;
          era = trunc_div (if 0 \<le> z then z else z - 146096) 146097;
          doe = z - era * 146097;
          yoe = (doe - doe div 1460 + doe div 36524 - doe div 146096) div 365;
          y = yoe + era * 400;
          doy = doe - (365 * yoe + yoe div 4 - yoe div 100);
          mp = (5 * doy + 2) div 153;
          d = doy - (153 * mp + 2) div 5 + 1;
          m = (if mp < 10 then mp + 3 else mp - 9)
      in (if m \<le> 2 then y + 1 else y, m, d))"

definition rfc3339_utc :: "int \<Rightarrow> nat + rfc3339" where
  "rfc3339_utc unix_secs =
     (let days = unix_secs div 86400; secs = unix_secs mod 86400;
          (y, m, d) = btc_civil_from_days days
      in rfc3339_new
           (pad0 4 y @ ''-'' @ pad0 2 m @ ''-'' @ pad0 2 d @ ''T'' @ pad0 2 (secs div 3600) @ '':'' @
            pad0 2 ((secs mod 3600) div 60) @ '':'' @ pad0 2 (secs mod 60) @ ''Z''))"

section \<open>Instants\<close>

definition number :: "string option \<Rightarrow> int option" where
  "number bs =
     (case bs of None \<Rightarrow> None
      | Some ds \<Rightarrow> if ds = [] \<or> \<not> list_all is_digit ds then None
                  else Some (foldl (\<lambda>n b. n * 10 + int (digit_val b)) 0 ds))"

text \<open>
  The nine nanosecond digits of a fraction that occupies the bytes from \<open>start\<close> up to
  (excluding) \<open>i\<close>: a digit past the end of the fraction is zero.
\<close>

definition frac_digit :: "string \<Rightarrow> nat \<Rightarrow> nat \<Rightarrow> nat \<Rightarrow> nat" where
  "frac_digit b start i slot =
     (case nth_opt b (start + slot) of
        Some byte \<Rightarrow> if start + slot < i then digit_val byte else 0
      | None \<Rightarrow> 0)"

definition frac_nanos :: "string \<Rightarrow> nat \<Rightarrow> nat \<Rightarrow> nat" where
  "frac_nanos b start i = foldl (\<lambda>n slot. n * 10 + frac_digit b start i slot) 0 [0..<9]"

text \<open>The end of the fraction and its nanoseconds; \<^const>\<open>None\<close> if it has no digit or is
  finer than a nanosecond.\<close>

definition instant_frac :: "string \<Rightarrow> (nat \<times> nat) option" where
  "instant_frac b =
     (if nth_opt b 19 = Some (CHR ''.'') then
        (let start = 20; i = skip_digits b start in
         if i = start then None
         else if (case slice_opt b (start + 9) i of
                    Some beyond \<Rightarrow> list_ex (\<lambda>d. d \<noteq> CHR ''0'') beyond | None \<Rightarrow> False)
         then None
         else Some (i, frac_nanos b start i))
      else Some (19, 0))"

definition instant_offset :: "string \<Rightarrow> nat \<Rightarrow> int option" where
  "instant_offset b i =
     (case nth_opt b i of
        Some c \<Rightarrow>
          if c = CHR ''Z'' \<or> c = CHR ''z'' then Some 0
          else if c = CHR ''+'' \<or> c = CHR ''-'' then
            (case number (slice_opt b (i + 1) (i + 3)) of None \<Rightarrow> None | Some off_hour \<Rightarrow>
             (case number (slice_opt b (i + 4) (i + 6)) of None \<Rightarrow> None | Some off_min \<Rightarrow>
              let magnitude = off_hour * 3600 + off_min * 60
              in Some (if c = CHR ''+'' then magnitude else - magnitude)))
          else None
      | None \<Rightarrow> None)"

definition instant :: "rfc3339 \<Rightarrow> (int \<times> nat) option" where
  "instant t =
     (let b = ts_str t in
      Option.bind (number (slice_opt b 0 4)) (\<lambda>year.
      Option.bind (number (slice_opt b 5 7)) (\<lambda>month.
      Option.bind (number (slice_opt b 8 10)) (\<lambda>day.
      Option.bind (number (slice_opt b 11 13)) (\<lambda>hour.
      Option.bind (number (slice_opt b 14 16)) (\<lambda>minute.
      Option.bind (number (slice_opt b 17 19)) (\<lambda>second.
      if second = 60 then None else
      Option.bind (instant_frac b) (\<lambda>(i, nanos).
      Option.bind (instant_offset b i) (\<lambda>offset_secs.
      let days = days_from_civil year month day in
      if civil_from_days days \<noteq> (year, month, day) then None
      else Some (days * 86400 + hour * 3600 + minute * 60 + second - offset_secs, nanos))))))))))"

end
