(* ===== verification/Calendar_Correct.thy ===== *)
theory Calendar_Correct
  imports Timestamp
begin

text \<open>
  The two calendar functions of the host are inverse to each other on real dates, for every
  day number, and the adapter's copy computes the same dates.
\<close>

section \<open>Real dates\<close>

definition leap_year :: "int \<Rightarrow> bool" where
  "leap_year y \<longleftrightarrow> y mod 4 = 0 \<and> (y mod 100 \<noteq> 0 \<or> y mod 400 = 0)"

definition month_length :: "int \<Rightarrow> int \<Rightarrow> int" where
  "month_length y m =
     (if m = 2 then (if leap_year y then 29 else 28)
      else if m = 4 \<or> m = 6 \<or> m = 9 \<or> m = 11 then 30 else 31)"

definition real_date :: "int \<Rightarrow> int \<Rightarrow> int \<Rightarrow> bool" where
  "real_date y m d \<longleftrightarrow> 1 \<le> m \<and> m \<le> 12 \<and> 1 \<le> d \<and> d \<le> month_length y m"

section \<open>The year of an era\<close>

definition year_start :: "int \<Rightarrow> int" where
  "year_start y = 365 * y + y div 4 - y div 100"

definition year_end :: "int \<Rightarrow> int" where
  "year_end y = (if y = 399 then 146096 else year_start (y + 1) - 1)"

definition corrected :: "int \<Rightarrow> int" where
  "corrected n = n - n div 1460 + n div 36524 - n div 146096"

lemma corrected_step:
  assumes "0 \<le> n" "n < 146096"
  shows "corrected n \<le> corrected (n + 1)"
proof (cases "n = 146095")
  case True
  then show ?thesis by (simp add: corrected_def)
next
  case False
  define a a' b b' where "a = n div 1460" and "a' = (n + 1) div 1460"
    and "b = n div 36524" and "b' = (n + 1) div 36524"
  from False assms have e: "n div 146096 = 0" "(n + 1) div 146096 = 0" by simp_all
  have "(n + 1) div 1460 \<le> (n + 1460) div 1460" by (rule zdiv_mono1) auto
  then have "a' \<le> a + 1" by (simp add: a_def a'_def)
  moreover have "b \<le> b'" unfolding b_def b'_def by (rule zdiv_mono1) auto
  ultimately have "n - a + b - 0 \<le> n + 1 - a' + b' - 0" by linarith
  then show ?thesis by (simp only: corrected_def e a_def a'_def b_def b'_def)
qed

lemma corrected_mono:
  assumes "0 \<le> m" "m \<le> n" "n \<le> 146096"
  shows "corrected m \<le> corrected n"
  using assms(2,3)
proof (induction n rule: int_ge_induct)
  case base
  show ?case by simp
next
  case (step n)
  then have "corrected m \<le> corrected n" by simp
  also have "\<dots> \<le> corrected (n + 1)" using step assms(1) by (intro corrected_step) auto
  finally show ?case .
qed

lemma year_end_bound:
  assumes "0 \<le> y" "y \<le> 399"
  shows "year_end y \<le> 146096"
proof (cases "y = 399")
  case True
  then show ?thesis by (simp add: year_end_def)
next
  case False
  then have "y + 1 \<le> 399" using assms by simp
  moreover from this have "(y + 1) div 4 \<le> 399 div 4" by (intro zdiv_mono1) auto
  moreover have "0 \<le> (y + 1) div 100" using assms by simp
  ultimately show ?thesis using False by (simp add: year_end_def year_start_def)
qed

lemma year_ends_check:
  "list_all (\<lambda>y. corrected (year_start y) div 365 = y \<and> corrected (year_end y) div 365 = y) [0..399]"
  by code_simp

lemma corrected_year:
  assumes "0 \<le> y" "y \<le> 399" "year_start y \<le> n" "n \<le> year_end y"
  shows "corrected n div 365 = y"
proof -
  have y: "y \<in> set [0..399]" using assms by simp
  with year_ends_check have lo: "corrected (year_start y) div 365 = y"
    and hi: "corrected (year_end y) div 365 = y" by (auto simp only: list_all_iff)
  have s: "0 \<le> year_start y" using assms(1) by (simp add: year_start_def)
  have e: "year_end y \<le> 146096" using assms(1,2) by (rule year_end_bound)
  have "corrected (year_start y) \<le> corrected n" "corrected n \<le> corrected (year_end y)"
    using assms s e by (auto intro!: corrected_mono)
  with lo hi show ?thesis by (metis antisym zdiv_mono1 zero_less_numeral)
qed

lemma year_exists_aux:
  "0 \<le> n \<Longrightarrow> k \<le> 399 \<Longrightarrow> n < year_start (int k + 1) \<or> k = 399 \<Longrightarrow>
   \<exists>y. 0 \<le> y \<and> y \<le> int k \<and> year_start y \<le> n \<and> (y = 399 \<or> n < year_start (y + 1))"
proof (induction k)
  case 0
  then show ?case by (intro exI [of _ 0]) (auto simp: year_start_def)
next
  case (Suc k)
  show ?case
  proof (cases "n < year_start (int k + 1)")
    case True
    with Suc obtain y where "0 \<le> y" "y \<le> int k" "year_start y \<le> n" "y = 399 \<or> n < year_start (y + 1)"
      by auto
    then show ?thesis by (intro exI [of _ y]) auto
  next
    case False
    with Suc.prems show ?thesis by (intro exI [of _ "int k + 1"]) (auto simp: add.commute)
  qed
qed

lemma year_exists:
  assumes "0 \<le> n" "n \<le> 146096"
  obtains y where "0 \<le> y" "y \<le> 399" "year_start y \<le> n" "n \<le> year_end y"
proof -
  from year_exists_aux [of n 399] assms obtain y where
    "0 \<le> y" "y \<le> 399" "year_start y \<le> n" "y = 399 \<or> n < year_start (y + 1)" by auto
  moreover from this assms have "n \<le> year_end y" by (auto simp: year_end_def)
  ultimately show ?thesis using that by blast
qed

section \<open>The month of a year\<close>

definition month_day :: "int \<Rightarrow> int \<times> int" where
  "month_day doy = (let mp = (5 * doy + 2) div 153 in (mp, doy - (153 * mp + 2) div 5 + 1))"

definition mp_length :: "int \<Rightarrow> int" where
  "mp_length mp =
     (if mp = 11 then 29 else if mp = 1 \<or> mp = 3 \<or> mp = 6 \<or> mp = 8 then 30 else 31)"

lemma month_day_check:
  "list_all (\<lambda>doy. case month_day doy of (mp, d) \<Rightarrow>
      0 \<le> mp \<and> mp \<le> 11 \<and> 1 \<le> d \<and> d \<le> mp_length mp \<and> (153 * mp + 2) div 5 + d - 1 = doy) [0..365]"
  by code_simp

lemma day_month_check:
  "list_all (\<lambda>mp. list_all (\<lambda>d. month_day ((153 * mp + 2) div 5 + d - 1) = (mp, d))
      [1..mp_length mp]) [0..11]"
  by code_simp

lemma month_day_spec:
  assumes "0 \<le> doy" "doy \<le> 365" "month_day doy = (mp, d)"
  shows "0 \<le> mp \<and> mp \<le> 11 \<and> 1 \<le> d \<and> d \<le> mp_length mp \<and> (153 * mp + 2) div 5 + d - 1 = doy"
proof -
  have "doy \<in> set [0..365]" using assms by simp
  with month_day_check assms(3) show ?thesis by (auto simp only: list_all_iff prod.case)
qed

lemma day_month_spec:
  assumes "0 \<le> mp" "mp \<le> 11" "1 \<le> d" "d \<le> mp_length mp"
  shows "month_day ((153 * mp + 2) div 5 + d - 1) = (mp, d)"
proof -
  have "mp \<in> set [0..11]" "d \<in> set [1..mp_length mp]" using assms by simp_all
  with day_month_check show ?thesis by (auto simp only: list_all_iff)
qed

lemma mp_month_length:
  assumes "1 \<le> m" "m \<le> 12"
  shows "month_length y m =
    (if m = 2 then (if leap_year y then 29 else 28) else mp_length (if m > 2 then m - 3 else m + 9))"
proof -
  have "m \<in> set [1..12]" using assms by simp
  moreover have "[1..12] = [1, 2, 3, 4, 5, 6, 7, 8, 9, 10, 11, 12 :: int]" by code_simp
  ultimately have "m \<in> {1, 2, 3, 4, 5, 6, 7, 8, 9, 10, 11, 12}" by auto
  then show ?thesis by (elim insertE emptyE) (simp_all add: month_length_def mp_length_def)
qed

section \<open>Leap days\<close>

text \<open>A year of an era, counted from March, has a 366th day exactly if the calendar year it
  ends in is a leap year.\<close>

lemma div_succ:
  fixes y b :: int
  assumes "1 < b"
  shows "(y + 1) div b = y div b + (if (y + 1) mod b = 0 then 1 else 0)"
proof (cases "y mod b + 1 = b")
  case True
  have "y + 1 = b * (y div b) + (y mod b + 1)" by simp
  also have "\<dots> = b * (y div b + 1) + 0" by (simp only: True distrib_left mult_1_right add_0_right)
  finally have e: "y + 1 = b * (y div b + 1) + 0" .
  have "(y + 1) div b = y div b + 1" by (rule int_div_pos_eq [OF e]) (use assms in simp_all)
  moreover have "(y + 1) mod b = 0" by (rule int_mod_pos_eq [OF e]) (use assms in simp_all)
  ultimately show ?thesis by simp
next
  case False
  have e: "y + 1 = b * (y div b) + (y mod b + 1)" by simp
  have r: "0 \<le> y mod b" "y mod b < b" using assms by simp_all
  then have r': "0 \<le> y mod b + 1" "y mod b + 1 < b" using False by linarith+
  have "(y + 1) div b = y div b" by (rule int_div_pos_eq [OF e r'])
  moreover have "(y + 1) mod b = y mod b + 1" by (rule int_mod_pos_eq [OF e r'])
  ultimately show ?thesis using r by simp
qed

lemma year_length:
  assumes "0 \<le> y" "y \<le> 399"
  shows "year_end y - year_start y = (if leap_year (400 * era + y + 1) then 365 else 364)"
proof (cases "y = 399")
  case True
  then show ?thesis by (simp add: year_end_def year_start_def leap_year_def)
next
  case False
  have "400 * era + y + 1 = (y + 1) + (100 * era) * 4" "400 * era + y + 1 = (y + 1) + (4 * era) * 100"
    "400 * era + y + 1 = (y + 1) + era * 400" by simp_all
  then have m: "(400 * era + y + 1) mod 4 = (y + 1) mod 4" "(400 * era + y + 1) mod 100 = (y + 1) mod 100"
    "(400 * era + y + 1) mod 400 = (y + 1) mod 400" by (metis mod_mult_self1)+
  have s: "(y + 1) mod 400 \<noteq> 0" using assms False by simp
  have a: "(y + 1) div 4 = y div 4 + (if (y + 1) mod 4 = 0 then 1 else 0)" by (rule div_succ) simp
  have b: "(y + 1) div 100 = y div 100 + (if (y + 1) mod 100 = 0 then 1 else 0)" by (rule div_succ) simp
  have c: "(y + 1) mod 100 = 0 \<Longrightarrow> (y + 1) mod 4 = 0"
  proof -
    assume "(y + 1) mod 100 = 0"
    moreover have "(y + 1) mod 100 mod 4 = (y + 1) mod 4" by (rule mod_mod_cancel) simp
    ultimately show ?thesis by simp
  qed
  show ?thesis using False s c unfolding year_end_def year_start_def leap_year_def m a b by auto
qed

section \<open>The round trips\<close>

lemma civil_from_days_alt:
  assumes "0 \<le> y" "y \<le> 399" "year_start y \<le> doe" "doe \<le> year_end y"
    and "0 \<le> doe" "doe \<le> 146096"
  shows "civil_from_days (era * 146097 + doe - 719468) =
    (let (mp, d) = month_day (doe - year_start y); m = (if mp < 10 then mp + 3 else mp - 9)
     in (if m \<le> 2 then y + era * 400 + 1 else y + era * 400, m, d))"
proof -
  have e: "(era * 146097 + doe) div 146097 = era" using assms by simp
  have y: "(doe - doe div 1460 + doe div 36524 - doe div 146096) div 365 = y"
    using corrected_year [OF assms(1-4)] by (simp only: corrected_def)
  have z: "era * 146097 + doe - 719468 + 719468 = era * 146097 + doe"
    "era * 146097 + doe - era * 146097 = doe" by simp_all
  show ?thesis
    by (simp only: civil_from_days_def Let_def month_day_def year_start_def z e y prod.case)
qed

lemma civil_days_roundtrip:
  assumes "civil_from_days n = (y, m, d)"
  shows "days_from_civil y m d = n \<and> real_date y m d"
proof -
  define era doe where "era = (n + 719468) div 146097" and "doe = (n + 719468) mod 146097"
  have n: "n = era * 146097 + doe - 719468"
    using div_mult_mod_eq [of "n + 719468" 146097] unfolding era_def doe_def by linarith
  have doe: "0 \<le> doe" "doe \<le> 146096"
    using pos_mod_bound [of 146097 "n + 719468"] by (auto simp: doe_def)
  obtain yy where yy: "0 \<le> yy" "yy \<le> 399" "year_start yy \<le> doe" "doe \<le> year_end yy"
    using doe by (rule year_exists)
  obtain mp dd where md: "month_day (doe - year_start yy) = (mp, dd)" by fastforce
  have len: "doe - year_start yy \<le> (if leap_year (400 * era + yy + 1) then 365 else 364)"
    using year_length [OF yy(1,2), of era] yy(4) by linarith
  then have "doe - year_start yy \<le> 365" by (simp split: if_splits)
  with yy(3) md have mds: "0 \<le> mp" "mp \<le> 11" "1 \<le> dd" "dd \<le> mp_length mp"
    "(153 * mp + 2) div 5 + dd - 1 = doe - year_start yy"
    using month_day_spec [of "doe - year_start yy" mp dd] by auto
  have "civil_from_days n = (let m = (if mp < 10 then mp + 3 else mp - 9)
      in (if m \<le> 2 then yy + era * 400 + 1 else yy + era * 400, m, dd))"
    unfolding n by (subst civil_from_days_alt [OF yy doe]) (simp add: md)
  with assms have m: "m = (if mp < 10 then mp + 3 else mp - 9)" and d: "d = dd"
    and y: "y = (if mp < 10 then yy + era * 400 else yy + era * 400 + 1)"
    using mds by (auto simp: Let_def split: if_splits)
  have "days_from_civil y m d = n"
    using mds yy(1,2) unfolding n m d y days_from_civil_def year_start_def Let_def
    by (cases "mp < 10") (simp_all add: algebra_simps)
  moreover have "real_date y m d"
  proof (cases "mp = 11")
    case True
    then have "dd \<le> (if leap_year y then 29 else 28)"
      using mds(5) len y by (auto simp: algebra_simps split: if_splits)
    then show ?thesis using True mds m d by (simp add: real_date_def month_length_def)
  next
    case False
    then have "1 \<le> m" "m \<le> 12" "m \<noteq> 2" and "(if m > 2 then m - 3 else m + 9) = mp"
      using m mds by (auto split: if_splits)
    then show ?thesis using mds d by (simp add: real_date_def mp_month_length)
  qed
  ultimately show ?thesis by simp
qed

lemma days_civil_roundtrip:
  assumes "real_date y m d"
  shows "civil_from_days (days_from_civil y m d) = (y, m, d)"
proof -
  define yy where "yy = y - (if m \<le> 2 then 1 else 0)"
  define era yoe where "era = yy div 400" and "yoe = yy mod 400"
  define mp where "mp = (if m > 2 then m - 3 else m + 9)"
  define doy where "doy = (153 * mp + 2) div 5 + d - 1"
  have m: "1 \<le> m" "m \<le> 12" and d: "1 \<le> d" "d \<le> month_length y m"
    using assms by (simp_all add: real_date_def)
  have yoe: "0 \<le> yoe" "yoe \<le> 399" using pos_mod_bound [of 400 yy] by (auto simp: yoe_def)
  have yy: "yy = 400 * era + yoe" by (simp add: era_def yoe_def)
  have mp: "0 \<le> mp" "mp \<le> 11" using m by (auto simp: mp_def)
  have dl: "d \<le> mp_length mp"
    using d mp_month_length [OF m, of y] by (auto simp: mp_def mp_length_def split: if_splits)
  then have md: "month_day doy = (mp, d)" unfolding doy_def using mp d by (intro day_month_spec)
  have lo: "0 \<le> doy" using mp d by (simp add: doy_def)
  have hi: "doy \<le> year_end yoe - year_start yoe"
  proof (cases "mp = 11")
    case True
    then have "m = 2" using m by (auto simp: mp_def split: if_splits)
    then have "y = 400 * era + yoe + 1" using yy by (simp add: yy_def)
    then show ?thesis
      using True d \<open>m = 2\<close> year_length [OF yoe, of era] by (auto simp: doy_def month_length_def)
  next
    case False
    then have "mp \<le> 10" using mp by simp
    then have "doy \<le> 336"
    proof -
      have "mp \<in> set [0..10]" using mp \<open>mp \<le> 10\<close> by simp
      moreover have "list_all (\<lambda>mp. (153 * mp + 2) div 5 + mp_length mp - 1 \<le> 336) [0..10]" by code_simp
      ultimately show ?thesis using dl by (auto simp only: list_all_iff doy_def)
    qed
    then show ?thesis using year_length [OF yoe, of era] by simp
  qed
  define doe where "doe = year_start yoe + doy"
  have ys: "0 \<le> year_start yoe" using yoe by (simp add: year_start_def)
  have ye: "year_end yoe \<le> 146096" using yoe by (rule year_end_bound)
  have "days_from_civil y m d = era * 146097 + doe - 719468"
  proof -
    have "yy - era * 400 = yoe" using yy by simp
    then show ?thesis
      by (simp only: days_from_civil_def Let_def yy_def [symmetric] mp_def [symmetric]
          era_def [symmetric] doe_def doy_def year_start_def mult.commute [of yoe 365])
  qed
  moreover have yv: "y = (if m \<le> 2 then yoe + era * 400 + 1 else yoe + era * 400)"
    using yy by (simp add: yy_def split: if_splits)
  have "civil_from_days (era * 146097 + doe - 719468) = (y, m, d)"
    using yoe ys ye lo hi m
    by (subst civil_from_days_alt [where y = yoe])
      (auto simp: doe_def md mp_def yv split: if_splits)
  ultimately show ?thesis by simp
qed

lemma real_date_iff: "civil_from_days (days_from_civil y m d) = (y, m, d) \<longleftrightarrow> real_date y m d"
  using civil_days_roundtrip days_civil_roundtrip by blast

lemma btc_civil_eq: "btc_civil_from_days n = civil_from_days n"
proof -
  have "trunc_div (if 0 \<le> z then z else z - 146096) 146097 = z div 146097" for z :: int
  proof (cases "0 \<le> z")
    case True
    then show ?thesis by (simp add: trunc_div_nonneg)
  next
    case False
    then have "trunc_div (z - 146096) 146097 = - ((146096 - z) div 146097)" by (simp add: trunc_div_def)
    moreover have "146096 - z = 146097 * (- (z div 146097)) + (146096 - z mod 146097)"
      using mult_div_mod_eq [of 146097 z] by linarith
    then have "(146096 - z) div 146097 = - (z div 146097)"
      by (rule int_div_pos_eq) (use pos_mod_bound [of 146097 z] pos_mod_sign [of 146097 z] in simp_all)
    ultimately show ?thesis using False by simp
  qed
  then show ?thesis unfolding btc_civil_from_days_def civil_from_days_def by (simp only:)
qed

section \<open>The days of consecutive dates\<close>

definition march_days :: "int \<Rightarrow> int" where
  "march_days yy = 365 * yy + yy div 4 - yy div 100 + yy div 400"

lemma days_from_civil_alt:
  "days_from_civil y m d =
     march_days (y - (if m \<le> 2 then 1 else 0)) + (153 * (if m > 2 then m - 3 else m + 9) + 2) div 5 + d - 719469"
proof -
  define yy where "yy = y - (if m \<le> 2 then 1 else 0)"
  define era yoe where "era = yy div 400" and "yoe = yy mod 400"
  have yy: "yy = 400 * era + yoe" by (simp add: era_def yoe_def)
  have "yy div 4 = (yoe + (100 * era) * 4) div 4" "yy div 100 = (yoe + (4 * era) * 100) div 100"
    by (simp_all add: yy)
  then have "yy div 4 = 100 * era + yoe div 4" "yy div 100 = 4 * era + yoe div 100"
    by (simp_all only: div_mult_self1 simp_thms)
  moreover have "yy - era * 400 = yoe" using yy by simp
  ultimately show ?thesis
    unfolding days_from_civil_def Let_def yy_def [symmetric] era_def [symmetric] march_days_def
    using yy by simp
qed

lemma march_days_mono: "y \<le> z \<Longrightarrow> march_days y \<le> march_days z"
proof -
  assume yz: "y \<le> z"
  then have "y div 4 \<le> z div 4" "y div 400 \<le> z div 400" by (simp_all add: zdiv_mono1)
  moreover have "z div 100 \<le> y div 100 + (z - y)"
  proof -
    have "z div 100 \<le> (y + (z - y) * 100) div 100" using yz by (intro zdiv_mono1) auto
    also have "\<dots> = y div 100 + (z - y)" by simp
    finally show ?thesis .
  qed
  ultimately show ?thesis using yz unfolding march_days_def by linarith
qed

lemma march_days_succ:
  "march_days (y + 1) = march_days y + (if leap_year (y + 1) then 366 else 365)"
proof -
  have d4: "(y + 1) div 4 = y div 4 + (if (y + 1) mod 4 = 0 then 1 else 0)" by (rule div_succ) simp
  have d100: "(y + 1) div 100 = y div 100 + (if (y + 1) mod 100 = 0 then 1 else 0)" by (rule div_succ) simp
  have d400: "(y + 1) div 400 = y div 400 + (if (y + 1) mod 400 = 0 then 1 else 0)" by (rule div_succ) simp
  have c: "(y + 1) mod 100 = 0 \<Longrightarrow> (y + 1) mod 4 = 0" "(y + 1) mod 400 = 0 \<Longrightarrow> (y + 1) mod 100 = 0"
    using mod_mod_cancel [of 4 100 "y + 1"] mod_mod_cancel [of 100 400 "y + 1"] by auto
  define A B C where "A \<longleftrightarrow> (y + 1) mod 4 = 0" and "B \<longleftrightarrow> (y + 1) mod 100 = 0" and "C \<longleftrightarrow> (y + 1) mod 400 = 0"
  have c': "B \<Longrightarrow> A" "C \<Longrightarrow> B" using c by (simp_all add: A_def B_def C_def)
  show ?thesis
    unfolding march_days_def leap_year_def d4 d100 d400 A_def [symmetric] B_def [symmetric] C_def [symmetric]
    using c' by (cases A; cases B; cases C) simp_all
qed

definition next_day :: "int \<times> int \<times> int \<Rightarrow> int \<times> int \<times> int" where
  "next_day = (\<lambda>(y, m, d).
     if d < month_length y m then (y, m, d + 1)
     else if m < 12 then (y, m + 1, 1) else (y + 1, 1, 1))"

lemma month_cases: "1 \<le> m \<Longrightarrow> m \<le> 12 \<Longrightarrow>
  m = 1 \<or> m = 2 \<or> m = 3 \<or> m = 4 \<or> m = 5 \<or> m = 6 \<or> m = 7 \<or> m = 8 \<or> m = 9 \<or> m = 10 \<or> m = 11 \<or> m = (12::int)"
  by presburger

lemma days_next_day:
  assumes "real_date y m d" "next_day (y, m, d) = (y', m', d')"
  shows "days_from_civil y' m' d' = days_from_civil y m d + 1" and "real_date y' m' d'"
proof -
  have m: "1 \<le> m" "m \<le> 12" and d: "1 \<le> d" "d \<le> month_length y m"
    using assms by (simp_all add: real_date_def)
  have "march_days y = march_days (y - 1) + (if leap_year y then 366 else 365)"
    using march_days_succ [of "y - 1"] by simp
  moreover note month_cases [OF m]
  ultimately show "days_from_civil y' m' d' = days_from_civil y m d + 1"
    using assms(2) d unfolding days_from_civil_alt next_day_def
    by (elim disjE) (auto simp: month_length_def split: if_splits)
  show "real_date y' m' d'"
    using assms(2) m d month_cases [OF m] by (auto simp: next_day_def real_date_def month_length_def split: if_splits)
qed

lemma civil_succ: "civil_from_days (n + 1) = next_day (civil_from_days n)"
proof -
  obtain y m d where c: "civil_from_days n = (y, m, d)" by (metis prod_cases3)
  obtain y' m' d' where nx: "next_day (y, m, d) = (y', m', d')" by (metis prod_cases3)
  from civil_days_roundtrip [OF c] have n: "days_from_civil y m d = n" and r: "real_date y m d" by simp_all
  from days_next_day [OF r nx] n have "days_from_civil y' m' d' = n + 1" "real_date y' m' d'" by simp_all
  then show ?thesis using days_civil_roundtrip [of y' m' d'] c nx by simp
qed

lemma civil_epoch: "civil_from_days 0 = (1970, 1, 1)"
  by code_simp

lemma civil_year_range:
  assumes "civil_from_days n = (y, m, d)"
  shows "- 719528 \<le> n \<Longrightarrow> 0 \<le> y" and "n < 2932897 \<Longrightarrow> y < 10000"
    and "2932897 \<le> n \<Longrightarrow> 10000 \<le> y"
proof -
  from civil_days_roundtrip [OF assms] have n: "days_from_civil y m d = n" and r: "real_date y m d" by simp_all
  have m: "1 \<le> m" "m \<le> 12" and d: "1 \<le> d" "d \<le> 31"
    using r by (auto simp: real_date_def month_length_def split: if_splits)
  have md: "0 \<le> (153 * (if m > 2 then m - 3 else m + 9) + 2) div 5"
    "(153 * (if m > 2 then m - 3 else m + 9) + 2) div 5 \<le> (if m > 2 then 275 else 337)"
    "m \<le> 2 \<Longrightarrow> 306 \<le> (153 * (if m > 2 then m - 3 else m + 9) + 2) div 5"
    using month_cases [OF m] by (elim disjE; simp)+
  define M P where "M = march_days (y - (if m \<le> 2 then 1 else 0))"
    and "P = (153 * (if m > 2 then m - 3 else m + 9) + 2) div 5"
  have nMP: "n = M + P + d - 719469" using n by (simp only: days_from_civil_alt M_def P_def)
  note P = md [folded P_def]
  show "0 \<le> y" if lo: "- 719528 \<le> n"
  proof (rule ccontr)
    assume "\<not> 0 \<le> y"
    then have "M \<le> march_days (if m \<le> 2 then -2 else -1)"
      unfolding M_def by (intro march_days_mono) auto
    also have "\<dots> = (if m \<le> 2 then - 731 else - 366)" by (simp add: march_days_def)
    finally show False using P(2) d nMP lo by (cases "m \<le> 2") simp_all
  qed
  show "y < 10000" if hi: "n < 2932897"
  proof (rule ccontr)
    assume "\<not> y < 10000"
    have "(if m \<le> 2 then 3652059 else 3652425) = march_days (if m \<le> 2 then 9999 else 10000)"
      by (simp add: march_days_def)
    also have "\<dots> \<le> M" unfolding M_def by (intro march_days_mono) (use \<open>\<not> y < 10000\<close> in auto)
    finally show False using P(1,3) d nMP hi by (cases "m \<le> 2") simp_all
  qed
  show "10000 \<le> y" if lo: "2932897 \<le> n"
  proof (rule ccontr)
    assume "\<not> 10000 \<le> y"
    then have "M \<le> march_days (if m \<le> 2 then 9998 else 9999)"
      unfolding M_def by (intro march_days_mono) auto
    also have "\<dots> = (if m \<le> 2 then 3651694 else 3652059)" by (simp add: march_days_def)
    finally show False using P(2) d nMP lo by (cases "m \<le> 2") simp_all
  qed
qed

end
