(* ===== verification/Timestamp_Correct.thy ===== *)
theory Timestamp_Correct
  imports Calendar_Correct
begin

text \<open>
  The validator accepts exactly the structural RFC 3339 texts, and an instant, where there is
  one, is the exact time the text names. The grammar is stated as a record of fields with a
  rendering.
\<close>

section \<open>The grammar\<close>

datatype zone = Zulu char | Offset char nat nat

record stamp =
  yr :: nat
  mo :: nat
  dy :: nat
  tee :: char
  hr :: nat
  mi :: nat
  se :: nat
  frc :: string
  zn :: zone

definition d2 :: "nat \<Rightarrow> string" where
  "d2 n = [digit_char (n div 10), digit_char (n mod 10)]"

definition d4 :: "nat \<Rightarrow> string" where
  "d4 n = [digit_char (n div 1000), digit_char (n div 100 mod 10), digit_char (n div 10 mod 10),
           digit_char (n mod 10)]"

fun zone_text :: "zone \<Rightarrow> string" where
  "zone_text (Zulu c) = [c]"
| "zone_text (Offset c h m) = c # d2 h @ '':'' @ d2 m"

fun zone_ok :: "zone \<Rightarrow> bool" where
  "zone_ok (Zulu c) \<longleftrightarrow> c = CHR ''Z'' \<or> c = CHR ''z''"
| "zone_ok (Offset c h m) \<longleftrightarrow> (c = CHR ''+'' \<or> c = CHR ''-'') \<and> h \<le> 23 \<and> m \<le> 59"

fun zone_secs :: "zone \<Rightarrow> int" where
  "zone_secs (Zulu c) = 0"
| "zone_secs (Offset c h m) =
     (if c = CHR ''+'' then int h * 3600 + int m * 60 else - (int h * 3600 + int m * 60))"

definition stamp_ok :: "stamp \<Rightarrow> bool" where
  "stamp_ok t \<longleftrightarrow>
     yr t < 10000 \<and> 1 \<le> mo t \<and> mo t \<le> 12 \<and> 1 \<le> dy t \<and> dy t \<le> 31 \<and>
     (tee t = CHR ''T'' \<or> tee t = CHR ''t'') \<and> hr t \<le> 23 \<and> mi t \<le> 59 \<and> se t \<le> 60 \<and>
     (\<forall>c\<in>set (frc t). is_digit c) \<and> zone_ok (zn t)"

definition tail_text :: "string \<Rightarrow> zone \<Rightarrow> string" where
  "tail_text f z = (if f = [] then [] else CHR ''.'' # f) @ zone_text z"

definition render :: "stamp \<Rightarrow> string" where
  "render t =
     d4 (yr t) @ ''-'' @ d2 (mo t) @ ''-'' @ d2 (dy t) @ [tee t] @ d2 (hr t) @ '':'' @
     d2 (mi t) @ '':'' @ d2 (se t) @ tail_text (frc t) (zn t)"

section \<open>Acceptance\<close>

lemma two_digit_range: "is_digit a \<Longrightarrow> is_digit b \<Longrightarrow> digit_val a * 10 + digit_val b < 100"
  using digit_val_less [of a] digit_val_less [of b] by linarith

lemma d2_digits: "is_digit a \<Longrightarrow> is_digit b \<Longrightarrow> d2 (digit_val a * 10 + digit_val b) = [a, b]"
  using digit_val_less [of a] digit_val_less [of b] by (simp add: d2_def)

lemma d2_is_digit: "n < 100 \<Longrightarrow> is_digit (digit_char (n div 10)) \<and> is_digit (digit_char (n mod 10))"
  by simp

lemma two_digits_Some:
  "two_digits b i = Some v \<longleftrightarrow>
   (\<exists>x y. nth_opt b i = Some x \<and> nth_opt b (i + 1) = Some y \<and> is_digit x \<and> is_digit y \<and>
      v = digit_val x * 10 + digit_val y)"
  by (auto simp: two_digits_def split: option.splits)

lemma field_Inr:
  "field b i lo hi = Inr u \<longleftrightarrow>
   (\<exists>x y. nth_opt b i = Some x \<and> nth_opt b (i + 1) = Some y \<and> is_digit x \<and> is_digit y \<and>
      lo \<le> digit_val x * 10 + digit_val y \<and> digit_val x * 10 + digit_val y \<le> hi)"
  by (cases u) (auto simp: field_def res_simps two_digits_Some)

lemma nth_opt_Suc_numeral [simp]: "nth_opt (x # xs) (numeral k) = nth_opt xs (pred_numeral k)"
  by (simp add: numeral_eq_Suc)

lemma prefix_exists:
  assumes "19 \<le> length s"
  obtains a b c d e f g h i j k l m n p q r t u rest where
    "s = a # b # c # d # e # f # g # h # i # j # k # l # m # n # p # q # r # t # u # rest"
  using assms by (auto simp: numeral_eq_Suc Suc_le_length_iff)

definition validate_tail :: "string \<Rightarrow> nat \<Rightarrow> bool" where
  "validate_tail b i \<longleftrightarrow>
     (if nth_opt b i = Some (CHR ''.'') then skip_digits b (i + 1) \<noteq> i + 1 \<and> validate_zone b (skip_digits b (i + 1)) = Inr ()
      else validate_zone b i = Inr ())"

lemma validate_prefix:
  assumes s: "s = a # b # c # d # e # f # g # h # i # j # k # l # m # n # p # q # r # t # u # rest"
  shows "validate_rfc3339 s = Inr () \<longleftrightarrow>
    rest \<noteq> [] \<and> is_digit a \<and> is_digit b \<and> is_digit c \<and> is_digit d \<and> e = CHR ''-'' \<and>
    is_digit f \<and> is_digit g \<and> 1 \<le> digit_val f * 10 + digit_val g \<and> digit_val f * 10 + digit_val g \<le> 12 \<and>
    h = CHR ''-'' \<and> is_digit i \<and> is_digit j \<and> 1 \<le> digit_val i * 10 + digit_val j \<and>
    digit_val i * 10 + digit_val j \<le> 31 \<and> (k = CHR ''T'' \<or> k = CHR ''t'') \<and>
    is_digit l \<and> is_digit m \<and> digit_val l * 10 + digit_val m \<le> 23 \<and> n = CHR '':'' \<and>
    is_digit p \<and> is_digit q \<and> digit_val p * 10 + digit_val q \<le> 59 \<and> r = CHR '':'' \<and>
    is_digit t \<and> is_digit u \<and> digit_val t * 10 + digit_val u \<le> 60 \<and> validate_tail s 19"
proof (cases "rest = []")
  case True
  then show ?thesis by (simp add: s validate_rfc3339_def)
next
  case False
  then have len: "\<not> length s < 20" by (simp add: s Suc_le_eq)
  have fs: "sep s 4 (CHR ''-'') = Inr () \<longleftrightarrow> e = CHR ''-''" "sep s 7 (CHR ''-'') = Inr () \<longleftrightarrow> h = CHR ''-''"
    "sep s 13 (CHR '':'') = Inr () \<longleftrightarrow> n = CHR '':''" "sep s 16 (CHR '':'') = Inr () \<longleftrightarrow> r = CHR '':''"
    by (simp_all add: s sep_def)
  have f5: "field s 5 1 12 = Inr () \<longleftrightarrow> is_digit f \<and> is_digit g \<and>
      1 \<le> digit_val f * 10 + digit_val g \<and> digit_val f * 10 + digit_val g \<le> 12"
    and f8: "field s 8 1 31 = Inr () \<longleftrightarrow> is_digit i \<and> is_digit j \<and>
      1 \<le> digit_val i * 10 + digit_val j \<and> digit_val i * 10 + digit_val j \<le> 31"
    and f11: "field s 11 0 23 = Inr () \<longleftrightarrow> is_digit l \<and> is_digit m \<and> digit_val l * 10 + digit_val m \<le> 23"
    and f14: "field s 14 0 59 = Inr () \<longleftrightarrow> is_digit p \<and> is_digit q \<and> digit_val p * 10 + digit_val q \<le> 59"
    and f17: "field s 17 0 60 = Inr () \<longleftrightarrow> is_digit t \<and> is_digit u \<and> digit_val t * 10 + digit_val u \<le> 60"
    by (simp_all add: field_Inr s)
  have k: "s ! 10 = k" and y: "list_all is_digit (take 4 s) \<longleftrightarrow> is_digit a \<and> is_digit b \<and> is_digit c \<and> is_digit d"
    by (simp_all add: s)
  have tl: "(if nth_opt s 19 = Some (CHR ''.'') then
          (let i = skip_digits s 20 in if i = 20 then Inl i else validate_zone s i)
        else validate_zone s 19) = Inr () \<longleftrightarrow> validate_tail s 19"
    by (simp add: validate_tail_def Let_def)
  show ?thesis
    unfolding validate_rfc3339_def if_not_P [OF len] y
    by (auto simp: res_simps fs f5 f8 f11 f14 f17 k tl False simp del: One_nat_def split: if_splits)
qed


lemma nth_opt_shift [simp]: "nth_opt (pre @ z) (length pre + k) = nth_opt z k" "nth_opt (pre @ z) (length pre) = nth_opt z 0"
  by (simp_all add: nth_opt_def nth_append)

lemma field_shift: "field (pre @ z) (length pre + k) lo hi = Inr () \<longleftrightarrow> field z k lo hi = Inr ()"
  unfolding field_Inr add.assoc nth_opt_shift ..

lemma list6: "length z = 6 \<longleftrightarrow> (\<exists>a b c d e f. z = [a, b, c, d, e, f])"
  by (auto simp: numeral_eq_Suc length_Suc_conv)

lemma field_six:
  "field [c, a, b, d, e, f] 1 0 23 = Inr () \<longleftrightarrow> is_digit a \<and> is_digit b \<and> digit_val a * 10 + digit_val b \<le> 23"
  "field [c, a, b, d, e, f] 4 0 59 = Inr () \<longleftrightarrow> is_digit e \<and> is_digit f \<and> digit_val e * 10 + digit_val f \<le> 59"
  "nth_opt [c, a, b, d, e, f] 3 = Some d"
  by (simp_all add: field_Inr)

lemma offset_iff:
  "(field z 1 0 23 = Inr () \<and> nth_opt z 3 = Some (CHR '':'') \<and> field z 4 0 59 = Inr () \<and> length z = 6)
   \<longleftrightarrow> (\<exists>c h m. h \<le> 23 \<and> m \<le> 59 \<and> z = c # d2 h @ '':'' @ d2 m)" (is "?l \<longleftrightarrow> ?r")
proof
  assume l: ?l
  then have "length z = 6" by blast
  then obtain c a b d e f where z: "z = [c, a, b, d, e, f]" unfolding list6 by blast
  have p: "is_digit a" "is_digit b" "digit_val a * 10 + digit_val b \<le> 23" "d = CHR '':''"
    "is_digit e" "is_digit f" "digit_val e * 10 + digit_val f \<le> 59"
    using l unfolding z field_six by blast+
  show ?r
    by (rule exI [of _ c], rule exI [of _ "digit_val a * 10 + digit_val b"],
        rule exI [of _ "digit_val e * 10 + digit_val f"]) (simp add: z p d2_digits)
next
  assume ?r
  then obtain c h m where z: "h \<le> 23" "m \<le> 59" "z = c # d2 h @ '':'' @ d2 m" by blast
  have z6: "z = [c, digit_char (h div 10), digit_char (h mod 10), CHR '':'', digit_char (m div 10), digit_char (m mod 10)]"
    using z by (simp add: d2_def)
  show ?l unfolding z6 field_six using z(1,2) by simp
qed

lemma validate_zone_iff:
  "validate_zone (pre @ z) (length pre) = Inr () \<longleftrightarrow> (\<exists>zz. zone_ok zz \<and> zone_text zz = z)"
proof (cases z)
  case Nil
  have "zone_text zz \<noteq> []" for zz by (cases zz) auto
  then show ?thesis unfolding validate_zone_def nth_opt_shift using Nil by simp
next
  case (Cons c z')
  have off: "(\<exists>zz. zone_ok zz \<and> zone_text zz = z) \<longleftrightarrow>
      (c = CHR ''Z'' \<or> c = CHR ''z'') \<and> z' = [] \<or>
      (c = CHR ''+'' \<or> c = CHR ''-'') \<and> (\<exists>c' h m. h \<le> 23 \<and> m \<le> 59 \<and> z = c' # d2 h @ '':'' @ d2 m)"
    (is "?l \<longleftrightarrow> ?r")
  proof
    assume ?l
    then obtain zz where "zone_ok zz" "zone_text zz = z" by blast
    then show ?r using Cons by (cases zz) auto
  next
    assume ?r
    then show ?l
    proof (elim disjE conjE exE)
      fix c' h m assume *: "c = CHR ''+''" "h \<le> 23" "m \<le> 59" "z = c' # d2 h @ '':'' @ d2 m"
      then show ?l using Cons by (intro exI [of _ "Offset c h m"]) auto
    next
      fix c' h m assume *: "c = CHR ''-''" "h \<le> 23" "m \<le> 59" "z = c' # d2 h @ '':'' @ d2 m"
      then show ?l using Cons by (intro exI [of _ "Offset c h m"]) auto
    qed (use Cons in \<open>auto intro: exI [of _ "Zulu c"]\<close>)
  qed
  have "validate_zone (pre @ z) (length pre) = Inr () \<longleftrightarrow>
      (c = CHR ''Z'' \<or> c = CHR ''z'') \<and> length z = 1 \<or>
      (c = CHR ''+'' \<or> c = CHR ''-'') \<and> field z 1 0 23 = Inr () \<and>
        nth_opt z 3 = Some (CHR '':'') \<and> field z 4 0 59 = Inr () \<and> length z = 6"
    unfolding validate_zone_def nth_opt_shift using Cons
    by (auto simp: res_simps field_shift simp del: One_nat_def split: if_splits)
  then show ?thesis unfolding off offset_iff using Cons by auto
qed

lemma zone_text_hd: "zone_ok zz \<Longrightarrow> \<exists>c cs. zone_text zz = c # cs \<and> \<not> is_digit c \<and> c \<noteq> CHR ''.''"
  by (cases zz) auto

lemma takeWhile_zone:
  assumes "\<forall>c\<in>set f. is_digit c" and "zone_ok z"
  shows "takeWhile is_digit (f @ zone_text z) = f"
  using takeWhile_dropWhile_unique [of f is_digit "zone_text z"] assms zone_text_hd [OF assms(2)] by auto

lemma validate_tail_iff:
  "validate_tail (pre @ r) (length pre) \<longleftrightarrow>
   (\<exists>f z. (\<forall>c\<in>set f. is_digit c) \<and> zone_ok z \<and> r = tail_text f z)"
proof (cases "\<exists>r'. r = CHR ''.'' # r'")
  case True
  then obtain r' where r: "r = CHR ''.'' # r'" by blast
  let ?f = "takeWhile is_digit r'" and ?z = "dropWhile is_digit r'"
  have sk: "skip_digits (pre @ r) (length pre + 1) = length (pre @ CHR ''.'' # ?f)"
    by (simp add: skip_digits_def r)
  have split: "pre @ r = (pre @ CHR ''.'' # ?f) @ ?z" by (simp add: r)
  have dot: "nth_opt (pre @ r) (length pre) = Some (CHR ''.'')" unfolding nth_opt_shift by (simp add: r)
  have vz: "validate_zone (pre @ r) (length (pre @ CHR ''.'' # ?f)) = Inr () \<longleftrightarrow> (\<exists>zz. zone_ok zz \<and> zone_text zz = ?z)"
    unfolding split by (rule validate_zone_iff)
  have "validate_tail (pre @ r) (length pre) \<longleftrightarrow> ?f \<noteq> [] \<and> (\<exists>zz. zone_ok zz \<and> zone_text zz = ?z)"
    unfolding validate_tail_def sk dot vz by simp
  also have "\<dots> \<longleftrightarrow> (\<exists>f z. (\<forall>c\<in>set f. is_digit c) \<and> zone_ok z \<and> r = tail_text f z)" (is "?l \<longleftrightarrow> ?r")
  proof
    assume ?l
    then obtain zz where "?f \<noteq> []" "zone_ok zz" "zone_text zz = ?z" by blast
    then show ?r
      by (intro exI [of _ ?f] exI [of _ zz]) (auto simp: tail_text_def r dest: set_takeWhileD)
  next
    assume ?r
    then obtain f z where fz: "\<forall>c\<in>set f. is_digit c" "zone_ok z" "r = tail_text f z" by blast
    then have "f \<noteq> []" using r zone_text_hd [OF fz(2)] by (auto simp: tail_text_def)
    then have r': "r' = f @ zone_text z" using fz r by (simp add: tail_text_def)
    then have "?f = f" using takeWhile_zone [OF fz(1,2)] by simp
    moreover from this r' have "?z = zone_text z" by (metis append_eq_append_conv takeWhile_dropWhile_id)
    ultimately show ?l using \<open>f \<noteq> []\<close> fz(2) by auto
  qed
  finally show ?thesis .
next
  case False
  then have nd: "nth_opt r 0 \<noteq> Some (CHR ''.'')" by (cases r) auto
  have "validate_tail (pre @ r) (length pre) \<longleftrightarrow> (\<exists>zz. zone_ok zz \<and> zone_text zz = r)"
    unfolding validate_tail_def nth_opt_shift using nd by (simp add: validate_zone_iff)
  also have "\<dots> \<longleftrightarrow> (\<exists>f z. (\<forall>c\<in>set f. is_digit c) \<and> zone_ok z \<and> r = tail_text f z)"
    using False by (auto simp: tail_text_def intro: exI [of _ "[]"] split: if_splits)
  finally show ?thesis .
qed

text \<open>The grammar theorem: acceptance is being the rendering of a legal stamp.\<close>

lemma validate_iff: "validate_rfc3339 s = Inr () \<longleftrightarrow> (\<exists>t. stamp_ok t \<and> render t = s)"
proof
  assume v: "validate_rfc3339 s = Inr ()"
  then have "19 \<le> length s" by (auto simp: validate_rfc3339_def split: if_splits)
  then obtain a b c d e f g h i j k l m n p q r t u rest where
    s: "s = a # b # c # d # e # f # g # h # i # j # k # l # m # n # p # q # r # t # u # rest"
    by (rule prefix_exists)
  note p = v [unfolded validate_prefix [OF s]]
  let ?pre = "[a, b, c, d, e, f, g, h, i, j, k, l, m, n, p, q, r, t, u]"
  have vt: "validate_tail s 19" using p by blast
  have s19: "s = ?pre @ rest" "19 = length ?pre" by (simp_all add: s)
  have "validate_tail (?pre @ rest) (length ?pre)" using vt unfolding s19(1) s19(2) by simp
  then obtain fr z where fz: "\<forall>c\<in>set fr. is_digit c" "zone_ok z" "rest = tail_text fr z"
    unfolding validate_tail_iff by blast
  let ?t = "\<lparr>yr = undec [a, b, c, d], mo = digit_val f * 10 + digit_val g,
      dy = digit_val i * 10 + digit_val j, tee = k, hr = digit_val l * 10 + digit_val m,
      mi = digit_val p * 10 + digit_val q, se = digit_val t * 10 + digit_val u, frc = fr, zn = z\<rparr>"
  have dl: "digit_val a < 10" "digit_val b < 10" "digit_val c < 10" "digit_val d < 10"
    using p digit_val_less by auto
  have y: "undec [a, b, c, d] = digit_val a * 1000 + digit_val b * 100 + digit_val c * 10 + digit_val d"
    by (simp add: undec_def)
  then have "yr ?t < 10000" using dl by simp
  moreover have "d4 (yr ?t) = [a, b, c, d]"
  proof -
    have nest: "undec [a, b, c, d] = ((digit_val a * 10 + digit_val b) * 10 + digit_val c) * 10 + digit_val d"
      by (simp add: undec_def)
    have st: "e < 10 \<Longrightarrow> (m * 10 + e) div 10 = m" "e < 10 \<Longrightarrow> (m * 10 + e) mod 10 = e" for m e :: nat
      by simp_all
    have dv: "m div 100 = m div 10 div 10" "m div 1000 = m div 10 div 10 div 10" for m :: nat
      by (simp_all add: div_mult2_eq [symmetric])
    have "d4 (((A * 10 + B) * 10 + C) * 10 + D) = [digit_char A, digit_char B, digit_char C, digit_char D]"
      if "A < 10" "B < 10" "C < 10" "D < 10" for A B C D
      unfolding d4_def dv st(1) [OF that(4)] st(1) [OF that(3)] st(1) [OF that(2)] st(2) [OF that(4)]
        st(2) [OF that(3)] st(2) [OF that(2)] ..
    then show ?thesis using p dl by (simp only: nest stamp.simps digit_char_digit_val)
  qed
  ultimately have "stamp_ok ?t" "render ?t = s"
    using p fz s by (auto simp: stamp_ok_def render_def d2_digits)
  then show "\<exists>t. stamp_ok t \<and> render t = s" by blast
next
  assume "\<exists>t. stamp_ok t \<and> render t = s"
  then obtain t where ok: "stamp_ok t" and s: "render t = s" by blast
  let ?pre = "d4 (yr t) @ ''-'' @ d2 (mo t) @ ''-'' @ d2 (dy t) @ [tee t] @ d2 (hr t) @ '':'' @
     d2 (mi t) @ '':'' @ d2 (se t)"
  have vt: "validate_tail (?pre @ tail_text (frc t) (zn t)) (length ?pre)"
    unfolding validate_tail_iff using ok by (auto simp: stamp_ok_def)
  have l19: "length ?pre = 19" by (simp add: d2_def d4_def)
  have v: "validate_tail s 19" using vt unfolding l19 s [symmetric] by (simp add: render_def)
  have ne: "tail_text (frc t) (zn t) \<noteq> []" by (cases "zn t") (auto simp: tail_text_def)
  have s': "s = digit_char (yr t div 1000) # digit_char (yr t div 100 mod 10) #
      digit_char (yr t div 10 mod 10) # digit_char (yr t mod 10) # CHR ''-'' #
      digit_char (mo t div 10) # digit_char (mo t mod 10) # CHR ''-'' #
      digit_char (dy t div 10) # digit_char (dy t mod 10) # tee t #
      digit_char (hr t div 10) # digit_char (hr t mod 10) # CHR '':'' #
      digit_char (mi t div 10) # digit_char (mi t mod 10) # CHR '':'' #
      digit_char (se t div 10) # digit_char (se t mod 10) # tail_text (frc t) (zn t)"
    using s by (simp add: render_def d2_def d4_def)
  show "validate_rfc3339 s = Inr ()"
    unfolding validate_prefix [OF s'] using ok v ne by (auto simp: stamp_ok_def)
qed

section \<open>What an instant is\<close>

lemma number_digits:
  "ds \<noteq> [] \<Longrightarrow> \<forall>c\<in>set ds. is_digit c \<Longrightarrow> number (Some ds) = Some (int (undec ds))"
proof -
  have fold: "foldl (\<lambda>n b. n * 10 + int (digit_val b)) 0 ds = int (undec ds)" for ds
    by (induction ds rule: rev_induct) simp_all
  show "ds \<noteq> [] \<Longrightarrow> \<forall>c\<in>set ds. is_digit c \<Longrightarrow> ?thesis"
    by (auto simp: number_def fold list_all_iff)
qed

lemma undec_d2 [simp]: "n < 100 \<Longrightarrow> undec (d2 n) = n"
  by (simp add: d2_def undec_Cons)

lemma undec_d4 [simp]: "n < 10000 \<Longrightarrow> undec (d4 n) = n"
proof -
  assume n: "n < 10000"
  have dv: "n div 100 = n div 10 div 10" "n div 1000 = n div 10 div 10 div 10"
    by (simp_all add: div_mult2_eq [symmetric])
  have "undec (d4 n) = ((digit_val (digit_char (n div 10 div 10 div 10)) * 10 + digit_val (digit_char (n div 10 div 10 mod 10))) * 10 +
      digit_val (digit_char (n div 10 mod 10))) * 10 + digit_val (digit_char (n mod 10))"
    unfolding d4_def dv undec_def by simp
  also have "\<dots> = ((n div 10 div 10 div 10 * 10 + n div 10 div 10 mod 10) * 10 + n div 10 mod 10) * 10 + n mod 10"
    using n by (subst (1 2 3 4) digit_val_digit_char) auto
  also have "\<dots> = n" by (simp only: div_mult_mod_eq)
  finally show ?thesis .
qed

lemma number_d2: "n < 100 \<Longrightarrow> number (Some (d2 n)) = Some (int n)"
  using number_digits [of "d2 n"] by (simp add: d2_def undec_Cons)

lemma number_d4: "n < 10000 \<Longrightarrow> number (Some (d4 n)) = Some (int n)"
proof -
  assume n: "n < 10000"
  have "\<forall>c\<in>set (d4 n). is_digit c" using n by (auto simp: d4_def)
  then show ?thesis using number_digits [of "d4 n"] undec_d4 [OF n] by (simp add: d4_def)
qed

lemma slice_opt_shift: "slice_opt (pre @ z) (length pre + i) (length pre + j) = slice_opt z i j"
  by (auto simp: slice_opt_def)

lemma slice_opt_prefix: "slice_opt (pre @ z) (length pre) (length pre + j) = slice_opt z 0 j"
  using slice_opt_shift [of pre z 0 j] by simp

lemma slice_mid: "length a = i \<Longrightarrow> i + length m = j \<Longrightarrow> slice_opt (a @ m @ z) i j = Some m"
  by (auto simp: slice_opt_def)

definition nano9 :: "string \<Rightarrow> nat" where
  "nano9 f = undec (take 9 (f @ replicate 9 (CHR ''0'')))"

definition nano_exact :: "string \<Rightarrow> bool" where
  "nano_exact f \<longleftrightarrow> (\<forall>c\<in>set (drop 9 f). c = CHR ''0'')"

lemma nano9_less: "\<forall>c\<in>set f. is_digit c \<Longrightarrow> nano9 f < 10 ^ 9"
proof -
  assume f: "\<forall>c\<in>set f. is_digit c"
  have "\<forall>c\<in>set (take 9 (f @ replicate 9 (CHR ''0''))). is_digit c"
    using f by (auto dest!: in_set_takeD)
  from undec_bound [OF this] have "nano9 f < 10 ^ (min (length f + 9) 9)" unfolding nano9_def by (simp only: length_take length_append length_replicate)
  then show ?thesis by simp
qed

lemma nano9_exact:
  assumes "nano_exact f"
  shows "nano9 f * 10 ^ length f = undec f * 10 ^ 9"
proof -
  let ?w = "f @ replicate 9 (CHR ''0'')"
  have "undec ?w = undec f * 10 ^ 9" by (simp add: undec_append)
  moreover have "undec ?w = undec (take 9 ?w @ drop 9 ?w)" by (simp only: append_take_drop_id)
  moreover have "length (drop 9 ?w) = length f" by simp
  then have "undec (take 9 ?w @ drop 9 ?w) = nano9 f * 10 ^ length f + undec (drop 9 ?w)"
    unfolding undec_append nano9_def by (simp only:)
  moreover have "undec (drop 9 ?w) = 0"
  proof -
    have z: "c = CHR ''0''" if "c \<in> set (drop 9 ?w)" for c
      using that assms by (auto simp: nano_exact_def dest: in_set_dropD)
    then have "is_digit c" if "c \<in> set (drop 9 ?w)" for c using that is_digit_zero by metis
    with z show ?thesis using undec_eq_0_iff [of "drop 9 ?w"] by blast
  qed
  ultimately show ?thesis by simp
qed

lemma frac_nanos_eq:
  assumes p: "length p = s" and f: "i = s + length f"
  shows "frac_nanos (p @ f @ z) s i = nano9 f"
proof -
  let ?w = "f @ replicate 9 (CHR ''0'')"
  have d: "frac_digit (p @ f @ z) s i k = digit_val (?w ! k)" if "k < 9" for k
    using that p f by (auto simp: frac_digit_def nth_opt_def nth_append)
  have "take 9 ?w = map (nth ?w) [0..<9]" by (rule nth_equalityI) (simp_all del: take_append)
  then have "nano9 f = foldl (\<lambda>n k. n * 10 + digit_val (?w ! k)) 0 [0..<9]"
    by (simp add: nano9_def undec_def foldl_map del: upt_conv_Cons)
  also have "\<dots> = foldl (\<lambda>n k. n * 10 + frac_digit (p @ f @ z) s i k) 0 [0..<9]"
    by (rule foldl_cong) (auto simp: d)
  finally show ?thesis by (simp add: frac_nanos_def)
qed


lemma skip_digits_append:
  assumes "\<forall>c\<in>set f. is_digit c" and "zone_ok z" and "length p = s"
  shows "skip_digits (p @ f @ zone_text z) s = s + length f"
  using takeWhile_zone [OF assms(1,2)] assms(3) by (simp add: skip_digits_def)

lemma instant_frac_tail:
  assumes p: "length p = 19" and f: "\<forall>c\<in>set f. is_digit c" and z: "zone_ok z"
  shows "instant_frac (p @ tail_text f z) =
    (if nano_exact f then Some (length (p @ tail_text f z) - length (zone_text z), nano9 f) else None)"
proof (cases "f = []")
  case True
  have "nth_opt (p @ tail_text f z) (length p) \<noteq> Some (CHR ''.'')"
    unfolding nth_opt_shift using True zone_text_hd [OF z] by (auto simp: tail_text_def)
  with True p show ?thesis
    by (simp add: instant_frac_def nano_exact_def nano9_def tail_text_def)
next
  case False
  let ?p = "p @ ''.''" and ?b = "(p @ ''.'') @ f @ zone_text z" and ?i = "20 + length f"
  have lp: "length ?p = 20" using p by simp
  have b: "p @ tail_text f z = ?b" using False by (simp add: tail_text_def)
  have dot: "nth_opt ?b 19 = Some (CHR ''.'')" using p by (simp add: nth_opt_def nth_append)
  have sk: "skip_digits ?b 20 = ?i" by (rule skip_digits_append [OF f z lp])
  have beyond: "slice_opt ?b (20 + 9) ?i = (if 9 \<le> length f then Some (drop 9 f) else None)"
    using slice_opt_shift [of ?p "f @ zone_text z" 9 "length f"] unfolding lp
    by (auto simp: slice_opt_def)
  have ne: "(case slice_opt ?b (20 + 9) ?i of Some beyond \<Rightarrow> list_ex (\<lambda>d. d \<noteq> CHR ''0'') beyond | None \<Rightarrow> False)
      \<longleftrightarrow> \<not> nano_exact f"
    unfolding beyond by (auto simp: nano_exact_def list_ex_iff)
  have nan: "frac_nanos ?b 20 ?i = nano9 f" by (rule frac_nanos_eq [OF lp refl])
  have "?i \<noteq> 20" using False by simp
  moreover have "length ?b - length (zone_text z) = ?i" using lp by simp
  ultimately show ?thesis unfolding b instant_frac_def dot sk Let_def ne nan by simp
qed

lemma instant_offset_zone:
  assumes z: "zone_ok z"
  shows "instant_offset (p @ zone_text z) (length p) = Some (zone_secs z)"
proof (cases z)
  case (Zulu c)
  with z show ?thesis unfolding instant_offset_def nth_opt_shift by auto
next
  case (Offset c h m)
  with z have hm: "h < 100" "m < 100" "c = CHR ''+'' \<or> c = CHR ''-''" by auto
  have "slice_opt (c # d2 h @ '':'' @ d2 m) 1 3 = Some (d2 h)" "slice_opt (c # d2 h @ '':'' @ d2 m) 4 6 = Some (d2 m)"
    by (simp_all add: slice_opt_def d2_def)
  then show ?thesis
    unfolding instant_offset_def nth_opt_shift slice_opt_shift using Offset hm
    by (auto simp: number_d2)
qed

text \<open>The instant of a rendered stamp, on every branch of the source.\<close>

lemma instant_render:
  assumes ok: "stamp_ok t"
  shows "instant (Rfc3339 (render t)) =
    (if se t = 60 \<or> \<not> nano_exact (frc t) \<or> \<not> real_date (int (yr t)) (int (mo t)) (int (dy t)) then None
     else Some (days_from_civil (int (yr t)) (int (mo t)) (int (dy t)) * 86400 + int (hr t) * 3600 +
                int (mi t) * 60 + int (se t) - zone_secs (zn t), nano9 (frc t)))"
proof -
  let ?p = "d4 (yr t) @ ''-'' @ d2 (mo t) @ ''-'' @ d2 (dy t) @ [tee t] @ d2 (hr t) @ '':'' @
     d2 (mi t) @ '':'' @ d2 (se t)"
  let ?b = "render t"
  have l4: "length (d4 n) = 4" and l2: "length (d2 n) = 2" for n by (simp_all add: d4_def d2_def)
  have b: "?b = ?p @ tail_text (frc t) (zn t)" by (simp add: render_def)
  have lp: "length ?p = 19" by (simp add: l4 l2)
  have rng: "yr t < 10000" "mo t < 100" "dy t < 100" "hr t < 100" "mi t < 100" "se t < 100"
    using ok by (auto simp: stamp_ok_def)
  have s1: "slice_opt ?b 0 4 = Some (d4 (yr t))"
    using slice_mid [of "[]" 0 "d4 (yr t)" 4] by (simp add: render_def l4)
  have s2: "slice_opt ?b 5 7 = Some (d2 (mo t))"
    using slice_mid [of "d4 (yr t) @ ''-''" 5 "d2 (mo t)" 7] by (simp add: render_def l4 l2)
  have s3: "slice_opt ?b 8 10 = Some (d2 (dy t))"
    using slice_mid [of "d4 (yr t) @ ''-'' @ d2 (mo t) @ ''-''" 8 "d2 (dy t)" 10] by (simp add: render_def l4 l2)
  have s4: "slice_opt ?b 11 13 = Some (d2 (hr t))"
    using slice_mid [of "d4 (yr t) @ ''-'' @ d2 (mo t) @ ''-'' @ d2 (dy t) @ [tee t]" 11 "d2 (hr t)" 13]
    by (simp add: render_def l4 l2)
  have s5: "slice_opt ?b 14 16 = Some (d2 (mi t))"
    using slice_mid [of "d4 (yr t) @ ''-'' @ d2 (mo t) @ ''-'' @ d2 (dy t) @ [tee t] @ d2 (hr t) @ '':''" 14
      "d2 (mi t)" 16] by (simp add: render_def l4 l2)
  have s6: "slice_opt ?b 17 19 = Some (d2 (se t))"
    using slice_mid [of "d4 (yr t) @ ''-'' @ d2 (mo t) @ ''-'' @ d2 (dy t) @ [tee t] @ d2 (hr t) @ '':'' @
      d2 (mi t) @ '':''" 17 "d2 (se t)" 19] by (simp add: render_def l4 l2)
  have fr: "instant_frac ?b = (if nano_exact (frc t) then Some (length ?b - length (zone_text (zn t)), nano9 (frc t)) else None)"
    unfolding b by (rule instant_frac_tail [OF lp]) (use ok in \<open>auto simp: stamp_ok_def\<close>)
  have off: "instant_offset ?b (length ?b - length (zone_text (zn t))) = Some (zone_secs (zn t))"
  proof -
    have "\<exists>q. ?b = q @ zone_text (zn t)" by (auto simp: b tail_text_def)
    then obtain q where q: "?b = q @ zone_text (zn t)" ..
    then have "length ?b - length (zone_text (zn t)) = length q" by simp
    then show ?thesis using q instant_offset_zone [of "zn t" q] ok by (simp add: stamp_ok_def)
  qed
  show ?thesis
    unfolding instant_def Let_def rfc3339.sel s1 s2 s3 s4 s5 s6 number_d4 [OF rng(1)]
      number_d2 [OF rng(2)] number_d2 [OF rng(3)] number_d2 [OF rng(4)] number_d2 [OF rng(5)]
      number_d2 [OF rng(6)] fr
    by (simp add: off real_date_iff)
qed

section \<open>Exact times\<close>

text \<open>The time a stamp names, in seconds since the epoch, as an exact rational.\<close>

definition moment :: "stamp \<Rightarrow> rat" where
  "moment t =
     of_int (days_from_civil (int (yr t)) (int (mo t)) (int (dy t)) * 86400 + int (hr t) * 3600 +
             int (mi t) * 60 + int (se t) - zone_secs (zn t)) +
     of_nat (undec (frc t)) / 10 ^ length (frc t)"

definition instant_time :: "int \<times> nat \<Rightarrow> rat" where
  "instant_time = (\<lambda>(s, n). of_int s + of_nat n / 10 ^ 9)"

lemma nano9_rat: "nano_exact f \<Longrightarrow> (of_nat (nano9 f) / 10 ^ 9 :: rat) = of_nat (undec f) / 10 ^ length f"
proof -
  assume "nano_exact f"
  from nano9_exact [OF this] have "(of_nat (nano9 f * 10 ^ length f) :: rat) = of_nat (undec f * 10 ^ 9)" by simp
  then show ?thesis by (simp add: field_simps)
qed

lemma instant_exact:
  assumes "stamp_ok t" "instant (Rfc3339 (render t)) = Some p"
  shows "instant_time p = moment t" and "snd p < 10 ^ 9"
  using assms nano9_rat [of "frc t"] nano9_less [of "frc t"]
  unfolding instant_render [OF assms(1)]
  by (auto simp: instant_time_def moment_def stamp_ok_def split: if_splits)

lemma instant_time_less:
  assumes "snd p < 10 ^ 9" "snd q < 10 ^ 9"
  shows "p < q \<longleftrightarrow> instant_time p < instant_time q"
proof -
  obtain s n s' n' where pq: "p = (s, n)" "q = (s', n')" by fastforce
  have e: "instant_time (s, n) = of_int (s * 10 ^ 9 + int n) / 10 ^ 9" for s n
    by (simp add: instant_time_def field_simps)
  have "instant_time p < instant_time q \<longleftrightarrow> s * 10 ^ 9 + int n < s' * 10 ^ 9 + int n'"
    unfolding pq e by (subst divide_less_cancel) (simp only: of_int_less_iff, simp)
  then show ?thesis using assms unfolding pq less_prod_def by auto
qed

section \<open>The clock's own stamps\<close>

lemma pad0_digits:
  assumes "n < 10 ^ w" "0 < w"
  shows "length (pad0 w (int n)) = w" "\<forall>c\<in>set (pad0 w (int n)). is_digit c" "undec (pad0 w (int n)) = n"
  using assms dec_digits [of n] length_dec_le [of w n]
  by (auto simp: pad0_def undec_append Let_def)

lemma pad0_eq:
  "n < 10 ^ w \<Longrightarrow> 0 < w \<Longrightarrow> length ds = w \<Longrightarrow> \<forall>c\<in>set ds. is_digit c \<Longrightarrow> undec ds = n \<Longrightarrow> pad0 w (int n) = ds"
  by (rule undec_inj) (simp_all add: pad0_digits)

lemma pad0_two: "0 \<le> n \<Longrightarrow> n < 100 \<Longrightarrow> pad0 2 n = d2 (nat n)"
  using pad0_eq [of "nat n" 2 "d2 (nat n)"] by (simp add: d2_def undec_Cons)

lemma pad0_four: "0 \<le> n \<Longrightarrow> n < 10000 \<Longrightarrow> pad0 4 n = d4 (nat n)"
  using pad0_eq [of "nat n" 4 "d4 (nat n)"] undec_d4 [of "nat n"] by (simp add: d4_def)

definition clock_stamp :: "int \<Rightarrow> stamp" where
  "clock_stamp secs =
     (let (y, m, d) = civil_from_days (secs div 86400); s = secs mod 86400
      in \<lparr>yr = nat y, mo = nat m, dy = nat d, tee = CHR ''T'', hr = nat (s div 3600),
          mi = nat (s mod 3600 div 60), se = nat (s mod 60), frc = [], zn = Zulu (CHR ''Z'')\<rparr>)"

lemma clock_stamp:
  assumes "- 62167219200 \<le> secs" "secs < 253402300800"
  shows "stamp_ok (clock_stamp secs)" "format_utc secs = render (clock_stamp secs)"
    "instant (Rfc3339 (render (clock_stamp secs))) = Some (secs, 0)"
proof -
  obtain y m d where c: "civil_from_days (secs div 86400) = (y, m, d)" by (metis prod_cases3)
  from civil_days_roundtrip [OF c] have dv: "days_from_civil y m d = secs div 86400" and r: "real_date y m d"
    by simp_all
  define s where "s = secs mod 86400"
  have s: "0 \<le> s" "s < 86400" "secs div 86400 * 86400 + s = secs" by (simp_all add: s_def)
  have "- 62167219200 div 86400 \<le> secs div 86400" by (rule zdiv_mono1) (use assms in auto)
  then have "0 \<le> y" by (intro civil_year_range(1) [OF c]) simp
  moreover have "secs div 86400 \<le> 253402300799 div 86400" by (rule zdiv_mono1) (use assms in auto)
  then have "y < 10000" by (intro civil_year_range(2) [OF c]) simp
  ultimately have y: "0 \<le> y" "y < 10000" .
  have md: "1 \<le> m" "m \<le> 12" "1 \<le> d" "d \<le> 31"
    using r by (auto simp: real_date_def month_length_def split: if_splits)
  define hh mm ss where "hh = s div 3600" and "mm = s mod 3600 div 60" and "ss = s mod 60"
  have rng: "0 \<le> hh" "hh \<le> 23" "0 \<le> mm" "mm \<le> 59" "0 \<le> ss" "ss \<le> 59"
  proof -
    have "s div 3600 \<le> 86399 div 3600" "s mod 3600 div 60 \<le> 3599 div 60"
      by (rule zdiv_mono1; use s in simp; fail | rule zdiv_mono1; simp; smt (verit) pos_mod_bound)+
    then show "0 \<le> hh" "hh \<le> 23" "0 \<le> mm" "mm \<le> 59" "0 \<le> ss" "ss \<le> 59"
      using s by (simp_all add: hh_def mm_def ss_def pos_imp_zdiv_nonneg_iff)
  qed
  have hms: "hh * 3600 + mm * 60 + ss = s"
  proof -
    have "s = s div 3600 * 3600 + s mod 3600" by simp
    moreover have "s mod 3600 = s mod 3600 div 60 * 60 + s mod 3600 mod 60" by simp
    moreover have "s mod 3600 mod 60 = s mod 60" by (rule mod_mod_cancel) simp
    ultimately show ?thesis unfolding hh_def mm_def ss_def by linarith
  qed
  have cs: "clock_stamp secs = \<lparr>yr = nat y, mo = nat m, dy = nat d, tee = CHR ''T'', hr = nat hh,
      mi = nat mm, se = nat ss, frc = [], zn = Zulu (CHR ''Z'')\<rparr>"
    by (simp add: clock_stamp_def c s_def hh_def mm_def ss_def Let_def)
  show ok: "stamp_ok (clock_stamp secs)" using y md rng by (auto simp: cs stamp_ok_def)
  show "format_utc secs = render (clock_stamp secs)"
    unfolding format_utc_def Let_def c prod.case s_def [symmetric] hh_def [symmetric] mm_def [symmetric] ss_def [symmetric]
    using y md rng by (simp add: pad0_two pad0_four cs render_def tail_text_def)
  show "instant (Rfc3339 (render (clock_stamp secs))) = Some (secs, 0)"
    unfolding instant_render [OF ok] using y md rng r hms s(3)
    by (auto simp: cs dv nano_exact_def nano9_def)
qed

section \<open>The properties of timestamps\<close>

text \<open>
  C33. The validator accepts exactly the renderings of a stamp whose fields are in the ranges
  of the structural rule: four digit year, month 1--12, day 1--31, hour to 23, minute to 59,
  second to 60, an optional non-empty fraction, and a zone; nothing before or after.
\<close>

theorem rfc3339_accepts: "rfc3339_new s = Inr r \<longleftrightarrow> ts_str r = s \<and> (\<exists>t. stamp_ok t \<and> render t = s)"
  by (cases r) (auto simp: rfc3339_new_def res_simps validate_iff)

text \<open>
  C34. An accepted stamp has an instant exactly if it is no leap second, its fraction is no
  finer than a nanosecond and its date is in the calendar; the instant is then the exact
  rational time the text names, with nanoseconds below a second.
\<close>

theorem instant_meaning:
  assumes "stamp_ok t"
  shows "case instant (Rfc3339 (render t)) of
           None \<Rightarrow> se t = 60 \<or> \<not> nano_exact (frc t) \<or> \<not> real_date (int (yr t)) (int (mo t)) (int (dy t))
         | Some p \<Rightarrow> instant_time p = moment t \<and> snd p < 10 ^ 9 \<and> se t \<noteq> 60 \<and> nano_exact (frc t) \<and>
                     real_date (int (yr t)) (int (mo t)) (int (dy t))"
proof (cases "instant (Rfc3339 (render t))")
  case None
  then show ?thesis using instant_render [OF assms] by (simp split: if_splits)
next
  case (Some p)
  then show ?thesis using instant_render [OF assms] instant_exact [OF assms Some] by (simp split: if_splits)
qed

theorem instant_meaning_witness:
  "case instant (Rfc3339 (render \<lparr>yr = 2024, mo = 2, dy = 29, tee = CHR ''T'', hr = 1, mi = 2, se = 3,
      frc = ''5'', zn = Zulu (CHR ''Z'')\<rparr>)) of None \<Rightarrow> False
   | Some p \<Rightarrow> instant_time p = 3418337047 / 2"
proof -
  let ?t = "\<lparr>yr = 2024, mo = 2, dy = 29, tee = CHR ''T'', hr = 1, mi = 2, se = 3, frc = ''5'', zn = Zulu (CHR ''Z'')\<rparr>"
  have "stamp_ok ?t" by (simp add: stamp_ok_def is_digit_def)
  note m = instant_meaning [OF this]
  have "moment ?t = 3418337047 / 2"
    by (simp add: moment_def days_from_civil_def Let_def digit_val_def)
  moreover have "nano_exact (frc ?t)" "real_date (int (yr ?t)) (int (mo ?t)) (int (dy ?t))"
    by (simp_all add: nano_exact_def real_date_def month_length_def leap_year_def)
  ultimately show ?thesis using m by (cases "instant (Rfc3339 (render ?t))") simp_all
qed

text \<open>
  Instants order like the times: for two accepted stamps that both have an instant, the
  pairs the host compares are ordered exactly as the rational times the texts name.
\<close>

theorem instants_ordered:
  assumes "stamp_ok t" and "stamp_ok u"
    and "instant (Rfc3339 (render t)) = Some p" and "instant (Rfc3339 (render u)) = Some q"
  shows "(p < q \<longleftrightarrow> moment t < moment u) \<and> (p = q \<longleftrightarrow> moment t = moment u)"
proof -
  note pt = instant_exact [OF assms(1,3)] and qu = instant_exact [OF assms(2,4)]
  from instant_time_less [OF pt(2) qu(2)] pt(1) qu(1)
  have less: "p < q \<longleftrightarrow> moment t < moment u" by simp
  from instant_time_less [OF pt(2) qu(2)] instant_time_less [OF qu(2) pt(2)] pt(1) qu(1)
  have "p = q \<longleftrightarrow> moment t = moment u" by (metis linorder_less_linear order_less_irrefl)
  with less show ?thesis by blast
qed

theorem instants_ordered_witness:
  "moment (clock_stamp 1) < moment (clock_stamp 1 \<lparr>frc := ''5''\<rparr>)"
proof -
  let ?t = "clock_stamp 1" and ?u = "clock_stamp 1 \<lparr>frc := ''5''\<rparr>"
  have e: "?t = \<lparr>yr = 1970, mo = 1, dy = 1, tee = CHR ''T'', hr = 0, mi = 0, se = 1, frc = [], zn = Zulu (CHR ''Z'')\<rparr>"
    by (simp add: clock_stamp_def civil_epoch)
  have ok: "stamp_ok ?t" "stamp_ok ?u" by (simp_all add: e stamp_ok_def is_digit_def)
  have "take 9 (''5'' @ replicate 9 (CHR ''0'')) = ''5'' @ replicate 8 (CHR ''0'')" by simp
  moreover have "undec (''5'' @ replicate 8 (CHR ''0'')) = 500000000"
    unfolding undec_append by (simp add: digit_val_def)
  ultimately have n5: "nano9 ''5'' = 500000000" by (simp only: nano9_def)
  have n0: "nano9 [] = 0" by (simp add: nano9_def)
  have i: "instant (Rfc3339 (render ?t)) = Some (1, 0)" "instant (Rfc3339 (render ?u)) = Some (1, 500000000)"
    unfolding instant_render [OF ok(1)] instant_render [OF ok(2)]
    by (simp_all add: e n5 n0 nano_exact_def real_date_def month_length_def days_from_civil_def)
  from instants_ordered [OF ok i] show ?thesis by simp
qed

text \<open>
  The two calendar functions are inverse to each other, day zero is 1970-01-01, and each
  day number maps to the calendar day after its predecessor's; the adapter's own copy of the
  function is the same function.
\<close>

theorem calendar_correct:
  "civil_from_days 0 = (1970, 1, 1) \<and> civil_from_days (n + 1) = next_day (civil_from_days n) \<and>
   (case civil_from_days n of (y, m, d) \<Rightarrow> real_date y m d \<and> days_from_civil y m d = n) \<and>
   (civil_from_days (days_from_civil y m d) = (y, m, d)) = real_date y m d \<and>
   btc_civil_from_days n = civil_from_days n"
  by (simp only: civil_epoch civil_succ real_date_iff btc_civil_eq)
    (auto simp: civil_days_roundtrip split: prod.splits)

lemma format_utc_late:
  assumes "253402300800 \<le> secs"
  shows "validate_rfc3339 (format_utc secs) \<noteq> Inr ()"
proof
  assume v: "validate_rfc3339 (format_utc secs) = Inr ()"
  obtain y m d where c: "civil_from_days (secs div 86400) = (y, m, d)" by (metis prod_cases3)
  have "253402300800 div 86400 \<le> secs div 86400" by (rule zdiv_mono1) (use assms in auto)
  then have y: "10000 \<le> y" by (intro civil_year_range(3) [OF c]) simp
  have "\<not> length (dec (nat y)) \<le> 4" using length_dec_le [of 4 "nat y"] y by simp
  then have ld: "4 < length (dec (nat y))" by (simp only: not_le)
  have dg: "\<forall>c\<in>set (dec (nat y)). is_digit c" by (rule dec_digits)
  have p4: "pad0 4 y = dec (nat y)" using y ld by (simp add: pad0_def Let_def)
  obtain rest where f: "format_utc secs = dec (nat y) @ rest"
    by (simp add: format_utc_def c Let_def p4)
  then have "is_digit (format_utc secs ! 4)" using ld dg by (simp add: nth_append)
  moreover have "sep (format_utc secs) 4 (CHR ''-'') = Inr ()"
    using v by (auto simp: validate_rfc3339_def res_simps split: if_splits)
  ultimately show False by (auto simp: sep_def split: if_splits)
qed

text \<open>
  C35. The host's clock reading returns a stamp exactly for the clock values before the year
  10000, and the stamp's instant is the clock value; at any later value the constructor call
  the source marks as infallible fails, and the process panics.
\<close>

theorem now_total_until_10000:
  "now_rfc3339 n = (if n < 253402300800 then Some (Rfc3339 (format_utc (int n))) else None) \<and>
   (if n < 253402300800 then instant (Rfc3339 (format_utc (int n))) = Some (int n, 0) else True)"
proof (cases "n < 253402300800")
  case True
  then have b: "- 62167219200 \<le> int n" "int n < 253402300800" by simp_all
  note cs = clock_stamp [OF b]
  have "validate_rfc3339 (format_utc (int n)) = Inr ()" unfolding validate_iff using cs by metis
  moreover have "int n \<le> i64_max" using b by (simp add: i64_max_def)
  ultimately show ?thesis using True cs by (simp add: now_rfc3339_def rfc3339_new_def)
next
  case False
  let ?k = "if int n \<le> i64_max then int n else i64_max"
  have "253402300800 \<le> ?k" using False by (simp add: i64_max_def)
  then have "res_ok (rfc3339_new (format_utc ?k)) = None"
    using format_utc_late [of ?k] by (cases "validate_rfc3339 (format_utc ?k)") (simp_all add: rfc3339_new_def)
  then show ?thesis using False by (simp add: now_rfc3339_def Let_def)
qed

end
