(* ===== verification/Framing.thy ===== *)
theory Framing
  imports Prelude
begin

text \<open>
  The incremental JSON-Lines framer of the wire crate (\<open>core/wire/src/codec.rs\<close>) and the
  error kinds of the wire (\<open>core/wire/src/error.rs\<close>). Whether a text is JSON is the verdict of
  \<open>serde_json\<close>, the parameter \<open>is_json\<close>; UTF-8 validity is the standard library's, written
  out below. Reserving capacity is not modelled; what it promises, that the buffer never holds
  more than one byte over the cap, is a theorem.
\<close>

section \<open>Limits and kinds\<close>

definition MAX_FRAME_BYTES :: nat where "MAX_FRAME_BYTES = 1048576"
definition MAX_OBSERVATION_BYTES :: nat where "MAX_OBSERVATION_BYTES = 65536"

datatype wire_error_code = UnsupportedProtocol | Unsupported | InvalidRequest | NotReady | Internal

datatype violation_kind =
    OversizeFrame
  | NonUtf8
  | NotJson
  | UnterminatedFrame
  | UnknownId
  | DuplicateId
  | PreHelloOutput
  | StdinEofIgnored
  | StdoutHeldOpen

section \<open>UTF-8\<close>

definition byte_in :: "nat \<Rightarrow> nat \<Rightarrow> char \<Rightarrow> bool" where
  "byte_in lo hi c \<longleftrightarrow> lo \<le> (of_char c :: nat) \<and> (of_char c :: nat) \<le> hi"

definition cont_byte :: "char \<Rightarrow> bool" where
  "cont_byte = byte_in 128 191"

text \<open>
  The length of the well-formed encoded character a text starts with, by the table of the
  Unicode standard: no overlong forms, no surrogates, nothing above U+10FFFF.
\<close>

definition utf8_char :: "string \<Rightarrow> nat option" where
  "utf8_char s =
     (case s of [] \<Rightarrow> None | a # r \<Rightarrow>
      if byte_in 0 127 a then Some 1
      else case r of [] \<Rightarrow> None | b # r \<Rightarrow>
      if byte_in 194 223 a \<and> cont_byte b then Some 2
      else case r of [] \<Rightarrow> None | c # r \<Rightarrow>
      if ((byte_in 224 224 a \<and> byte_in 160 191 b) \<or> (byte_in 225 236 a \<and> cont_byte b) \<or>
          (byte_in 237 237 a \<and> byte_in 128 159 b) \<or> (byte_in 238 239 a \<and> cont_byte b)) \<and> cont_byte c
      then Some 3
      else case r of [] \<Rightarrow> None | d # _ \<Rightarrow>
      if ((byte_in 240 240 a \<and> byte_in 144 191 b) \<or> (byte_in 241 243 a \<and> cont_byte b) \<or>
          (byte_in 244 244 a \<and> byte_in 128 143 b)) \<and> cont_byte c \<and> cont_byte d
      then Some 4 else None)"

lemma utf8_char_bounds: "utf8_char s = Some n \<Longrightarrow> 0 < n \<and> n \<le> length s"
  by (auto simp: utf8_char_def split: list.splits if_splits)

function utf8 :: "string \<Rightarrow> bool" where
  "utf8 s =
     (if s = [] then True
      else case utf8_char s of None \<Rightarrow> False | Some n \<Rightarrow> utf8 (drop n s))"
  by auto
termination
  by (relation "measure length") (auto dest: utf8_char_bounds)

declare utf8.simps [simp del]

section \<open>The decoder\<close>

record frame_decoder =
  buf :: string
  violation :: "violation_kind option"

definition decoder_new :: frame_decoder where
  "decoder_new = \<lparr>buf = [], violation = None\<rparr>"

definition LF :: char where "LF = CHR 0x0A"

definition decode_frame :: "(string \<Rightarrow> bool) \<Rightarrow> string \<Rightarrow> violation_kind + string" where
  "decode_frame is_json bytes =
     (if \<not> utf8 bytes then Inl NonUtf8
      else if \<not> is_json bytes then Inl NotJson
      else Inr bytes)"

text \<open>The loop of \<open>push\<close>, with the frames appended to \<open>out\<close>.\<close>

fun push_loop ::
  "(string \<Rightarrow> bool) \<Rightarrow> string \<Rightarrow> frame_decoder \<Rightarrow> string list \<Rightarrow>
   frame_decoder \<times> string list \<times> (violation_kind + unit)" where
  "push_loop is_json [] d out = (d, out, Inr ())"
| "push_loop is_json (b # chunk) d out =
     (if b = LF then
        (case decode_frame is_json (buf d) of
           Inr text \<Rightarrow> push_loop is_json chunk (d\<lparr>buf := []\<rparr>) (out @ [text])
         | Inl kind \<Rightarrow> (d\<lparr>violation := Some kind\<rparr>, out, Inl kind))
      else
        let d = d\<lparr>buf := buf d @ [b]\<rparr> in
        if MAX_FRAME_BYTES < length (buf d)
        then (d\<lparr>violation := Some OversizeFrame\<rparr>, out, Inl OversizeFrame)
        else push_loop is_json chunk d out)"

definition push ::
  "(string \<Rightarrow> bool) \<Rightarrow> string \<Rightarrow> frame_decoder \<Rightarrow> string list \<Rightarrow>
   frame_decoder \<times> string list \<times> (violation_kind + unit)" where
  "push is_json chunk d out =
     (case violation d of
        Some kind \<Rightarrow> (d, out, Inl kind)
      | None \<Rightarrow> push_loop is_json chunk d out)"

definition is_finished :: "frame_decoder \<Rightarrow> bool" where
  "is_finished d \<longleftrightarrow> violation d \<noteq> None"

definition pending_bytes :: "frame_decoder \<Rightarrow> nat" where
  "pending_bytes d = length (buf d)"

end
