(* ===== verification/Framing_Correct.thy ===== *)
theory Framing_Correct
  imports Framing
begin

text \<open>
  The framer against a specification that never mentions chunks: cut the whole stream at the
  line feeds, judge the lines in order, stop at the first bad one. Split invariance, the bound
  on the buffer and the stickiness of a violation follow.
\<close>

section \<open>The chunks do not matter\<close>

text \<open>What the decoder has become and what it has handed on, after one more chunk.\<close>

definition feed :: "(string \<Rightarrow> bool) \<Rightarrow> string \<Rightarrow> frame_decoder \<times> string list \<Rightarrow> frame_decoder \<times> string list" where
  "feed is_json chunk = (\<lambda>(d, out). case push is_json chunk d out of (d', out', _) \<Rightarrow> (d', out'))"

lemma push_loop_result:
  "violation d = None \<Longrightarrow> push_loop is_json chunk d out = (d', out', r) \<Longrightarrow>
   r = (case violation d' of None \<Rightarrow> Inr () | Some kind \<Rightarrow> Inl kind)"
  by (induction is_json chunk d out rule: push_loop.induct)
    (auto simp: Let_def split: if_splits sum.splits)

lemma push_result:
  "push is_json chunk d out = (d', out', r) \<Longrightarrow>
   r = (case violation d' of None \<Rightarrow> Inr () | Some kind \<Rightarrow> Inl kind)"
  by (cases "violation d") (auto simp: push_def dest: push_loop_result)

lemma push_loop_append:
  "violation d = None \<Longrightarrow>
   push_loop is_json (xs @ ys) d out =
     (case push_loop is_json xs d out of (d', out', _) \<Rightarrow> push is_json ys d' out')"
  by (induction is_json xs d out rule: push_loop.induct)
    (auto simp: Let_def push_def split: sum.splits)

interpretation framer: incremental "\<lambda>_. True" "feed is_json" for is_json
proof
  show "feed is_json [] s = s" for s
    by (auto simp: feed_def push_def split: prod.splits option.splits)
  show "feed is_json (xs @ ys) s = feed is_json ys (feed is_json xs s)" for xs ys s
    by (cases s, cases "violation (fst s)")
      (auto simp: feed_def push_def push_loop_append split: prod.splits)
qed

section \<open>The specification\<close>

text \<open>A stream is its complete lines and what follows the last line feed.\<close>

fun split_lf :: "string \<Rightarrow> string list \<times> string" where
  "split_lf [] = ([], [])"
| "split_lf (b # bs) =
     (case split_lf bs of (ls, r) \<Rightarrow>
        if b = LF then ([] # ls, r)
        else case ls of [] \<Rightarrow> ([], b # r) | l # ls' \<Rightarrow> ((b # l) # ls', r))"

definition judge :: "(string \<Rightarrow> bool) \<Rightarrow> string \<Rightarrow> violation_kind + string" where
  "judge is_json l = (if MAX_FRAME_BYTES < length l then Inl OversizeFrame else decode_frame is_json l)"

fun judge_lines :: "(string \<Rightarrow> bool) \<Rightarrow> string list \<Rightarrow> string \<Rightarrow> string list \<times> violation_kind option" where
  "judge_lines is_json [] r = ([], if MAX_FRAME_BYTES < length r then Some OversizeFrame else None)"
| "judge_lines is_json (l # ls) r =
     (case judge is_json l of
        Inl kind \<Rightarrow> ([], Some kind)
      | Inr text \<Rightarrow> (case judge_lines is_json ls r of (out, v) \<Rightarrow> (text # out, v)))"

definition stream_spec :: "(string \<Rightarrow> bool) \<Rightarrow> string \<Rightarrow> string list \<times> violation_kind option" where
  "stream_spec is_json s = (case split_lf s of (ls, r) \<Rightarrow> judge_lines is_json ls r)"

text \<open>The two ways a stream continues a line of which \<open>p\<close> has been read.\<close>

definition continue :: "(string \<Rightarrow> bool) \<Rightarrow> string \<Rightarrow> string \<Rightarrow> string list \<times> violation_kind option" where
  "continue is_json p s =
     (case split_lf s of
        ([], r) \<Rightarrow> judge_lines is_json [] (p @ r)
      | (l # ls, r) \<Rightarrow> judge_lines is_json ((p @ l) # ls) r)"

lemma continue_Nil: "continue is_json [] s = stream_spec is_json s"
  by (simp add: continue_def stream_spec_def split: prod.splits list.splits)

lemma continue_LF:
  "continue is_json p (LF # s) =
     (case judge is_json p of
        Inl kind \<Rightarrow> ([], Some kind)
      | Inr text \<Rightarrow> (case stream_spec is_json s of (out, v) \<Rightarrow> (text # out, v)))"
  unfolding continue_def stream_spec_def by (cases "split_lf s") (simp split: sum.split)

lemma continue_byte: "b \<noteq> LF \<Longrightarrow> continue is_json p (b # s) = continue is_json (p @ [b]) s"
  by (simp add: continue_def split: prod.splits list.splits)

lemma continue_oversize:
  "MAX_FRAME_BYTES < length p \<Longrightarrow> continue is_json p s = ([], Some OversizeFrame)"
  by (simp add: continue_def judge_def split: prod.splits list.splits)

lemma push_loop_spec:
  assumes "violation d = None" and "length (buf d) \<le> MAX_FRAME_BYTES"
  shows "(case push_loop is_json s d out of (d', out', _) \<Rightarrow> (out', violation d')) =
         (case continue is_json (buf d) s of (fs, v) \<Rightarrow> (out @ fs, v))"
  using assms
proof (induction is_json s d out rule: push_loop.induct)
  case (1 is_json d out)
  then show ?case by (simp add: continue_def)
next
  case (2 is_json b chunk d out)
  show ?case
  proof (cases "b = LF")
    case True
    have j: "judge is_json (buf d) = decode_frame is_json (buf d)" using 2(4) by (simp add: judge_def)
    show ?thesis
    proof (cases "decode_frame is_json (buf d)")
      case (Inl kind)
      with True j show ?thesis by (simp add: continue_LF)
    next
      case (Inr t)
      with True j 2(1) [OF True Inr] 2(3) show ?thesis
        by (simp add: continue_LF continue_Nil split: prod.splits)
    qed
  next
    case False
    show ?thesis
    proof (cases "MAX_FRAME_BYTES < length (buf d @ [b])")
      case True
      then show ?thesis using False by (simp add: continue_byte continue_oversize)
    next
      case small: False
      then show ?thesis using 2(2) [OF False refl] 2(3) False by (simp add: continue_byte not_less)
    qed
  qed
qed

definition decoder_ok :: "frame_decoder \<Rightarrow> bool" where
  "decoder_ok d \<longleftrightarrow>
     length (buf d) \<le> (if violation d = Some OversizeFrame then MAX_FRAME_BYTES + 1 else MAX_FRAME_BYTES)"

lemma push_loop_ok:
  "violation d = None \<Longrightarrow> decoder_ok d \<Longrightarrow> decoder_ok (fst (push_loop is_json chunk d out))"
  by (induction is_json chunk d out rule: push_loop.induct)
    (auto simp: decoder_ok_def Let_def split: sum.splits)

lemma feed_ok: "decoder_ok (fst s) \<Longrightarrow> decoder_ok (fst (feed is_json chunk s))"
  using push_loop_ok [of "fst s" is_json chunk "snd s"]
  by (cases s) (auto simp: feed_def push_def split: prod.splits option.splits)

lemma feeds_ok: "decoder_ok (fst s) \<Longrightarrow> decoder_ok (fst (fold (feed is_json) chunks s))"
  by (induction chunks arbitrary: s) (auto simp: feed_ok)

lemma new_ok [simp]: "decoder_ok decoder_new"
  by (simp add: decoder_ok_def decoder_new_def)

section \<open>The properties\<close>

text \<open>
  C36. The framer implements the specification on whole streams, for every way of cutting the
  stream into chunks: the frames handed on and the violation recorded are those of the lines of
  the concatenated stream, up to the first line that is too long, not UTF-8 or not JSON.
\<close>

theorem framer_meets_spec:
  "(case fold (feed is_json) chunks (decoder_new, []) of (d, out) \<Rightarrow> (out, violation d)) =
   stream_spec is_json (concat chunks)"
proof -
  have "feed is_json (concat chunks) (decoder_new, []) =
      (case push_loop is_json (concat chunks) decoder_new [] of (d, out, _) \<Rightarrow> (d, out))"
    by (simp add: feed_def push_def decoder_new_def)
  then show ?thesis
    using push_loop_spec [of decoder_new is_json "concat chunks" "[]"]
    by (simp add: framer.consume_pieces continue_Nil decoder_new_def split: prod.splits)
qed

text \<open>
  The buffer never holds more than the cap and one byte, and not even that unless the
  frame was refused as oversize; and once a call has reported a violation, every later call
  reports the same one and changes neither the decoder nor the frames.
\<close>

theorem framer_bounded_and_sticky:
  "case fold (feed is_json) chunks (decoder_new, []) of (d, out) \<Rightarrow>
     is_finished d = (violation d \<noteq> None) \<and>
     (case violation d of
        None \<Rightarrow> pending_bytes d \<le> MAX_FRAME_BYTES
      | Some kind \<Rightarrow>
          pending_bytes d \<le> (if kind = OversizeFrame then MAX_FRAME_BYTES + 1 else MAX_FRAME_BYTES) \<and>
          (\<forall>chunk out'. push is_json chunk d out' = (d, out', Inl kind)))"
proof (cases "fold (feed is_json) chunks (decoder_new, [])")
  case (Pair d out)
  have "decoder_ok d" using feeds_ok [of "(decoder_new, [])" is_json chunks] Pair by simp
  then show ?thesis using Pair
    by (simp add: decoder_ok_def pending_bytes_def is_finished_def push_def split: option.splits if_splits)
qed

end
