(* ===== verification/Observation.thy ===== *)
theory Observation
  imports Money Timestamp
begin

text \<open>
  The wire model (\<open>core/wire/src/observation.rs\<close>): the small enums, provenance, balances,
  history observations, read outcomes, resource statuses and paging, each with its reader and
  writer. A record's fields carry a prefix because several structs use the same names.
\<close>

section \<open>Enums\<close>

datatype staleness = Live | Cached | Unavailable
datatype completeness = Complete | Partial | Unknown
datatype canonical_hint = Available | Total | Pending | Held | Confirmed | Unconfirmed
datatype observation_state = Active | Tombstoned
datatype posting = Pending | Posted | Unknown
datatype raw_sign = ProviderPositive | ProviderNegative
datatype cursor_resumable = Exact | BatchRestart | NoCursor

text \<open>The \<open>snake_case\<close> names, and an enum written as its name.\<close>

definition staleness_names :: "(string \<times> staleness) list" where
  "staleness_names = [(''live'', Live), (''cached'', Cached), (''unavailable'', staleness.Unavailable)]"

definition completeness_names :: "(string \<times> completeness) list" where
  "completeness_names = [(''complete'', Complete), (''partial'', Partial), (''unknown'', completeness.Unknown)]"

definition canonical_hint_names :: "(string \<times> canonical_hint) list" where
  "canonical_hint_names =
     [(''available'', Available), (''total'', Total), (''pending'', canonical_hint.Pending),
      (''held'', Held), (''confirmed'', Confirmed), (''unconfirmed'', Unconfirmed)]"

definition state_names :: "(string \<times> observation_state) list" where
  "state_names = [(''active'', Active), (''tombstoned'', Tombstoned)]"

definition posting_names :: "(string \<times> posting) list" where
  "posting_names = [(''pending'', posting.Pending), (''posted'', Posted), (''unknown'', posting.Unknown)]"

definition raw_sign_names :: "(string \<times> raw_sign) list" where
  "raw_sign_names = [(''provider_positive'', ProviderPositive), (''provider_negative'', ProviderNegative)]"

definition resumable_names :: "(string \<times> cursor_resumable) list" where
  "resumable_names = [(''exact'', Exact), (''batch_restart'', BatchRestart), (''none'', NoCursor)]"

definition name_of :: "(string \<times> 'a) list \<Rightarrow> 'a \<Rightarrow> string" where
  "name_of table x = (case List.find (\<lambda>p. snd p = x) table of Some p \<Rightarrow> fst p | None \<Rightarrow> [])"

definition ser_enum :: "(string \<times> 'a) list \<Rightarrow> 'a \<Rightarrow> json" where
  "ser_enum table x = JStr (name_of table x)"

section \<open>Strings with rules\<close>

definition ser_rfc3339 :: "rfc3339 \<Rightarrow> json" where
  "ser_rfc3339 t = JStr (ts_str t)"

definition de_rfc3339 :: "json \<Rightarrow> de_error + rfc3339" where
  "de_rfc3339 j = res_bind (de_string j) (\<lambda>s. map_err (\<lambda>_. Custom) (rfc3339_new s))"

definition de_asset_id :: "json \<Rightarrow> de_error + asset_id" where
  "de_asset_id j = res_bind (de_string j) (\<lambda>s. map_err (\<lambda>_. Custom) (asset_new s))"

definition ser_asset_id :: "asset_id \<Rightarrow> json" where
  "ser_asset_id a = JStr (as_str a)"

definition deserialize_plain_text :: "json \<Rightarrow> de_error + string" where
  "deserialize_plain_text j =
     res_bind (de_string j) (\<lambda>s. res_bind (map_err (\<lambda>_. Custom) (validate_plain_text s)) (\<lambda>_. Inr s))"

section \<open>Provenance\<close>

record provenance_wire =
  pw_adapter_id :: string
  pw_provider_id :: string
  pw_surface :: string
  pw_observed_at :: rfc3339
  pw_effective_at :: "rfc3339 option"
  pw_completeness :: completeness

record provenance =
  pv_adapter_id :: string
  pv_provider_id :: string
  pv_surface :: string
  pv_observed_at :: rfc3339
  pv_received_at :: rfc3339
  pv_effective_at :: "rfc3339 option"
  pv_staleness :: staleness
  pv_completeness :: completeness

definition de_provenance_wire :: "json \<Rightarrow> de_error + provenance_wire" where
  "de_provenance_wire =
     de_struct [''adapter_id'', ''provider_id'', ''surface'', ''observed_at'', ''effective_at'', ''completeness'']
       (\<lambda>get.
          res_bind (req get ''adapter_id'' de_string) (\<lambda>a.
          res_bind (req get ''provider_id'' de_string) (\<lambda>p.
          res_bind (req get ''surface'' de_string) (\<lambda>s.
          res_bind (req get ''observed_at'' de_rfc3339) (\<lambda>t.
          res_bind (dflt get ''effective_at'' None (de_option de_rfc3339)) (\<lambda>e.
          res_bind (req get ''completeness'' (de_unit_enum completeness_names)) (\<lambda>c.
          Inr \<lparr>pw_adapter_id = a, pw_provider_id = p, pw_surface = s, pw_observed_at = t,
               pw_effective_at = e, pw_completeness = c\<rparr>)))))))"

definition ser_provenance_wire :: "provenance_wire \<Rightarrow> json" where
  "ser_provenance_wire w =
     ser_struct
       [(''adapter_id'', Some (JStr (pw_adapter_id w))),
        (''provider_id'', Some (JStr (pw_provider_id w))),
        (''surface'', Some (JStr (pw_surface w))),
        (''observed_at'', Some (ser_rfc3339 (pw_observed_at w))),
        (''effective_at'', some_json ser_rfc3339 (pw_effective_at w)),
        (''completeness'', Some (ser_enum completeness_names (pw_completeness w)))]"

definition provenance_stamp :: "provenance_wire \<Rightarrow> rfc3339 \<Rightarrow> staleness \<Rightarrow> provenance" where
  "provenance_stamp w received_at st =
     \<lparr>pv_adapter_id = pw_adapter_id w, pv_provider_id = pw_provider_id w, pv_surface = pw_surface w,
      pv_observed_at = pw_observed_at w, pv_received_at = received_at,
      pv_effective_at = pw_effective_at w, pv_staleness = st, pv_completeness = pw_completeness w\<rparr>"

section \<open>Balances\<close>

record balance_wire =
  bw_resource_id :: string
  bw_category :: string
  bw_canonical_hint :: "canonical_hint option"
  bw_amount :: "amount option"
  bw_provenance :: provenance_wire

record balance =
  bl_resource_id :: string
  bl_category :: string
  bl_canonical_hint :: "canonical_hint option"
  bl_amount :: "amount option"
  bl_provenance :: provenance

definition deserialize_required_amount :: "json \<Rightarrow> de_error + amount option" where
  "deserialize_required_amount = de_option de_amount"

definition de_balance_wire :: "json \<Rightarrow> de_error + balance_wire" where
  "de_balance_wire =
     de_struct [''resource_id'', ''category'', ''canonical_hint'', ''amount'', ''provenance'']
       (\<lambda>get.
          res_bind (req get ''resource_id'' de_string) (\<lambda>r.
          res_bind (req get ''category'' de_string) (\<lambda>c.
          res_bind (dflt get ''canonical_hint'' None (de_option (de_unit_enum canonical_hint_names))) (\<lambda>h.
          res_bind (req get ''amount'' deserialize_required_amount) (\<lambda>a.
          res_bind (req get ''provenance'' de_provenance_wire) (\<lambda>p.
          Inr \<lparr>bw_resource_id = r, bw_category = c, bw_canonical_hint = h, bw_amount = a,
               bw_provenance = p\<rparr>))))))"

definition ser_balance_wire :: "balance_wire \<Rightarrow> json" where
  "ser_balance_wire b =
     ser_struct
       [(''resource_id'', Some (JStr (bw_resource_id b))),
        (''category'', Some (JStr (bw_category b))),
        (''canonical_hint'', some_json (ser_enum canonical_hint_names) (bw_canonical_hint b)),
        (''amount'', Some (json_opt ser_amount (bw_amount b))),
        (''provenance'', Some (ser_provenance_wire (bw_provenance b)))]"

definition balance_stamp :: "balance_wire \<Rightarrow> rfc3339 \<Rightarrow> staleness \<Rightarrow> balance" where
  "balance_stamp w received_at st =
     \<lparr>bl_resource_id = bw_resource_id w, bl_category = bw_category w,
      bl_canonical_hint = bw_canonical_hint w, bl_amount = bw_amount w,
      bl_provenance = provenance_stamp (bw_provenance w) received_at st\<rparr>"

section \<open>History observations\<close>

record observation_wire =
  ow_resource_id :: string
  ow_local_id :: string
  ow_provider_id :: "string option"
  ow_supersedes_provider_id :: "string option"
  ow_state :: observation_state
  ow_tombstone_reason :: "string option"
  ow_surface :: string
  ow_posting :: posting
  ow_amount :: amount
  ow_fees :: "amount option"
  ow_raw_sign :: raw_sign
  ow_description :: string
  ow_provider_extra :: "(string \<times> json) list"
  ow_provenance :: provenance_wire

record observation =
  ob_resource_id :: string
  ob_local_id :: string
  ob_provider_id :: "string option"
  ob_supersedes_provider_id :: "string option"
  ob_state :: observation_state
  ob_tombstone_reason :: "string option"
  ob_surface :: string
  ob_posting :: posting
  ob_amount :: amount
  ob_fees :: "amount option"
  ob_raw_sign :: raw_sign
  ob_description :: string
  ob_provider_extra :: "(string \<times> json) list"
  ob_provenance :: provenance

definition de_observation_wire :: "json \<Rightarrow> de_error + observation_wire" where
  "de_observation_wire =
     de_struct
       [''resource_id'', ''local_id'', ''provider_id'', ''supersedes_provider_id'', ''state'',
        ''tombstone_reason'', ''surface'', ''posting'', ''amount'', ''fees'', ''raw_sign'',
        ''description'', ''provider_extra'', ''provenance'']
       (\<lambda>get.
          res_bind (req get ''resource_id'' de_string) (\<lambda>r.
          res_bind (req get ''local_id'' de_string) (\<lambda>l.
          res_bind (dflt get ''provider_id'' None (de_option de_string)) (\<lambda>p.
          res_bind (dflt get ''supersedes_provider_id'' None (de_option de_string)) (\<lambda>sp.
          res_bind (req get ''state'' (de_unit_enum state_names)) (\<lambda>st.
          res_bind (dflt get ''tombstone_reason'' None (de_option de_string)) (\<lambda>tr.
          res_bind (req get ''surface'' de_string) (\<lambda>sf.
          res_bind (req get ''posting'' (de_unit_enum posting_names)) (\<lambda>po.
          res_bind (req get ''amount'' de_amount) (\<lambda>a.
          res_bind (dflt get ''fees'' None (de_option de_amount)) (\<lambda>f.
          res_bind (req get ''raw_sign'' (de_unit_enum raw_sign_names)) (\<lambda>rs.
          res_bind (req get ''description'' deserialize_plain_text) (\<lambda>d.
          res_bind (dflt get ''provider_extra'' [] de_map) (\<lambda>x.
          res_bind (req get ''provenance'' de_provenance_wire) (\<lambda>pv.
          Inr \<lparr>ow_resource_id = r, ow_local_id = l, ow_provider_id = p,
               ow_supersedes_provider_id = sp, ow_state = st, ow_tombstone_reason = tr,
               ow_surface = sf, ow_posting = po, ow_amount = a, ow_fees = f, ow_raw_sign = rs,
               ow_description = d, ow_provider_extra = x, ow_provenance = pv\<rparr>)))))))))))))))"

definition ser_observation_wire :: "observation_wire \<Rightarrow> json" where
  "ser_observation_wire w =
     ser_struct
       [(''resource_id'', Some (JStr (ow_resource_id w))),
        (''local_id'', Some (JStr (ow_local_id w))),
        (''provider_id'', some_json JStr (ow_provider_id w)),
        (''supersedes_provider_id'', some_json JStr (ow_supersedes_provider_id w)),
        (''state'', Some (ser_enum state_names (ow_state w))),
        (''tombstone_reason'', some_json JStr (ow_tombstone_reason w)),
        (''surface'', Some (JStr (ow_surface w))),
        (''posting'', Some (ser_enum posting_names (ow_posting w))),
        (''amount'', Some (ser_amount (ow_amount w))),
        (''fees'', some_json ser_amount (ow_fees w)),
        (''raw_sign'', Some (ser_enum raw_sign_names (ow_raw_sign w))),
        (''description'', Some (JStr (ow_description w))),
        (''provider_extra'', Some (JObj (ow_provider_extra w))),
        (''provenance'', Some (ser_provenance_wire (ow_provenance w)))]"

definition observation_stamp :: "observation_wire \<Rightarrow> rfc3339 \<Rightarrow> staleness \<Rightarrow> observation" where
  "observation_stamp w received_at st =
     \<lparr>ob_resource_id = ow_resource_id w, ob_local_id = ow_local_id w,
      ob_provider_id = ow_provider_id w, ob_supersedes_provider_id = ow_supersedes_provider_id w,
      ob_state = ow_state w, ob_tombstone_reason = ow_tombstone_reason w,
      ob_surface = ow_surface w, ob_posting = ow_posting w, ob_amount = ow_amount w,
      ob_fees = ow_fees w, ob_raw_sign = ow_raw_sign w, ob_description = ow_description w,
      ob_provider_extra = ow_provider_extra w,
      ob_provenance = provenance_stamp (ow_provenance w) received_at st\<rparr>"

definition fold_order_key :: "rfc3339 \<Rightarrow> string \<Rightarrow> nat \<Rightarrow> rfc3339 \<times> string \<times> nat" where
  "fold_order_key received_at surface arrival_index = (received_at, surface, arrival_index)"

section \<open>Outcomes and statuses\<close>

record provider_detail =
  pd_code :: string
  pd_message :: string
  pd_raw :: json

definition de_provider_detail :: "json \<Rightarrow> de_error + provider_detail" where
  "de_provider_detail =
     de_struct [''code'', ''message'', ''raw'']
       (\<lambda>get.
          res_bind (req get ''code'' de_string) (\<lambda>c.
          res_bind (req get ''message'' de_string) (\<lambda>m.
          res_bind (req get ''raw'' de_value) (\<lambda>r.
          Inr \<lparr>pd_code = c, pd_message = m, pd_raw = r\<rparr>))))"

definition ser_provider_detail :: "provider_detail \<Rightarrow> json" where
  "ser_provider_detail d =
     ser_struct [(''code'', Some (JStr (pd_code d))), (''message'', Some (JStr (pd_message d))),
                 (''raw'', Some (pd_raw d))]"

datatype read_outcome =
    Fetched (page_empty: bool)
  | NotFetched
  | Stale (as_of: rfc3339)
  | RateLimited (retry_after_ms: nat)
  | Unavailable
  | ReauthRequired
  | Revoked
  | Gone
  | ScaRequired

text \<open>The bodies of the three variants with a payload, and the visitor.\<close>

definition de_fetched_body :: "json \<Rightarrow> de_error + bool" where
  "de_fetched_body = de_struct [''page_empty''] (\<lambda>get. req get ''page_empty'' de_bool)"

definition de_stale_body :: "json \<Rightarrow> de_error + rfc3339" where
  "de_stale_body = de_struct [''as_of''] (\<lambda>get. req get ''as_of'' de_rfc3339)"

definition de_rate_limited_body :: "json \<Rightarrow> de_error + nat" where
  "de_rate_limited_body = de_struct [''retry_after_ms''] (\<lambda>get. req get ''retry_after_ms'' de_u64)"

definition outcome_visit_str :: "string \<Rightarrow> de_error + read_outcome" where
  "outcome_visit_str v =
     (if v = ''not_fetched'' then Inr NotFetched
      else if v = ''unavailable'' then Inr read_outcome.Unavailable
      else if v = ''reauth_required'' then Inr ReauthRequired
      else if v = ''revoked'' then Inr Revoked
      else if v = ''gone'' then Inr Gone
      else if v = ''sca_required'' then Inr ScaRequired
      else Inl (UnknownVariant v))"

definition outcome_visit_map :: "(string \<times> json) list \<Rightarrow> de_error + read_outcome" where
  "outcome_visit_map ms =
     (case ms of
        [] \<Rightarrow> Inl Custom
      | (key, v) # rest \<Rightarrow>
          res_bind
            (if key = ''fetched'' then res_bind (de_fetched_body v) (\<lambda>b. Inr (Fetched b))
             else if key = ''stale'' then res_bind (de_stale_body v) (\<lambda>t. Inr (Stale t))
             else if key = ''rate_limited'' then res_bind (de_rate_limited_body v) (\<lambda>n. Inr (RateLimited n))
             else Inl (UnknownVariant key))
            (\<lambda>out. if rest \<noteq> [] then Inl Custom else Inr out))"

definition de_read_outcome :: "json \<Rightarrow> de_error + read_outcome" where
  "de_read_outcome j =
     (case j of JStr v \<Rightarrow> outcome_visit_str v | JObj ms \<Rightarrow> outcome_visit_map ms | _ \<Rightarrow> Inl InvalidType)"

fun ser_read_outcome :: "read_outcome \<Rightarrow> json" where
  "ser_read_outcome (Fetched b) = JObj [(''fetched'', JObj [(''page_empty'', JBool b)])]"
| "ser_read_outcome NotFetched = JStr ''not_fetched''"
| "ser_read_outcome (Stale t) = JObj [(''stale'', JObj [(''as_of'', ser_rfc3339 t)])]"
| "ser_read_outcome (RateLimited n) = JObj [(''rate_limited'', JObj [(''retry_after_ms'', JInt (int n))])]"
| "ser_read_outcome read_outcome.Unavailable = JStr ''unavailable''"
| "ser_read_outcome ReauthRequired = JStr ''reauth_required''"
| "ser_read_outcome Revoked = JStr ''revoked''"
| "ser_read_outcome Gone = JStr ''gone''"
| "ser_read_outcome ScaRequired = JStr ''sca_required''"

record degraded =
  dg_local_id :: "string option"
  dg_bytes :: nat

definition de_degraded :: "json \<Rightarrow> de_error + degraded" where
  "de_degraded =
     de_struct [''local_id'', ''bytes'']
       (\<lambda>get.
          res_bind (dflt get ''local_id'' None (de_option de_string)) (\<lambda>l.
          res_bind (req get ''bytes'' de_u64) (\<lambda>n.
          Inr \<lparr>dg_local_id = l, dg_bytes = n\<rparr>)))"

definition ser_degraded :: "degraded \<Rightarrow> json" where
  "ser_degraded d =
     ser_struct [(''local_id'', some_json JStr (dg_local_id d)), (''bytes'', Some (JInt (int (dg_bytes d))))]"

section \<open>Paging\<close>

datatype page_request =
    Cursor (cursor: string)
  | Window (win_resource_id: string) (win_asset: "asset_id option") (win_start: rfc3339) (win_end: rfc3339)

record page_reply =
  pg_cursor_resumable :: cursor_resumable
  pg_next :: "page_request option"
  pg_window_capped_to :: "rfc3339 option"
  pg_page_size_reduced_to :: "nat option"

definition de_u32 :: "json \<Rightarrow> de_error + nat" where
  "de_u32 j = res_bind (de_u64 j) (\<lambda>n. if n < 2 ^ 32 then Inr n else Inl Custom)"

text \<open>The internally tagged enum: the one \<open>kind\<close> member picks the struct of the others.\<close>

definition de_page_request :: "json \<Rightarrow> de_error + page_request" where
  "de_page_request =
     de_object (\<lambda>ms.
       case filter (\<lambda>m. fst m = ''kind'') ms of
         [] \<Rightarrow> Inl (MissingField ''kind'')
       | [(_, v)] \<Rightarrow>
           (let rest = filter (\<lambda>m. fst m \<noteq> ''kind'') ms in
            res_bind (de_string v) (\<lambda>kind.
            if kind = ''cursor'' then
              de_struct [''cursor''] (\<lambda>get. res_bind (req get ''cursor'' de_string) (\<lambda>c. Inr (Cursor c))) (JObj rest)
            else if kind = ''window'' then
              de_struct [''resource_id'', ''asset'', ''start'', ''end'']
                (\<lambda>get.
                   res_bind (req get ''resource_id'' de_string) (\<lambda>r.
                   res_bind (dflt get ''asset'' None (de_option de_asset_id)) (\<lambda>a.
                   res_bind (req get ''start'' de_rfc3339) (\<lambda>s.
                   res_bind (req get ''end'' de_rfc3339) (\<lambda>e.
                   Inr (Window r a s e)))))) (JObj rest)
            else Inl (UnknownVariant kind)))
       | _ \<Rightarrow> Inl (DuplicateField ''kind''))"

fun ser_page_request :: "page_request \<Rightarrow> json" where
  "ser_page_request (Cursor c) = JObj [(''kind'', JStr ''cursor''), (''cursor'', JStr c)]"
| "ser_page_request (Window r a s e) =
     ser_struct
       [(''kind'', Some (JStr ''window'')), (''resource_id'', Some (JStr r)),
        (''asset'', some_json ser_asset_id a), (''start'', Some (ser_rfc3339 s)),
        (''end'', Some (ser_rfc3339 e))]"

definition de_page_reply :: "json \<Rightarrow> de_error + page_reply" where
  "de_page_reply =
     de_struct [''cursor_resumable'', ''next'', ''window_capped_to'', ''page_size_reduced_to'']
       (\<lambda>get.
          res_bind (req get ''cursor_resumable'' (de_unit_enum resumable_names)) (\<lambda>c.
          res_bind (dflt get ''next'' None (de_option de_page_request)) (\<lambda>n.
          res_bind (dflt get ''window_capped_to'' None (de_option de_rfc3339)) (\<lambda>w.
          res_bind (dflt get ''page_size_reduced_to'' None (de_option de_u32)) (\<lambda>z.
          Inr \<lparr>pg_cursor_resumable = c, pg_next = n, pg_window_capped_to = w,
               pg_page_size_reduced_to = z\<rparr>)))))"

definition ser_page_reply :: "page_reply \<Rightarrow> json" where
  "ser_page_reply p =
     ser_struct
       [(''cursor_resumable'', Some (ser_enum resumable_names (pg_cursor_resumable p))),
        (''next'', some_json ser_page_request (pg_next p)),
        (''window_capped_to'', some_json ser_rfc3339 (pg_window_capped_to p)),
        (''page_size_reduced_to'', some_json (\<lambda>n. JInt (int n)) (pg_page_size_reduced_to p))]"

section \<open>One status entry\<close>

record resource_status =
  rs_resource_id :: string
  rs_outcome :: read_outcome
  rs_degraded :: "degraded list"
  rs_provider_detail :: "provider_detail option"
  rs_page :: "page_reply option"
  rs_credential_expires_at :: "rfc3339 option"
  rs_strong_auth_expires_at :: "rfc3339 option"
  rs_history_start :: "rfc3339 option"

definition de_resource_status :: "json \<Rightarrow> de_error + resource_status" where
  "de_resource_status =
     de_struct
       [''resource_id'', ''outcome'', ''degraded'', ''provider_detail'', ''page'',
        ''credential_expires_at'', ''strong_auth_expires_at'', ''history_start'']
       (\<lambda>get.
          res_bind (req get ''resource_id'' de_string) (\<lambda>r.
          res_bind (req get ''outcome'' de_read_outcome) (\<lambda>oc.
          res_bind (dflt get ''degraded'' [] (de_vec de_degraded)) (\<lambda>d.
          res_bind (dflt get ''provider_detail'' None (de_option de_provider_detail)) (\<lambda>pd.
          res_bind (dflt get ''page'' None (de_option de_page_reply)) (\<lambda>pg.
          res_bind (dflt get ''credential_expires_at'' None (de_option de_rfc3339)) (\<lambda>ce.
          res_bind (dflt get ''strong_auth_expires_at'' None (de_option de_rfc3339)) (\<lambda>se.
          res_bind (dflt get ''history_start'' None (de_option de_rfc3339)) (\<lambda>hs.
          Inr \<lparr>rs_resource_id = r, rs_outcome = oc, rs_degraded = d, rs_provider_detail = pd,
               rs_page = pg, rs_credential_expires_at = ce, rs_strong_auth_expires_at = se,
               rs_history_start = hs\<rparr>)))))))))"

definition ser_resource_status :: "resource_status \<Rightarrow> json" where
  "ser_resource_status s =
     ser_struct
       [(''resource_id'', Some (JStr (rs_resource_id s))),
        (''outcome'', Some (ser_read_outcome (rs_outcome s))),
        (''degraded'', if rs_degraded s = [] then None else Some (JArr (map ser_degraded (rs_degraded s)))),
        (''provider_detail'', some_json ser_provider_detail (rs_provider_detail s)),
        (''page'', some_json ser_page_reply (rs_page s)),
        (''credential_expires_at'', some_json ser_rfc3339 (rs_credential_expires_at s)),
        (''strong_auth_expires_at'', some_json ser_rfc3339 (rs_strong_auth_expires_at s)),
        (''history_start'', some_json ser_rfc3339 (rs_history_start s))]"

end
