(* ===== verification/Observation_Correct.thy ===== *)
theory Observation_Correct
  imports Observation Money_Correct Timestamp_Correct
begin

text \<open>
  Every value of the wire model that satisfies its rules is read back from what its writer
  produces, and the readers refuse what the contract refuses: markup in a description, a
  missing amount, an outcome object that names several outcomes.
\<close>

section \<open>Enums and strings\<close>

lemma enum_roundtrip:
  assumes "map_of table (name_of table x) = Some x"
  shows "de_unit_enum table (ser_enum table x) = Inr x"
  using assms by (simp add: de_unit_enum_def ser_enum_def)

lemmas enum_tables = completeness_names_def canonical_hint_names_def state_names_def posting_names_def
  raw_sign_names_def resumable_names_def staleness_names_def name_of_def

lemma de_ser_completeness [wire_simps]: "de_unit_enum completeness_names (ser_enum completeness_names x) = Inr x"
  by (rule enum_roundtrip, cases x) (simp_all add: enum_tables)

lemma de_ser_hint [wire_simps]: "de_unit_enum canonical_hint_names (ser_enum canonical_hint_names x) = Inr x"
  by (rule enum_roundtrip, cases x) (simp_all add: enum_tables)

lemma de_ser_state [wire_simps]: "de_unit_enum state_names (ser_enum state_names x) = Inr x"
  by (rule enum_roundtrip, cases x) (simp_all add: enum_tables)

lemma de_ser_posting [wire_simps]: "de_unit_enum posting_names (ser_enum posting_names x) = Inr x"
  by (rule enum_roundtrip, cases x) (simp_all add: enum_tables)

lemma de_ser_raw_sign [wire_simps]: "de_unit_enum raw_sign_names (ser_enum raw_sign_names x) = Inr x"
  by (rule enum_roundtrip, cases x) (simp_all add: enum_tables)

lemma de_ser_resumable [wire_simps]: "de_unit_enum resumable_names (ser_enum resumable_names x) = Inr x"
  by (rule enum_roundtrip, cases x) (simp_all add: enum_tables)

lemma de_ser_staleness [wire_simps]: "de_unit_enum staleness_names (ser_enum staleness_names x) = Inr x"
  by (rule enum_roundtrip, cases x) (simp_all add: enum_tables)

lemma ser_enum_not_null [wire_simps]: "ser_enum table x \<noteq> JNull"
  by (simp add: ser_enum_def)

definition rfc_ok :: "rfc3339 \<Rightarrow> bool" where
  "rfc_ok t \<longleftrightarrow> validate_rfc3339 (ts_str t) = Inr ()"

lemma de_ser_rfc3339 [wire_simps]: "rfc_ok t \<Longrightarrow> de_rfc3339 (ser_rfc3339 t) = Inr t"
  by (simp add: de_rfc3339_def ser_rfc3339_def rfc_ok_def rfc3339_new_def)

lemma ser_rfc3339_not_null [wire_simps]: "ser_rfc3339 t \<noteq> JNull"
  by (simp add: ser_rfc3339_def)

lemma de_rfc3339_ok: "de_rfc3339 j = Inr t \<longleftrightarrow> rfc_ok t \<and> j = ser_rfc3339 t"
  by (cases t) (auto simp: de_rfc3339_def ser_rfc3339_def rfc_ok_def rfc3339_new_def res_simps)

lemma de_ser_asset_id [wire_simps]: "asset_ok a \<Longrightarrow> de_asset_id (ser_asset_id a) = Inr a"
proof -
  assume "asset_ok a"
  then have "asset_new (as_str a) = Inr a" by (simp add: res_simps)
  then show ?thesis by (simp add: de_asset_id_def ser_asset_id_def)
qed

lemma ser_asset_id_not_null [wire_simps]: "ser_asset_id a \<noteq> JNull"
  by (simp add: ser_asset_id_def)

definition money_ok :: "amount \<Rightarrow> bool" where
  "money_ok x \<longleftrightarrow> amount_ok x \<and> asset_ok (asset x)"

lemma de_ser_amount [wire_simps]: "money_ok x \<Longrightarrow> de_amount (ser_amount x) = Inr x"
  by (simp add: money_ok_def de_amount_iff)

lemma ser_amount_not_null [wire_simps]: "ser_amount x \<noteq> JNull"
  by (simp add: ser_amount_def)

definition plain_ok :: "string \<Rightarrow> bool" where
  "plain_ok s \<longleftrightarrow> (\<forall>b\<in>set s. plain_byte b)"

lemma validate_plain_iff: "validate_plain_text s = Inr () \<longleftrightarrow> plain_ok s"
  unfolding validate_plain_text_def plain_ok_def
  using position_None_iff [of "\<lambda>b. \<not> plain_byte b" s]
  by (cases "position (\<lambda>b. \<not> plain_byte b) s") auto

lemma de_plain_text [wire_simps]: "plain_ok s \<Longrightarrow> deserialize_plain_text (JStr s) = Inr s"
  using validate_plain_iff [of s] by (simp add: deserialize_plain_text_def)

lemma de_u32_JInt [wire_simps]: "n < 2 ^ 32 \<Longrightarrow> de_u32 (JInt (int n)) = Inr n"
proof -
  assume n: "n < 2 ^ 32"
  then have "int n \<le> u64_max" by (simp add: u64_max_def)
  then have "de_u64 (JInt (int n)) = Inr n" by simp
  with n show ?thesis by (simp add: de_u32_def)
qed

text \<open>An optional member, once its own round trip is known.\<close>

definition opt_ok :: "('a \<Rightarrow> bool) \<Rightarrow> 'a option \<Rightarrow> bool" where
  "opt_ok P v \<longleftrightarrow> (\<forall>x. v = Some x \<longrightarrow> P x)"

lemma opt_ok_simps [simp]: "opt_ok P None" "opt_ok P (Some x) = P x"
  by (simp_all add: opt_ok_def)

lemma dflt_roundtrip [wire_simps]:
  assumes "opt_ok (\<lambda>x. f (g x) = Inr x \<and> g x \<noteq> JNull) v"
  shows "(case some_json g v of None \<Rightarrow> Inr None | Some j \<Rightarrow> de_option f j) = Inr v"
proof (cases v)
  case (Some x)
  with assms have "f (g x) = Inr x" "g x \<noteq> JNull" by simp_all
  with Some show ?thesis by (cases "g x") (simp_all add: some_json_def)
qed (simp add: some_json_def)

lemma opt_ok_mono: "opt_ok P v \<Longrightarrow> (\<And>x. P x \<Longrightarrow> Q x) \<Longrightarrow> opt_ok Q v"
  by (cases v) auto

lemma dflt_rfc [wire_simps]:
  "opt_ok rfc_ok v \<Longrightarrow>
   (case some_json ser_rfc3339 v of None \<Rightarrow> Inr None | Some j \<Rightarrow> de_option de_rfc3339 j) = Inr v"
  by (rule dflt_roundtrip, erule opt_ok_mono) (auto simp: wire_simps)

lemma dflt_string [wire_simps]:
  "(case some_json JStr v of None \<Rightarrow> Inr None | Some j \<Rightarrow> de_option de_string j) = Inr v"
  by (cases v) (simp_all add: some_json_def)

lemma dflt_amount [wire_simps]:
  "opt_ok money_ok v \<Longrightarrow>
   (case some_json ser_amount v of None \<Rightarrow> Inr None | Some j \<Rightarrow> de_option de_amount j) = Inr v"
  by (rule dflt_roundtrip, erule opt_ok_mono) (auto simp: wire_simps)

lemma dflt_hint [wire_simps]:
  "(case some_json (ser_enum canonical_hint_names) v of None \<Rightarrow> Inr None
    | Some j \<Rightarrow> de_option (de_unit_enum canonical_hint_names) j) = Inr v"
  by (rule dflt_roundtrip) (cases v; simp add: wire_simps)

lemma dflt_asset [wire_simps]:
  "opt_ok asset_ok v \<Longrightarrow>
   (case some_json ser_asset_id v of None \<Rightarrow> Inr None | Some j \<Rightarrow> de_option de_asset_id j) = Inr v"
  by (rule dflt_roundtrip, erule opt_ok_mono) (auto simp: wire_simps)

section \<open>Provenance, balances and observations\<close>

definition provenance_wire_ok :: "provenance_wire \<Rightarrow> bool" where
  "provenance_wire_ok w \<longleftrightarrow> rfc_ok (pw_observed_at w) \<and> opt_ok rfc_ok (pw_effective_at w)"

lemma de_ser_provenance [wire_simps]:
  "provenance_wire_ok w \<Longrightarrow> de_provenance_wire (ser_provenance_wire w) = Inr w"
  unfolding de_provenance_wire_def ser_provenance_wire_def provenance_wire_ok_def
  by (subst de_ser_struct) (simp_all add: req_def dflt_def wire_simps)

definition balance_wire_ok :: "balance_wire \<Rightarrow> bool" where
  "balance_wire_ok b \<longleftrightarrow> opt_ok money_ok (bw_amount b) \<and> provenance_wire_ok (bw_provenance b)"

lemma de_required_amount [wire_simps]:
  "opt_ok money_ok v \<Longrightarrow> deserialize_required_amount (json_opt ser_amount v) = Inr v"
proof (cases v)
  case (Some x)
  moreover assume "opt_ok money_ok v"
  ultimately have "de_amount (ser_amount x) = Inr x" by (simp add: wire_simps)
  then show ?thesis using Some by (simp add: deserialize_required_amount_def ser_amount_def)
qed (simp add: deserialize_required_amount_def)

lemma de_ser_balance: "balance_wire_ok b \<Longrightarrow> de_balance_wire (ser_balance_wire b) = Inr b"
  unfolding de_balance_wire_def ser_balance_wire_def balance_wire_ok_def
  by (subst de_ser_struct) (simp_all add: req_def dflt_def wire_simps)

definition observation_wire_ok :: "observation_wire \<Rightarrow> bool" where
  "observation_wire_ok w \<longleftrightarrow>
     money_ok (ow_amount w) \<and> opt_ok money_ok (ow_fees w) \<and> plain_ok (ow_description w) \<and>
     map_parsed (ow_provider_extra w) \<and> provenance_wire_ok (ow_provenance w)"

lemma de_ser_observation:
  "observation_wire_ok w \<Longrightarrow> de_observation_wire (ser_observation_wire w) = Inr w"
  unfolding de_observation_wire_def ser_observation_wire_def observation_wire_ok_def
  by (subst de_ser_struct) (simp_all add: req_def dflt_def de_map_parsed wire_simps)

interpretation observation_json: roundtrip ser_observation_wire "\<lambda>j. res_ok (de_observation_wire j)"
  observation_wire_ok
  by unfold_locales (simp add: de_ser_observation)


section \<open>Outcomes\<close>

definition outcome_ok :: "read_outcome \<Rightarrow> bool" where
  "outcome_ok out \<longleftrightarrow>
     (case out of Stale t \<Rightarrow> rfc_ok t | RateLimited n \<Rightarrow> int n \<le> u64_max | _ \<Rightarrow> True)"

lemma one_field:
  "de_struct [k] (\<lambda>get. req get k f) j = Inr x \<longleftrightarrow> (\<exists>v. j = JObj [(k, v)] \<and> f v = Inr x)"
proof -
  have one: "set (map fst ms) \<subseteq> {k} \<and> distinct (map fst ms) \<longleftrightarrow> ms = [] \<or> (\<exists>v. ms = [(k, v)])" for ms
    by (cases ms; cases "tl ms") auto
  show ?thesis
    by (auto simp: de_struct_def req_def res_simps one simp del: set_map)
qed

lemma outcome_bodies:
  "de_fetched_body j = Inr b \<longleftrightarrow> j = JObj [(''page_empty'', JBool b)]"
  "de_stale_body j = Inr t \<longleftrightarrow> j = JObj [(''as_of'', ser_rfc3339 t)] \<and> rfc_ok t"
  "de_rate_limited_body j = Inr n \<longleftrightarrow> j = JObj [(''retry_after_ms'', JInt (int n))] \<and> int n \<le> u64_max"
  unfolding de_fetched_body_def de_stale_body_def de_rate_limited_body_def one_field
  by (auto simp: res_simps de_rfc3339_ok)

lemma visit_str_iff: "outcome_visit_str v = Inr out \<longleftrightarrow> ser_read_outcome out = JStr v"
  by (cases out) (auto simp: outcome_visit_str_def)

lemma visit_map_iff: "outcome_visit_map ms = Inr out \<longleftrightarrow> outcome_ok out \<and> ser_read_outcome out = JObj ms"
  by (cases ms; cases out)
    (auto simp: outcome_visit_map_def outcome_ok_def res_simps outcome_bodies split: if_splits)

lemma de_read_outcome_iff: "de_read_outcome j = Inr out \<longleftrightarrow> outcome_ok out \<and> ser_read_outcome out = j"
proof (cases j)
  case (JStr v)
  then show ?thesis by (cases out) (auto simp: de_read_outcome_def visit_str_iff outcome_ok_def)
next
  case (JObj ms)
  then show ?thesis by (simp add: de_read_outcome_def visit_map_iff)
qed (cases out; simp add: de_read_outcome_def)+

lemma de_ser_outcome [wire_simps]: "outcome_ok out \<Longrightarrow> de_read_outcome (ser_read_outcome out) = Inr out"
  by (simp add: de_read_outcome_iff)

interpretation outcome_json: exact_codec ser_read_outcome "\<lambda>j. res_ok (de_read_outcome j)" outcome_ok
  by unfold_locales (auto simp: res_simps de_read_outcome_iff)

section \<open>Paging and statuses\<close>

fun page_request_ok :: "page_request \<Rightarrow> bool" where
  "page_request_ok (Cursor c) = True"
| "page_request_ok (Window r a s e) = (opt_ok asset_ok a \<and> rfc_ok s \<and> rfc_ok e)"

definition page_reply_ok :: "page_reply \<Rightarrow> bool" where
  "page_reply_ok p \<longleftrightarrow>
     opt_ok page_request_ok (pg_next p) \<and> opt_ok rfc_ok (pg_window_capped_to p) \<and>
     opt_ok (\<lambda>n. n < 2 ^ 32) (pg_page_size_reduced_to p)"

lemma present_rest:
  "k \<notin> set (map fst kvs) \<Longrightarrow>
   filter (\<lambda>m. fst m = k) (present ((k, Some v) # kvs)) = [(k, v)] \<and>
   filter (\<lambda>m. fst m \<noteq> k) (present ((k, Some v) # kvs)) = present kvs"
proof -
  assume "k \<notin> set (map fst kvs)"
  then have "\<forall>m\<in>set (present kvs). fst m \<noteq> k" using present_keys [of kvs] by auto
  then show ?thesis by (simp add: present_Cons filter_empty_conv)
qed

lemma de_ser_page_request [wire_simps]: "page_request_ok r \<Longrightarrow> de_page_request (ser_page_request r) = Inr r"
proof (cases r)
  case (Cursor c)
  have "de_struct [''cursor''] (\<lambda>get. res_bind (req get ''cursor'' de_string) (\<lambda>c. Inr (Cursor c)))
      (JObj [(''cursor'', JStr c)]) = Inr (Cursor c)"
    by (simp add: de_struct_def known_fields_def req_def)
  with Cursor show ?thesis by (simp add: de_page_request_def)
next
  case (Window r' a s e)
  let ?kvs = "[(''resource_id'', Some (JStr r')), (''asset'', some_json ser_asset_id a),
      (''start'', Some (ser_rfc3339 s)), (''end'', Some (ser_rfc3339 e))]"
  assume "page_request_ok r"
  then have "opt_ok asset_ok a" "rfc_ok s" "rfc_ok e" using Window by simp_all
  then have body: "de_struct [''resource_id'', ''asset'', ''start'', ''end'']
      (\<lambda>get.
         res_bind (req get ''resource_id'' de_string) (\<lambda>r.
         res_bind (dflt get ''asset'' None (de_option de_asset_id)) (\<lambda>a.
         res_bind (req get ''start'' de_rfc3339) (\<lambda>s.
         res_bind (req get ''end'' de_rfc3339) (\<lambda>e.
         Inr (Window r a s e)))))) (ser_struct ?kvs) = Inr (Window r' a s e)"
    by (subst de_ser_struct) (simp_all add: req_def dflt_def wire_simps)
  have f: "filter (\<lambda>m. fst m = ''kind'') (present ((''kind'', Some (JStr ''window'')) # ?kvs)) = [(''kind'', JStr ''window'')]"
    "filter (\<lambda>m. fst m \<noteq> ''kind'') (present ((''kind'', Some (JStr ''window'')) # ?kvs)) = present ?kvs"
    using present_rest [of "''kind''" ?kvs "JStr ''window''"] by simp_all
  show ?thesis
    unfolding Window ser_page_request.simps ser_struct_def de_page_request_def de_object.simps f
    using body by (simp add: ser_struct_def)
qed

lemma ser_page_request_not_null [wire_simps]: "ser_page_request r \<noteq> JNull"
  by (cases r) (simp_all add: ser_struct_def)

lemma ser_struct_not_null [wire_simps]: "ser_struct kvs \<noteq> JNull"
  by (simp add: ser_struct_def)

lemma ser_records_not_null [wire_simps]: "ser_provider_detail d \<noteq> JNull" "ser_page_reply p \<noteq> JNull"
  by (simp_all add: ser_provider_detail_def ser_page_reply_def ser_struct_def)

lemma dflt_page_request [wire_simps]:
  "opt_ok page_request_ok v \<Longrightarrow>
   (case some_json ser_page_request v of None \<Rightarrow> Inr None | Some j \<Rightarrow> de_option de_page_request j) = Inr v"
  by (rule dflt_roundtrip, erule opt_ok_mono) (auto simp: wire_simps)

lemma dflt_u32 [wire_simps]:
  "opt_ok (\<lambda>n. n < 2 ^ 32) v \<Longrightarrow>
   (case some_json (\<lambda>n. JInt (int n)) v of None \<Rightarrow> Inr None | Some j \<Rightarrow> de_option de_u32 j) = Inr v"
  by (rule dflt_roundtrip, erule opt_ok_mono) (auto simp: wire_simps)

lemma de_ser_page_reply [wire_simps]: "page_reply_ok p \<Longrightarrow> de_page_reply (ser_page_reply p) = Inr p"
  unfolding de_page_reply_def ser_page_reply_def page_reply_ok_def
  by (subst de_ser_struct) (simp_all add: req_def dflt_def wire_simps)

lemma de_ser_detail [wire_simps]:
  "json_parsed (pd_raw d) \<Longrightarrow> de_provider_detail (ser_provider_detail d) = Inr d"
  unfolding de_provider_detail_def ser_provider_detail_def
  by (subst de_ser_struct) (simp_all add: req_def de_value_parsed)

lemma de_ser_degraded [wire_simps]: "int (dg_bytes d) \<le> u64_max \<Longrightarrow> de_degraded (ser_degraded d) = Inr d"
  unfolding de_degraded_def ser_degraded_def
  by (subst de_ser_struct) (simp_all add: req_def dflt_def wire_simps)

definition resource_status_ok :: "resource_status \<Rightarrow> bool" where
  "resource_status_ok s \<longleftrightarrow>
     outcome_ok (rs_outcome s) \<and> (\<forall>d\<in>set (rs_degraded s). int (dg_bytes d) \<le> u64_max) \<and>
     opt_ok (\<lambda>d. json_parsed (pd_raw d)) (rs_provider_detail s) \<and> opt_ok page_reply_ok (rs_page s) \<and>
     opt_ok rfc_ok (rs_credential_expires_at s) \<and> opt_ok rfc_ok (rs_strong_auth_expires_at s) \<and>
     opt_ok rfc_ok (rs_history_start s)"

lemma de_degraded_list [wire_simps]:
  "\<forall>d\<in>set ds. int (dg_bytes d) \<le> u64_max \<Longrightarrow>
   (case (if ds = [] then None else Some (JArr (map ser_degraded ds))) of
      None \<Rightarrow> Inr [] | Some j \<Rightarrow> de_vec de_degraded j) = Inr ds"
  by (cases "ds = []") (simp_all add: de_vec_map wire_simps del: list.map)

lemma dflt_detail [wire_simps]:
  "opt_ok (\<lambda>d. json_parsed (pd_raw d)) v \<Longrightarrow>
   (case some_json ser_provider_detail v of None \<Rightarrow> Inr None | Some j \<Rightarrow> de_option de_provider_detail j) = Inr v"
  by (rule dflt_roundtrip, erule opt_ok_mono) (auto simp: wire_simps)

lemma dflt_page_reply [wire_simps]:
  "opt_ok page_reply_ok v \<Longrightarrow>
   (case some_json ser_page_reply v of None \<Rightarrow> Inr None | Some j \<Rightarrow> de_option de_page_reply j) = Inr v"
  by (rule dflt_roundtrip, erule opt_ok_mono) (auto simp: wire_simps)

lemma de_ser_status: "resource_status_ok s \<Longrightarrow> de_resource_status (ser_resource_status s) = Inr s"
  unfolding de_resource_status_def ser_resource_status_def resource_status_ok_def
  by (subst de_ser_struct) (simp_all add: req_def dflt_def wire_simps)

interpretation status_json: roundtrip ser_resource_status "\<lambda>j. res_ok (de_resource_status j)" resource_status_ok
  by unfold_locales (simp add: de_ser_status)


section \<open>What is accepted is valid\<close>

lemma set_btree_of: "set (btree_of ps) \<subseteq> set ps"
proof
  fix p assume p: "p \<in> set (btree_of ps)"
  obtain k v where kv: "p = (k, v)" by fastforce
  have "distinct (map fst (btree_of ps))" using btree_ok_distinct [OF btree_ok_of] by blast
  then have "map_of (btree_of ps) k = Some v" using p kv by simp
  then have "map_of (rev ps) k = Some v" by (simp add: map_of_btree_of)
  then show "p \<in> set ps" using kv by (auto dest: map_of_SomeD)
qed

lemma json_value_idem: "json_value (json_value j) = json_value j"
proof (induction j)
  case (JObj ms)
  let ?ps = "map (map_prod id json_value) ms"
  have fixed: "map_prod id json_value p = p" if "p \<in> set (btree_of ?ps)" for p
  proof -
    from that have "p \<in> set ?ps" using set_btree_of by blast
    then obtain q where "q \<in> set ms" "p = map_prod id json_value q" by auto
    with JObj show ?thesis by (cases q) (auto simp: prod_set_defs)
  qed
  then have "map (map_prod id json_value) (btree_of ?ps) = btree_of ?ps" by (intro map_idI)
  then show ?case by (simp add: btree_of_id)
qed auto

lemma de_map_ok: "de_map j = Inr ms \<Longrightarrow> map_parsed ms"
proof -
  assume "de_map j = Inr ms"
  then obtain ms' where "j = JObj ms'" and ms: "ms = btree_of (map (map_prod id json_value) ms')"
    by (auto simp: de_map_def res_simps)
  have "JObj ms = json_value (JObj ms')" by (simp add: ms)
  then show ?thesis unfolding map_parsed_def json_parsed_def by (simp only: json_value_idem)
qed

lemma de_amount_ok: "de_amount j = Inr x \<Longrightarrow> money_ok x"
  by (simp add: de_amount_iff money_ok_def)

lemma de_option_Inr: "de_option f j = Inr v \<Longrightarrow> (\<And>j x. f j = Inr x \<Longrightarrow> P x) \<Longrightarrow> opt_ok P v"
  by (cases j; cases "f j") auto

lemma req_Inr: "req get k f = Inr x \<Longrightarrow> (\<And>j x. f j = Inr x \<Longrightarrow> P x) \<Longrightarrow> P x"
  by (auto simp: req_def res_simps)

lemma dflt_Inr: "dflt get k None (de_option f) = Inr v \<Longrightarrow> (\<And>j x. f j = Inr x \<Longrightarrow> P x) \<Longrightarrow> opt_ok P v"
proof (cases "get k")
  case (Some j)
  assume "dflt get k None (de_option f) = Inr v" and P: "\<And>j x. f j = Inr x \<Longrightarrow> P x"
  with Some have "de_option f j = Inr v" by (simp add: dflt_def)
  then show ?thesis by (rule de_option_Inr) (rule P)
qed (auto simp: dflt_def)

lemma de_provenance_ok:
  assumes "de_provenance_wire j = Inr w"
  shows "provenance_wire_ok w"
proof -
  from assms obtain get where
    "req get ''observed_at'' de_rfc3339 = Inr (pw_observed_at w)"
    and "dflt get ''effective_at'' None (de_option de_rfc3339) = Inr (pw_effective_at w)"
    unfolding de_provenance_wire_def de_struct_def by (auto simp: res_simps)
  then show ?thesis
    unfolding provenance_wire_ok_def using req_Inr dflt_Inr de_rfc3339_ok by metis
qed

lemma plain_text_ok: "deserialize_plain_text j = Inr d \<Longrightarrow> plain_ok d"
  by (auto simp: deserialize_plain_text_def res_simps validate_plain_iff)

lemma de_observation_ok:
  assumes "de_observation_wire j = Inr w"
  shows "observation_wire_ok w"
proof -
  from assms obtain get where
    amt: "req get ''amount'' de_amount = Inr (ow_amount w)"
    and fees: "dflt get ''fees'' None (de_option de_amount) = Inr (ow_fees w)"
    and desc: "req get ''description'' deserialize_plain_text = Inr (ow_description w)"
    and extra: "dflt get ''provider_extra'' [] de_map = Inr (ow_provider_extra w)"
    and prov: "req get ''provenance'' de_provenance_wire = Inr (ow_provenance w)"
    unfolding de_observation_wire_def de_struct_def by (auto simp: res_simps)
  have "map_parsed (ow_provider_extra w)"
    using extra by (auto simp: dflt_def map_parsed_def json_parsed_def btree_of_def dest: de_map_ok split: option.splits)
  then show ?thesis
    unfolding observation_wire_ok_def
    using req_Inr [OF amt] dflt_Inr [OF fees] req_Inr [OF desc] req_Inr [OF prov]
      de_amount_ok plain_text_ok de_provenance_ok by blast
qed

section \<open>The properties\<close>

text \<open>
  C37. Every valid history observation is read back unchanged from its wire form, and every
  observation the reader accepts is valid: its money is canonical and in bounds, its
  timestamps are structural RFC 3339, its description has no markup or control byte.
\<close>

theorem observation_wire_roundtrip:
  "(de_observation_wire (ser_observation_wire w) = Inr w) = observation_wire_ok w \<and>
   (\<exists>j. de_observation_wire j = Inr w) = observation_wire_ok w"
  using de_ser_observation [of w] de_observation_ok by blast

text \<open>
  A read outcome is accepted exactly in its one wire form: a bare string for an outcome
  without a body, or an object with exactly one member whose body has exactly its one field.
\<close>

theorem read_outcome_exact:
  "de_read_outcome j = Inr out \<longleftrightarrow> outcome_ok out \<and> ser_read_outcome out = j"
  by (rule de_read_outcome_iff)

text \<open>A valid status entry, with its degrades, provider detail and paging, is read back
  unchanged from its wire form.\<close>

theorem resource_status_roundtrip:
  assumes "resource_status_ok s"
  shows "de_resource_status (ser_resource_status s) = Inr s"
  using assms by (rule de_ser_status)

theorem resource_status_roundtrip_witness:
  "de_resource_status (ser_resource_status
     \<lparr>rs_resource_id = ''r'', rs_outcome = Fetched True, rs_degraded = [\<lparr>dg_local_id = None, dg_bytes = 70000\<rparr>],
      rs_provider_detail = None,
      rs_page = Some \<lparr>pg_cursor_resumable = Exact, pg_next = Some (Cursor ''c''),
                      pg_window_capped_to = None, pg_page_size_reduced_to = Some 5\<rparr>,
      rs_credential_expires_at = None, rs_strong_auth_expires_at = None, rs_history_start = None\<rparr>) =
   Inr \<lparr>rs_resource_id = ''r'', rs_outcome = Fetched True, rs_degraded = [\<lparr>dg_local_id = None, dg_bytes = 70000\<rparr>],
      rs_provider_detail = None,
      rs_page = Some \<lparr>pg_cursor_resumable = Exact, pg_next = Some (Cursor ''c''),
                      pg_window_capped_to = None, pg_page_size_reduced_to = Some 5\<rparr>,
      rs_credential_expires_at = None, rs_strong_auth_expires_at = None, rs_history_start = None\<rparr>"
  by (rule resource_status_roundtrip)
    (simp add: resource_status_ok_def outcome_ok_def page_reply_ok_def u64_max_def)

end
