(* ===== verification/Envelope.thy ===== *)
theory Envelope
  imports Observation Framing
begin

text \<open>
  The envelope and the operation bodies of the wire (\<open>core/wire/src/envelope.rs\<close>,
  \<open>core/wire/src/ops.rs\<close>, the codes of \<open>core/wire/src/error.rs\<close>). A request id is the
  \<open>u64\<close> the code keeps, a 64-bit word.
\<close>

section \<open>Ids and codes\<close>

type_synonym request_id = "64 word"

definition HELLO :: request_id where "HELLO = 0"

definition de_request_id :: "json \<Rightarrow> de_error + request_id" where
  "de_request_id j = res_bind (de_u64 j) (\<lambda>n. Inr (word_of_nat n))"

definition ser_request_id :: "request_id \<Rightarrow> json" where
  "ser_request_id i = JInt (uint i)"

definition code_names :: "(string \<times> wire_error_code) list" where
  "code_names =
     [(''unsupported_protocol'', UnsupportedProtocol), (''unsupported'', Unsupported),
      (''invalid_request'', InvalidRequest), (''not_ready'', NotReady), (''internal'', Internal)]"

section \<open>Requests and error bodies\<close>

record request =
  rq_id :: request_id
  rq_op :: string
  rq_params :: json

definition default_params :: json where "default_params = JNull"

definition de_request :: "json \<Rightarrow> de_error + request" where
  "de_request =
     de_struct [''id'', ''op'', ''params'']
       (\<lambda>get.
          res_bind (req get ''id'' de_request_id) (\<lambda>i.
          res_bind (req get ''op'' de_string) (\<lambda>p.
          res_bind (dflt get ''params'' default_params de_value) (\<lambda>ps.
          Inr \<lparr>rq_id = i, rq_op = p, rq_params = ps\<rparr>))))"

definition ser_request :: "request \<Rightarrow> json" where
  "ser_request r =
     ser_struct [(''id'', Some (ser_request_id (rq_id r))), (''op'', Some (JStr (rq_op r))),
                 (''params'', Some (rq_params r))]"

record error_body =
  eb_code :: wire_error_code
  eb_message :: string
  eb_detail :: "json option"

definition error_body_new :: "wire_error_code \<Rightarrow> string \<Rightarrow> error_body" where
  "error_body_new c m = \<lparr>eb_code = c, eb_message = m, eb_detail = None\<rparr>"

definition with_detail :: "json \<Rightarrow> error_body \<Rightarrow> error_body" where
  "with_detail d e = e\<lparr>eb_detail := Some d\<rparr>"

definition de_error_body :: "json \<Rightarrow> de_error + error_body" where
  "de_error_body =
     de_struct [''code'', ''message'', ''detail'']
       (\<lambda>get.
          res_bind (req get ''code'' (de_unit_enum code_names)) (\<lambda>c.
          res_bind (req get ''message'' de_string) (\<lambda>m.
          res_bind (dflt get ''detail'' None (de_option de_value)) (\<lambda>d.
          Inr \<lparr>eb_code = c, eb_message = m, eb_detail = d\<rparr>))))"

definition ser_error_body :: "error_body \<Rightarrow> json" where
  "ser_error_body e =
     ser_struct [(''code'', Some (ser_enum code_names (eb_code e))), (''message'', Some (JStr (eb_message e))),
                 (''detail'', eb_detail e)]"

section \<open>Replies\<close>

datatype 'a reply = ReplyOk request_id 'a | ReplyErr request_id error_body

fun reply_id :: "'a reply \<Rightarrow> request_id" where
  "reply_id (ReplyOk i _) = i"
| "reply_id (ReplyErr i _) = i"

text \<open>\<open>visit_map\<close>: the loop over the members, then the three checks after it.\<close>

fun reply_visit ::
  "(json \<Rightarrow> de_error + 'a) \<Rightarrow> (string \<times> json) list \<Rightarrow> request_id option \<Rightarrow> 'a option \<Rightarrow> error_body option \<Rightarrow>
   de_error + 'a reply" where
  "reply_visit f [] i ok er =
     res_bind (ok_or (MissingField ''id'') i) (\<lambda>i.
       case (ok, er) of
         (Some x, None) \<Rightarrow> Inr (ReplyOk i x)
       | (None, Some e) \<Rightarrow> Inr (ReplyErr i e)
       | _ \<Rightarrow> Inl Custom)"
| "reply_visit f ((key, v) # ms) i ok er =
     (if key = ''id'' then
        (if i \<noteq> None then Inl (DuplicateField ''id'')
         else res_bind (de_request_id v) (\<lambda>x. reply_visit f ms (Some x) ok er))
      else if key = ''ok'' then
        (if ok \<noteq> None then Inl (DuplicateField ''ok'')
         else res_bind (f v) (\<lambda>x. reply_visit f ms i (Some x) er))
      else if key = ''err'' then
        (if er \<noteq> None then Inl (DuplicateField ''err'')
         else res_bind (de_error_body v) (\<lambda>x. reply_visit f ms i ok (Some x)))
      else Inl (UnknownField key))"

definition de_reply :: "(json \<Rightarrow> de_error + 'a) \<Rightarrow> json \<Rightarrow> de_error + 'a reply" where
  "de_reply f = de_object (\<lambda>ms. reply_visit f ms None None None)"

fun ser_reply :: "('a \<Rightarrow> json) \<Rightarrow> 'a reply \<Rightarrow> json" where
  "ser_reply g (ReplyOk i x) = JObj [(''id'', ser_request_id i), (''ok'', g x)]"
| "ser_reply g (ReplyErr i e) = JObj [(''id'', ser_request_id i), (''err'', ser_error_body e)]"

section \<open>The handshake\<close>

record hello_reply =
  hr_protocol :: string
  hr_adapter_id :: string
  hr_adapter_version :: string
  hr_capabilities :: "string list"
  hr_local_id_derivation :: string
  hr_max_in_flight :: nat

definition de_hello_params :: "json \<Rightarrow> de_error + string list" where
  "de_hello_params = de_struct [''protocol''] (\<lambda>get. req get ''protocol'' (de_vec de_string))"

definition ser_hello_params :: "string list \<Rightarrow> json" where
  "ser_hello_params ps = ser_struct [(''protocol'', Some (JArr (map JStr ps)))]"

definition default_max_in_flight :: nat where "default_max_in_flight = 1"

definition de_hello_reply :: "json \<Rightarrow> de_error + hello_reply" where
  "de_hello_reply =
     de_struct [''protocol'', ''adapter_id'', ''adapter_version'', ''capabilities'', ''local_id_derivation'',
                ''max_in_flight'']
       (\<lambda>get.
          res_bind (req get ''protocol'' de_string) (\<lambda>p.
          res_bind (req get ''adapter_id'' de_string) (\<lambda>a.
          res_bind (req get ''adapter_version'' de_string) (\<lambda>v.
          res_bind (req get ''capabilities'' (de_vec de_string)) (\<lambda>c.
          res_bind (req get ''local_id_derivation'' de_string) (\<lambda>l.
          res_bind (dflt get ''max_in_flight'' default_max_in_flight de_u32) (\<lambda>m.
          Inr \<lparr>hr_protocol = p, hr_adapter_id = a, hr_adapter_version = v, hr_capabilities = c,
               hr_local_id_derivation = l, hr_max_in_flight = m\<rparr>)))))))"

definition ser_hello_reply :: "hello_reply \<Rightarrow> json" where
  "ser_hello_reply h =
     ser_struct
       [(''protocol'', Some (JStr (hr_protocol h))), (''adapter_id'', Some (JStr (hr_adapter_id h))),
        (''adapter_version'', Some (JStr (hr_adapter_version h))),
        (''capabilities'', Some (JArr (map JStr (hr_capabilities h)))),
        (''local_id_derivation'', Some (JStr (hr_local_id_derivation h))),
        (''max_in_flight'', Some (JInt (int (hr_max_in_flight h))))]"

section \<open>Operation bodies\<close>

definition OP_HELLO :: string where "OP_HELLO = ''hello''"
definition OP_RESOURCES_LIST :: string where "OP_RESOURCES_LIST = ''resources.list''"
definition OP_BALANCES_READ :: string where "OP_BALANCES_READ = ''balances.read''"
definition OP_HISTORY_READ :: string where "OP_HISTORY_READ = ''history.read''"
definition OP_STATUS_READ :: string where "OP_STATUS_READ = ''status.read''"

record resource_query =
  qy_resource_id :: string
  qy_page :: "page_request option"

definition de_resource_query :: "json \<Rightarrow> de_error + resource_query" where
  "de_resource_query =
     de_struct [''resource_id'', ''page'']
       (\<lambda>get.
          res_bind (req get ''resource_id'' de_string) (\<lambda>r.
          res_bind (dflt get ''page'' None (de_option de_page_request)) (\<lambda>p.
          Inr \<lparr>qy_resource_id = r, qy_page = p\<rparr>)))"

definition ser_resource_query :: "resource_query \<Rightarrow> json" where
  "ser_resource_query q =
     ser_struct [(''resource_id'', Some (JStr (qy_resource_id q))), (''page'', some_json ser_page_request (qy_page q))]"

record resource_descriptor =
  rd_resource_id :: string
  rd_provider_id :: string
  rd_kind :: string
  rd_label :: string
  rd_provider_extra :: "(string \<times> json) list option"

definition de_resource_descriptor :: "json \<Rightarrow> de_error + resource_descriptor" where
  "de_resource_descriptor =
     de_struct [''resource_id'', ''provider_id'', ''kind'', ''label'', ''provider_extra'']
       (\<lambda>get.
          res_bind (req get ''resource_id'' de_string) (\<lambda>r.
          res_bind (req get ''provider_id'' de_string) (\<lambda>p.
          res_bind (req get ''kind'' de_string) (\<lambda>k.
          res_bind (req get ''label'' de_string) (\<lambda>l.
          res_bind (dflt get ''provider_extra'' None (de_option de_map)) (\<lambda>x.
          Inr \<lparr>rd_resource_id = r, rd_provider_id = p, rd_kind = k, rd_label = l,
               rd_provider_extra = x\<rparr>))))))"

definition ser_resource_descriptor :: "resource_descriptor \<Rightarrow> json" where
  "ser_resource_descriptor d =
     ser_struct
       [(''resource_id'', Some (JStr (rd_resource_id d))), (''provider_id'', Some (JStr (rd_provider_id d))),
        (''kind'', Some (JStr (rd_kind d))), (''label'', Some (JStr (rd_label d))),
        (''provider_extra'', some_json JObj (rd_provider_extra d))]"

definition de_resources_list_reply :: "json \<Rightarrow> de_error + resource_descriptor list" where
  "de_resources_list_reply =
     de_struct [''resources''] (\<lambda>get. req get ''resources'' (de_vec de_resource_descriptor))"

definition ser_resources_list_reply :: "resource_descriptor list \<Rightarrow> json" where
  "ser_resources_list_reply ds = ser_struct [(''resources'', Some (JArr (map ser_resource_descriptor ds)))]"

definition de_balances_read_params :: "json \<Rightarrow> de_error + string list" where
  "de_balances_read_params = de_struct [''resource_ids''] (\<lambda>get. req get ''resource_ids'' (de_vec de_string))"

definition ser_balances_read_params :: "string list \<Rightarrow> json" where
  "ser_balances_read_params rs = ser_struct [(''resource_ids'', Some (JArr (map JStr rs)))]"

definition de_balances_read_reply :: "json \<Rightarrow> de_error + balance_wire list \<times> resource_status list" where
  "de_balances_read_reply =
     de_struct [''observations'', ''statuses'']
       (\<lambda>get.
          res_bind (req get ''observations'' (de_vec de_balance_wire)) (\<lambda>bs.
          res_bind (req get ''statuses'' (de_vec de_resource_status)) (\<lambda>ss.
          Inr (bs, ss))))"

definition ser_balances_read_reply :: "balance_wire list \<times> resource_status list \<Rightarrow> json" where
  "ser_balances_read_reply p =
     ser_struct [(''observations'', Some (JArr (map ser_balance_wire (fst p)))),
                 (''statuses'', Some (JArr (map ser_resource_status (snd p))))]"

definition de_history_read_params :: "json \<Rightarrow> de_error + resource_query list" where
  "de_history_read_params = de_struct [''resources''] (\<lambda>get. req get ''resources'' (de_vec de_resource_query))"

definition ser_history_read_params :: "resource_query list \<Rightarrow> json" where
  "ser_history_read_params qs = ser_struct [(''resources'', Some (JArr (map ser_resource_query qs)))]"

definition de_history_read_reply :: "json \<Rightarrow> de_error + observation_wire list \<times> resource_status list" where
  "de_history_read_reply =
     de_struct [''observations'', ''statuses'']
       (\<lambda>get.
          res_bind (req get ''observations'' (de_vec de_observation_wire)) (\<lambda>os.
          res_bind (req get ''statuses'' (de_vec de_resource_status)) (\<lambda>ss.
          Inr (os, ss))))"

definition ser_history_read_reply :: "observation_wire list \<times> resource_status list \<Rightarrow> json" where
  "ser_history_read_reply p =
     ser_struct [(''observations'', Some (JArr (map ser_observation_wire (fst p)))),
                 (''statuses'', Some (JArr (map ser_resource_status (snd p))))]"

definition de_status_read_params :: "json \<Rightarrow> de_error + string list" where
  "de_status_read_params = de_struct [''resource_ids''] (\<lambda>get. req get ''resource_ids'' (de_vec de_string))"

definition ser_status_read_params :: "string list \<Rightarrow> json" where
  "ser_status_read_params rs = ser_struct [(''resource_ids'', Some (JArr (map JStr rs)))]"

definition de_status_read_reply :: "json \<Rightarrow> de_error + resource_status list" where
  "de_status_read_reply = de_struct [''statuses''] (\<lambda>get. req get ''statuses'' (de_vec de_resource_status))"

definition ser_status_read_reply :: "resource_status list \<Rightarrow> json" where
  "ser_status_read_reply ss = ser_struct [(''statuses'', Some (JArr (map ser_resource_status ss)))]"

end
