(* ===== verification/Envelope_Correct.thy ===== *)
theory Envelope_Correct
  imports Envelope Observation_Correct
begin

text \<open>
  A reply is accepted only if it has an id and exactly one of \<open>ok\<close> and \<open>err\<close>, each once and
  with nothing beside them; every message is read back from its wire form.
\<close>

section \<open>Ids and error bodies\<close>

lemma de_request_id_iff: "de_request_id j = Inr i \<longleftrightarrow> j = ser_request_id i"
proof
  assume "de_request_id j = Inr i"
  then obtain n where "j = JInt (int n)" "int n \<le> u64_max" "word_of_nat n = i"
    by (auto simp: de_request_id_def res_simps)
  then show "j = ser_request_id i" by (auto simp: ser_request_id_def u64_max_def unsigned_of_nat take_bit_nat_eq_self)
next
  assume "j = ser_request_id i"
  moreover have "uint i < 2 ^ 64" using uint_bounded [of i] by simp
  ultimately show "de_request_id j = Inr i"
    by (simp add: de_request_id_def ser_request_id_def u64_max_def)
qed

lemma ser_request_id_inj [simp]: "ser_request_id i = ser_request_id j \<longleftrightarrow> i = j"
  by (simp add: ser_request_id_def word_uint_eq_iff)

lemma de_ser_request_id [wire_simps]: "de_request_id (ser_request_id i) = Inr i"
  by (simp add: de_request_id_iff)

lemma de_ser_code [wire_simps]: "de_unit_enum code_names (ser_enum code_names x) = Inr x"
  by (rule enum_roundtrip, cases x) (simp_all add: code_names_def name_of_def)

definition error_body_ok :: "error_body \<Rightarrow> bool" where
  "error_body_ok e \<longleftrightarrow> opt_ok (\<lambda>d. json_parsed d \<and> d \<noteq> JNull) (eb_detail e)"

lemma dflt_detail_value [wire_simps]:
  "opt_ok (\<lambda>d. json_parsed d \<and> d \<noteq> JNull) v \<Longrightarrow>
   (case v of None \<Rightarrow> Inr None | Some j \<Rightarrow> de_option de_value j) = Inr v"
proof (cases v)
  case (Some j)
  assume "opt_ok (\<lambda>d. json_parsed d \<and> d \<noteq> JNull) v"
  with Some show ?thesis by (cases j) (simp_all add: de_value_parsed)
qed simp

lemma de_ser_error_body [wire_simps]: "error_body_ok e \<Longrightarrow> de_error_body (ser_error_body e) = Inr e"
  unfolding de_error_body_def ser_error_body_def error_body_ok_def
  by (subst de_ser_struct) (simp_all add: req_def dflt_def wire_simps)

section \<open>The reply visitor\<close>

text \<open>What the members say when each key is known and appears once.\<close>

definition reply_members :: "(json \<Rightarrow> de_error + 'a) \<Rightarrow> (string \<times> json) list \<Rightarrow> 'a reply \<Rightarrow> bool" where
  "reply_members f ms r \<longleftrightarrow>
     (\<exists>body. length ms = 2 \<and> (''id'', ser_request_id (reply_id r)) \<in> set ms \<and> body \<in> set ms \<and>
        (case r of ReplyOk i x \<Rightarrow> fst body = ''ok'' \<and> f (snd body) = Inr x
                 | ReplyErr i e \<Rightarrow> fst body = ''err'' \<and> de_error_body (snd body) = Inr e))"

lemma reply_visit_full:
  "reply_visit f ms (Some i) (Some x) None = Inr r \<longleftrightarrow> ms = [] \<and> r = ReplyOk i x"
  "reply_visit f ms (Some i) None (Some e) = Inr r \<longleftrightarrow> ms = [] \<and> r = ReplyErr i e"
proof -
  have err: "reply_visit f ms i (Some x) (Some e) \<noteq> Inr r" for f :: "json \<Rightarrow> de_error + 'a" and ms i x e r
    by (induction f ms i "Some x" "Some e" rule: reply_visit.induct) (auto simp: res_simps split: if_splits)
  show "reply_visit f ms (Some i) (Some x) None = Inr r \<longleftrightarrow> ms = [] \<and> r = ReplyOk i x"
    using err by (cases ms) (auto simp: res_simps split: if_splits)
  show "reply_visit f ms (Some i) None (Some e) = Inr r \<longleftrightarrow> ms = [] \<and> r = ReplyErr i e"
    using err by (cases ms) (auto simp: res_simps split: if_splits)
qed

lemma reply_visit_both: "reply_visit f ms i (Some x) (Some e) \<noteq> Inr r"
  by (induction f ms i "Some x" "Some e" rule: reply_visit.induct) (auto simp: res_simps split: if_splits)

lemma reply_visit_body:
  "reply_visit f ms None (Some x) None = Inr r \<longleftrightarrow> (\<exists>i. ms = [(''id'', ser_request_id i)] \<and> r = ReplyOk i x)"
  "reply_visit f ms None None (Some e) = Inr r \<longleftrightarrow> (\<exists>i. ms = [(''id'', ser_request_id i)] \<and> r = ReplyErr i e)"
  by (cases ms; auto simp: res_simps de_request_id_iff reply_visit_full reply_visit_both split: if_splits)+

lemma reply_visit_id:
  "reply_visit f ms (Some i) None None = Inr r \<longleftrightarrow>
   (\<exists>v x. ms = [(''ok'', v)] \<and> f v = Inr x \<and> r = ReplyOk i x) \<or>
   (\<exists>v e. ms = [(''err'', v)] \<and> de_error_body v = Inr e \<and> r = ReplyErr i e)"
  by (cases ms) (auto simp: res_simps reply_visit_full split: if_splits)

lemma reply_visit_start:
  "reply_visit f ms None None None = Inr r \<longleftrightarrow>
   (\<exists>i v x. (ms = [(''id'', ser_request_id i), (''ok'', v)] \<or> ms = [(''ok'', v), (''id'', ser_request_id i)]) \<and>
      f v = Inr x \<and> r = ReplyOk i x) \<or>
   (\<exists>i v e. (ms = [(''id'', ser_request_id i), (''err'', v)] \<or> ms = [(''err'', v), (''id'', ser_request_id i)]) \<and>
      de_error_body v = Inr e \<and> r = ReplyErr i e)"
  by (cases ms) (auto simp: res_simps de_request_id_iff reply_visit_id reply_visit_body split: if_splits)

lemma two_members:
  "length ms = 2 \<and> a \<in> set ms \<and> b \<in> set ms \<and> a \<noteq> b \<longleftrightarrow> (ms = [a, b] \<or> ms = [b, a]) \<and> a \<noteq> b"
  by (auto simp: numeral_2_eq_2 length_Suc_conv)

lemma de_reply_iff:
  "de_reply f j = Inr r \<longleftrightarrow> (\<exists>ms. j = JObj ms \<and> reply_members f ms r)"
proof -
  have "reply_visit f ms None None None = Inr r \<longleftrightarrow> reply_members f ms r" for ms
  proof (cases r)
    case (ReplyOk i x)
    have "reply_members f ms r \<longleftrightarrow> (\<exists>body. (length ms = 2 \<and> (''id'', ser_request_id i) \<in> set ms \<and> body \<in> set ms \<and>
        (''id'', ser_request_id i) \<noteq> body) \<and> fst body = ''ok'' \<and> f (snd body) = Inr x)"
      by (auto simp: reply_members_def ReplyOk)
    then show ?thesis unfolding two_members reply_visit_start by (auto simp: ReplyOk)
  next
    case (ReplyErr i e)
    have "reply_members f ms r \<longleftrightarrow> (\<exists>body. (length ms = 2 \<and> (''id'', ser_request_id i) \<in> set ms \<and> body \<in> set ms \<and>
        (''id'', ser_request_id i) \<noteq> body) \<and> fst body = ''err'' \<and> de_error_body (snd body) = Inr e)"
      by (auto simp: reply_members_def ReplyErr)
    then show ?thesis unfolding two_members reply_visit_start by (auto simp: ReplyErr)
  qed
  then show ?thesis by (auto simp: de_reply_def res_simps)
qed

section \<open>Operation bodies\<close>

lemma de_string_list [wire_simps]: "de_vec de_string (JArr (map JStr xs)) = Inr xs"
  by (rule de_vec_map) simp

lemma de_ser_hello [wire_simps]: "hr_max_in_flight h < 2 ^ 32 \<Longrightarrow> de_hello_reply (ser_hello_reply h) = Inr h"
  unfolding de_hello_reply_def ser_hello_reply_def
  by (subst de_ser_struct) (simp_all add: req_def dflt_def wire_simps)

lemma de_ser_query [wire_simps]: "opt_ok page_request_ok (qy_page q) \<Longrightarrow> de_resource_query (ser_resource_query q) = Inr q"
  unfolding de_resource_query_def ser_resource_query_def
  by (subst de_ser_struct) (simp_all add: req_def dflt_def wire_simps)

lemma dflt_map [wire_simps]:
  "opt_ok map_parsed v \<Longrightarrow>
   (case some_json JObj v of None \<Rightarrow> Inr None | Some j \<Rightarrow> de_option de_map j) = Inr v"
  by (rule dflt_roundtrip, erule opt_ok_mono) (auto simp: de_map_parsed)

lemma de_ser_descriptor [wire_simps]:
  "opt_ok map_parsed (rd_provider_extra d) \<Longrightarrow> de_resource_descriptor (ser_resource_descriptor d) = Inr d"
  unfolding de_resource_descriptor_def ser_resource_descriptor_def
  by (subst de_ser_struct) (simp_all add: req_def dflt_def wire_simps)

lemma de_ser_history_params [wire_simps]:
  "\<forall>q\<in>set qs. opt_ok page_request_ok (qy_page q) \<Longrightarrow> de_history_read_params (ser_history_read_params qs) = Inr qs"
  unfolding de_history_read_params_def ser_history_read_params_def
  by (subst de_ser_struct) (simp_all add: req_def de_vec_map wire_simps)

lemma de_ser_history_reply [wire_simps]:
  "\<forall>w\<in>set (fst p). observation_wire_ok w \<Longrightarrow> \<forall>s\<in>set (snd p). resource_status_ok s \<Longrightarrow>
   de_history_read_reply (ser_history_read_reply p) = Inr p"
  unfolding de_history_read_reply_def ser_history_read_reply_def
  by (subst de_ser_struct) (simp_all add: req_def de_vec_map de_ser_observation de_ser_status)

lemma de_ser_balances_reply [wire_simps]:
  "\<forall>b\<in>set (fst p). balance_wire_ok b \<Longrightarrow> \<forall>s\<in>set (snd p). resource_status_ok s \<Longrightarrow>
   de_balances_read_reply (ser_balances_read_reply p) = Inr p"
  unfolding de_balances_read_reply_def ser_balances_read_reply_def
  by (subst de_ser_struct) (simp_all add: req_def de_vec_map de_ser_balance de_ser_status)

lemma de_ser_request [wire_simps]: "json_parsed (rq_params r) \<Longrightarrow> de_request (ser_request r) = Inr r"
  unfolding de_request_def ser_request_def
  by (subst de_ser_struct) (simp_all add: req_def dflt_def de_value_parsed wire_simps)

lemma de_ser_reply_ok: "f (g x) = Inr x \<Longrightarrow> de_reply f (ser_reply g (ReplyOk i x)) = Inr (ReplyOk i x)"
  by (simp add: de_reply_def reply_visit_start wire_simps)

section \<open>The properties\<close>

text \<open>
  A reply envelope is accepted exactly if it is an object of two members, the id and
  exactly one of \<open>ok\<close> and \<open>err\<close>, in either order, whose body is itself accepted: never both
  bodies, never neither, no repeated and no unknown key.
\<close>

theorem reply_exactly_one:
  "de_reply f j = Inr r \<longleftrightarrow> (\<exists>ms. j = JObj ms \<and> reply_members f ms r)"
  by (rule de_reply_iff)

text \<open>A history reply travels unchanged: the envelope and its valid observations and
  statuses are read back from what the writer produced.\<close>

theorem history_reply_roundtrip:
  assumes "\<forall>w\<in>set obs. observation_wire_ok w" and "\<forall>s\<in>set sts. resource_status_ok s"
  shows "de_reply de_history_read_reply (ser_reply ser_history_read_reply (ReplyOk i (obs, sts))) =
         Inr (ReplyOk i (obs, sts))"
  using assms by (intro de_ser_reply_ok de_ser_history_reply) simp_all

theorem history_reply_roundtrip_witness:
  "de_reply de_history_read_reply
     (ser_reply ser_history_read_reply
        (ReplyOk 7 ([], [\<lparr>rs_resource_id = ''w'', rs_outcome = RateLimited 500, rs_degraded = [],
           rs_provider_detail = None, rs_page = None, rs_credential_expires_at = None,
           rs_strong_auth_expires_at = None, rs_history_start = None\<rparr>]))) =
   Inr (ReplyOk 7 ([], [\<lparr>rs_resource_id = ''w'', rs_outcome = RateLimited 500, rs_degraded = [],
           rs_provider_detail = None, rs_page = None, rs_credential_expires_at = None,
           rs_strong_auth_expires_at = None, rs_history_start = None\<rparr>]))"
  by (rule history_reply_roundtrip) (simp_all add: resource_status_ok_def outcome_ok_def u64_max_def)

end
