(* ===== verification/Revisions.thy ===== *)
theory Revisions
  imports Observation "HOL-Library.Multiset"
begin

text \<open>
  The host's fold of observations into revision chains (\<open>core/host/src/fold.rs\<close>) and its
  resume state (\<open>core/host/src/paging.rs\<close>). The two \<open>u64\<close> counters count observations held in
  memory and are \<^typ>\<open>nat\<close>.
\<close>

section \<open>An interface: a log per key\<close>

text \<open>
  A store of items that keeps one list of entries per key. Adding an item changes the list of
  its key by \<open>ins\<close> and no other list. Clients get that each list is a function of the items of
  its key alone, in their order: how items of different keys interleave cannot matter.
\<close>

locale keyed_log =
  fixes inv :: "'s \<Rightarrow> bool"
    and key :: "'x \<Rightarrow> 'k"
    and add :: "'x \<Rightarrow> 's \<Rightarrow> 's"
    and log :: "'s \<Rightarrow> 'k \<Rightarrow> 'e list"
    and ins :: "'x \<Rightarrow> 'e list \<Rightarrow> 'e list"
  assumes inv_add: "inv s \<Longrightarrow> inv (add x s)"
    and log_add: "inv s \<Longrightarrow> log (add x s) k = (if key x = k then ins x (log s k) else log s k)"
begin

lemma inv_adds: "inv s \<Longrightarrow> inv (fold add xs s)"
  by (induction xs arbitrary: s) (auto simp: inv_add)

lemma log_adds: "inv s \<Longrightarrow> log (fold add xs s) k = fold ins (filter (\<lambda>x. key x = k) xs) (log s k)"
  by (induction xs arbitrary: s) (auto simp: inv_add log_add)

lemma interleaving:
  "inv s \<Longrightarrow> filter (\<lambda>x. key x = k) xs = filter (\<lambda>x. key x = k) ys \<Longrightarrow>
   log (fold add xs s) k = log (fold add ys s) k"
  by (simp add: log_adds)

lemma other_keys: "inv s \<Longrightarrow> \<forall>x\<in>set xs. key x \<noteq> k \<Longrightarrow> log (fold add xs s) k = log s k"
  by (simp add: log_adds filter_False)

end

section \<open>The fold\<close>

record revisioned_observation =
  rv_revision :: nat
  rv_observation :: observation

record entry =
  en_arrival_index :: nat
  en_revisioned :: revisioned_observation

type_synonym chain_key = "string \<times> string"

record fold_state =
  chains :: "(chain_key, entry list) hash_map"
  arrival_counter :: nat

definition fold_new :: fold_state where
  "fold_new = \<lparr>chains = [], arrival_counter = 0\<rparr>"

definition chain_key_of :: "observation \<Rightarrow> chain_key" where
  "chain_key_of ob = (pv_adapter_id (ob_provenance ob), ob_local_id ob)"

text \<open>The key the chain is sorted by; \<open>sort_by\<close> is stable, as is \<^const>\<open>sort_key\<close>.\<close>

definition entry_order :: "entry \<Rightarrow> rfc3339 \<times> string \<times> nat" where
  "entry_order e =
     (let ob = rv_observation (en_revisioned e)
      in fold_order_key (pv_received_at (ob_provenance ob)) (ob_surface ob) (en_arrival_index e))"

definition ingest :: "observation \<Rightarrow> fold_state \<Rightarrow> nat \<times> fold_state" where
  "ingest ob s =
     (let arrival_index = arrival_counter s;
          key = chain_key_of ob;
          chain = (case map_of (chains s) key of Some c \<Rightarrow> c | None \<Rightarrow> []);
          revision = length chain + 1;
          chain = chain @ [\<lparr>en_arrival_index = arrival_index,
                            en_revisioned = \<lparr>rv_revision = revision, rv_observation = ob\<rparr>\<rparr>];
          chain = sort_key entry_order chain
      in (revision, \<lparr>chains = AList.update key chain (chains s), arrival_counter = arrival_counter s + 1\<rparr>))"

definition chain :: "fold_state \<Rightarrow> string \<Rightarrow> string \<Rightarrow> revisioned_observation list" where
  "chain s adapter_id local_id =
     (case map_of (chains s) (adapter_id, local_id) of
        Some entries \<Rightarrow> map en_revisioned entries | None \<Rightarrow> [])"

definition highest_revision :: "fold_state \<Rightarrow> string \<Rightarrow> string \<Rightarrow> nat option" where
  "highest_revision s adapter_id local_id =
     (case map_of (chains s) (adapter_id, local_id) of
        None \<Rightarrow> None
      | Some [] \<Rightarrow> None
      | Some (e # es) \<Rightarrow> Some (foldl (\<lambda>m x. max m (rv_revision (en_revisioned x))) (rv_revision (en_revisioned e)) es))"

definition fold_keys :: "fold_state \<Rightarrow> chain_key list" where
  "fold_keys s = map fst (chains s)"

definition live_set :: "fold_state \<Rightarrow> (chain_key, revisioned_observation) hash_map" where
  "live_set s =
     List.map_filter
       (\<lambda>(k, entries). if entries = [] then None else
          let latest = last entries in
          if ob_state (rv_observation (en_revisioned latest)) = Active
          then Some (k, en_revisioned latest) else None)
       (chains s)"

section \<open>Resuming a paged read\<close>

record resume_state =
  rm_start :: "page_request option"
  rm_resumable :: "cursor_resumable option"
  rm_exact_next :: "page_request option"

definition resume_new :: "page_request option \<Rightarrow> resume_state" where
  "resume_new start = \<lparr>rm_start = start, rm_resumable = None, rm_exact_next = None\<rparr>"

definition next_request :: "resume_state \<Rightarrow> page_request option" where
  "next_request s =
     (case rm_resumable s of
        None \<Rightarrow> rm_start s
      | Some Exact \<Rightarrow> rm_exact_next s
      | Some BatchRestart \<Rightarrow> rm_start s
      | Some NoCursor \<Rightarrow> rm_start s)"

definition resume_record :: "cursor_resumable \<Rightarrow> page_request option \<Rightarrow> resume_state \<Rightarrow> resume_state" where
  "resume_record r nxt s =
     (let s = s\<lparr>rm_resumable := Some r\<rparr>
      in if r = Exact then s\<lparr>rm_exact_next := nxt\<rparr> else s)"

end
