(* ===== verification/Revisions_Correct.thy ===== *)
theory Revisions_Correct
  imports Revisions Timestamp_Correct
begin

text \<open>
  Each chain is the stable sort, by receipt and surface, of the observations of its key,
  numbered in their order of arrival; the live set is its last entries that are active.
\<close>

section \<open>Stable sorting\<close>

lemma sort_key_twice: "sort_key f (sort_key f xs @ ys) = sort_key f (xs @ ys)"
proof (rule properties_for_sort_key)
  have stab: "filter (\<lambda>x. f k = f x) (sort_key f zs) = filter (\<lambda>x. f k = f x) zs" for k zs
    using sort_key_stable [of f "f k" zs] by (simp only: eq_commute [of "f k"])
  show "filter (\<lambda>x. f k = f x) (sort_key f (xs @ ys)) = filter (\<lambda>x. f k = f x) (sort_key f xs @ ys)" for k
    unfolding stab filter_append ..
qed simp_all

lemma insort_takeWhile:
  "sorted (map f ys) \<Longrightarrow>
   sort_key f (ys @ [x]) = takeWhile (\<lambda>y. f y \<le> f x) ys @ x # dropWhile (\<lambda>y. f y \<le> f x) ys"
proof (induction ys)
  case (Cons y ys)
  have s: "sorted (map f ys)" and le: "\<forall>z\<in>set ys. f y \<le> f z" using Cons.prems by auto
  have "sort_key f ((y # ys) @ [x]) = insort_key f y (sort_key f (ys @ [x]))" by simp
  also have "\<dots> = insort_key f y (takeWhile (\<lambda>z. f z \<le> f x) ys @ x # dropWhile (\<lambda>z. f z \<le> f x) ys)"
    by (simp only: Cons.IH [OF s])
  also have "\<dots> = takeWhile (\<lambda>z. f z \<le> f x) (y # ys) @ x # dropWhile (\<lambda>z. f z \<le> f x) (y # ys)"
  proof (cases "f y \<le> f x")
    case True
    then have "\<forall>z\<in>set (takeWhile (\<lambda>z. f z \<le> f x) ys @ x # dropWhile (\<lambda>z. f z \<le> f x) ys). f y \<le> f z"
      using le by (auto dest: set_takeWhileD set_dropWhileD)
    then show ?thesis using True by (simp add: insort_is_Cons)
  next
    case False
    then have "\<forall>z\<in>set ys. \<not> f z \<le> f x" using le by force
    then have "takeWhile (\<lambda>z. f z \<le> f x) ys = []" "dropWhile (\<lambda>z. f z \<le> f x) ys = ys"
      by (cases ys; simp)+
    then show ?thesis using False le by (simp add: insort_is_Cons)
  qed
  finally show ?case .
qed simp

lemma sort_key_snoc:
  "sort_key f (xs @ [x]) =
   takeWhile (\<lambda>y. f y \<le> f x) (sort_key f xs) @ x # dropWhile (\<lambda>y. f y \<le> f x) (sort_key f xs)"
  using insort_takeWhile [of f "sort_key f xs" x] by (simp add: sort_key_twice)

section \<open>The chain of one key\<close>

definition rev_order :: "revisioned_observation \<Rightarrow> rfc3339 \<times> string" where
  "rev_order r = (pv_received_at (ob_provenance (rv_observation r)), ob_surface (rv_observation r))"

definition chain_insert :: "observation \<Rightarrow> revisioned_observation list \<Rightarrow> revisioned_observation list" where
  "chain_insert ob ch =
     (let x = \<lparr>rv_revision = length ch + 1, rv_observation = ob\<rparr>
      in takeWhile (\<lambda>y. rev_order y \<le> rev_order x) ch @ x # dropWhile (\<lambda>y. rev_order y \<le> rev_order x) ch)"

definition numbered :: "observation list \<Rightarrow> revisioned_observation list" where
  "numbered obs = map (\<lambda>i. \<lparr>rv_revision = i + 1, rv_observation = obs ! i\<rparr>) [0..<length obs]"

lemma numbered_snoc: "numbered (obs @ [ob]) = numbered obs @ [\<lparr>rv_revision = length obs + 1, rv_observation = ob\<rparr>]"
  by (auto simp: numbered_def nth_append)

lemma length_numbered [simp]: "length (numbered obs) = length obs"
  by (simp add: numbered_def)

lemma chain_inserts: "fold chain_insert obs [] = sort_key rev_order (numbered obs)"
proof (induction obs rule: rev_induct)
  case Nil
  show ?case by (simp add: numbered_def)
next
  case (snoc ob obs)
  then show ?case by (simp add: numbered_snoc sort_key_snoc chain_insert_def Let_def)
qed

section \<open>The invariant of the fold\<close>

definition chain_ok :: "nat \<Rightarrow> chain_key \<Rightarrow> entry list \<Rightarrow> bool" where
  "chain_ok n k es \<longleftrightarrow>
     es \<noteq> [] \<and> sorted (map entry_order es) \<and>
     (\<forall>e\<in>set es. en_arrival_index e < n \<and> chain_key_of (rv_observation (en_revisioned e)) = k)"

definition fold_inv :: "fold_state \<Rightarrow> bool" where
  "fold_inv s \<longleftrightarrow>
     keys_distinct (chains s) \<and>
     (\<forall>k es. map_of (chains s) k = Some es \<longrightarrow> chain_ok (arrival_counter s) k es)"

lemma fold_inv_new [simp]: "fold_inv fold_new"
  by (simp add: fold_inv_def fold_new_def)

lemma fold_invD: "fold_inv s \<Longrightarrow> map_of (chains s) k = Some es \<Longrightarrow> chain_ok (arrival_counter s) k es"
  unfolding fold_inv_def by blast

definition entries_of :: "fold_state \<Rightarrow> chain_key \<Rightarrow> entry list" where
  "entries_of s k = (case map_of (chains s) k of Some c \<Rightarrow> c | None \<Rightarrow> [])"

definition new_entry :: "observation \<Rightarrow> fold_state \<Rightarrow> entry" where
  "new_entry ob s =
     \<lparr>en_arrival_index = arrival_counter s,
      en_revisioned = \<lparr>rv_revision = length (entries_of s (chain_key_of ob)) + 1, rv_observation = ob\<rparr>\<rparr>"

lemma ingest_alt:
  "ingest ob s =
     (length (entries_of s (chain_key_of ob)) + 1,
      \<lparr>chains = AList.update (chain_key_of ob)
                 (sort_key entry_order (entries_of s (chain_key_of ob) @ [new_entry ob s])) (chains s),
       arrival_counter = arrival_counter s + 1\<rparr>)"
  by (simp add: ingest_def entries_of_def new_entry_def Let_def)

lemma entries_ok:
  assumes "fold_inv s"
  shows "sorted (map entry_order (entries_of s k))"
    and "\<forall>e\<in>set (entries_of s k).
           en_arrival_index e < arrival_counter s \<and> chain_key_of (rv_observation (en_revisioned e)) = k"
  using fold_invD [OF assms, of k] by (cases "map_of (chains s) k"; simp add: chain_ok_def entries_of_def)+

lemma sort_key_Nil_iff [simp]: "sort_key f xs = [] \<longleftrightarrow> xs = []"
  by (metis length_0_conv length_sort)

lemma ingest_inv: "fold_inv s \<Longrightarrow> fold_inv (snd (ingest ob s))"
proof -
  assume s: "fold_inv s"
  let ?k = "chain_key_of ob" and ?n = "arrival_counter s"
  have "chain_ok (?n + 1) ?k (sort_key entry_order (entries_of s ?k @ [new_entry ob s]))"
    using entries_ok(2) [OF s, of ?k] by (auto simp del: sort_key_simps simp: chain_ok_def new_entry_def less_Suc_eq)
  moreover have "chain_ok (?n + 1) k es" if "map_of (chains s) k = Some es" for k es
    using fold_invD [OF s that] by (auto simp: chain_ok_def)
  ultimately show ?thesis
    using s unfolding fold_inv_def ingest_alt by (auto simp del: sort_key_simps)
qed

definition chain_at :: "fold_state \<Rightarrow> chain_key \<Rightarrow> revisioned_observation list" where
  "chain_at s k = chain s (fst k) (snd k)"

lemma chain_at_entries: "chain_at s k = map en_revisioned (entries_of s k)"
  by (cases k) (simp add: chain_at_def chain_def entries_of_def split: option.split)

lemma entry_rev_order:
  "en_arrival_index y < en_arrival_index x \<Longrightarrow>
   entry_order y \<le> entry_order x \<longleftrightarrow> rev_order (en_revisioned y) \<le> rev_order (en_revisioned x)"
  by (auto simp: entry_order_def rev_order_def fold_order_key_def Let_def less_eq_prod_def)

lemma takeWhile_dropWhile_map:
  assumes "\<forall>y\<in>set ys. P y = Q (f y)"
  shows "map f (takeWhile P ys) = takeWhile Q (map f ys)" "map f (dropWhile P ys) = dropWhile Q (map f ys)"
  using assms by (induction ys) auto

lemma ingest_chain:
  assumes "fold_inv s"
  shows "chain_at (snd (ingest ob s)) k =
         (if chain_key_of ob = k then chain_insert ob (chain_at s k) else chain_at s k)"
proof (cases "chain_key_of ob = k")
  case True
  let ?old = "entries_of s k" and ?x = "new_entry ob s"
  have "\<forall>e\<in>set ?old. en_arrival_index e < en_arrival_index ?x"
    using entries_ok(2) [OF assms, of k] by (simp add: new_entry_def)
  then have "\<forall>y\<in>set ?old. (entry_order y \<le> entry_order ?x) =
      (rev_order (en_revisioned y) \<le> rev_order (en_revisioned ?x))"
    using entry_rev_order by blast
  note tw = takeWhile_dropWhile_map [where P = "\<lambda>y. entry_order y \<le> entry_order ?x" and f = en_revisioned
      and Q = "\<lambda>r. rev_order r \<le> rev_order (en_revisioned ?x)", OF this]
  have "chain_at (snd (ingest ob s)) k = map en_revisioned (sort_key entry_order (?old @ [?x]))"
    using True by (simp add: chain_at_entries ingest_alt entries_of_def del: sort_key_simps)
  also have "\<dots> = chain_insert ob (map en_revisioned ?old)"
    unfolding insort_takeWhile [OF entries_ok(1) [OF assms]] chain_insert_def Let_def map_append list.map tw
    using True by (simp add: new_entry_def)
  finally show ?thesis using True by (simp add: chain_at_entries)
next
  case False
  then show ?thesis by (simp add: chain_at_entries ingest_alt entries_of_def)
qed

interpretation fold_log: keyed_log fold_inv chain_key_of "\<lambda>ob s. snd (ingest ob s)" chain_at chain_insert
  by unfold_locales (simp_all add: ingest_inv ingest_chain)

abbreviation ingest_all :: "observation list \<Rightarrow> fold_state" where
  "ingest_all obs \<equiv> fold (\<lambda>ob s. snd (ingest ob s)) obs fold_new"

lemma ingest_all_inv: "fold_inv (ingest_all obs)"
  by (rule fold_log.inv_adds) simp

lemma chain_at_new [simp]: "chain_at fold_new k = []"
  by (simp add: chain_at_def chain_def fold_new_def)

lemma ingest_all_chain:
  "chain_at (ingest_all obs) k = sort_key rev_order (numbered (filter (\<lambda>ob. chain_key_of ob = k) obs))"
  by (simp add: fold_log.log_adds chain_inserts)

lemma foldl_max: "foldl (\<lambda>m x. max m (f x)) (a::nat) es = Max (insert a (f ` set es))"
proof (induction es arbitrary: a)
  case (Cons e es)
  have "Max (insert (max a (f e)) (f ` set es)) = Max (insert a (insert (f e) (f ` set es)))"
    by (cases "es = []") (simp_all add: max.assoc)
  with Cons show ?case by simp
qed simp

lemma highest_revision_Max:
  "highest_revision s a l = (if chain s a l = [] then None else Some (Max (rv_revision ` set (chain s a l))))"
proof (cases "map_of (chains s) (a, l)")
  case (Some es)
  then show ?thesis
    by (cases es) (simp_all add: highest_revision_def chain_def foldl_max image_image)
qed (simp add: highest_revision_def chain_def)

lemma revisions_numbered: "rv_revision ` set (numbered obs) = {1..length obs}"
  by (auto simp: numbered_def image_iff) (metis One_nat_def Suc_le_D Suc_le_lessD atLeast0LessThan lessThan_iff)

section \<open>The live set\<close>

lemma map_of_map_filter:
  "distinct (map fst m) \<Longrightarrow>
   map_of (List.map_filter (\<lambda>(k, v). map_option (Pair k) (g v)) m) k = Option.bind (map_of m k) g"
proof (induction m)
  case (Cons p m)
  obtain k' v where p: "p = (k', v)" by fastforce
  have "map_of m k' = None" using Cons.prems p by (auto simp: map_of_eq_None_iff)
  with Cons p show ?case by (cases "g v") (auto simp: List.map_filter_simps)
qed (simp add: List.map_filter_simps)

lemma live_set_lookup:
  assumes "fold_inv s"
  shows "map_of (live_set s) k =
     (if chain_at s k = [] then None
      else if ob_state (rv_observation (last (chain_at s k))) = Active then Some (last (chain_at s k)) else None)"
proof -
  let ?g = "\<lambda>es. if es = [] then None
     else if ob_state (rv_observation (en_revisioned (last es))) = Active then Some (en_revisioned (last es)) else None"
  have "live_set s = List.map_filter (\<lambda>(k, v). map_option (Pair k) (?g v)) (chains s)"
    unfolding live_set_def Let_def by (rule arg_cong2 [of _ _ _ _ List.map_filter]) (auto simp: fun_eq_iff)
  then have "map_of (live_set s) k = Option.bind (map_of (chains s) k) ?g"
    using assms map_of_map_filter [of "chains s" ?g k] by (simp add: fold_inv_def keys_distinct_def)
  then show ?thesis
    by (cases k) (auto simp: chain_at_def chain_def last_map split: option.splits)
qed

section \<open>A concrete observation\<close>

definition sample_observation :: "string \<Rightarrow> observation_state \<Rightarrow> string \<Rightarrow> observation" where
  "sample_observation l st received =
     \<lparr>ob_resource_id = ''wallet'', ob_local_id = l, ob_provider_id = None, ob_supersedes_provider_id = None,
      ob_state = st, ob_tombstone_reason = None, ob_surface = ''s'', ob_posting = Posted,
      ob_amount = \<lparr>asset = AssetId ''sat'', units = 5, scale = 0\<rparr>, ob_fees = None,
      ob_raw_sign = ProviderPositive, ob_description = ''d'', ob_provider_extra = [],
      ob_provenance =
        \<lparr>pv_adapter_id = ''a1'', pv_provider_id = ''p'', pv_surface = ''s'',
         pv_observed_at = Rfc3339 received, pv_received_at = Rfc3339 received, pv_effective_at = None,
         pv_staleness = Live, pv_completeness = Complete\<rparr>\<rparr>"

section \<open>The properties\<close>

text \<open>
  C38. After any sequence of observations the chain of a record is the stable sort, by host
  receipt time and surface, of that record's observations numbered 1, 2, ... in their order of
  arrival: nothing is lost, no observation of another record has an effect, and arrival breaks
  ties.
\<close>

theorem chain_meets_spec:
  "chain (ingest_all obs) a l =
   sort_key rev_order (numbered (filter (\<lambda>ob. chain_key_of ob = (a, l)) obs))"
  using ingest_all_chain [of obs "(a, l)"] by (simp add: chain_at_def)

text \<open>
  Two orders of arrival that keep the order within every record build the same chains, the
  same highest revisions and the same live set.
\<close>

theorem arrival_interleaving:
  assumes "\<And>k. filter (\<lambda>ob. chain_key_of ob = k) obs = filter (\<lambda>ob. chain_key_of ob = k) obs'"
  shows "chain (ingest_all obs) a l = chain (ingest_all obs') a l \<and>
         highest_revision (ingest_all obs) a l = highest_revision (ingest_all obs') a l \<and>
         map_of (live_set (ingest_all obs)) k = map_of (live_set (ingest_all obs')) k"
proof -
  have eq: "chain_at (ingest_all obs) k = chain_at (ingest_all obs') k" for k
    by (rule fold_log.interleaving) (simp_all add: assms)
  then have "chain (ingest_all obs) a l = chain (ingest_all obs') a l"
    by (metis chain_at_def fst_conv snd_conv)
  then show ?thesis by (simp add: highest_revision_Max live_set_lookup ingest_all_inv eq)
qed

theorem arrival_interleaving_witness:
  "chain (ingest_all [sample_observation ''x'' Active ''t1'', sample_observation ''y'' Active ''t2'']) ''a1'' ''x'' =
   chain (ingest_all [sample_observation ''y'' Active ''t2'', sample_observation ''x'' Active ''t1'']) ''a1'' ''x''"
  by (rule arrival_interleaving [THEN conjunct1]) (auto simp: chain_key_of_def sample_observation_def)

text \<open>
  Revisions count the observations of a record: ingesting returns one more than there were,
  the chain holds each of 1 to n, and the highest revision is n.
\<close>

theorem revisions_count:
  "let n = length (filter (\<lambda>ob'. chain_key_of ob' = chain_key_of ob) obs);
       (a, l) = chain_key_of ob
   in fst (ingest ob (ingest_all obs)) = n + 1 \<and>
      rv_revision ` set (chain (ingest_all obs) a l) = {1..n} \<and>
      highest_revision (ingest_all obs) a l = (if n = 0 then None else Some n)"
proof -
  obtain a l where k: "chain_key_of ob = (a, l)" by fastforce
  let ?os = "filter (\<lambda>ob'. chain_key_of ob' = (a, l)) obs"
  have ch: "chain (ingest_all obs) a l = sort_key rev_order (numbered ?os)" by (rule chain_meets_spec)
  have "fst (ingest ob (ingest_all obs)) = length (chain (ingest_all obs) a l) + 1"
    by (simp add: ingest_def chain_def k Let_def split: option.splits)
  moreover have revs: "rv_revision ` set (chain (ingest_all obs) a l) = {1..length ?os}"
    unfolding ch set_sort by (rule revisions_numbered)
  moreover have "chain (ingest_all obs) a l = [] \<longleftrightarrow> length ?os = 0"
    unfolding ch by (metis length_0_conv length_numbered length_sort)
  moreover have "Max {1..length ?os} = length ?os" if "length ?os \<noteq> 0" using that
    by (intro Max_eqI) (auto simp: Suc_le_eq)
  ultimately show ?thesis unfolding Let_def k prod.case highest_revision_Max revs by (simp add: ch)
qed

text \<open>
  The live set holds exactly the records whose last entry in the fold's order is active,
  each with that entry: a tombstone takes a record out, a later active observation brings it
  back.
\<close>

theorem live_set_meets_spec:
  "map_of (live_set (ingest_all obs)) k =
     (case sort_key rev_order (numbered (filter (\<lambda>ob. chain_key_of ob = k) obs)) of
        [] \<Rightarrow> None
      | r # rs \<Rightarrow> if ob_state (rv_observation (last (r # rs))) = Active then Some (last (r # rs)) else None)"
  unfolding live_set_lookup [OF ingest_all_inv] ingest_all_chain by (simp split: list.split)

text \<open>A resumed read asks for the recorded continuation when the last page said the cursor
  is exact, and for the start of the read otherwise, whatever pages came before.\<close>

theorem resume_from:
  "next_request (fold (\<lambda>(r, n). resume_record r n) pages (resume_new start)) =
     (if pages \<noteq> [] \<and> fst (last pages) = Exact then snd (last pages) else start)"
proof (cases pages rule: rev_cases)
  case (snoc ps p)
  have st: "rm_start (fold (\<lambda>(r, n). resume_record r n) qs (resume_new start)) = start" for qs
    by (induction qs rule: rev_induct) (auto simp: resume_new_def resume_record_def Let_def)
  obtain r n where p: "p = (r, n)" by fastforce
  show ?thesis unfolding snoc p
    by (cases r) (simp_all add: next_request_def resume_record_def Let_def st)
qed (simp add: next_request_def resume_new_def)

end
