(* ===== verification/Mux.thy ===== *)
theory Mux
  imports Envelope
begin

text \<open>
  The host's request multiplexer (\<open>core/host/src/mux.rs\<close>) and the supervisor of the adapter
  process (\<open>core/host/src/process.rs\<close>). Every method takes its locks, runs, and releases them,
  so each is one step on the state; a oneshot channel is its request id, and sending on it
  appends to \<open>sent\<close>. What the runtime decides (which branch of a select is taken, whether a
  deadline has passed, what a write returned, what was read) is an argument of the step.
\<close>

section \<open>Slots, deliveries, terminals\<close>

datatype terminal = Crashed "int option" | Violation violation_kind

datatype delivery =
    Reply string rfc3339
  | CrashedDelivery "int option"
  | ViolationDelivery violation_kind

datatype host_error =
    Wire error_body
  | Timeout
  | AdapterCrashed "int option"
  | ProtocolViolation violation_kind
  | Spawn string
  | IdsExhausted

fun delivery_of :: "terminal \<Rightarrow> delivery" where
  "delivery_of (Crashed status) = CrashedDelivery status"
| "delivery_of (Violation kind) = ViolationDelivery kind"

fun host_error_of :: "terminal \<Rightarrow> host_error" where
  "host_error_of (Crashed status) = AdapterCrashed status"
| "host_error_of (Violation kind) = ProtocolViolation kind"

datatype slot = Pending | Tombstoned | Answered

datatype reply_outcome = Delivered | Discarded

datatype mux_violation = MuxUnknownId | MuxDuplicateId

fun kind_of :: "mux_violation \<Rightarrow> violation_kind" where
  "kind_of MuxUnknownId = UnknownId"
| "kind_of MuxDuplicateId = DuplicateId"

record mux =
  next_id :: "64 word"
  slots :: "(64 word, slot) hash_map"
  terminal :: "terminal option"
  verdict :: "violation_kind option"
  sent :: "(64 word \<times> delivery) list"

definition mux_new :: mux where
  "mux_new = \<lparr>next_id = 0, slots = [], terminal = None, verdict = None, sent = []\<rparr>"

section \<open>The operations\<close>

text \<open>\<open>issue\<close>: \<open>checked_add\<close> fails on the last id, before anything is stored.\<close>

definition issue :: "mux \<Rightarrow> request_id option \<times> mux" where
  "issue m =
     (let i = next_id m in
      if i = - 1 then (None, m)
      else (Some i, m\<lparr>next_id := i + 1, slots := AList.update i slot.Pending (slots m)\<rparr>))"

definition tombstone :: "request_id \<Rightarrow> mux \<Rightarrow> mux" where
  "tombstone i m =
     (if map_of (slots m) i = Some slot.Pending
      then m\<lparr>slots := AList.update i slot.Tombstoned (slots m)\<rparr> else m)"

definition deliver :: "request_id \<Rightarrow> string \<Rightarrow> rfc3339 \<Rightarrow> mux \<Rightarrow> (mux_violation + reply_outcome) \<times> mux" where
  "deliver i frame received_at m =
     (if next_id m \<le> i then (Inl MuxUnknownId, m)
      else case map_of (slots m) i of
             Some slot.Pending \<Rightarrow>
               (Inr Delivered,
                m\<lparr>slots := AList.update i slot.Answered (slots m),
                  sent := sent m @ [(i, Reply frame received_at)]\<rparr>)
           | Some slot.Tombstoned \<Rightarrow> (Inr Discarded, m)
           | Some slot.Answered \<Rightarrow> (Inl MuxDuplicateId, m)
           | None \<Rightarrow> (Inl MuxUnknownId, m))"

definition get_or_insert :: "'a \<Rightarrow> 'a option \<Rightarrow> 'a option" where
  "get_or_insert x c = (case c of None \<Rightarrow> Some x | Some y \<Rightarrow> Some y)"

definition answer_pending :: "slot \<Rightarrow> slot" where
  "answer_pending s = (if s = slot.Pending then slot.Answered else s)"

definition finish :: "terminal \<Rightarrow> mux \<Rightarrow> bool \<times> mux" where
  "finish reason m =
     (if terminal m \<noteq> None then (False, m)
      else
        let m = m\<lparr>terminal := Some reason\<rparr>;
            m = (case reason of Violation kind \<Rightarrow> m\<lparr>verdict := get_or_insert kind (verdict m)\<rparr> | _ \<Rightarrow> m);
            pending = map fst (filter (\<lambda>p. snd p = slot.Pending) (slots m));
            m = m\<lparr>slots := map (\<lambda>p. (fst p, answer_pending (snd p))) (slots m)\<rparr>
        in (True, m\<lparr>sent := sent m @ map (\<lambda>i. (i, delivery_of reason)) pending\<rparr>))"

definition record_violation :: "violation_kind \<Rightarrow> mux \<Rightarrow> mux" where
  "record_violation kind m = m\<lparr>verdict := get_or_insert kind (verdict m)\<rparr>"

definition with_violation_held :: "(violation_kind option \<Rightarrow> 'a) \<Rightarrow> mux \<Rightarrow> 'a" where
  "with_violation_held f m = f (verdict m)"

definition terminal_error :: "mux \<Rightarrow> host_error" where
  "terminal_error m =
     (case terminal m of Some t \<Rightarrow> host_error_of t | None \<Rightarrow> AdapterCrashed None)"

text \<open>
  One frame from the adapter. \<open>from_str\<close> is serde's JSON parser (\<open>serde_json::from_str\<close>); the body of the reply is not
  looked at (\<open>IgnoredAny\<close>).
\<close>

definition on_frame ::
  "(string \<Rightarrow> json option) \<Rightarrow> bool \<Rightarrow> string \<Rightarrow> rfc3339 \<Rightarrow> mux \<Rightarrow> bool \<times> (violation_kind + unit) \<times> mux" where
  "on_frame from_str hello_done frame received_at m =
     (case Option.bind (from_str frame) (\<lambda>j. res_ok (de_reply (\<lambda>_. Inr ()) j)) of
        None \<Rightarrow> (hello_done, Inl (if hello_done then NotJson else PreHelloOutput), m)
      | Some reply \<Rightarrow>
          if \<not> hello_done \<and> reply_id reply \<noteq> HELLO then (hello_done, Inl PreHelloOutput, m)
          else (case deliver (reply_id reply) frame received_at m of
                  (Inr _, m) \<Rightarrow> (True, Inr (), m)
                | (Inl v, m) \<Rightarrow> (True, Inl (kind_of v), m)))"

section \<open>The reader\<close>

text \<open>The kill channel holds one message; \<open>try_send\<close> on a full one drops the new message.\<close>

record connection =
  cn_mux :: mux
  cn_kill :: "violation_kind option option"

definition try_send :: "violation_kind option \<Rightarrow> connection \<Rightarrow> connection" where
  "try_send msg c = (if cn_kill c = None then c\<lparr>cn_kill := Some msg\<rparr> else c)"

definition classify :: "bool \<Rightarrow> violation_kind \<Rightarrow> violation_kind" where
  "classify hello_done kind = (if hello_done then kind else PreHelloOutput)"

definition fatal :: "violation_kind \<Rightarrow> connection \<Rightarrow> connection" where
  "fatal kind c = try_send (Some kind) (c\<lparr>cn_mux := record_violation kind (cn_mux c)\<rparr>)"

text \<open>
  The state of \<open>read_loop\<close>: its decoder, its flag and how many frames it has stamped (the
  clock reading of the n-th frame is \<open>clock n\<close>); or it has returned, and its locals are gone.
\<close>

datatype reader = Reading frame_decoder bool nat | Returned

definition reader_new :: reader where
  "reader_new = Reading decoder_new False 0"

text \<open>The loop over the frames of one read: \<^const>\<open>None\<close> is the return after a violation.\<close>

fun handle_frames ::
  "(string \<Rightarrow> json option) \<Rightarrow> (nat \<Rightarrow> rfc3339) \<Rightarrow> string list \<Rightarrow> bool \<times> nat \<Rightarrow> connection \<Rightarrow>
   (bool \<times> nat) option \<times> connection" where
  "handle_frames from_str clock [] (h, n) c = (Some (h, n), c)"
| "handle_frames from_str clock (frame # frames) (h, n) c =
     (case on_frame from_str h frame (clock n) (cn_mux c) of
        (h', res, m) \<Rightarrow>
          let c = c\<lparr>cn_mux := m\<rparr>
          in case res of
               Inl kind \<Rightarrow> (None, fatal kind c)
             | Inr _ \<Rightarrow> handle_frames from_str clock frames (h', n + 1) c)"

definition is_json_of :: "(string \<Rightarrow> json option) \<Rightarrow> string \<Rightarrow> bool" where
  "is_json_of from_str s \<longleftrightarrow> from_str s \<noteq> None"

text \<open>One iteration of the loop with the bytes of a successful read.\<close>

fun read_chunk ::
  "(string \<Rightarrow> json option) \<Rightarrow> (nat \<Rightarrow> rfc3339) \<Rightarrow> string \<Rightarrow> reader \<times> connection \<Rightarrow> reader \<times> connection" where
  "read_chunk from_str clock bytes (Returned, c) = (Returned, c)"
| "read_chunk from_str clock bytes (Reading d h n, c) =
     (case push (is_json_of from_str) bytes d [] of
        (d', frames, res) \<Rightarrow>
          (case handle_frames from_str clock frames (h, n) c of
             (None, c') \<Rightarrow> (Returned, c')
           | (Some (h', n'), c') \<Rightarrow>
               (case res of
                  Inl kind \<Rightarrow> (Returned, fatal (classify h' kind) c')
                | Inr _ \<Rightarrow> (Reading d' h' n', c'))))"

datatype read_event = Bytes string | Eof | ReadError

fun read_eof :: "reader \<times> connection \<Rightarrow> reader \<times> connection" where
  "read_eof (Returned, c) = (Returned, c)"
| "read_eof (Reading d h n, c) =
     (Returned, if 0 < pending_bytes d then fatal (classify h UnterminatedFrame) c else c)"

fun read_loop ::
  "(string \<Rightarrow> json option) \<Rightarrow> (nat \<Rightarrow> rfc3339) \<Rightarrow> read_event list \<Rightarrow> reader \<times> connection \<Rightarrow> reader \<times> connection" where
  "read_loop from_str clock [] s = s"
| "read_loop from_str clock (e # es) (Returned, c) = (Returned, c)"
| "read_loop from_str clock (Eof # es) (Reading d h n, c) = read_eof (Reading d h n, c)"
| "read_loop from_str clock (ReadError # es) (Reading d h n, c) = (Returned, c)"
| "read_loop from_str clock (Bytes bytes # es) (Reading d h n, c) =
     read_loop from_str clock es (read_chunk from_str clock bytes (Reading d h n, c))"

section \<open>The supervisor\<close>

text \<open>
  The two branches of \<open>supervise\<close>: the child exited (with the exit code, and whether the
  reader drained in time), or a kill message arrived first.
\<close>

definition supervise_exit :: "int option \<Rightarrow> bool \<Rightarrow> connection \<Rightarrow> connection" where
  "supervise_exit code drained c =
     (let t = (case cn_kill c of
                 Some (Some kind) \<Rightarrow> Violation kind
               | _ \<Rightarrow> if \<not> drained then Violation StdoutHeldOpen else Crashed code)
      in c\<lparr>cn_kill := None, cn_mux := snd (finish t (cn_mux c))\<rparr>)"

definition supervise_kill :: "connection \<Rightarrow> connection" where
  "supervise_kill c =
     (case cn_kill c of
        Some (Some kind) \<Rightarrow> c\<lparr>cn_kill := None, cn_mux := snd (finish (Violation kind) (cn_mux c))\<rparr>
      | _ \<Rightarrow> c\<lparr>cn_kill := None\<rparr>)"

text \<open>The tail of \<open>close\<close>: the supervisor in time, or one of the two close violations.\<close>

definition close_outcome :: "bool \<Rightarrow> bool \<Rightarrow> mux \<Rightarrow> terminal option \<times> mux" where
  "close_outcome supervised exited m =
     (let m = (if supervised then m
               else snd (finish (Violation (if exited then StdoutHeldOpen else StdinEofIgnored)) m))
      in (terminal m, m))"

section \<open>The pump\<close>

record queued_request =
  qr_op :: string
  qr_params :: json

text \<open>\<open>build_frame\<close>: \<open>to_text\<close> is serde's compact writer, with the text of its error.\<close>

definition build_frame :: "(json \<Rightarrow> string + string) \<Rightarrow> request_id \<Rightarrow> string \<Rightarrow> json \<Rightarrow> string + string" where
  "build_frame to_text i p params =
     map_sum id (\<lambda>t. t @ [LF]) (to_text (ser_request \<lparr>rq_id = i, rq_op = p, rq_params = params\<rparr>))"

text \<open>
  One pass of the loop of \<open>pump\<close>, cut where it awaits. Taking a request from the queue answers
  it at once if the connection is over or its deadline has passed; otherwise it waits for a
  permit (\<^const>\<open>None\<close>).
\<close>

definition pump_admit :: "bool \<Rightarrow> mux \<Rightarrow> host_error option" where
  "pump_admit expired m =
     (case terminal m of Some t \<Rightarrow> Some (host_error_of t)
      | None \<Rightarrow> if expired then Some Timeout else None)"

text \<open>The id and the frame of a request.\<close>

definition pump_issue ::
  "(json \<Rightarrow> string + string) \<Rightarrow> queued_request \<Rightarrow> mux \<Rightarrow> (host_error + request_id \<times> string) \<times> mux" where
  "pump_issue to_text rq m =
     (case issue m of
        (None, m) \<Rightarrow> (Inl IdsExhausted, m)
      | (Some i, m) \<Rightarrow>
          (case build_frame to_text i (qr_op rq) (qr_params rq) of
             Inl e \<Rightarrow> (Inl (Wire (error_body_new Internal
                        (''could not serialize '' @ qr_op rq @ '' request: '' @ e))), m)
           | Inr line \<Rightarrow> (Inr (i, line), m)))"

text \<open>With the permit (or none, if the semaphore is closed), the same checks again, then the
  id and the frame.\<close>

definition pump_send ::
  "(json \<Rightarrow> string + string) \<Rightarrow> bool \<Rightarrow> bool \<Rightarrow> queued_request \<Rightarrow> mux \<Rightarrow> (host_error + request_id \<times> string) \<times> mux" where
  "pump_send to_text permit expired rq m =
     (if \<not> permit then (Inl (terminal_error m), m)
      else case pump_admit expired m of
             Some e \<Rightarrow> (Inl e, m)
           | None \<Rightarrow> pump_issue to_text rq m)"

datatype write_outcome = Written | WriteFailed | WriteTimedOut

text \<open>
  What follows the write. A write error goes on as if written: the exit of the process is what
  reports it. A write that never finished may have sent half a frame, so the connection ends,
  and the pump with it.
\<close>

definition pump_written :: "request_id \<Rightarrow> write_outcome \<Rightarrow> connection \<Rightarrow> host_error option \<times> connection" where
  "pump_written i w c =
     (case w of
        WriteTimedOut \<Rightarrow>
          (let c = try_send None (c\<lparr>cn_mux := tombstone i (cn_mux c)\<rparr>)
           in (Some Timeout, c\<lparr>cn_mux := snd (finish (Crashed None) (cn_mux c))\<rparr>))
      | _ \<Rightarrow> (None, c))"

text \<open>The task that waits for one reply: what the channel gave, or the deadline.\<close>

datatype wait_outcome = Received delivery | SenderDropped | Elapsed

definition await_reply :: "request_id \<Rightarrow> wait_outcome \<Rightarrow> mux \<Rightarrow> (host_error + string \<times> rfc3339) \<times> mux" where
  "await_reply i w m =
     (case w of
        Received (Reply frame received_at) \<Rightarrow> (Inr (frame, received_at), m)
      | Received (CrashedDelivery status) \<Rightarrow> (Inl (AdapterCrashed status), m)
      | Received (ViolationDelivery kind) \<Rightarrow> (Inl (ProtocolViolation kind), m)
      | SenderDropped \<Rightarrow> (Inl (terminal_error m), m)
      | Elapsed \<Rightarrow> (Inl Timeout, tombstone i m))"

definition extra_permits :: "nat \<Rightarrow> nat" where
  "extra_permits max_in_flight = max_in_flight - 1"

end
