(* ===== verification/Mux_Correct.thy ===== *)
theory Mux_Correct
  imports Mux Envelope_Correct Framing_Correct
begin

text \<open>
  The multiplexer as a state machine: every state reachable by its operations, in any order,
  keeps one slot per issued id and sends each request at most one answer; the verdict and the
  terminal are latches; and what the reader does to a connection is a function of the bytes of
  the stream, not of how they were read.
\<close>

section \<open>The state machine\<close>

inductive mux_step :: "mux \<Rightarrow> mux \<Rightarrow> bool" where
  Issue: "mux_step m (snd (issue m))"
| Tombstone: "mux_step m (tombstone i m)"
| Deliver: "mux_step m (snd (deliver i frame received_at m))"
| Finish: "mux_step m (snd (finish reason m))"
| Record: "mux_step m (record_violation kind m)"

inductive mux_steps :: "mux \<Rightarrow> mux \<Rightarrow> bool" where
  Refl: "mux_steps m m"
| Step: "mux_steps m m' \<Longrightarrow> mux_step m' m'' \<Longrightarrow> mux_steps m m''"

definition reachable :: "mux \<Rightarrow> bool" where
  "reachable m \<longleftrightarrow> mux_steps mux_new m"

inductive_cases mux_stepE: "mux_step m m'"

definition answered_ids :: "mux \<Rightarrow> request_id set" where
  "answered_ids m = fst ` set (sent m)"

definition mux_inv :: "mux \<Rightarrow> bool" where
  "mux_inv m \<longleftrightarrow>
     keys_distinct (slots m) \<and> dom (map_of (slots m)) = {i. i < next_id m} \<and>
     distinct (map fst (sent m)) \<and>
     (\<forall>i. i \<in> answered_ids m \<longleftrightarrow> map_of (slots m) i = Some slot.Answered) \<and>
     (\<forall>kind. terminal m = Some (Violation kind) \<longrightarrow> verdict m \<noteq> None)"

lemma mux_invD:
  assumes "mux_inv m"
  shows "keys_distinct (slots m)" and "map_of (slots m) i = None \<longleftrightarrow> next_id m \<le> i"
    and "distinct (map fst (sent m))" and "i \<in> answered_ids m \<longleftrightarrow> map_of (slots m) i = Some slot.Answered"
    and "terminal m = Some (Violation kind) \<Longrightarrow> verdict m \<noteq> None"
proof -
  have "map_of (slots m) i \<noteq> None \<longleftrightarrow> i < next_id m"
    using assms unfolding mux_inv_def by (metis domIff mem_Collect_eq)
  then show "map_of (slots m) i = None \<longleftrightarrow> next_id m \<le> i" by (auto simp: not_less)
qed (use assms in \<open>auto simp: mux_inv_def\<close>)

lemma get_or_insert_simps [simp]:
  "get_or_insert x c \<noteq> None" "get_or_insert x (Some y) = Some y" "get_or_insert x None = Some x"
  by (simp_all add: get_or_insert_def split: option.split)

lemma mux_inv_new: "mux_inv mux_new"
  by (auto simp: mux_inv_def mux_new_def answered_ids_def)

lemma word_succ_less: "(i :: 64 word) \<noteq> - 1 \<Longrightarrow> j < i + 1 \<longleftrightarrow> j < i \<or> j = i"
proof -
  assume i: "i \<noteq> - 1"
  have "uint (- 1 :: 64 word) = 2 ^ 64 - 1" by (simp add: unsigned_minus_1_eq_mask mask_eq_exp_minus_1)
  then have "uint i \<noteq> 2 ^ 64 - 1" using i by (metis word_uint_eq_iff)
  moreover have "uint i < 2 ^ 64" using uint_bounded [of i] by simp
  ultimately have "uint i + 1 < 2 ^ 64" by simp
  then have "uint (i + 1) = uint i + 1" by (simp add: uint_word_ariths)
  then show ?thesis by (auto simp: word_less_def word_uint_eq_iff)
qed

section \<open>Every operation keeps the invariant\<close>

lemma issue_inv: "mux_inv m \<Longrightarrow> mux_inv (snd (issue m))"
proof -
  assume m: "mux_inv m"
  have "map_of (slots m) (next_id m) = None" using mux_invD(2) [OF m] by simp
  then have "next_id m \<notin> answered_ids m" using mux_invD(4) [OF m] by simp
  with m show ?thesis
    by (auto simp: issue_def Let_def mux_inv_def answered_ids_def word_succ_less)
qed

lemma tombstone_inv: "mux_inv m \<Longrightarrow> mux_inv (tombstone i m)"
proof (cases "map_of (slots m) i = Some slot.Pending")
  case True
  assume m: "mux_inv m"
  then have "i < next_id m" using mux_invD(2) [OF m, of i] True by (simp add: not_le [symmetric])
  with m True show ?thesis by (auto simp: tombstone_def mux_inv_def answered_ids_def)
qed (simp add: tombstone_def)

lemma deliver_inv: "mux_inv m \<Longrightarrow> mux_inv (snd (deliver i frame received_at m))"
proof (cases "\<not> next_id m \<le> i \<and> map_of (slots m) i = Some slot.Pending")
  case True
  assume m: "mux_inv m"
  have "i \<notin> answered_ids m" using mux_invD(4) [OF m, of i] True by simp
  with m True show ?thesis
    by (auto simp: deliver_def mux_inv_def answered_ids_def not_le)
qed (auto simp: deliver_def split: option.splits slot.splits)

lemma map_of_mapped: "map_of (map (\<lambda>p. (fst p, f (snd p))) xs) k = map_option f (map_of xs k)"
  by (induction xs) auto

definition pending_ids :: "mux \<Rightarrow> request_id list" where
  "pending_ids m = map fst (filter (\<lambda>p. snd p = slot.Pending) (slots m))"

lemma pending_ids: "mux_inv m \<Longrightarrow> i \<in> set (pending_ids m) \<longleftrightarrow> map_of (slots m) i = Some slot.Pending"
  using mux_invD(1) [of m] by (force simp: pending_ids_def keys_distinct_def image_iff)

lemma distinct_pending: "mux_inv m \<Longrightarrow> distinct (pending_ids m)"
  using mux_invD(1) [of m] by (simp add: pending_ids_def keys_distinct_def distinct_map_filter)

lemma finish_alt:
  "terminal m = None \<Longrightarrow> finish reason m =
     (True, m\<lparr>terminal := Some reason,
        verdict := (case reason of Violation kind \<Rightarrow> get_or_insert kind (verdict m) | _ \<Rightarrow> verdict m),
        slots := map (\<lambda>p. (fst p, answer_pending (snd p))) (slots m),
        sent := sent m @ map (\<lambda>i. (i, delivery_of reason)) (pending_ids m)\<rparr>)"
  by (simp add: finish_def Let_def pending_ids_def split: terminal.split)

lemma finish_inv: "mux_inv m \<Longrightarrow> mux_inv (snd (finish reason m))"
proof (cases "terminal m")
  case None
  assume m: "mux_inv m"
  let ?m = "snd (finish reason m)"
  have sl: "map_of (slots ?m) i = map_option answer_pending (map_of (slots m) i)" for i
    unfolding finish_alt [OF None] by (simp add: map_of_mapped)
  have ai: "answered_ids ?m = answered_ids m \<union> set (pending_ids m)"
    by (force simp: finish_alt [OF None] answered_ids_def)
  have "keys_distinct (slots ?m)"
    using mux_invD(1) [OF m] by (simp add: finish_alt [OF None] keys_distinct_def comp_def)
  moreover have "dom (map_of (slots ?m)) = {i. i < next_id ?m}"
    using m unfolding sl by (simp add: finish_alt [OF None] mux_inv_def dom_def)
  moreover have "set (map fst (sent m)) \<inter> set (pending_ids m) = {}"
  proof -
    have "i \<notin> set (pending_ids m)" if "i \<in> answered_ids m" for i
      using that pending_ids [OF m, of i] mux_invD(4) [OF m, of i] by simp
    then show ?thesis by (auto simp: answered_ids_def)
  qed
  then have "distinct (map fst (sent ?m))"
    using mux_invD(3) [OF m] distinct_pending [OF m] by (simp add: finish_alt [OF None] comp_def del: set_map)
  moreover have "i \<in> answered_ids ?m \<longleftrightarrow> map_of (slots ?m) i = Some slot.Answered" for i
    unfolding sl ai using pending_ids [OF m, of i] mux_invD(4) [OF m, of i]
    by (cases "map_of (slots m) i") (auto simp: answer_pending_def)
  moreover have "verdict ?m \<noteq> None" if "terminal ?m = Some (Violation kind)" for kind
    using that by (simp add: finish_alt [OF None])
  ultimately show ?thesis unfolding mux_inv_def by blast
qed (simp add: finish_def)

lemma record_inv: "mux_inv m \<Longrightarrow> mux_inv (record_violation kind m)"
  by (auto simp: record_violation_def mux_inv_def answered_ids_def)

lemma step_inv: "mux_step m m' \<Longrightarrow> mux_inv m \<Longrightarrow> mux_inv m'"
  by (erule mux_step.cases) (simp_all add: issue_inv tombstone_inv deliver_inv finish_inv record_inv)

lemma steps_inv: "mux_steps m m' \<Longrightarrow> mux_inv m \<Longrightarrow> mux_inv m'"
  by (induction rule: mux_steps.induct) (simp_all add: step_inv)

lemma reachable_inv: "reachable m \<Longrightarrow> mux_inv m"
  unfolding reachable_def using steps_inv mux_inv_new by blast

section \<open>The two latches\<close>

interpretation verdict_latch: latch verdict record_violation
  by unfold_locales (simp_all add: record_violation_def)

interpretation terminal_latch: latch terminal "\<lambda>reason m. snd (finish reason m)"
  by unfold_locales (simp_all add: finish_alt, simp add: finish_def)

lemma step_verdict: "mux_step m m' \<Longrightarrow> verdict m = Some kind \<Longrightarrow> verdict m' = Some kind"
  by (erule mux_step.cases)
    (auto simp: issue_def tombstone_def deliver_def finish_def record_violation_def Let_def
      split: option.splits slot.splits terminal.splits)

lemma step_terminal: "mux_step m m' \<Longrightarrow> terminal m = Some t \<Longrightarrow> terminal m' = Some t"
  by (erule mux_step.cases)
    (auto simp: issue_def tombstone_def deliver_def finish_def record_violation_def Let_def
      split: option.splits slot.splits terminal.splits)

lemma step_sent: "mux_step m m' \<Longrightarrow> \<exists>more. sent m' = sent m @ more"
  by (erule mux_step.cases)
    (auto simp: issue_def tombstone_def deliver_def finish_def record_violation_def Let_def
      split: option.splits slot.splits terminal.splits)

lemma steps_keep:
  "mux_steps m m' \<Longrightarrow>
   (\<forall>kind. verdict m = Some kind \<longrightarrow> verdict m' = Some kind) \<and>
   (\<forall>t. terminal m = Some t \<longrightarrow> terminal m' = Some t) \<and> (\<exists>more. sent m' = sent m @ more)"
proof (induction rule: mux_steps.induct)
  case (Step m m' m'')
  then show ?case using step_verdict [OF Step(2)] step_terminal [OF Step(2)] step_sent [OF Step(2)] by auto
qed simp


section \<open>The reader\<close>

lemma push_loop_out:
  "push_loop is_json chunk d (pre @ out) =
     (case push_loop is_json chunk d out of (d', out', r) \<Rightarrow> (d', pre @ out', r))"
  by (induction is_json chunk d out arbitrary: pre rule: push_loop.induct)
    (auto simp: Let_def split: sum.splits prod.splits)

lemma push_out:
  "push is_json chunk d out = (case push is_json chunk d [] of (d', out', r) \<Rightarrow> (d', out @ out', r))"
  using push_loop_out [of is_json chunk d out "[]"] by (simp add: push_def split: option.splits)

lemma push_append:
  "push is_json (xs @ ys) d [] =
     (case push is_json xs d [] of (d', out, r) \<Rightarrow>
        (case push is_json ys d' [] of (d'', out', r') \<Rightarrow> (d'', out @ out', r')))"
proof (cases "violation d")
  case None
  have "push is_json (xs @ ys) d [] = (case push is_json xs d [] of (d', out, _) \<Rightarrow> push is_json ys d' out)"
    using None by (simp add: push_def push_loop_append split: prod.splits)
  then show ?thesis by (simp add: push_out [of is_json ys _ "fst (snd _)"] split: prod.splits)
    (metis push_out prod.simps(2))
next
  case (Some kind)
  then show ?thesis by (simp add: push_def)
qed

lemma handle_frames_append:
  "handle_frames from_str clock (fs @ gs) hn c =
     (case handle_frames from_str clock fs hn c of
        (None, c') \<Rightarrow> (None, c')
      | (Some hn', c') \<Rightarrow> handle_frames from_str clock gs hn' c')"
  by (induction from_str clock fs hn c rule: handle_frames.induct)
    (auto simp: Let_def split: prod.splits sum.splits)

definition reader_ok :: "reader \<times> connection \<Rightarrow> bool" where
  "reader_ok s \<longleftrightarrow> (case fst s of Reading d h n \<Rightarrow> violation d = None | Returned \<Rightarrow> True)"

lemma push_ok_none: "push is_json bytes d out = (d', out', Inr u) \<Longrightarrow> violation d' = None"
  using push_result [of is_json bytes d out d' out' "Inr u"] by (auto split: option.splits)

lemma push_after_violation:
  "push is_json bytes d out = (d', out', Inl kind) \<Longrightarrow> push is_json bs d' [] = (d', [], Inl kind)"
  using push_result [of is_json bytes d out d' out' "Inl kind"] by (auto simp: push_def split: option.splits)

lemma read_chunk_ok: "reader_ok s \<Longrightarrow> reader_ok (read_chunk from_str clock bytes s)"
  by (induction from_str clock bytes s rule: read_chunk.induct)
    (auto simp: reader_ok_def dest: push_ok_none split: prod.splits option.splits sum.splits)

interpretation reader: incremental reader_ok "read_chunk from_str clock" for from_str clock
proof
  fix s :: "reader \<times> connection" and xs ys :: string
  assume ok: "reader_ok s"
  then show "reader_ok (read_chunk from_str clock xs s)" by (rule read_chunk_ok)
  obtain r c where s: "s = (r, c)" by fastforce
  show "read_chunk from_str clock [] s = s"
    using ok by (cases r) (auto simp: s reader_ok_def push_def)
  show "read_chunk from_str clock (xs @ ys) s = read_chunk from_str clock ys (read_chunk from_str clock xs s)"
  proof (cases r)
    case (Reading d h n)
    obtain d1 fs res where p: "push (is_json_of from_str) xs d [] = (d1, fs, res)" by (metis prod_cases3)
    obtain d2 gs res' where q: "push (is_json_of from_str) ys d1 [] = (d2, gs, res')" by (metis prod_cases3)
    have pq: "push (is_json_of from_str) (xs @ ys) d [] = (d2, fs @ gs, res')"
      by (simp add: push_append p q)
    obtain o1 c1 where h1: "handle_frames from_str clock fs (h, n) c = (o1, c1)" by fastforce
    show ?thesis
    proof (cases res)
      case (Inl kind)
      then have "d2 = d1" "gs = []" "res' = Inl kind"
        using push_after_violation [OF p [unfolded Inl], of ys] q by simp_all
      then show ?thesis using p pq h1 Inl by (simp add: s Reading split: option.split)
    next
      case (Inr u)
      then show ?thesis
        using p q pq h1 by (cases o1) (auto simp: s Reading handle_frames_append split: prod.splits option.splits)
    qed
  qed (simp add: s)
qed

lemma read_loop_bytes:
  "read_loop from_str clock (map Bytes chunks @ es) s =
   read_loop from_str clock es (fold (read_chunk from_str clock) chunks s)"
proof (induction chunks arbitrary: s)
  case (Cons b chunks)
  obtain r c where s: "s = (r, c)" by fastforce
  have ret: "fold (read_chunk from_str clock) bs (Returned, c) = (Returned, c)" for bs by (induction bs) simp_all
  have rl: "read_loop from_str clock es' (Returned, c) = (Returned, c)" for es' by (cases es') simp_all
  show ?case using Cons by (cases r) (simp_all add: s ret rl)
qed simp

lemma read_loop_eof: "read_loop from_str clock [Eof] s = read_eof s"
  by (cases s; cases "fst s") auto

section \<open>A violation wins\<close>

lemma fatal_simps:
  "cn_kill (fatal kind c) = (if cn_kill c = None then Some (Some kind) else cn_kill c)"
  "verdict (cn_mux (fatal kind c)) = get_or_insert kind (verdict (cn_mux c))"
  "terminal (cn_mux (fatal kind c)) = terminal (cn_mux c)"
  by (simp_all add: fatal_def try_send_def record_violation_def)

text \<open>What the reader keeps true of a connection nobody else touches: the kill message, the
  verdict and the return belong together.\<close>

definition reader_state :: "reader \<times> connection \<Rightarrow> bool" where
  "reader_state s \<longleftrightarrow>
     terminal (cn_mux (snd s)) = None \<and>
     (case cn_kill (snd s) of
        None \<Rightarrow> verdict (cn_mux (snd s)) = None
      | Some msg \<Rightarrow> (\<exists>kind. msg = Some kind \<and> verdict (cn_mux (snd s)) = Some kind) \<and> fst s = Returned)"

lemma on_frame_keeps:
  "on_frame from_str h frame t m = (h', res, m') \<Longrightarrow> terminal m' = terminal m \<and> verdict m' = verdict m"
  by (auto simp: on_frame_def deliver_def split: option.splits prod.splits sum.splits if_splits slot.splits)

lemma handle_frames_state:
  "handle_frames from_str clock fs hn c = (res, c') \<Longrightarrow>
   terminal (cn_mux c) = None \<Longrightarrow> cn_kill c = None \<Longrightarrow> verdict (cn_mux c) = None \<Longrightarrow>
   terminal (cn_mux c') = None \<and>
   (case res of Some _ \<Rightarrow> cn_kill c' = None \<and> verdict (cn_mux c') = None
    | None \<Rightarrow> \<exists>kind. cn_kill c' = Some (Some kind) \<and> verdict (cn_mux c') = Some kind)"
proof (induction from_str clock fs hn c arbitrary: res c' rule: handle_frames.induct)
  case (2 from_str clock frame frames h n c)
  obtain h' r m where o: "on_frame from_str h frame (clock n) (cn_mux c) = (h', r, m)" by (metis prod_cases3)
  show ?case
  proof (cases r)
    case (Inl kind)
    then have "res = None" "c' = fatal kind (c\<lparr>cn_mux := m\<rparr>)" using 2(2) o by (simp_all add: Let_def)
    then show ?thesis using 2(3-5) on_frame_keeps [OF o] by (simp add: fatal_simps)
  next
    case (Inr u)
    then have "handle_frames from_str clock frames (h', n + 1) (c\<lparr>cn_mux := m\<rparr>) = (res, c')"
      using 2(2) o by (simp add: Let_def)
    then show ?thesis by (rule 2(1) [OF o [symmetric] refl refl Inr]) (use 2(3-5) on_frame_keeps [OF o] in simp_all)
  qed
qed auto

lemma read_chunk_state: "reader_state s \<Longrightarrow> reader_state (read_chunk from_str clock bytes s)"
proof (induction from_str clock bytes s rule: read_chunk.induct)
  case (2 from_str clock bytes d h n c)
  then have c: "terminal (cn_mux c) = None" "cn_kill c = None" "verdict (cn_mux c) = None"
    by (auto simp: reader_state_def split: option.splits)
  obtain d' fs res where p: "push (is_json_of from_str) bytes d [] = (d', fs, res)" by (metis prod_cases3)
  obtain o1 c' where h: "handle_frames from_str clock fs (h, n) c = (o1, c')" by fastforce
  note st = handle_frames_state [OF h c]
  show ?case
  proof (cases o1)
    case None
    with st p h show ?thesis by (auto simp: reader_state_def)
  next
    case (Some hn)
    with st p h show ?thesis by (cases hn; cases res) (auto simp: reader_state_def fatal_simps)
  qed
qed simp

lemma read_eof_state: "reader_state s \<Longrightarrow> reader_state (read_eof s)"
  by (induction s rule: read_eof.induct) (auto simp: reader_state_def fatal_simps split: option.splits)

lemma read_loop_state: "reader_state s \<Longrightarrow> reader_state (read_loop from_str clock es s)"
proof (induction from_str clock es s rule: read_loop.induct)
  case (5 from_str clock bytes es d h n c)
  show ?case unfolding read_loop.simps by (rule 5(1) [OF read_chunk_state [OF 5(2)]])
next
  case (3 from_str clock es d h n c)
  then show ?case using read_eof_state [of "(Reading d h n, c)"] by simp
qed (auto simp: reader_state_def split: option.splits)


lemma step1: "mux_step m m' \<Longrightarrow> mux_steps m m'"
  by (rule mux_steps.Step [OF mux_steps.Refl])

lemma issued_steps: "mux_steps mux_new (snd (issue mux_new))"
  by (rule step1) (rule mux_step.Issue)

section \<open>The properties\<close>

text \<open>
  In every state reachable by the multiplexer's operations in any order, a slot exists for
  exactly the issued ids, no request has been sent two answers, and the requests that have been
  sent one are exactly those whose slot is answered.
\<close>

theorem at_most_one_answer:
  assumes "mux_steps mux_new m"
  shows "dom (map_of (slots m)) = {i. i < next_id m} \<and> distinct (map fst (sent m)) \<and>
         fst ` set (sent m) = {i. map_of (slots m) i = Some slot.Answered}"
proof -
  have inv: "mux_inv m" using assms reachable_inv unfolding reachable_def by blast
  show ?thesis using inv unfolding mux_inv_def answered_ids_def by blast
qed

theorem at_most_one_answer_witness:
  "distinct (map fst (sent (snd (deliver 0 ''x'' (Rfc3339 ''t'') (snd (issue mux_new))))))"
  by (rule at_most_one_answer [THEN conjunct2, THEN conjunct1])
    (rule mux_steps.Step [OF issued_steps], rule mux_step.Deliver)

text \<open>
  What a reply for an id does is decided by the id's past alone: an id never issued and an
  id already answered are violations, an id given up on is discarded, and any other issued id
  gets its answer, after which a second reply for it is a violation.
\<close>

theorem deliver_by_history:
  assumes "mux_steps mux_new m"
  shows "fst (deliver i frame t m) =
           (if next_id m \<le> i then Inl MuxUnknownId
            else if i \<in> fst ` set (sent m) then Inl MuxDuplicateId
            else if map_of (slots m) i = Some slot.Tombstoned then Inr Discarded
            else Inr Delivered) \<and>
         (if fst (deliver i frame t m) = Inr Delivered
          then sent (snd (deliver i frame t m)) = sent m @ [(i, Reply frame t)] \<and>
               fst (deliver i frame' t' (snd (deliver i frame t m))) = Inl MuxDuplicateId
          else snd (deliver i frame t m) = m)"
proof -
  have inv: "mux_inv m" using assms reachable_inv unfolding reachable_def by blast
  have none: "map_of (slots m) i = None \<longleftrightarrow> next_id m \<le> i" using mux_invD(2) [OF inv] .
  have ans: "i \<in> fst ` set (sent m) \<longleftrightarrow> map_of (slots m) i = Some slot.Answered"
    using mux_invD(4) [OF inv, of i] by (simp add: answered_ids_def)
  show ?thesis
  proof (cases "map_of (slots m) i")
    case None
    then show ?thesis using none by (simp add: deliver_def)
  next
    case (Some sl)
    then have "\<not> next_id m \<le> i" using none by simp
    then show ?thesis using Some ans by (cases sl) (simp_all add: deliver_def)
  qed
qed

theorem deliver_by_history_witness:
  "fst (deliver 0 ''x'' (Rfc3339 ''t'') (snd (issue mux_new))) = Inr Delivered"
proof -
  from deliver_by_history [OF issued_steps, of 0 "''x''" "Rfc3339 ''t''"] show ?thesis
    by (simp add: issue_def mux_new_def)
qed

text \<open>
  Ending the connection for the first time answers exactly the requests that were still
  pending, each once and with the reason, leaves no request pending, and publishes a violation
  as the verdict; ending it again changes nothing.
\<close>

theorem finish_answers_all:
  assumes "mux_steps mux_new m"
  shows "case terminal m of
           Some t \<Rightarrow> finish reason m = (False, m)
         | None \<Rightarrow>
             fst (finish reason m) \<and> terminal (snd (finish reason m)) = Some reason \<and>
             (\<forall>i. map_of (slots (snd (finish reason m))) i \<noteq> Some slot.Pending) \<and>
             (\<exists>is. distinct is \<and> set is = {i. map_of (slots m) i = Some slot.Pending} \<and>
                   sent (snd (finish reason m)) = sent m @ map (\<lambda>i. (i, delivery_of reason)) is) \<and>
             verdict (snd (finish reason m)) =
               (case reason of Violation kind \<Rightarrow> get_or_insert kind (verdict m) | _ \<Rightarrow> verdict m)"
proof (cases "terminal m")
  case None
  have inv: "mux_inv m" using assms reachable_inv unfolding reachable_def by blast
  have "map_of (slots (snd (finish reason m))) i \<noteq> Some slot.Pending" for i
  proof -
    have "map_of (slots (snd (finish reason m))) i = map_option answer_pending (map_of (slots m) i)"
      by (simp add: finish_alt [OF None] map_of_mapped)
    then show ?thesis by (cases "map_of (slots m) i") (simp_all add: answer_pending_def)
  qed
  moreover have "\<exists>is. distinct is \<and> set is = {i. map_of (slots m) i = Some slot.Pending} \<and>
      sent (snd (finish reason m)) = sent m @ map (\<lambda>i. (i, delivery_of reason)) is"
    using distinct_pending [OF inv] pending_ids [OF inv]
    by (intro exI [of _ "pending_ids m"]) (auto simp: finish_alt [OF None])
  ultimately show ?thesis using None by (simp add: finish_alt [OF None] split: terminal.split)
qed (simp add: finish_def)

theorem finish_answers_all_witness:
  "\<exists>is. distinct is \<and> set is = {i. map_of (slots (snd (issue mux_new))) i = Some slot.Pending} \<and>
     sent (snd (finish (Crashed None) (snd (issue mux_new)))) = map (\<lambda>i. (i, CrashedDelivery None)) is"
proof -
  from finish_answers_all [OF issued_steps, of "Crashed None"] show ?thesis
    by (simp add: issue_def mux_new_def)
qed

text \<open>
  Ids are never reused: issuing gives an id above every issued one, and when the last
  64-bit id would be needed it refuses and changes nothing, so the counter never wraps.
\<close>

theorem ids_never_reused:
  assumes "mux_steps mux_new m"
  shows "case issue m of
           (None, m') \<Rightarrow> next_id m = - 1 \<and> m' = m
         | (Some i, m') \<Rightarrow>
             map_of (slots m) i = None \<and> (\<forall>j\<in>dom (map_of (slots m)). j < i) \<and> i < next_id m' \<and>
             slots m' = AList.update i slot.Pending (slots m)"
proof -
  have inv: "mux_inv m" using assms reachable_inv unfolding reachable_def by blast
  then have "dom (map_of (slots m)) = {i. i < next_id m}" by (simp add: mux_inv_def)
  then show ?thesis
    using mux_invD(2) [OF inv, of "next_id m"] word_succ_less [of "next_id m" "next_id m"]
    by (auto simp: issue_def Let_def)
qed

theorem ids_never_reused_witness:
  "case issue (snd (issue mux_new)) of (None, m') \<Rightarrow> False | (Some i, m') \<Rightarrow> (0 :: 64 word) < i"
proof -
  from ids_never_reused [OF issued_steps] show ?thesis
    by (auto simp: issue_def mux_new_def split: prod.splits option.splits)
qed

text \<open>
  The two facts about how a connection ended are latches over any further steps: a verdict
  and a terminal, once there, never change, and no answer already sent is taken back or sent
  again; a connection that ended with a violation has a verdict.
\<close>

theorem verdict_and_terminal_latch:
  assumes "mux_steps mux_new m" and "mux_steps m m'"
  shows "(case verdict m of None \<Rightarrow> True | Some kind \<Rightarrow> verdict m' = Some kind) \<and>
         (case terminal m of None \<Rightarrow> True | Some t \<Rightarrow> terminal m' = Some t) \<and>
         (\<exists>more. sent m' = sent m @ more) \<and>
         (case terminal m' of Some (Violation kind) \<Rightarrow> verdict m' \<noteq> None | _ \<Rightarrow> True)"
proof -
  have "mux_inv m'" using assms steps_inv reachable_inv unfolding reachable_def by blast
  then show ?thesis
    using steps_keep [OF assms(2)] mux_invD(5) [of m']
    by (auto split: option.splits terminal.splits)
qed

theorem verdict_and_terminal_latch_witness:
  "verdict (record_violation NotJson (record_violation DuplicateId mux_new)) = Some DuplicateId"
proof -
  let ?m = "record_violation DuplicateId mux_new"
  have "mux_steps mux_new ?m" "mux_steps ?m (record_violation NotJson ?m)"
    by (rule step1, rule mux_step.Record)+
  from verdict_and_terminal_latch [OF this] show ?thesis
    by (simp add: record_violation_def mux_new_def)
qed

text \<open>
  What a connection sees of the adapter's output is a function of the bytes: reading the
  stream in any chunks and then its end is reading it in one chunk and then its end, with the
  same frames stamped, the same replies delivered and the same violation.
\<close>

theorem reader_ignores_chunking:
  "read_loop from_str clock (map Bytes chunks @ [Eof]) (reader_new, c) =
   read_eof (read_chunk from_str clock (concat chunks) (reader_new, c))"
proof -
  have ok: "reader_ok (reader_new, c)" by (simp add: reader_ok_def reader_new_def decoder_new_def)
  show ?thesis unfolding read_loop_bytes read_loop_eof reader.consume_pieces [OF ok] ..
qed

text \<open>
  A violation the reader established is how the connection ends, whatever exit code the
  process left and whether or not the reader drained in time; without one, a drained exit is a
  crash with the exit code, and an undrained one is output held open.
\<close>

theorem violation_outranks_exit:
  "let c = \<lparr>cn_mux = m\<lparr>terminal := None, verdict := None\<rparr>, cn_kill = None\<rparr>;
       c' = snd (read_loop from_str clock events (reader_new, c))
   in terminal (cn_mux (supervise_exit code drained c')) =
        Some (case verdict (cn_mux c') of
                Some kind \<Rightarrow> Violation kind
              | None \<Rightarrow> if drained then Crashed code else Violation StdoutHeldOpen)"
proof -
  let ?c = "\<lparr>cn_mux = m\<lparr>terminal := None, verdict := None\<rparr>, cn_kill = None\<rparr>"
  have "reader_state (reader_new, ?c)" by (simp add: reader_state_def)
  then have st: "reader_state (read_loop from_str clock events (reader_new, ?c))" by (rule read_loop_state)
  then show ?thesis
    unfolding Let_def reader_state_def supervise_exit_def
    by (auto simp: finish_alt split: option.splits)
qed

end
