(* ===== verification/Host.thy ===== *)
theory Host
  imports Mux
begin

text \<open>
  The adapter handle (\<open>core/host/src/lib.rs\<close>): the handshake, the typed calls, and what the
  host checks and stamps in their replies. A call's transport is \<open>Mux\<close>; here its
  result is an argument. \<open>from_str\<close> is serde's parser with \<open>err_text\<close> the text of the error it
  or a typed reader reports, and \<open>to_vec\<close> the length of serde's compact writing of a value.
\<close>

section \<open>Messages\<close>

text \<open>Debug formatting of a string, with the escapes of quotes, backslashes and the usual
  control characters (other unprintable characters are not modelled).\<close>

definition dbg_char :: "char \<Rightarrow> string" where
  "dbg_char c =
     (if c = CHR 0x22 then [CHR 0x5C, CHR 0x22]
      else if c = CHR 0x5C then [CHR 0x5C, CHR 0x5C]
      else if c = CHR 0x0A then [CHR 0x5C, CHR ''n'']
      else if c = CHR 0x0D then [CHR 0x5C, CHR ''r'']
      else if c = CHR 0x09 then [CHR 0x5C, CHR ''t'']
      else if c = CHR 0x00 then [CHR 0x5C, CHR ''0'']
      else [c])"

definition dbg :: "string \<Rightarrow> string" where
  "dbg s = CHR 0x22 # concat (map dbg_char s) @ [CHR 0x22]"

definition malformed :: "string \<Rightarrow> string \<Rightarrow> host_error" where
  "malformed op detail = Wire (error_body_new InvalidRequest (''malformed '' @ op @ '' reply: '' @ detail))"

section \<open>Typed calls\<close>

definition decode_reply ::
  "(string \<Rightarrow> json option) \<Rightarrow> (string \<Rightarrow> string) \<Rightarrow> (json \<Rightarrow> de_error + 'r) \<Rightarrow> string \<Rightarrow>
   string \<times> rfc3339 \<Rightarrow> host_error + 'r \<times> rfc3339" where
  "decode_reply from_str err_text f op call =
     (case call of (frame, received_at) \<Rightarrow>
        (case Option.bind (from_str frame) (\<lambda>j. res_ok (de_reply f j)) of
           None \<Rightarrow> Inl (malformed op (err_text frame))
         | Some (ReplyErr _ e) \<Rightarrow> Inl (Wire e)
         | Some (ReplyOk _ x) \<Rightarrow> Inr (x, received_at)))"

text \<open>\<open>result\<close> is what \<open>Mux::call\<close> returned.\<close>

definition call_typed_with_receipt ::
  "(string \<Rightarrow> json option) \<Rightarrow> (string \<Rightarrow> string) \<Rightarrow> (json \<Rightarrow> de_error + 'r) \<Rightarrow> string \<Rightarrow>
   host_error + string \<times> rfc3339 \<Rightarrow> host_error + 'r \<times> rfc3339" where
  "call_typed_with_receipt from_str err_text f op result = res_bind result (decode_reply from_str err_text f op)"

section \<open>The text of an error\<close>

text \<open>The text of a host error: \<open>Display\<close>, with the derived \<open>Debug\<close> names it uses.\<close>

fun code_debug :: "wire_error_code \<Rightarrow> string" where
  "code_debug UnsupportedProtocol = ''UnsupportedProtocol''"
| "code_debug Unsupported = ''Unsupported''"
| "code_debug InvalidRequest = ''InvalidRequest''"
| "code_debug NotReady = ''NotReady''"
| "code_debug Internal = ''Internal''"

fun kind_debug :: "violation_kind \<Rightarrow> string" where
  "kind_debug OversizeFrame = ''OversizeFrame''"
| "kind_debug NonUtf8 = ''NonUtf8''"
| "kind_debug NotJson = ''NotJson''"
| "kind_debug UnterminatedFrame = ''UnterminatedFrame''"
| "kind_debug UnknownId = ''UnknownId''"
| "kind_debug DuplicateId = ''DuplicateId''"
| "kind_debug PreHelloOutput = ''PreHelloOutput''"
| "kind_debug StdinEofIgnored = ''StdinEofIgnored''"
| "kind_debug StdoutHeldOpen = ''StdoutHeldOpen''"

fun host_error_text :: "host_error \<Rightarrow> string" where
  "host_error_text (Wire e) = ''adapter error '' @ code_debug (eb_code e) @ '': '' @ eb_message e"
| "host_error_text Timeout = ''request timed out''"
| "host_error_text (AdapterCrashed None) = ''adapter crashed (status None)''"
| "host_error_text (AdapterCrashed (Some n)) = ''adapter crashed (status Some('' @ show_int n @ ''))''"
| "host_error_text (ProtocolViolation k) = ''protocol violation: '' @ kind_debug k"
| "host_error_text (Spawn s) = ''could not spawn adapter: '' @ s"
| "host_error_text IdsExhausted = ''adapter connection ran out of request ids''"

section \<open>The handshake\<close>

definition OFFERED_PROTOCOLS :: "string list" where "OFFERED_PROTOCOLS = [''1'']"

text \<open>
  \<open>spawn_impl\<close> after the hello call: a failure of any kind also sends a kill (the second
  component), success gives the extra permits.
\<close>

definition handshake ::
  "(string \<Rightarrow> json option) \<Rightarrow> (string \<Rightarrow> string) \<Rightarrow> host_error + string \<times> rfc3339 \<Rightarrow>
   (host_error + hello_reply \<times> nat) \<times> bool" where
  "handshake from_str err_text result =
     (case result of
        Inl e \<Rightarrow> (Inl e, True)
      | Inr call \<Rightarrow>
          (case decode_reply from_str err_text de_hello_reply OP_HELLO call of
             Inl e \<Rightarrow> (Inl e, True)
           | Inr (hello, _) \<Rightarrow>
               if hr_protocol hello \<notin> set OFFERED_PROTOCOLS then
                 (Inl (Wire (with_detail (JObj [(''offered'', JArr (map JStr OFFERED_PROTOCOLS))])
                    (error_body_new UnsupportedProtocol
                       (''adapter selected protocol '' @ dbg (hr_protocol hello) @ '', which was not offered'')))),
                  True)
               else (Inr (hello, extra_permits (max (hr_max_in_flight hello) 1)), False)))"

section \<open>Statuses\<close>

fun outcome_staleness :: "read_outcome \<Rightarrow> staleness" where
  "outcome_staleness (Stale _) = Cached"
| "outcome_staleness read_outcome.Unavailable = staleness.Unavailable"
| "outcome_staleness Gone = staleness.Unavailable"
| "outcome_staleness (Fetched _) = Live"
| "outcome_staleness NotFetched = Live"
| "outcome_staleness (RateLimited _) = Live"
| "outcome_staleness ReauthRequired = Live"
| "outcome_staleness Revoked = Live"
| "outcome_staleness ScaRequired = Live"

definition staleness_by_resource :: "resource_status list \<Rightarrow> (string, staleness) hash_map" where
  "staleness_by_resource statuses =
     foldl (\<lambda>m s. AList.update (rs_resource_id s) (outcome_staleness (rs_outcome s)) m) [] statuses"

definition staleness_for :: "(string, staleness) hash_map \<Rightarrow> string \<Rightarrow> staleness" where
  "staleness_for m r = (case map_of m r of Some s \<Rightarrow> s | None \<Rightarrow> staleness.Unavailable)"

fun coverage_seen :: "string \<Rightarrow> resource_status list \<Rightarrow> string list \<Rightarrow> host_error + string list" where
  "coverage_seen op [] seen = Inr seen"
| "coverage_seen op (s # ss) seen =
     (if rs_resource_id s \<in> set seen
      then Inl (malformed op (''resource '' @ dbg (rs_resource_id s) @
                  '' appears in `statuses` more than once; every requested resource_id appears in `statuses` exactly once''))
      else coverage_seen op ss (rs_resource_id s # seen))"

definition check_status_coverage :: "string \<Rightarrow> string list \<Rightarrow> resource_status list \<Rightarrow> host_error + unit" where
  "check_status_coverage op requested statuses =
     res_bind (coverage_seen op statuses []) (\<lambda>seen.
       case List.find (\<lambda>r. r \<notin> set seen) requested of
         Some r \<Rightarrow> Inl (malformed op (''resource '' @ dbg r @
                     '' was requested and does not appear in `statuses` at all; every requested resource_id appears in `statuses` exactly once''))
       | None \<Rightarrow> Inr ())"

section \<open>The size cap\<close>


fun report_oversized :: "resource_status list \<Rightarrow> string \<Rightarrow> string option \<Rightarrow> nat \<Rightarrow> resource_status list" where
  "report_oversized [] r l n = []"
| "report_oversized (s # ss) r l n =
     (if rs_resource_id s = r
      then s\<lparr>rs_degraded := rs_degraded s @ [\<lparr>dg_local_id = l, dg_bytes = u64_of_usize n\<rparr>]\<rparr> # ss
      else s # report_oversized ss r l n)"

text \<open>\<open>usize::MAX\<close> stands for the length of what cannot be written.\<close>

definition usize_max :: nat where "usize_max = 2 ^ 64 - 1"

definition written_bytes :: "(json \<Rightarrow> nat option) \<Rightarrow> json \<Rightarrow> nat" where
  "written_bytes to_vec j = (case to_vec j of Some n \<Rightarrow> n | None \<Rightarrow> usize_max)"

fun drop_oversized ::
  "('o \<Rightarrow> nat) \<Rightarrow> ('o \<Rightarrow> bool) \<Rightarrow> ('o \<Rightarrow> string \<times> string option) \<Rightarrow> 'o list \<Rightarrow> resource_status list \<Rightarrow>
   'o list \<times> resource_status list" where
  "drop_oversized bytes measured key [] statuses = ([], statuses)"
| "drop_oversized bytes measured key (x # xs) statuses =
     (if \<not> measured x \<or> bytes x \<le> MAX_OBSERVATION_BYTES then
        (case drop_oversized bytes measured key xs statuses of (kept, ss) \<Rightarrow> (x # kept, ss))
      else drop_oversized bytes measured key xs
             (report_oversized statuses (fst (key x)) (snd (key x)) (bytes x)))"

section \<open>The reads\<close>

record host_balances =
  br_observations :: "balance list"
  br_statuses :: "resource_status list"

record host_history =
  hrd_observations :: "observation list"
  hrd_statuses :: "resource_status list"

definition status_read ::
  "(string \<Rightarrow> json option) \<Rightarrow> (string \<Rightarrow> string) \<Rightarrow> string list \<Rightarrow> host_error + string \<times> rfc3339 \<Rightarrow>
   host_error + resource_status list" where
  "status_read from_str err_text ids result =
     res_bind (call_typed_with_receipt from_str err_text de_status_read_reply OP_STATUS_READ result) (\<lambda>(statuses, _).
     res_bind (check_status_coverage OP_STATUS_READ ids statuses) (\<lambda>_. Inr statuses))"

definition balances_read ::
  "(string \<Rightarrow> json option) \<Rightarrow> (string \<Rightarrow> string) \<Rightarrow> (json \<Rightarrow> nat option) \<Rightarrow> string \<Rightarrow> string list \<Rightarrow>
   host_error + string \<times> rfc3339 \<Rightarrow> host_error + host_balances" where
  "balances_read from_str err_text to_vec own ids result =
     res_bind (call_typed_with_receipt from_str err_text de_balances_read_reply OP_BALANCES_READ result)
       (\<lambda>((obs, statuses), received_at).
     res_bind (check_status_coverage OP_BALANCES_READ ids statuses) (\<lambda>_.
     case List.find (\<lambda>b. pw_adapter_id (bw_provenance b) \<noteq> own) obs of
       Some b \<Rightarrow> Inl (malformed OP_BALANCES_READ (''a balance for resource '' @ dbg (bw_resource_id b) @
                   '' names adapter_id '' @ dbg (pw_adapter_id (bw_provenance b)) @
                   '' on the connection that announced '' @ dbg own))
     | None \<Rightarrow>
         (case List.find (\<lambda>b. bw_resource_id b \<notin> set ids) obs of
            Some b \<Rightarrow> Inl (malformed OP_BALANCES_READ (''a balance for resource '' @ dbg (bw_resource_id b) @
                        '', which this call did not request''))
          | None \<Rightarrow>
              (case drop_oversized (\<lambda>b. written_bytes to_vec (ser_balance_wire b)) (\<lambda>_. True)
                      (\<lambda>b. (bw_resource_id b, None)) obs statuses of
                 (kept, ss) \<Rightarrow>
                   Inr \<lparr>br_observations =
                          map (\<lambda>w. balance_stamp w received_at
                                     (staleness_for (staleness_by_resource statuses) (bw_resource_id w))) kept,
                        br_statuses = ss\<rparr>))))"

definition history_read ::
  "(string \<Rightarrow> json option) \<Rightarrow> (string \<Rightarrow> string) \<Rightarrow> (json \<Rightarrow> nat option) \<Rightarrow> string \<Rightarrow> resource_query list \<Rightarrow>
   host_error + string \<times> rfc3339 \<Rightarrow> host_error + host_history" where
  "history_read from_str err_text to_vec own queries result =
     res_bind (call_typed_with_receipt from_str err_text de_history_read_reply OP_HISTORY_READ result)
       (\<lambda>((obs, statuses), received_at).
     res_bind (check_status_coverage OP_HISTORY_READ (map qy_resource_id queries) statuses) (\<lambda>_.
       case drop_oversized (\<lambda>w. written_bytes to_vec (ser_observation_wire w))
              (\<lambda>w. pw_adapter_id (ow_provenance w) = own)
              (\<lambda>w. (ow_resource_id w, Some (ow_local_id w))) obs statuses of
         (kept, ss) \<Rightarrow>
           Inr \<lparr>hrd_observations =
                  map (\<lambda>w. observation_stamp w received_at
                             (staleness_for (staleness_by_resource statuses) (ow_resource_id w))) kept,
                hrd_statuses = ss\<rparr>))"

end
