(* ===== verification/Host_Correct.thy ===== *)
theory Host_Correct
  imports Host Mux_Correct
begin

text \<open>
  What a read returns, stated over the decoded reply: exactly when it is refused, which
  observations are kept, what each is stamped with, and where a dropped one is reported.
\<close>

section \<open>Coverage\<close>

lemma coverage_seen_iff:
  "coverage_seen op ss seen = Inr seen' \<longleftrightarrow>
     distinct (map rs_resource_id ss) \<and> set (map rs_resource_id ss) \<inter> set seen = {} \<and>
     seen' = rev (map rs_resource_id ss) @ seen"
  by (induction op ss seen rule: coverage_seen.induct) (auto split: if_splits)

definition covers :: "string list \<Rightarrow> resource_status list \<Rightarrow> bool" where
  "covers requested statuses \<longleftrightarrow>
     distinct (map rs_resource_id statuses) \<and> set requested \<subseteq> set (map rs_resource_id statuses)"

lemma check_status_coverage_iff:
  "check_status_coverage op requested statuses = Inr u \<longleftrightarrow> covers requested statuses"
proof (cases "coverage_seen op statuses []")
  case (Inl e)
  then have "\<not> distinct (map rs_resource_id statuses)"
    using coverage_seen_iff [of op statuses "[]"] by auto
  with Inl show ?thesis by (simp add: check_status_coverage_def covers_def)
next
  case (Inr seen)
  then have d: "distinct (map rs_resource_id statuses)" and s: "set seen = set (map rs_resource_id statuses)"
    unfolding coverage_seen_iff by auto
  show ?thesis
  proof (cases "List.find (\<lambda>r. r \<notin> set seen) requested")
    case None
    then have "set requested \<subseteq> set seen" by (auto simp: find_None_iff)
    with None Inr d s show ?thesis by (simp add: check_status_coverage_def covers_def)
  next
    case (Some r)
    then have "r \<in> set requested" "r \<notin> set seen" using find_SomeD by fast+
    with Some Inr s show ?thesis by (auto simp: check_status_coverage_def covers_def)
  qed
qed

section \<open>Staleness\<close>

definition staleness_of :: "resource_status list \<Rightarrow> string \<Rightarrow> staleness" where
  "staleness_of statuses r =
     (case List.find (\<lambda>s. rs_resource_id s = r) statuses of
        Some s \<Rightarrow> outcome_staleness (rs_outcome s) | None \<Rightarrow> staleness.Unavailable)"

lemma staleness_foldl:
  "distinct (map rs_resource_id ss) \<Longrightarrow>
   map_of (foldl (\<lambda>m s. AList.update (rs_resource_id s) (outcome_staleness (rs_outcome s)) m) m ss) r =
     (case List.find (\<lambda>s. rs_resource_id s = r) ss of
        Some s \<Rightarrow> Some (outcome_staleness (rs_outcome s)) | None \<Rightarrow> map_of m r)"
proof (induction ss arbitrary: m)
  case (Cons s ss)
  show ?case
  proof (cases "rs_resource_id s = r")
    case True
    with Cons.prems have "List.find (\<lambda>s. rs_resource_id s = r) ss = None"
      by (fastforce simp: find_None_iff image_iff)
    with True Cons show ?thesis by simp
  next
    case False
    with Cons show ?thesis by (simp split: option.split)
  qed
qed simp

lemma staleness_lookup:
  "distinct (map rs_resource_id ss) \<Longrightarrow> staleness_for (staleness_by_resource ss) r = staleness_of ss r"
  by (simp add: staleness_for_def staleness_by_resource_def staleness_of_def staleness_foldl split: option.split)

section \<open>The cap\<close>

definition degrade :: "('o \<Rightarrow> nat) \<Rightarrow> ('o \<Rightarrow> string \<times> string option) \<Rightarrow> 'o \<Rightarrow> degraded" where
  "degrade bytes key x = \<lparr>dg_local_id = snd (key x), dg_bytes = u64_of_usize (bytes x)\<rparr>"

definition oversized :: "('o \<Rightarrow> nat) \<Rightarrow> ('o \<Rightarrow> bool) \<Rightarrow> 'o \<Rightarrow> bool" where
  "oversized bytes measured x \<longleftrightarrow> measured x \<and> MAX_OBSERVATION_BYTES < bytes x"

definition add_degraded :: "(string \<Rightarrow> degraded list) \<Rightarrow> resource_status \<Rightarrow> resource_status" where
  "add_degraded f s = s\<lparr>rs_degraded := rs_degraded s @ f (rs_resource_id s)\<rparr>"

lemma add_degraded_id [simp]: "rs_resource_id (add_degraded f s) = rs_resource_id s"
  "add_degraded (\<lambda>_. []) s = s"
  by (simp_all add: add_degraded_def)

lemma report_oversized_map:
  "distinct (map rs_resource_id ss) \<Longrightarrow>
   report_oversized ss r l n =
     map (add_degraded (\<lambda>r'. if r' = r then [\<lparr>dg_local_id = l, dg_bytes = u64_of_usize n\<rparr>] else [])) ss"
proof (induction ss r l n rule: report_oversized.induct)
  case (2 s ss r l n)
  show ?case
  proof (cases "rs_resource_id s = r")
    case True
    with 2(2) have "map (add_degraded (\<lambda>r'. if r' = r then [\<lparr>dg_local_id = l, dg_bytes = u64_of_usize n\<rparr>] else [])) ss = ss"
      by (intro map_idI) (fastforce simp: add_degraded_def image_iff)
    moreover have "add_degraded (\<lambda>r'. if r' = r then [\<lparr>dg_local_id = l, dg_bytes = u64_of_usize n\<rparr>] else []) s =
        s\<lparr>rs_degraded := rs_degraded s @ [\<lparr>dg_local_id = l, dg_bytes = u64_of_usize n\<rparr>]\<rparr>"
      using True by (simp add: add_degraded_def)
    ultimately show ?thesis using True by simp
  next
    case False
    with 2 show ?thesis by (simp add: add_degraded_def)
  qed
qed simp

lemma add_degraded_compose:
  "add_degraded g (add_degraded f s) = add_degraded (\<lambda>r. f r @ g r) s"
  by (simp add: add_degraded_def)

lemma drop_oversized_spec:
  "distinct (map rs_resource_id ss) \<Longrightarrow>
   drop_oversized bytes measured key xs ss =
     (filter (\<lambda>x. \<not> oversized bytes measured x) xs,
      map (add_degraded (\<lambda>r. map (degrade bytes key)
             (filter (\<lambda>x. oversized bytes measured x \<and> fst (key x) = r) xs))) ss)"
proof (induction bytes measured key xs ss rule: drop_oversized.induct)
  case (2 bytes measured key x xs ss)
  show ?case
  proof (cases "oversized bytes measured x")
    case True
    let ?ss = "report_oversized ss (fst (key x)) (snd (key x)) (bytes x)"
    have c: "\<not> (\<not> measured x \<or> bytes x \<le> MAX_OBSERVATION_BYTES)" using True by (auto simp: oversized_def)
    have "distinct (map rs_resource_id ?ss)" using 2(3) by (simp add: report_oversized_map comp_def)
    note ih = 2(2) [OF c this]
    show ?thesis
      unfolding drop_oversized.simps if_not_P [OF c] ih
      using True by (simp add: report_oversized_map [OF 2(3)] add_degraded_compose degrade_def)
        (intro ballI arg_cong2 [of _ _ _ _ add_degraded] ext; simp add: degrade_def)
  next
    case False
    then have c: "\<not> measured x \<or> bytes x \<le> MAX_OBSERVATION_BYTES" by (auto simp: oversized_def)
    from 2(1) [OF c 2(3)] c False show ?thesis by simp
  qed
next
  case (1 bytes measured key ss)
  have "map (add_degraded (\<lambda>r. [])) ss = ss" by (rule map_idI) simp
  then show ?case by simp
qed

section \<open>The reads\<close>

definition reply_body :: "(string \<Rightarrow> json option) \<Rightarrow> (json \<Rightarrow> de_error + 'r) \<Rightarrow> string \<Rightarrow> 'r option" where
  "reply_body from_str f frame =
     (case Option.bind (from_str frame) (\<lambda>j. res_ok (de_reply f j)) of
        Some (ReplyOk _ x) \<Rightarrow> Some x | _ \<Rightarrow> None)"

lemma call_typed_iff:
  "call_typed_with_receipt from_str err_text f op result = Inr (x, t) \<longleftrightarrow>
   (\<exists>frame. result = Inr (frame, t) \<and> reply_body from_str f frame = Some x)"
proof (cases result)
  case (Inr p)
  obtain frame' t' where p: "p = (frame', t')" by fastforce
  show ?thesis
    by (cases "Option.bind (from_str frame') (\<lambda>j. res_ok (de_reply f j))")
      (auto simp: Inr p call_typed_with_receipt_def decode_reply_def reply_body_def split: reply.splits)
qed (simp add: call_typed_with_receipt_def)

definition balances_result :: "(json \<Rightarrow> nat option) \<Rightarrow> rfc3339 \<Rightarrow> balance_wire list \<Rightarrow> resource_status list \<Rightarrow> host_balances" where
  "balances_result to_vec t obs sts =
     (let bytes = \<lambda>w. written_bytes to_vec (ser_balance_wire w); big = \<lambda>w. MAX_OBSERVATION_BYTES < bytes w in
      \<lparr>br_observations = map (\<lambda>w. balance_stamp w t (staleness_of sts (bw_resource_id w))) (filter (\<lambda>w. \<not> big w) obs),
       br_statuses = map (add_degraded (\<lambda>rid.
         map (\<lambda>w. \<lparr>dg_local_id = None, dg_bytes = u64_of_usize (bytes w)\<rparr>)
           (filter (\<lambda>w. big w \<and> bw_resource_id w = rid) obs))) sts\<rparr>)"

definition history_result ::
  "(json \<Rightarrow> nat option) \<Rightarrow> string \<Rightarrow> rfc3339 \<Rightarrow> observation_wire list \<Rightarrow> resource_status list \<Rightarrow> host_history" where
  "history_result to_vec own t obs sts =
     (let bytes = \<lambda>w. written_bytes to_vec (ser_observation_wire w);
          big = \<lambda>w. pw_adapter_id (ow_provenance w) = own \<and> MAX_OBSERVATION_BYTES < bytes w in
      \<lparr>hrd_observations = map (\<lambda>w. observation_stamp w t (staleness_of sts (ow_resource_id w))) (filter (\<lambda>w. \<not> big w) obs),
       hrd_statuses = map (add_degraded (\<lambda>rid.
         map (\<lambda>w. \<lparr>dg_local_id = Some (ow_local_id w), dg_bytes = u64_of_usize (bytes w)\<rparr>)
           (filter (\<lambda>w. big w \<and> ow_resource_id w = rid) obs))) sts\<rparr>)"

lemma history_tail:
  assumes "covers (map qy_resource_id queries) sts"
  shows "(case drop_oversized (\<lambda>w. written_bytes to_vec (ser_observation_wire w))
              (\<lambda>w. pw_adapter_id (ow_provenance w) = own)
              (\<lambda>w. (ow_resource_id w, Some (ow_local_id w))) obs sts of
         (kept, ss) \<Rightarrow> Inr
           \<lparr>hrd_observations =
                  map (\<lambda>w. observation_stamp w t
                             (staleness_for (staleness_by_resource sts) (ow_resource_id w))) kept,
                hrd_statuses = ss\<rparr>) = Inr r \<longleftrightarrow> r = history_result to_vec own t obs sts"
  using assms unfolding covers_def
  by (auto simp: drop_oversized_spec staleness_lookup degrade_def [abs_def] oversized_def history_result_def Let_def)

lemma balances_tail:
  assumes c: "covers ids sts"
  shows "(case List.find (\<lambda>b. pw_adapter_id (bw_provenance b) \<noteq> own) obs of
       Some b \<Rightarrow> Inl (malformed OP_BALANCES_READ (''a balance for resource '' @ dbg (bw_resource_id b) @
                   '' names adapter_id '' @ dbg (pw_adapter_id (bw_provenance b)) @
                   '' on the connection that announced '' @ dbg own))
     | None \<Rightarrow>
         (case List.find (\<lambda>b. bw_resource_id b \<notin> set ids) obs of
            Some b \<Rightarrow> Inl (malformed OP_BALANCES_READ (''a balance for resource '' @ dbg (bw_resource_id b) @
                        '', which this call did not request''))
          | None \<Rightarrow>
              (case drop_oversized (\<lambda>b. written_bytes to_vec (ser_balance_wire b)) (\<lambda>_. True)
                      (\<lambda>b. (bw_resource_id b, None)) obs sts of
                 (kept, ss) \<Rightarrow>
                   Inr \<lparr>br_observations =
                          map (\<lambda>w. balance_stamp w t
                                     (staleness_for (staleness_by_resource sts) (bw_resource_id w))) kept,
                        br_statuses = ss\<rparr>))) = Inr r \<longleftrightarrow>
      list_all (\<lambda>b. pw_adapter_id (bw_provenance b) = own \<and> bw_resource_id b \<in> set ids) obs \<and>
      r = balances_result to_vec t obs sts"
proof (cases "List.find (\<lambda>b. pw_adapter_id (bw_provenance b) \<noteq> own) obs")
  case (Some b)
  then show ?thesis using find_SomeD [OF Some] by (auto simp: list_all_iff)
next
  case f1: None
  then have own: "\<forall>b\<in>set obs. pw_adapter_id (bw_provenance b) = own" by (auto simp: find_None_iff)
  show ?thesis
  proof (cases "List.find (\<lambda>b. bw_resource_id b \<notin> set ids) obs")
    case (Some b)
    then show ?thesis using find_SomeD [OF Some] f1 by (auto simp: list_all_iff)
  next
    case None
    then have "\<forall>b\<in>set obs. bw_resource_id b \<in> set ids" by (auto simp: find_None_iff)
    then show ?thesis using c own f1 None unfolding covers_def
      by (auto simp: list_all_iff drop_oversized_spec staleness_lookup degrade_def [abs_def] oversized_def balances_result_def Let_def)
  qed
qed

lemma history_read_iff:
  "history_read from_str err_text to_vec own queries result = Inr r \<longleftrightarrow>
   (\<exists>frame t obs sts. result = Inr (frame, t) \<and> reply_body from_str de_history_read_reply frame = Some (obs, sts) \<and>
      covers (map qy_resource_id queries) sts \<and> r = history_result to_vec own t obs sts)"
  unfolding history_read_def call_typed_iff res_bind_Inr_iff split_paired_Ex prod.case check_status_coverage_iff
  using history_tail by blast

lemma balances_read_iff:
  "balances_read from_str err_text to_vec own ids result = Inr r \<longleftrightarrow>
   (\<exists>frame t obs sts. result = Inr (frame, t) \<and> reply_body from_str de_balances_read_reply frame = Some (obs, sts) \<and>
      covers ids sts \<and> list_all (\<lambda>b. pw_adapter_id (bw_provenance b) = own \<and> bw_resource_id b \<in> set ids) obs \<and>
      r = balances_result to_vec t obs sts)"
  unfolding balances_read_def call_typed_iff res_bind_Inr_iff split_paired_Ex prod.case check_status_coverage_iff
  using balances_tail by blast

section \<open>The properties\<close>

text \<open>
  C39. A history read succeeds exactly if the call returned a frame whose body is a history
  reply and whose statuses name every requested resource, no resource twice. It then returns
  every observation of the reply in order, stamped with the receipt time and the staleness of
  its resource's status, except the connection's own observations over the size cap, each of
  which is added to the degrades of its resource's status and to nothing else.
\<close>

theorem history_read_meets_spec:
  "history_read from_str err_text to_vec own queries result = Inr r \<longleftrightarrow>
   (\<exists>frame t obs sts. result = Inr (frame, t) \<and> reply_body from_str de_history_read_reply frame = Some (obs, sts) \<and>
      covers (map qy_resource_id queries) sts \<and> r = history_result to_vec own t obs sts)"
  by (rule history_read_iff)

text \<open>
  A balances read succeeds exactly under the same condition and if moreover every balance
  line of the reply is the connection's own and of a requested resource; the size cap is then
  applied to each line.
\<close>

theorem balances_read_meets_spec:
  "balances_read from_str err_text to_vec own ids result = Inr r \<longleftrightarrow>
   (\<exists>frame t obs sts. result = Inr (frame, t) \<and> reply_body from_str de_balances_read_reply frame = Some (obs, sts) \<and>
      covers ids sts \<and> list_all (\<lambda>b. pw_adapter_id (bw_provenance b) = own \<and> bw_resource_id b \<in> set ids) obs \<and>
      r = balances_result to_vec t obs sts)"
  by (rule balances_read_iff)

end
