(* ===== verification/Store.thy ===== *)
theory Store
  imports Host
begin

text \<open>
  The profile database of the store crate (\<open>core/store/src/store.rs\<close>, \<open>schema.rs\<close>,
  \<open>error.rs\<close>). A table is the list of its rows in the order of their ids, and every function
  below is the SQL of the source function of its name, on lists: \<open>ORDER BY\<close> is a stable
  sort, \<open>LIMIT\<close> a prefix, a \<open>UNIQUE\<close> or \<open>REFERENCES\<close> clause a check that refuses the statement.
  Rows are never deleted, so a new row gets the id after the largest one. Integer columns that
  hold a flag are Booleans. Failures of the disk and of SQLite itself are not modelled.

  \<open>value_text\<close> is serde's compact writer and \<open>from_str\<close> its parser.
\<close>

section \<open>Errors\<close>

text \<open>
  The messages of \<open>CorruptRow\<close> are reduced to what they report; the adapter's and the usage
  errors keep their text.
\<close>

datatype sqlite_error = UniqueConstraint | ForeignKey | NoRows | TableExists

datatype corrupt =
    BadTimestamp string
  | BadEnum string
  | BadRevision int
  | BadRetraction int

datatype store_error =
    Sqlite sqlite_error
  | StoreIo
  | StoreJson
  | StoreMoney money_error
  | StoreHost string
  | ProfileLocked string
  | NoProfile string
  | SchemaVersion string int int
  | CorruptRow corrupt
  | Usage string

section \<open>Rows\<close>

definition USER_VERSION :: int where "USER_VERSION = 3"

record adapter_rec =
  at_adapter_id :: string
  at_argv :: string
  at_derivation :: "string option"
  at_needs_reauth :: bool
  at_balance_read :: int

record adapter_row =
  ar_adapter_id :: string
  ar_argv :: "string list"
  ar_derivation :: "string option"
  ar_needs_reauth :: bool

record resource_row =
  sr_adapter_id :: string
  sr_resource_id :: string
  sr_kind :: string
  sr_label :: string
  sr_fingerprint :: "string option"
  sr_last_provider_id :: "string option"

record crawl_row =
  cw_crawl_id :: int
  cw_adapter_id :: string
  cw_resource_id :: string
  cw_started_at :: string
  cw_start_page :: "string option"
  cw_next_page :: "string option"
  cw_derivation :: string
  cw_fingerprint :: "string option"
  cw_drained :: bool
  cw_complete :: bool
  cw_disqualified_reason :: "string option"

text \<open>The columns of an observation row that the code reads, and the one it selects by.\<close>

record raw_observation =
  ro_observation_id :: int
  ro_revision :: int
  ro_crawl_id :: int
  ro_last_seen_crawl :: int
  ro_derivation :: string
  ro_fingerprint :: "string option"
  ro_content_hash :: string
  ro_resource_id :: string
  ro_local_id :: string
  ro_provider_id :: "string option"
  ro_supersedes_provider_id :: "string option"
  ro_state :: string
  ro_tombstone_reason :: "string option"
  ro_surface :: string
  ro_posting :: string
  ro_amount_asset :: string
  ro_amount :: string
  ro_fees_asset :: "string option"
  ro_fees :: "string option"
  ro_raw_sign :: string
  ro_description :: string
  ro_provider_extra :: string
  ro_prov_adapter_id :: string
  ro_prov_provider_id :: string
  ro_prov_surface :: string
  ro_observed_at :: string
  ro_effective_at :: "string option"
  ro_completeness :: string
  ro_received_at :: string
  ro_staleness :: string

record observation_rec =
  or_adapter_id :: string
  or_raw :: raw_observation

record stored_observation =
  so_observation_id :: int
  so_revision :: nat
  so_crawl_id :: int
  so_last_seen_crawl :: int
  so_derivation :: string
  so_fingerprint :: "string option"
  so_content_hash :: string
  so_observation :: observation

record retraction_rec =
  rt_retraction_id :: int
  rt_adapter_id :: string
  rt_local_id :: string
  rt_revision :: int
  rt_reason :: string
  rt_crawl_id :: int
  rt_retracted_at :: string

record retraction_row =
  rr_adapter_id :: string
  rr_local_id :: string
  rr_revision :: nat
  rr_reason :: string
  rr_crawl_id :: int
  rr_retracted_at :: string

record balance_rec =
  bt_balance_id :: int
  bt_adapter_id :: string
  bt_read_id :: int
  bt_resource_id :: string
  bt_category :: string
  bt_canonical_hint :: "string option"
  bt_amount_asset :: "string option"
  bt_amount :: "string option"
  bt_prov_provider_id :: string
  bt_prov_surface :: string
  bt_observed_at :: string
  bt_effective_at :: "string option"
  bt_completeness :: string
  bt_received_at :: string
  bt_staleness :: string
  bt_outcome :: string

record balance_row =
  ba_balance_id :: int
  ba_adapter_id :: string
  ba_resource_id :: string
  ba_category :: string
  ba_canonical_hint :: "string option"
  ba_amount :: "amount option"
  ba_provider_id :: string
  ba_received_at :: string
  ba_staleness :: staleness
  ba_outcome :: string
  ba_from_latest_read :: bool

record discrepancy_row =
  di_adapter_id :: string
  di_resource_id :: string
  di_kind :: string
  di_crawl_id :: int
  di_detail :: string
  di_noted_at :: string

record discrepancy_rec =
  dt_discrepancy_id :: int
  dt_row :: discrepancy_row

record db =
  user_version :: int
  adapter_t :: "adapter_rec list"
  resource_t :: "resource_row list"
  crawl_t :: "crawl_row list"
  observation_t :: "observation_rec list"
  balance_t :: "balance_rec list"
  retraction_t :: "retraction_rec list"
  discrepancy_t :: "discrepancy_rec list"

definition db_new :: db where
  "db_new = \<lparr>user_version = USER_VERSION, adapter_t = [], resource_t = [], crawl_t = [], observation_t = [],
             balance_t = [], retraction_t = [], discrepancy_t = []\<rparr>"

definition from_open :: "string \<Rightarrow> db \<Rightarrow> store_error + db" where
  "from_open path d =
     (if user_version d \<noteq> USER_VERSION then Inl (SchemaVersion path (user_version d) USER_VERSION)
      else Inr d)"

text \<open>The id of a new row, and a foreign key to a crawl.\<close>

definition next_rowid :: "int list \<Rightarrow> int" where
  "next_rowid ids = foldr max ids 0 + 1"

definition crawl_exists :: "int \<Rightarrow> db \<Rightarrow> bool" where
  "crawl_exists c d \<longleftrightarrow> c \<in> set (map cw_crawl_id (crawl_t d))"

text \<open>\<open>i64::try_from(revision).unwrap_or(i64::MAX)\<close>, and back.\<close>

definition sql_revision :: "nat \<Rightarrow> int" where
  "sql_revision n = (if int n \<le> i64_max then int n else i64_max)"

text \<open>A loop that collects rows, and \<open>Option::transpose\<close>.\<close>

fun collect_rows :: "('row \<Rightarrow> 'e + 'out) \<Rightarrow> 'row list \<Rightarrow> 'e + 'out list" where
  "collect_rows f [] = Inr []"
| "collect_rows f (r # rs) = res_bind (f r) (\<lambda>x. res_bind (collect_rows f rs) (\<lambda>xs. Inr (x # xs)))"

fun transpose_opt :: "('a \<Rightarrow> 'e + 'b) \<Rightarrow> 'a option \<Rightarrow> 'e + 'b option" where
  "transpose_opt f None = Inr None"
| "transpose_opt f (Some x) = map_sum id Some (f x)"

text \<open>\<open>UPDATE\<close>: the rows that satisfy the condition, changed in place.\<close>

definition update_where :: "('row \<Rightarrow> bool) \<Rightarrow> ('row \<Rightarrow> 'row) \<Rightarrow> 'row list \<Rightarrow> 'row list" where
  "update_where P f rows = map (\<lambda>r. if P r then f r else r) rows"

section \<open>Adapters and resources\<close>

definition upsert_adapter :: "(json \<Rightarrow> string) \<Rightarrow> string \<Rightarrow> string list \<Rightarrow> db \<Rightarrow> db" where
  "upsert_adapter value_text a argv d =
     (let text = value_text (JArr (map JStr argv)) in
      if a \<in> set (map at_adapter_id (adapter_t d))
      then d\<lparr>adapter_t := update_where (\<lambda>r. at_adapter_id r = a) (at_argv_update (\<lambda>_. text)) (adapter_t d)\<rparr>
      else d\<lparr>adapter_t := adapter_t d @ [\<lparr>at_adapter_id = a, at_argv = text, at_derivation = None,
                                          at_needs_reauth = False, at_balance_read = 0\<rparr>]\<rparr>)"

definition set_adapter_derivation :: "string \<Rightarrow> string \<Rightarrow> db \<Rightarrow> db" where
  "set_adapter_derivation a derivation d =
     d\<lparr>adapter_t := update_where (\<lambda>r. at_adapter_id r = a) (at_derivation_update (\<lambda>_. Some derivation)) (adapter_t d)\<rparr>"

definition set_needs_reauth :: "string \<Rightarrow> bool \<Rightarrow> db \<Rightarrow> db" where
  "set_needs_reauth a needs d =
     d\<lparr>adapter_t := update_where (\<lambda>r. at_adapter_id r = a) (at_needs_reauth_update (\<lambda>_. needs)) (adapter_t d)\<rparr>"

definition adapter_from_row :: "(string \<Rightarrow> json option) \<Rightarrow> adapter_rec \<Rightarrow> store_error + adapter_row" where
  "adapter_from_row from_str r =
     (case Option.bind (from_str (at_argv r)) (\<lambda>j. res_ok (de_vec de_string j)) of
        None \<Rightarrow> Inl StoreJson
      | Some argv \<Rightarrow> Inr \<lparr>ar_adapter_id = at_adapter_id r, ar_argv = argv, ar_derivation = at_derivation r,
                          ar_needs_reauth = at_needs_reauth r\<rparr>)"

definition adapters :: "(string \<Rightarrow> json option) \<Rightarrow> db \<Rightarrow> store_error + adapter_row list" where
  "adapters from_str d = collect_rows (adapter_from_row from_str) (sort_key at_adapter_id (adapter_t d))"

definition upsert_resource :: "string \<Rightarrow> string \<Rightarrow> string \<Rightarrow> string \<Rightarrow> db \<Rightarrow> store_error + db" where
  "upsert_resource a r kind label d =
     (if (a, r) \<in> set (map (\<lambda>x. (sr_adapter_id x, sr_resource_id x)) (resource_t d))
      then Inr (d\<lparr>resource_t := update_where (\<lambda>x. sr_adapter_id x = a \<and> sr_resource_id x = r)
                    (\<lambda>x. x\<lparr>sr_kind := kind, sr_label := label\<rparr>) (resource_t d)\<rparr>)
      else if a \<notin> set (map at_adapter_id (adapter_t d)) then Inl (Sqlite ForeignKey)
      else Inr (d\<lparr>resource_t := resource_t d @
                    [\<lparr>sr_adapter_id = a, sr_resource_id = r, sr_kind = kind, sr_label = label,
                      sr_fingerprint = None, sr_last_provider_id = None\<rparr>]\<rparr>))"

definition resource :: "string \<Rightarrow> string \<Rightarrow> db \<Rightarrow> resource_row option" where
  "resource a r d = List.find (\<lambda>x. sr_adapter_id x = a \<and> sr_resource_id x = r) (resource_t d)"

definition resources :: "string option \<Rightarrow> db \<Rightarrow> resource_row list" where
  "resources a d =
     sort_key (\<lambda>x. (sr_adapter_id x, sr_resource_id x))
       (filter (\<lambda>x. case a of None \<Rightarrow> True | Some a \<Rightarrow> sr_adapter_id x = a) (resource_t d))"

text \<open>\<open>COALESCE(?4, last_provider_id)\<close> keeps the stored vantage when none is given.\<close>

definition set_resource_definition :: "string \<Rightarrow> string \<Rightarrow> string \<Rightarrow> string option \<Rightarrow> db \<Rightarrow> db" where
  "set_resource_definition a r fingerprint provider_id d =
     d\<lparr>resource_t := update_where (\<lambda>x. sr_adapter_id x = a \<and> sr_resource_id x = r)
         (\<lambda>x. x\<lparr>sr_fingerprint := Some fingerprint,
                sr_last_provider_id :=
                  (case provider_id of Some p \<Rightarrow> Some p | None \<Rightarrow> sr_last_provider_id x)\<rparr>) (resource_t d)\<rparr>"

section \<open>Crawls\<close>

definition open_crawl ::
  "string \<Rightarrow> string \<Rightarrow> string \<Rightarrow> string option \<Rightarrow> string \<Rightarrow> string option \<Rightarrow> db \<Rightarrow> int \<times> db" where
  "open_crawl a r started_at start_page derivation fingerprint d =
     (let cleared = update_where (\<lambda>c. cw_adapter_id c = a \<and> cw_resource_id c = r \<and> cw_next_page c \<noteq> None)
                      (cw_next_page_update (\<lambda>_. None)) (crawl_t d);
          crawl_id = next_rowid (map cw_crawl_id cleared)
      in (crawl_id, d\<lparr>crawl_t := cleared @
            [\<lparr>cw_crawl_id = crawl_id, cw_adapter_id = a, cw_resource_id = r, cw_started_at = started_at,
              cw_start_page = start_page, cw_next_page = start_page, cw_derivation = derivation,
              cw_fingerprint = fingerprint, cw_drained = False, cw_complete = False,
              cw_disqualified_reason = None\<rparr>]\<rparr>))"

definition set_crawl_cursor :: "int \<Rightarrow> string option \<Rightarrow> db \<Rightarrow> db" where
  "set_crawl_cursor crawl_id next_page d =
     d\<lparr>crawl_t := update_where (\<lambda>c. cw_crawl_id c = crawl_id) (cw_next_page_update (\<lambda>_. next_page)) (crawl_t d)\<rparr>"

definition finish_crawl :: "int \<Rightarrow> bool \<Rightarrow> bool \<Rightarrow> string option \<Rightarrow> db \<Rightarrow> db" where
  "finish_crawl crawl_id drained completed disqualified_reason d =
     d\<lparr>crawl_t := update_where (\<lambda>c. cw_crawl_id c = crawl_id)
         (\<lambda>c. c\<lparr>cw_drained := drained, cw_complete := completed, cw_disqualified_reason := disqualified_reason,
                cw_next_page := (if drained then None else cw_next_page c)\<rparr>) (crawl_t d)\<rparr>"

text \<open>\<open>ORDER BY crawl_id DESC\<close>.\<close>

definition newest_crawls :: "crawl_row list \<Rightarrow> crawl_row list" where
  "newest_crawls cs = sort_key (\<lambda>c. - cw_crawl_id c) cs"

definition resumable_crawl :: "string \<Rightarrow> string \<Rightarrow> db \<Rightarrow> crawl_row option" where
  "resumable_crawl a r d =
     (case newest_crawls (filter (\<lambda>c. cw_adapter_id c = a \<and> cw_resource_id c = r \<and> \<not> cw_drained c \<and>
                                      cw_next_page c \<noteq> None) (crawl_t d)) of
        [] \<Rightarrow> None | c # _ \<Rightarrow> Some c)"

text \<open>A negative \<open>LIMIT\<close> is no limit.\<close>

definition sql_limit :: "int \<Rightarrow> 'row list \<Rightarrow> 'row list" where
  "sql_limit n rows = (if n < 0 then rows else take (nat n) rows)"

definition crawls :: "int \<Rightarrow> db \<Rightarrow> crawl_row list" where
  "crawls limit d = sql_limit limit (newest_crawls (crawl_t d))"

section \<open>Observations\<close>

definition timestamp :: "string \<Rightarrow> store_error + rfc3339" where
  "timestamp text = map_err (\<lambda>_. CorruptRow (BadTimestamp text)) (rfc3339_new text)"

definition money :: "string \<Rightarrow> string \<Rightarrow> store_error + amount" where
  "money a s = map_err StoreMoney (res_bind (asset_new a) (\<lambda>asset. parse asset s))"

definition from_spelling :: "(string \<times> 'a) list \<Rightarrow> string \<Rightarrow> store_error + 'a" where
  "from_spelling table text = map_err (\<lambda>_. CorruptRow (BadEnum text)) (de_unit_enum table (JStr text))"

text \<open>The spelling of a unit variant is the string its serialisation holds.\<close>

definition spelling :: "(string \<times> 'a) list \<Rightarrow> 'a \<Rightarrow> string" where
  "spelling table x = name_of table x"

text \<open>Two nullable columns hold an amount together.\<close>

definition money_columns :: "string option \<Rightarrow> string option \<Rightarrow> store_error + amount option" where
  "money_columns a s =
     (case (a, s) of
        (Some u, Some v) \<Rightarrow> map_sum id Some (money u v)
      | _ \<Rightarrow> Inr None)"

definition provenance_of_row :: "raw_observation \<Rightarrow> store_error + provenance" where
  "provenance_of_row r =
     res_bind (timestamp (ro_observed_at r)) (\<lambda>observed.
     res_bind (transpose_opt timestamp (ro_effective_at r)) (\<lambda>effective.
     res_bind (from_spelling completeness_names (ro_completeness r)) (\<lambda>compl.
     res_bind (timestamp (ro_received_at r)) (\<lambda>received.
     res_bind (from_spelling staleness_names (ro_staleness r)) (\<lambda>st.
     Inr (provenance_stamp
            \<lparr>pw_adapter_id = ro_prov_adapter_id r, pw_provider_id = ro_prov_provider_id r,
             pw_surface = ro_prov_surface r, pw_observed_at = observed, pw_effective_at = effective,
             pw_completeness = compl\<rparr> received st))))))"

definition observation_of_row :: "(string \<Rightarrow> json option) \<Rightarrow> raw_observation \<Rightarrow> store_error + observation" where
  "observation_of_row from_str r =
     res_bind (provenance_of_row r) (\<lambda>prov.
     res_bind (from_spelling state_names (ro_state r)) (\<lambda>state.
     res_bind (from_spelling posting_names (ro_posting r)) (\<lambda>post.
     res_bind (money (ro_amount_asset r) (ro_amount r)) (\<lambda>amt.
     res_bind (money_columns (ro_fees_asset r) (ro_fees r)) (\<lambda>fees.
     res_bind (from_spelling raw_sign_names (ro_raw_sign r)) (\<lambda>sign.
     res_bind (ok_or StoreJson (Option.bind (from_str (ro_provider_extra r)) (\<lambda>j. res_ok (de_map j)))) (\<lambda>extra.
     Inr \<lparr>ob_resource_id = ro_resource_id r, ob_local_id = ro_local_id r, ob_provider_id = ro_provider_id r,
          ob_supersedes_provider_id = ro_supersedes_provider_id r, ob_state = state,
          ob_tombstone_reason = ro_tombstone_reason r, ob_surface = ro_surface r, ob_posting = post,
          ob_amount = amt, ob_fees = fees, ob_raw_sign = sign, ob_description = ro_description r,
          ob_provider_extra = extra, ob_provenance = prov\<rparr>)))))))"

definition into_stored :: "(string \<Rightarrow> json option) \<Rightarrow> raw_observation \<Rightarrow> store_error + stored_observation" where
  "into_stored from_str r =
     res_bind (observation_of_row from_str r) (\<lambda>ob.
     if ro_revision r < 0 then Inl (CorruptRow (BadRevision (ro_revision r)))
     else Inr \<lparr>so_observation_id = ro_observation_id r, so_revision = nat (ro_revision r),
               so_crawl_id = ro_crawl_id r, so_last_seen_crawl = ro_last_seen_crawl r,
               so_derivation = ro_derivation r, so_fingerprint = ro_fingerprint r,
               so_content_hash = ro_content_hash r, so_observation = ob\<rparr>)"

definition observations_for_adapter ::
  "(string \<Rightarrow> json option) \<Rightarrow> string \<Rightarrow> db \<Rightarrow> store_error + stored_observation list" where
  "observations_for_adapter from_str a d =
     collect_rows (\<lambda>r. into_stored from_str (or_raw r))
       (sort_key (\<lambda>r. ro_observation_id (or_raw r)) (filter (\<lambda>r. or_adapter_id r = a) (observation_t d)))"

definition chain_rows ::
  "(string \<Rightarrow> json option) \<Rightarrow> string \<Rightarrow> string \<Rightarrow> db \<Rightarrow> store_error + stored_observation list" where
  "chain_rows from_str a l d =
     collect_rows (\<lambda>r. into_stored from_str (or_raw r))
       (sort_key (\<lambda>r. ro_observation_id (or_raw r))
          (filter (\<lambda>r. or_adapter_id r = a \<and> ro_local_id (or_raw r) = l) (observation_t d)))"

record append_args =
  ap_adapter_id :: string
  ap_revision :: nat
  ap_crawl_id :: int
  ap_derivation :: string
  ap_fingerprint :: "string option"
  ap_content_hash :: string
  ap_observation :: observation

definition row_of_append :: "(json \<Rightarrow> string) \<Rightarrow> int \<Rightarrow> append_args \<Rightarrow> raw_observation" where
  "row_of_append value_text i p =
     (let ob = ap_observation p; pv = ob_provenance ob in
      \<lparr>ro_observation_id = i, ro_revision = sql_revision (ap_revision p), ro_crawl_id = ap_crawl_id p,
       ro_last_seen_crawl = ap_crawl_id p, ro_derivation = ap_derivation p,
       ro_fingerprint = ap_fingerprint p, ro_content_hash = ap_content_hash p,
       ro_resource_id = ob_resource_id ob, ro_local_id = ob_local_id ob, ro_provider_id = ob_provider_id ob,
       ro_supersedes_provider_id = ob_supersedes_provider_id ob, ro_state = spelling state_names (ob_state ob),
       ro_tombstone_reason = ob_tombstone_reason ob, ro_surface = ob_surface ob,
       ro_posting = spelling posting_names (ob_posting ob),
       ro_amount_asset = as_str (asset (ob_amount ob)), ro_amount = display (ob_amount ob),
       ro_fees_asset = map_option (\<lambda>f. as_str (asset f)) (ob_fees ob),
       ro_fees = map_option display (ob_fees ob),
       ro_raw_sign = spelling raw_sign_names (ob_raw_sign ob), ro_description = ob_description ob,
       ro_provider_extra = value_text (JObj (ob_provider_extra ob)),
       ro_prov_adapter_id = pv_adapter_id pv, ro_prov_provider_id = pv_provider_id pv,
       ro_prov_surface = pv_surface pv, ro_observed_at = ts_str (pv_observed_at pv),
       ro_effective_at = map_option ts_str (pv_effective_at pv),
       ro_completeness = spelling completeness_names (pv_completeness pv),
       ro_received_at = ts_str (pv_received_at pv), ro_staleness = spelling staleness_names (pv_staleness pv)\<rparr>)"

definition append_observation :: "(json \<Rightarrow> string) \<Rightarrow> append_args \<Rightarrow> db \<Rightarrow> store_error + db" where
  "append_observation value_text p d =
     (let row = row_of_append value_text (next_rowid (map (\<lambda>r. ro_observation_id (or_raw r)) (observation_t d))) p in
      if \<not> crawl_exists (ap_crawl_id p) d then Inl (Sqlite ForeignKey)
      else if (ap_adapter_id p, ro_local_id row, ro_revision row)
                \<in> set (map (\<lambda>r. (or_adapter_id r, ro_local_id (or_raw r), ro_revision (or_raw r))) (observation_t d))
      then Inl (Sqlite UniqueConstraint)
      else Inr (d\<lparr>observation_t := observation_t d @ [\<lparr>or_adapter_id = ap_adapter_id p, or_raw = row\<rparr>]\<rparr>))"

definition stamp_seen ::
  "string \<Rightarrow> string \<Rightarrow> nat \<Rightarrow> int \<Rightarrow> string \<Rightarrow> string option \<Rightarrow> db \<Rightarrow> store_error + db" where
  "stamp_seen a l revision crawl_id derivation fingerprint d =
     (let hit = (\<lambda>r. or_adapter_id r = a \<and> ro_local_id (or_raw r) = l \<and>
                     ro_revision (or_raw r) = sql_revision revision) in
      if list_ex hit (observation_t d) \<and> \<not> crawl_exists crawl_id d then Inl (Sqlite ForeignKey)
      else Inr (d\<lparr>observation_t :=
             update_where hit
               (\<lambda>r. r\<lparr>or_raw := (or_raw r)\<lparr>ro_last_seen_crawl := crawl_id, ro_derivation := derivation,
                                          ro_fingerprint := fingerprint\<rparr>\<rparr>) (observation_t d)\<rparr>))"

section \<open>Retractions\<close>

definition append_retraction ::
  "string \<Rightarrow> string \<Rightarrow> nat \<Rightarrow> string \<Rightarrow> int \<Rightarrow> string \<Rightarrow> db \<Rightarrow> store_error + db" where
  "append_retraction a l revision reason crawl_id retracted_at d =
     (if \<not> crawl_exists crawl_id d then Inl (Sqlite ForeignKey)
      else Inr (d\<lparr>retraction_t := retraction_t d @
             [\<lparr>rt_retraction_id = next_rowid (map rt_retraction_id (retraction_t d)), rt_adapter_id = a,
               rt_local_id = l, rt_revision = sql_revision revision, rt_reason = reason,
               rt_crawl_id = crawl_id, rt_retracted_at = retracted_at\<rparr>]\<rparr>))"

definition retraction_revision :: "int \<Rightarrow> store_error + nat" where
  "retraction_revision n = (if n < 0 then Inl (CorruptRow (BadRetraction n)) else Inr (nat n))"

text \<open>\<open>SELECT local_id, MAX(revision) ... GROUP BY local_id\<close>.\<close>

definition retraction_high_water :: "string \<Rightarrow> db \<Rightarrow> store_error + (string, nat) hash_map" where
  "retraction_high_water a d =
     (let mine = filter (\<lambda>r. rt_adapter_id r = a) (retraction_t d) in
      collect_rows
        (\<lambda>l. map_sum id (Pair l)
               (retraction_revision (Max (rt_revision ` set (filter (\<lambda>r. rt_local_id r = l) mine)))))
        (remdups (map rt_local_id mine)))"

definition retraction_from_row :: "retraction_rec \<Rightarrow> store_error + retraction_row" where
  "retraction_from_row r =
     res_bind (retraction_revision (rt_revision r)) (\<lambda>n.
       Inr \<lparr>rr_adapter_id = rt_adapter_id r, rr_local_id = rt_local_id r, rr_revision = n,
            rr_reason = rt_reason r, rr_crawl_id = rt_crawl_id r, rr_retracted_at = rt_retracted_at r\<rparr>)"

definition retractions_for :: "string \<Rightarrow> string \<Rightarrow> db \<Rightarrow> store_error + retraction_row list" where
  "retractions_for a l d =
     collect_rows retraction_from_row
       (sort_key rt_retraction_id (filter (\<lambda>r. rt_adapter_id r = a \<and> rt_local_id r = l) (retraction_t d)))"

section \<open>Balances\<close>

definition open_balance_read :: "string \<Rightarrow> db \<Rightarrow> store_error + int \<times> db" where
  "open_balance_read a d =
     (case List.find (\<lambda>r. at_adapter_id r = a) (adapter_t d) of
        None \<Rightarrow> Inl (Sqlite NoRows)
      | Some r \<Rightarrow> Inr (at_balance_read r + 1,
          d\<lparr>adapter_t := update_where (\<lambda>r. at_adapter_id r = a) (at_balance_read_update (\<lambda>n. n + 1)) (adapter_t d)\<rparr>))"

definition append_balance :: "string \<Rightarrow> int \<Rightarrow> balance \<Rightarrow> string \<Rightarrow> db \<Rightarrow> db" where
  "append_balance a read_id b outcome d =
     d\<lparr>balance_t := balance_t d @
        [\<lparr>bt_balance_id = next_rowid (map bt_balance_id (balance_t d)), bt_adapter_id = a, bt_read_id = read_id,
          bt_resource_id = bl_resource_id b, bt_category = bl_category b,
          bt_canonical_hint = map_option (spelling canonical_hint_names) (bl_canonical_hint b),
          bt_amount_asset = map_option (\<lambda>m. as_str (asset m)) (bl_amount b),
          bt_amount = map_option display (bl_amount b),
          bt_prov_provider_id = pv_provider_id (bl_provenance b), bt_prov_surface = pv_surface (bl_provenance b),
          bt_observed_at = ts_str (pv_observed_at (bl_provenance b)),
          bt_effective_at = map_option ts_str (pv_effective_at (bl_provenance b)),
          bt_completeness = spelling completeness_names (pv_completeness (bl_provenance b)),
          bt_received_at = ts_str (pv_received_at (bl_provenance b)),
          bt_staleness = spelling staleness_names (pv_staleness (bl_provenance b)), bt_outcome = outcome\<rparr>]\<rparr>"

text \<open>\<open>COALESCE(b.read_id = a.balance_read, 0)\<close> over the left join.\<close>

definition is_latest_read :: "db \<Rightarrow> balance_rec \<Rightarrow> bool" where
  "is_latest_read d b =
     (case List.find (\<lambda>r. at_adapter_id r = bt_adapter_id b) (adapter_t d) of
        None \<Rightarrow> False | Some r \<Rightarrow> bt_read_id b = at_balance_read r)"

definition balance_from_row :: "db \<Rightarrow> balance_rec \<Rightarrow> store_error + balance_row" where
  "balance_from_row d b =
     res_bind (money_columns (bt_amount_asset b) (bt_amount b)) (\<lambda>amt.
     res_bind (from_spelling staleness_names (bt_staleness b)) (\<lambda>st.
     Inr \<lparr>ba_balance_id = bt_balance_id b, ba_adapter_id = bt_adapter_id b, ba_resource_id = bt_resource_id b,
          ba_category = bt_category b, ba_canonical_hint = bt_canonical_hint b, ba_amount = amt,
          ba_provider_id = bt_prov_provider_id b, ba_received_at = bt_received_at b, ba_staleness = st,
          ba_outcome = bt_outcome b, ba_from_latest_read = is_latest_read d b\<rparr>))"

definition balance_history :: "string \<Rightarrow> string \<Rightarrow> db \<Rightarrow> store_error + balance_row list" where
  "balance_history a r d =
     collect_rows (balance_from_row d)
       (sort_key bt_balance_id (filter (\<lambda>b. bt_adapter_id b = a \<and> bt_resource_id b = r) (balance_t d)))"

section \<open>Discrepancies\<close>

definition append_discrepancy ::
  "string \<Rightarrow> string \<Rightarrow> string \<Rightarrow> int \<Rightarrow> string \<Rightarrow> string \<Rightarrow> db \<Rightarrow> store_error + db" where
  "append_discrepancy a r kind crawl_id detail noted_at d =
     (if \<not> crawl_exists crawl_id d then Inl (Sqlite ForeignKey)
      else Inr (d\<lparr>discrepancy_t := discrepancy_t d @
             [\<lparr>dt_discrepancy_id = next_rowid (map dt_discrepancy_id (discrepancy_t d)),
               dt_row = \<lparr>di_adapter_id = a, di_resource_id = r, di_kind = kind, di_crawl_id = crawl_id,
                         di_detail = detail, di_noted_at = noted_at\<rparr>\<rparr>]\<rparr>))"

definition discrepancies :: "int \<Rightarrow> db \<Rightarrow> discrepancy_row list" where
  "discrepancies limit d =
     sql_limit limit (map dt_row (sort_key (\<lambda>r. - dt_discrepancy_id r) (discrepancy_t d)))"

end
