(* ===== verification/Content.thy ===== *)
theory Content
  imports Envelope Ordered_Map
begin

text \<open>
  The content hash of an observation and the fingerprint of a resource definition
  (\<open>core/store/src/hash.rs\<close> and \<open>resource_fingerprint\<close> of \<open>sweep.rs\<close>). SHA-256 is the parameter
  \<open>sha\<close> (bytes to bytes) and serde's writer is \<open>value_text\<close>; the fields that are hashed, their
  canonical order and the hexadecimal text are the code's.
\<close>

definition opt_str :: "string option \<Rightarrow> json" where
  "opt_str v = (case v of Some s \<Rightarrow> JStr s | None \<Rightarrow> JNull)"

definition money_json :: "amount option \<Rightarrow> json" where
  "money_json v =
     (case v of
        Some m \<Rightarrow> JObj (btree_of [(''asset'', JStr (as_str (asset m))), (''amount'', JStr (display m))])
      | None \<Rightarrow> JNull)"

definition content_fields :: "observation \<Rightarrow> (string \<times> json) list" where
  "content_fields ob =
     [(''resource_id'', JStr (ob_resource_id ob)),
      (''local_id'', JStr (ob_local_id ob)),
      (''provider_id'', opt_str (ob_provider_id ob)),
      (''supersedes_provider_id'', opt_str (ob_supersedes_provider_id ob)),
      (''state'', ser_enum state_names (ob_state ob)),
      (''tombstone_reason'', opt_str (ob_tombstone_reason ob)),
      (''surface'', JStr (ob_surface ob)),
      (''posting'', ser_enum posting_names (ob_posting ob)),
      (''amount'', money_json (Some (ob_amount ob))),
      (''fees'', money_json (ob_fees ob)),
      (''raw_sign'', ser_enum raw_sign_names (ob_raw_sign ob)),
      (''description'', JStr (ob_description ob)),
      (''provider_extra'', JObj (ob_provider_extra ob)),
      (''observed_at'', JStr (ts_str (pv_observed_at (ob_provenance ob)))),
      (''effective_at'', opt_str (map_option ts_str (pv_effective_at (ob_provenance ob)))),
      (''completeness'', ser_enum completeness_names (pv_completeness (ob_provenance ob)))]"

definition content_json :: "observation \<Rightarrow> json" where
  "content_json ob = JObj (btree_of (content_fields ob))"

definition hex_digit :: "nat \<Rightarrow> char" where
  "hex_digit n = (if n < 10 then char_of (48 + n) else char_of (87 + n))"

definition hex :: "string \<Rightarrow> string" where
  "hex bytes = concat (map (\<lambda>b. [hex_digit (of_char b div 16), hex_digit (of_char b mod 16)]) bytes)"

definition sha256_hex :: "(string \<Rightarrow> string) \<Rightarrow> string \<Rightarrow> string" where
  "sha256_hex sha bytes = hex (sha bytes)"

definition content_hash :: "(string \<Rightarrow> string) \<Rightarrow> (json \<Rightarrow> string) \<Rightarrow> observation \<Rightarrow> string" where
  "content_hash sha value_text ob = hex (sha (value_text (content_json ob)))"

definition resource_fingerprint :: "(string \<Rightarrow> string) \<Rightarrow> (json \<Rightarrow> string) \<Rightarrow> resource_descriptor \<Rightarrow> string" where
  "resource_fingerprint sha value_text d =
     sha256_hex sha (value_text (JObj (btree_of
       [(''kind'', JStr (rd_kind d)),
        (''provider_extra'', JObj (case rd_provider_extra d of Some m \<Rightarrow> m | None \<Rightarrow> []))])))"

section \<open>What the hash discriminates\<close>

lemma hex_digit_inj: "a < 16 \<Longrightarrow> b < 16 \<Longrightarrow> hex_digit a = hex_digit b \<longleftrightarrow> a = b"
proof -
  assume b: "a < 16" "b < 16"
  have v: "(of_char (hex_digit n) :: nat) = (if n < 10 then 48 + n else 87 + n)" if "n < 16" for n
    using that by (simp add: hex_digit_def of_char_of)
  show ?thesis
  proof
    assume "hex_digit a = hex_digit b"
    then have "(of_char (hex_digit a) :: nat) = of_char (hex_digit b)" by simp
    then show "a = b" using b by (simp add: v split: if_splits)
  qed simp
qed

lemma hex_inj: "hex xs = hex ys \<longleftrightarrow> xs = ys"
proof (induction xs arbitrary: ys)
  case Nil
  show ?case by (cases ys) (simp_all add: hex_def)
next
  case (Cons x xs)
  show ?case
  proof (cases ys)
    case (Cons y ys')
    have byte: "(of_char c :: nat) < 256" for c :: char by (rule nat_of_char_less_256 [of c])
    have eq: "hex_digit (of_char x div 16) = hex_digit (of_char y div 16) \<and>
          hex_digit (of_char x mod 16) = hex_digit (of_char y mod 16) \<longleftrightarrow> x = y"
    proof
      assume h: "hex_digit (of_char x div 16) = hex_digit (of_char y div 16) \<and>
          hex_digit (of_char x mod 16) = hex_digit (of_char y mod 16)"
      have "(of_char x :: nat) div 16 < 16" "(of_char y :: nat) div 16 < 16"
        using byte [of x] byte [of y] by (simp_all add: div_less_iff_less_mult)
      with h have "(of_char x :: nat) div 16 = of_char y div 16" "(of_char x :: nat) mod 16 = of_char y mod 16"
        by (simp_all add: hex_digit_inj)
      then have "(of_char x :: nat) = of_char y" by (metis div_mult_mod_eq)
      then show "x = y" by simp
    qed simp
    then show ?thesis using Cons.IH [of ys'] by (auto simp: hex_def local.Cons)
  qed (simp add: hex_def)
qed

lemma btree_of_inject:
  assumes "btree_of ps = btree_of qs" "distinct (map fst ps)" "distinct (map fst qs)"
  shows "map_of ps = map_of qs"
proof -
  have "map_of (rev xs) = map_of xs" if "distinct (map fst xs)" for xs :: "('a \<times> 'b) list"
    using that by (intro map_of_inject_set [THEN iffD2]) (simp_all flip: rev_map)
  then show ?thesis using assms map_of_btree_of [of ps] map_of_btree_of [of qs] by simp
qed

lemma opt_str_inj [simp]: "opt_str a = opt_str b \<longleftrightarrow> a = b"
  by (auto simp: opt_str_def split: option.splits)

end
