(* ===== verification/Store_Correct.thy ===== *)
theory Store_Correct
  imports Store Content Observation_Correct Revisions_Correct
begin

text \<open>
  The store keeps what it is given: an observation row decodes to the observation it was written
  from, the content hash sees exactly the adapter's content, the chains of the table are numbered
  as the fold numbers them, and at most one crawl of a resource can be resumed.
\<close>

section \<open>Columns\<close>

lemma spelling_completeness [simp]: "from_spelling completeness_names (spelling completeness_names x) = Inr x"
  by (cases x) (simp_all add: from_spelling_def spelling_def enum_tables de_unit_enum_def)

lemma spelling_staleness [simp]: "from_spelling staleness_names (spelling staleness_names x) = Inr x"
  by (cases x) (simp_all add: from_spelling_def spelling_def enum_tables de_unit_enum_def)

lemma spelling_state [simp]: "from_spelling state_names (spelling state_names x) = Inr x"
  by (cases x) (simp_all add: from_spelling_def spelling_def enum_tables de_unit_enum_def)

lemma spelling_posting [simp]: "from_spelling posting_names (spelling posting_names x) = Inr x"
  by (cases x) (simp_all add: from_spelling_def spelling_def enum_tables de_unit_enum_def)

lemma spelling_raw_sign [simp]: "from_spelling raw_sign_names (spelling raw_sign_names x) = Inr x"
  by (cases x) (simp_all add: from_spelling_def spelling_def enum_tables de_unit_enum_def)

lemma timestamp_column [simp]: "rfc_ok t \<Longrightarrow> timestamp (ts_str t) = Inr t"
  by (simp add: timestamp_def rfc_ok_def rfc3339_new_def)

lemma timestamp_columns [simp]: "opt_ok rfc_ok v \<Longrightarrow> transpose_opt timestamp (map_option ts_str v) = Inr v"
  by (cases v) simp_all

lemma money_column [simp]: "money_ok m \<Longrightarrow> money (as_str (asset m)) (display m) = Inr m"
proof -
  assume "money_ok m"
  then have "asset_new (as_str (asset m)) = Inr (asset m)" "parse (asset m) (display m) = Inr m"
    by (simp_all add: money_ok_def parse_display res_simps)
  then show ?thesis by (simp add: money_def)
qed

lemma money_columns_roundtrip [simp]:
  "opt_ok money_ok v \<Longrightarrow>
   money_columns (map_option (\<lambda>m. as_str (asset m)) v) (map_option display v) = Inr v"
  by (cases v) (simp_all add: money_columns_def)

section \<open>Rows\<close>

definition provenance_ok :: "provenance \<Rightarrow> bool" where
  "provenance_ok p \<longleftrightarrow>
     rfc_ok (pv_observed_at p) \<and> rfc_ok (pv_received_at p) \<and> opt_ok rfc_ok (pv_effective_at p)"

text \<open>An observation that came through the wire readers, whose extra members serde reads back.\<close>

definition observation_ok :: "(json \<Rightarrow> string) \<Rightarrow> (string \<Rightarrow> json option) \<Rightarrow> observation \<Rightarrow> bool" where
  "observation_ok value_text from_str ob \<longleftrightarrow>
     money_ok (ob_amount ob) \<and> opt_ok money_ok (ob_fees ob) \<and> provenance_ok (ob_provenance ob) \<and>
     map_parsed (ob_provider_extra ob) \<and>
     from_str (value_text (JObj (ob_provider_extra ob))) = Some (JObj (ob_provider_extra ob))"

definition stored_of :: "int \<Rightarrow> append_args \<Rightarrow> stored_observation" where
  "stored_of i p =
     \<lparr>so_observation_id = i, so_revision = ap_revision p, so_crawl_id = ap_crawl_id p,
      so_last_seen_crawl = ap_crawl_id p, so_derivation = ap_derivation p, so_fingerprint = ap_fingerprint p,
      so_content_hash = ap_content_hash p, so_observation = ap_observation p\<rparr>"

lemma provenance_row:
  "provenance_ok (ob_provenance (ap_observation p)) \<Longrightarrow>
   provenance_of_row (row_of_append value_text i p) = Inr (ob_provenance (ap_observation p))"
  by (simp add: provenance_of_row_def row_of_append_def Let_def provenance_ok_def provenance_stamp_def)

lemma row_roundtrip:
  assumes "observation_ok value_text from_str (ap_observation p)" "int (ap_revision p) \<le> i64_max"
  shows "into_stored from_str (row_of_append value_text i p) = Inr (stored_of i p)"
proof -
  note ok = assms(1) [unfolded observation_ok_def]
  have "observation_of_row from_str (row_of_append value_text i p) = Inr (ap_observation p)"
    unfolding observation_of_row_def provenance_row [OF ok [THEN conjunct2, THEN conjunct2, THEN conjunct1]]
    using ok by (simp add: row_of_append_def Let_def de_map_parsed)
  moreover have "ro_revision (row_of_append value_text i p) = int (ap_revision p)"
    using assms(2) by (simp add: row_of_append_def sql_revision_def Let_def)
  ultimately show ?thesis
    by (simp add: into_stored_def stored_of_def row_of_append_def Let_def)
qed

section \<open>Tables in id order\<close>

lemma next_rowid_greater: "i \<in> set ids \<Longrightarrow> i < next_rowid ids"
  unfolding next_rowid_def by (induction ids) (auto simp: less_max_iff_disj)

lemma next_rowid_pos: "0 < next_rowid ids"
proof -
  have "0 \<le> foldr max ids 0" by (induction ids) (auto simp: le_max_iff_disj)
  then show ?thesis by (simp add: next_rowid_def)
qed

lemma sorted_wrt_next_rowid: "sorted_wrt (<) ids \<Longrightarrow> sorted_wrt (<) (ids @ [next_rowid ids])"
  by (simp add: sorted_wrt_append next_rowid_greater)

lemma sort_key_sorted_filter:
  assumes "sorted_wrt (<) (map f xs)"
  shows "sort_key f (filter P xs) = filter P xs"
proof -
  have "sorted (map f xs)" using assms by (simp add: strict_sorted_iff)
  then show ?thesis by (metis sorted_filter sorted_sort_id sort_key_id_if_sorted)
qed

lemma collect_rows_append:
  "collect_rows f (xs @ ys) = res_bind (collect_rows f xs) (\<lambda>us. res_bind (collect_rows f ys) (\<lambda>vs. Inr (us @ vs)))"
proof (induction xs)
  case Nil
  show ?case by (cases "collect_rows f ys") simp_all
next
  case (Cons x xs)
  then show ?case by (cases "f x"; cases "collect_rows f xs"; cases "collect_rows f ys") simp_all
qed

lemma collect_rows_Inr_iff: "collect_rows f xs = Inr ys \<longleftrightarrow> list_all2 (\<lambda>x y. f x = Inr y) xs ys"
  by (induction xs arbitrary: ys) (auto simp: res_simps list_all2_Cons1)

lemma collect_rows_ok: "\<forall>x\<in>set xs. is_ok (f x) \<Longrightarrow> is_ok (collect_rows f xs)"
  by (induction xs) (auto simp: is_ok_iff)

lemma map_update_where: "(\<And>r. g (f r) = g r) \<Longrightarrow> map g (update_where P f rows) = map g rows"
  by (simp add: update_where_def)

section \<open>The invariant of the database\<close>

abbreviation row_id :: "observation_rec \<Rightarrow> int" where
  "row_id r \<equiv> ro_observation_id (or_raw r)"

definition rows_of :: "string \<Rightarrow> db \<Rightarrow> observation_rec list" where
  "rows_of a d = filter (\<lambda>r. or_adapter_id r = a) (observation_t d)"

definition chain_recs :: "string \<Rightarrow> string \<Rightarrow> db \<Rightarrow> observation_rec list" where
  "chain_recs a l d = filter (\<lambda>r. or_adapter_id r = a \<and> ro_local_id (or_raw r) = l) (observation_t d)"

definition row_ok :: "(string \<Rightarrow> json option) \<Rightarrow> observation_rec \<Rightarrow> bool" where
  "row_ok from_str r \<longleftrightarrow> ro_prov_adapter_id (or_raw r) = or_adapter_id r \<and> is_ok (into_stored from_str (or_raw r))"

text \<open>
  Ids ascend, every row decodes and is stored under the adapter its provenance names, the rows of
  a record are numbered 1, 2, ... in the order they were stored, and a retraction names a revision
  that exists.
\<close>

definition db_ok :: "(string \<Rightarrow> json option) \<Rightarrow> db \<Rightarrow> bool" where
  "db_ok from_str d \<longleftrightarrow>
     sorted_wrt (<) (map row_id (observation_t d)) \<and>
     (\<forall>r\<in>set (observation_t d). row_ok from_str r) \<and>
     (\<forall>a l. map (\<lambda>r. ro_revision (or_raw r)) (chain_recs a l d) = map int [1..<Suc (length (chain_recs a l d))]) \<and>
     (\<forall>r\<in>set (retraction_t d). 0 \<le> rt_revision r \<and>
        rt_revision r \<le> int (length (chain_recs (rt_adapter_id r) (rt_local_id r) d)))"

lemma db_okD:
  assumes "db_ok from_str d"
  shows "sorted_wrt (<) (map row_id (observation_t d))"
    and "r \<in> set (observation_t d) \<Longrightarrow> row_ok from_str r"
    and "map (\<lambda>r. ro_revision (or_raw r)) (chain_recs a l d) = map int [1..<Suc (length (chain_recs a l d))]"
    and "t \<in> set (retraction_t d) \<Longrightarrow> 0 \<le> rt_revision t \<and>
        rt_revision t \<le> int (length (chain_recs (rt_adapter_id t) (rt_local_id t) d))"
  using assms unfolding db_ok_def by blast+

lemma db_ok_new: "db_ok from_str db_new"
  by (simp add: db_ok_def db_new_def chain_recs_def)

lemma chain_recs_rows: "chain_recs a l d = filter (\<lambda>r. ro_local_id (or_raw r) = l) (rows_of a d)"
  by (simp add: chain_recs_def rows_of_def conj_commute)

text \<open>Only the tables of observations and retractions matter to the invariant.\<close>

lemma db_ok_cong:
  "observation_t d = observation_t e \<Longrightarrow> retraction_t d = retraction_t e \<Longrightarrow> db_ok from_str d = db_ok from_str e"
  by (simp add: db_ok_def chain_recs_def)

named_theorems db_frame \<open>the tables an operation leaves alone\<close>

lemma frame_derivation [db_frame]:
  "observation_t (set_adapter_derivation a v d) = observation_t d"
  "retraction_t (set_adapter_derivation a v d) = retraction_t d"
  "crawl_t (set_adapter_derivation a v d) = crawl_t d"
  by (simp_all add: set_adapter_derivation_def)

lemma frame_reauth [db_frame]:
  "observation_t (set_needs_reauth a b d) = observation_t d"
  "retraction_t (set_needs_reauth a b d) = retraction_t d"
  "crawl_t (set_needs_reauth a b d) = crawl_t d"
  by (simp_all add: set_needs_reauth_def)

lemma frame_definition [db_frame]:
  "observation_t (set_resource_definition a r f p d) = observation_t d"
  "retraction_t (set_resource_definition a r f p d) = retraction_t d"
  "crawl_t (set_resource_definition a r f p d) = crawl_t d"
  by (simp_all add: set_resource_definition_def)

lemma frame_open_crawl [db_frame]:
  "observation_t (snd (open_crawl a r s p v f d)) = observation_t d"
  "retraction_t (snd (open_crawl a r s p v f d)) = retraction_t d"
  by (simp_all add: open_crawl_def Let_def)

lemma frame_cursor [db_frame]:
  "observation_t (set_crawl_cursor c p d) = observation_t d"
  "retraction_t (set_crawl_cursor c p d) = retraction_t d"
  by (simp_all add: set_crawl_cursor_def)

lemma frame_finish [db_frame]:
  "observation_t (finish_crawl c x y z d) = observation_t d"
  "retraction_t (finish_crawl c x y z d) = retraction_t d"
  by (simp_all add: finish_crawl_def)

lemma frame_resource [db_frame]:
  "upsert_resource a r k l d = Inr e \<Longrightarrow> observation_t e = observation_t d"
  "upsert_resource a r k l d = Inr e \<Longrightarrow> retraction_t e = retraction_t d"
  by (auto simp: upsert_resource_def split: if_splits)

lemma frame_balance [db_frame]:
  "observation_t (append_balance a i b x d) = observation_t d"
  "retraction_t (append_balance a i b x d) = retraction_t d"
  by (simp_all add: append_balance_def)

lemma frame_balance_read [db_frame]:
  "open_balance_read a d = Inr (i, e) \<Longrightarrow> observation_t e = observation_t d"
  "open_balance_read a d = Inr (i, e) \<Longrightarrow> retraction_t e = retraction_t d"
  by (auto simp: open_balance_read_def split: option.splits)

lemma frame_discrepancy [db_frame]:
  "append_discrepancy a r k c x n d = Inr e \<Longrightarrow> observation_t e = observation_t d"
  "append_discrepancy a r k c x n d = Inr e \<Longrightarrow> retraction_t e = retraction_t d"
  "append_discrepancy a r k c x n d = Inr e \<Longrightarrow> crawl_t e = crawl_t d"
  by (auto simp: append_discrepancy_def split: if_splits)

lemma frame_retraction [db_frame]:
  "append_retraction a l v s c n d = Inr e \<Longrightarrow> observation_t e = observation_t d"
  "append_retraction a l v s c n d = Inr e \<Longrightarrow> crawl_t e = crawl_t d"
  by (auto simp: append_retraction_def split: if_splits)

lemma frame_stamp [db_frame]:
  "stamp_seen a l v c x f d = Inr e \<Longrightarrow> retraction_t e = retraction_t d"
  "stamp_seen a l v c x f d = Inr e \<Longrightarrow> crawl_t e = crawl_t d"
  by (auto simp: stamp_seen_def Let_def split: if_splits)

lemma frame_append [db_frame]:
  "append_observation vt p d = Inr e \<Longrightarrow> retraction_t e = retraction_t d"
  "append_observation vt p d = Inr e \<Longrightarrow> crawl_t e = crawl_t d"
  by (auto simp: append_observation_def Let_def split: if_splits)

section \<open>Reading the observations back\<close>

lemma into_stored_fields:
  assumes "into_stored from_str r = Inr so"
  shows "int (so_revision so) = ro_revision r" "so_observation_id so = ro_observation_id r"
    "ob_local_id (so_observation so) = ro_local_id r"
    "pv_adapter_id (ob_provenance (so_observation so)) = ro_prov_adapter_id r"
    "so_derivation so = ro_derivation r" "so_fingerprint so = ro_fingerprint r"
    "ob_resource_id (so_observation so) = ro_resource_id r"
  using assms
  by (auto simp: into_stored_def observation_of_row_def provenance_of_row_def provenance_stamp_def res_simps
      split: if_splits)

lemma observations_rows:
  assumes "db_ok from_str d"
  shows "observations_for_adapter from_str a d = collect_rows (\<lambda>r. into_stored from_str (or_raw r)) (rows_of a d)"
  unfolding observations_for_adapter_def rows_of_def sort_key_sorted_filter [OF db_okD(1) [OF assms]] ..

lemma observations_exist:
  assumes "db_ok from_str d"
  obtains sos where "observations_for_adapter from_str a d = Inr sos"
    "list_all2 (\<lambda>r so. into_stored from_str (or_raw r) = Inr so) (rows_of a d) sos"
proof -
  have "is_ok (collect_rows (\<lambda>r. into_stored from_str (or_raw r)) (rows_of a d))"
    by (rule collect_rows_ok) (use db_okD(2) [OF assms] in \<open>auto simp: rows_of_def row_ok_def\<close>)
  then show ?thesis using that unfolding is_ok_iff collect_rows_Inr_iff observations_rows [OF assms] by blast
qed

text \<open>The observations of an adapter, in the order they were stored.\<close>

definition stored_obs :: "(string \<Rightarrow> json option) \<Rightarrow> string \<Rightarrow> db \<Rightarrow> observation list" where
  "stored_obs from_str a d =
     (case observations_for_adapter from_str a d of Inr sos \<Rightarrow> map so_observation sos | Inl _ \<Rightarrow> [])"

lemma list_all2_filter:
  assumes "list_all2 R xs ys" "\<And>x y. x \<in> set xs \<Longrightarrow> R x y \<Longrightarrow> P x = Q y"
  shows "list_all2 R (filter P xs) (filter Q ys)"
  using assms by (induction rule: list_all2_induct) auto

lemma stored_chain:
  assumes "db_ok from_str d"
  shows "length (filter (\<lambda>ob. chain_key_of ob = (a, l)) (stored_obs from_str a d)) = length (chain_recs a l d)"
proof -
  obtain sos where sos: "observations_for_adapter from_str a d = Inr sos"
    "list_all2 (\<lambda>r so. into_stored from_str (or_raw r) = Inr so) (rows_of a d) sos"
    by (rule observations_exist [OF assms])
  have "list_all2 (\<lambda>r so. into_stored from_str (or_raw r) = Inr so)
      (filter (\<lambda>r. ro_local_id (or_raw r) = l) (rows_of a d))
      (filter (\<lambda>so. chain_key_of (so_observation so) = (a, l)) sos)"
  proof (rule list_all2_filter [OF sos(2)])
    fix r so assume "r \<in> set (rows_of a d)" "into_stored from_str (or_raw r) = Inr so"
    moreover have "row_ok from_str r" "or_adapter_id r = a"
      using db_okD(2) [OF assms] \<open>r \<in> set (rows_of a d)\<close> by (auto simp: rows_of_def)
    ultimately show "(ro_local_id (or_raw r) = l) = (chain_key_of (so_observation so) = (a, l))"
      by (auto simp: chain_key_of_def into_stored_fields row_ok_def)
  qed
  then show ?thesis
    by (simp add: stored_obs_def sos(1) chain_recs_rows filter_map comp_def list_all2_lengthD)
qed

section \<open>Stamping and appending\<close>

definition same_record :: "(string \<Rightarrow> json option) \<Rightarrow> observation_rec \<Rightarrow> observation_rec \<Rightarrow> bool" where
  "same_record from_str r s \<longleftrightarrow>
     or_adapter_id r = or_adapter_id s \<and> row_id r = row_id s \<and>
     ro_local_id (or_raw r) = ro_local_id (or_raw s) \<and> ro_revision (or_raw r) = ro_revision (or_raw s) \<and>
     ro_prov_adapter_id (or_raw r) = ro_prov_adapter_id (or_raw s) \<and>
     observation_of_row from_str (or_raw r) = observation_of_row from_str (or_raw s)"

lemma map_so_observation:
  "(case collect_rows (\<lambda>r. into_stored from_str (or_raw r)) rs of Inr sos \<Rightarrow> map so_observation sos | Inl _ \<Rightarrow> []) =
   (case collect_rows (\<lambda>r. map_sum id so_observation (into_stored from_str (or_raw r))) rs of
      Inr obs \<Rightarrow> obs | Inl _ \<Rightarrow> [])"
proof -
  have "collect_rows (\<lambda>r. map_sum id so_observation (into_stored from_str (or_raw r))) rs =
      map_sum id (map so_observation) (collect_rows (\<lambda>r. into_stored from_str (or_raw r)) rs)"
  proof (induction rs)
    case (Cons r rs)
    then show ?case
      by (cases "into_stored from_str (or_raw r)"; cases "collect_rows (\<lambda>r. into_stored from_str (or_raw r)) rs")
        simp_all
  qed simp
  then show ?thesis by (cases "collect_rows (\<lambda>r. into_stored from_str (or_raw r)) rs") simp_all
qed

lemma same_record_stored:
  assumes "same_record from_str r s"
  shows "map_sum id so_observation (into_stored from_str (or_raw r)) =
         map_sum id so_observation (into_stored from_str (or_raw s))"
  using assms
  by (cases "observation_of_row from_str (or_raw s)") (auto simp: same_record_def into_stored_def)

lemma map_sum_is_ok: "is_ok (map_sum id f x) = is_ok x"
  by (cases x) simp_all

lemma retagged:
  assumes "db_ok from_str d" "observation_t e = map g (observation_t d)" "retraction_t e = retraction_t d"
    and g: "\<And>r. same_record from_str (g r) r"
  shows "db_ok from_str e" "stored_obs from_str a e = stored_obs from_str a d"
    "length (chain_recs a l e) = length (chain_recs a l d)"
proof -
  have f: "or_adapter_id (g r) = or_adapter_id r" "row_id (g r) = row_id r"
    "ro_local_id (or_raw (g r)) = ro_local_id (or_raw r)" "ro_revision (or_raw (g r)) = ro_revision (or_raw r)"
    "ro_prov_adapter_id (or_raw (g r)) = ro_prov_adapter_id (or_raw r)" for r
    using g [of r] by (simp_all add: same_record_def)
  have ch: "chain_recs a l e = map g (chain_recs a l d)" for a l
    by (simp add: chain_recs_def assms(2) filter_map comp_def f)
  have rows: "rows_of a e = map g (rows_of a d)" for a
    by (simp add: rows_of_def assms(2) filter_map comp_def f)
  have ok: "row_ok from_str (g r)" if "row_ok from_str r" for r
    using that map_sum_is_ok [of so_observation] same_record_stored [OF g [of r]] by (metis f(1) f(5) row_ok_def)
  show e: "db_ok from_str e"
    using db_okD [OF assms(1)]
    by (auto simp: db_ok_def assms(2,3) ch f comp_def ok)
  show "length (chain_recs a l e) = length (chain_recs a l d)" by (simp add: ch)
  have "collect_rows (\<lambda>r. map_sum id so_observation (into_stored from_str (or_raw r))) (map g rs) =
      collect_rows (\<lambda>r. map_sum id so_observation (into_stored from_str (or_raw r))) rs" for rs
    by (induction rs) (simp_all only: collect_rows.simps list.map same_record_stored [OF g])
  then show "stored_obs from_str a e = stored_obs from_str a d"
    unfolding stored_obs_def observations_rows [OF assms(1)] observations_rows [OF e] map_so_observation rows by simp
qed

lemma stamp_same: "same_record from_str (r\<lparr>or_raw := (or_raw r)\<lparr>ro_last_seen_crawl := c, ro_derivation := v,
    ro_fingerprint := f\<rparr>\<rparr>) r"
  by (simp add: same_record_def observation_of_row_def provenance_of_row_def)

lemma stamp_seen_ok:
  assumes "db_ok from_str d" "stamp_seen a l v c x f d = Inr e"
  shows "db_ok from_str e" "stored_obs from_str a' e = stored_obs from_str a' d"
    "length (chain_recs a' l' e) = length (chain_recs a' l' d)"
    "length (observation_t e) = length (observation_t d)"
proof -
  let ?hit = "\<lambda>r. or_adapter_id r = a \<and> ro_local_id (or_raw r) = l \<and> ro_revision (or_raw r) = sql_revision v"
  let ?g = "\<lambda>r. if ?hit r then r\<lparr>or_raw := (or_raw r)\<lparr>ro_last_seen_crawl := c, ro_derivation := x,
    ro_fingerprint := f\<rparr>\<rparr> else r"
  have e: "observation_t e = map ?g (observation_t d)"
    using assms(2) by (auto simp: stamp_seen_def Let_def update_where_def split: if_splits)
  have g: "same_record from_str (?g r) r" for r
  proof (cases "?hit r")
    case True
    show ?thesis unfolding if_P [OF True] by (rule stamp_same)
  next
    case False
    show ?thesis unfolding if_not_P [OF False] by (simp add: same_record_def)
  qed
  note t = retagged [OF assms(1) e frame_stamp(1) [OF assms(2)] g]
  show "db_ok from_str e" "stored_obs from_str a' e = stored_obs from_str a' d"
    "length (chain_recs a' l' e) = length (chain_recs a' l' d)" by (rule t)+
  show "length (observation_t e) = length (observation_t d)" by (simp add: e)
qed

lemma stamp_seen_exists: "crawl_exists c d \<Longrightarrow> is_ok (stamp_seen a l v c x f d)"
  by (simp add: stamp_seen_def Let_def)

lemma append_row:
  assumes "append_observation value_text p d = Inr e"
  shows "observation_t e = observation_t d @
    [\<lparr>or_adapter_id = ap_adapter_id p, or_raw = row_of_append value_text (next_rowid (map row_id (observation_t d))) p\<rparr>]"
  using assms by (auto simp: append_observation_def Let_def split: if_splits)

lemma row_of_append_simps [simp]:
  "ro_observation_id (row_of_append vt i p) = i"
  "ro_local_id (row_of_append vt i p) = ob_local_id (ap_observation p)"
  "ro_revision (row_of_append vt i p) = sql_revision (ap_revision p)"
  "ro_prov_adapter_id (row_of_append vt i p) = pv_adapter_id (ob_provenance (ap_observation p))"
  by (simp_all add: row_of_append_def Let_def)

lemma append_observation_ok:
  assumes d: "db_ok from_str d" and e: "append_observation value_text p d = Inr e"
    and ob: "observation_ok value_text from_str (ap_observation p)"
    and own: "pv_adapter_id (ob_provenance (ap_observation p)) = ap_adapter_id p"
    and rev: "ap_revision p = length (chain_recs (ap_adapter_id p) (ob_local_id (ap_observation p)) d) + 1"
    and room: "int (ap_revision p) \<le> i64_max"
  shows "db_ok from_str e"
    "stored_obs from_str a e = stored_obs from_str a d @ (if a = ap_adapter_id p then [ap_observation p] else [])"
    "length (chain_recs a l e) =
       length (chain_recs a l d) + (if a = ap_adapter_id p \<and> l = ob_local_id (ap_observation p) then 1 else 0)"
    "length (observation_t e) = length (observation_t d) + 1"
proof -
  let ?i = "next_rowid (map row_id (observation_t d))"
  let ?new = "\<lparr>or_adapter_id = ap_adapter_id p, or_raw = row_of_append value_text ?i p\<rparr>"
  note te = append_row [OF e]
  have row: "into_stored from_str (row_of_append value_text ?i p) = Inr (stored_of ?i p)"
    by (rule row_roundtrip [OF ob room])
  have ch: "chain_recs a l e = chain_recs a l d @
      (if a = ap_adapter_id p \<and> l = ob_local_id (ap_observation p) then [?new] else [])" for a l
    by (simp add: chain_recs_def te)
  have sql: "sql_revision (ap_revision p) = int (ap_revision p)" using room by (simp add: sql_revision_def)
  note D = db_okD [OF d]
  have ids: "sorted_wrt (<) (map row_id (observation_t e))"
    unfolding te map_append list.map using sorted_wrt_next_rowid [OF D(1)] by simp
  have nums: "map (\<lambda>r. ro_revision (or_raw r)) (chain_recs a l e) = map int [1..<Suc (length (chain_recs a l e))]" for a l
    using D(3) [of a l] rev sql unfolding ch by auto
  have rets: "0 \<le> rt_revision t \<and>
      rt_revision t \<le> int (length (chain_recs (rt_adapter_id t) (rt_local_id t) e))"
    if "t \<in> set (retraction_t e)" for t
    using D(4) [of t] that frame_append(1) [OF e] unfolding ch by auto
  show de: "db_ok from_str e"
    unfolding db_ok_def using ids D(2) nums rets by (auto simp: te row_ok_def row own)
  show "length (chain_recs a l e) =
       length (chain_recs a l d) + (if a = ap_adapter_id p \<and> l = ob_local_id (ap_observation p) then 1 else 0)"
    by (simp add: ch)
  show "length (observation_t e) = length (observation_t d) + 1" by (simp add: te)
  have rows: "rows_of a e = rows_of a d @ (if a = ap_adapter_id p then [?new] else [])"
    by (simp add: rows_of_def te)
  obtain sos where "observations_for_adapter from_str a d = Inr sos" by (rule observations_exist [OF d])
  then show "stored_obs from_str a e = stored_obs from_str a d @ (if a = ap_adapter_id p then [ap_observation p] else [])"
    unfolding stored_obs_def observations_rows [OF d] observations_rows [OF de] rows collect_rows_append
    by (simp add: row stored_of_def)
qed

lemma append_observation_exists:
  assumes d: "db_ok from_str d" and c: "crawl_exists (ap_crawl_id p) d"
    and rev: "ap_revision p = length (chain_recs (ap_adapter_id p) (ob_local_id (ap_observation p)) d) + 1"
    and room: "int (ap_revision p) \<le> i64_max"
  shows "is_ok (append_observation value_text p d)"
proof -
  let ?a = "ap_adapter_id p" and ?l = "ob_local_id (ap_observation p)"
  have sql: "sql_revision (ap_revision p) = int (length (chain_recs ?a ?l d)) + 1"
    using room rev by (simp add: sql_revision_def)
  have fresh: False if "r \<in> set (observation_t d)" "or_adapter_id r = ?a" "ro_local_id (or_raw r) = ?l"
    "ro_revision (or_raw r) = sql_revision (ap_revision p)" for r
  proof -
    have "r \<in> set (chain_recs ?a ?l d)" using that by (simp add: chain_recs_def)
    then have "ro_revision (or_raw r) \<in> set (map (\<lambda>r. ro_revision (or_raw r)) (chain_recs ?a ?l d))" by simp
    then have "ro_revision (or_raw r) \<le> int (length (chain_recs ?a ?l d))"
      unfolding db_okD(3) [OF d] by auto
    then show False using that(4) sql by simp
  qed
  have "(?a, ?l, sql_revision (ap_revision p)) \<notin>
      set (map (\<lambda>r. (or_adapter_id r, ro_local_id (or_raw r), ro_revision (or_raw r))) (observation_t d))"
  proof
    assume "(?a, ?l, sql_revision (ap_revision p)) \<in>
      set (map (\<lambda>r. (or_adapter_id r, ro_local_id (or_raw r), ro_revision (or_raw r))) (observation_t d))"
    then obtain r where "r \<in> set (observation_t d)" "or_adapter_id r = ?a" "ro_local_id (or_raw r) = ?l"
      "ro_revision (or_raw r) = sql_revision (ap_revision p)" by fastforce
    then show False by (rule fresh)
  qed
  then show ?thesis using c by (simp add: append_observation_def Let_def)
qed

section \<open>Crawls and cursors\<close>

definition has_cursor :: "string \<Rightarrow> string \<Rightarrow> crawl_row \<Rightarrow> bool" where
  "has_cursor a r c \<longleftrightarrow> cw_adapter_id c = a \<and> cw_resource_id c = r \<and> cw_next_page c \<noteq> None"

lemma resumable_filter:
  "resumable_crawl a r d =
     (case newest_crawls (filter (\<lambda>c. has_cursor a r c \<and> \<not> cw_drained c) (crawl_t d)) of
        [] \<Rightarrow> None | c # _ \<Rightarrow> Some c)"
proof -
  have "(\<lambda>c. has_cursor a r c \<and> \<not> cw_drained c) =
      (\<lambda>c. cw_adapter_id c = a \<and> cw_resource_id c = r \<and> \<not> cw_drained c \<and> cw_next_page c \<noteq> None)"
    by (auto simp: has_cursor_def fun_eq_iff)
  then show ?thesis by (simp only: resumable_crawl_def)
qed

lemma cleared_cursors:
  fixes cs a r
  defines "cleared \<equiv> update_where (\<lambda>c. cw_adapter_id c = a \<and> cw_resource_id c = r \<and> cw_next_page c \<noteq> None)
     (cw_next_page_update (\<lambda>_. None)) cs"
  shows "filter (\<lambda>c. has_cursor a' r' c \<and> \<not> cw_drained c) cleared =
    (if a' = a \<and> r' = r then [] else filter (\<lambda>c. has_cursor a' r' c \<and> \<not> cw_drained c) cs)"
  unfolding cleared_def update_where_def by (induction cs) (auto simp: has_cursor_def)

section \<open>The freshness of balances\<close>

text \<open>No balance was read after the current read of its adapter, and adapters are listed once.\<close>

definition reads_ok :: "db \<Rightarrow> bool" where
  "reads_ok d \<longleftrightarrow>
     distinct (map at_adapter_id (adapter_t d)) \<and>
     (\<forall>b\<in>set (balance_t d). \<forall>r\<in>set (adapter_t d).
        at_adapter_id r = bt_adapter_id b \<longrightarrow> bt_read_id b \<le> at_balance_read r)"

lemma find_update_where:
  assumes "\<And>r. Q (f r) = Q r"
  shows "List.find Q (update_where P f rows) = map_option (\<lambda>r. if P r then f r else r) (List.find Q rows)"
  using assms by (induction rows) (simp_all add: update_where_def)

lemma open_balance_read_row:
  assumes "open_balance_read a d = Inr (i, e)"
  shows "List.find (\<lambda>r. at_adapter_id r = a') (adapter_t e) =
     map_option (\<lambda>r. if at_adapter_id r = a then at_balance_read_update (\<lambda>n. n + 1) r else r)
       (List.find (\<lambda>r. at_adapter_id r = a') (adapter_t d))"
    "balance_t e = balance_t d"
    "\<exists>r. List.find (\<lambda>r. at_adapter_id r = a) (adapter_t d) = Some r \<and> i = at_balance_read r + 1"
    "adapter_t e = update_where (\<lambda>r. at_adapter_id r = a) (at_balance_read_update (\<lambda>n. n + 1)) (adapter_t d)"
  using assms by (auto simp: open_balance_read_def find_update_where split: option.splits)

section \<open>The content of an observation\<close>

lemma ser_enum_inj [simp]:
  "ser_enum state_names s = ser_enum state_names s' \<longleftrightarrow> s = s'"
  "ser_enum posting_names p = ser_enum posting_names p' \<longleftrightarrow> p = p'"
  "ser_enum raw_sign_names r = ser_enum raw_sign_names r' \<longleftrightarrow> r = r'"
  "ser_enum completeness_names c = ser_enum completeness_names c' \<longleftrightarrow> c = c'"
  using de_ser_state de_ser_posting de_ser_raw_sign de_ser_completeness by (metis Inr_inject)+

lemma money_json_inj:
  assumes "opt_ok money_ok v" "opt_ok money_ok w"
  shows "money_json v = money_json w \<longleftrightarrow> v = w"
proof
  assume eq: "money_json v = money_json w"
  show "v = w"
  proof (cases v; cases w)
    fix m n assume vw: "v = Some m" "w = Some n"
    have "map_of [(''asset'', JStr (as_str (asset m))), (''amount'', JStr (display m))] =
        map_of [(''asset'', JStr (as_str (asset n))), (''amount'', JStr (display n))]"
      by (rule btree_of_inject) (use eq vw in \<open>simp_all add: money_json_def\<close>)
    note fields = fun_cong [OF this]
    have "as_str (asset m) = as_str (asset n)" "display m = display n"
      using fields [of "''asset''"] fields [of "''amount''"] by simp_all
    moreover have "parse (asset m) (display m) = Inr m" "parse (asset n) (display n) = Inr n"
      using assms vw by (simp_all add: money_ok_def parse_display)
    ultimately show "v = w" using vw by (metis Inr_inject asset_id.expand)
  qed (use eq in \<open>simp_all add: money_json_def\<close>)
qed simp

text \<open>What the adapter says of a record: everything but where and when the host read it.\<close>

definition same_content :: "observation \<Rightarrow> observation \<Rightarrow> bool" where
  "same_content x y \<longleftrightarrow>
     ob_resource_id x = ob_resource_id y \<and> ob_local_id x = ob_local_id y \<and> ob_provider_id x = ob_provider_id y \<and>
     ob_supersedes_provider_id x = ob_supersedes_provider_id y \<and> ob_state x = ob_state y \<and>
     ob_tombstone_reason x = ob_tombstone_reason y \<and> ob_surface x = ob_surface y \<and>
     ob_posting x = ob_posting y \<and> ob_amount x = ob_amount y \<and> ob_fees x = ob_fees y \<and>
     ob_raw_sign x = ob_raw_sign y \<and> ob_description x = ob_description y \<and>
     ob_provider_extra x = ob_provider_extra y \<and>
     pv_observed_at (ob_provenance x) = pv_observed_at (ob_provenance y) \<and>
     pv_effective_at (ob_provenance x) = pv_effective_at (ob_provenance y) \<and>
     pv_completeness (ob_provenance x) = pv_completeness (ob_provenance y)"

lemma content_fields_keys: "distinct (map fst (content_fields x))"
  by (simp add: content_fields_def)

lemma map_option_ts_str: "map_option ts_str v = map_option ts_str w \<longleftrightarrow> v = w"
  by (rule inj_eq [OF option.inj_map]) (auto intro: injI rfc3339.expand)

lemma content_field:
  assumes "content_json x = content_json y"
  shows "map_of (content_fields x) k = map_of (content_fields y) k"
  using btree_of_inject [OF _ content_fields_keys content_fields_keys, of x y] assms
  by (simp add: content_json_def)

lemma same_content_json: "same_content x y \<Longrightarrow> content_json x = content_json y"
  by (simp add: same_content_def content_json_def content_fields_def)

lemma content_json_same:
  assumes "content_json x = content_json y"
    and "money_ok (ob_amount x)" "money_ok (ob_amount y)" "opt_ok money_ok (ob_fees x)" "opt_ok money_ok (ob_fees y)"
  shows "same_content x y"
proof -
  note f = content_field [OF assms(1), unfolded content_fields_def]
  have m: "money_json (Some (ob_amount x)) = money_json (Some (ob_amount y))" using f [of "''amount''"] by simp
  have e: "money_json (ob_fees x) = money_json (ob_fees y)" using f [of "''fees''"] by simp
  have strs: "ob_resource_id x = ob_resource_id y" "ob_local_id x = ob_local_id y"
    "ob_surface x = ob_surface y" "ob_description x = ob_description y"
    using f [of "''resource_id''"] f [of "''local_id''"] f [of "''surface''"] f [of "''description''"] by simp_all
  have opts: "ob_provider_id x = ob_provider_id y" "ob_supersedes_provider_id x = ob_supersedes_provider_id y"
    "ob_tombstone_reason x = ob_tombstone_reason y"
    using f [of "''provider_id''"] f [of "''supersedes_provider_id''"] f [of "''tombstone_reason''"] by simp_all
  have enums: "ob_state x = ob_state y" "ob_posting x = ob_posting y" "ob_raw_sign x = ob_raw_sign y"
    "pv_completeness (ob_provenance x) = pv_completeness (ob_provenance y)"
    using f [of "''state''"] f [of "''posting''"] f [of "''raw_sign''"] f [of "''completeness''"] by simp_all
  have times: "pv_observed_at (ob_provenance x) = pv_observed_at (ob_provenance y)"
    "pv_effective_at (ob_provenance x) = pv_effective_at (ob_provenance y)"
    using f [of "''observed_at''"] f [of "''effective_at''"] by (simp_all add: map_option_ts_str rfc3339.expand)
  have extra: "ob_provider_extra x = ob_provider_extra y" using f [of "''provider_extra''"] by simp
  show ?thesis
    unfolding same_content_def
    using m e strs opts enums times extra assms(2-5) money_json_inj [of "Some (ob_amount x)" "Some (ob_amount y)"]
      money_json_inj [of "ob_fees x" "ob_fees y"] by simp
qed

section \<open>The properties\<close>

text \<open>
  C40. Storing is lossless: once an observation that came through the wire readers has been
  appended, reading the adapter's observations back gives the ones of before, and after them this
  one with its revision, its crawl, its derivation and fingerprint and its content hash, as given.
\<close>

theorem stored_roundtrip:
  assumes "db_ok from_str d" "append_observation value_text p d = Inr e"
    "observation_ok value_text from_str (ap_observation p)"
    "pv_adapter_id (ob_provenance (ap_observation p)) = ap_adapter_id p"
    "ap_revision p = length (chain_recs (ap_adapter_id p) (ob_local_id (ap_observation p)) d) + 1"
    "int (ap_revision p) \<le> i64_max"
  shows "\<exists>sos i. observations_for_adapter from_str (ap_adapter_id p) d = Inr sos \<and>
           observations_for_adapter from_str (ap_adapter_id p) e = Inr (sos @ [stored_of i p]) \<and> db_ok from_str e"
proof -
  let ?i = "next_rowid (map row_id (observation_t d))"
  have de: "db_ok from_str e" by (rule append_observation_ok [OF assms])
  obtain sos where sos: "observations_for_adapter from_str (ap_adapter_id p) d = Inr sos"
    by (rule observations_exist [OF assms(1)])
  have "rows_of (ap_adapter_id p) e = rows_of (ap_adapter_id p) d @
      [\<lparr>or_adapter_id = ap_adapter_id p, or_raw = row_of_append value_text ?i p\<rparr>]"
    by (simp add: rows_of_def append_row [OF assms(2)])
  then have "observations_for_adapter from_str (ap_adapter_id p) e = Inr (sos @ [stored_of ?i p])"
    using sos row_roundtrip [OF assms(3,6), of ?i]
    by (simp add: observations_rows [OF de] observations_rows [OF assms(1)] collect_rows_append)
  then show ?thesis using sos de by blast
qed

definition sample_db :: db where
  "sample_db = snd (open_crawl ''a1'' ''wallet'' ''t'' None ''v1'' None db_new)"

definition sample_append :: append_args where
  "sample_append =
     \<lparr>ap_adapter_id = ''a1'', ap_revision = 1, ap_crawl_id = 1, ap_derivation = ''v1'', ap_fingerprint = None,
      ap_content_hash = ''h'', ap_observation = sample_observation ''x'' Active ''2026-01-01T00:00:00Z''\<rparr>"

lemma sample_ok:
  "observation_ok (\<lambda>_. ''{}'') (\<lambda>_. Some (JObj [])) (sample_observation l st ''2026-01-01T00:00:00Z'')"
proof -
  have "rfc_ok (Rfc3339 ''2026-01-01T00:00:00Z'')" unfolding rfc_ok_def by code_simp
  moreover have "amount_ok \<lparr>asset = AssetId ''sat'', units = 5, scale = 0\<rparr>" by code_simp
  moreover have "asset_ok (AssetId ''sat'')" by code_simp
  ultimately show ?thesis
    by (simp add: observation_ok_def sample_observation_def money_ok_def provenance_ok_def map_parsed_def
        json_parsed_def btree_of_def)
qed

theorem stored_roundtrip_witness:
  "\<exists>e i. append_observation (\<lambda>_. ''{}'') sample_append sample_db = Inr e \<and>
     observations_for_adapter (\<lambda>_. Some (JObj [])) ''a1'' e = Inr [stored_of i sample_append]"
proof -
  have d: "db_ok (\<lambda>_. Some (JObj [])) sample_db"
    using db_ok_new [of "\<lambda>_. Some (JObj [])"] db_ok_cong frame_open_crawl unfolding sample_db_def by metis
  have empty: "observation_t sample_db = []" by (simp add: sample_db_def frame_open_crawl db_new_def)
  have c: "crawl_exists (ap_crawl_id sample_append) sample_db"
    by (simp add: crawl_exists_def sample_db_def sample_append_def open_crawl_def Let_def db_new_def
        update_where_def next_rowid_def)
  have "is_ok (append_observation (\<lambda>_. ''{}'') sample_append sample_db)"
    using c by (simp add: append_observation_def empty Let_def)
  then obtain e where e: "append_observation (\<lambda>_. ''{}'') sample_append sample_db = Inr e" by (auto simp: is_ok_iff)
  have "\<exists>sos i. observations_for_adapter (\<lambda>_. Some (JObj [])) (ap_adapter_id sample_append) sample_db = Inr sos \<and>
      observations_for_adapter (\<lambda>_. Some (JObj [])) (ap_adapter_id sample_append) e =
        Inr (sos @ [stored_of i sample_append]) \<and> db_ok (\<lambda>_. Some (JObj [])) e"
    using d e by (rule stored_roundtrip)
      (simp_all add: sample_append_def sample_ok chain_recs_def empty sample_observation_def i64_max_def
        sample_ok [unfolded sample_observation_def])
  then show ?thesis using e
    by (auto simp: observations_rows [OF d] rows_of_def empty sample_append_def)
qed

text \<open>
  Opening a crawl retires every earlier resume point of its resource and touches no other:
  afterwards \<open>--resume\<close> finds the crawl just opened, if it started at a cursor, and nothing
  otherwise; for every other resource it finds what it found before.
\<close>

theorem open_crawl_retires_cursors:
  "let (c, e) = open_crawl a r started start derivation fingerprint d in
     resumable_crawl a' r' e =
       (if a' = a \<and> r' = r then
          map_option (\<lambda>p. \<lparr>cw_crawl_id = c, cw_adapter_id = a, cw_resource_id = r, cw_started_at = started,
              cw_start_page = Some p, cw_next_page = Some p, cw_derivation = derivation,
              cw_fingerprint = fingerprint, cw_drained = False, cw_complete = False,
              cw_disqualified_reason = None\<rparr>) start
        else resumable_crawl a' r' d)"
proof -
  let ?new = "\<lambda>c. \<lparr>cw_crawl_id = c, cw_adapter_id = a, cw_resource_id = r, cw_started_at = started,
              cw_start_page = start, cw_next_page = start, cw_derivation = derivation,
              cw_fingerprint = fingerprint, cw_drained = False, cw_complete = False,
              cw_disqualified_reason = None\<rparr>"
  have new: "has_cursor a' r' (?new c) = (a' = a \<and> r' = r \<and> start \<noteq> None)" for c
    by (auto simp: has_cursor_def)
  let ?cleared = "update_where (\<lambda>c. cw_adapter_id c = a \<and> cw_resource_id c = r \<and> cw_next_page c \<noteq> None)
     (cw_next_page_update (\<lambda>_. None)) (crawl_t d)"
  have "filter (\<lambda>c. has_cursor a' r' c \<and> \<not> cw_drained c) (?cleared @ [?new c]) =
      (if a' = a \<and> r' = r then (if start = None then [] else [?new c])
       else filter (\<lambda>c. has_cursor a' r' c \<and> \<not> cw_drained c) (crawl_t d))" for c
    unfolding filter_append cleared_cursors using new [of c] by simp
  moreover have "crawl_t (snd (open_crawl a r started start derivation fingerprint d)) =
      ?cleared @ [?new (fst (open_crawl a r started start derivation fingerprint d))]"
    by (simp add: open_crawl_def Let_def)
  ultimately show ?thesis
    by (cases start) (simp_all add: resumable_filter newest_crawls_def split_beta)
qed

text \<open>
  Opening a read of an adapter makes every figure stored for it stale and leaves the others as
  they were; a figure appended under the read just opened is fresh, and the invariant, that no
  figure is newer than the current read, survives both.
\<close>

theorem open_read_makes_stale:
  assumes "reads_ok d" "open_balance_read a d = Inr (i, e)"
  shows "reads_ok e \<and> reads_ok (append_balance a i b x e) \<and>
    list_all (\<lambda>f. is_latest_read e f = (bt_adapter_id f \<noteq> a \<and> is_latest_read d f)) (balance_t e) \<and>
    is_latest_read (append_balance a i b x e) (last (balance_t (append_balance a i b x e)))"
proof -
  note row = open_balance_read_row [OF assms(2)]
  have "map at_adapter_id (adapter_t e) = map at_adapter_id (adapter_t d)"
    unfolding row(4) by (rule map_update_where) simp
  moreover have "bt_read_id b \<le> at_balance_read r"
    if b: "b \<in> set (balance_t d)" "r \<in> set (adapter_t e)" "at_adapter_id r = bt_adapter_id b" for b r
  proof -
    obtain s where s: "s \<in> set (adapter_t d)" "at_adapter_id s = at_adapter_id r" "at_balance_read s \<le> at_balance_read r"
      using b(2) unfolding row(4) update_where_def by (auto split: if_splits)
    then have "bt_read_id b \<le> at_balance_read s" using assms(1) b(1,3) by (simp add: reads_ok_def)
    with s(3) show ?thesis by simp
  qed
  ultimately have e: "reads_ok e" using assms(1) by (simp add: reads_ok_def row(2))
  have not_current: "bt_read_id f \<noteq> i" if "f \<in> set (balance_t d)" "bt_adapter_id f = a" for f
  proof -
    obtain r where r: "List.find (\<lambda>r. at_adapter_id r = a) (adapter_t d) = Some r" "i = at_balance_read r + 1"
      using row(3) by blast
    then have "bt_read_id f \<le> at_balance_read r"
      using find_SomeD [OF r(1)] assms(1) that by (auto simp: reads_ok_def)
    then show ?thesis using r(2) by simp
  qed
  have current: "\<exists>r. List.find (\<lambda>r. at_adapter_id r = a) (adapter_t e) = Some r \<and> at_balance_read r = i"
  proof -
    obtain r where r: "List.find (\<lambda>r. at_adapter_id r = a) (adapter_t d) = Some r" "i = at_balance_read r + 1"
      using row(3) by blast
    moreover from find_SomeD [OF r(1)] have "at_adapter_id r = a" by simp
    ultimately show ?thesis using row(1) [of a] by simp
  qed
  have stale: "is_latest_read e f = (bt_adapter_id f \<noteq> a \<and> is_latest_read d f)" if "f \<in> set (balance_t d)" for f
  proof (cases "bt_adapter_id f = a")
    case True
    then show ?thesis using current not_current [OF that True] by (auto simp: is_latest_read_def)
  next
    case False
    then have "List.find (\<lambda>r. at_adapter_id r = bt_adapter_id f) (adapter_t e) =
        List.find (\<lambda>r. at_adapter_id r = bt_adapter_id f) (adapter_t d)"
      using row(1) [of "bt_adapter_id f"]
      by (cases "List.find (\<lambda>r. at_adapter_id r = bt_adapter_id f) (adapter_t d)") (auto dest: find_SomeD)
    then show ?thesis using False by (simp add: is_latest_read_def)
  qed
  obtain r where r: "List.find (\<lambda>r. at_adapter_id r = a) (adapter_t e) = Some r" "at_balance_read r = i"
    using current by blast
  have only: "s = r" if "s \<in> set (adapter_t e)" "at_adapter_id s = a" for s
    using e find_SomeD [OF r(1)] that unfolding reads_ok_def by (metis distinct_map inj_onD)
  have "reads_ok (append_balance a i b x e)"
    using e r(2) only by (auto simp: reads_ok_def append_balance_def)
  moreover have "is_latest_read (append_balance a i b x e) (last (balance_t (append_balance a i b x e)))"
    using r by (simp add: is_latest_read_def append_balance_def)
  ultimately show ?thesis using e stale by (simp add: list_all_iff row(2))
qed

definition sample_balance :: balance where
  "sample_balance =
     \<lparr>bl_resource_id = ''wallet'', bl_category = ''total'', bl_canonical_hint = Some Total, bl_amount = None,
      bl_provenance = ob_provenance (sample_observation ''x'' Active ''2026-01-01T00:00:00Z'')\<rparr>"

text \<open>A database with one adapter whose first read stored one figure.\<close>

definition sample_reads :: db where
  "sample_reads = append_balance ''a1'' 1 sample_balance ''fetched''
     (db_new\<lparr>adapter_t := [\<lparr>at_adapter_id = ''a1'', at_argv = ''[]'', at_derivation = None,
                            at_needs_reauth = False, at_balance_read = 1\<rparr>]\<rparr>)"

theorem open_read_makes_stale_witness:
  "\<exists>e. open_balance_read ''a1'' sample_reads = Inr (2, e) \<and> balance_t e \<noteq> [] \<and>
       list_all (\<lambda>f. \<not> is_latest_read e f) (balance_t e)"
proof -
  have ok: "reads_ok sample_reads" by (simp add: reads_ok_def sample_reads_def append_balance_def db_new_def)
  obtain e where e: "open_balance_read ''a1'' sample_reads = Inr (2, e)"
    by (simp add: open_balance_read_def sample_reads_def append_balance_def)
  have "\<forall>f\<in>set (balance_t e). bt_adapter_id f = ''a1''" "balance_t e \<noteq> []"
    unfolding open_balance_read_row(2) [OF e] by (simp_all add: sample_reads_def append_balance_def db_new_def)
  then show ?thesis using open_read_makes_stale [OF ok e] e by (auto simp: list_all_iff)
qed

text \<open>
  The content hash sees everything an adapter says of a record and nothing else: the hashed
  value of two observations is the same exactly if all sixteen content fields agree, so neither
  the receipt time nor the vantage nor the revision can make a record look changed; and the
  hexadecimal text adds no collision to those of the digest.
\<close>

theorem content_hash_discriminates:
  assumes "money_ok (ob_amount x)" "money_ok (ob_amount y)" "opt_ok money_ok (ob_fees x)" "opt_ok money_ok (ob_fees y)"
  shows "(content_json x = content_json y \<longleftrightarrow> same_content x y) \<and>
    (content_hash sha value_text x = content_hash sha value_text y \<longleftrightarrow>
       sha (value_text (content_json x)) = sha (value_text (content_json y)))"
  using content_json_same [OF _ assms] same_content_json by (auto simp: content_hash_def hex_inj)

theorem content_hash_discriminates_witness:
  "content_json (sample_observation ''x'' Active ''2026-01-01T00:00:00Z'') \<noteq>
   content_json (sample_observation ''x'' observation_state.Tombstoned ''2026-01-01T00:00:00Z'')"
proof -
  have ok: "money_ok (ob_amount (sample_observation l st ''2026-01-01T00:00:00Z''))"
    "opt_ok money_ok (ob_fees (sample_observation l st ''2026-01-01T00:00:00Z''))" for l st
    using sample_ok [of l st] by (simp_all add: observation_ok_def)
  show ?thesis
    using content_hash_discriminates [OF ok(1) ok(1) ok(2) ok(2), of "''x''" Active "''x''" observation_state.Tombstoned]
    by (simp add: same_content_def sample_observation_def)
qed

end
