(* ===== verification/Sweep.thy ===== *)
theory Sweep
  imports Store Content Revisions
begin

text \<open>
  One sweep of one resource and the retractions it earns (\<open>core/store/src/sweep.rs\<close>). The
  adapter is the parameter \<open>read\<close>: what \<open>history_read\<close> returns for the n-th page of the sweep and
  the query sent. \<open>now\<close> is the clock at the start, \<open>held\<close> the violation verdict of the connection
  while the final page commits. A transaction that fails leaves the database of before it; the
  result therefore pairs the outcome with the database that is on disk afterwards.
\<close>

section \<open>Constants and records\<close>

definition MAX_PAGES :: nat where "MAX_PAGES = 100000"

definition REASON_DERIVATION :: string where "REASON_DERIVATION = ''derivation_changed''"
definition REASON_DEFINITION :: string where "REASON_DEFINITION = ''resource_definition_changed''"
definition REASON_ABSENT :: string where "REASON_ABSENT = ''absent_from_complete_sweep''"

definition KIND_DERIVATION :: string where "KIND_DERIVATION = ''derivation_changed''"
definition KIND_DEFINITION :: string where "KIND_DEFINITION = ''resource_definition_changed''"
definition KIND_VANTAGE :: string where "KIND_VANTAGE = ''vantage_changed''"
definition KIND_EMPTY :: string where "KIND_EMPTY = ''empty_sweep''"
definition KIND_HISTORY_START :: string where "KIND_HISTORY_START = ''history_start_exempt''"

record sweep_options =
  op_resume :: bool
  op_confirm_empty :: bool

record discrepancy =
  dc_kind :: string
  dc_detail :: string

record sweep_report =
  sp_adapter_id :: string
  sp_resource_id :: string
  sp_crawl_id :: "int option"
  sp_new :: nat
  sp_revised :: nat
  sp_unchanged :: nat
  sp_retracted :: nat
  sp_complete :: bool
  sp_disqualified_reason :: "string option"
  sp_discrepancies :: "discrepancy list"
  sp_error :: "string option"
  sp_contract_violation :: "string option"

definition report_empty :: "string \<Rightarrow> string \<Rightarrow> sweep_report" where
  "report_empty a r =
     \<lparr>sp_adapter_id = a, sp_resource_id = r, sp_crawl_id = None, sp_new = 0, sp_revised = 0,
      sp_unchanged = 0, sp_retracted = 0, sp_complete = False, sp_disqualified_reason = None,
      sp_discrepancies = [], sp_error = None, sp_contract_violation = None\<rparr>"

record gate =
  gt_began_at_start_of_history :: bool
  gt_drained :: bool
  gt_every_page_fetched :: bool
  gt_anonymous_degrade :: bool
  gt_every_cursor_exact :: bool
  gt_hello_derivation :: string
  gt_foreign_provenance :: bool
  gt_not_fetched :: "string option"
  gt_connection_violation :: "string option"

record sweep_input =
  si_adapter_id :: string
  si_resource_id :: string
  si_hello_derivation :: string
  si_fingerprint :: string
  si_provider_id :: string
  si_history_start :: "rfc3339 option"
  si_connection_violation :: "string option"
  si_options :: sweep_options

record head_meta =
  hm_derivation :: string
  hm_fingerprint :: "string option"

record page_counts =
  pc_new :: nat
  pc_revised :: nat
  pc_unchanged :: nat

fun broke_the_contract :: "host_error \<Rightarrow> bool" where
  "broke_the_contract (Wire e) = (eb_code e = InvalidRequest)"
| "broke_the_contract (ProtocolViolation _) = True"
| "broke_the_contract Timeout = False"
| "broke_the_contract (AdapterCrashed _) = False"
| "broke_the_contract (Spawn _) = False"
| "broke_the_contract IdsExhausted = False"

fun outcome_name :: "read_outcome \<Rightarrow> string" where
  "outcome_name (Fetched _) = ''fetched''"
| "outcome_name NotFetched = ''not_fetched''"
| "outcome_name (Stale _) = ''stale''"
| "outcome_name (RateLimited _) = ''rate_limited''"
| "outcome_name read_outcome.Unavailable = ''unavailable''"
| "outcome_name ReauthRequired = ''reauth_required''"
| "outcome_name Revoked = ''revoked''"
| "outcome_name Gone = ''gone''"
| "outcome_name ScaRequired = ''sca_required''"

section \<open>The gate\<close>

definition disqualifier :: "gate \<Rightarrow> string option" where
  "disqualifier g =
     (case gt_connection_violation g of
        Some v \<Rightarrow> Some v
      | None \<Rightarrow>
          if \<not> gt_began_at_start_of_history g then Some ''did not begin at the start of available history''
          else if \<not> gt_drained g then Some ''did not drain to next: null''
          else if \<not> gt_every_page_fetched g then
            (case gt_not_fetched g of Some s \<Rightarrow> Some s | None \<Rightarrow> Some ''a page did not report fetched'')
          else if gt_anonymous_degrade g then Some ''an anonymous degraded record''
          else if \<not> gt_every_cursor_exact g then Some ''a page cursor was not exact-resumable''
          else if gt_hello_derivation g = [] then Some ''no hello local_id_derivation on the crawl''
          else if gt_foreign_provenance g
          then Some (''an observation'' @ [CHR 0x27] @ ''s provenance named another adapter'')
          else None)"

fun is_fetched :: "read_outcome \<Rightarrow> bool" where
  "is_fetched (Fetched _) = True"
| "is_fetched _ = False"

fun judge_degraded :: "degraded list \<Rightarrow> gate \<times> string set \<Rightarrow> gate \<times> string set" where
  "judge_degraded [] (g, ex) = (g, ex)"
| "judge_degraded (x # xs) (g, ex) =
     (case dg_local_id x of
        Some l \<Rightarrow> judge_degraded xs (g, insert l ex)
      | None \<Rightarrow> judge_degraded xs (g\<lparr>gt_anonymous_degrade := True\<rparr>, ex))"

definition judge_page :: "resource_status \<Rightarrow> nat \<Rightarrow> gate \<times> string set \<Rightarrow> gate \<times> string set" where
  "judge_page st page_number s =
     (case s of (g, ex) \<Rightarrow>
        let g = (if is_fetched (rs_outcome st) then g
                 else g\<lparr>gt_every_page_fetched := False,
                        gt_not_fetched := get_or_insert
                          (outcome_name (rs_outcome st) @ '' on page '' @ dec (page_number + 1))
                          (gt_not_fetched g)\<rparr>)
        in case judge_degraded (rs_degraded st) (g, ex) of
             (g, ex) \<Rightarrow>
               (case rs_page st of
                  Some p \<Rightarrow> if pg_cursor_resumable p \<noteq> Exact then (g\<lparr>gt_every_cursor_exact := False\<rparr>, ex)
                            else (g, ex)
                | None \<Rightarrow> (g, ex)))"

section \<open>Liveness\<close>

definition is_buried :: "(string, nat) hash_map \<Rightarrow> string \<Rightarrow> nat \<Rightarrow> bool" where
  "is_buried high_water l revision \<longleftrightarrow>
     (case map_of high_water l of None \<Rightarrow> False | Some retracted \<Rightarrow> revision \<le> retracted)"

definition sweep_live_set ::
  "fold_state \<Rightarrow> (string, nat) hash_map \<Rightarrow> string \<Rightarrow> string \<Rightarrow> (string \<times> nat \<times> observation) list" where
  "sweep_live_set fs high_water a r =
     sort_key fst
       (List.map_filter
          (\<lambda>((owner, l), head).
             if owner = a \<and> ob_resource_id (rv_observation head) = r
             then (case highest_revision fs a l of
                     None \<Rightarrow> None
                   | Some revision \<Rightarrow>
                       if is_buried high_water l revision then None
                       else Some (l, revision, rv_observation head))
             else None)
          (live_set fs))"

definition replay :: "stored_observation list \<Rightarrow> fold_state" where
  "replay rows = foldl (\<lambda>fs so. snd (ingest (so_observation so) fs)) fold_new rows"

definition live_records ::
  "(string \<Rightarrow> json option) \<Rightarrow> string \<Rightarrow> string \<Rightarrow> db \<Rightarrow> store_error + (string \<times> nat \<times> observation) list" where
  "live_records from_str a r d =
     res_bind (observations_for_adapter from_str a d) (\<lambda>rows.
     res_bind (retraction_high_water a d) (\<lambda>high_water.
     Inr (sweep_live_set (replay rows) high_water a r)))"

section \<open>One page\<close>

text \<open>The state a page of observations changes: fold, head metadata, database and counts.\<close>

record ingest_state =
  is_fold :: fold_state
  is_heads :: "(string, head_meta) hash_map"
  is_db :: db
  is_counts :: page_counts

fun last_opt :: "'a list \<Rightarrow> 'a option" where
  "last_opt [] = None"
| "last_opt (x # xs) = Some (last (x # xs))"

definition ingest_one ::
  "(string \<Rightarrow> string) \<Rightarrow> (json \<Rightarrow> string) \<Rightarrow> sweep_input \<Rightarrow> int \<Rightarrow> (string, nat) hash_map \<Rightarrow> observation \<Rightarrow>
   ingest_state \<Rightarrow> store_error + ingest_state" where
  "ingest_one sha value_text input crawl_id buried ob s =
     (let h = content_hash sha value_text ob;
          head = last_opt (chain (is_fold s) (si_adapter_id input) (ob_local_id ob));
          head_hash = map_option (\<lambda>rv. content_hash sha value_text (rv_observation rv)) head;
          currently_retracted =
            (case highest_revision (is_fold s) (si_adapter_id input) (ob_local_id ob) of
               None \<Rightarrow> False | Some revision \<Rightarrow> is_buried buried (ob_local_id ob) revision);
          meta = \<lparr>hm_derivation = si_hello_derivation input, hm_fingerprint = Some (si_fingerprint input)\<rparr>;
          heads = AList.update (ob_local_id ob) meta (is_heads s);
          c = is_counts s
      in if \<not> currently_retracted \<and> head_hash = Some h then
           (let revision = (case head of None \<Rightarrow> 1 | Some rv \<Rightarrow> rv_revision rv) in
            res_bind (stamp_seen (si_adapter_id input) (ob_local_id ob) revision crawl_id
                        (si_hello_derivation input) (Some (si_fingerprint input)) (is_db s)) (\<lambda>d.
            Inr (s\<lparr>is_db := d, is_heads := heads,
                   is_counts := c\<lparr>pc_unchanged := pc_unchanged c + 1\<rparr>\<rparr>)))
         else
           (case ingest ob (is_fold s) of
              (revision, fs) \<Rightarrow>
                res_bind (append_observation value_text
                            \<lparr>ap_adapter_id = si_adapter_id input, ap_revision = revision,
                             ap_crawl_id = crawl_id, ap_derivation = si_hello_derivation input,
                             ap_fingerprint = Some (si_fingerprint input), ap_content_hash = h,
                             ap_observation = ob\<rparr> (is_db s)) (\<lambda>d.
                Inr (s\<lparr>is_fold := fs, is_db := d, is_heads := heads,
                       is_counts := (if revision = 1 then c\<lparr>pc_new := pc_new c + 1\<rparr>
                                     else c\<lparr>pc_revised := pc_revised c + 1\<rparr>)\<rparr>))))"

fun ingest_each ::
  "(string \<Rightarrow> string) \<Rightarrow> (json \<Rightarrow> string) \<Rightarrow> sweep_input \<Rightarrow> int \<Rightarrow> (string, nat) hash_map \<Rightarrow> observation list \<Rightarrow>
   ingest_state \<Rightarrow> store_error + ingest_state" where
  "ingest_each sha value_text input crawl_id buried [] s = Inr s"
| "ingest_each sha value_text input crawl_id buried (ob # obs) s =
     res_bind (ingest_one sha value_text input crawl_id buried ob s)
       (ingest_each sha value_text input crawl_id buried obs)"

definition ingest_page ::
  "(string \<Rightarrow> string) \<Rightarrow> (json \<Rightarrow> string) \<Rightarrow> sweep_input \<Rightarrow> int \<Rightarrow> fold_state \<Rightarrow> (string, head_meta) hash_map \<Rightarrow>
   (string, nat) hash_map \<Rightarrow> observation list \<Rightarrow> db \<Rightarrow> store_error + ingest_state" where
  "ingest_page sha value_text input crawl_id fs heads buried obs d =
     ingest_each sha value_text input crawl_id buried obs
       \<lparr>is_fold = fs, is_heads = heads, is_db = d, is_counts = \<lparr>pc_new = 0, pc_revised = 0, pc_unchanged = 0\<rparr>\<rparr>"

section \<open>Retractions\<close>

record retract_counts =
  rc_retracted :: nat
  rc_derivation_changed :: nat
  rc_definition_changed :: nat
  rc_history_start_exempt :: nat

text \<open>Whether the adapter's reported start of history lets the absence of this record count.\<close>

definition within_history :: "sweep_input \<Rightarrow> observation \<Rightarrow> bool" where
  "within_history input head =
     (case si_history_start input of
        None \<Rightarrow> True
      | Some start \<Rightarrow>
          let pv = ob_provenance head;
              t = (case pv_effective_at pv of Some e \<Rightarrow> e | None \<Rightarrow> pv_observed_at pv)
          in (case (instant t, instant start) of
                (Some u, Some v) \<Rightarrow> v \<le> u
              | _ \<Rightarrow> False))"

definition retraction_reason :: "sweep_input \<Rightarrow> (string, head_meta) hash_map \<Rightarrow> string \<Rightarrow> string" where
  "retraction_reason input heads l =
     (case map_of heads l of
        None \<Rightarrow> REASON_ABSENT
      | Some m \<Rightarrow>
          if hm_derivation m \<noteq> si_hello_derivation input then REASON_DERIVATION
          else if hm_fingerprint m \<noteq> Some (si_fingerprint input) then REASON_DEFINITION
          else REASON_ABSENT)"

definition count_reason :: "string \<Rightarrow> retract_counts \<Rightarrow> retract_counts" where
  "count_reason reason c =
     (let c = c\<lparr>rc_retracted := rc_retracted c + 1\<rparr> in
      if reason = REASON_DERIVATION then c\<lparr>rc_derivation_changed := rc_derivation_changed c + 1\<rparr>
      else if reason = REASON_DEFINITION then c\<lparr>rc_definition_changed := rc_definition_changed c + 1\<rparr>
      else c)"

fun retract_each ::
  "sweep_input \<Rightarrow> int \<Rightarrow> string \<Rightarrow> (string, head_meta) hash_map \<Rightarrow> string set \<Rightarrow> string set \<Rightarrow>
   (string \<times> nat \<times> observation) list \<Rightarrow> retract_counts \<times> db \<Rightarrow> store_error + retract_counts \<times> db" where
  "retract_each input crawl_id now heads observed exempt [] (c, d) = Inr (c, d)"
| "retract_each input crawl_id now heads observed exempt ((l, revision, head) # live) (c, d) =
     (if l \<in> observed \<or> l \<in> exempt then retract_each input crawl_id now heads observed exempt live (c, d)
      else if \<not> within_history input head then
        retract_each input crawl_id now heads observed exempt live
          (c\<lparr>rc_history_start_exempt := rc_history_start_exempt c + 1\<rparr>, d)
      else
        let reason = retraction_reason input heads l in
        res_bind (append_retraction (si_adapter_id input) l revision reason crawl_id now d) (\<lambda>d.
        retract_each input crawl_id now heads observed exempt live (count_reason reason c, d)))"

definition summary_detail :: "nat \<Rightarrow> string \<Rightarrow> string \<Rightarrow> string" where
  "summary_detail n kind what =
     (if kind = KIND_HISTORY_START then
        dec n @ '' live record(s) predate the adapter'' @ [CHR 0x27] @ ''s reported history_start and were '' @
        ''exempted from retraction''
      else ''the '' @ what @ '' changed; '' @ dec n @ '' record(s) that can no longer be re-emitted were '' @
        ''retired under '' @ kind @ '', naming the software change rather than the provider'')"

fun summarize ::
  "sweep_input \<Rightarrow> int \<Rightarrow> string \<Rightarrow> (nat \<times> string \<times> string) list \<Rightarrow> discrepancy list \<times> db \<Rightarrow>
   store_error + discrepancy list \<times> db" where
  "summarize input crawl_id now [] (ds, d) = Inr (ds, d)"
| "summarize input crawl_id now ((n, kind, what) # rest) (ds, d) =
     (if n = 0 then summarize input crawl_id now rest (ds, d)
      else
        let detail = summary_detail n kind what in
        res_bind (append_discrepancy (si_adapter_id input) (si_resource_id input) kind crawl_id detail now d) (\<lambda>d.
        summarize input crawl_id now rest (ds @ [\<lparr>dc_kind = kind, dc_detail = detail\<rparr>], d)))"

definition lone_discrepancy ::
  "sweep_input \<Rightarrow> int \<Rightarrow> string \<Rightarrow> string \<Rightarrow> string \<Rightarrow> db \<Rightarrow> store_error + nat \<times> discrepancy list \<times> db" where
  "lone_discrepancy input crawl_id now kind detail d =
     res_bind (append_discrepancy (si_adapter_id input) (si_resource_id input) kind crawl_id detail now d) (\<lambda>d.
     Inr (0, [\<lparr>dc_kind = kind, dc_detail = detail\<rparr>], d))"

definition derive_retractions ::
  "sweep_input \<Rightarrow> int \<Rightarrow> fold_state \<Rightarrow> (string, head_meta) hash_map \<Rightarrow> string set \<Rightarrow> string set \<Rightarrow> string \<Rightarrow> db \<Rightarrow>
   store_error + nat \<times> discrepancy list \<times> db" where
  "derive_retractions input crawl_id fs heads observed exempt now d =
     res_bind (retraction_high_water (si_adapter_id input) d) (\<lambda>high_water.
     let live = sweep_live_set fs high_water (si_adapter_id input) (si_resource_id input);
         vantage = Option.bind (resource (si_adapter_id input) (si_resource_id input) d) sr_last_provider_id
     in if vantage \<noteq> None \<and> vantage \<noteq> Some (si_provider_id input) then
          lone_discrepancy input crawl_id now KIND_VANTAGE (the vantage @ '' -> '' @ si_provider_id input) d
        else if observed = {} \<and> live \<noteq> [] \<and> \<not> op_confirm_empty (si_options input) then
          lone_discrepancy input crawl_id now KIND_EMPTY
            (''a complete sweep returned no observations against '' @ dec (length live) @ '' live record(s); '' @
             ''nothing retracted -- re-run with --confirm-empty to retract them all'') d
        else
          res_bind (retract_each input crawl_id now heads observed exempt live
                      (\<lparr>rc_retracted = 0, rc_derivation_changed = 0, rc_definition_changed = 0,
                        rc_history_start_exempt = 0\<rparr>, d)) (\<lambda>(c, d).
          res_bind (summarize input crawl_id now
                      [(rc_derivation_changed c, KIND_DERIVATION, ''derivation''),
                       (rc_definition_changed c, KIND_DEFINITION, ''resource definition''),
                       (rc_history_start_exempt c, KIND_HISTORY_START, ''history_start'')] ([], d)) (\<lambda>(ds, d).
          Inr (rc_retracted c, ds, d))))"

section \<open>The sweep\<close>

text \<open>
  What a sweep is given from outside: the digest, serde's writer and parser, the adapter's reads,
  the clock and the verdict held across the final commit.
\<close>

record sweep_env =
  ev_sha :: "string \<Rightarrow> string"
  ev_value_text :: "json \<Rightarrow> string"
  ev_from_str :: "string \<Rightarrow> json option"
  ev_read :: "nat \<Rightarrow> resource_query \<Rightarrow> host_error + host_history"
  ev_now :: rfc3339
  ev_held :: "violation_kind option"

text \<open>The variables of the page loop.\<close>

record page_state =
  ps_gate :: gate
  ps_fold :: fold_state
  ps_heads :: "(string, head_meta) hash_map"
  ps_resume :: resume_state
  ps_page :: "page_request option"
  ps_observed :: "string set"
  ps_exempt :: "string set"
  ps_report :: sweep_report

definition resume_point :: "sweep_input \<Rightarrow> db \<Rightarrow> string option" where
  "resume_point input d =
     (case resumable_crawl (si_adapter_id input) (si_resource_id input) d of
        None \<Rightarrow> None
      | Some crawl \<Rightarrow>
          if cw_derivation crawl \<noteq> si_hello_derivation input then None
          else if cw_fingerprint crawl \<noteq> Some (si_fingerprint input) then None
          else cw_next_page crawl)"

definition stored_meta :: "stored_observation list \<Rightarrow> (string \<times> nat, head_meta) hash_map" where
  "stored_meta rows =
     foldl (\<lambda>m so. AList.update (ob_local_id (so_observation so), so_revision so)
                     \<lparr>hm_derivation = so_derivation so, hm_fingerprint = so_fingerprint so\<rparr> m) [] rows"

text \<open>The metadata of each chain's head; the code removes each entry it finds and asks for none
  twice.\<close>

definition initial_heads ::
  "string \<Rightarrow> fold_state \<Rightarrow> (string \<times> nat, head_meta) hash_map \<Rightarrow> (string, head_meta) hash_map" where
  "initial_heads a fs meta =
     foldl (\<lambda>heads (owner, l).
              if owner \<noteq> a then heads
              else (case last_opt (chain fs owner l) of
                      None \<Rightarrow> heads
                    | Some h \<Rightarrow> (case map_of meta (l, rv_revision h) of
                                  None \<Rightarrow> heads | Some m \<Rightarrow> AList.update l m heads)))
       [] (fold_keys fs)"

text \<open>The observations of a page that are kept: this adapter's own, of this resource.\<close>

definition foreign_on :: "sweep_input \<Rightarrow> observation list \<Rightarrow> bool" where
  "foreign_on input obs = list_ex (\<lambda>ob. pv_adapter_id (ob_provenance ob) \<noteq> si_adapter_id input) obs"

definition own_on :: "sweep_input \<Rightarrow> observation list \<Rightarrow> observation list" where
  "own_on input obs =
     filter (\<lambda>ob. pv_adapter_id (ob_provenance ob) = si_adapter_id input \<and>
                  ob_resource_id ob = si_resource_id input) obs"

definition add_counts :: "page_counts \<Rightarrow> sweep_report \<Rightarrow> sweep_report" where
  "add_counts c rep =
     rep\<lparr>sp_new := sp_new rep + pc_new c, sp_revised := sp_revised rep + pc_revised c,
         sp_unchanged := sp_unchanged rep + pc_unchanged c\<rparr>"

datatype sweep_step = Swept "store_error + sweep_report" db | NextPage page_state db

text \<open>The three ways to give up: the crawl is closed as partial and its reason reported.\<close>

definition give_up :: "int \<Rightarrow> string \<Rightarrow> sweep_report \<Rightarrow> db \<Rightarrow> (store_error + sweep_report) \<times> db" where
  "give_up crawl_id reason rep d =
     (Inr (rep\<lparr>sp_disqualified_reason := Some reason, sp_error := Some reason\<rparr>),
      finish_crawl crawl_id False False (Some reason) d)"

text \<open>Condition (9) read again while the verdict is held: the gate and the report after it.\<close>

definition judge_held :: "violation_kind option \<Rightarrow> gate \<Rightarrow> sweep_report \<Rightarrow> gate \<times> sweep_report" where
  "judge_held held g rep =
     (case (gt_connection_violation g, held) of
        (None, Some kind) \<Rightarrow>
          let reason = ''the connection broke the wire contract: '' @ host_error_text (ProtocolViolation kind)
          in (g\<lparr>gt_connection_violation := Some reason\<rparr>, rep\<lparr>sp_contract_violation := Some reason\<rparr>)
      | _ \<Rightarrow> (g, rep))"

definition commit_final ::
  "sweep_env \<Rightarrow> sweep_input \<Rightarrow> int \<Rightarrow> gate \<Rightarrow> ingest_state \<Rightarrow> string set \<Rightarrow> string set \<Rightarrow> sweep_report \<Rightarrow>
   store_error + sweep_report \<times> db" where
  "commit_final env input crawl_id g s observed exempt rep =
     (case judge_held (ev_held env) g rep of
        (g, rep) \<Rightarrow>
          res_bind
            (case disqualifier g of
               Some reason \<Rightarrow> Inr (rep\<lparr>sp_disqualified_reason := Some reason\<rparr>, is_db s)
             | None \<Rightarrow>
                 res_bind (derive_retractions input crawl_id (is_fold s) (is_heads s) observed exempt
                             (ts_str (ev_now env)) (is_db s)) (\<lambda>(n, ds, d).
                 Inr (rep\<lparr>sp_complete := True, sp_retracted := n, sp_discrepancies := ds\<rparr>, d)))
            (\<lambda>(rep, d).
               let d = set_adapter_derivation (si_adapter_id input) (si_hello_derivation input) d;
                   d = set_resource_definition (si_adapter_id input) (si_resource_id input) (si_fingerprint input)
                         (if sp_complete rep then Some (si_provider_id input) else None) d
               in Inr (rep, finish_crawl crawl_id (gt_drained g) (sp_complete rep) (disqualifier g) d)))"

definition sweep_page ::
  "sweep_env \<Rightarrow> sweep_input \<Rightarrow> int \<Rightarrow> (string, nat) hash_map \<Rightarrow> nat \<Rightarrow> page_state \<Rightarrow> db \<Rightarrow> sweep_step" where
  "sweep_page env input crawl_id buried n s d =
     (case ev_read env n \<lparr>qy_resource_id = si_resource_id input, qy_page = ps_page s\<rparr> of
        Inl e \<Rightarrow>
          (let rep = (if broke_the_contract e
                      then (ps_report s)\<lparr>sp_contract_violation :=
                              Some (''history.read broke the wire contract: '' @ host_error_text e)\<rparr>
                      else ps_report s);
               reason = ''adapter_failed_on_page_'' @ dec n @ '': '' @ host_error_text e
           in case give_up crawl_id reason rep d of (res, d) \<Rightarrow> Swept res d)
      | Inr rd \<Rightarrow>
          (case List.find (\<lambda>st. rs_resource_id st = si_resource_id input) (hrd_statuses rd) of
             None \<Rightarrow>
               (case give_up crawl_id (''page_'' @ dec n @ ''_reported_no_status_for_this_resource'') (ps_report s) d
                of (res, d) \<Rightarrow> Swept res d)
           | Some st \<Rightarrow>
               (case judge_page st n (ps_gate s, ps_exempt s) of
                  (g, exempt) \<Rightarrow>
                    let g = (if foreign_on input (hrd_observations rd) then g\<lparr>gt_foreign_provenance := True\<rparr> else g);
                        obs = own_on input (hrd_observations rd);
                        observed = ps_observed s \<union> set (map ob_local_id obs);
                        resume = (case rs_page st of
                                    Some p \<Rightarrow> resume_record (pg_cursor_resumable p) (pg_next p) (ps_resume s)
                                  | None \<Rightarrow> ps_resume s);
                        nxt = Option.bind (rs_page st) pg_next;
                        g = g\<lparr>gt_drained := nxt = None \<and> rs_page st \<noteq> None\<rparr>
                    in case ingest_page (ev_sha env) (ev_value_text env) input crawl_id (ps_fold s) (ps_heads s)
                              buried obs d of
                         Inl e \<Rightarrow> Swept (Inl e) d
                       | Inr ing \<Rightarrow>
                           let rep = add_counts (is_counts ing) (ps_report s) in
                           if nxt = None then
                             (case commit_final env input crawl_id g ing observed exempt rep of
                                Inl e \<Rightarrow> Swept (Inl e) d
                              | Inr (rep, d) \<Rightarrow> Swept (Inr rep) d)
                           else
                             NextPage
                               \<lparr>ps_gate = g, ps_fold = is_fold ing, ps_heads = is_heads ing, ps_resume = resume,
                                ps_page = nxt, ps_observed = observed, ps_exempt = exempt, ps_report = rep\<rparr>
                               (set_crawl_cursor crawl_id
                                  (map_option (\<lambda>p. ev_value_text env (ser_page_request p)) (next_request resume))
                                  (is_db ing)))))"

text \<open>\<open>k\<close> pages are left of the limit, \<open>n\<close> have been read.\<close>

fun sweep_pages ::
  "sweep_env \<Rightarrow> sweep_input \<Rightarrow> int \<Rightarrow> (string, nat) hash_map \<Rightarrow> nat \<Rightarrow> nat \<Rightarrow> page_state \<Rightarrow> db \<Rightarrow>
   (store_error + sweep_report) \<times> db" where
  "sweep_pages env input crawl_id buried 0 n s d =
     give_up crawl_id (''page_limit_'' @ dec MAX_PAGES @ ''_reached_without_draining'') (ps_report s) d"
| "sweep_pages env input crawl_id buried (Suc k) n s d =
     (case sweep_page env input crawl_id buried n s d of
        Swept res d \<Rightarrow> (res, d)
      | NextPage s d \<Rightarrow> sweep_pages env input crawl_id buried k (n + 1) s d)"

definition initial_gate :: "sweep_input \<Rightarrow> page_request option \<Rightarrow> gate" where
  "initial_gate input start =
     \<lparr>gt_began_at_start_of_history = (start = None), gt_drained = False, gt_every_page_fetched = True,
      gt_anonymous_degrade = False, gt_every_cursor_exact = True,
      gt_hello_derivation = si_hello_derivation input, gt_foreign_provenance = False,
      gt_not_fetched = None, gt_connection_violation = si_connection_violation input\<rparr>"

definition sweep_start ::
  "sweep_env \<Rightarrow> sweep_input \<Rightarrow> db \<Rightarrow> store_error + string option \<times> page_request option" where
  "sweep_start env input d =
     (case (if op_resume (si_options input) then resume_point input d else None) of
        None \<Rightarrow> Inr (None, None)
      | Some text \<Rightarrow>
          (case Option.bind (ev_from_str env text) (\<lambda>j. res_ok (de_page_request j)) of
             None \<Rightarrow> Inl StoreJson
           | Some p \<Rightarrow> Inr (Some text, Some p)))"

definition sweep_resource :: "sweep_env \<Rightarrow> sweep_input \<Rightarrow> db \<Rightarrow> (store_error + sweep_report) \<times> db" where
  "sweep_resource env input d =
     (case sweep_start env input d of
        Inl e \<Rightarrow> (Inl e, d)
      | Inr (resumed, start) \<Rightarrow>
          (case open_crawl (si_adapter_id input) (si_resource_id input) (ts_str (ev_now env)) resumed
                  (si_hello_derivation input) (Some (si_fingerprint input)) d of
             (crawl_id, d) \<Rightarrow>
               (case observations_for_adapter (ev_from_str env) (si_adapter_id input) d of
                  Inl e \<Rightarrow> (Inl e, d)
                | Inr rows \<Rightarrow>
                    let fs = replay rows; heads = initial_heads (si_adapter_id input) fs (stored_meta rows) in
                    (case retraction_high_water (si_adapter_id input) d of
                       Inl e \<Rightarrow> (Inl e, d)
                     | Inr buried \<Rightarrow>
                         sweep_pages env input crawl_id buried MAX_PAGES 0
                           \<lparr>ps_gate = initial_gate input start, ps_fold = fs, ps_heads = heads,
                            ps_resume = resume_new start, ps_page = start, ps_observed = {}, ps_exempt = {},
                            ps_report = (report_empty (si_adapter_id input) (si_resource_id input))
                                          \<lparr>sp_crawl_id := Some crawl_id\<rparr>\<rparr> d))))"

definition history_start :: "resource_status list \<Rightarrow> string \<Rightarrow> rfc3339 option" where
  "history_start statuses r =
     Option.bind (List.find (\<lambda>st. rs_resource_id st = r) statuses) rs_history_start"

end
