(* ===== verification/Sweep_Steps.thy ===== *)
theory Sweep_Steps
  imports Store_Correct Sweep
begin

text \<open>
  The steps of a sweep on a consistent database: the fold is the replay of the stored rows, so a
  page of well-formed observations is always stored, keeps the database consistent and brings every
  record it carries above its retractions; the derivation of retractions appends exactly the
  records that are live, unobserved and not exempt.
\<close>

section \<open>The fold of the stored observations\<close>

abbreviation chain_len :: "string \<Rightarrow> string \<Rightarrow> observation list \<Rightarrow> nat" where
  "chain_len a l obs \<equiv> length (filter (\<lambda>ob. chain_key_of ob = (a, l)) obs)"

lemma fold_chain: "chain (ingest_all obs) a l = sort_key rev_order (numbered (filter (\<lambda>ob. chain_key_of ob = (a, l)) obs))"
  using ingest_all_chain [of obs "(a, l)"] by (simp add: chain_at_def)

lemma fold_chain_Nil: "chain (ingest_all obs) a l = [] \<longleftrightarrow> chain_len a l obs = 0"
  unfolding fold_chain by (metis length_0_conv length_numbered length_sort)

lemma fold_highest: "highest_revision (ingest_all obs) a l = (if chain_len a l obs = 0 then None else Some (chain_len a l obs))"
proof -
  have revs: "rv_revision ` set (chain (ingest_all obs) a l) = {1..chain_len a l obs}"
    unfolding fold_chain set_sort by (rule revisions_numbered)
  have "Max {1..chain_len a l obs} = chain_len a l obs" if "chain_len a l obs \<noteq> 0"
    using that by (intro Max_eqI) (auto simp: Suc_le_eq)
  then show ?thesis unfolding highest_revision_Max revs fold_chain_Nil by simp
qed

lemma fold_ingest: "ingest ob (ingest_all obs) = (chain_len (fst (chain_key_of ob)) (snd (chain_key_of ob)) obs + 1, ingest_all (obs @ [ob]))"
proof -
  obtain a l where k: "chain_key_of ob = (a, l)" by fastforce
  have "fst (ingest ob (ingest_all obs)) = length (chain (ingest_all obs) a l) + 1"
    by (simp add: ingest_def chain_def k Let_def split: option.splits)
  also have "\<dots> = chain_len a l obs + 1" unfolding fold_chain by simp
  finally show ?thesis by (simp add: k prod_eq_iff)
qed

lemma replay_ingest_all: "replay sos = ingest_all (map so_observation sos)"
  unfolding replay_def foldl_conv_fold by (simp add: fold_map comp_def)

lemma last_head_revision:
  assumes "last_opt (chain (ingest_all obs) a l) = Some h"
  shows "1 \<le> rv_revision h \<and> rv_revision h \<le> chain_len a l obs"
proof -
  have "h \<in> set (chain (ingest_all obs) a l)"
    using assms by (cases "chain (ingest_all obs) a l") (auto split: if_splits)
  then have "rv_revision h \<in> rv_revision ` set (numbered (filter (\<lambda>ob. chain_key_of ob = (a, l)) obs))"
    unfolding fold_chain by simp
  then show ?thesis unfolding revisions_numbered by simp
qed

section \<open>The retractions of an adapter\<close>

lemma map_of_graph: "map_of (map (\<lambda>k. (k, f k)) ks) k = (if k \<in> set ks then Some (f k) else None)"
  by (induction ks) auto

lemma high_water_ok:
  assumes "db_ok from_str d"
  obtains hw where "retraction_high_water a d = Inr hw"
    "\<And>l. map_of hw l = (let revs = rt_revision ` {t \<in> set (retraction_t d). rt_adapter_id t = a \<and> rt_local_id t = l}
            in if revs = {} then None else Some (nat (Max revs)))"
proof -
  let ?mine = "filter (\<lambda>r. rt_adapter_id r = a) (retraction_t d)"
  let ?revs = "\<lambda>l. rt_revision ` set (filter (\<lambda>r. rt_local_id r = l) ?mine)"
  have nonneg: "0 \<le> Max (?revs l)" if "l \<in> set (map rt_local_id ?mine)" for l
  proof -
    have "?revs l \<noteq> {}" using that by auto
    then have "Max (?revs l) \<in> ?revs l" by (intro Max_in) simp_all
    then show ?thesis using db_okD(4) [OF assms] by auto
  qed
  have collect: "collect_rows (\<lambda>l. map_sum id (Pair l) (retraction_revision (Max (?revs l)))) ls =
      Inr (map (\<lambda>l. (l, nat (Max (?revs l)))) ls)" if "set ls \<subseteq> set (map rt_local_id ?mine)" for ls
    using that
  proof (induction ls)
    case (Cons l ls)
    then have "retraction_revision (Max (?revs l)) = Inr (nat (Max (?revs l)))"
      using nonneg [of l] by (simp add: retraction_revision_def)
    with Cons show ?case by simp
  qed simp
  let ?hw = "map (\<lambda>l. (l, nat (Max (?revs l)))) (remdups (map rt_local_id ?mine))"
  have get: "map_of ?hw l = (if l \<in> set (map rt_local_id ?mine) then Some (nat (Max (?revs l))) else None)" for l
    unfolding map_of_graph by simp
  have "retraction_high_water a d = Inr ?hw"
    unfolding retraction_high_water_def Let_def by (rule collect) simp
  moreover have "map_of ?hw l = (let revs = rt_revision ` {t \<in> set (retraction_t d). rt_adapter_id t = a \<and> rt_local_id t = l}
            in if revs = {} then None else Some (nat (Max revs)))" for l
  proof -
    have "?revs l = rt_revision ` {t \<in> set (retraction_t d). rt_adapter_id t = a \<and> rt_local_id t = l}" by auto
    moreover have "l \<in> set (map rt_local_id ?mine) \<longleftrightarrow> ?revs l \<noteq> {}" by auto
    ultimately show ?thesis unfolding get Let_def by auto
  qed
  ultimately show ?thesis by (rule that)
qed


lemma high_water_bound:
  assumes "db_ok from_str d" "retraction_high_water a d = Inr hw"
  shows "map_of hw l = Some v \<Longrightarrow> v \<le> length (chain_recs a l d)"
    and "t \<in> set (retraction_t d) \<Longrightarrow> rt_adapter_id t = a \<Longrightarrow> rt_local_id t = l \<Longrightarrow> rt_revision t = int n \<Longrightarrow>
         is_buried hw l n"
    and "is_buried hw l n \<Longrightarrow> \<exists>t\<in>set (retraction_t d). rt_adapter_id t = a \<and> rt_local_id t = l \<and> int n \<le> rt_revision t"
proof -
  let ?revs = "\<lambda>l. rt_revision ` {t \<in> set (retraction_t d). rt_adapter_id t = a \<and> rt_local_id t = l}"
  have hw: "map_of hw l = (if ?revs l = {} then None else Some (nat (Max (?revs l))))" for l
  proof -
    obtain hw' where w: "retraction_high_water a d = Inr hw'"
      "\<And>l. map_of hw' l = (let revs = ?revs l in if revs = {} then None else Some (nat (Max revs)))"
      by (rule high_water_ok [OF assms(1), where a = a]) (rule that)
    have "hw' = hw" using w(1) assms(2) by simp
    then show ?thesis using w(2) [of l] unfolding Let_def by simp
  qed
  have fin: "finite (?revs l)" for l by simp
  define m where "m l = Max (?revs l)" for l
  have top: "\<exists>t\<in>set (retraction_t d). rt_adapter_id t = a \<and> rt_local_id t = l \<and> rt_revision t = m l"
    if ne: "?revs l \<noteq> {}" for l
  proof -
    have "m l \<in> ?revs l" unfolding m_def by (rule Max_in [OF fin ne])
    then show ?thesis by auto
  qed
  note hw = hw [folded m_def]
  show "v \<le> length (chain_recs a l d)" if "map_of hw l = Some v"
  proof -
    have "?revs l \<noteq> {}" and v: "v = nat (m l)" using that unfolding hw by (auto split: if_splits)
    from top [OF this(1)] obtain t where t: "t \<in> set (retraction_t d)" "rt_adapter_id t = a" "rt_local_id t = l"
      "rt_revision t = m l" by blast
    then show ?thesis using db_okD(4) [OF assms(1) t(1)] v by (simp add: nat_le_iff)
  qed
  show "is_buried hw l n" if "t \<in> set (retraction_t d)" "rt_adapter_id t = a" "rt_local_id t = l" "rt_revision t = int n"
  proof -
    have mem: "int n \<in> ?revs l" using that by force
    then have "int n \<le> m l" unfolding m_def by (rule Max_ge [OF fin])
    moreover have "?revs l \<noteq> {}" using mem by blast
    ultimately show ?thesis unfolding is_buried_def hw by simp
  qed
  show "\<exists>t\<in>set (retraction_t d). rt_adapter_id t = a \<and> rt_local_id t = l \<and> int n \<le> rt_revision t" if "is_buried hw l n"
  proof -
    have ne: "?revs l \<noteq> {}" and n: "n \<le> nat (m l)"
      using that unfolding is_buried_def hw by (auto split: if_splits)
    from top [OF ne] obtain t where t: "t \<in> set (retraction_t d)" "rt_adapter_id t = a" "rt_local_id t = l"
      "rt_revision t = m l" by blast
    have "0 \<le> m l" using db_okD(4) [OF assms(1) t(1)] t(4) by simp
    with n t show ?thesis by auto
  qed
qed

section \<open>One page\<close>

text \<open>
  The state between two observations: the database is consistent, the crawl exists, and the fold
  is the replay of the database, which is what makes its revisions the stored ones.
\<close>

definition ingest_inv :: "sweep_env \<Rightarrow> sweep_input \<Rightarrow> int \<Rightarrow> fold_state \<Rightarrow> db \<Rightarrow> bool" where
  "ingest_inv env input crawl_id fs d \<longleftrightarrow>
     db_ok (ev_from_str env) d \<and> crawl_exists crawl_id d \<and>
     fs = ingest_all (stored_obs (ev_from_str env) (si_adapter_id input) d)"

text \<open>No retraction reaches the highest revision of this record.\<close>

definition unburied :: "sweep_input \<Rightarrow> (string, nat) hash_map \<Rightarrow> fold_state \<Rightarrow> string \<Rightarrow> bool" where
  "unburied input buried fs l \<longleftrightarrow>
     (case highest_revision fs (si_adapter_id input) l of None \<Rightarrow> False | Some n \<Rightarrow> \<not> is_buried buried l n)"

text \<open>What of the database a page may change, and by how much.\<close>

definition page_frame :: "nat \<Rightarrow> db \<Rightarrow> db \<Rightarrow> bool" where
  "page_frame k d e \<longleftrightarrow>
     retraction_t e = retraction_t d \<and> crawl_t e = crawl_t d \<and> resource_t e = resource_t d \<and>
     length (observation_t e) \<le> length (observation_t d) + k"

lemma page_frame_trans: "page_frame j d e \<Longrightarrow> page_frame k e f \<Longrightarrow> page_frame (j + k) d f"
  by (simp add: page_frame_def)

lemma page_frame_refl: "page_frame 0 d d"
  by (simp add: page_frame_def)

definition own_ok :: "sweep_env \<Rightarrow> sweep_input \<Rightarrow> observation \<Rightarrow> bool" where
  "own_ok env input ob \<longleftrightarrow>
     observation_ok (ev_value_text env) (ev_from_str env) ob \<and>
     pv_adapter_id (ob_provenance ob) = si_adapter_id input"

lemma chain_len_recs:
  "db_ok from_str d \<Longrightarrow> chain_len a l (stored_obs from_str a d) = length (chain_recs a l d)"
  by (rule stored_chain)

lemma chain_recs_le: "length (chain_recs a l d) \<le> length (observation_t d)"
  by (simp add: chain_recs_def)

lemma unburied_append:
  assumes "unburied input buried (ingest_all obs) l"
  shows "unburied input buried (ingest_all (obs @ [ob])) l"
  using assms unfolding unburied_def fold_highest by (auto simp: is_buried_def split: option.splits if_splits)

lemma unburied_new:
  assumes "\<And>v. map_of buried l = Some v \<Longrightarrow> v \<le> chain_len (si_adapter_id input) l obs"
    and "chain_key_of ob = (si_adapter_id input, l)"
  shows "unburied input buried (ingest_all (obs @ [ob])) l"
  using assms(1) unfolding unburied_def fold_highest is_buried_def
  by (cases "map_of buried l") (auto simp: assms(2))


lemma chain_key_own: "own_ok env input ob \<Longrightarrow> chain_key_of ob = (si_adapter_id input, ob_local_id ob)"
  by (simp add: own_ok_def chain_key_of_def)

lemma ingest_one_ok:
  assumes inv: "ingest_inv env input c (is_fold s) (is_db s)"
    and ob: "own_ok env input ob"
    and room: "int (length (observation_t (is_db s))) < i64_max"
    and buried: "\<And>l v. map_of buried l = Some v \<Longrightarrow>
          v \<le> length (chain_recs (si_adapter_id input) l (is_db s))"
  obtains s' where "ingest_one (ev_sha env) (ev_value_text env) input c buried ob s = Inr s'"
    "ingest_inv env input c (is_fold s') (is_db s')" "page_frame 1 (is_db s) (is_db s')"
    "unburied input buried (is_fold s') (ob_local_id ob)"
    "\<And>l. unburied input buried (is_fold s) l \<Longrightarrow> unburied input buried (is_fold s') l"
    "\<And>l. length (chain_recs (si_adapter_id input) l (is_db s)) \<le> length (chain_recs (si_adapter_id input) l (is_db s'))"
proof -
  let ?a = "si_adapter_id input" and ?l = "ob_local_id ob" and ?fs = "ev_from_str env"
  let ?obs = "stored_obs ?fs ?a (is_db s)"
  let ?step = "ingest_one (ev_sha env) (ev_value_text env) input c buried ob s"
  have d: "db_ok ?fs (is_db s)" and ce: "crawl_exists c (is_db s)" and fs: "is_fold s = ingest_all ?obs"
    using inv by (simp_all add: ingest_inv_def)
  let ?head = "last_opt (chain (is_fold s) ?a ?l)"
  let ?dedup = "unburied input buried (is_fold s) ?l \<and>
     map_option (\<lambda>rv. content_hash (ev_sha env) (ev_value_text env) (rv_observation rv)) ?head =
     Some (content_hash (ev_sha env) (ev_value_text env) ob)"
  have none: "?head = None" if "highest_revision (is_fold s) ?a ?l = None"
    using that fold_chain_Nil [of ?obs ?a ?l] unfolding fs fold_highest by (auto split: if_splits)
  show ?thesis
  proof (cases ?dedup)
    case True
    have "is_ok (stamp_seen ?a ?l (case ?head of None \<Rightarrow> 1 | Some rv \<Rightarrow> rv_revision rv) c (si_hello_derivation input)
        (Some (si_fingerprint input)) (is_db s))" by (rule stamp_seen_exists [OF ce])
    then obtain e where e: "stamp_seen ?a ?l (case ?head of None \<Rightarrow> 1 | Some rv \<Rightarrow> rv_revision rv) c
        (si_hello_derivation input) (Some (si_fingerprint input)) (is_db s) = Inr e" by (auto simp: is_ok_iff)
    obtain h where head: "?head = Some h" using True by auto
    have step: "\<exists>s'. ?step = Inr s' \<and> is_db s' = e \<and> is_fold s' = is_fold s"
      using True e head unfolding ingest_one_def unburied_def by (auto simp: Let_def split: option.splits)
    then obtain s' where s': "?step = Inr s'" "is_db s' = e" "is_fold s' = is_fold s" by blast
    note st = stamp_seen_ok [OF d e]
    have ce': "crawl_exists c e" using ce frame_stamp(2) [OF e] by (simp add: crawl_exists_def)
    have res: "resource_t e = resource_t (is_db s)" using e by (auto simp: stamp_seen_def Let_def split: if_splits)
    show ?thesis
    proof (rule that [OF s'(1)])
      show "ingest_inv env input c (is_fold s') (is_db s')"
        using st(1) ce' fs by (simp add: ingest_inv_def s' st(2))
      show "page_frame 1 (is_db s) (is_db s')"
        using st(4) frame_stamp [OF e] res by (simp add: page_frame_def s')
    qed (use True in \<open>simp_all add: s' st(3)\<close>)
  next
    case False
    let ?n = "chain_len ?a ?l ?obs"
    let ?p = "\<lparr>ap_adapter_id = ?a, ap_revision = ?n + 1, ap_crawl_id = c,
       ap_derivation = si_hello_derivation input, ap_fingerprint = Some (si_fingerprint input),
       ap_content_hash = content_hash (ev_sha env) (ev_value_text env) ob, ap_observation = ob\<rparr>"
    have ing: "ingest ob (is_fold s) = (?n + 1, ingest_all (?obs @ [ob]))"
      unfolding fs fold_ingest chain_key_own [OF ob] by simp
    have n: "?n = length (chain_recs ?a ?l (is_db s))" by (rule chain_len_recs [OF d])
    have rev: "ap_revision ?p = length (chain_recs (ap_adapter_id ?p) (ob_local_id (ap_observation ?p)) (is_db s)) + 1"
      by (simp add: n)
    have small: "int (ap_revision ?p) \<le> i64_max"
      using room chain_recs_le [of ?a ?l "is_db s"] by (simp add: n)
    have "is_ok (append_observation (ev_value_text env) ?p (is_db s))"
      by (rule append_observation_exists [OF d _ rev small]) (simp add: ce)
    then obtain e where e: "append_observation (ev_value_text env) ?p (is_db s) = Inr e" by (auto simp: is_ok_iff)
    have "\<exists>s'. ?step = Inr s' \<and> is_db s' = e \<and> is_fold s' = ingest_all (?obs @ [ob])"
      using False e ing none unfolding ingest_one_def unburied_def
      by (cases "highest_revision (is_fold s) ?a ?l"; cases ?head) (auto simp: Let_def)
    then obtain s' where s': "?step = Inr s'" "is_db s' = e" "is_fold s' = ingest_all (?obs @ [ob])" by blast
    have o: "observation_ok (ev_value_text env) ?fs (ap_observation ?p)"
      "pv_adapter_id (ob_provenance (ap_observation ?p)) = ap_adapter_id ?p"
      using ob by (simp_all add: own_ok_def)
    note ap = append_observation_ok [OF d e o rev small]
    have ce': "crawl_exists c e" using ce frame_append(2) [OF e] by (simp add: crawl_exists_def)
    have res: "resource_t e = resource_t (is_db s)" using e by (auto simp: append_observation_def Let_def split: if_splits)
    show ?thesis
    proof (rule that [OF s'(1)])
      show "ingest_inv env input c (is_fold s') (is_db s')"
        using ap(1) ce' by (simp add: ingest_inv_def s' ap(2))
      show "page_frame 1 (is_db s) (is_db s')"
        using ap(4) frame_append [OF e] res by (simp add: page_frame_def s')
      show "unburied input buried (is_fold s') ?l"
        unfolding s'(3) by (rule unburied_new [OF _ chain_key_own [OF ob]]) (simp add: chain_len_recs [OF d] buried)
      show "unburied input buried (is_fold s') l" if "unburied input buried (is_fold s) l" for l
        using that unfolding s'(3) fs by (rule unburied_append)
      show "length (chain_recs ?a l (is_db s)) \<le> length (chain_recs ?a l (is_db s'))" for l
        by (simp add: s' ap(3))
    qed
  qed
qed


lemma ingest_each_ok:
  assumes "ingest_inv env input c (is_fold s) (is_db s)" "\<forall>ob\<in>set obs. own_ok env input ob"
    and "int (length (observation_t (is_db s)) + length obs) \<le> i64_max"
    and "\<And>l v. map_of buried l = Some v \<Longrightarrow> v \<le> length (chain_recs (si_adapter_id input) l (is_db s))"
  shows "\<exists>s'. ingest_each (ev_sha env) (ev_value_text env) input c buried obs s = Inr s' \<and>
    ingest_inv env input c (is_fold s') (is_db s') \<and> page_frame (length obs) (is_db s) (is_db s') \<and>
    (\<forall>l. unburied input buried (is_fold s) l \<or> l \<in> ob_local_id ` set obs \<longrightarrow> unburied input buried (is_fold s') l) \<and>
    (\<forall>l. length (chain_recs (si_adapter_id input) l (is_db s)) \<le> length (chain_recs (si_adapter_id input) l (is_db s')))"
  using assms
proof (induction obs arbitrary: s)
  case Nil
  then show ?case by (simp add: page_frame_refl)
next
  case (Cons ob obs)
  have "own_ok env input ob" "int (length (observation_t (is_db s))) < i64_max" using Cons.prems(2,3) by simp_all
  from ingest_one_ok [OF Cons.prems(1) this Cons.prems(4)] obtain s1 where
    s1: "ingest_one (ev_sha env) (ev_value_text env) input c buried ob s = Inr s1"
    "ingest_inv env input c (is_fold s1) (is_db s1)" "page_frame 1 (is_db s) (is_db s1)"
    "unburied input buried (is_fold s1) (ob_local_id ob)"
    "\<And>l. unburied input buried (is_fold s) l \<Longrightarrow> unburied input buried (is_fold s1) l"
    "\<And>l. length (chain_recs (si_adapter_id input) l (is_db s)) \<le> length (chain_recs (si_adapter_id input) l (is_db s1))"
    by blast
  have "int (length (observation_t (is_db s1)) + length obs) \<le> i64_max"
    using s1(3) Cons.prems(3) by (simp add: page_frame_def)
  moreover have "v \<le> length (chain_recs (si_adapter_id input) l (is_db s1))" if "map_of buried l = Some v" for l v
    using Cons.prems(4) [OF that] s1(6) [of l] by simp
  ultimately obtain s2 where s2: "ingest_each (ev_sha env) (ev_value_text env) input c buried obs s1 = Inr s2"
    "ingest_inv env input c (is_fold s2) (is_db s2)" "page_frame (length obs) (is_db s1) (is_db s2)"
    "\<And>l. unburied input buried (is_fold s1) l \<or> l \<in> ob_local_id ` set obs \<Longrightarrow> unburied input buried (is_fold s2) l"
    "\<And>l. length (chain_recs (si_adapter_id input) l (is_db s1)) \<le> length (chain_recs (si_adapter_id input) l (is_db s2))"
    using Cons.IH [OF s1(2)] Cons.prems(2) by fastforce
  have "page_frame (length (ob # obs)) (is_db s) (is_db s2)"
    using page_frame_trans [OF s1(3) s2(3)] by simp
  moreover have "length (chain_recs (si_adapter_id input) l (is_db s)) \<le> length (chain_recs (si_adapter_id input) l (is_db s2))" for l
    using s1(6) [of l] s2(5) [of l] by simp
  ultimately show ?case using s1(1,4,5) s2(1,2,4) by auto
qed

lemma own_on_in: "ob \<in> set (own_on input obs) \<Longrightarrow>
    ob \<in> set obs \<and> pv_adapter_id (ob_provenance ob) = si_adapter_id input \<and> ob_resource_id ob = si_resource_id input"
  by (simp add: own_on_def)

section \<open>Retracting\<close>

definition retraction_key :: "retraction_rec \<Rightarrow> string \<times> string \<times> int" where
  "retraction_key t = (rt_adapter_id t, rt_local_id t, rt_revision t)"

definition key_of_live :: "sweep_input \<Rightarrow> string \<times> nat \<times> observation \<Rightarrow> string \<times> string \<times> int" where
  "key_of_live input x = (case x of (l, revision, _) \<Rightarrow> (si_adapter_id input, l, sql_revision revision))"

text \<open>A database that only got new retractions and discrepancies, the retractions with these keys.\<close>

definition retracts :: "(string \<times> string \<times> int) list \<Rightarrow> db \<Rightarrow> db \<Rightarrow> bool" where
  "retracts ks d e \<longleftrightarrow>
     observation_t e = observation_t d \<and> crawl_t e = crawl_t d \<and> resource_t e = resource_t d \<and>
     map retraction_key (retraction_t e) = map retraction_key (retraction_t d) @ ks \<and>
     take (length (retraction_t d)) (retraction_t e) = retraction_t d"

lemma retracts_refl: "retracts [] d d"
  by (simp add: retracts_def)

lemma retracts_trans: "retracts ks d e \<Longrightarrow> retracts ls e f \<Longrightarrow> retracts (ks @ ls) d f"
proof -
  assume ks: "retracts ks d e" and ls: "retracts ls e f"
  have le: "length (retraction_t d) \<le> length (retraction_t e)"
    using arg_cong [of _ _ length, OF ks [unfolded retracts_def, THEN conjunct2, THEN conjunct2, THEN conjunct2, THEN conjunct1]]
    by simp
  have "take (length (retraction_t d)) (retraction_t f) =
      take (length (retraction_t d)) (take (length (retraction_t e)) (retraction_t f))"
    using le by (simp add: min_absorb1)
  also have "\<dots> = retraction_t d" using ks ls by (simp add: retracts_def)
  finally show ?thesis using ks ls by (simp add: retracts_def)
qed

lemma retracts_one: "append_retraction a l revision reason c now d = Inr e \<Longrightarrow> retracts [(a, l, sql_revision revision)] d e"
  by (auto simp: append_retraction_def retracts_def retraction_key_def split: if_splits)

lemma retracts_discrepancy: "append_discrepancy a r kind c detail now d = Inr e \<Longrightarrow> retracts [] d e"
  by (auto simp: append_discrepancy_def retracts_def split: if_splits)

lemma retracts_crawl: "retracts ks d e \<Longrightarrow> crawl_exists c e = crawl_exists c d"
  by (simp add: retracts_def crawl_exists_def)

definition absent :: "sweep_input \<Rightarrow> string set \<Rightarrow> string set \<Rightarrow> string \<times> nat \<times> observation \<Rightarrow> bool" where
  "absent input observed exempt x \<longleftrightarrow>
     (case x of (l, _, head) \<Rightarrow> l \<notin> observed \<and> l \<notin> exempt \<and> within_history input head)"

lemma retract_each_ok:
  assumes "crawl_exists c d"
  shows "\<exists>cnt' e. retract_each input c now heads observed exempt live (cnt, d) = Inr (cnt', e) \<and>
     retracts (map (key_of_live input) (filter (absent input observed exempt) live)) d e"
  using assms
proof (induction live arbitrary: cnt d)
  case Nil
  then show ?case by (simp add: retracts_refl)
next
  case (Cons x live)
  obtain l revision head where x: "x = (l, revision, head)" by (cases x) auto
  show ?case
  proof (cases "absent input observed exempt x")
    case True
    let ?reason = "retraction_reason input heads l"
    obtain e where e: "append_retraction (si_adapter_id input) l revision ?reason c now d = Inr e"
      using Cons.prems by (simp add: append_retraction_def)
    note one = retracts_one [OF e]
    from Cons.IH [of e "count_reason ?reason cnt"] Cons.prems retracts_crawl [OF one]
    obtain cnt' f where f: "retract_each input c now heads observed exempt live (count_reason ?reason cnt, e) = Inr (cnt', f)"
      "retracts (map (key_of_live input) (filter (absent input observed exempt) live)) e f" by blast
    have "l \<notin> observed" "l \<notin> exempt" "within_history input head" using True by (simp_all add: absent_def x)
    then have "retract_each input c now heads observed exempt (x # live) (cnt, d) = Inr (cnt', f)"
      using e f(1) by (simp add: x Let_def)
    moreover have "key_of_live input x = (si_adapter_id input, l, sql_revision revision)"
      by (simp add: key_of_live_def x)
    ultimately show ?thesis using True retracts_trans [OF one f(2)] by simp
  next
    case False
    then have "\<exists>cnt2. retract_each input c now heads observed exempt (x # live) (cnt, d) =
        retract_each input c now heads observed exempt live (cnt2, d)"
      by (cases "l \<in> observed \<or> l \<in> exempt") (auto simp: x absent_def)
    then show ?thesis using Cons.IH [OF Cons.prems] False by (metis filter.simps(2))
  qed
qed

lemma summarize_ok:
  assumes "crawl_exists c d"
  shows "\<exists>ds' e. summarize input c now xs (ds, d) = Inr (ds', e) \<and> retracts [] d e"
  using assms
proof (induction xs arbitrary: ds d)
  case Nil
  then show ?case by (simp add: retracts_refl)
next
  case (Cons x xs)
  obtain n kind what where x: "x = (n, kind, what)" by (cases x) auto
  show ?case
  proof (cases "n = 0")
    case False
    obtain e where e: "append_discrepancy (si_adapter_id input) (si_resource_id input) kind c
        (summary_detail n kind what) now d = Inr e" using Cons.prems by (simp add: append_discrepancy_def)
    note one = retracts_discrepancy [OF e]
    from Cons.IH [of e "ds @ [\<lparr>dc_kind = kind, dc_detail = summary_detail n kind what\<rparr>]"]
      Cons.prems retracts_crawl [OF one] show ?thesis
      using e retracts_trans [OF one] False by (fastforce simp: x Let_def)
  qed (use Cons in \<open>simp add: x\<close>)
qed

text \<open>The records a qualified sweep retracts.\<close>

definition to_retract ::
  "sweep_input \<Rightarrow> resource_row option \<Rightarrow> (string \<times> nat \<times> observation) list \<Rightarrow> string set \<Rightarrow> string set \<Rightarrow>
   (string \<times> nat \<times> observation) list" where
  "to_retract input row live observed exempt =
     (let vantage = Option.bind row sr_last_provider_id in
      if vantage \<noteq> None \<and> vantage \<noteq> Some (si_provider_id input) then []
      else if observed = {} \<and> \<not> op_confirm_empty (si_options input) then []
      else filter (absent input observed exempt) live)"

lemma derive_retractions_ok:
  assumes c: "crawl_exists c d" and hw: "retraction_high_water (si_adapter_id input) d = Inr hw"
  shows "\<exists>n ds e. derive_retractions input c fs heads observed exempt now d = Inr (n, ds, e) \<and>
     retracts (map (key_of_live input)
        (to_retract input (resource (si_adapter_id input) (si_resource_id input) d)
           (sweep_live_set fs hw (si_adapter_id input) (si_resource_id input)) observed exempt)) d e"
proof -
  let ?live = "sweep_live_set fs hw (si_adapter_id input) (si_resource_id input)"
  let ?v = "Option.bind (resource (si_adapter_id input) (si_resource_id input) d) sr_last_provider_id"
  have lone: "\<exists>n ds e. lone_discrepancy input c now kind detail d = Inr (n, ds, e) \<and> retracts [] d e" for kind detail
  proof -
    obtain e where "append_discrepancy (si_adapter_id input) (si_resource_id input) kind c detail now d = Inr e"
      using c by (simp add: append_discrepancy_def)
    then show ?thesis using retracts_discrepancy by (auto simp: lone_discrepancy_def)
  qed
  show ?thesis
  proof (cases "?v \<noteq> None \<and> ?v \<noteq> Some (si_provider_id input)")
    case True
    then show ?thesis using lone by (simp add: derive_retractions_def hw to_retract_def Let_def)
  next
    case v: False
    show ?thesis
    proof (cases "observed = {} \<and> ?live \<noteq> [] \<and> \<not> op_confirm_empty (si_options input)")
      case True
      then show ?thesis using lone v
        unfolding derive_retractions_def hw res_bind.simps Let_def if_not_P [OF v] if_P [OF True] to_retract_def
        by simp
    next
      case False
      let ?zero = "\<lparr>rc_retracted = 0, rc_derivation_changed = 0, rc_definition_changed = 0, rc_history_start_exempt = 0\<rparr>"
      obtain cnt e where e: "retract_each input c now heads observed exempt ?live (?zero, d) = Inr (cnt, e)"
        "retracts (map (key_of_live input) (filter (absent input observed exempt) ?live)) d e"
        using retract_each_ok [OF c] by blast
      have ce: "crawl_exists c e" using c retracts_crawl [OF e(2)] by simp
      obtain ds f where f: "summarize input c now
           [(rc_derivation_changed cnt, KIND_DERIVATION, ''derivation''),
            (rc_definition_changed cnt, KIND_DEFINITION, ''resource definition''),
            (rc_history_start_exempt cnt, KIND_HISTORY_START, ''history_start'')] ([], e) = Inr (ds, f)" "retracts [] e f"
        using summarize_ok [OF ce] by blast
      have "to_retract input (resource (si_adapter_id input) (si_resource_id input) d) ?live observed exempt =
          filter (absent input observed exempt) ?live"
        using v False by (auto simp: to_retract_def Let_def)
      then show ?thesis
        using retracts_trans [OF e(2) f(2)]
        unfolding derive_retractions_def hw res_bind.simps Let_def if_not_P [OF v] if_not_P [OF False] e(1) prod.case f(1)
        by auto
    qed
  qed
qed


end
