(* ===== verification/Sweep_Correct.thy ===== *)
theory Sweep_Correct
  imports Sweep_Steps
begin

text \<open>
  A sweep keeps the database consistent and cannot fail on a consistent one; it retracts exactly
  the live records that a qualified sweep neither saw nor was told about, and every record it saw
  is above its retractions afterwards.
\<close>

section \<open>The gate\<close>

type_synonym page = "resource_status \<times> observation list"

definition observed_of :: "sweep_input \<Rightarrow> page list \<Rightarrow> string set" where
  "observed_of input pages = (\<Union>(st, obs)\<in>set pages. ob_local_id ` set (own_on input obs))"

definition exempt_of :: "page list \<Rightarrow> string set" where
  "exempt_of pages = {l. \<exists>(st, obs)\<in>set pages. \<exists>x\<in>set (rs_degraded st). dg_local_id x = Some l}"

definition page_anonymous :: "page \<Rightarrow> bool" where
  "page_anonymous p \<longleftrightarrow> (\<exists>x\<in>set (rs_degraded (fst p)). dg_local_id x = None)"

definition page_exact :: "page \<Rightarrow> bool" where
  "page_exact p \<longleftrightarrow> (\<forall>r. rs_page (fst p) = Some r \<longrightarrow> pg_cursor_resumable r = Exact)"

text \<open>What the gate knows after some pages.\<close>

definition gate_says :: "sweep_input \<Rightarrow> bool \<Rightarrow> page list \<Rightarrow> gate \<Rightarrow> bool" where
  "gate_says input from_start pages g \<longleftrightarrow>
     gt_began_at_start_of_history g = from_start \<and>
     gt_every_page_fetched g = list_all (\<lambda>p. is_fetched (rs_outcome (fst p))) pages \<and>
     gt_anonymous_degrade g = list_ex page_anonymous pages \<and>
     gt_every_cursor_exact g = list_all page_exact pages \<and>
     gt_hello_derivation g = si_hello_derivation input \<and>
     gt_foreign_provenance g = list_ex (\<lambda>p. foreign_on input (snd p)) pages \<and>
     gt_connection_violation g = si_connection_violation input"

text \<open>The nine conditions, of the pages of a read that drained.\<close>

definition sweep_qualifies :: "sweep_env \<Rightarrow> sweep_input \<Rightarrow> bool \<Rightarrow> page list \<Rightarrow> bool" where
  "sweep_qualifies env input from_start pages \<longleftrightarrow>
     from_start \<and> rs_page (fst (last pages)) \<noteq> None \<and>
     list_all (\<lambda>p. is_fetched (rs_outcome (fst p)) \<and> \<not> page_anonymous p \<and> page_exact p \<and>
                   \<not> foreign_on input (snd p)) pages \<and>
     si_hello_derivation input \<noteq> [] \<and> si_connection_violation input = None \<and> ev_held env = None"

lemma judge_degraded_gate:
  "judge_degraded xs (g, ex) =
     (g\<lparr>gt_anonymous_degrade := gt_anonymous_degrade g \<or> (\<exists>x\<in>set xs. dg_local_id x = None)\<rparr>,
      ex \<union> {l. \<exists>x\<in>set xs. dg_local_id x = Some l})"
  by (induction xs arbitrary: g ex) (auto split: option.splits)

definition degraded_ids :: "resource_status \<Rightarrow> string set" where
  "degraded_ids st = {l. \<exists>x\<in>set (rs_degraded st). dg_local_id x = Some l}"

lemma judge_page_fields:
  assumes "judge_page st n (g, ex) = (g', ex')"
  shows "gt_began_at_start_of_history g' = gt_began_at_start_of_history g"
    and "gt_every_page_fetched g' \<longleftrightarrow> gt_every_page_fetched g \<and> is_fetched (rs_outcome st)"
    and "gt_anonymous_degrade g' \<longleftrightarrow> gt_anonymous_degrade g \<or> page_anonymous (st, obs)"
    and "gt_every_cursor_exact g' \<longleftrightarrow> gt_every_cursor_exact g \<and> page_exact (st, obs)"
    and "gt_hello_derivation g' = gt_hello_derivation g"
    and "gt_foreign_provenance g' = gt_foreign_provenance g"
    and "gt_connection_violation g' = gt_connection_violation g"
    and "ex' = ex \<union> degraded_ids st"
  using assms unfolding judge_page_def judge_degraded_gate Let_def prod.case
  by (cases "is_fetched (rs_outcome st)"; cases "rs_page st";
      auto simp: page_anonymous_def page_exact_def degraded_ids_def split: if_splits)+

lemma exempt_snoc: "exempt_of (pages @ [(st, obs)]) = exempt_of pages \<union> degraded_ids st"
  by (auto simp: exempt_of_def degraded_ids_def)

lemma judge_page_says:
  assumes says: "gate_says input b pages g" and j: "judge_page st n (g, exempt_of pages) = (g', ex')"
  shows "gate_says input b (pages @ [(st, obs)])
           ((if foreign_on input obs then g'\<lparr>gt_foreign_provenance := True\<rparr> else g')\<lparr>gt_drained := x\<rparr>)"
    and "ex' = exempt_of (pages @ [(st, obs)])"
proof -
  note f = judge_page_fields(1-2,5-8) [OF j] judge_page_fields(3,4) [OF j, of obs]
  show "gate_says input b (pages @ [(st, obs)])
           ((if foreign_on input obs then g'\<lparr>gt_foreign_provenance := True\<rparr> else g')\<lparr>gt_drained := x\<rparr>)"
    using says by (cases "foreign_on input obs") (simp_all add: gate_says_def f)
  show "ex' = exempt_of (pages @ [(st, obs)])"
    unfolding f(6) exempt_snoc ..
qed

lemma observed_snoc: "observed_of input (pages @ [(st, obs)]) = observed_of input pages \<union> set (map ob_local_id (own_on input obs))"
  by (auto simp: observed_of_def)

lemma disqualifier_None:
  "disqualifier g = None \<longleftrightarrow>
     gt_connection_violation g = None \<and> gt_began_at_start_of_history g \<and> gt_drained g \<and>
     gt_every_page_fetched g \<and> \<not> gt_anonymous_degrade g \<and> gt_every_cursor_exact g \<and>
     gt_hello_derivation g \<noteq> [] \<and> \<not> gt_foreign_provenance g"
  by (simp add: disqualifier_def split: option.split)

lemma judge_held_fields:
  assumes "judge_held held g rep = (g', rep')"
  shows "gt_connection_violation g' = None \<longleftrightarrow> gt_connection_violation g = None \<and> held = None"
    and "gt_began_at_start_of_history g' = gt_began_at_start_of_history g" "gt_drained g' = gt_drained g"
    and "gt_every_page_fetched g' = gt_every_page_fetched g" "gt_anonymous_degrade g' = gt_anonymous_degrade g"
    and "gt_every_cursor_exact g' = gt_every_cursor_exact g" "gt_hello_derivation g' = gt_hello_derivation g"
    and "gt_foreign_provenance g' = gt_foreign_provenance g"
    and "sp_complete rep' = sp_complete rep" "sp_retracted rep' = sp_retracted rep"
  using assms unfolding judge_held_def Let_def
  by (cases "gt_connection_violation g"; cases held; auto)+

lemma disqualifier_iff:
  assumes "gate_says input b pages g" "judge_held (ev_held env) g rep = (g', rep')"
  shows "disqualifier g' = None \<longleftrightarrow>
     b \<and> gt_drained g \<and>
     list_all (\<lambda>p. is_fetched (rs_outcome (fst p)) \<and> \<not> page_anonymous p \<and> page_exact p \<and>
                   \<not> foreign_on input (snd p)) pages \<and>
     si_hello_derivation input \<noteq> [] \<and> si_connection_violation input = None \<and> ev_held env = None"
proof -
  have split: "list_all (\<lambda>p. is_fetched (rs_outcome (fst p)) \<and> \<not> page_anonymous p \<and> page_exact p \<and>
                   \<not> foreign_on input (snd p)) pages \<longleftrightarrow>
      list_all (\<lambda>p. is_fetched (rs_outcome (fst p))) pages \<and> \<not> list_ex page_anonymous pages \<and>
      list_all page_exact pages \<and> \<not> list_ex (\<lambda>p. foreign_on input (snd p)) pages"
    by (induction pages) auto
  have g: "gt_began_at_start_of_history g = b"
    "gt_every_page_fetched g = list_all (\<lambda>p. is_fetched (rs_outcome (fst p))) pages"
    "gt_anonymous_degrade g = list_ex page_anonymous pages" "gt_every_cursor_exact g = list_all page_exact pages"
    "gt_hello_derivation g = si_hello_derivation input"
    "gt_foreign_provenance g = list_ex (\<lambda>p. foreign_on input (snd p)) pages"
    "gt_connection_violation g = si_connection_violation input"
    using assms(1) by (simp_all add: gate_says_def)
  show ?thesis unfolding disqualifier_None judge_held_fields [OF assms(2)] g split by blast
qed

section \<open>The final page\<close>

lemma stored_obs_cong: "observation_t d = observation_t e \<Longrightarrow> stored_obs from_str a d = stored_obs from_str a e"
  by (simp add: stored_obs_def observations_for_adapter_def)

lemma high_water_cong: "retraction_t d = retraction_t e \<Longrightarrow> retraction_high_water a d = retraction_high_water a e"
  by (simp add: retraction_high_water_def)

lemma map_filter_keys:
  assumes "distinct (map fst m)"
  shows "distinct (map fst (List.map_filter (\<lambda>(k, v). map_option (Pair k) (g v)) m)) \<and>
     set (map fst (List.map_filter (\<lambda>(k, v). map_option (Pair k) (g v)) m)) \<subseteq> set (map fst m)"
  using assms
proof (induction m)
  case (Cons x m)
  obtain k v where x: "x = (k, v)" by fastforce
  have IH: "distinct (map fst (List.map_filter (\<lambda>(k, v). map_option (Pair k) (g v)) m))"
    "set (map fst (List.map_filter (\<lambda>(k, v). map_option (Pair k) (g v)) m)) \<subseteq> set (map fst m)"
    using Cons by simp_all
  have "k \<notin> set (map fst m)" using Cons.prems by (simp add: x)
  then have "k \<notin> set (map fst (List.map_filter (\<lambda>(k, v). map_option (Pair k) (g v)) m))" using IH(2) by blast
  then show ?case using IH by (cases "g v") (auto simp: x List.map_filter_simps)
qed (simp add: List.map_filter_simps)

lemma live_set_distinct:
  assumes "fold_inv fs"
  shows "keys_distinct (live_set fs)"
proof -
  define g where "g v = (if v = [] then None
     else if ob_state (rv_observation (en_revisioned (last v))) = Active then Some (en_revisioned (last v)) else None)"
    for v :: "entry list"
  have "live_set fs = List.map_filter (\<lambda>(k, v). map_option (Pair k) (g v)) (chains fs)"
    unfolding live_set_def Let_def g_def by (rule arg_cong2 [of _ _ _ _ List.map_filter]) (auto simp: fun_eq_iff)
  moreover have "distinct (map fst (chains fs))" using assms by (simp add: fold_inv_def keys_distinct_def)
  ultimately show ?thesis unfolding keys_distinct_def using map_filter_keys by metis
qed

lemma sweep_live_set_alt:
  "set (sweep_live_set fs hw a r) =
     {(l, n, rv_observation h) |l n h. ((a, l), h) \<in> set (live_set fs) \<and> ob_resource_id (rv_observation h) = r \<and>
        highest_revision fs a l = Some n \<and> \<not> is_buried hw l n}"
  unfolding sweep_live_set_def set_sort List.map_filter_def set_map set_filter
  by (auto split: if_splits option.splits) force

lemma sweep_live_member:
  "(l, revision, head) \<in> set (sweep_live_set (ingest_all obs) hw a r) \<longleftrightarrow>
     revision = chain_len a l obs \<and> 0 < revision \<and> \<not> is_buried hw l revision \<and>
     ob_resource_id head = r \<and> ob_state head = Active \<and>
     rv_observation (last (chain (ingest_all obs) a l)) = head"
proof -
  let ?fs = "ingest_all obs"
  have "((a, l), h) \<in> set (live_set ?fs) \<longleftrightarrow> map_of (live_set ?fs) (a, l) = Some h" for h
    by (rule keys_distinct_map_of_iff [OF live_set_distinct [OF ingest_all_inv]])
  then have "((a, l), h) \<in> set (live_set ?fs) \<longleftrightarrow>
      0 < chain_len a l obs \<and> h = last (chain ?fs a l) \<and> ob_state (rv_observation h) = Active" for h
    using fold_chain_Nil [of obs a l] unfolding live_set_lookup [OF ingest_all_inv] chain_at_def fst_conv snd_conv
    by auto
  then show ?thesis unfolding sweep_live_set_alt fold_highest by auto
qed

lemma final_frames:
  "retraction_t (finish_crawl c x y z d) = retraction_t d" "resource_t (finish_crawl c x y z d) = resource_t d"
  "observation_t (finish_crawl c x y z d) = observation_t d"
  "retraction_t (set_adapter_derivation a v d) = retraction_t d" "observation_t (set_adapter_derivation a v d) = observation_t d"
  "retraction_t (set_resource_definition a r f p d) = retraction_t d"
  "observation_t (set_resource_definition a r f p d) = observation_t d"
  "resource_t (set_adapter_derivation a v d) = resource_t d"
  by (simp_all add: finish_crawl_def set_adapter_derivation_def set_resource_definition_def)

lemma crawl_exists_final:
  "crawl_exists k (finish_crawl c x y z d) = crawl_exists k d"
  "crawl_exists k (set_adapter_derivation a v d) = crawl_exists k d"
  "crawl_exists k (set_resource_definition a r f p d) = crawl_exists k d"
  by (simp_all add: crawl_exists_def finish_crawl_def set_adapter_derivation_def set_resource_definition_def
      map_update_where)

text \<open>The live set of the stored observations, against these retractions.\<close>

definition live_over :: "sweep_env \<Rightarrow> sweep_input \<Rightarrow> (string, nat) hash_map \<Rightarrow> db \<Rightarrow> (string \<times> nat \<times> observation) list" where
  "live_over env input buried d =
     sweep_live_set (ingest_all (stored_obs (ev_from_str env) (si_adapter_id input) d)) buried
       (si_adapter_id input) (si_resource_id input)"

definition own_resource :: "sweep_input \<Rightarrow> db \<Rightarrow> resource_row option" where
  "own_resource input d = resource (si_adapter_id input) (si_resource_id input) d"

lemma live_over_cong: "observation_t d = observation_t e \<Longrightarrow> live_over env input buried d = live_over env input buried e"
  unfolding live_over_def by (simp only: stored_obs_cong [of d e])

lemma to_retract_live:
  assumes "(l, n, head) \<in> set (to_retract input row (live_over env input buried d) observed exempt)"
    and "db_ok (ev_from_str env) d"
  shows "n = length (chain_recs (si_adapter_id input) l d)" "l \<notin> observed"
proof -
  have "(l, n, head) \<in> set (live_over env input buried d)" and "absent input observed exempt (l, n, head)"
    using assms(1) by (auto simp: to_retract_def Let_def split: if_splits)
  then show "n = length (chain_recs (si_adapter_id input) l d)" "l \<notin> observed"
    unfolding live_over_def sweep_live_member by (simp_all add: chain_len_recs [OF assms(2)] absent_def)
qed

lemma retracts_db_ok:
  assumes ok: "db_ok (ev_from_str env) d" and small: "int (length (observation_t d)) \<le> i64_max"
    and r: "retracts (map (key_of_live input) (to_retract input row (live_over env input buried d) observed exempt)) d e"
  shows "db_ok (ev_from_str env) e"
proof -
  have obs: "observation_t e = observation_t d" using r by (simp add: retracts_def)
  have recs: "chain_recs a l e = chain_recs a l d" for a l by (simp add: chain_recs_def obs)
  have keys: "set (map retraction_key (retraction_t e)) = set (map retraction_key (retraction_t d)) \<union>
      key_of_live input ` set (to_retract input row (live_over env input buried d) observed exempt)"
    using r by (simp add: retracts_def)
  have "0 \<le> rt_revision t \<and> rt_revision t \<le> int (length (chain_recs (rt_adapter_id t) (rt_local_id t) d))"
    if t: "t \<in> set (retraction_t e)" for t
  proof -
    have "retraction_key t \<in> set (map retraction_key (retraction_t e))" using t by simp
    then consider (old) u where "u \<in> set (retraction_t d)" "retraction_key t = retraction_key u"
      | (new) l n head where "(l, n, head) \<in> set (to_retract input row (live_over env input buried d) observed exempt)"
          "retraction_key t = (si_adapter_id input, l, sql_revision n)"
      unfolding keys by (auto simp: key_of_live_def)
    then show ?thesis
    proof cases
      case old
      then show ?thesis using db_okD(4) [OF ok old(1)] by (simp add: retraction_key_def)
    next
      case new
      have "int n \<le> i64_max" using to_retract_live(1) [OF new(1) ok] chain_recs_le small order_trans
        by (metis of_nat_le_iff)
      then show ?thesis
        using new(2) to_retract_live(1) [OF new(1) ok] by (simp add: retraction_key_def sql_revision_def)
    qed
  qed
  then show ?thesis using ok by (simp add: db_ok_def obs recs)
qed

text \<open>The retractions were only appended to, by rows with these keys.\<close>

definition new_retractions :: "(string \<times> string \<times> int) list \<Rightarrow> db \<Rightarrow> db \<Rightarrow> bool" where
  "new_retractions ks d e \<longleftrightarrow>
     take (length (retraction_t d)) (retraction_t e) = retraction_t d \<and>
     map retraction_key (drop (length (retraction_t d)) (retraction_t e)) = ks"

lemma retracts_new: "retracts ks d e \<Longrightarrow> new_retractions ks d e"
proof -
  assume r: "retracts ks d e"
  then have "retraction_t e = retraction_t d @ drop (length (retraction_t d)) (retraction_t e)"
    unfolding retracts_def by (metis append_take_drop_id)
  then have "map retraction_key (retraction_t e) =
      map retraction_key (retraction_t d) @ map retraction_key (drop (length (retraction_t d)) (retraction_t e))"
    by (metis map_append)
  then show ?thesis using r by (simp add: retracts_def new_retractions_def)
qed

lemma new_retractions_cong:
  "retraction_t d = retraction_t d' \<Longrightarrow> retraction_t e = retraction_t e' \<Longrightarrow>
   new_retractions ks d e = new_retractions ks d' e'"
  by (simp add: new_retractions_def)

lemma new_retractions_none [simp]: "retraction_t e = retraction_t d \<Longrightarrow> new_retractions [] d e"
  by (simp add: new_retractions_def)

lemma commit_final_ok:
  assumes inv: "ingest_inv env input c (is_fold s) (is_db s)"
    and says: "gate_says input b pages g" and drained: "gt_drained g \<longleftrightarrow> rs_page (fst (last pages)) \<noteq> None"
    and hw: "retraction_high_water (si_adapter_id input) (is_db s) = Inr buried"
    and rep: "\<not> sp_complete rep" and small: "int (length (observation_t (is_db s))) \<le> i64_max"
  obtains rep' e where "commit_final env input c g s observed exempt rep = Inr (rep', e)"
    "db_ok (ev_from_str env) e" "crawl_exists c e" "observation_t e = observation_t (is_db s)"
    "sp_complete rep' \<longleftrightarrow> sweep_qualifies env input b pages"
    "new_retractions (if sp_complete rep' then
        map (key_of_live input) (to_retract input (own_resource input (is_db s))
          (live_over env input buried (is_db s)) observed exempt) else []) (is_db s) e"
proof -
  let ?d = "is_db s" and ?now = "ts_str (ev_now env)"
  have d: "db_ok (ev_from_str env) ?d" and ce: "crawl_exists c ?d"
    and fs: "is_fold s = ingest_all (stored_obs (ev_from_str env) (si_adapter_id input) ?d)"
    using inv by (simp_all add: ingest_inv_def)
  obtain g' rep1 where j: "judge_held (ev_held env) g rep = (g', rep1)" by fastforce
  note rep1 = judge_held_fields(9) [OF j]
  have q: "disqualifier g' = None \<longleftrightarrow> sweep_qualifies env input b pages"
    unfolding disqualifier_iff [OF says j] sweep_qualifies_def drained by blast
  let ?ks = "map (key_of_live input) (to_retract input (own_resource input ?d) (live_over env input buried ?d) observed exempt)"
  let ?fin = "\<lambda>rep d. finish_crawl c (gt_drained g') (sp_complete rep) (disqualifier g')
      (set_resource_definition (si_adapter_id input) (si_resource_id input) (si_fingerprint input)
         (if sp_complete rep then Some (si_provider_id input) else None)
         (set_adapter_derivation (si_adapter_id input) (si_hello_derivation input) d))"
  have fin_obs: "observation_t (?fin rep d) = observation_t d" "retraction_t (?fin rep d) = retraction_t d" for rep d
    by (simp_all add: final_frames)
  have fin_ok: "db_ok (ev_from_str env) (?fin rep d) = db_ok (ev_from_str env) d" for rep d
    by (rule db_ok_cong) (simp_all add: final_frames)
  have fin_ce: "crawl_exists c (?fin rep d) = crawl_exists c d" for rep d
    by (simp only: crawl_exists_final)
  show ?thesis
  proof (cases "disqualifier g'")
    case (Some reason)
    let ?rep = "rep1\<lparr>sp_disqualified_reason := Some reason\<rparr>"
    show ?thesis
    proof (rule that [of ?rep "?fin ?rep ?d"])
      show "commit_final env input c g s observed exempt rep = Inr (?rep, ?fin ?rep ?d)"
        unfolding commit_final_def j prod.case Some option.case res_bind.simps Let_def ..
      show "db_ok (ev_from_str env) (?fin ?rep ?d)" unfolding fin_ok by (rule d)
      show "crawl_exists c (?fin ?rep ?d)" unfolding fin_ce by (rule ce)
      show "observation_t (?fin ?rep ?d) = observation_t ?d" by (rule fin_obs)
      have no: "\<not> sp_complete ?rep" using rep rep1 by simp
      then show "sp_complete ?rep \<longleftrightarrow> sweep_qualifies env input b pages" using q Some by simp
      show "new_retractions (if sp_complete ?rep then ?ks else []) ?d (?fin ?rep ?d)"
        unfolding if_not_P [OF no] by (rule new_retractions_none) (simp only: final_frames)
    qed
  next
    case None
    obtain n ds e where e: "derive_retractions input c (is_fold s) (is_heads s) observed exempt ?now ?d = Inr (n, ds, e)"
      "retracts ?ks ?d e"
      using derive_retractions_ok [OF ce hw] unfolding fs live_over_def own_resource_def by blast
    let ?rep = "rep1\<lparr>sp_complete := True, sp_retracted := n, sp_discrepancies := ds\<rparr>"
    show ?thesis
    proof (rule that [of ?rep "?fin ?rep e"])
      show "commit_final env input c g s observed exempt rep = Inr (?rep, ?fin ?rep e)"
        unfolding commit_final_def j prod.case None option.case e(1) res_bind.simps Let_def ..
      show "db_ok (ev_from_str env) (?fin ?rep e)"
        unfolding fin_ok by (rule retracts_db_ok [OF d small e(2)])
      show "crawl_exists c (?fin ?rep e)" using ce retracts_crawl [OF e(2)] by (simp only: fin_ce)
      show "observation_t (?fin ?rep e) = observation_t ?d"
        unfolding fin_obs using e(2) by (simp add: retracts_def)
      show "sp_complete ?rep \<longleftrightarrow> sweep_qualifies env input b pages" using q None by simp
      show "new_retractions (if sp_complete ?rep then ?ks else []) ?d (?fin ?rep e)"
      proof -
        have "new_retractions ?ks ?d (?fin ?rep e)"
          unfolding new_retractions_cong [OF refl fin_obs(2)] by (rule retracts_new [OF e(2)])
        then show ?thesis by simp
      qed
    qed
  qed
qed

section \<open>The pages of a read\<close>

text \<open>
  The pages of a read that reaches its end within \<open>k\<close> pages without a failure, from the page \<open>p\<close>.
\<close>

fun pages_read :: "sweep_env \<Rightarrow> sweep_input \<Rightarrow> nat \<Rightarrow> nat \<Rightarrow> page_request option \<Rightarrow> page list option" where
  "pages_read env input 0 n p = None"
| "pages_read env input (Suc k) n p =
     (case ev_read env n \<lparr>qy_resource_id = si_resource_id input, qy_page = p\<rparr> of
        Inl _ \<Rightarrow> None
      | Inr rd \<Rightarrow>
          (case List.find (\<lambda>st. rs_resource_id st = si_resource_id input) (hrd_statuses rd) of
             None \<Rightarrow> None
           | Some st \<Rightarrow>
               (case Option.bind (rs_page st) pg_next of
                  None \<Rightarrow> Some [(st, hrd_observations rd)]
                | Some q \<Rightarrow> map_option ((#) (st, hrd_observations rd)) (pages_read env input k (n + 1) (Some q)))))"

text \<open>
  What every reply satisfies that the host hands on: its observations were read from a frame, so
  they are well formed and fewer than the bytes of the frame.
\<close>

definition replies_ok :: "sweep_env \<Rightarrow> bool" where
  "replies_ok env \<longleftrightarrow>
     (\<forall>n query rd. ev_read env n query = Inr rd \<longrightarrow>
        length (hrd_observations rd) \<le> MAX_FRAME_BYTES \<and>
        (\<forall>ob\<in>set (hrd_observations rd). observation_ok (ev_value_text env) (ev_from_str env) ob))"

definition room_for :: "nat \<Rightarrow> db \<Rightarrow> bool" where
  "room_for k d \<longleftrightarrow> int (length (observation_t d)) + int (k * MAX_FRAME_BYTES) \<le> i64_max"

lemma room_small: "room_for k d \<Longrightarrow> int (length (observation_t d)) \<le> i64_max"
proof -
  have "0 \<le> int (k * MAX_FRAME_BYTES)" by simp
  then show "room_for k d \<Longrightarrow> int (length (observation_t d)) \<le> i64_max" unfolding room_for_def by linarith
qed

text \<open>The state between two pages: what the pages so far left in it.\<close>

definition page_inv :: "sweep_env \<Rightarrow> sweep_input \<Rightarrow> int \<Rightarrow> (string, nat) hash_map \<Rightarrow> bool \<Rightarrow> page list \<Rightarrow> page_state \<Rightarrow> db \<Rightarrow> bool" where
  "page_inv env input c buried b pages s d \<longleftrightarrow>
     ingest_inv env input c (ps_fold s) d \<and>
     retraction_high_water (si_adapter_id input) d = Inr buried \<and>
     gate_says input b pages (ps_gate s) \<and>
     ps_exempt s = exempt_of pages \<and> ps_observed s = observed_of input pages \<and>
     \<not> sp_complete (ps_report s) \<and>
     (\<forall>l\<in>observed_of input pages. unburied input buried (ps_fold s) l)"

text \<open>What a sweep from the start database \<open>d\<close> that read these pages leaves behind.\<close>

definition sweep_result ::
  "sweep_env \<Rightarrow> sweep_input \<Rightarrow> int \<Rightarrow> (string, nat) hash_map \<Rightarrow> bool \<Rightarrow> page list option \<Rightarrow> db \<Rightarrow> sweep_report \<Rightarrow> db \<Rightarrow> bool" where
  "sweep_result env input c buried b ps d rep e \<longleftrightarrow>
     db_ok (ev_from_str env) e \<and> crawl_exists c e \<and>
     (case ps of
        None \<Rightarrow> \<not> sp_complete rep \<and> new_retractions [] d e
      | Some pages \<Rightarrow>
          (sp_complete rep \<longleftrightarrow> sweep_qualifies env input b pages) \<and>
          new_retractions (if sp_complete rep then
             map (key_of_live input) (to_retract input (own_resource input d) (live_over env input buried e)
               (observed_of input pages) (exempt_of pages)) else []) d e \<and>
          (\<forall>l\<in>observed_of input pages.
             unburied input buried (ingest_all (stored_obs (ev_from_str env) (si_adapter_id input) e)) l))"

lemma own_on_le: "length (own_on input obs) \<le> length obs"
  by (simp add: own_on_def)

lemma page_ingested:
  assumes inv: "page_inv env input c buried b pages s d" and replies: "replies_ok env" and room: "room_for (Suc k) d"
    and read: "ev_read env n query = Inr rd"
  obtains ing where
    "ingest_page (ev_sha env) (ev_value_text env) input c (ps_fold s) (ps_heads s) buried
       (own_on input (hrd_observations rd)) d = Inr ing"
    "ingest_inv env input c (is_fold ing) (is_db ing)" "room_for k (is_db ing)"
    "retraction_t (is_db ing) = retraction_t d" "resource_t (is_db ing) = resource_t d"
    "\<And>l. l \<in> observed_of input (pages @ [(st, hrd_observations rd)]) \<Longrightarrow> unburied input buried (is_fold ing) l"
proof -
  let ?obs = "own_on input (hrd_observations rd)"
  have ok: "db_ok (ev_from_str env) d" and hw: "retraction_high_water (si_adapter_id input) d = Inr buried"
    and ing: "ingest_inv env input c (ps_fold s) d"
    and seen: "\<And>l. l \<in> observed_of input pages \<Longrightarrow> unburied input buried (ps_fold s) l"
    using inv unfolding page_inv_def ingest_inv_def by blast+
  have le: "length ?obs \<le> MAX_FRAME_BYTES" and own: "\<forall>ob\<in>set ?obs. own_ok env input ob"
    using replies read own_on_le [of input "hrd_observations rd"] own_on_in
    unfolding replies_ok_def own_ok_def by (fastforce intro: order_trans)+
  let ?s0 = "\<lparr>is_fold = ps_fold s, is_heads = ps_heads s, is_db = d,
              is_counts = \<lparr>pc_new = 0, pc_revised = 0, pc_unchanged = 0\<rparr>\<rparr>"
  have "int (length (observation_t d) + length ?obs) \<le> i64_max"
  proof -
    have "0 \<le> int (k * MAX_FRAME_BYTES)" by simp
    then show ?thesis using room le unfolding room_for_def mult_Suc of_nat_add by linarith
  qed
  then obtain s' where s': "ingest_each (ev_sha env) (ev_value_text env) input c buried ?obs ?s0 = Inr s'"
    "ingest_inv env input c (is_fold s') (is_db s')" "page_frame (length ?obs) d (is_db s')"
    "\<And>l. unburied input buried (ps_fold s) l \<or> l \<in> ob_local_id ` set ?obs \<Longrightarrow> unburied input buried (is_fold s') l"
    using ingest_each_ok [of env input c ?s0 ?obs buried] ing own high_water_bound(1) [OF ok hw] by fastforce
  show ?thesis
  proof (rule that [OF _ s'(2)])
    show "ingest_page (ev_sha env) (ev_value_text env) input c (ps_fold s) (ps_heads s) buried ?obs d = Inr s'"
      unfolding ingest_page_def by (rule s'(1))
    show "room_for k (is_db s')" using s'(3) le room by (simp add: page_frame_def room_for_def)
    show "retraction_t (is_db s') = retraction_t d" "resource_t (is_db s') = resource_t d"
      using s'(3) by (simp_all add: page_frame_def)
    show "unburied input buried (is_fold s') l" if "l \<in> observed_of input (pages @ [(st, hrd_observations rd)])" for l
      using that seen by (intro s'(4)) (auto simp: observed_snoc)
  qed
qed

lemma give_up_result:
  assumes "db_ok (ev_from_str env) d" "crawl_exists c d" "\<not> sp_complete rep"
  shows "\<exists>rep' e. give_up c reason rep d = (Inr rep', e) \<and> sweep_result env input c buried b None d rep' e"
proof -
  have "db_ok (ev_from_str env) (finish_crawl c False False (Some reason) d)"
    using assms(1) by (subst db_ok_cong [of _ d]) (simp_all add: final_frames)
  then show ?thesis
    using assms(2,3) by (simp add: give_up_def sweep_result_def crawl_exists_final final_frames)
qed

lemma cursor_frames:
  "observation_t (set_crawl_cursor c x d) = observation_t d" "retraction_t (set_crawl_cursor c x d) = retraction_t d"
  "resource_t (set_crawl_cursor c x d) = resource_t d" "crawl_exists k (set_crawl_cursor c x d) = crawl_exists k d"
  by (simp_all add: set_crawl_cursor_def crawl_exists_def map_update_where)

lemma ingest_inv_cursor:
  "ingest_inv env input c fs d \<Longrightarrow> ingest_inv env input c fs (set_crawl_cursor k x d)"
  using db_ok_cong [OF cursor_frames(1,2), of "ev_from_str env" k x d]
    stored_obs_cong [OF cursor_frames(1), of "ev_from_str env" "si_adapter_id input" k x d]
  by (simp add: ingest_inv_def cursor_frames)

lemma own_resource_cong: "resource_t d = resource_t e \<Longrightarrow> own_resource input d = own_resource input e"
  by (simp add: own_resource_def resource_def)

lemma sweep_result_start:
  assumes "retraction_t d = retraction_t d'" "resource_t d = resource_t d'"
  shows "sweep_result env input c buried b ps d rep e = sweep_result env input c buried b ps d' rep e"
  unfolding sweep_result_def own_resource_cong [OF assms(2)] new_retractions_cong [OF assms(1) refl] ..

section \<open>The page loop\<close>

lemma sweep_page_failed:
  assumes "ev_read env n \<lparr>qy_resource_id = si_resource_id input, qy_page = ps_page s\<rparr> = Inl err"
  obtains reason rep where "sweep_page env input c buried n s d = (case give_up c reason rep d of (res, d) \<Rightarrow> Swept res d)"
    "sp_complete rep = sp_complete (ps_report s)"
proof -
  let ?rep = "if broke_the_contract err then (ps_report s)\<lparr>sp_contract_violation :=
      Some (''history.read broke the wire contract: '' @ host_error_text err)\<rparr> else ps_report s"
  have "sp_complete ?rep = sp_complete (ps_report s)" by simp
  moreover have "sweep_page env input c buried n s d =
      (case give_up c (''adapter_failed_on_page_'' @ dec n @ '': '' @ host_error_text err) ?rep d of (res, d) \<Rightarrow> Swept res d)"
    unfolding sweep_page_def assms sum.case Let_def ..
  ultimately show ?thesis using that by blast
qed

lemma sweep_pages_given_up:
  assumes "sweep_page env input c buried n s d = (case give_up c reason rep d of (res, d) \<Rightarrow> Swept res d)"
    and "db_ok (ev_from_str env) d" "crawl_exists c d" "\<not> sp_complete rep"
  shows "\<exists>rep e. sweep_pages env input c buried (Suc k) n s d = (Inr rep, e) \<and>
     sweep_result env input c buried b None d rep e"
proof -
  obtain rep' e where r: "give_up c reason rep d = (Inr rep', e)" "sweep_result env input c buried b None d rep' e"
    using give_up_result [OF assms(2-4)] by blast
  then have "sweep_pages env input c buried (Suc k) n s d = (Inr rep', e)"
    by (simp add: assms(1))
  with r(2) show ?thesis by blast
qed

lemma sweep_pages_ok:
  assumes "page_inv env input c buried b pages s d" "replies_ok env" "room_for k d"
  shows "\<exists>rep e. sweep_pages env input c buried k n s d = (Inr rep, e) \<and>
     sweep_result env input c buried b (map_option ((@) pages) (pages_read env input k n (ps_page s))) d rep e"
  using assms
proof (induction k arbitrary: n s d pages)
  case 0
  then have "db_ok (ev_from_str env) d" "crawl_exists c d" "\<not> sp_complete (ps_report s)"
    by (simp_all add: page_inv_def ingest_inv_def)
  from give_up_result [OF this] show ?case by simp
next
  case (Suc k)
  let ?q = "\<lparr>qy_resource_id = si_resource_id input, qy_page = ps_page s\<rparr>"
  have d: "db_ok (ev_from_str env) d" "crawl_exists c d" "\<not> sp_complete (ps_report s)"
    using Suc.prems(1) by (simp_all add: page_inv_def ingest_inv_def)
  show ?case
  proof (cases "ev_read env n ?q")
    case (Inl err)
    have "pages_read env input (Suc k) n (ps_page s) = None" by (simp add: Inl)
    with Inl show ?thesis
      using sweep_pages_given_up [of env input c buried n s d _ _ k b] sweep_page_failed [OF Inl, of c buried d] d
      by (metis option.map(1))
  next
    case (Inr rd)
    let ?obs = "hrd_observations rd"
    show ?thesis
    proof (cases "List.find (\<lambda>st. rs_resource_id st = si_resource_id input) (hrd_statuses rd)")
      case None
      have "sweep_page env input c buried n s d =
          (case give_up c (''page_'' @ dec n @ ''_reported_no_status_for_this_resource'') (ps_report s) d of
             (res, d) \<Rightarrow> Swept res d)"
        unfolding sweep_page_def Inr None sum.case option.case ..
      from sweep_pages_given_up [OF this d] show ?thesis by (simp only: pages_read.simps Inr None sum.case option.case option.map)
    next
      case (Some st)
      note found = Some
      let ?nxt = "Option.bind (rs_page st) pg_next" and ?all = "pages @ [(st, ?obs)]"
      obtain g ex where j: "judge_page st n (ps_gate s, ps_exempt s) = (g, ex)" by fastforce
      let ?g = "(if foreign_on input ?obs then g\<lparr>gt_foreign_provenance := True\<rparr> else g)\<lparr>gt_drained := ?nxt = None \<and> rs_page st \<noteq> None\<rparr>"
      have says0: "gate_says input b pages (ps_gate s)" and ex0: "ps_exempt s = exempt_of pages"
        and ob0: "ps_observed s = observed_of input pages"
        using Suc.prems(1) by (simp_all add: page_inv_def)
      note says = judge_page_says [OF says0 j [unfolded ex0], where obs = ?obs]
      obtain ing where ing:
        "ingest_page (ev_sha env) (ev_value_text env) input c (ps_fold s) (ps_heads s) buried (own_on input ?obs) d = Inr ing"
        "ingest_inv env input c (is_fold ing) (is_db ing)" "room_for k (is_db ing)"
        "retraction_t (is_db ing) = retraction_t d" "resource_t (is_db ing) = resource_t d"
        "\<And>l. l \<in> observed_of input ?all \<Longrightarrow> unburied input buried (is_fold ing) l"
        by (rule page_ingested [OF Suc.prems(1,2,3) Inr, where st = st]) (rule that)
      have hw: "retraction_high_water (si_adapter_id input) (is_db ing) = Inr buried"
        using Suc.prems(1) high_water_cong [OF ing(4)] by (simp add: page_inv_def)
      have obs: "ps_observed s \<union> set (map ob_local_id (own_on input ?obs)) = observed_of input ?all"
        unfolding ob0 observed_snoc ..
      let ?rep = "add_counts (is_counts ing) (ps_report s)"
      let ?resume = "case rs_page st of Some p \<Rightarrow> resume_record (pg_cursor_resumable p) (pg_next p) (ps_resume s)
          | None \<Rightarrow> ps_resume s"
      let ?next = "\<lparr>ps_gate = ?g, ps_fold = is_fold ing, ps_heads = is_heads ing, ps_resume = ?resume, ps_page = ?nxt,
          ps_observed = observed_of input ?all, ps_exempt = ex, ps_report = ?rep\<rparr>"
      let ?cur = "set_crawl_cursor c (map_option (\<lambda>p. ev_value_text env (ser_page_request p)) (next_request ?resume)) (is_db ing)"
      have page: "sweep_page env input c buried n s d =
          (if ?nxt = None then
             (case commit_final env input c ?g ing (observed_of input ?all) ex ?rep of
                Inl e \<Rightarrow> Swept (Inl e) d | Inr (rep, d) \<Rightarrow> Swept (Inr rep) d)
           else NextPage ?next ?cur)"
        unfolding sweep_page_def Inr Some sum.case option.case j prod.case Let_def ing(1) obs ..
      have says': "gate_says input b ?all ?g" by (rule says(1))
      have ex': "ex = exempt_of ?all" by (rule says(2))
      have rep: "\<not> sp_complete ?rep" using d(3) by (simp add: add_counts_def)
      show ?thesis
      proof (cases ?nxt)
        case None
        have drained: "gt_drained ?g \<longleftrightarrow> rs_page (fst (last ?all)) \<noteq> None" using None by simp
        have small: "int (length (observation_t (is_db ing))) \<le> i64_max"
          by (rule room_small [OF ing(3)])
        obtain rep' e where fin: "commit_final env input c ?g ing (observed_of input ?all) ex ?rep = Inr (rep', e)"
          "db_ok (ev_from_str env) e" "crawl_exists c e" "observation_t e = observation_t (is_db ing)"
          "sp_complete rep' \<longleftrightarrow> sweep_qualifies env input b ?all"
          "new_retractions (if sp_complete rep' then
              map (key_of_live input) (to_retract input (own_resource input (is_db ing))
                (live_over env input buried (is_db ing)) (observed_of input ?all) ex) else []) (is_db ing) e"
          by (rule commit_final_ok [OF ing(2) says' drained hw rep small]) (rule that)
        have "sweep_pages env input c buried (Suc k) n s d = (Inr rep', e)"
          unfolding sweep_pages.simps page if_P [OF None] fin(1) by simp
        moreover have "pages_read env input (Suc k) n (ps_page s) = Some [(st, ?obs)]"
          by (simp add: Inr Some None)
        moreover have "sweep_result env input c buried b (Some ?all) d rep' e"
          unfolding sweep_result_def option.case
          using fin(2,3,5,6) ing(2,6) stored_obs_cong [OF fin(4)] live_over_cong [OF fin(4)]
            own_resource_cong [OF ing(5)] new_retractions_cong [OF ing(4) refl] ex'
          unfolding ingest_inv_def by auto
        ultimately show ?thesis by auto
      next
        case (Some q)
        have "page_inv env input c buried b ?all ?next ?cur"
          using says' ex' rep ing(6) high_water_cong [OF cursor_frames(2)] hw ingest_inv_cursor [OF ing(2)]
          by (simp add: page_inv_def del: sweep_pages.simps)
        moreover have "room_for k ?cur" using ing(3) by (simp add: room_for_def cursor_frames)
        ultimately obtain rep' e where IH: "sweep_pages env input c buried k (n + 1) ?next ?cur = (Inr rep', e)"
          "sweep_result env input c buried b (map_option ((@) ?all) (pages_read env input k (n + 1) (ps_page ?next))) ?cur rep' e"
          using Suc.IH [OF _ Suc.prems(2)] by blast
        have "sweep_pages env input c buried (Suc k) n s d = (Inr rep', e)"
          using IH(1) Some unfolding sweep_pages.simps page by simp
        moreover have "map_option ((@) pages) (pages_read env input (Suc k) n (ps_page s)) =
            map_option ((@) ?all) (pages_read env input k (n + 1) (ps_page ?next))"
        proof -
          have "(@) ?all = (\<lambda>ps. pages @ (st, ?obs) # ps)" by (simp add: fun_eq_iff)
          then show ?thesis by (simp add: Inr found Some option.map_comp comp_def)
        qed
        moreover have "sweep_result env input c buried b ps ?cur rep' e = sweep_result env input c buried b ps d rep' e" for ps
          by (rule sweep_result_start) (simp_all add: cursor_frames ing)
        ultimately show ?thesis using IH(2) by auto
      qed
    qed
  qed
qed

section \<open>The whole sweep\<close>

lemma open_crawl_exists: "crawl_exists (fst (open_crawl a r s p v f d)) (snd (open_crawl a r s p v f d))"
  by (simp add: open_crawl_def crawl_exists_def Let_def)

lemma open_crawl_resource: "resource_t (snd (open_crawl a r s p v f d)) = resource_t d"
  by (simp add: open_crawl_def Let_def)

lemma sweep_ok:
  assumes d: "db_ok (ev_from_str env) d" and replies: "replies_ok env" and room: "room_for MAX_PAGES d"
    and start: "sweep_start env input d = Inr (resumed, start)"
  obtains rep e c buried where "sweep_resource env input d = (Inr rep, e)"
    "retraction_high_water (si_adapter_id input) d = Inr buried"
    "sweep_result env input c buried (start = None) (pages_read env input MAX_PAGES 0 start) d rep e"
proof -
  let ?a = "si_adapter_id input"
  let ?open = "open_crawl ?a (si_resource_id input) (ts_str (ev_now env)) resumed (si_hello_derivation input)
      (Some (si_fingerprint input)) d"
  obtain c d1 where o: "?open = (c, d1)" by fastforce
  have frame: "observation_t d1 = observation_t d" "retraction_t d1 = retraction_t d" "resource_t d1 = resource_t d"
    using frame_open_crawl [of ?a "si_resource_id input" "ts_str (ev_now env)" resumed "si_hello_derivation input"
        "Some (si_fingerprint input)" d]
      open_crawl_resource [of ?a "si_resource_id input" "ts_str (ev_now env)" resumed "si_hello_derivation input"
        "Some (si_fingerprint input)" d] by (simp_all add: o)
  have c: "crawl_exists c d1"
    using open_crawl_exists [of ?a "si_resource_id input" "ts_str (ev_now env)" resumed "si_hello_derivation input"
        "Some (si_fingerprint input)" d] by (simp add: o)
  have d1: "db_ok (ev_from_str env) d1" using d db_ok_cong [OF frame(1,2)] by simp
  obtain sos where sos: "observations_for_adapter (ev_from_str env) ?a d1 = Inr sos"
    by (rule observations_exist [OF d1])
  obtain buried where hw: "retraction_high_water ?a d = Inr buried" by (rule high_water_ok [OF d])
  have hw1: "retraction_high_water ?a d1 = Inr buried" using hw high_water_cong [OF frame(2)] by simp
  let ?fs = "replay sos"
  let ?s = "\<lparr>ps_gate = initial_gate input start, ps_fold = ?fs,
      ps_heads = initial_heads ?a ?fs (stored_meta sos), ps_resume = resume_new start, ps_page = start,
      ps_observed = {}, ps_exempt = {},
      ps_report = (report_empty ?a (si_resource_id input))\<lparr>sp_crawl_id := Some c\<rparr>\<rparr>"
  have "?fs = ingest_all (stored_obs (ev_from_str env) ?a d1)"
    by (simp add: replay_ingest_all stored_obs_def sos)
  then have "page_inv env input c buried (start = None) [] ?s d1"
    using d1 c hw1
    by (simp add: page_inv_def ingest_inv_def gate_says_def initial_gate_def exempt_of_def observed_of_def report_empty_def)
  moreover have "room_for MAX_PAGES d1" using room by (simp add: room_for_def frame)
  ultimately obtain rep e where r: "sweep_pages env input c buried MAX_PAGES 0 ?s d1 = (Inr rep, e)"
    "sweep_result env input c buried (start = None)
       (map_option ((@) []) (pages_read env input MAX_PAGES 0 (ps_page ?s))) d1 rep e"
    using sweep_pages_ok [OF _ replies] by blast
  have "sweep_resource env input d = (Inr rep, e)"
    unfolding sweep_resource_def start sum.case prod.case o sos hw1 Let_def r(1) ..
  moreover have "map_option ((@) []) ps = ps" for ps :: "page list option" by (cases ps) simp_all
  ultimately show ?thesis
    using that hw r(2) sweep_result_start [OF frame(2,3)] by simp
qed

lemma new_retraction_cases:
  assumes "new_retractions ks d e" "t \<in> set (retraction_t e)"
  shows "t \<in> set (retraction_t d) \<or> retraction_key t \<in> set ks"
proof -
  have "t \<in> set (take (length (retraction_t d)) (retraction_t e) @ drop (length (retraction_t d)) (retraction_t e))"
    using assms(2) by simp
  then show ?thesis using assms(1) unfolding new_retractions_def set_append by auto
qed

lemma still_unburied:
  assumes d: "db_ok from_str d" and e: "db_ok from_str e"
    and hw: "retraction_high_water (si_adapter_id input) d = Inr buried"
    and hw': "retraction_high_water (si_adapter_id input) e = Inr buried'"
    and new: "new_retractions ks d e" "\<And>n. (si_adapter_id input, l, n) \<notin> set ks"
    and un: "\<not> is_buried buried l n"
  shows "\<not> is_buried buried' l n"
proof
  assume "is_buried buried' l n"
  then obtain t where t: "t \<in> set (retraction_t e)" "rt_adapter_id t = si_adapter_id input" "rt_local_id t = l"
    "int n \<le> rt_revision t" using high_water_bound(3) [OF e hw'] by blast
  have "t \<in> set (retraction_t d)"
    using new_retraction_cases [OF new(1) t(1)] new(2) t(2,3) by (auto simp: retraction_key_def)
  moreover obtain m where m: "rt_revision t = int m" using t(4) by (metis nonneg_int_cases of_nat_0_le_iff order_trans)
  ultimately have "is_buried buried l m" using high_water_bound(2) [OF d hw _ t(2,3)] by blast
  then show False using un t(4) m by (auto simp: is_buried_def split: option.splits)
qed

lemma live_records_ok:
  assumes "db_ok from_str d"
  obtains hw where "retraction_high_water a d = Inr hw"
    "live_records from_str a r d = Inr (sweep_live_set (ingest_all (stored_obs from_str a d)) hw a r)"
proof -
  obtain sos where "observations_for_adapter from_str a d = Inr sos" by (rule observations_exist [OF assms])
  moreover obtain hw where "retraction_high_water a d = Inr hw" by (rule high_water_ok [OF assms])
  ultimately show ?thesis using that by (simp add: live_records_def replay_ingest_all stored_obs_def)
qed

section \<open>A concrete sweep\<close>

definition sample_status :: resource_status where
  "sample_status =
     \<lparr>rs_resource_id = ''wallet'', rs_outcome = Fetched False, rs_degraded = [], rs_provider_detail = None,
      rs_page = Some \<lparr>pg_cursor_resumable = Exact, pg_next = None, pg_window_capped_to = None,
                      pg_page_size_reduced_to = None\<rparr>,
      rs_credential_expires_at = None, rs_strong_auth_expires_at = None, rs_history_start = None\<rparr>"

definition sample_env :: "observation list \<Rightarrow> sweep_env" where
  "sample_env obs =
     \<lparr>ev_sha = (\<lambda>x. x), ev_value_text = (\<lambda>_. ''{}''), ev_from_str = (\<lambda>_. Some (JObj [])),
      ev_read = (\<lambda>n q. Inr \<lparr>hrd_observations = obs, hrd_statuses = [sample_status]\<rparr>),
      ev_now = Rfc3339 ''2026-01-02T00:00:00Z'', ev_held = None\<rparr>"

definition sample_input :: sweep_input where
  "sample_input =
     \<lparr>si_adapter_id = ''a1'', si_resource_id = ''wallet'', si_hello_derivation = ''v1'', si_fingerprint = ''f'',
      si_provider_id = ''p'', si_history_start = None, si_connection_violation = None,
      si_options = \<lparr>op_resume = False, op_confirm_empty = False\<rparr>\<rparr>"

abbreviation sample_seen :: observation where
  "sample_seen \<equiv> sample_observation ''x'' Active ''2026-01-01T00:00:00Z''"

lemma sample_sweep:
  assumes "obs = [] \<or> obs = [sample_seen]"
  shows "db_ok (ev_from_str (sample_env obs)) sample_db" "replies_ok (sample_env obs)" "room_for MAX_PAGES sample_db"
    and "sweep_start (sample_env obs) sample_input sample_db = Inr (None, None)"
    and "pages_read (sample_env obs) sample_input MAX_PAGES 0 None = Some [(sample_status, obs)]"
proof -
  show "db_ok (ev_from_str (sample_env obs)) sample_db"
    using db_ok_new db_ok_cong frame_open_crawl unfolding sample_db_def by metis
  show "replies_ok (sample_env obs)"
    using assms sample_ok by (auto simp: replies_ok_def sample_env_def MAX_FRAME_BYTES_def)
  show "room_for MAX_PAGES sample_db"
    by (simp add: room_for_def sample_db_def frame_open_crawl db_new_def MAX_PAGES_def MAX_FRAME_BYTES_def i64_max_def)
  show "sweep_start (sample_env obs) sample_input sample_db = Inr (None, None)"
    by (simp add: sweep_start_def sample_input_def)
  have "pages_read (sample_env obs) sample_input (Suc k) 0 None = Some [(sample_status, obs)]" for k
    by (simp add: sample_env_def sample_input_def sample_status_def)
  moreover have "MAX_PAGES = Suc 99999" by (simp add: MAX_PAGES_def)
  ultimately show "pages_read (sample_env obs) sample_input MAX_PAGES 0 None = Some [(sample_status, obs)]" by metis
qed

section \<open>The properties\<close>

text \<open>
  C1. What a sweep decides. On a consistent database a sweep never fails in the store. It is
  complete exactly if it started at the beginning of history, its read drained, and the nine
  conditions hold of the pages that were read; if it is not complete no retraction is written. If
  it is, the retractions written are exactly, in order, one for each record of this resource that
  is live, was on no page, was not named by a degrade and is not before the reported start of
  history, at the highest revision of its chain; none if the vantage changed, and none after an
  empty sweep that was not confirmed.
\<close>

theorem sweep_decides:
  assumes "db_ok (ev_from_str env) d" "replies_ok env" "room_for MAX_PAGES d"
    and "sweep_start env input d = Inr (resumed, start)"
  shows "\<exists>rep e buried. sweep_resource env input d = (Inr rep, e) \<and>
     retraction_high_water (si_adapter_id input) d = Inr buried \<and>
     (case pages_read env input MAX_PAGES 0 start of
        None \<Rightarrow> \<not> sp_complete rep \<and> new_retractions [] d e
      | Some pages \<Rightarrow>
          (sp_complete rep \<longleftrightarrow> sweep_qualifies env input (start = None) pages) \<and>
          new_retractions (if sp_complete rep then
             map (key_of_live input) (to_retract input (own_resource input d) (live_over env input buried e)
               (observed_of input pages) (exempt_of pages)) else []) d e)"
proof -
  obtain rep e c buried where r: "sweep_resource env input d = (Inr rep, e)"
    "retraction_high_water (si_adapter_id input) d = Inr buried"
    "sweep_result env input c buried (start = None) (pages_read env input MAX_PAGES 0 start) d rep e"
    by (rule sweep_ok [OF assms])
  then show ?thesis unfolding sweep_result_def by (auto split: option.splits)
qed

theorem sweep_decides_witness:
  "\<exists>rep e. sweep_resource (sample_env []) sample_input sample_db = (Inr rep, e) \<and>
     sp_complete rep \<and> new_retractions [] sample_db e"
proof -
  have none: "observed_of sample_input [(sample_status, [])] = {}" by (simp add: observed_of_def own_on_def)
  have unconfirmed: "\<not> op_confirm_empty (si_options sample_input)" by (simp add: sample_input_def)
  have "to_retract sample_input row live {} ex = []" for row live ex
    using unconfirmed by (simp add: to_retract_def Let_def)
  moreover have "sweep_qualifies (sample_env []) sample_input (None = (None :: page_request option)) [(sample_status, [])]"
    by (simp add: sweep_qualifies_def sample_status_def sample_env_def sample_input_def page_anonymous_def page_exact_def
        foreign_on_def)
  ultimately show ?thesis
    using sweep_decides [OF sample_sweep(1-4) [OF disjI1 [OF refl]]]
    unfolding sample_sweep(5) [OF disjI1 [OF refl]] option.case none by auto
qed

text \<open>
  C3. Whatever the adapter answers, a sweep leaves a consistent database: ids ascend, every row
  decodes, the revisions of each record are 1, 2, ... in the order they were stored, so that the
  fold of the next sweep gives each its stored revision, and no retraction names a revision that
  does not exist. No statement of a sweep fails, on a uniqueness or a foreign key or otherwise.
\<close>

theorem sweep_keeps_database:
  assumes "db_ok (ev_from_str env) d" "replies_ok env" "room_for MAX_PAGES d"
    and "sweep_start env input d = Inr (resumed, start)"
  shows "is_ok (fst (sweep_resource env input d)) \<and> db_ok (ev_from_str env) (snd (sweep_resource env input d))"
proof -
  obtain rep e c buried where r: "sweep_resource env input d = (Inr rep, e)"
    "sweep_result env input c buried (start = None) (pages_read env input MAX_PAGES 0 start) d rep e"
    by (rule sweep_ok [OF assms])
  then show ?thesis by (simp add: sweep_result_def is_ok_iff)
qed

theorem sweep_keeps_database_witness:
  "is_ok (fst (sweep_resource (sample_env [sample_seen]) sample_input sample_db)) \<and>
   db_ok (\<lambda>_. Some (JObj [])) (snd (sweep_resource (sample_env [sample_seen]) sample_input sample_db))"
proof -
  have env: "ev_from_str (sample_env [sample_seen]) = (\<lambda>_. Some (JObj []))" by (simp add: sample_env_def)
  show ?thesis using sweep_keeps_database [OF sample_sweep(1-4) [OF disjI2 [OF refl]], unfolded env] .
qed

text \<open>
  C2. A record that a drained sweep carried is never hidden by a retraction afterwards: it is in
  the live records exactly if the newest of its versions is active and of this resource, even if it
  was retracted before and came back unchanged.
\<close>

theorem seen_is_live:
  assumes d: "db_ok (ev_from_str env) d" and "replies_ok env" "room_for MAX_PAGES d"
    and "sweep_start env input d = Inr (resumed, start)"
    and pages: "pages_read env input MAX_PAGES 0 start = Some pages" and l: "l \<in> observed_of input pages"
    and res: "sweep_resource env input d = (res, e)"
  shows "\<exists>live. live_records (ev_from_str env) (si_adapter_id input) (si_resource_id input) e = Inr live \<and>
     (l \<in> fst ` set live \<longleftrightarrow>
        (let head = rv_observation (last (chain (ingest_all (stored_obs (ev_from_str env) (si_adapter_id input) e))
                                       (si_adapter_id input) l))
         in ob_state head = Active \<and> ob_resource_id head = si_resource_id input))"
proof -
  let ?a = "si_adapter_id input" and ?r = "si_resource_id input"
  let ?obs = "stored_obs (ev_from_str env) ?a e"
  obtain rep e' c buried where r: "sweep_resource env input d = (Inr rep, e')"
    "retraction_high_water ?a d = Inr buried"
    "sweep_result env input c buried (start = None) (Some pages) d rep e'"
    by (rule sweep_ok [OF assms(1-4), unfolded pages])
  have "e' = e" using r(1) res by simp
  then have e: "db_ok (ev_from_str env) e" and un: "unburied input buried (ingest_all ?obs) l"
    using r(3) l by (simp_all add: sweep_result_def)
  let ?ks = "if sp_complete rep then map (key_of_live input) (to_retract input (own_resource input d)
      (live_over env input buried e) (observed_of input pages) (exempt_of pages)) else []"
  have new: "new_retractions ?ks d e" using r(3) unfolding sweep_result_def option.case \<open>e' = e\<close> by blast
  have other: "(?a, l, n) \<notin> set ?ks" for n
    using to_retract_live(2) [OF _ e] l by (auto simp: key_of_live_def)
  obtain hw where hw: "retraction_high_water ?a e = Inr hw"
    "live_records (ev_from_str env) ?a ?r e = Inr (sweep_live_set (ingest_all ?obs) hw ?a ?r)"
    by (rule live_records_ok [OF e])
  have n: "0 < chain_len ?a l ?obs" "\<not> is_buried buried l (chain_len ?a l ?obs)"
    using un by (auto simp: unburied_def fold_highest split: if_splits)
  then have "\<not> is_buried hw l (chain_len ?a l ?obs)"
    using still_unburied [OF d e r(2) hw(1) new other] by blast
  then have "l \<in> fst ` set (sweep_live_set (ingest_all ?obs) hw ?a ?r) \<longleftrightarrow>
      (let head = rv_observation (last (chain (ingest_all ?obs) ?a l)) in ob_state head = Active \<and> ob_resource_id head = ?r)"
  proof -
    have mem: "l \<in> fst ` set live \<longleftrightarrow> (\<exists>n head. (l, n, head) \<in> set live)" for live :: "(string \<times> nat \<times> observation) list"
      by force
    show ?thesis using n(1) \<open>\<not> is_buried hw l _\<close> unfolding mem sweep_live_member Let_def by blast
  qed
  with hw(2) show ?thesis by blast
qed

theorem seen_is_live_witness:
  "let e = snd (sweep_resource (sample_env [sample_seen]) sample_input sample_db) in
   \<exists>live. live_records (\<lambda>_. Some (JObj [])) ''a1'' ''wallet'' e = Inr live \<and>
     (''x'' \<in> fst ` set live \<longleftrightarrow>
        (let head = rv_observation (last (chain (ingest_all (stored_obs (\<lambda>_. Some (JObj [])) ''a1'' e)) ''a1'' ''x''))
         in ob_state head = Active \<and> ob_resource_id head = ''wallet''))"
proof -
  have seen: "''x'' \<in> observed_of sample_input [(sample_status, [sample_seen])]"
  proof -
    have "own_on sample_input [sample_seen] = [sample_seen]" "ob_local_id sample_seen = ''x''"
      by (simp_all add: own_on_def sample_input_def sample_observation_def)
    then show ?thesis by (simp add: observed_of_def)
  qed
  have env: "ev_from_str (sample_env [sample_seen]) = (\<lambda>_. Some (JObj []))" by (simp add: sample_env_def)
  have ids: "si_adapter_id sample_input = ''a1''" "si_resource_id sample_input = ''wallet''"
    by (simp_all add: sample_input_def)
  show ?thesis
    unfolding Let_def
    using seen_is_live [OF sample_sweep [OF disjI2 [OF refl]] seen surjective_pairing, unfolded env ids Let_def] .
qed

end
