(* ===== verification/Refresh.thy ===== *)
theory Refresh
  imports Sweep
begin

text \<open>
  A refresh (\<open>core/store/src/refresh.rs\<close>): every connected adapter is read once, and every
  resource it lists is swept. What one connection answered is the record \<open>session\<close>; the error a
  report line was formatted from is kept instead of its text.
\<close>

record refresh_options =
  rfo_resume :: bool
  rfo_confirm_empty :: bool
  rfo_only :: "string option"

record session =
  ss_hello :: hello_reply
  ss_listed :: "host_error + resource_descriptor list"
  ss_statuses :: "host_error + resource_status list"
  ss_balances :: "host_error + host_balances"
  ss_sweep :: "nat \<Rightarrow> sweep_env"
  ss_close :: "terminal option"

datatype refresh_error =
    SpawnFailed host_error
  | EndedInViolation violation_kind
  | AdapterFailed store_error
  | Reported string

record adapter_refresh =
  af_sweeps :: "sweep_report list"
  af_errors :: "string list"

record refresh_report =
  rp_sweeps :: "sweep_report list"
  rp_adapter_errors :: "(string \<times> refresh_error) list"

definition failed :: "refresh_report \<Rightarrow> bool" where
  "failed rep \<longleftrightarrow> rp_adapter_errors rep \<noteq> [] \<or> list_ex (\<lambda>s. sp_error s \<noteq> None) (rp_sweeps rep)"

fun outcome_label :: "read_outcome \<Rightarrow> string" where
  "outcome_label (Fetched _) = ''fetched''"
| "outcome_label NotFetched = ''not_fetched''"
| "outcome_label (Stale since) = ''stale:'' @ ts_str since"
| "outcome_label (RateLimited _) = ''rate_limited''"
| "outcome_label read_outcome.Unavailable = ''unavailable''"
| "outcome_label ReauthRequired = ''reauth_required''"
| "outcome_label Revoked = ''revoked''"
| "outcome_label Gone = ''gone''"
| "outcome_label ScaRequired = ''sca_required''"

definition wants_reauth :: "read_outcome \<Rightarrow> bool" where
  "wants_reauth x \<longleftrightarrow> x = ReauthRequired \<or> x = ScaRequired \<or> x = Revoked"

fun upsert_all :: "string \<Rightarrow> resource_descriptor list \<Rightarrow> db \<Rightarrow> (store_error + unit) \<times> db" where
  "upsert_all a [] d = (Inr (), d)"
| "upsert_all a (x # xs) d =
     (case upsert_resource a (rd_resource_id x) (rd_kind x) (rd_label x) d of
        Inl e \<Rightarrow> (Inl e, d)
      | Inr d \<Rightarrow> upsert_all a xs d)"

fun append_balances ::
  "string \<Rightarrow> int \<Rightarrow> resource_status list \<Rightarrow> balance list \<Rightarrow> db \<Rightarrow> store_error + db" where
  "append_balances a read_id statuses [] d = Inr d"
| "append_balances a read_id statuses (b # bs) d =
     (case List.find (\<lambda>st. rs_resource_id st = bl_resource_id b) statuses of
        None \<Rightarrow> Inl (StoreHost (''balances.read reply carried a balance for resource '' @ dbg (bl_resource_id b) @
                                '' with no status of its own''))
      | Some st \<Rightarrow>
          append_balances a read_id statuses bs (append_balance a read_id b (outcome_label (rs_outcome st)) d))"

text \<open>The balances of a refresh: the violation it establishes and its error, if any.\<close>

definition read_balances ::
  "string \<Rightarrow> int \<Rightarrow> host_error + host_balances \<Rightarrow> db \<Rightarrow> store_error + string option \<times> string list \<times> db" where
  "read_balances a read_id answer d =
     (case answer of
        Inr rd \<Rightarrow>
          res_bind (append_balances a read_id (br_statuses rd) (br_observations rd) d) (\<lambda>d. Inr (None, [], d))
      | Inl e \<Rightarrow>
          Inr (if broke_the_contract e
               then Some (''balances.read broke the wire contract: '' @ host_error_text e) else None,
               [''balances.read failed: '' @ host_error_text e], d))"

definition sweep_input_of ::
  "session \<Rightarrow> resource_status list \<Rightarrow> (resource_descriptor \<Rightarrow> string) \<Rightarrow> string \<Rightarrow> sweep_options \<Rightarrow> string option \<Rightarrow>
   resource_descriptor \<Rightarrow> sweep_input" where
  "sweep_input_of ses statuses fingerprint a options tainted x =
     \<lparr>si_adapter_id = a, si_resource_id = rd_resource_id x,
      si_hello_derivation = hr_local_id_derivation (ss_hello ses), si_fingerprint = fingerprint x,
      si_provider_id = rd_provider_id x, si_history_start = history_start statuses (rd_resource_id x),
      si_connection_violation = tainted, si_options = options\<rparr>"

text \<open>The resources in the order listed; a violation found in one sweep taints the later ones.\<close>

fun sweep_all ::
  "session \<Rightarrow> resource_status list \<Rightarrow> (resource_descriptor \<Rightarrow> string) \<Rightarrow> string \<Rightarrow> sweep_options \<Rightarrow> string option \<Rightarrow>
   nat \<Rightarrow> resource_descriptor list \<Rightarrow> sweep_report list \<Rightarrow> db \<Rightarrow> (store_error + sweep_report list) \<times> db" where
  "sweep_all ses statuses fingerprint a options tainted i [] reports d = (Inr reports, d)"
| "sweep_all ses statuses fingerprint a options tainted i (x # xs) reports d =
     (case sweep_resource (ss_sweep ses i) (sweep_input_of ses statuses fingerprint a options tainted x) d of
        (Inl e, d) \<Rightarrow> (Inl e, d)
      | (Inr rep, d) \<Rightarrow>
          sweep_all ses statuses fingerprint a options
            (if tainted = None then sp_contract_violation rep else tainted) (i + 1) xs (reports @ [rep]) d)"

definition refresh_adapter ::
  "(resource_descriptor \<Rightarrow> string) \<Rightarrow> session \<Rightarrow> string \<Rightarrow> sweep_options \<Rightarrow> db \<Rightarrow> (store_error + adapter_refresh) \<times> db" where
  "refresh_adapter fingerprint ses a options d =
     (case open_balance_read a d of
        Inl e \<Rightarrow> (Inl e, d)
      | Inr (read_id, d) \<Rightarrow>
          if hr_adapter_id (ss_hello ses) \<noteq> a then
            (Inl (StoreHost (''hello announced adapter_id '' @ dbg (hr_adapter_id (ss_hello ses)) @
                             '' on the connection opened for '' @ dbg a)), d)
          else
            (case ss_listed ses of
               Inl e \<Rightarrow> (Inl (StoreHost (''resources.list failed: '' @ host_error_text e)), d)
             | Inr listed \<Rightarrow>
                 (case upsert_all a listed d of
                    (Inl e, d) \<Rightarrow> (Inl e, d)
                  | (Inr _, d) \<Rightarrow>
                      (case ss_statuses ses of
                         Inl e \<Rightarrow> (Inl (StoreHost (''status.read failed: '' @ host_error_text e)), d)
                       | Inr statuses \<Rightarrow>
                           let d = set_needs_reauth a (list_ex (\<lambda>st. wants_reauth (rs_outcome st)) statuses) d in
                           (case read_balances a read_id (ss_balances ses) d of
                              Inl e \<Rightarrow> (Inl e, d)
                            | Inr (tainted, errors, d) \<Rightarrow>
                                (case sweep_all ses statuses fingerprint a options tainted 0 listed [] d of
                                   (Inl e, d) \<Rightarrow> (Inl e, d)
                                 | (Inr reports, d) \<Rightarrow>
                                     (Inr \<lparr>af_sweeps = reports, af_errors = errors\<rparr>, d)))))))"

text \<open>The adapters in turn; \<open>spawn\<close> is the connection each one gets.\<close>

fun refresh_each ::
  "(resource_descriptor \<Rightarrow> string) \<Rightarrow> (adapter_row \<Rightarrow> host_error + session) \<Rightarrow> refresh_options \<Rightarrow>
   adapter_row list \<Rightarrow> refresh_report \<Rightarrow> db \<Rightarrow> (store_error + refresh_report) \<times> db" where
  "refresh_each fingerprint spawn options [] rep d = (Inr rep, d)"
| "refresh_each fingerprint spawn options (x # xs) rep d =
     (if rfo_only options \<noteq> None \<and> rfo_only options \<noteq> Some (ar_adapter_id x)
      then refresh_each fingerprint spawn options xs rep d
      else
        (case open_balance_read (ar_adapter_id x) d of
           Inl e \<Rightarrow> (Inl e, d)
         | Inr (_, d) \<Rightarrow>
             (case spawn x of
                Inl e \<Rightarrow>
                  refresh_each fingerprint spawn options xs
                    (rep\<lparr>rp_adapter_errors := rp_adapter_errors rep @ [(ar_adapter_id x, SpawnFailed e)]\<rparr>) d
              | Inr ses \<Rightarrow>
                  (case refresh_adapter fingerprint ses (ar_adapter_id x)
                          \<lparr>op_resume = rfo_resume options, op_confirm_empty = rfo_confirm_empty options\<rparr> d of
                     (outcome, d) \<Rightarrow>
                       let ended = (case ss_close ses of
                                      Some (Violation kind) \<Rightarrow> [(ar_adapter_id x, EndedInViolation kind)]
                                    | _ \<Rightarrow> []);
                           rep = rep\<lparr>rp_adapter_errors := rp_adapter_errors rep @ ended\<rparr>;
                           rep = (case outcome of
                                    Inl e \<Rightarrow> rep\<lparr>rp_adapter_errors :=
                                               rp_adapter_errors rep @ [(ar_adapter_id x, AdapterFailed e)]\<rparr>
                                  | Inr af \<Rightarrow>
                                      rep\<lparr>rp_sweeps := rp_sweeps rep @ af_sweeps af,
                                          rp_adapter_errors := rp_adapter_errors rep @
                                            map (\<lambda>e. (ar_adapter_id x, Reported e)) (af_errors af)\<rparr>)
                       in refresh_each fingerprint spawn options xs rep d))))"

definition refresh ::
  "(string \<Rightarrow> json option) \<Rightarrow> (resource_descriptor \<Rightarrow> string) \<Rightarrow> (adapter_row \<Rightarrow> host_error + session) \<Rightarrow>
   refresh_options \<Rightarrow> db \<Rightarrow> (store_error + refresh_report) \<times> db" where
  "refresh from_str fingerprint spawn options d =
     (case adapters from_str d of
        Inl e \<Rightarrow> (Inl e, d)
      | Inr [] \<Rightarrow> (Inl (Usage ''no adapters connected -- run `sumer connect <argv...>` first''), d)
      | Inr rows \<Rightarrow> refresh_each fingerprint spawn options rows \<lparr>rp_sweeps = [], rp_adapter_errors = []\<rparr> d)"

end
