(* ===== verification/Confined.thy ===== *)
theory Confined
  imports "HOL-Library.Sublist" Sweep_Correct Refresh
begin

text \<open>
  What the operations of the store may write: rows are only appended (an observation row may have
  its three bookkeeping columns stamped), and an operation for one adapter leaves every row of
  every other adapter as it was. The relation \<open>grows\<close> is shown of each table operation, then of
  each step of a sweep, then of a refresh.
\<close>

section \<open>The relation\<close>

text \<open>An observation row without the columns that a later sweep stamps.\<close>

definition frozen :: "observation_rec \<Rightarrow> observation_rec" where
  "frozen r = r\<lparr>or_raw := (or_raw r)\<lparr>ro_last_seen_crawl := 0, ro_derivation := [], ro_fingerprint := None\<rparr>\<rparr>"

definition append_only :: "db \<Rightarrow> db \<Rightarrow> bool" where
  "append_only d e \<longleftrightarrow>
     prefix (map frozen (observation_t d)) (map frozen (observation_t e)) \<and>
     prefix (retraction_t d) (retraction_t e) \<and> prefix (balance_t d) (balance_t e) \<and>
     prefix (discrepancy_t d) (discrepancy_t e)"

text \<open>The rows of one adapter.\<close>

definition view :: "string \<Rightarrow> db \<Rightarrow> db" where
  "view b d =
     \<lparr>user_version = user_version d,
      adapter_t = filter (\<lambda>x. at_adapter_id x = b) (adapter_t d),
      resource_t = filter (\<lambda>x. sr_adapter_id x = b) (resource_t d),
      crawl_t = filter (\<lambda>x. cw_adapter_id x = b) (crawl_t d),
      observation_t = filter (\<lambda>x. or_adapter_id x = b) (observation_t d),
      balance_t = filter (\<lambda>x. bt_adapter_id x = b) (balance_t d),
      retraction_t = filter (\<lambda>x. rt_adapter_id x = b) (retraction_t d),
      discrepancy_t = filter (\<lambda>x. di_adapter_id (dt_row x) = b) (discrepancy_t d)\<rparr>"

definition grows :: "string set \<Rightarrow> db \<Rightarrow> db \<Rightarrow> bool" where
  "grows A d e \<longleftrightarrow> append_only d e \<and> (\<forall>b. b \<notin> A \<longrightarrow> view b e = view b d)"

lemma grows_refl [simp]: "grows A d d"
  by (simp add: grows_def append_only_def)

lemma grows_trans: "grows A d e \<Longrightarrow> grows A e f \<Longrightarrow> grows A d f"
  unfolding grows_def append_only_def by (auto intro: prefix_order.order_trans)

lemma grows_mono: "A \<subseteq> B \<Longrightarrow> grows A d e \<Longrightarrow> grows B d e"
  by (auto simp: grows_def)

lemma filter_update_where:
  assumes "\<And>x. x \<in> set rows \<Longrightarrow> P x \<Longrightarrow> \<not> Q x \<and> \<not> Q (f x)"
  shows "filter Q (update_where P f rows) = filter Q rows"
  using assms by (induction rows) (auto simp: update_where_def)

lemma frozen_update_where:
  assumes "\<And>x. frozen (f x) = frozen x"
  shows "map frozen (update_where P f rows) = map frozen rows"
  using assms by (simp add: update_where_def)

section \<open>The operations on tables\<close>

named_theorems grows_op \<open>what an operation of the store may write\<close>

lemma grows_derivation [grows_op]: "grows {a} d (set_adapter_derivation a v d)"
  by (auto simp: grows_def append_only_def view_def set_adapter_derivation_def intro!: filter_update_where)

lemma grows_reauth [grows_op]: "grows {a} d (set_needs_reauth a v d)"
  by (auto simp: grows_def append_only_def view_def set_needs_reauth_def intro!: filter_update_where)

lemma grows_definition [grows_op]: "grows {a} d (set_resource_definition a r f p d)"
  by (auto simp: grows_def append_only_def view_def set_resource_definition_def intro!: filter_update_where)

lemma grows_resource [grows_op]: "upsert_resource a r k l d = Inr e \<Longrightarrow> grows {a} d e"
  by (auto simp: grows_def append_only_def view_def upsert_resource_def split: if_splits intro!: filter_update_where)

lemma grows_append [grows_op]: "append_observation value_text p d = Inr e \<Longrightarrow> grows {ap_adapter_id p} d e"
  by (auto simp: grows_def append_only_def view_def append_observation_def Let_def split: if_splits)

lemma grows_stamp [grows_op]:
  assumes "stamp_seen a l v c x f d = Inr e"
  shows "grows {a} d e"
proof -
  let ?hit = "\<lambda>r. or_adapter_id r = a \<and> ro_local_id (or_raw r) = l \<and> ro_revision (or_raw r) = sql_revision v"
  let ?rows = "update_where ?hit (\<lambda>r. r\<lparr>or_raw := (or_raw r)\<lparr>ro_last_seen_crawl := c, ro_derivation := x,
      ro_fingerprint := f\<rparr>\<rparr>) (observation_t d)"
  have e: "e = d\<lparr>observation_t := ?rows\<rparr>"
    using assms by (simp add: stamp_seen_def Let_def split: if_splits)
  have "map frozen ?rows = map frozen (observation_t d)" by (rule frozen_update_where) (simp add: frozen_def)
  moreover have "filter (\<lambda>x. or_adapter_id x = b) ?rows = filter (\<lambda>x. or_adapter_id x = b) (observation_t d)"
    if "b \<noteq> a" for b by (rule filter_update_where) (use that in auto)
  ultimately show ?thesis by (simp add: e grows_def append_only_def view_def)
qed

lemma grows_retraction [grows_op]: "append_retraction a l v s c n d = Inr e \<Longrightarrow> grows {a} d e"
  by (auto simp: grows_def append_only_def view_def append_retraction_def split: if_splits)

lemma grows_balance_read [grows_op]: "open_balance_read a d = Inr (i, e) \<Longrightarrow> grows {a} d e"
  by (auto simp: grows_def append_only_def view_def open_balance_read_def split: option.splits intro!: filter_update_where)

lemma grows_balance [grows_op]: "grows {a} d (append_balance a i b x d)"
  by (auto simp: grows_def append_only_def view_def append_balance_def)

lemma grows_discrepancy [grows_op]: "append_discrepancy a r k c x n d = Inr e \<Longrightarrow> grows {a} d e"
  by (auto simp: grows_def append_only_def view_def append_discrepancy_def split: if_splits)

section \<open>Crawls\<close>

text \<open>
  A crawl is written by its id alone, so that the id belongs to this adapter and to no other has to
  hold; it does, since the id of a new crawl is larger than every other.
\<close>

definition owned :: "string \<Rightarrow> int \<Rightarrow> db \<Rightarrow> bool" where
  "owned a c d \<longleftrightarrow> list_all (\<lambda>x. cw_crawl_id x = c \<longrightarrow> cw_adapter_id x = a) (crawl_t d)"

lemma grows_crawl_update:
  assumes own: "owned a c d"
    and f: "\<And>x. cw_adapter_id (f x) = cw_adapter_id x" "\<And>x. cw_crawl_id (f x) = cw_crawl_id x"
  shows "grows {a} d (d\<lparr>crawl_t := update_where (\<lambda>x. cw_crawl_id x = c) f (crawl_t d)\<rparr>) \<and>
    owned a c (d\<lparr>crawl_t := update_where (\<lambda>x. cw_crawl_id x = c) f (crawl_t d)\<rparr>)"
proof
  have "filter (\<lambda>x. cw_adapter_id x = b) (update_where (\<lambda>x. cw_crawl_id x = c) f (crawl_t d)) =
      filter (\<lambda>x. cw_adapter_id x = b) (crawl_t d)" if "b \<noteq> a" for b
    by (rule filter_update_where) (use own that in \<open>auto simp: owned_def list_all_iff f\<close>)
  then show "grows {a} d (d\<lparr>crawl_t := update_where (\<lambda>x. cw_crawl_id x = c) f (crawl_t d)\<rparr>)"
    by (simp add: grows_def append_only_def view_def)
  show "owned a c (d\<lparr>crawl_t := update_where (\<lambda>x. cw_crawl_id x = c) f (crawl_t d)\<rparr>)"
    using own by (simp add: owned_def update_where_def list.pred_map comp_def)
      (erule list.pred_mono_strong, simp add: f)
qed

lemma grows_cursor: "owned a c d \<Longrightarrow> grows {a} d (set_crawl_cursor c p d) \<and> owned a c (set_crawl_cursor c p d)"
  unfolding set_crawl_cursor_def by (rule grows_crawl_update) simp_all

lemma grows_finish: "owned a c d \<Longrightarrow> grows {a} d (finish_crawl c x y z d) \<and> owned a c (finish_crawl c x y z d)"
  unfolding finish_crawl_def by (rule grows_crawl_update) simp_all

lemma grows_open_crawl:
  "open_crawl a r s p v f d = (c, e) \<Longrightarrow> grows {a} d e \<and> owned a c e"
proof -
  assume o: "open_crawl a r s p v f d = (c, e)"
  let ?cleared = "update_where (\<lambda>c. cw_adapter_id c = a \<and> cw_resource_id c = r \<and> cw_next_page c \<noteq> None)
     (cw_next_page_update (\<lambda>_. None)) (crawl_t d)"
  have c: "c = next_rowid (map cw_crawl_id ?cleared)" using o by (simp add: open_crawl_def Let_def)
  have fresh: "cw_crawl_id x \<noteq> c" if "x \<in> set ?cleared" for x
    using that next_rowid_greater [of "cw_crawl_id x" "map cw_crawl_id ?cleared"] unfolding c by auto
  have "view b e = view b d" if "b \<noteq> a" for b
    using o that by (auto simp: view_def open_crawl_def Let_def intro!: filter_update_where)
  then show ?thesis
    using o fresh by (auto simp: grows_def append_only_def open_crawl_def Let_def owned_def list_all_iff)
qed

section \<open>A sweep\<close>

text \<open>What a step may write while its crawl is this adapter's.\<close>

text \<open>The balances and the counts of balance reads, which no sweep touches.\<close>

definition reads_of :: "db \<Rightarrow> (string \<times> int) list \<times> balance_rec list" where
  "reads_of d = (map (\<lambda>r. (at_adapter_id r, at_balance_read r)) (adapter_t d), balance_t d)"

definition writes :: "string \<Rightarrow> int \<Rightarrow> db \<Rightarrow> db \<Rightarrow> bool" where
  "writes a c d e \<longleftrightarrow> (owned a c d \<longrightarrow> grows {a} d e \<and> owned a c e) \<and> reads_of e = reads_of d"

lemma writes_refl [simp]: "writes a c d d"
  by (simp add: writes_def)

lemma writes_trans: "writes a c d e \<Longrightarrow> writes a c e f \<Longrightarrow> writes a c d f"
  by (auto simp: writes_def intro: grows_trans)

lemma writesI: "grows {a} d e \<Longrightarrow> crawl_t e = crawl_t d \<Longrightarrow> reads_of e = reads_of d \<Longrightarrow> writes a c d e"
  by (simp add: writes_def owned_def)

lemma reads_of_ops:
  "stamp_seen a l v c x f d = Inr e \<Longrightarrow> reads_of e = reads_of d"
  "append_observation value_text p d = Inr e \<Longrightarrow> reads_of e = reads_of d"
  "append_retraction a l v t c n d = Inr e \<Longrightarrow> reads_of e = reads_of d"
  "append_discrepancy a r k c t n d = Inr e \<Longrightarrow> reads_of e = reads_of d"
  by (auto simp: reads_of_def stamp_seen_def append_observation_def append_retraction_def append_discrepancy_def Let_def
      split: if_splits)

lemma reads_of_same [simp]:
  "reads_of (set_crawl_cursor c p d) = reads_of d" "reads_of (finish_crawl c x y z d) = reads_of d"
  "reads_of (set_resource_definition a r f q d) = reads_of d" "reads_of (set_adapter_derivation a v d) = reads_of d"
  "reads_of (set_needs_reauth a w d) = reads_of d"
  by (simp_all add: reads_of_def set_crawl_cursor_def finish_crawl_def set_resource_definition_def
      set_adapter_derivation_def set_needs_reauth_def update_where_def)

lemma ingest_one_cases:
  assumes "ingest_one sha value_text input c buried ob s = Inr s'"
  obtains (stamp) v where "stamp_seen (si_adapter_id input) (ob_local_id ob) v c (si_hello_derivation input)
        (Some (si_fingerprint input)) (is_db s) = Inr (is_db s')"
    | (append) p where "append_observation value_text p (is_db s) = Inr (is_db s')" "ap_adapter_id p = si_adapter_id input"
proof -
  let ?h = "content_hash sha value_text ob"
  let ?head = "last_opt (chain (is_fold s) (si_adapter_id input) (ob_local_id ob))"
  let ?dedup = "\<not> (case highest_revision (is_fold s) (si_adapter_id input) (ob_local_id ob) of
       None \<Rightarrow> False | Some revision \<Rightarrow> is_buried buried (ob_local_id ob) revision) \<and>
     map_option (\<lambda>rv. content_hash sha value_text (rv_observation rv)) ?head = Some ?h"
  note step = assms [unfolded ingest_one_def Let_def]
  show ?thesis
  proof (cases ?dedup)
    case True
    from step [unfolded if_P [OF True] res_bind_Inr_iff] show ?thesis using that(1) by auto
  next
    case False
    obtain v fs where ing: "ingest ob (is_fold s) = (v, fs)" by fastforce
    from step [unfolded if_not_P [OF False] ing prod.case res_bind_Inr_iff] show ?thesis using that(2) by auto
  qed
qed

lemma ingest_one_writes:
  assumes "ingest_one sha value_text input c buried ob s = Inr s'"
  shows "writes (si_adapter_id input) c (is_db s) (is_db s') \<and> retraction_t (is_db s') = retraction_t (is_db s)"
  using assms
proof (cases rule: ingest_one_cases)
  case stamp
  then show ?thesis using grows_stamp [OF stamp] frame_stamp [OF stamp] reads_of_ops(1) [OF stamp] by (auto intro: writesI)
next
  case append
  then show ?thesis using grows_append [OF append(1)] frame_append [OF append(1)] reads_of_ops(2) [OF append(1)]
    by (auto intro: writesI)
qed

lemma ingest_each_writes:
  "ingest_each sha value_text input c buried obs s = Inr s' \<Longrightarrow>
   writes (si_adapter_id input) c (is_db s) (is_db s') \<and> retraction_t (is_db s') = retraction_t (is_db s)"
proof (induction obs arbitrary: s)
  case (Cons ob obs)
  then obtain s1 where s1: "ingest_one sha value_text input c buried ob s = Inr s1"
    "ingest_each sha value_text input c buried obs s1 = Inr s'" by (auto simp: res_simps)
  show ?case using ingest_one_writes [OF s1(1)] Cons.IH [OF s1(2)] by (auto intro: writes_trans)
qed simp

lemma ingest_page_writes:
  "ingest_page sha value_text input c fs heads buried obs d = Inr s' \<Longrightarrow>
   writes (si_adapter_id input) c d (is_db s') \<and> retraction_t (is_db s') = retraction_t d"
  unfolding ingest_page_def by (drule ingest_each_writes) simp

lemma retract_each_writes:
  "retract_each input c now heads observed exempt live (cnt, d) = Inr (cnt', e) \<Longrightarrow> writes (si_adapter_id input) c d e"
proof (induction live arbitrary: cnt d)
  case (Cons x live)
  obtain l v head where x: "x = (l, v, head)" by (cases x) auto
  show ?case
  proof (cases "absent input observed exempt x")
    case True
    then obtain d1 cnt1 where r: "append_retraction (si_adapter_id input) l v (retraction_reason input heads l) c now d = Inr d1"
      "retract_each input c now heads observed exempt live (cnt1, d1) = Inr (cnt', e)"
      using Cons.prems by (auto simp: x absent_def Let_def res_simps)
    then have "writes (si_adapter_id input) c d d1"
      using grows_retraction [OF r(1)] frame_retraction [OF r(1)] reads_of_ops(3) [OF r(1)] by (intro writesI) simp_all
    then show ?thesis using Cons.IH [OF r(2)] writes_trans by blast
  next
    case False
    then have "\<exists>cnt1. retract_each input c now heads observed exempt live (cnt1, d) = Inr (cnt', e)"
      using Cons.prems by (auto simp: x absent_def split: if_splits)
    then show ?thesis using Cons.IH by blast
  qed
qed simp

lemma discrepancy_writes: "append_discrepancy a r k c x n d = Inr e \<Longrightarrow> writes a c' d e"
  by (rule writesI) (simp_all add: grows_op frame_discrepancy reads_of_ops)

lemma summarize_writes:
  "summarize input c now xs (ds, d) = Inr (ds', e) \<Longrightarrow> writes (si_adapter_id input) c d e"
proof (induction xs arbitrary: ds d)
  case (Cons x xs)
  obtain n kind what where x: "x = (n, kind, what)" by (cases x) auto
  show ?case
  proof (cases "n = 0")
    case False
    then obtain d1 ds1 where r: "append_discrepancy (si_adapter_id input) (si_resource_id input) kind c
        (summary_detail n kind what) now d = Inr d1" "summarize input c now xs (ds1, d1) = Inr (ds', e)"
      using Cons.prems by (auto simp: x Let_def res_simps)
    then show ?thesis using discrepancy_writes Cons.IH writes_trans by blast
  qed (use Cons in \<open>simp add: x\<close>)
qed simp

lemma lone_writes:
  "lone_discrepancy input c now kind detail d = Inr (n, ds, e) \<Longrightarrow> writes (si_adapter_id input) c d e"
  by (auto simp: lone_discrepancy_def res_simps intro: discrepancy_writes)

lemma derive_retractions_writes:
  assumes "derive_retractions input c fs heads observed exempt now d = Inr (n, ds, e)"
  shows "writes (si_adapter_id input) c d e"
proof -
  obtain hw where hw: "retraction_high_water (si_adapter_id input) d = Inr hw"
    using assms by (auto simp: derive_retractions_def res_simps)
  let ?live = "sweep_live_set fs hw (si_adapter_id input) (si_resource_id input)"
  let ?vantage = "Option.bind (resource (si_adapter_id input) (si_resource_id input) d) sr_last_provider_id"
  let ?moved = "?vantage \<noteq> None \<and> ?vantage \<noteq> Some (si_provider_id input)"
  let ?empty = "observed = {} \<and> ?live \<noteq> [] \<and> \<not> op_confirm_empty (si_options input)"
  note step = assms [unfolded derive_retractions_def hw res_bind.simps Let_def]
  consider (lone) kind detail where "lone_discrepancy input c now kind detail d = Inr (n, ds, e)"
    | (each) cnt cnt' d1 xs where "retract_each input c now heads observed exempt ?live (cnt, d) = Inr (cnt', d1)"
        "summarize input c now xs ([], d1) = Inr (ds, e)"
  proof (cases ?moved)
    case True
    show ?thesis using step [unfolded if_P [OF True]] by (rule that(1))
  next
    case v: False
    show ?thesis
    proof (cases ?empty)
      case True
      show ?thesis using step [unfolded if_not_P [OF v] if_P [OF True]] by (rule that(1))
    next
      case False
      show ?thesis using step [unfolded if_not_P [OF v] if_not_P [OF False] res_bind_Inr_iff] that(2)
        by (auto simp: res_bind_Inr_iff simp del: summarize.simps)
    qed
  qed
  then show ?thesis
    by cases (blast intro: lone_writes writes_trans retract_each_writes summarize_writes)+
qed

lemma commit_final_writes:
  assumes "commit_final env input c g s observed exempt rep = Inr (rep', e)"
  shows "writes (si_adapter_id input) c (is_db s) e"
proof -
  obtain g' rep1 where j: "judge_held (ev_held env) g rep = (g', rep1)" by fastforce
  obtain d p x y z where d: "writes (si_adapter_id input) c (is_db s) d"
    and e: "e = finish_crawl c x y z (set_resource_definition (si_adapter_id input) (si_resource_id input)
        (si_fingerprint input) p (set_adapter_derivation (si_adapter_id input) (si_hello_derivation input) d))"
  proof (cases "disqualifier g'")
    case None
    obtain n ds d1 where d1: "derive_retractions input c (is_fold s) (is_heads s) observed exempt
        (ts_str (ev_now env)) (is_db s) = Inr (n, ds, d1)"
      using assms unfolding commit_final_def j prod.case None option.case res_bind_Inr_iff by auto
    have "e = finish_crawl c (gt_drained g') True None
        (set_resource_definition (si_adapter_id input) (si_resource_id input) (si_fingerprint input)
           (Some (si_provider_id input)) (set_adapter_derivation (si_adapter_id input) (si_hello_derivation input) d1))"
      using assms unfolding commit_final_def j prod.case None option.case Let_def d1 by simp
    then show ?thesis by (rule that [OF derive_retractions_writes [OF d1]])
  next
    case (Some r)
    then show ?thesis using assms that [OF writes_refl]
      unfolding commit_final_def j prod.case Some option.case Let_def by auto
  qed
  have "writes (si_adapter_id input) c d (set_resource_definition (si_adapter_id input) (si_resource_id input)
        (si_fingerprint input) p (set_adapter_derivation (si_adapter_id input) (si_hello_derivation input) d))" for p
    by (rule writesI [OF grows_trans [OF grows_derivation grows_definition]])
      (simp add: set_resource_definition_def set_adapter_derivation_def, simp)
  moreover have "writes (si_adapter_id input) c f (finish_crawl c x y z f)" for f
    using grows_finish by (simp add: writes_def)
  ultimately show ?thesis using d unfolding e by (blast intro: writes_trans)
qed

text \<open>The database a page leaves.\<close>

fun step_db :: "sweep_step \<Rightarrow> db" where
  "step_db (Swept _ d) = d"
| "step_db (NextPage _ d) = d"

lemma give_up_writes: "give_up c reason rep d = (res, e) \<Longrightarrow> writes a c d e"
  using grows_finish by (auto simp: give_up_def writes_def)

text \<open>The four ways a page ends.\<close>

lemma sweep_page_cases:
  obtains
    (given_up) reason rep where
      "sweep_page env input c buried n s d = (case give_up c reason rep d of (res, d) \<Rightarrow> Swept res d)"
      "sp_complete rep = sp_complete (ps_report s)"
  | (refused) err where "sweep_page env input c buried n s d = Swept (Inl err) d"
  | (final) g ing obs observed ex where
      "ingest_page (ev_sha env) (ev_value_text env) input c (ps_fold s) (ps_heads s) buried obs d = Inr ing"
      "gt_connection_violation g = gt_connection_violation (ps_gate s)"
      "sweep_page env input c buried n s d =
         (case commit_final env input c g ing observed ex (add_counts (is_counts ing) (ps_report s)) of
            Inl e \<Rightarrow> Swept (Inl e) d | Inr (rep, d) \<Rightarrow> Swept (Inr rep) d)"
  | (continued) s' ing obs p where
      "ingest_page (ev_sha env) (ev_value_text env) input c (ps_fold s) (ps_heads s) buried obs d = Inr ing"
      "gt_connection_violation (ps_gate s') = gt_connection_violation (ps_gate s)"
      "ps_report s' = add_counts (is_counts ing) (ps_report s)"
      "sweep_page env input c buried n s d = NextPage s' (set_crawl_cursor c p (is_db ing))"
proof (cases "ev_read env n \<lparr>qy_resource_id = si_resource_id input, qy_page = ps_page s\<rparr>")
  case (Inl err)
  then show ?thesis using given_up by (rule sweep_page_failed)
next
  case read: (Inr rd)
  let ?obs = "own_on input (hrd_observations rd)"
  show ?thesis
  proof (cases "List.find (\<lambda>st. rs_resource_id st = si_resource_id input) (hrd_statuses rd)")
    case None
    show ?thesis by (rule given_up [OF _ refl]) (simp only: sweep_page_def read None sum.case option.case)
  next
    case found: (Some st)
    obtain g ex where j: "judge_page st n (ps_gate s, ps_exempt s) = (g, ex)" by fastforce
    let ?nxt = "Option.bind (rs_page st) pg_next"
    let ?g = "(if foreign_on input (hrd_observations rd) then g\<lparr>gt_foreign_provenance := True\<rparr> else g)
        \<lparr>gt_drained := ?nxt = None \<and> rs_page st \<noteq> None\<rparr>"
    have g: "gt_connection_violation ?g = gt_connection_violation (ps_gate s)"
      by (simp add: judge_page_fields(7) [OF j])
    note page = sweep_page_def [of env input c buried n s d, unfolded read found sum.case option.case j prod.case Let_def]
    show ?thesis
    proof (cases "ingest_page (ev_sha env) (ev_value_text env) input c (ps_fold s) (ps_heads s) buried ?obs d")
      case (Inl err)
      show ?thesis by (rule refused) (simp only: page Inl sum.case)
    next
      case ing: (Inr i)
      show ?thesis
      proof (cases "?nxt = None")
        case True
        show ?thesis by (rule final [OF ing g]) (simp only: page ing sum.case if_P [OF True])
      next
        case False
        show ?thesis by (rule continued [OF ing _ _ page [unfolded ing sum.case if_not_P [OF False]]]) (simp_all add: judge_page_fields(7) [OF j])
      qed
    qed
  qed
qed

lemma sweep_page_writes: "writes (si_adapter_id input) c d (step_db (sweep_page env input c buried n s d))"
proof (cases rule: sweep_page_cases [of env input c buried n s d])
  case given_up
  then show ?thesis using give_up_writes by (auto split: prod.split)
next
  case refused
  then show ?thesis by simp
next
  case (final g ing obs observed ex)
  have "writes (si_adapter_id input) c d (is_db ing)" using ingest_page_writes [OF final(1)] by simp
  then show ?thesis unfolding final(3)
    using commit_final_writes writes_trans by (auto split: sum.split)
next
  case (continued s' ing obs p)
  have "writes (si_adapter_id input) c d (is_db ing)" using ingest_page_writes [OF continued(1)] by simp
  moreover have "writes (si_adapter_id input) c (is_db ing) (set_crawl_cursor c p (is_db ing))"
    using grows_cursor by (simp add: writes_def)
  ultimately show ?thesis unfolding continued(4) step_db.simps by (rule writes_trans)
qed

lemma sweep_pages_writes: "writes (si_adapter_id input) c d (snd (sweep_pages env input c buried k n s d))"
proof (induction k arbitrary: n s d)
  case 0
  show ?case using give_up_writes by (metis prod.collapse sweep_pages.simps(1))
next
  case (Suc k)
  show ?case
  proof (cases "sweep_page env input c buried n s d")
    case (Swept res e)
    then show ?thesis using sweep_page_writes [of input c d env buried n s] by simp
  next
    case (NextPage s' e)
    then have "writes (si_adapter_id input) c d e" using sweep_page_writes [of input c d env buried n s] by simp
    then show ?thesis unfolding sweep_pages.simps NextPage sweep_step.case by (rule writes_trans) (rule Suc.IH)
  qed
qed

lemma sweep_resource_grows: "grows {si_adapter_id input} d (snd (sweep_resource env input d))"
proof (cases "sweep_start env input d")
  case (Inr p)
  obtain resumed start where p: "p = (resumed, start)" by fastforce
  obtain c d1 where o: "open_crawl (si_adapter_id input) (si_resource_id input) (ts_str (ev_now env)) resumed
      (si_hello_derivation input) (Some (si_fingerprint input)) d = (c, d1)" by fastforce
  note g = grows_open_crawl [OF o]
  have later: "grows {si_adapter_id input} d1 e" if "writes (si_adapter_id input) c d1 e" for e
    using that g by (simp add: writes_def)
  have "writes (si_adapter_id input) c d1 (snd (sweep_resource env input d))"
    unfolding sweep_resource_def Inr p sum.case prod.case o Let_def
    using sweep_pages_writes by (simp split: sum.split)
  then show ?thesis using g later grows_trans by blast
qed (simp add: sweep_resource_def)

lemma sweep_resource_reads: "reads_of (snd (sweep_resource env input d)) = reads_of d"
proof (cases "sweep_start env input d")
  case (Inr p)
  obtain resumed start where p: "p = (resumed, start)" by fastforce
  obtain c d1 where o: "open_crawl (si_adapter_id input) (si_resource_id input) (ts_str (ev_now env)) resumed
      (si_hello_derivation input) (Some (si_fingerprint input)) d = (c, d1)" by fastforce
  have "reads_of d1 = reads_of d" using o by (auto simp: open_crawl_def reads_of_def Let_def)
  moreover have "reads_of (snd (sweep_resource env input d)) = reads_of d1"
    unfolding sweep_resource_def Inr p sum.case prod.case o Let_def
    using sweep_pages_writes by (simp add: writes_def split: sum.split)
  ultimately show ?thesis by simp
qed (simp add: sweep_resource_def)

end
