(* ===== verification/Ingest_Correct.thy ===== *)
theory Ingest_Correct
  imports Confined
begin

text \<open>
  What ingesting a page writes, exactly: an observation whose content is that of the head of its
  chain, and whose record is not retracted, is only stamped; every other one is one new row.
\<close>




definition row_seen :: "sweep_input \<Rightarrow> int \<Rightarrow> (string \<times> nat) list \<Rightarrow> observation_rec \<Rightarrow> observation_rec" where
  "row_seen input c seen r =
     (if or_adapter_id r = si_adapter_id input \<and>
         (ro_local_id (or_raw r), ro_revision (or_raw r)) \<in> set (map (map_prod id sql_revision) seen)
      then r\<lparr>or_raw := (or_raw r)\<lparr>ro_last_seen_crawl := c, ro_derivation := si_hello_derivation input,
                                  ro_fingerprint := Some (si_fingerprint input)\<rparr>\<rparr>
      else r)"




lemma row_id_seen [simp]: "row_id (row_seen input c seen r) = row_id r"
  by (simp add: row_seen_def)









section \<open>The property\<close>



end
