(* ===== verification/Refresh_Correct.thy ===== *)
theory Refresh_Correct
  imports Confined
begin

text \<open>
  A refresh writes only for the adapters it visits and never takes anything back, and a connection
  that broke the wire contract earns no retraction from then on.
\<close>

section \<open>What a refresh may write\<close>

lemma upsert_all_grows: "grows {a} d (snd (upsert_all a xs d))"
proof (induction xs arbitrary: d)
  case (Cons x xs)
  show ?case
  proof (cases "upsert_resource a (rd_resource_id x) (rd_kind x) (rd_label x) d")
    case (Inr e)
    then show ?thesis using grows_trans [OF grows_resource [OF Inr] Cons.IH] by simp
  qed simp
qed simp

lemma append_balances_grows: "append_balances a i sts bs d = Inr e \<Longrightarrow> grows {a} d e"
proof (induction bs arbitrary: d)
  case (Cons b bs)
  then obtain x where "append_balances a i sts bs (append_balance a i b x d) = Inr e"
    by (auto split: option.splits)
  then show ?case using grows_trans [OF grows_balance Cons.IH] by blast
qed simp

lemma read_balances_grows: "read_balances a i answer d = Inr (tainted, errors, e) \<Longrightarrow> grows {a} d e"
  by (auto simp: read_balances_def res_simps split: sum.splits intro: append_balances_grows)

lemma sweep_all_grows:
  "grows {a} d (snd (sweep_all ses sts fingerprint a options tainted i xs reports d))"
proof (induction xs arbitrary: tainted i reports d)
  case (Cons x xs)
  let ?in = "sweep_input_of ses sts fingerprint a options tainted x"
  obtain res e where r: "sweep_resource (ss_sweep ses i) ?in d = (res, e)" by fastforce
  have a: "si_adapter_id ?in = a" by (simp add: sweep_input_of_def)
  have g: "grows {a} d e"
    using sweep_resource_grows [of ?in d "ss_sweep ses i"] unfolding r a by simp
  show ?case
    using r grows_trans [OF g Cons.IH] g by (cases res) simp_all
qed simp

lemma refresh_adapter_grows: "grows {a} d (snd (refresh_adapter fingerprint ses a options d))"
proof (cases "open_balance_read a d")
  case (Inr p)
  obtain i d1 where p: "p = (i, d1)" by fastforce
  have g1: "grows {a} d d1" using Inr p by (simp add: grows_balance_read)
  show ?thesis
  proof (cases "hr_adapter_id (ss_hello ses) \<noteq> a \<or> \<not> is_ok (ss_listed ses)")
    case True
    then show ?thesis using g1 by (auto simp: refresh_adapter_def Inr p is_ok_iff split: sum.split)
  next
    case False
    then obtain listed where listed: "ss_listed ses = Inr listed" "hr_adapter_id (ss_hello ses) = a"
      by (auto simp: is_ok_iff)
    obtain res d2 where u: "upsert_all a listed d1 = (res, d2)" by fastforce
    have g2: "grows {a} d d2" using grows_trans [OF g1 upsert_all_grows [of a d1 listed]] by (simp add: u)
    have g3: "grows {a} d (set_needs_reauth a v d2)" for v by (rule grows_trans [OF g2 grows_reauth])
    have g4: "grows {a} d e" if "read_balances a i answer (set_needs_reauth a v d2) = Inr (tainted, errors, e)"
      for answer v tainted errors e
      by (rule grows_trans [OF g3 read_balances_grows [OF that]])
    have g5: "grows {a} d e'" if "grows {a} d e" "sweep_all ses sts fingerprint a options tainted k xs reports e = (res, e')"
      for e sts tainted k xs reports res e'
      using grows_trans [OF that(1) sweep_all_grows [of a e ses sts fingerprint options tainted k xs reports]] that(2) by simp
    note g6 = g5 [OF g4]
    have ann: "\<not> hr_adapter_id (ss_hello ses) \<noteq> a" by (simp add: listed)
    show ?thesis
      unfolding refresh_adapter_def Inr p sum.case prod.case listed(1) u Let_def if_not_P [OF ann]
      using g2 g3 g4 g6 by (auto split: sum.split prod.split)
  qed
qed (simp add: refresh_adapter_def)

text \<open>The adapters a refresh visits.\<close>

definition visited :: "refresh_options \<Rightarrow> adapter_row list \<Rightarrow> string set" where
  "visited options xs = {a \<in> ar_adapter_id ` set xs. rfo_only options = None \<or> rfo_only options = Some a}"

lemma refresh_each_grows:
  "grows (visited options xs) d (snd (refresh_each fingerprint spawn options xs rep d))"
proof (induction xs arbitrary: rep d)
  case (Cons x xs)
  let ?a = "ar_adapter_id x"
  have sub: "visited options xs \<subseteq> visited options (x # xs)" by (auto simp: visited_def)
  note IH = grows_mono [OF sub Cons.IH]
  show ?case
  proof (cases "rfo_only options \<noteq> None \<and> rfo_only options \<noteq> Some ?a")
    case True
    then show ?thesis using IH by simp
  next
    case False
    then have a: "{?a} \<subseteq> visited options (x # xs)" by (auto simp: visited_def)
    show ?thesis
    proof (cases "open_balance_read ?a d")
      case (Inr p)
      obtain i d1 where p: "p = (i, d1)" by fastforce
      note opened = Inr
      have g1: "grows (visited options (x # xs)) d d1"
        by (rule grows_mono [OF a]) (use Inr p in \<open>simp add: grows_balance_read\<close>)
      have g2: "grows (visited options (x # xs)) d1 (snd (refresh_adapter fingerprint ses ?a o1 d1))" for ses o1
        by (rule grows_mono [OF a refresh_adapter_grows])
      show ?thesis
      proof (cases "spawn x")
        case (Inl e)
        show ?thesis using grows_trans [OF g1 IH] unfolding refresh_each.simps if_not_P [OF False]
          by (simp add: opened p Inl)
      next
        case (Inr ses)
        obtain outcome d2 where r: "refresh_adapter fingerprint ses ?a
            \<lparr>op_resume = rfo_resume options, op_confirm_empty = rfo_confirm_empty options\<rparr> d1 = (outcome, d2)" by fastforce
        have "grows (visited options (x # xs)) d d2"
          using grows_trans [OF g1 g2 [of ses]] r by (metis snd_conv)
        then show ?thesis
          using grows_trans [OF _ IH] unfolding refresh_each.simps if_not_P [OF False]
          by (simp add: opened p Inr r Let_def)
      qed
    qed (use IH in simp)
  qed
qed simp

section \<open>A connection that broke the contract\<close>

text \<open>A report of a sweep that the contract disqualified is not complete.\<close>

definition honest :: "sweep_report \<Rightarrow> bool" where
  "honest rep \<longleftrightarrow> sp_contract_violation rep = None \<or> \<not> sp_complete rep"

text \<open>What comes of a sweep, if its connection was tainted before it began or not.\<close>

definition taint_result :: "bool \<Rightarrow> db \<Rightarrow> store_error + sweep_report \<Rightarrow> db \<Rightarrow> bool" where
  "taint_result tainted d res e \<longleftrightarrow>
     (tainted \<longrightarrow> retraction_t e = retraction_t d) \<and>
     (case res of Inl _ \<Rightarrow> True | Inr rep \<Rightarrow> honest rep \<and> (tainted \<longrightarrow> \<not> sp_complete rep))"

lemma taint_give_up: "give_up c reason rep d = (res, e) \<Longrightarrow> \<not> sp_complete rep \<Longrightarrow> taint_result tainted d res e"
  by (auto simp: give_up_def taint_result_def honest_def final_frames)

lemma judge_held_report:
  assumes "judge_held held g rep = (g', rep')"
  shows "sp_contract_violation rep' \<noteq> None \<Longrightarrow> sp_contract_violation rep = None \<Longrightarrow> gt_connection_violation g' \<noteq> None"
  using assms unfolding judge_held_def Let_def
  by (cases "gt_connection_violation g"; cases held; auto)

lemma commit_final_taint:
  assumes fin: "commit_final env input c g s observed exempt rep = Inr (rep', e)"
    and rep: "\<not> sp_complete rep" "sp_contract_violation rep = None"
  shows "taint_result (gt_connection_violation g \<noteq> None) (is_db s) (Inr rep') e"
proof -
  obtain g' rep1 where j: "judge_held (ev_held env) g rep = (g', rep1)" by fastforce
  show ?thesis
  proof (cases "disqualifier g'")
    case None
    then have clean: "gt_connection_violation g' = None" by (simp add: disqualifier_None)
    then have "gt_connection_violation g = None" using judge_held_fields(1) [OF j] by simp
    moreover have "sp_contract_violation rep1 = None"
      using judge_held_report [OF j] clean rep(2) by blast
    moreover have "sp_contract_violation rep' = sp_contract_violation rep1"
      using fin unfolding commit_final_def j prod.case None option.case Let_def by (auto simp: res_bind_Inr_iff)
    ultimately show ?thesis by (simp add: taint_result_def honest_def)
  next
    case (Some reason)
    then show ?thesis
      using fin rep judge_held_fields(9) [OF j]
      unfolding commit_final_def j prod.case Some option.case Let_def
      by (auto simp: taint_result_def honest_def final_frames)
  qed
qed

lemma sweep_pages_taint:
  assumes "\<not> sp_complete (ps_report s)" "sp_contract_violation (ps_report s) = None"
    and "sweep_pages env input c buried k n s d = (res, e)"
  shows "taint_result (gt_connection_violation (ps_gate s) \<noteq> None) d res e"
  using assms
proof (induction k arbitrary: n s d)
  case 0
  then show ?case by (metis sweep_pages.simps(1) taint_give_up)
next
  case (Suc k)
  let ?v = "gt_connection_violation (ps_gate s) \<noteq> None"
  have stopped: "taint_result ?v d res e"
    if "sweep_page env input c buried n s d = (case give_up c reason rep d of (res, d) \<Rightarrow> Swept res d)"
      "\<not> sp_complete rep" for reason rep
  proof -
    obtain res' e' where g: "give_up c reason rep d = (res', e')" by fastforce
    then have "res' = res" "e' = e" using that(1) Suc.prems(3) by simp_all
    then show ?thesis using taint_give_up [OF g that(2)] by simp
  qed
  have clean: "sp_contract_violation (add_counts cs (ps_report s)) = None" "\<not> sp_complete (add_counts cs (ps_report s))" for cs
    using Suc.prems(1,2) by (simp_all add: add_counts_def)
  show ?case
  proof (cases rule: sweep_page_cases [of env input c buried n s d])
    case (given_up reason rep)
    then show ?thesis using stopped Suc.prems(1) by blast
  next
    case (refused err)
    then show ?thesis using Suc.prems(3) by (auto simp: taint_result_def)
  next
    case (final g ing obs observed ex)
    have ret: "retraction_t (is_db ing) = retraction_t d" using ingest_page_writes [OF final(1)] by simp
    show ?thesis
    proof (cases "commit_final env input c g ing observed ex (add_counts (is_counts ing) (ps_report s))")
      case (Inl err)
      then show ?thesis using Suc.prems(3) by (auto simp: final(3) taint_result_def)
    next
      case (Inr p)
      obtain rep' e' where p: "p = (rep', e')" by fastforce
      have "taint_result ?v (is_db ing) (Inr rep') e'"
        using commit_final_taint [OF Inr [unfolded p] clean(2,1)] final(2) by simp
      moreover have "res = Inr rep'" "e = e'" using Suc.prems(3) by (simp_all add: final(3) Inr p)
      ultimately show ?thesis by (simp add: taint_result_def ret)
    qed
  next
    case (continued s' ing obs p)
    have ret: "retraction_t (is_db ing) = retraction_t d" using ingest_page_writes [OF continued(1)] by simp
    have "sweep_pages env input c buried k (n + 1) s' (set_crawl_cursor c p (is_db ing)) = (res, e)"
      using Suc.prems(3) by (simp add: continued(4))
    then have "taint_result (gt_connection_violation (ps_gate s') \<noteq> None) (set_crawl_cursor c p (is_db ing)) res e"
      by (rule Suc.IH [rotated 2]) (simp_all add: continued(3) clean)
    then show ?thesis unfolding continued(2) by (simp add: taint_result_def cursor_frames ret)
  qed
qed

lemma sweep_resource_taint:
  assumes "sweep_resource env input d = (res, e)"
  shows "taint_result (si_connection_violation input \<noteq> None) d res e"
proof (cases "sweep_start env input d")
  case (Inr p)
  obtain resumed start where p: "p = (resumed, start)" by fastforce
  obtain c d1 where o: "open_crawl (si_adapter_id input) (si_resource_id input) (ts_str (ev_now env)) resumed
      (si_hello_derivation input) (Some (si_fingerprint input)) d = (c, d1)" by fastforce
  have ret: "retraction_t d1 = retraction_t d"
    using frame_open_crawl(2) [of "si_adapter_id input" "si_resource_id input" "ts_str (ev_now env)" resumed
        "si_hello_derivation input" "Some (si_fingerprint input)" d] by (simp add: o)
  note step = assms [unfolded sweep_resource_def Inr p sum.case prod.case o Let_def]
  consider (stop) err where "res = Inl err" "e = d1"
    | (pages) buried s where "sweep_pages env input c buried MAX_PAGES 0 s d1 = (res, e)"
        "ps_gate s = initial_gate input start" "\<not> sp_complete (ps_report s)" "sp_contract_violation (ps_report s) = None"
    using step by (auto simp: report_empty_def split: sum.splits)
  then show ?thesis
  proof cases
    case stop
    then show ?thesis by (simp add: taint_result_def ret)
  next
    case (pages buried s)
    from sweep_pages_taint [OF pages(3,4,1)] show ?thesis
      by (simp add: pages(2) initial_gate_def taint_result_def ret)
  qed
next
  case (Inl err)
  then show ?thesis using assms by (auto simp: sweep_resource_def taint_result_def)
qed

definition forward_taint :: "sweep_report \<Rightarrow> sweep_report \<Rightarrow> bool" where
  "forward_taint x y \<longleftrightarrow> sp_contract_violation x = None \<or> \<not> sp_complete y"

lemma sweep_all_taint:
  assumes "sweep_all ses sts fingerprint a options tainted i xs reports d = (Inr reports', e)"
  shows "\<exists>new. reports' = reports @ new \<and> list_all honest new \<and> sorted_wrt forward_taint new \<and>
     (tainted \<noteq> None \<longrightarrow> retraction_t e = retraction_t d \<and> list_all (\<lambda>rep. \<not> sp_complete rep) new)"
  using assms
proof (induction xs arbitrary: tainted i reports d)
  case Nil
  then show ?case by simp
next
  case (Cons x xs)
  let ?in = "sweep_input_of ses sts fingerprint a options tainted x"
  obtain res d1 where r: "sweep_resource (ss_sweep ses i) ?in d = (res, d1)" by fastforce
  obtain rep where rep: "res = Inr rep" using Cons.prems r by (cases res) simp_all
  have v: "si_connection_violation ?in = tainted" by (simp add: sweep_input_of_def)
  note t = sweep_resource_taint [OF r, unfolded v rep taint_result_def sum.case]
  let ?t = "if tainted = None then sp_contract_violation rep else tainted"
  have "sweep_all ses sts fingerprint a options ?t (i + 1) xs (reports @ [rep]) d1 = (Inr reports', e)"
    using Cons.prems r rep by simp
  from Cons.IH [OF this] obtain new where new: "reports' = (reports @ [rep]) @ new" "list_all honest new"
    "sorted_wrt forward_taint new" "?t \<noteq> None \<Longrightarrow> retraction_t e = retraction_t d1 \<and> list_all (\<lambda>rep. \<not> sp_complete rep) new"
    by blast
  have "list_all (forward_taint rep) new"
    using new(4) by (cases "sp_contract_violation rep") (auto simp: forward_taint_def list_all_iff split: if_splits)
  then show ?case using new t by (intro exI [of _ "rep # new"]) (auto simp: list_all_iff split: if_splits)
qed

lemma append_balances_retractions: "append_balances a i sts bs d = Inr e \<Longrightarrow> retraction_t e = retraction_t d"
proof (induction bs arbitrary: d)
  case (Cons b bs)
  then obtain x where "append_balances a i sts bs (append_balance a i b x d) = Inr e"
    by (auto split: option.splits)
  then show ?case using Cons.IH by (simp add: frame_balance)
qed simp

lemma upsert_all_retractions: "retraction_t (snd (upsert_all a xs d)) = retraction_t d"
proof (induction xs arbitrary: d)
  case (Cons x xs)
  then show ?case
    by (cases "upsert_resource a (rd_resource_id x) (rd_kind x) (rd_label x) d") (simp_all add: frame_resource)
qed simp

lemma read_balances_tainted:
  "read_balances a i answer d = Inr (tainted, errors, e) \<Longrightarrow>
   retraction_t e = retraction_t d \<and>
   (tainted \<noteq> None \<longleftrightarrow> (case answer of Inl err \<Rightarrow> broke_the_contract err | Inr _ \<Rightarrow> False))"
  by (auto simp: read_balances_def res_simps append_balances_retractions split: sum.splits if_splits)

lemma refresh_adapter_ok:
  assumes "refresh_adapter fingerprint ses a options d = (Inr af, e)"
  obtains sts tainted listed d1 where
    "sweep_all ses sts fingerprint a options tainted 0 listed [] d1 = (Inr (af_sweeps af), e)"
    "retraction_t d1 = retraction_t d"
    "tainted \<noteq> None \<longleftrightarrow> (case ss_balances ses of Inl err \<Rightarrow> broke_the_contract err | Inr _ \<Rightarrow> False)"
proof -
  obtain i d2 where r: "open_balance_read a d = Inr (i, d2)" "hr_adapter_id (ss_hello ses) = a"
    using assms by (auto simp: refresh_adapter_def split: sum.splits if_splits)
  have ann: "\<not> hr_adapter_id (ss_hello ses) \<noteq> a" using r(2) by simp
  obtain listed where l: "ss_listed ses = Inr listed"
    using assms by (auto simp: refresh_adapter_def r(1) ann split: sum.splits if_splits)
  obtain u d3 where u: "upsert_all a listed d2 = (Inr u, d3)"
    using assms unfolding refresh_adapter_def r(1) sum.case prod.case if_not_P [OF ann] l
    by (auto split: sum.splits prod.splits)
  note step = assms [unfolded refresh_adapter_def r(1) sum.case prod.case if_not_P [OF ann] l u]
  obtain sts where st: "ss_statuses ses = Inr sts" using step by (auto split: sum.splits)
  let ?d = "set_needs_reauth a (list_ex (\<lambda>st. wants_reauth (rs_outcome st)) sts) d3"
  obtain tainted errors d4 where b: "read_balances a i (ss_balances ses) ?d = Inr (tainted, errors, d4)"
    using step by (auto simp: st Let_def split: sum.splits)
  obtain reports where s: "sweep_all ses sts fingerprint a options tainted 0 listed [] d4 = (Inr reports, e)"
    "af = \<lparr>af_sweeps = reports, af_errors = errors\<rparr>"
    using step by (auto simp: st b Let_def split: sum.splits prod.splits)
  have "retraction_t d3 = retraction_t d"
    using upsert_all_retractions [of a listed d2] frame_balance_read(2) [OF r(1)] by (simp add: u)
  then have "retraction_t d4 = retraction_t d"
    using read_balances_tainted [OF b] by (simp add: frame_reauth)
  then show ?thesis using that [of sts tainted listed d4] s read_balances_tainted [OF b] by simp
qed

lemma list_all2_image:
  assumes "list_all2 R xs ys" "\<And>x y. R x y \<Longrightarrow> f x = g y"
  shows "g ` set ys = f ` set xs"
  using assms by (induction rule: list_all2_induct) simp_all

lemma adapters_listed:
  assumes "adapters from_str d = Inr rows"
  shows "ar_adapter_id ` set rows = at_adapter_id ` set (adapter_t d)"
proof -
  have r: "list_all2 (\<lambda>x y. adapter_from_row from_str x = Inr y) (sort_key at_adapter_id (adapter_t d)) rows"
    using assms by (simp add: adapters_def collect_rows_Inr_iff)
  have "at_adapter_id x = ar_adapter_id y" if "adapter_from_row from_str x = Inr y" for x y
    using that by (auto simp: adapter_from_row_def split: option.splits)
  from list_all2_image [OF r this] show ?thesis by simp
qed

section \<open>The properties\<close>

text \<open>The connected adapters a refresh with these options is for.\<close>

definition refreshed :: "refresh_options \<Rightarrow> db \<Rightarrow> string set" where
  "refreshed options d =
     {a \<in> at_adapter_id ` set (adapter_t d). rfo_only options = None \<or> rfo_only options = Some a}"

lemma refresh_grows: "grows (refreshed options d) d (snd (refresh from_str fingerprint spawn options d))"
proof (cases "adapters from_str d")
  case (Inl e)
  then show ?thesis by (simp add: refresh_def)
next
  case (Inr rows)
  have "snd (refresh from_str fingerprint spawn options d) =
      (if rows = [] then d
       else snd (refresh_each fingerprint spawn options rows \<lparr>rp_sweeps = [], rp_adapter_errors = []\<rparr> d))"
    by (cases rows) (simp_all add: refresh_def Inr)
  then have "grows (visited options rows) d (snd (refresh from_str fingerprint spawn options d))"
    by (simp add: refresh_each_grows)
  moreover have "visited options rows \<subseteq> refreshed options d"
    using adapters_listed [OF Inr] by (auto simp: visited_def refreshed_def)
  ultimately show ?thesis by (blast intro: grows_mono)
qed

text \<open>
  C4. A refresh only appends: every observation, retraction, balance and discrepancy of before is
  still there, in its place and unchanged except for the three columns that say when and under
  which rules an observation was last seen. And it stays with the adapters it is for: every row of
  every table that belongs to another adapter is as it was, whatever the connections answered and
  whether the refresh failed or not.
\<close>

theorem refresh_confined:
  "append_only d (snd (refresh from_str fingerprint spawn options d)) \<and>
   (b \<in> refreshed options d \<or> view b (snd (refresh from_str fingerprint spawn options d)) = view b d)"
  using refresh_grows [of options d from_str fingerprint spawn] by (auto simp: grows_def)

text \<open>
  C5. A connection that broke the wire contract earns no retraction. If its balances reply did, no
  sweep of the refresh is complete and no retraction is written; if a sweep found it out, that
  sweep is not complete and neither is any sweep of the connection after it. This needs nothing of
  the database and nothing of what the adapter answers.
\<close>

theorem broken_contract_earns_nothing:
  assumes "refresh_adapter fingerprint ses a options d = (Inr af, e)"
  shows "list_all honest (af_sweeps af) \<and> sorted_wrt forward_taint (af_sweeps af) \<and>
     (case ss_balances ses of
        Inl err \<Rightarrow> broke_the_contract err \<longrightarrow>
          retraction_t e = retraction_t d \<and> list_all (\<lambda>rep. \<not> sp_complete rep) (af_sweeps af)
      | Inr _ \<Rightarrow> True)"
proof -
  obtain sts tainted listed d1 where s:
    "sweep_all ses sts fingerprint a options tainted 0 listed [] d1 = (Inr (af_sweeps af), e)"
    "retraction_t d1 = retraction_t d"
    "tainted \<noteq> None \<longleftrightarrow> (case ss_balances ses of Inl err \<Rightarrow> broke_the_contract err | Inr _ \<Rightarrow> False)"
    by (rule refresh_adapter_ok [OF assms])
  from sweep_all_taint [OF s(1)] s(2,3) show ?thesis by (auto split: sum.split)
qed

definition sample_session :: session where
  "sample_session =
     \<lparr>ss_hello = \<lparr>hr_protocol = ''1'', hr_adapter_id = ''a1'', hr_adapter_version = ''0'',
                  hr_capabilities = [], hr_local_id_derivation = ''v1'', hr_max_in_flight = 1\<rparr>,
      ss_listed = Inr [\<lparr>rd_resource_id = ''wallet'', rd_provider_id = ''p'', rd_kind = ''k'', rd_label = ''w'',
                        rd_provider_extra = None\<rparr>],
      ss_statuses = Inr [], ss_balances = Inl (ProtocolViolation NotJson), ss_sweep = (\<lambda>_. sample_env []),
      ss_close = None\<rparr>"

definition connected_db :: db where
  "connected_db = upsert_adapter (\<lambda>_. ''[]'') ''a1'' [] db_new"

theorem broken_contract_earns_nothing_witness:
  "\<exists>af e. refresh_adapter (\<lambda>_. ''f'') sample_session ''a1'' \<lparr>op_resume = False, op_confirm_empty = True\<rparr> connected_db =
       (Inr af, e) \<and>
     retraction_t e = [] \<and> list_all (\<lambda>rep. \<not> sp_complete rep) (af_sweeps af)"
proof -
  let ?o = "\<lparr>op_resume = False, op_confirm_empty = True\<rparr>"
  let ?x = "\<lparr>rd_resource_id = ''wallet'', rd_provider_id = ''p'', rd_kind = ''k'', rd_label = ''w'', rd_provider_extra = None\<rparr>"
  have "is_ok (fst (refresh_adapter (\<lambda>_. ''f'') sample_session ''a1'' ?o connected_db))"
  proof -
    obtain d1 where d1: "open_balance_read ''a1'' connected_db = Inr (1, d1)" "observation_t d1 = []" "retraction_t d1 = []"
      "map at_adapter_id (adapter_t d1) = [''a1'']" "resource_t d1 = []"
      by (simp add: open_balance_read_def connected_db_def upsert_adapter_def db_new_def Let_def update_where_def)
    obtain d2 where d2: "upsert_all ''a1'' [?x] d1 = (Inr (), d2)" "observation_t d2 = []" "retraction_t d2 = []"
      using d1 by (simp add: upsert_resource_def)
    let ?d = "set_needs_reauth ''a1'' False d2"
    have frame: "observation_t ?d = []" "retraction_t ?d = []" by (simp_all add: frame_reauth d2)
    let ?t = "Some (''balances.read broke the wire contract: '' @ host_error_text (ProtocolViolation NotJson))"
    let ?in = "sweep_input_of sample_session [] (\<lambda>_. ''f'') ''a1'' ?o ?t ?x"
    have ok: "db_ok (ev_from_str (sample_env [])) ?d" by (simp add: db_ok_def chain_recs_def frame)
    have room: "room_for MAX_PAGES ?d"
      by (simp add: room_for_def frame MAX_PAGES_def MAX_FRAME_BYTES_def i64_max_def)
    have start: "sweep_start (sample_env []) ?in ?d = Inr (None, None)"
      by (simp add: sweep_start_def sweep_input_of_def)
    obtain rep e where sw: "sweep_resource (sample_env []) ?in ?d = (Inr rep, e)"
      by (rule sweep_ok [OF ok sample_sweep(2) [OF disjI1 [OF refl]] room start])
    have ses: "hr_adapter_id (ss_hello sample_session) = ''a1''" "ss_listed sample_session = Inr [?x]"
      "ss_statuses sample_session = Inr []" "ss_balances sample_session = Inl (ProtocolViolation NotJson)"
      "ss_sweep sample_session = (\<lambda>_. sample_env [])" by (simp_all add: sample_session_def)
    have rb: "read_balances ''a1'' 1 (Inl (ProtocolViolation NotJson)) ?d =
        Inr (?t, [''balances.read failed: '' @ host_error_text (ProtocolViolation NotJson)], ?d)"
      by (simp add: read_balances_def)
    have all: "sweep_all sample_session [] (\<lambda>_. ''f'') ''a1'' ?o ?t 0 [?x] [] ?d = (Inr [rep], e)"
      unfolding sweep_all.simps ses(5) sw prod.case sum.case append_Nil ..
    have re: "list_ex (\<lambda>st. wants_reauth (rs_outcome st)) ([] :: resource_status list) = False" by simp
    show ?thesis
      unfolding refresh_adapter_def d1(1) sum.case prod.case ses d2(1) Let_def re rb all by simp
  qed
  then obtain af e where r: "refresh_adapter (\<lambda>_. ''f'') sample_session ''a1'' ?o connected_db = (Inr af, e)"
    by (metis is_ok_iff prod.collapse)
  have "retraction_t connected_db = []" by (simp add: connected_db_def upsert_adapter_def db_new_def)
  moreover have "ss_balances sample_session = Inl (ProtocolViolation NotJson)" by (simp add: sample_session_def)
  ultimately show ?thesis using r broken_contract_earns_nothing [OF r] by simp
qed

end
