(* ===== verification/Bitcoin_Map.thy ===== *)
theory Bitcoin_Map
  imports Envelope
begin

text \<open>
  The pure mapping of the Bitcoin adapter (\<open>adapters/bitcoin/src/map.rs\<close>): Esplora's payloads,
  the paging cursor, the observation of a transaction, the plan of a sync and the cut of a plan
  into pages. A \<open>BTreeSet\<close> is the sorted list of its elements, a \<open>BTreeMap\<close> the association list
  sorted by key. Satoshi counts are natural numbers below two to the 64 (that is what the reader
  admits); sums are formed in 128 bits, which no list that fits in memory can overflow, so they
  are integers. \<open>to_vec\<close> is the length of what serde writes for a value, if it can be written.
\<close>

section \<open>Constants and errors\<close>

definition LOCAL_ID_DERIVATION :: string where "LOCAL_ID_DERIVATION = ''btc-txid@1''"
definition ASSET_SAT :: string where "ASSET_SAT = ''sat''"
definition SURFACE_TX :: string where "SURFACE_TX = ''esplora.tx''"
definition SURFACE_STATS :: string where "SURFACE_STATS = ''esplora.address_stats''"
definition PAGE_BUDGET_BYTES :: nat where "PAGE_BUDGET_BYTES = 512 * 1024"

datatype map_error = MapMoney money_error | MapTime nat | MapJson

section \<open>Esplora payloads\<close>

record vout =
  vo_address :: "string option"
  vo_value :: nat

record vin =
  vi_prevout :: "vout option"

record tx_status =
  st_confirmed :: bool
  st_block_height :: "nat option"
  st_block_hash :: "string option"
  st_block_time :: "int option"

record tx =
  tx_txid :: string
  tx_fee :: nat
  tx_state :: tx_status
  tx_vin :: "vin list"
  tx_vout :: "vout list"

record stats =
  ss_funded :: nat
  ss_spent :: nat

record address_stats =
  as_chain :: stats
  as_mempool :: stats

text \<open>
  A derived reader without \<open>deny_unknown_fields\<close>: other members are ignored, a known one must not
  be repeated, and an array is taken as the fields in order.
\<close>

definition de_lenient :: "string list \<Rightarrow> ((string \<Rightarrow> json option) \<Rightarrow> de_error + 'a) \<Rightarrow> json \<Rightarrow> de_error + 'a" where
  "de_lenient names build j =
     (case j of
        JObj ms \<Rightarrow>
          (let known = filter (\<lambda>m. fst m \<in> set names) ms in
           if distinct (map fst known) then build (map_of known)
           else Inl (DuplicateField (hd (filter (\<lambda>k. 1 < count_list (map fst known) k) (map fst known)))))
      | JArr js \<Rightarrow> if length js \<le> length names then build (map_of (zip names js)) else Inl Custom
      | _ \<Rightarrow> Inl InvalidType)"

fun de_i64 :: "json \<Rightarrow> de_error + int" where
  "de_i64 (JInt n) = (if - (2 ^ 63) \<le> n \<and> n < 2 ^ 63 then Inr n else Inl Custom)"
| "de_i64 _ = Inl InvalidType"

definition de_vout :: "json \<Rightarrow> de_error + vout" where
  "de_vout =
     de_lenient [''scriptpubkey_address'', ''value'']
       (\<lambda>get.
          res_bind (dflt get ''scriptpubkey_address'' None (de_option de_string)) (\<lambda>a.
          res_bind (req get ''value'' de_u64) (\<lambda>v.
          Inr \<lparr>vo_address = a, vo_value = v\<rparr>)))"

definition de_vin :: "json \<Rightarrow> de_error + vin" where
  "de_vin =
     de_lenient [''prevout'']
       (\<lambda>get. res_bind (dflt get ''prevout'' None (de_option de_vout)) (\<lambda>p. Inr \<lparr>vi_prevout = p\<rparr>))"

definition de_tx_status :: "json \<Rightarrow> de_error + tx_status" where
  "de_tx_status =
     de_lenient [''confirmed'', ''block_height'', ''block_hash'', ''block_time'']
       (\<lambda>get.
          res_bind (req get ''confirmed'' de_bool) (\<lambda>c.
          res_bind (dflt get ''block_height'' None (de_option de_u64)) (\<lambda>h.
          res_bind (dflt get ''block_hash'' None (de_option de_string)) (\<lambda>s.
          res_bind (dflt get ''block_time'' None (de_option de_i64)) (\<lambda>t.
          Inr \<lparr>st_confirmed = c, st_block_height = h, st_block_hash = s, st_block_time = t\<rparr>)))))"

definition de_tx :: "json \<Rightarrow> de_error + tx" where
  "de_tx =
     de_lenient [''txid'', ''fee'', ''status'', ''vin'', ''vout'']
       (\<lambda>get.
          res_bind (req get ''txid'' de_string) (\<lambda>i.
          res_bind (dflt get ''fee'' 0 de_u64) (\<lambda>f.
          res_bind (req get ''status'' de_tx_status) (\<lambda>s.
          res_bind (dflt get ''vin'' [] (de_vec de_vin)) (\<lambda>vi.
          res_bind (dflt get ''vout'' [] (de_vec de_vout)) (\<lambda>vo.
          Inr \<lparr>tx_txid = i, tx_fee = f, tx_state = s, tx_vin = vi, tx_vout = vo\<rparr>))))))"

definition de_stats :: "json \<Rightarrow> de_error + stats" where
  "de_stats =
     de_lenient [''funded_txo_sum'', ''spent_txo_sum'']
       (\<lambda>get.
          res_bind (req get ''funded_txo_sum'' de_u64) (\<lambda>f.
          res_bind (req get ''spent_txo_sum'' de_u64) (\<lambda>s.
          Inr \<lparr>ss_funded = f, ss_spent = s\<rparr>)))"

definition de_address_stats :: "json \<Rightarrow> de_error + address_stats" where
  "de_address_stats =
     de_lenient [''chain_stats'', ''mempool_stats'']
       (\<lambda>get.
          res_bind (req get ''chain_stats'' de_stats) (\<lambda>c.
          res_bind (req get ''mempool_stats'' de_stats) (\<lambda>m.
          Inr \<lparr>as_chain = c, as_mempool = m\<rparr>)))"

definition is_owned :: "string list \<Rightarrow> vout \<Rightarrow> bool" where
  "is_owned owned o1 \<longleftrightarrow> (case vo_address o1 of None \<Rightarrow> False | Some a \<Rightarrow> a \<in> set owned)"

definition tx_height :: "tx \<Rightarrow> nat option" where
  "tx_height t = (if st_confirmed (tx_state t) then st_block_height (tx_state t) else None)"

definition stats_net :: "stats \<Rightarrow> int" where
  "stats_net s = int (ss_funded s) - int (ss_spent s)"

section \<open>Identity and amounts\<close>

definition local_id :: "string \<Rightarrow> string \<Rightarrow> string" where
  "local_id r txid = r @ '':'' @ txid"

definition lower_hex :: "char \<Rightarrow> bool" where
  "lower_hex c \<longleftrightarrow> is_digit c \<or> (97 \<le> (of_char c :: nat) \<and> (of_char c :: nat) \<le> 102)"

definition is_txid :: "string \<Rightarrow> bool" where
  "is_txid s \<longleftrightarrow> length s = 64 \<and> list_all lower_hex s"

definition sats :: "int \<Rightarrow> money_error + amount" where
  "sats n = res_bind (asset_new ASSET_SAT) (\<lambda>a. parse a (show_int n))"

section \<open>The cursor\<close>

record btc_cursor =
  bc_height :: nat
  bc_txid :: string
  bc_mempool :: "string option"

definition confirmed_mark :: "btc_cursor \<Rightarrow> nat \<times> string" where
  "confirmed_mark c = (bc_height c, bc_txid c)"

text \<open>\<open>str::parse::<u64>\<close> also takes a leading plus sign.\<close>

definition parse_u64 :: "string \<Rightarrow> nat option" where
  "parse_u64 s =
     (let ds = (case s of c # cs \<Rightarrow> if c = CHR ''+'' then cs else s | [] \<Rightarrow> s) in
      if ds \<noteq> [] \<and> list_all is_digit ds \<and> int (undec ds) \<le> u64_max then Some (undec ds) else None)"

definition cursor_parse :: "string \<Rightarrow> string + btc_cursor" where
  "cursor_parse s =
     res_bind (ok_or s (split_once '':'' s)) (\<lambda>(height_text, rest).
     res_bind (ok_or s (parse_u64 height_text)) (\<lambda>height.
     let (txid, mempool) = (case split_once '':m:'' rest of Some (t, m) \<Rightarrow> (t, Some m) | None \<Rightarrow> (rest, None)) in
     if txid \<noteq> [] \<and> \<not> is_txid txid then Inl s
     else if (case mempool of None \<Rightarrow> False | Some m \<Rightarrow> \<not> is_txid m) then Inl s
     else Inr \<lparr>bc_height = height, bc_txid = txid, bc_mempool = mempool\<rparr>))"

definition cursor_encode :: "btc_cursor \<Rightarrow> string" where
  "cursor_encode c =
     (case bc_mempool c of
        Some m \<Rightarrow> dec (bc_height c) @ '':'' @ bc_txid c @ '':m:'' @ m
      | None \<Rightarrow> dec (bc_height c) @ '':'' @ bc_txid c)"

section \<open>The order of emission\<close>

datatype key = KConfirmed nat string | KMempool string

fun key_rank :: "key \<Rightarrow> nat \<times> nat \<times> string" where
  "key_rank (KConfirmed h t) = (0, h, t)"
| "key_rank (KMempool t) = (1, 0, t)"

lemma key_rank_inj: "key_rank k = key_rank l \<longleftrightarrow> k = l"
  by (cases k; cases l) simp_all

instantiation key :: linorder
begin

definition less_eq_key :: "key \<Rightarrow> key \<Rightarrow> bool" where
  "less_eq_key k l \<longleftrightarrow> key_rank k \<le> key_rank l"

definition less_key :: "key \<Rightarrow> key \<Rightarrow> bool" where
  "less_key k l \<longleftrightarrow> key_rank k < key_rank l"

instance
  by standard (auto simp: less_eq_key_def less_key_def key_rank_inj [symmetric])

end

fun key_cursor :: "nat \<times> string \<Rightarrow> key \<Rightarrow> btc_cursor" where
  "key_cursor high_water (KConfirmed h t) = \<lparr>bc_height = h, bc_txid = t, bc_mempool = None\<rparr>"
| "key_cursor high_water (KMempool t) =
     \<lparr>bc_height = fst high_water, bc_txid = snd high_water, bc_mempool = Some t\<rparr>"

section \<open>Observations\<close>

record ctx =
  cx_resource_id :: string
  cx_adapter_id :: string
  cx_provider_id :: string
  cx_observed_at :: rfc3339

definition ctx_provenance :: "ctx \<Rightarrow> string \<Rightarrow> rfc3339 option \<Rightarrow> provenance_wire" where
  "ctx_provenance cx surface effective_at =
     \<lparr>pw_adapter_id = cx_adapter_id cx, pw_provider_id = cx_provider_id cx, pw_surface = surface,
      pw_observed_at = cx_observed_at cx, pw_effective_at = effective_at, pw_completeness = Complete\<rparr>"

definition opt_sats :: "int option \<Rightarrow> map_error + amount option" where
  "opt_sats v = (case v of None \<Rightarrow> Inr None | Some n \<Rightarrow> map_err MapMoney (map_sum id Some (sats n)))"

definition balance_line :: "ctx \<Rightarrow> string \<Rightarrow> canonical_hint \<Rightarrow> int option \<Rightarrow> map_error + balance_wire" where
  "balance_line cx category hint v =
     res_bind (opt_sats v) (\<lambda>a.
     Inr \<lparr>bw_resource_id = cx_resource_id cx, bw_category = category, bw_canonical_hint = Some hint,
          bw_amount = a, bw_provenance = ctx_provenance cx SURFACE_STATS None\<rparr>)"

definition balance_lines :: "ctx \<Rightarrow> int option \<Rightarrow> int option \<Rightarrow> map_error + balance_wire list" where
  "balance_lines cx confirmed unconfirmed =
     res_bind (balance_line cx ''confirmed'' Confirmed confirmed) (\<lambda>b.
     res_bind (balance_line cx ''unconfirmed'' Unconfirmed unconfirmed) (\<lambda>c.
     Inr [b, c]))"

definition owned_sum :: "string list \<Rightarrow> vout list \<Rightarrow> int" where
  "owned_sum owned os = (\<Sum>v\<leftarrow>filter (is_owned owned) os. int (vo_value v))"

definition spent_outputs :: "tx \<Rightarrow> vout list" where
  "spent_outputs t = List.map_filter vi_prevout (tx_vin t)"

definition net_delta :: "tx \<Rightarrow> string list \<Rightarrow> int" where
  "net_delta t owned = owned_sum owned (tx_vout t) - owned_sum owned (spent_outputs t)"

definition wallet_spent :: "tx \<Rightarrow> string list \<Rightarrow> bool" where
  "wallet_spent t owned \<longleftrightarrow> list_ex (is_owned owned) (spent_outputs t)"

definition raw_sign_of :: "int \<Rightarrow> raw_sign" where
  "raw_sign_of delta = (if 0 \<le> delta then ProviderPositive else ProviderNegative)"

definition describe :: "int \<Rightarrow> string" where
  "describe delta =
     (if 0 < delta then ''received '' @ show_int delta @ '' sat''
      else if delta < 0 then ''sent '' @ dec (nat (- delta)) @ '' sat''
      else ''self-transfer, net 0 sat'')"

definition active_extra :: "tx \<Rightarrow> (string \<times> json) list" where
  "active_extra t =
     btree_of
       ([(''confirmed'', JBool (st_confirmed (tx_state t)))] @
        (case tx_height t of Some h \<Rightarrow> [(''block_height'', JInt (int h))] | None \<Rightarrow> []) @
        (case st_block_hash (tx_state t) of Some s \<Rightarrow> [(''block_hash'', JStr s)] | None \<Rightarrow> []))"

definition active :: "ctx \<Rightarrow> tx \<Rightarrow> string list \<Rightarrow> map_error + observation_wire" where
  "active cx t owned =
     (let delta = net_delta t owned in
      res_bind (case st_block_time (tx_state t) of
                  None \<Rightarrow> Inr None
                | Some s \<Rightarrow> map_err MapTime (map_sum id Some (rfc3339_utc s))) (\<lambda>effective_at.
      res_bind (map_err MapMoney (sats delta)) (\<lambda>amt.
      res_bind (if wallet_spent t owned then map_err MapMoney (map_sum id Some (sats (int (tx_fee t))))
                else Inr None) (\<lambda>fees.
      Inr \<lparr>ow_resource_id = cx_resource_id cx, ow_local_id = local_id (cx_resource_id cx) (tx_txid t),
           ow_provider_id = Some (tx_txid t), ow_supersedes_provider_id = None, ow_state = Active,
           ow_tombstone_reason = None, ow_surface = SURFACE_TX,
           ow_posting = (if tx_height t \<noteq> None then Posted else posting.Pending),
           ow_amount = amt, ow_fees = fees, ow_raw_sign = raw_sign_of delta, ow_description = describe delta,
           ow_provider_extra = active_extra t, ow_provenance = ctx_provenance cx SURFACE_TX effective_at\<rparr>))))"

section \<open>The plan of a sync\<close>

record chain_view =
  ch_txs :: "(string, tx) btree_map"
  ch_mempool :: "string list"

type_synonym plan_items = "(key \<times> observation_wire) list"

record plan =
  pl_items :: plan_items
  pl_high_water :: "nat \<times> string"

fun plan_confirmed ::
  "ctx \<Rightarrow> string list \<Rightarrow> nat \<times> string \<Rightarrow> tx list \<Rightarrow> (nat \<times> string) \<times> plan_items \<Rightarrow>
   map_error + (nat \<times> string) \<times> plan_items" where
  "plan_confirmed cx owned mark [] acc = Inr acc"
| "plan_confirmed cx owned mark (t # ts) (high_water, items) =
     (case tx_height t of
        None \<Rightarrow> plan_confirmed cx owned mark ts (high_water, items)
      | Some h \<Rightarrow>
          let k = (h, tx_txid t);
              high_water = (if high_water < k then k else high_water)
          in if k \<le> mark then plan_confirmed cx owned mark ts (high_water, items)
             else res_bind (active cx t owned) (\<lambda>ob.
               plan_confirmed cx owned mark ts (high_water, items @ [(KConfirmed h (tx_txid t), ob)])))"

fun plan_mempool ::
  "ctx \<Rightarrow> string list \<Rightarrow> (string, tx) btree_map \<Rightarrow> string option \<Rightarrow> string list \<Rightarrow> plan_items \<Rightarrow>
   map_error + plan_items" where
  "plan_mempool cx owned txs resume_after [] items = Inr items"
| "plan_mempool cx owned txs resume_after (i # is) items =
     (if (case resume_after of None \<Rightarrow> False | Some z \<Rightarrow> i \<le> z)
      then plan_mempool cx owned txs resume_after is items
      else (case map_of txs i of
              None \<Rightarrow> plan_mempool cx owned txs resume_after is items
            | Some t \<Rightarrow> res_bind (active cx t owned) (\<lambda>ob.
                plan_mempool cx owned txs resume_after is (items @ [(KMempool i, ob)]))))"

definition make_plan :: "ctx \<Rightarrow> chain_view \<Rightarrow> string list \<Rightarrow> btc_cursor option \<Rightarrow> map_error + plan" where
  "make_plan cx ch owned from =
     (let mark = (case from of None \<Rightarrow> (0, []) | Some c \<Rightarrow> confirmed_mark c) in
      res_bind (plan_confirmed cx owned mark (map snd (ch_txs ch)) (mark, [])) (\<lambda>(high_water, items).
      res_bind (plan_mempool cx owned (ch_txs ch) (Option.bind from bc_mempool) (ch_mempool ch)
                  (sort_key fst items)) (\<lambda>items.
      Inr \<lparr>pl_items = items, pl_high_water = high_water\<rparr>)))"

section \<open>Cutting a page\<close>

record page =
  pa_observations :: "observation_wire list"
  pa_next :: "btc_cursor option"
  pa_page_size_reduced_to :: "nat option"
  pa_degraded :: "degraded list"
  pa_bytes :: nat

definition wire_size :: "(json \<Rightarrow> nat option) \<Rightarrow> observation_wire \<Rightarrow> map_error + nat" where
  "wire_size to_vec ob = ok_or MapJson (to_vec (ser_observation_wire ob))"

text \<open>The first step of the degrade: the record without its \<open>provider_extra\<close>, and its new size.\<close>

definition truncated :: "observation_wire \<Rightarrow> nat \<Rightarrow> observation_wire" where
  "truncated ob discarded =
     ob\<lparr>ow_provider_extra := btree_of [(''_truncated'', JBool True), (''_original_bytes'', JInt (int discarded))],
        ow_provenance := (ow_provenance ob)\<lparr>pw_completeness := Partial\<rparr>\<rparr>"

definition degrade_step :: "(json \<Rightarrow> nat option) \<Rightarrow> observation_wire \<Rightarrow> map_error + observation_wire \<times> nat" where
  "degrade_step to_vec ob =
     res_bind (wire_size to_vec ob) (\<lambda>size.
     if MAX_OBSERVATION_BYTES < size then
       res_bind (ok_or MapJson (to_vec (JObj (ow_provider_extra ob)))) (\<lambda>discarded.
       let ob = truncated ob discarded in
       res_bind (wire_size to_vec ob) (\<lambda>size. Inr (ob, size)))
     else Inr (ob, size))"

record cut_state =
  cu_observations :: "observation_wire list"
  cu_last_key :: "key option"
  cu_degraded :: "degraded list"
  cu_used :: nat
  cu_cut :: bool

fun cut_items :: "(json \<Rightarrow> nat option) \<Rightarrow> nat \<Rightarrow> plan_items \<Rightarrow> cut_state \<Rightarrow> map_error + cut_state" where
  "cut_items to_vec budget [] s = Inr s"
| "cut_items to_vec budget ((k, ob) # items) s =
     res_bind (degrade_step to_vec ob) (\<lambda>(ob, size).
     if MAX_OBSERVATION_BYTES < size then
       cut_items to_vec budget items
         (s\<lparr>cu_degraded := cu_degraded s @ [\<lparr>dg_local_id = Some (ow_local_id ob), dg_bytes = u64_of_usize size\<rparr>]\<rparr>)
     else
       let cost = size + 1 in
       if budget < cu_used s + cost then Inr (s\<lparr>cu_cut := True\<rparr>)
       else cut_items to_vec budget items
              (s\<lparr>cu_used := cu_used s + cost, cu_observations := cu_observations s @ [ob],
                 cu_last_key := Some k\<rparr>))"

definition cut_page :: "(json \<Rightarrow> nat option) \<Rightarrow> plan \<Rightarrow> btc_cursor option \<Rightarrow> nat \<Rightarrow> map_error + page" where
  "cut_page to_vec p from budget =
     res_bind (cut_items to_vec budget (pl_items p)
                 \<lparr>cu_observations = [], cu_last_key = None, cu_degraded = [], cu_used = 0, cu_cut = False\<rparr>) (\<lambda>s.
     let n = length (cu_observations s);
         emitted = (if n < 2 ^ 32 then n else 2 ^ 32 - 1) in
     Inr \<lparr>pa_observations = cu_observations s,
          pa_next =
            (if cu_cut s then
               Some (case cu_last_key s of
                       None \<Rightarrow> (case from of None \<Rightarrow> \<lparr>bc_height = 0, bc_txid = [], bc_mempool = None\<rparr> | Some c \<Rightarrow> c)
                     | Some k \<Rightarrow> key_cursor (pl_high_water p) k)
             else None),
          pa_page_size_reduced_to = (if cu_cut s then Some emitted else None),
          pa_degraded = cu_degraded s, pa_bytes = cu_used s\<rparr>)"

end
