(* ===== verification/Bitcoin_Map_Correct.thy ===== *)
theory Bitcoin_Map_Correct
  imports Bitcoin_Map Envelope_Correct
begin

text \<open>
  The observation the Bitcoin adapter makes of a transaction: which payloads it can be made of,
  that the host's decoder accepts it, and what its amount says. Then the arithmetic of net
  deltas: over wallets that share no address they add up, and all of them together lose the fee.
\<close>

section \<open>Satoshi amounts\<close>

definition sat :: "int \<Rightarrow> amount" where
  "sat n = \<lparr>asset = AssetId ASSET_SAT, units = n, scale = 0\<rparr>"

lemma asset_sat: "asset_new ASSET_SAT = Inr (AssetId ASSET_SAT)"
  by code_simp

lemma display_sat: "display (sat n) = show_int n"
  by (simp add: display_def format_decimal_def sat_def show_int_def Let_def)

lemma show_int_no_point: "CHR ''.'' \<notin> set (show_int n)"
  using dec_digits [of "nat n"] dec_digits [of "nat (- n)"] not_digit_punct(2)
  by (auto simp: show_int_def)

lemma show_int_inj: "show_int m = show_int n \<Longrightarrow> m = n"
proof -
  have hd: "dec k \<noteq> CHR ''-'' # ds" for k ds
    using dec_digits [of k] not_digit_punct(1) by (metis list.set_intros(1))
  assume "show_int m = show_int n"
  then show "m = n"
    using hd hd [symmetric] by (auto simp: show_int_def split: if_splits dest!: dec_inj)
qed

lemma sats_Inr_iff: "sats n = Inr x \<longleftrightarrow> \<bar>n\<bar> < 10 ^ MAX_DIGITS \<and> x = sat n"
proof
  assume "sats n = Inr x"
  then have "parse (AssetId ASSET_SAT) (show_int n) = Inr x" by (simp add: sats_def asset_sat)
  from display_parse [OF this] have x: "asset x = AssetId ASSET_SAT" "amount_ok x" "display x = show_int n"
    by simp_all
  have "scale x = 0"
  proof (rule ccontr)
    assume "scale x \<noteq> 0"
    then have "CHR ''.'' \<in> set (display x)" by (simp add: display_def format_decimal_def Let_def)
    then show False using x(3) show_int_no_point by simp
  qed
  moreover from this have "display x = show_int (units x)"
    by (auto simp: display_def format_decimal_def show_int_def Let_def)
  then have "units x = n" using x(3) show_int_inj by simp
  ultimately have "x = sat n" using x(1) by (cases x) (simp add: sat_def)
  with x(2) show "\<bar>n\<bar> < 10 ^ MAX_DIGITS \<and> x = sat n"
    by (simp add: amount_ok_def sat_def digit_count_iff)
next
  assume "\<bar>n\<bar> < 10 ^ MAX_DIGITS \<and> x = sat n"
  then have "amount_ok (sat n)" "x = sat n" by (simp_all add: amount_ok_def sat_def digit_count_iff)
  then show "sats n = Inr x"
    using parse_display [of "sat n"] by (simp add: sats_def asset_sat display_sat) (simp add: sat_def)
qed

section \<open>What an observation is made of\<close>

lemma rfc3339_utc_new: "rfc3339_utc s = rfc3339_new (format_utc s)"
  by (simp add: rfc3339_utc_def format_utc_def btc_civil_eq Let_def split: prod.split)

lemma rfc3339_new_ok: "rfc3339_new s = Inr r \<Longrightarrow> rfc_ok r \<and> ts_str r = s"
  by (auto simp: rfc3339_new_def rfc_ok_def res_simps)

lemma rfc3339_utc_instant:
  assumes "- 62167219200 \<le> s" "s < 253402300800"
  shows "\<exists>r. rfc3339_utc s = Inr r \<and> instant r = Some (s, 0)"
proof -
  note cs = clock_stamp [OF assms]
  have "validate_rfc3339 (format_utc s) = Inr ()" unfolding validate_iff using cs by metis
  then show ?thesis using cs by (simp add: rfc3339_utc_new rfc3339_new_def)
qed

lemma plain_digits: "is_digit c \<Longrightarrow> plain_byte c"
  unfolding is_digit_def plain_byte_def by auto

lemma plain_dec: "plain_ok (dec n)"
  using dec_digits [of n] plain_digits by (auto simp: plain_ok_def)

lemma plain_append: "plain_ok (s @ t) \<longleftrightarrow> plain_ok s \<and> plain_ok t"
  by (auto simp: plain_ok_def)

lemma plain_describe: "plain_ok (describe delta)"
proof -
  have w: "plain_ok ''received ''" "plain_ok ''sent ''" "plain_ok '' sat''" "plain_ok ''self-transfer, net 0 sat''"
    by (simp_all add: plain_ok_def plain_byte_def)
  show ?thesis by (simp only: describe_def show_int_def) (simp add: plain_append w plain_dec del: append.simps)
qed

lemma extra_parsed:
  assumes "\<forall>(k, j)\<in>set ms. json_parsed j"
  shows "map_parsed (btree_of ms)"
proof -
  have "json_parsed j" if "(k, j) \<in> set (btree_of ms)" for k j
  proof -
    have "map_of (rev ms) k = Some j"
      using that btree_ok_distinct [OF btree_ok_of [of ms]] by (metis map_of_btree_of map_of_is_SomeI)
    then have "(k, j) \<in> set (rev ms)" by (rule map_of_SomeD)
    then have "(k, j) \<in> set ms" by simp
    with assms show ?thesis by blast
  qed
  then have "map (map_prod id json_value) (btree_of ms) = btree_of ms"
    by (intro map_idI) (auto simp: json_parsed_def)
  then show ?thesis by (simp add: map_parsed_def json_parsed_def btree_of_id)
qed

lemma active_extra_parsed: "map_parsed (active_extra t)"
  unfolding active_extra_def by (rule extra_parsed) (auto simp: json_parsed_def split: option.splits)

definition amounts_fit :: "tx \<Rightarrow> string list \<Rightarrow> bool" where
  "amounts_fit t owned \<longleftrightarrow> \<bar>net_delta t owned\<bar> < 10 ^ MAX_DIGITS \<and> (wallet_spent t owned \<longrightarrow> int (tx_fee t) < 10 ^ MAX_DIGITS)"

lemma map_sum_Inr_iff: "map_sum id f m = Inr y \<longleftrightarrow> (\<exists>x. m = Inr x \<and> y = f x)"
  by (cases m) auto

lemma active_InrE:
  assumes "active cx t owned = Inr ob"
  obtains eff where
    "case st_block_time (tx_state t) of None \<Rightarrow> eff = None | Some s \<Rightarrow> \<exists>r. eff = Some r \<and> rfc3339_utc s = Inr r"
    "ob = \<lparr>ow_resource_id = cx_resource_id cx, ow_local_id = local_id (cx_resource_id cx) (tx_txid t),
           ow_provider_id = Some (tx_txid t), ow_supersedes_provider_id = None, ow_state = Active,
           ow_tombstone_reason = None, ow_surface = SURFACE_TX,
           ow_posting = (if tx_height t \<noteq> None then Posted else posting.Pending),
           ow_amount = sat (net_delta t owned),
           ow_fees = (if wallet_spent t owned then Some (sat (int (tx_fee t))) else None),
           ow_raw_sign = raw_sign_of (net_delta t owned), ow_description = describe (net_delta t owned),
           ow_provider_extra = active_extra t, ow_provenance = ctx_provenance cx SURFACE_TX eff\<rparr>"
    "amounts_fit t owned"
proof -
  from assms obtain eff amt fees where
    e: "(case st_block_time (tx_state t) of None \<Rightarrow> Inr None
         | Some s \<Rightarrow> map_err MapTime (map_sum id Some (rfc3339_utc s))) = Inr eff"
    and a: "sats (net_delta t owned) = Inr amt"
    and f: "(if wallet_spent t owned then map_err MapMoney (map_sum id Some (sats (int (tx_fee t)))) else Inr None) = Inr fees"
    and ob: "ob = \<lparr>ow_resource_id = cx_resource_id cx, ow_local_id = local_id (cx_resource_id cx) (tx_txid t),
           ow_provider_id = Some (tx_txid t), ow_supersedes_provider_id = None, ow_state = Active,
           ow_tombstone_reason = None, ow_surface = SURFACE_TX,
           ow_posting = (if tx_height t \<noteq> None then Posted else posting.Pending),
           ow_amount = amt, ow_fees = fees,
           ow_raw_sign = raw_sign_of (net_delta t owned), ow_description = describe (net_delta t owned),
           ow_provider_extra = active_extra t, ow_provenance = ctx_provenance cx SURFACE_TX eff\<rparr>"
    unfolding active_def Let_def by (auto simp: res_simps simp del: not_None_eq)
  have "case st_block_time (tx_state t) of None \<Rightarrow> eff = None | Some s \<Rightarrow> \<exists>r. eff = Some r \<and> rfc3339_utc s = Inr r"
    using e by (auto simp: res_simps map_sum_Inr_iff split: option.splits)
  moreover have "amt = sat (net_delta t owned)" "\<bar>net_delta t owned\<bar> < 10 ^ MAX_DIGITS"
    using a by (simp_all add: sats_Inr_iff)
  moreover have "fees = (if wallet_spent t owned then Some (sat (int (tx_fee t))) else None)"
    "wallet_spent t owned \<longrightarrow> int (tx_fee t) < 10 ^ MAX_DIGITS"
    using f by (auto simp: res_simps map_sum_Inr_iff sats_Inr_iff split: if_splits)
  ultimately show thesis using that [of eff] by (simp add: ob amounts_fit_def)
qed

text \<open>An observation is made of every transaction whose block time is a date of the years 0 to 9999.\<close>

lemma active_total:
  assumes "amounts_fit t owned"
    and "case st_block_time (tx_state t) of None \<Rightarrow> True | Some s \<Rightarrow> - 62167219200 \<le> s \<and> s < 253402300800"
  shows "is_ok (active cx t owned)"
proof -
  have d: "sats (net_delta t owned) = Inr (sat (net_delta t owned))"
    using assms(1) by (simp add: sats_Inr_iff amounts_fit_def)
  obtain eff where e: "(case st_block_time (tx_state t) of None \<Rightarrow> Inr None
      | Some s \<Rightarrow> map_err MapTime (map_sum id Some (rfc3339_utc s))) = Inr eff"
    using assms(2) rfc3339_utc_instant by (cases "st_block_time (tx_state t)") fastforce+
  show ?thesis
  proof (cases "wallet_spent t owned")
    case True
    then have "sats (int (tx_fee t)) = Inr (sat (int (tx_fee t)))"
      using assms(1) by (simp add: sats_Inr_iff amounts_fit_def)
    with True show ?thesis by (simp add: active_def e d Let_def)
  qed (simp add: active_def e d Let_def)
qed

lemma active_ok:
  assumes "rfc_ok (cx_observed_at cx)" and "active cx t owned = Inr ob"
  shows "observation_wire_ok ob"
proof (rule active_InrE [OF assms(2)], goal_cases)
  case (1 eff)
  have sat_ok: "\<bar>n\<bar> < 10 ^ MAX_DIGITS \<Longrightarrow> money_ok (sat n)" for n
    using asset_sat by (simp add: money_ok_def amount_ok_def sat_def digit_count_iff res_simps)
  have "opt_ok rfc_ok eff"
    using 1(1) by (auto simp: rfc3339_utc_new split: option.splits dest: rfc3339_new_ok)
  then have "provenance_wire_ok (ctx_provenance cx SURFACE_TX eff)"
    using assms(1) by (simp add: provenance_wire_ok_def ctx_provenance_def)
  then show ?case
    using 1(3) sat_ok by (simp add: observation_wire_ok_def 1(2) plain_describe active_extra_parsed amounts_fit_def)
qed

text \<open>C28. The observation the Bitcoin adapter makes of a transaction is well-typed on the wire: the
  host decodes its JSON back to the same observation. It reports the net delta in satoshi,
  non-negative exactly when the sign says so, the fee exactly when the wallet spent an output,
  posted exactly when the transaction has a height, and the block's time as the instant it is.\<close>

theorem active_wire_ok:
  assumes "rfc_ok (cx_observed_at cx)" and "active cx t owned = Inr ob"
  shows "de_observation_wire (ser_observation_wire ob) = Inr ob \<and>
    asset (ow_amount ob) = AssetId ''sat'' \<and> scale (ow_amount ob) = 0 \<and>
    units (ow_amount ob) = net_delta t owned \<and>
    (ow_raw_sign ob = ProviderPositive) = (0 \<le> net_delta t owned) \<and>
    map_option units (ow_fees ob) = (if wallet_spent t owned then Some (int (tx_fee t)) else None) \<and>
    (ow_posting ob = Posted) = (tx_height t \<noteq> None) \<and>
    (case st_block_time (tx_state t) of
       None \<Rightarrow> pw_effective_at (ow_provenance ob) = None
     | Some s \<Rightarrow> (- 62167219200 \<le> s \<and> s < 253402300800 \<longrightarrow>
                   Option.bind (pw_effective_at (ow_provenance ob)) instant = Some (s, 0)))"
proof (rule active_InrE [OF assms(2)], goal_cases)
  case (1 eff)
  note e = 1(1) and ob = 1(2)
  have "case st_block_time (tx_state t) of
       None \<Rightarrow> pw_effective_at (ow_provenance ob) = None
     | Some s \<Rightarrow> (- 62167219200 \<le> s \<and> s < 253402300800 \<longrightarrow>
                   Option.bind (pw_effective_at (ow_provenance ob)) instant = Some (s, 0))"
    using e rfc3339_utc_instant by (fastforce simp: ob ctx_provenance_def split: option.splits)
  with de_ser_observation [OF active_ok [OF assms]] show ?case
    by (simp add: ob sat_def ASSET_SAT_def raw_sign_of_def)
qed

section \<open>Net deltas\<close>

lemma owned_sum_Nil [simp]: "owned_sum owned [] = 0"
  by (simp add: owned_sum_def)

lemma owned_sum_Cons [simp]:
  "owned_sum owned (v # vs) = (if is_owned owned v then int (vo_value v) else 0) + owned_sum owned vs"
  by (simp add: owned_sum_def)

lemma owned_sum_split:
  assumes "set xs \<inter> set ys = {}"
  shows "owned_sum (xs @ ys) os = owned_sum xs os + owned_sum ys os"
proof (induction os)
  case (Cons v os)
  have "is_owned (xs @ ys) v \<longleftrightarrow> is_owned xs v \<or> is_owned ys v" "\<not> (is_owned xs v \<and> is_owned ys v)"
    using assms by (auto simp: is_owned_def split: option.splits)
  with Cons show ?case by auto
qed simp

lemma owned_sum_concat:
  "distinct (concat ws) \<Longrightarrow> owned_sum (concat ws) os = (\<Sum>w\<leftarrow>ws. owned_sum w os)"
proof (induction ws)
  case Nil
  show ?case by (induction os) (simp_all add: is_owned_def split: option.split)
next
  case (Cons w ws)
  then have "set w \<inter> set (concat ws) = {}" "distinct (concat ws)" by (simp_all only: concat.simps distinct_append)
  then show ?case using owned_sum_split [of w "concat ws" os] Cons.IH by simp
qed

lemma owned_sum_all: "list_all (is_owned owned) os \<Longrightarrow> owned_sum owned os = (\<Sum>v\<leftarrow>os. int (vo_value v))"
  by (induction os) simp_all

text \<open>What a transaction of the chain satisfies: it creates no money but for the fee it leaves.\<close>

definition conserves :: "tx \<Rightarrow> bool" where
  "conserves t \<longleftrightarrow>
     (\<Sum>v\<leftarrow>spent_outputs t. int (vo_value v)) = (\<Sum>v\<leftarrow>tx_vout t. int (vo_value v)) + int (tx_fee t)"

text \<open>C30. The net deltas that several wallets report of one transaction add up to the net delta of
  the wallet that holds all their addresses, if no address is held twice; and when those addresses are all the
  transaction touches, they sum to minus its fee, so that a transfer between one's own wallets is
  never counted as income.\<close>

theorem net_deltas_conserve:
  assumes "distinct (concat ws)"
  shows "(\<Sum>w\<leftarrow>ws. net_delta t w) = net_delta t (concat ws) \<and>
    (conserves t \<and> list_all (is_owned (concat ws)) (tx_vout t @ spent_outputs t) \<longrightarrow>
       (\<Sum>w\<leftarrow>ws. net_delta t w) = - int (tx_fee t))"
proof -
  have s: "(\<Sum>w\<leftarrow>ws. net_delta t w) = net_delta t (concat ws)"
    by (simp add: net_delta_def sum_list_subtractf owned_sum_concat [OF assms])
  moreover have "net_delta t (concat ws) = - int (tx_fee t)"
    if "conserves t" "list_all (is_owned (concat ws)) (tx_vout t @ spent_outputs t)"
    using that by (simp add: net_delta_def conserves_def owned_sum_all)
  ultimately show ?thesis by simp
qed

definition sample_transfer :: tx where
  "sample_transfer =
     \<lparr>tx_txid = ''t'', tx_fee = 2,
      tx_state = \<lparr>st_confirmed = True, st_block_height = Some 5, st_block_hash = None, st_block_time = Some 0\<rparr>,
      tx_vin = [\<lparr>vi_prevout = Some \<lparr>vo_address = Some ''a'', vo_value = 10\<rparr>\<rparr>],
      tx_vout = [\<lparr>vo_address = Some ''b'', vo_value = 8\<rparr>]\<rparr>"

theorem net_deltas_conserve_witness:
  "net_delta sample_transfer [''a''] + net_delta sample_transfer [''b''] = - 2"
proof -
  have "conserves sample_transfer"
    "list_all (is_owned (concat [[''a''], [''b'']])) (tx_vout sample_transfer @ spent_outputs sample_transfer)"
    by (simp_all add: conserves_def sample_transfer_def spent_outputs_def is_owned_def List.map_filter_simps)
  then show ?thesis
    using net_deltas_conserve [of "[[''a''], [''b'']]" sample_transfer] by (simp add: sample_transfer_def)
qed

definition sample_ctx :: ctx where
  "sample_ctx =
     \<lparr>cx_resource_id = ''w'', cx_adapter_id = ''btc'', cx_provider_id = ''esplora'',
      cx_observed_at = Rfc3339 (format_utc 0)\<rparr>"

lemma sample_ctx_ok: "rfc_ok (cx_observed_at sample_ctx)"
  using rfc3339_utc_instant [of 0] by (auto simp: sample_ctx_def rfc3339_utc_new rfc3339_new_def rfc_ok_def res_simps)

theorem active_wire_ok_witness:
  "\<exists>ob. active sample_ctx sample_transfer [''a''] = Inr ob \<and> units (ow_amount ob) = - 10 \<and>
     map_option units (ow_fees ob) = Some 2 \<and> Option.bind (pw_effective_at (ow_provenance ob)) instant = Some (0, 0)"
proof -
  have d: "net_delta sample_transfer [''a''] = - 10" "wallet_spent sample_transfer [''a'']"
    by (simp_all add: net_delta_def wallet_spent_def owned_sum_def sample_transfer_def spent_outputs_def
        is_owned_def List.map_filter_simps)
  have "amounts_fit sample_transfer [''a'']"
    using d by (simp add: amounts_fit_def MAX_DIGITS_def sample_transfer_def)
  then obtain ob where "active sample_ctx sample_transfer [''a''] = Inr ob"
    using active_total [of sample_transfer "[''a'']" sample_ctx] by (auto simp: is_ok_iff sample_transfer_def)
  with active_wire_ok [OF sample_ctx_ok this] d show ?thesis by (simp add: sample_transfer_def)
qed

end
