(* ===== verification/Bitcoin_Paging.thy ===== *)
theory Bitcoin_Paging
  imports Bitcoin_Map_Correct
begin

text \<open>
  What the Bitcoin adapter's pages add up to. First the cursor: it survives being sent as a
  string, and its order is the order of emission. Then a plan as a list of keyed transactions,
  independent of pages, and the lemma that resuming after any of its items plans exactly the
  items that follow. Then one cut of a plan, and last a crawl: asking for pages until none is
  left, which ends and delivers every item once.
\<close>

section \<open>The cursor as a string\<close>

definition btc_cursor_ok :: "btc_cursor \<Rightarrow> bool" where
  "btc_cursor_ok c \<longleftrightarrow>
     int (bc_height c) \<le> u64_max \<and> (bc_txid c = [] \<or> is_txid (bc_txid c)) \<and>
     (case bc_mempool c of None \<Rightarrow> True | Some m \<Rightarrow> is_txid m)"

lemma split_once_colon: "CHR '':'' \<notin> set a \<Longrightarrow> split_once '':'' (a @ '':'' @ b) = Some (a, b)"
  by (induction a) auto

lemma lower_hex_not_colon: "lower_hex c \<Longrightarrow> c \<noteq> CHR '':''"
  by (auto simp: lower_hex_def is_digit_def)

lemma is_txid_colon_free: "is_txid t \<Longrightarrow> CHR '':'' \<notin> set t"
  using lower_hex_not_colon by (auto simp: is_txid_def list_all_iff)

lemma dec_colon_free: "CHR '':'' \<notin> set (dec n)"
  using dec_digits [of n] not_digit_punct(3) by blast

lemma split_once_mark: "CHR '':'' \<notin> set a \<Longrightarrow> split_once '':m:'' (a @ '':m:'' @ b) = Some (a, b)"
  by (induction a) auto

lemma split_once_none: "CHR '':'' \<notin> set a \<Longrightarrow> split_once '':m:'' a = None"
  by (induction a) auto

lemma parse_u64_dec: "int n \<le> u64_max \<Longrightarrow> parse_u64 (dec n) = Some n"
proof -
  assume n: "int n \<le> u64_max"
  obtain c cs where d: "dec n = c # cs" by (cases "dec n") simp_all
  then have "is_digit c" using dec_digits [of n] by simp
  then have "c \<noteq> CHR ''+''" by (auto simp: is_digit_def)
  then have "(case dec n of c # cs \<Rightarrow> if c = CHR ''+'' then cs else dec n | [] \<Rightarrow> dec n) = dec n"
    by (simp add: d)
  then show ?thesis
    using n dec_digits [of n] by (simp add: parse_u64_def Let_def list_all_iff)
qed

lemma parse_u64_bound: "parse_u64 s = Some n \<Longrightarrow> int n \<le> u64_max"
  by (auto simp: parse_u64_def Let_def split: if_splits)

lemma cursor_parse_encode: "btc_cursor_ok c \<Longrightarrow> cursor_parse (cursor_encode c) = Inr c"
proof -
  assume ok: "btc_cursor_ok c"
  have t: "CHR '':'' \<notin> set (bc_txid c)" using ok is_txid_colon_free by (auto simp: btc_cursor_ok_def)
  have h: "parse_u64 (dec (bc_height c)) = Some (bc_height c)"
    using ok by (simp add: btc_cursor_ok_def parse_u64_dec)
  show ?thesis
  proof (cases "bc_mempool c")
    case None
    have "split_once '':'' (dec (bc_height c) @ '':'' @ bc_txid c) = Some (dec (bc_height c), bc_txid c)"
      by (rule split_once_colon [OF dec_colon_free])
    with None show ?thesis using ok h t
      by (auto simp: cursor_parse_def cursor_encode_def split_once_none btc_cursor_ok_def)
  next
    case (Some m)
    have "split_once '':'' (dec (bc_height c) @ '':'' @ (bc_txid c @ '':m:'' @ m)) =
        Some (dec (bc_height c), bc_txid c @ '':m:'' @ m)"
      by (rule split_once_colon [OF dec_colon_free])
    with Some show ?thesis using ok h split_once_mark [OF t, of m]
      by (auto simp: cursor_parse_def cursor_encode_def btc_cursor_ok_def)
  qed
qed

lemma cursor_parse_ok: "cursor_parse s = Inr c \<Longrightarrow> btc_cursor_ok c"
  by (auto simp: cursor_parse_def btc_cursor_ok_def res_simps Let_def
      split: option.splits if_splits prod.splits dest!: parse_u64_bound)

text \<open>A cursor of the Bitcoin adapter comes back from its string exactly when its height is
  64-bit and its transaction ids are empty or 64 lower-case hex digits, as \<open>parse\<close> demands;
  whatever string it is parsed from, re-encoding and parsing again gives the same cursor.\<close>

theorem btc_cursor_roundtrip:
  "(cursor_parse (cursor_encode c) = Inr c) = btc_cursor_ok c \<and>
   (case cursor_parse s of Inl e \<Rightarrow> e = s | Inr d \<Rightarrow> cursor_parse (cursor_encode d) = Inr d)"
proof -
  have "cursor_parse s = Inl e \<Longrightarrow> e = s" for e
    by (auto simp: cursor_parse_def res_simps Let_def split: option.splits if_splits prod.splits)
  then show ?thesis
    using cursor_parse_encode cursor_parse_ok by (auto split: sum.splits)
qed

interpretation btc_cursor: roundtrip cursor_encode "\<lambda>s. res_ok (cursor_parse s)" btc_cursor_ok
  by unfold_locales (simp add: cursor_parse_encode)

section \<open>A plan, without its observations\<close>

type_synonym plan_entries = "(key \<times> tx) list"

definition confirmed_entry :: "tx \<Rightarrow> (key \<times> tx) option" where
  "confirmed_entry t = map_option (\<lambda>h. (KConfirmed h (tx_txid t), t)) (tx_height t)"

definition confirmed_entries :: "(string, tx) btree_map \<Rightarrow> plan_entries" where
  "confirmed_entries txs = List.map_filter confirmed_entry (map snd txs)"

definition mempool_entries :: "(string, tx) btree_map \<Rightarrow> string list \<Rightarrow> plan_entries" where
  "mempool_entries txs is = List.map_filter (\<lambda>i. map_option (Pair (KMempool i)) (map_of txs i)) is"

fun beyond :: "nat \<times> string \<Rightarrow> key \<Rightarrow> bool" where
  "beyond mark (KConfirmed h t) \<longleftrightarrow> mark < (h, t)"
| "beyond mark (KMempool t) \<longleftrightarrow> True"

fun after :: "string option \<Rightarrow> string \<Rightarrow> bool" where
  "after None i \<longleftrightarrow> True"
| "after (Some z) i \<longleftrightarrow> z < i"

definition mark_of :: "btc_cursor option \<Rightarrow> nat \<times> string" where
  "mark_of from = (case from of None \<Rightarrow> (0, []) | Some c \<Rightarrow> confirmed_mark c)"

definition entries :: "chain_view \<Rightarrow> btc_cursor option \<Rightarrow> plan_entries" where
  "entries ch from =
     sort_key fst (filter (\<lambda>e. beyond (mark_of from) (fst e)) (confirmed_entries (ch_txs ch))) @
     mempool_entries (ch_txs ch) (filter (after (Option.bind from bc_mempool)) (ch_mempool ch))"

fun top_mark :: "nat \<times> string \<Rightarrow> tx list \<Rightarrow> nat \<times> string" where
  "top_mark m [] = m"
| "top_mark m (t # ts) =
     top_mark (case tx_height t of None \<Rightarrow> m | Some h \<Rightarrow> if m < (h, tx_txid t) then (h, tx_txid t) else m) ts"

definition observed :: "ctx \<Rightarrow> string list \<Rightarrow> plan_entries \<Rightarrow> map_error + plan_items" where
  "observed cx owned es =
     (if list_all (\<lambda>e. is_ok (active cx (snd e) owned)) es
      then Inr (map (\<lambda>e. (fst e, projr (active cx (snd e) owned))) es)
      else Inl (projl (active cx (snd (hd (filter (\<lambda>e. \<not> is_ok (active cx (snd e) owned)) es))) owned)))"

lemma observed_Nil [simp]: "observed cx owned [] = Inr []"
  by (simp add: observed_def)

lemma observed_Cons:
  "observed cx owned (e # es) =
     res_bind (active cx (snd e) owned) (\<lambda>ob. res_bind (observed cx owned es) (\<lambda>is. Inr ((fst e, ob) # is)))"
  by (cases "active cx (snd e) owned") (auto simp: observed_def)

lemma plan_confirmed_eq:
  "plan_confirmed cx owned mark ts (hw, items) =
     res_bind (observed cx owned (filter (\<lambda>e. beyond mark (fst e)) (List.map_filter confirmed_entry ts)))
       (\<lambda>is. Inr (top_mark hw ts, items @ is))"
proof (induction ts arbitrary: hw items)
  case Nil
  show ?case by (simp add: List.map_filter_simps)
next
  case (Cons t ts)
  show ?case
  proof (cases "tx_height t")
    case None
    then show ?thesis by (simp add: Cons.IH List.map_filter_simps confirmed_entry_def)
  next
    case (Some h)
    then have c: "confirmed_entry t = Some (KConfirmed h (tx_txid t), t)" by (simp add: confirmed_entry_def)
    show ?thesis
      by (cases "active cx t owned";
          cases "observed cx owned (filter (\<lambda>e. beyond mark (fst e)) (List.map_filter confirmed_entry ts))")
        (auto simp: Some Let_def Cons.IH List.map_filter_simps c observed_Cons not_le not_less)
  qed
qed

lemma plan_mempool_eq:
  "plan_mempool cx owned txs z is items =
     res_bind (observed cx owned (mempool_entries txs (filter (after z) is))) (\<lambda>js. Inr (items @ js))"
proof (induction "is" arbitrary: items)
  case Nil
  show ?case by (simp add: mempool_entries_def List.map_filter_simps)
next
  case (Cons i "is")
  have skip: "(case z of None \<Rightarrow> False | Some z \<Rightarrow> i \<le> z) \<longleftrightarrow> \<not> after z i"
    by (cases z) (auto simp: not_less)
  show ?case
  proof (cases "after z i")
    case False
    then show ?thesis by (simp add: skip Cons.IH)
  next
    case True
    note m = mempool_entries_def List.map_filter_simps
    show ?thesis
    proof (cases "map_of txs i")
      case None
      with True show ?thesis by (simp add: skip Cons.IH m)
    next
      case (Some t)
      have "mempool_entries txs (filter (after z) (i # is)) = (KMempool i, t) # mempool_entries txs (filter (after z) is)"
        using True Some by (simp add: m)
      with True Some show ?thesis
        by (cases "active cx t owned"; cases "observed cx owned (mempool_entries txs (filter (after z) is))")
          (simp_all add: skip Cons.IH observed_Cons)
    qed
  qed
qed

lemma observed_append:
  "observed cx owned (es @ fs) =
     res_bind (observed cx owned es) (\<lambda>is. res_bind (observed cx owned fs) (\<lambda>js. Inr (is @ js)))"
proof (induction es)
  case Nil
  show ?case by (cases "observed cx owned fs") simp_all
next
  case (Cons e es)
  show ?case
    by (cases "active cx (snd e) owned"; cases "observed cx owned es"; cases "observed cx owned fs")
      (simp_all add: observed_Cons Cons.IH)
qed

lemma observed_Inr_iff:
  "observed cx owned es = Inr is \<longleftrightarrow>
     list_all (\<lambda>e. is_ok (active cx (snd e) owned)) es \<and>
     is = map (\<lambda>e. (fst e, projr (active cx (snd e) owned))) es"
  by (auto simp: observed_def)

lemma observed_sort:
  assumes "observed cx owned es = Inr is"
  shows "observed cx owned (sort_key fst es) = Inr (sort_key fst is)"
proof -
  let ?f = "\<lambda>e :: key \<times> tx. (fst e, projr (active cx (snd e) owned))"
  have "sort_key fst (map ?f es) = map ?f (sort_key fst es)"
  proof -
    have ins: "insort_key fst (?f x) (map ?f ys) = map ?f (insort_key fst x ys)" for x ys
      by (induction ys) simp_all
    show ?thesis by (induction es) (simp_all add: ins)
  qed
  then show ?thesis using assms by (simp add: observed_Inr_iff list_all_iff)
qed

lemma make_plan_entries:
  assumes "make_plan cx ch owned from = Inr p"
  shows "observed cx owned (entries ch from) = Inr (pl_items p)"
    and "pl_high_water p = top_mark (mark_of from) (map snd (ch_txs ch))"
proof -
  let ?conf = "filter (\<lambda>e. beyond (mark_of from) (fst e)) (confirmed_entries (ch_txs ch))"
  let ?mem = "mempool_entries (ch_txs ch) (filter (after (Option.bind from bc_mempool)) (ch_mempool ch))"
  from assms obtain "is" js where
    i: "observed cx owned ?conf = Inr is" and j: "observed cx owned ?mem = Inr js" and
    p: "p = \<lparr>pl_items = sort_key fst is @ js, pl_high_water = top_mark (mark_of from) (map snd (ch_txs ch))\<rparr>"
    by (auto simp: make_plan_def Let_def plan_confirmed_eq plan_mempool_eq res_simps
        confirmed_entries_def mark_of_def)
  show "observed cx owned (entries ch from) = Inr (pl_items p)"
    by (simp add: entries_def observed_append observed_sort [OF i] j p)
  show "pl_high_water p = top_mark (mark_of from) (map snd (ch_txs ch))" by (simp add: p)
qed

lemma make_plan_total:
  assumes "list_all (\<lambda>e. is_ok (active cx (snd e) owned)) (entries ch from)"
  obtains p where "make_plan cx ch owned from = Inr p"
proof -
  let ?conf = "filter (\<lambda>e. beyond (mark_of from) (fst e)) (confirmed_entries (ch_txs ch))"
  let ?mem = "mempool_entries (ch_txs ch) (filter (after (Option.bind from bc_mempool)) (ch_mempool ch))"
  have "list_all (\<lambda>e. is_ok (active cx (snd e) owned)) ?conf"
    "list_all (\<lambda>e. is_ok (active cx (snd e) owned)) ?mem"
    using assms by (auto simp: entries_def list_all_iff)
  then obtain "is" js where "observed cx owned ?conf = Inr is" "observed cx owned ?mem = Inr js"
    by (simp add: observed_Inr_iff)
  then show thesis
    using that by (auto simp: make_plan_def Let_def plan_confirmed_eq plan_mempool_eq
        confirmed_entries_def mark_of_def)
qed

section \<open>The order of a plan, and where a cursor resumes it\<close>

text \<open>
  What a sync hands to the plan: the transactions keyed by their ids, as a sorted map, ids and
  heights as Esplora gives them, and the mempool as a sorted set.
\<close>

definition chain_ok :: "chain_view \<Rightarrow> bool" where
  "chain_ok ch \<longleftrightarrow>
     btree_ok (ch_txs ch) \<and> sorted_wrt (<) (ch_mempool ch) \<and> list_all is_txid (ch_mempool ch) \<and>
     list_all (\<lambda>(i, t). tx_txid t = i \<and> is_txid i \<and>
                 (case tx_height t of None \<Rightarrow> True | Some h \<Rightarrow> int h \<le> u64_max)) (ch_txs ch)"

lemma key_less [simp]:
  "KConfirmed h t < KConfirmed h' t' \<longleftrightarrow> (h, t) < (h', t')"
  "KMempool i < KMempool j \<longleftrightarrow> i < j"
  "KConfirmed h t < KMempool i"
  "\<not> KMempool i < KConfirmed h t"
  by (simp_all add: less_key_def)

lemma confirmed_entries_in:
  "e \<in> set (confirmed_entries txs) \<longleftrightarrow>
     (\<exists>i t h. (i, t) \<in> set txs \<and> tx_height t = Some h \<and> e = (KConfirmed h (tx_txid t), t))"
  by (force simp: confirmed_entries_def confirmed_entry_def map_filter_def)

lemma mempool_entries_in:
  "e \<in> set (mempool_entries txs is) \<longleftrightarrow> (\<exists>i t. i \<in> set is \<and> map_of txs i = Some t \<and> e = (KMempool i, t))"
  by (force simp: mempool_entries_def map_filter_def)

lemma confirmed_entries_keys:
  assumes "distinct (map fst txs)" "list_all (\<lambda>(i, t). tx_txid t = i) txs"
  shows "distinct (map fst (confirmed_entries txs))"
  using assms
proof (induction txs)
  case (Cons p txs)
  obtain i t where p: "p = (i, t)" by force
  show ?case
  proof (cases "tx_height t")
    case (Some h)
    have "KConfirmed h i \<noteq> fst e" if "e \<in> set (confirmed_entries txs)" for e
      using Cons.prems p that by (force simp: confirmed_entries_in list_all_iff)
    then have "KConfirmed h i \<notin> fst ` set (confirmed_entries txs)" by blast
    with Some Cons p show ?thesis
      by (simp add: confirmed_entries_def confirmed_entry_def List.map_filter_simps)
  qed (use Cons p in \<open>simp add: confirmed_entries_def confirmed_entry_def List.map_filter_simps\<close>)
qed (simp add: confirmed_entries_def List.map_filter_simps)

lemma mempool_entries_sorted:
  "sorted_wrt (<) is \<Longrightarrow> sorted_wrt (<) (map fst (mempool_entries txs is))"
proof (induction "is")
  case (Cons i "is")
  have "KMempool i < k" if "k \<in> fst ` set (mempool_entries txs is)" for k
    using that Cons.prems by (auto simp: mempool_entries_in)
  with Cons show ?case
    by (auto simp: mempool_entries_def List.map_filter_simps split: option.splits)
qed (simp add: mempool_entries_def List.map_filter_simps)

lemma entries_sorted:
  assumes "chain_ok ch"
  shows "sorted_wrt (<) (map fst (entries ch from))"
proof -
  let ?conf = "filter (\<lambda>e. beyond (mark_of from) (fst e)) (confirmed_entries (ch_txs ch))"
  let ?mem = "mempool_entries (ch_txs ch) (filter (after (Option.bind from bc_mempool)) (ch_mempool ch))"
  have "btree_ok (ch_txs ch)" "list_all (\<lambda>(i, t). tx_txid t = i) (ch_txs ch)"
    and m: "sorted_wrt (<) (ch_mempool ch)"
    using assms by (auto simp: chain_ok_def list_all_iff)
  then have "distinct (map fst (confirmed_entries (ch_txs ch)))"
    using btree_ok_distinct by (intro confirmed_entries_keys) auto
  then have "distinct (map fst (sort_key fst ?conf))"
    by (simp add: distinct_map_filter distinct_map distinct_filter inj_on_def)
  then have "sorted_wrt (<) (map fst (sort_key fst ?conf))" by (simp add: strict_sorted_iff del: set_sort)
  moreover have "sorted_wrt (<) (map fst ?mem)"
    by (rule mempool_entries_sorted [OF sorted_wrt_filter [OF m]])
  moreover have "k < l" if "k \<in> fst ` set (sort_key fst ?conf)" "l \<in> fst ` set ?mem" for k l
    using that by (auto simp: mempool_entries_in confirmed_entries_in)
  ultimately show ?thesis by (auto simp: entries_def sorted_wrt_append)
qed

lemma filter_tail:
  fixes k :: "'k::linorder"
  assumes "sorted_wrt (<) (map fst (xs @ (k, v) # ys))"
  shows "filter (\<lambda>e. k < fst e) (xs @ (k, v) # ys) = ys"
proof -
  have "filter (\<lambda>e. k < fst e) xs = []" "filter (\<lambda>e. k < fst e) ys = ys"
    using assms by (auto simp: sorted_wrt_append filter_empty_conv filter_id_conv less_not_sym)
  then show ?thesis by simp
qed

lemma top_mark_ge: "m \<le> top_mark m ts"
proof (induction ts arbitrary: m)
  case (Cons t ts)
  let ?n = "case tx_height t of None \<Rightarrow> m | Some h \<Rightarrow> if m < (h, tx_txid t) then (h, tx_txid t) else m"
  have "m \<le> ?n" by (auto split: option.split)
  also have "\<dots> \<le> top_mark ?n ts" by (rule Cons.IH)
  finally show ?case by simp
qed simp

lemma top_mark_member: "t \<in> set ts \<Longrightarrow> tx_height t = Some h \<Longrightarrow> (h, tx_txid t) \<le> top_mark m ts"
proof (induction ts arbitrary: m)
  case (Cons u ts)
  then show ?case
  proof (cases "t = u")
    case True
    with Cons.prems show ?thesis
      using top_mark_ge [of "(h, tx_txid t)" ts] top_mark_ge [of m ts] by (auto simp: not_less intro: order.trans)
  qed auto
qed simp

lemma mempool_entries_filter:
  "filter (\<lambda>e. KMempool i < fst e) (mempool_entries txs is) = mempool_entries txs (filter ((<) i) is)"
  by (induction "is") (auto simp: mempool_entries_def List.map_filter_simps split: option.split)

lemma filter_sort_key: "filter P (sort_key f xs) = sort_key f (filter P xs)"
  by (rule filter_sort)

text \<open>
  A cursor inside the mempool section has confirmed entries above it only if the chain grew
  since it was issued.
\<close>

definition settled :: "chain_view \<Rightarrow> btc_cursor option \<Rightarrow> bool" where
  "settled ch from \<longleftrightarrow>
     Option.bind from bc_mempool = None \<or>
     filter (\<lambda>e. beyond (mark_of from) (fst e)) (confirmed_entries (ch_txs ch)) = []"

lemma entries_resume:
  assumes ch: "chain_ok ch" and fresh: "settled ch from"
    and split: "entries ch from = xs @ (k, v) # ys"
    and hw: "hw = top_mark (mark_of from) (map snd (ch_txs ch))"
  shows "entries ch (Some (key_cursor hw k)) = ys" and "settled ch (Some (key_cursor hw k))"
proof -
  let ?conf = "\<lambda>m. filter (\<lambda>e. beyond m (fst e)) (confirmed_entries (ch_txs ch))"
  let ?z = "Option.bind from bc_mempool"
  let ?mem = "\<lambda>z. mempool_entries (ch_txs ch) (filter (after z) (ch_mempool ch))"
  have ys: "ys = filter (\<lambda>e. k < fst e) (entries ch from)"
    using filter_tail [of xs k v ys] entries_sorted [OF ch, of "from"] by (simp add: split)
  have kin: "(k, v) \<in> set (entries ch from)" by (simp add: split)
  have "entries ch (Some (key_cursor hw k)) = filter (\<lambda>e. k < fst e) (entries ch from) \<and>
      settled ch (Some (key_cursor hw k))"
  proof (cases k)
    case (KConfirmed h t)
    have c: "(k, v) \<in> set (?conf (mark_of from))"
      using kin KConfirmed by (auto simp: entries_def mempool_entries_in)
    then have "?conf (mark_of from) \<noteq> []" by force
    then have z: "?z = None" using fresh by (simp add: settled_def)
    have "mark_of from < (h, t)" using c KConfirmed by auto
    then have "(beyond (h, t) (fst e) \<longleftrightarrow> beyond (mark_of from) (fst e) \<and> k < fst e)"
      if inc: "e \<in> set (confirmed_entries (ch_txs ch))" for e
    proof -
      obtain h' u where e: "fst e = KConfirmed h' u" using inc by (auto simp: confirmed_entries_in)
      show ?thesis
        using less_trans [OF \<open>mark_of from < (h, t)\<close>, of "(h', u)"]
        unfolding e KConfirmed beyond.simps key_less by blast
    qed
    then have "?conf (h, t) = filter (\<lambda>e. k < fst e) (?conf (mark_of from))"
      by (auto simp: filter_filter intro!: filter_cong)
    moreover have "filter (\<lambda>e. k < fst e) (?mem None) = ?mem None"
      by (auto simp: filter_id_conv mempool_entries_in KConfirmed)
    ultimately show ?thesis
      by (simp add: entries_def KConfirmed z filter_sort_key mark_of_def confirmed_mark_def settled_def)
  next
    case (KMempool i)
    have i: "after ?z i" using kin KMempool by (auto simp: entries_def mempool_entries_in confirmed_entries_in)
    have none: "?conf hw = []"
      using top_mark_member [of _ "map snd (ch_txs ch)" _ "mark_of from"]
      by (fastforce simp: filter_empty_conv confirmed_entries_in hw not_less)
    have "filter (\<lambda>e. k < fst e) (?conf (mark_of from)) = []"
      by (auto simp: filter_empty_conv confirmed_entries_in KMempool)
    moreover have "filter (\<lambda>e. k < fst e) (?mem ?z) = ?mem (Some i)"
      using i by (cases ?z)
        (auto simp: KMempool mempool_entries_filter filter_filter intro!: arg_cong [of _ _ "mempool_entries (ch_txs ch)"] filter_cong)
    ultimately show ?thesis using none
      by (simp add: entries_def KMempool filter_sort_key mark_of_def confirmed_mark_def settled_def)
  qed
  then show "entries ch (Some (key_cursor hw k)) = ys" "settled ch (Some (key_cursor hw k))"
    by (simp_all add: ys)
qed

section \<open>One cut\<close>

text \<open>
  What becomes of one planned item, whatever page it falls on: it is delivered (whole, or without
  its \<open>provider_extra\<close>), or it is reported as too large.
\<close>

definition delivery :: "(json \<Rightarrow> nat option) \<Rightarrow> key \<times> observation_wire \<Rightarrow> (key \<times> observation_wire) option" where
  "delivery to_vec it =
     (case degrade_step to_vec (snd it) of
        Inl e \<Rightarrow> None
      | Inr (ob, n) \<Rightarrow> if MAX_OBSERVATION_BYTES < n then None else Some (fst it, ob))"

definition report :: "(json \<Rightarrow> nat option) \<Rightarrow> key \<times> observation_wire \<Rightarrow> degraded option" where
  "report to_vec it =
     (case degrade_step to_vec (snd it) of
        Inl e \<Rightarrow> None
      | Inr (ob, n) \<Rightarrow>
          if MAX_OBSERVATION_BYTES < n then Some \<lparr>dg_local_id = Some (ow_local_id ob), dg_bytes = u64_of_usize n\<rparr>
          else None)"

definition sizable :: "(json \<Rightarrow> nat option) \<Rightarrow> plan_items \<Rightarrow> bool" where
  "sizable to_vec items \<longleftrightarrow> list_all (\<lambda>it. is_ok (degrade_step to_vec (snd it))) items"

definition deliveries :: "(json \<Rightarrow> nat option) \<Rightarrow> plan_items \<Rightarrow> plan_items" where
  "deliveries to_vec items = List.map_filter (delivery to_vec) items"

definition reports :: "(json \<Rightarrow> nat option) \<Rightarrow> plan_items \<Rightarrow> degraded list" where
  "reports to_vec items = List.map_filter (report to_vec) items"

lemmas item_simps = deliveries_def reports_def delivery_def report_def List.map_filter_simps

lemma map_filter_append [simp]: "List.map_filter f (xs @ ys) = List.map_filter f xs @ List.map_filter f ys"
  by (simp add: map_filter_def)

lemma map_filter_last:
  "List.map_filter f xs \<noteq> [] \<Longrightarrow>
     \<exists>ys x zs. xs = ys @ x # zs \<and> f x = Some (last (List.map_filter f xs)) \<and> List.map_filter f zs = []"
proof (induction xs rule: rev_induct)
  case (snoc x xs)
  show ?case
  proof (cases "f x")
    case None
    then have m: "List.map_filter f (xs @ [x]) = List.map_filter f xs" by (simp add: List.map_filter_simps)
    then have "List.map_filter f xs \<noteq> []" using snoc.prems by simp
    then obtain ys y zs where "xs = ys @ y # zs" "f y = Some (last (List.map_filter f xs))" "List.map_filter f zs = []"
      using snoc.IH by blast
    then have "xs @ [x] = ys @ y # (zs @ [x])" "List.map_filter f (zs @ [x]) = []"
      using None by (simp_all add: List.map_filter_simps)
    moreover have "f y = Some (last (List.map_filter f (xs @ [x])))" by (simp only: m \<open>f y = _\<close>)
    ultimately show ?thesis by blast
  next
    case (Some y)
    then have "List.map_filter f (xs @ [x]) = List.map_filter f xs @ [y]" by (simp add: List.map_filter_simps)
    then have "f x = Some (last (List.map_filter f (xs @ [x])))" "List.map_filter f [] = []"
      using Some by (simp_all add: List.map_filter_simps)
    then show ?thesis by blast
  qed
qed (simp add: List.map_filter_simps)

definition last_key :: "plan_items \<Rightarrow> key option \<Rightarrow> key option" where
  "last_key ds k = (if ds = [] then k else Some (fst (last ds)))"

text \<open>A cut takes a prefix of the items; it stops only before an item the budget cannot hold.\<close>

lemma cut_items_split:
  assumes "sizable to_vec items" and "\<not> cu_cut s" and "MAX_OBSERVATION_BYTES < budget"
  obtains pre post s' where "items = pre @ post" and "cut_items to_vec budget items s = Inr s'"
    and "cu_observations s' = cu_observations s @ map snd (deliveries to_vec pre)"
    and "cu_degraded s' = cu_degraded s @ reports to_vec pre"
    and "cu_last_key s' = last_key (deliveries to_vec pre) (cu_last_key s)"
    and "cu_cut s' \<longleftrightarrow> post \<noteq> []"
    and "post \<noteq> [] \<Longrightarrow> deliveries to_vec pre \<noteq> [] \<or> cu_used s \<noteq> 0"
  using assms
proof (induction items arbitrary: s thesis)
  case Nil
  show ?case by (rule Nil(1) [of "[]" "[]" s]) (use Nil in \<open>simp_all add: item_simps last_key_def\<close>)
next
  case (Cons it items)
  obtain k ob where it: "it = (k, ob)" by force
  with Cons.prems(2) obtain ob' size where d: "degrade_step to_vec ob = Inr (ob', size)"
    by (auto simp: sizable_def is_ok_iff)
  have items: "sizable to_vec items" using Cons.prems(2) by (simp add: sizable_def)
  show ?case
  proof (cases "MAX_OBSERVATION_BYTES < size")
    case True
    let ?s = "s\<lparr>cu_degraded := cu_degraded s @ [\<lparr>dg_local_id = Some (ow_local_id ob'), dg_bytes = u64_of_usize size\<rparr>]\<rparr>"
    obtain pre post s' where IH: "items = pre @ post" "cut_items to_vec budget items ?s = Inr s'"
      "cu_observations s' = cu_observations ?s @ map snd (deliveries to_vec pre)"
      "cu_degraded s' = cu_degraded ?s @ reports to_vec pre"
      "cu_last_key s' = last_key (deliveries to_vec pre) (cu_last_key ?s)"
      "cu_cut s' \<longleftrightarrow> post \<noteq> []" "post \<noteq> [] \<Longrightarrow> deliveries to_vec pre \<noteq> [] \<or> cu_used ?s \<noteq> 0"
      using Cons.IH [OF _ items, of ?s] Cons.prems(3,4) by auto
    show ?thesis
      by (rule Cons.prems(1) [of "it # pre" post s']) (use IH True d it in \<open>simp_all add: item_simps\<close>)
  next
    case False
    note size = this
    show ?thesis
    proof (cases "budget < cu_used s + (size + 1)")
      case True
      then have u: "cu_used s \<noteq> 0" using size Cons.prems(4) by simp
      show ?thesis
        by (rule Cons.prems(1) [of "[]" "it # items" "s\<lparr>cu_cut := True\<rparr>"])
          (use True size d it u Cons.prems(3) in \<open>simp_all add: item_simps last_key_def\<close>)
    next
      case False
      let ?s = "s\<lparr>cu_used := cu_used s + (size + 1), cu_observations := cu_observations s @ [ob'], cu_last_key := Some k\<rparr>"
      obtain pre post s' where IH: "items = pre @ post" "cut_items to_vec budget items ?s = Inr s'"
        "cu_observations s' = cu_observations ?s @ map snd (deliveries to_vec pre)"
        "cu_degraded s' = cu_degraded ?s @ reports to_vec pre"
        "cu_last_key s' = last_key (deliveries to_vec pre) (cu_last_key ?s)" "cu_cut s' \<longleftrightarrow> post \<noteq> []"
        using Cons.IH [OF _ items, of ?s] Cons.prems(3,4) by auto
      show ?thesis
        by (rule Cons.prems(1) [of "it # pre" post s'])
          (use IH False size d it in \<open>auto simp: item_simps last_key_def\<close>)
    qed
  qed
qed

lemma cut_page_Inr:
  assumes "cut_items to_vec budget (pl_items p)
      \<lparr>cu_observations = [], cu_last_key = None, cu_degraded = [], cu_used = 0, cu_cut = False\<rparr> = Inr s"
  shows "\<exists>pg. cut_page to_vec p from budget = Inr pg \<and> pa_observations pg = cu_observations s \<and>
    pa_degraded pg = cu_degraded s \<and> pa_bytes pg = cu_used s \<and>
    pa_next pg =
      (if cu_cut s then
         Some (case cu_last_key s of
                 None \<Rightarrow> (case from of None \<Rightarrow> \<lparr>bc_height = 0, bc_txid = [], bc_mempool = None\<rparr> | Some c \<Rightarrow> c)
               | Some k \<Rightarrow> key_cursor (pl_high_water p) k)
       else None)"
  using assms by (simp add: cut_page_def Let_def)

text \<open>
  So one page is the whole of what its plan delivers, or it ends after an item it delivered and
  its cursor resumes right after that item.
\<close>

lemma cut_page_cases:
  assumes "sizable to_vec (pl_items p)" and "MAX_OBSERVATION_BYTES < budget"
  obtains (drained) pg where "cut_page to_vec p from budget = Inr pg" "pa_next pg = None"
      "pa_observations pg = map snd (deliveries to_vec (pl_items p))"
      "pa_degraded pg = reports to_vec (pl_items p)"
  | (more) pg xs it ys where "cut_page to_vec p from budget = Inr pg" "pl_items p = xs @ it # ys"
      "pa_next pg = Some (key_cursor (pl_high_water p) (fst it))"
      "pa_observations pg = map snd (deliveries to_vec (xs @ [it]))"
      "set (reports to_vec (xs @ [it])) \<subseteq> set (pa_degraded pg)"
      "set (pa_degraded pg) \<subseteq> set (reports to_vec (pl_items p))"
proof -
  let ?s = "\<lparr>cu_observations = [], cu_last_key = None, cu_degraded = [], cu_used = 0, cu_cut = False\<rparr>"
  obtain pre post s' where p: "pl_items p = pre @ post" and c: "cut_items to_vec budget (pl_items p) ?s = Inr s'"
    and s': "cu_observations s' = map snd (deliveries to_vec pre)" "cu_degraded s' = reports to_vec pre"
      "cu_last_key s' = last_key (deliveries to_vec pre) None" "cu_cut s' \<longleftrightarrow> post \<noteq> []"
    and ne: "post \<noteq> [] \<Longrightarrow> deliveries to_vec pre \<noteq> []"
    using cut_items_split [OF assms(1), of ?s budget] assms(2) by auto
  obtain pg where pg: "cut_page to_vec p from budget = Inr pg" "pa_observations pg = cu_observations s'"
    "pa_degraded pg = cu_degraded s'"
    "pa_next pg =
       (if cu_cut s' then
          Some (case cu_last_key s' of
                  None \<Rightarrow> (case from of None \<Rightarrow> \<lparr>bc_height = 0, bc_txid = [], bc_mempool = None\<rparr> | Some c \<Rightarrow> c)
                | Some k \<Rightarrow> key_cursor (pl_high_water p) k)
        else None)"
    using cut_page_Inr [OF c] by blast
  show thesis
  proof (cases "post = []")
    case True
    show thesis by (rule drained [OF pg(1)]) (use True in \<open>simp_all add: pg s' p\<close>)
  next
    case False
    then have "List.map_filter (delivery to_vec) pre \<noteq> []" using ne by (simp add: deliveries_def)
    then obtain xs it zs where pre: "pre = xs @ it # zs"
      and l: "delivery to_vec it = Some (last (deliveries to_vec pre))" and z: "deliveries to_vec zs = []"
      using map_filter_last [of "delivery to_vec" pre] unfolding deliveries_def by blast
    have "fst (last (deliveries to_vec pre)) = fst it"
      using l by (auto simp: delivery_def split: sum.splits if_splits prod.splits dest: sym)
    then have k: "cu_last_key s' = Some (fst it)" using s'(3) ne [OF False] by (simp add: last_key_def)
    have "deliveries to_vec pre = deliveries to_vec (xs @ [it])"
      using z by (cases "delivery to_vec it") (simp_all add: pre deliveries_def List.map_filter_simps)
    then have obs: "pa_observations pg = map snd (deliveries to_vec (xs @ [it]))" by (simp add: pg s')
    have nx: "pa_next pg = Some (key_cursor (pl_high_water p) (fst it))"
      using False by (simp add: pg(4) s'(4) k)
    have "pl_items p = xs @ it # (zs @ post)" by (simp add: p pre)
    then show thesis
      by (rule more [OF pg(1) _ nx obs])
        (auto simp: pg(3) s'(2) p pre reports_def List.map_filter_simps split: option.splits)
  qed
qed

section \<open>The size of a page\<close>

definition wire_bytes :: "(json \<Rightarrow> nat option) \<Rightarrow> observation_wire \<Rightarrow> nat" where
  "wire_bytes to_vec ob = (case to_vec (ser_observation_wire ob) of None \<Rightarrow> 0 | Some n \<Rightarrow> n)"

definition cut_inv :: "(json \<Rightarrow> nat option) \<Rightarrow> nat \<Rightarrow> cut_state \<Rightarrow> bool" where
  "cut_inv to_vec budget s \<longleftrightarrow>
     cu_used s \<le> budget \<and> cu_used s = (\<Sum>ob\<leftarrow>cu_observations s. wire_bytes to_vec ob + 1) \<and>
     list_all (\<lambda>ob. wire_bytes to_vec ob \<le> MAX_OBSERVATION_BYTES) (cu_observations s)"

lemma degrade_step_size: "degrade_step to_vec ob = Inr (ob', n) \<Longrightarrow> wire_bytes to_vec ob' = n"
  by (auto simp: degrade_step_def Let_def wire_size_def wire_bytes_def res_simps split: if_splits)

lemma cut_items_inv:
  "cut_items to_vec budget items s = Inr s' \<Longrightarrow> cut_inv to_vec budget s \<Longrightarrow> cut_inv to_vec budget s'"
proof (induction items arbitrary: s)
  case (Cons it items)
  obtain k ob where it: "it = (k, ob)" by force
  obtain ob' n where d: "degrade_step to_vec ob = Inr (ob', n)"
    using Cons.prems(1) by (auto simp: it res_simps)
  have n: "wire_bytes to_vec ob' = n" by (rule degrade_step_size [OF d])
  consider "MAX_OBSERVATION_BYTES < n" | "n \<le> MAX_OBSERVATION_BYTES" "budget < cu_used s + (n + 1)"
    | "n \<le> MAX_OBSERVATION_BYTES" "cu_used s + (n + 1) \<le> budget" by linarith
  then show ?case
  proof cases
    case 1
    then have "cut_items to_vec budget items
        (s\<lparr>cu_degraded := cu_degraded s @ [\<lparr>dg_local_id = Some (ow_local_id ob'), dg_bytes = u64_of_usize n\<rparr>]\<rparr>) = Inr s'"
      using Cons.prems(1) by (simp add: it d)
    then show ?thesis by (rule Cons.IH) (use Cons.prems(2) in \<open>simp add: cut_inv_def\<close>)
  next
    case 2
    then show ?thesis using Cons.prems by (auto simp: it d cut_inv_def)
  next
    case 3
    let ?s = "s\<lparr>cu_used := cu_used s + (n + 1), cu_observations := cu_observations s @ [ob'], cu_last_key := Some k\<rparr>"
    have "cut_inv to_vec budget ?s" using 3 Cons.prems(2) n by (simp add: cut_inv_def)
    moreover have "cut_items to_vec budget items ?s = Inr s'" using 3 Cons.prems(1) by (simp add: it d)
    ultimately show ?thesis by (rule Cons.IH [rotated])
  qed
qed simp

text \<open>C29. A page never exceeds the budget it was given, not even by its first observation: the bytes
  it reports are those of its observations with a comma each, they are within the budget, and no
  observation in it is larger than the limit the host enforces.\<close>

theorem page_within_budget:
  "case cut_page to_vec p from budget of
     Inl e \<Rightarrow> True
   | Inr pg \<Rightarrow>
       pa_bytes pg \<le> budget \<and> pa_bytes pg = (\<Sum>ob\<leftarrow>pa_observations pg. wire_bytes to_vec ob + 1) \<and>
       list_all (\<lambda>ob. wire_bytes to_vec ob \<le> MAX_OBSERVATION_BYTES) (pa_observations pg)"
proof (cases "cut_items to_vec budget (pl_items p)
    \<lparr>cu_observations = [], cu_last_key = None, cu_degraded = [], cu_used = 0, cu_cut = False\<rparr>")
  case (Inr s)
  have "cut_inv to_vec budget s" by (rule cut_items_inv [OF Inr]) (simp add: cut_inv_def)
  moreover obtain pg where "cut_page to_vec p from budget = Inr pg" "pa_observations pg = cu_observations s"
    "pa_bytes pg = cu_used s"
    using cut_page_Inr [OF Inr] by blast
  ultimately show ?thesis by (simp add: cut_inv_def)
qed (simp add: cut_page_def)

section \<open>A crawl\<close>

text \<open>
  One page of a read that resumes at a cursor string, and the reads of a whole crawl: each asks
  for what the last page named, until a page names nothing. The chain stays as it is; the fuel
  bounds the number of pages, and running out of it is not a result.
\<close>

definition page_at ::
  "(json \<Rightarrow> nat option) \<Rightarrow> ctx \<Rightarrow> chain_view \<Rightarrow> string list \<Rightarrow> nat \<Rightarrow> string option \<Rightarrow> page option" where
  "page_at to_vec cx ch owned budget cur =
     Option.bind (case cur of None \<Rightarrow> Some None | Some s \<Rightarrow> map_option Some (res_ok (cursor_parse s))) (\<lambda>from.
     Option.bind (res_ok (make_plan cx ch owned from)) (\<lambda>p. res_ok (cut_page to_vec p from budget)))"

fun crawl ::
  "(json \<Rightarrow> nat option) \<Rightarrow> ctx \<Rightarrow> chain_view \<Rightarrow> string list \<Rightarrow> nat \<Rightarrow> nat \<Rightarrow> string option \<Rightarrow> page list option" where
  "crawl to_vec cx ch owned budget 0 cur = None"
| "crawl to_vec cx ch owned budget (Suc n) cur =
     Option.bind (page_at to_vec cx ch owned budget cur) (\<lambda>pg.
     case pa_next pg of
       None \<Rightarrow> Some [pg]
     | Some c \<Rightarrow> map_option ((#) pg) (crawl to_vec cx ch owned budget n (Some (cursor_encode c))))"

lemma top_mark_is:
  "top_mark m ts = m \<or> (\<exists>t\<in>set ts. \<exists>h. tx_height t = Some h \<and> top_mark m ts = (h, tx_txid t))"
proof (induction ts arbitrary: m)
  case (Cons t ts)
  show ?case
  proof (cases "tx_height t")
    case (Some h)
    show ?thesis
      using Cons.IH [of m] Cons.IH [of "(h, tx_txid t)"] Some by (cases "m < (h, tx_txid t)") auto
  qed (use Cons.IH [of m] in simp)
qed simp

lemma key_cursor_ok:
  assumes ch: "chain_ok ch" and kin: "(k, v) \<in> set (entries ch from)"
    and f: "case from of None \<Rightarrow> True | Some c \<Rightarrow> btc_cursor_ok c"
  shows "btc_cursor_ok (key_cursor (top_mark (mark_of from) (map snd (ch_txs ch))) k)"
proof -
  have tx: "is_txid (tx_txid t) \<and> int h \<le> u64_max"
    if "(i, t) \<in> set (ch_txs ch)" "tx_height t = Some h" for i t h
    using ch that by (auto simp: chain_ok_def list_all_iff)
  obtain hw hi where top: "top_mark (mark_of from) (map snd (ch_txs ch)) = (hw, hi)" by force
  have m: "int (fst (mark_of from)) \<le> u64_max \<and> (snd (mark_of from) = [] \<or> is_txid (snd (mark_of from)))"
    using f by (auto simp: mark_of_def confirmed_mark_def btc_cursor_ok_def u64_max_def split: option.splits)
  have "int hw \<le> u64_max \<and> (hi = [] \<or> is_txid hi)"
    using top_mark_is [of "mark_of from" "map snd (ch_txs ch)"]
  proof
    assume "top_mark (mark_of from) (map snd (ch_txs ch)) = mark_of from"
    then have "mark_of from = (hw, hi)" unfolding top by (rule sym)
    with m show ?thesis by simp
  next
    assume "\<exists>t\<in>set (map snd (ch_txs ch)). \<exists>h. tx_height t = Some h \<and>
      top_mark (mark_of from) (map snd (ch_txs ch)) = (h, tx_txid t)"
    with tx show ?thesis by (auto simp: top)
  qed
  moreover have "case k of KConfirmed h t \<Rightarrow> is_txid t \<and> int h \<le> u64_max | KMempool i \<Rightarrow> is_txid i"
    using kin ch tx by (auto simp: entries_def confirmed_entries_in mempool_entries_in chain_ok_def list_all_iff)
  ultimately show ?thesis by (cases k) (auto simp: btc_cursor_ok_def top)
qed

lemma sizable_total: "\<forall>j. to_vec j \<noteq> None \<Longrightarrow> sizable to_vec items"
proof -
  assume tv: "\<forall>j. to_vec j \<noteq> None"
  have w: "\<exists>n. wire_size to_vec ob = Inr n" for ob
    using tv [rule_format, of "ser_observation_wire ob"] by (auto simp: wire_size_def)
  have "is_ok (degrade_step to_vec ob)" for ob
  proof -
    obtain n d where n: "wire_size to_vec ob = Inr n" and d: "to_vec (JObj (ow_provider_extra ob)) = Some d"
      using w tv by blast
    obtain m where "wire_size to_vec (truncated ob d) = Inr m" using w by blast
    with n d show ?thesis by (simp add: degrade_step_def Let_def)
  qed
  then show ?thesis by (simp add: sizable_def list_all_iff)
qed

lemma page_at_cursor:
  "(case from of None \<Rightarrow> True | Some c \<Rightarrow> btc_cursor_ok c) \<Longrightarrow>
     page_at to_vec cx ch owned budget (map_option cursor_encode from) =
       Option.bind (res_ok (make_plan cx ch owned from)) (\<lambda>p. res_ok (cut_page to_vec p from budget))"
  by (auto simp: page_at_def cursor_parse_encode split: option.splits)

lemma crawl_from:
  assumes ch: "chain_ok ch" and tv: "\<forall>j. to_vec j \<noteq> None" and b: "MAX_OBSERVATION_BYTES < budget"
    and "settled ch from" "case from of None \<Rightarrow> True | Some c \<Rightarrow> btc_cursor_ok c"
    and "list_all (\<lambda>e. is_ok (active cx (snd e) owned)) (entries ch from)"
    and "length (entries ch from) \<le> n"
  shows "\<exists>p pgs. make_plan cx ch owned from = Inr p \<and>
    crawl to_vec cx ch owned budget (Suc n) (map_option cursor_encode from) = Some pgs \<and>
    concat (map pa_observations pgs) = map snd (deliveries to_vec (pl_items p)) \<and>
    set (concat (map pa_degraded pgs)) = set (reports to_vec (pl_items p))"
  using assms(4-)
proof (induction n arbitrary: "from" rule: less_induct)
  case (less n)
  obtain p where p: "make_plan cx ch owned from = Inr p" by (rule make_plan_total [OF less.prems(3)])
  note pe = make_plan_entries [OF p]
  have start: "page_at to_vec cx ch owned budget (map_option cursor_encode from) =
      Option.bind (res_ok (make_plan cx ch owned from)) (\<lambda>p. res_ok (cut_page to_vec p from budget))"
    by (rule page_at_cursor) (rule less.prems(2))
  show ?case
  proof (rule cut_page_cases [OF sizable_total [OF tv, of "pl_items p"] b, of "from"])
    fix pg
    assume pg: "cut_page to_vec p from budget = Inr pg" "pa_next pg = None"
      "pa_observations pg = map snd (deliveries to_vec (pl_items p))"
      "pa_degraded pg = reports to_vec (pl_items p)"
    have "crawl to_vec cx ch owned budget (Suc n) (map_option cursor_encode from) = Some [pg]"
      by (simp add: start p pg)
    then show ?thesis using p pg by auto
  next
    fix pg xs it ys
    assume pg: "cut_page to_vec p from budget = Inr pg" and items: "pl_items p = xs @ it # ys"
      and nx: "pa_next pg = Some (key_cursor (pl_high_water p) (fst it))"
      and obs: "pa_observations pg = map snd (deliveries to_vec (xs @ [it]))"
      and deg: "set (reports to_vec (xs @ [it])) \<subseteq> set (pa_degraded pg)"
        "set (pa_degraded pg) \<subseteq> set (reports to_vec (pl_items p))"
    let ?from = "Some (key_cursor (pl_high_water p) (fst it))"
    have "map (\<lambda>e. (fst e, projr (active cx (snd e) owned))) (entries ch from) = xs @ it # ys"
      using pe(1) items by (simp add: observed_Inr_iff)
    then obtain es e fs where es: "entries ch from = es @ e # fs" and it: "fst it = fst e"
      and fs: "map (\<lambda>e. (fst e, projr (active cx (snd e) owned))) fs = ys"
      by (auto simp: map_eq_append_conv map_eq_Cons_conv)
    have resume: "entries ch ?from = fs" "settled ch ?from"
      using entries_resume [OF ch less.prems(1), of es "fst e" "snd e" fs "pl_high_water p"] es pe(2)
      by (simp_all add: it)
    have cok: "btc_cursor_ok (key_cursor (pl_high_water p) (fst it))"
      using key_cursor_ok [OF ch _ less.prems(2), of "fst e" "snd e"] es by (simp add: it pe(2))
    obtain m where n: "n = Suc m" using less.prems(4) es by (cases n) auto
    have ok: "list_all (\<lambda>e. is_ok (active cx (snd e) owned)) (entries ch ?from)"
      using less.prems(3) by (simp add: es resume(1))
    obtain p' pgs where p': "make_plan cx ch owned ?from = Inr p'"
      and c': "crawl to_vec cx ch owned budget (Suc m) (map_option cursor_encode ?from) = Some pgs"
      and obs': "concat (map pa_observations pgs) = map snd (deliveries to_vec (pl_items p'))"
      and deg': "set (concat (map pa_degraded pgs)) = set (reports to_vec (pl_items p'))"
      using less.IH [of m ?from] resume(2) cok ok less.prems(4) by (auto simp: n es resume(1))
    have ys: "pl_items p' = ys"
      using make_plan_entries(1) [OF p'] fs by (simp add: resume(1) observed_Inr_iff)
    have "crawl to_vec cx ch owned budget (Suc n) (map_option cursor_encode from) = Some (pg # pgs)"
      using c' by (simp add: start p pg nx n)
    moreover have "concat (map pa_observations (pg # pgs)) = map snd (deliveries to_vec (pl_items p))"
      by (simp add: obs obs' ys items deliveries_def List.map_filter_simps split: option.split)
    moreover have "set (concat (map pa_degraded (pg # pgs))) = set (reports to_vec (pl_items p))"
      using deg deg' by (auto simp: ys items reports_def List.map_filter_simps split: option.splits)
    ultimately show ?thesis using p by blast
  qed
qed

lemma entries_bottom_keys:
  assumes "chain_ok ch"
  shows "k \<in> fst ` set (entries ch None) \<longleftrightarrow>
    (case k of KConfirmed h i \<Rightarrow> \<exists>t. map_of (ch_txs ch) i = Some t \<and> tx_height t = Some h
             | KMempool i \<Rightarrow> i \<in> set (ch_mempool ch) \<and> map_of (ch_txs ch) i \<noteq> None)"
proof (cases k)
  case (KConfirmed h i)
  have d: "distinct (map fst (ch_txs ch))" using assms by (simp add: chain_ok_def btree_ok_distinct)
  have t: "tx_txid t = j \<and> j \<noteq> []" if "(j, t) \<in> set (ch_txs ch)" for j t
    using assms that by (auto simp: chain_ok_def list_all_iff is_txid_def)
  then have m: "map_of (ch_txs ch) i = Some t \<longleftrightarrow> (i, t) \<in> set (ch_txs ch)" for t
    by (simp add: d)
  have "k \<in> fst ` set (entries ch None) \<longleftrightarrow>
      (\<exists>e\<in>set (confirmed_entries (ch_txs ch)). beyond (0, []) (fst e) \<and> fst e = k)"
    by (force simp: entries_def mark_of_def mempool_entries_in KConfirmed)
  also have "\<dots> \<longleftrightarrow> (\<exists>t. (i, t) \<in> set (ch_txs ch) \<and> tx_height t = Some h)"
  proof
    assume "\<exists>e\<in>set (confirmed_entries (ch_txs ch)). beyond (0, []) (fst e) \<and> fst e = k"
    then obtain e where "e \<in> set (confirmed_entries (ch_txs ch))" "fst e = KConfirmed h i"
      using KConfirmed by blast
    then obtain j u where "(j, u) \<in> set (ch_txs ch)" "tx_height u = Some h" "tx_txid u = i"
      by (auto simp: confirmed_entries_in)
    with t [of j u] show "\<exists>t. (i, t) \<in> set (ch_txs ch) \<and> tx_height t = Some h" by auto
  next
    assume "\<exists>t. (i, t) \<in> set (ch_txs ch) \<and> tx_height t = Some h"
    then obtain u where u: "(i, u) \<in> set (ch_txs ch)" "tx_height u = Some h" by blast
    then have e: "(KConfirmed h i, u) \<in> set (confirmed_entries (ch_txs ch))"
      using t [OF u(1)] by (force simp: confirmed_entries_in)
    have "[] < i" using t [OF u(1)] by (cases i) simp_all
    then have "beyond (0, []) (KConfirmed h i)" by (cases h) simp_all
    with e show "\<exists>e\<in>set (confirmed_entries (ch_txs ch)). beyond (0, []) (fst e) \<and> fst e = k"
      unfolding KConfirmed by (intro bexI [of _ "(KConfirmed h i, u)"]) simp_all
  qed
  finally show ?thesis by (simp add: KConfirmed m)
next
  case (KMempool i)
  have "k \<in> fst ` set (entries ch None) \<longleftrightarrow> (\<exists>e\<in>set (mempool_entries (ch_txs ch) (ch_mempool ch)). fst e = k)"
    by (force simp: entries_def confirmed_entries_in KMempool)
  also have "\<dots> \<longleftrightarrow> (\<exists>t. i \<in> set (ch_mempool ch) \<and> map_of (ch_txs ch) i = Some t)"
    unfolding mempool_entries_in Bex_def KMempool by (auto simp del: not_None_eq) 
  finally show ?thesis by (simp add: KMempool)
qed

text \<open>C24. A crawl of an unchanged wallet ends, after at most one page more than it has items, and
  loses nothing: provided the reply's budget exceeds the size of one observation and every
  transaction can be mapped, its pages, each resumed from the cursor string of the one before,
  deliver in the order of emission every confirmed transaction and every mempool transaction
  exactly once, except those that stay too large without their \<open>provider_extra\<close>, and exactly
  those are reported as degraded.\<close>

theorem btc_crawl_complete:
  assumes "chain_ok ch" and "\<forall>j. to_vec j \<noteq> None" and "MAX_OBSERVATION_BYTES < budget"
    and "make_plan cx ch owned None = Inr p"
  shows "(\<exists>pgs. crawl to_vec cx ch owned budget (Suc (length (pl_items p))) None = Some pgs \<and>
            concat (map pa_observations pgs) = map snd (deliveries to_vec (pl_items p)) \<and>
            set (concat (map pa_degraded pgs)) = set (reports to_vec (pl_items p))) \<and>
    sorted_wrt (<) (map fst (pl_items p)) \<and>
    (\<forall>k. k \<in> fst ` set (pl_items p) \<longleftrightarrow>
       (case k of KConfirmed h i \<Rightarrow> \<exists>t. map_of (ch_txs ch) i = Some t \<and> tx_height t = Some h
                | KMempool i \<Rightarrow> i \<in> set (ch_mempool ch) \<and> map_of (ch_txs ch) i \<noteq> None))"
proof (intro conjI allI)
  note items = make_plan_entries(1) [OF assms(4), unfolded observed_Inr_iff]
  have keys: "map fst (pl_items p) = map fst (entries ch None)" by (simp add: items)
  then show "sorted_wrt (<) (map fst (pl_items p))" by (simp add: entries_sorted [OF assms(1)])
  have "fst ` set (pl_items p) = fst ` set (entries ch None)" using keys by (metis list.set_map)
  then show "k \<in> fst ` set (pl_items p) \<longleftrightarrow>
      (case k of KConfirmed h i \<Rightarrow> \<exists>t. map_of (ch_txs ch) i = Some t \<and> tx_height t = Some h
               | KMempool i \<Rightarrow> i \<in> set (ch_mempool ch) \<and> map_of (ch_txs ch) i \<noteq> None)" for k
    using entries_bottom_keys [OF assms(1), of k] by simp
  have "length (pl_items p) = length (entries ch None)" using keys by (metis length_map)
  then show "\<exists>pgs. crawl to_vec cx ch owned budget (Suc (length (pl_items p))) None = Some pgs \<and>
      concat (map pa_observations pgs) = map snd (deliveries to_vec (pl_items p)) \<and>
      set (concat (map pa_degraded pgs)) = set (reports to_vec (pl_items p))"
    using crawl_from [OF assms(1-3), of None cx owned "length (pl_items p)"] items assms(4)
    by (auto simp: settled_def)
qed

definition sample_tx :: "char \<Rightarrow> nat option \<Rightarrow> tx" where
  "sample_tx c h =
     \<lparr>tx_txid = replicate 64 c, tx_fee = 10,
      tx_state = \<lparr>st_confirmed = (h \<noteq> None), st_block_height = h, st_block_hash = None, st_block_time = None\<rparr>,
      tx_vin = [], tx_vout = [\<lparr>vo_address = Some ''addr'', vo_value = 7\<rparr>]\<rparr>"

definition sample_chain :: chain_view where
  "sample_chain =
     \<lparr>ch_txs = [(replicate 64 (CHR ''a''), sample_tx (CHR ''a'') (Some 9)),
                (replicate 64 (CHR ''b''), sample_tx (CHR ''b'') (Some 4)),
                (replicate 64 (CHR ''c''), sample_tx (CHR ''c'') None)],
      ch_mempool = [replicate 64 (CHR ''c'')]\<rparr>"

lemma sample_chain_ok: "chain_ok sample_chain"
proof -
  have less: "c < d \<Longrightarrow> replicate 64 c < replicate 64 d" for c d :: char
    by (simp add: numeral_eq_Suc)
  have "is_txid (replicate 64 (CHR ''a''))" "is_txid (replicate 64 (CHR ''b''))" "is_txid (replicate 64 (CHR ''c''))"
    by (simp_all add: is_txid_def lower_hex_def list_all_iff)
  moreover have "replicate 64 (CHR ''a'') < replicate 64 (CHR ''b'')" "replicate 64 (CHR ''b'') < replicate 64 (CHR ''c'')"
    "replicate 64 (CHR ''a'') < replicate 64 (CHR ''c'')"
    by (rule less; simp add: less_char_def)+
  ultimately show ?thesis
    by (simp add: chain_ok_def sample_chain_def btree_ok_def sample_tx_def tx_height_def u64_max_def)
qed

lemma sample_plan: "\<exists>p. make_plan sample_ctx sample_chain [''addr''] None = Inr p"
proof -
  have "is_ok (active sample_ctx t [''addr''])"
    if "t \<in> {sample_tx (CHR ''a'') (Some 9), sample_tx (CHR ''b'') (Some 4), sample_tx (CHR ''c'') None}" for t
    using that
    by (intro active_total)
      (auto simp: amounts_fit_def sample_tx_def net_delta_def wallet_spent_def spent_outputs_def is_owned_def
        List.map_filter_simps MAX_DIGITS_def)
  then have "list_all (\<lambda>e. is_ok (active sample_ctx (snd e) [''addr''])) (entries sample_chain None)"
    by (auto simp: list_all_iff entries_def confirmed_entries_in mempool_entries_in sample_chain_def
        dest!: map_of_SomeD)
  from make_plan_total [OF this] show ?thesis by blast
qed

theorem btc_crawl_complete_witness:
  "\<exists>p pgs. make_plan sample_ctx sample_chain [''addr''] None = Inr p \<and>
     crawl (\<lambda>j. Some MAX_OBSERVATION_BYTES) sample_ctx sample_chain [''addr''] (MAX_OBSERVATION_BYTES + 1)
       (Suc (length (pl_items p))) None = Some pgs \<and>
     concat (map pa_observations pgs) = map snd (deliveries (\<lambda>j. Some MAX_OBSERVATION_BYTES) (pl_items p))"
proof -
  obtain p where p: "make_plan sample_ctx sample_chain [''addr''] None = Inr p"
    using sample_plan by blast
  show ?thesis
    using btc_crawl_complete [OF sample_chain_ok _ _ p, of "\<lambda>j. Some MAX_OBSERVATION_BYTES" "MAX_OBSERVATION_BYTES + 1"] p
    by auto
qed

end
