(* ===== verification/Sha256.thy ===== *)
theory Sha256
  imports Prelude
begin

unbundle bit_operations_syntax

text \<open>
  The adapter's own SHA-256 (\<open>sha256_hex\<close> in \<open>adapters/bitcoin/src/wallet.rs\<close>) on 32-bit words:
  the padding loop, the message schedule, the 64 rounds, and the hexadecimal digest. It is total
  for messages of any length; the digest is always 64 lower-case hex digits.
\<close>

text \<open>The round constants, written like the source in two groups of hexadecimal digits.\<close>

definition SHA256_K :: "32 word list" where
  "SHA256_K =
     map (\<lambda>(hi, lo). hi * 2 ^ 16 + lo)
       [(0x428a, 0x2f98), (0x7137, 0x4491), (0xb5c0, 0xfbcf), (0xe9b5, 0xdba5),
        (0x3956, 0xc25b), (0x59f1, 0x11f1), (0x923f, 0x82a4), (0xab1c, 0x5ed5),
        (0xd807, 0xaa98), (0x1283, 0x5b01), (0x2431, 0x85be), (0x550c, 0x7dc3),
        (0x72be, 0x5d74), (0x80de, 0xb1fe), (0x9bdc, 0x06a7), (0xc19b, 0xf174),
        (0xe49b, 0x69c1), (0xefbe, 0x4786), (0x0fc1, 0x9dc6), (0x240c, 0xa1cc),
        (0x2de9, 0x2c6f), (0x4a74, 0x84aa), (0x5cb0, 0xa9dc), (0x76f9, 0x88da),
        (0x983e, 0x5152), (0xa831, 0xc66d), (0xb003, 0x27c8), (0xbf59, 0x7fc7),
        (0xc6e0, 0x0bf3), (0xd5a7, 0x9147), (0x06ca, 0x6351), (0x1429, 0x2967),
        (0x27b7, 0x0a85), (0x2e1b, 0x2138), (0x4d2c, 0x6dfc), (0x5338, 0x0d13),
        (0x650a, 0x7354), (0x766a, 0x0abb), (0x81c2, 0xc92e), (0x9272, 0x2c85),
        (0xa2bf, 0xe8a1), (0xa81a, 0x664b), (0xc24b, 0x8b70), (0xc76c, 0x51a3),
        (0xd192, 0xe819), (0xd699, 0x0624), (0xf40e, 0x3585), (0x106a, 0xa070),
        (0x19a4, 0xc116), (0x1e37, 0x6c08), (0x2748, 0x774c), (0x34b0, 0xbcb5),
        (0x391c, 0x0cb3), (0x4ed8, 0xaa4a), (0x5b9c, 0xca4f), (0x682e, 0x6ff3),
        (0x748f, 0x82ee), (0x78a5, 0x636f), (0x84c8, 0x7814), (0x8cc7, 0x0208),
        (0x90be, 0xfffa), (0xa450, 0x6ceb), (0xbef9, 0xa3f7), (0xc671, 0x78f2)]"

definition SHA256_H :: "32 word list" where
  "SHA256_H =
     [0x6a09e667, 0xbb67ae85, 0x3c6ef372, 0xa54ff53a, 0x510e527f, 0x9b05688c, 0x1f83d9ab, 0x5be0cd19]"

section \<open>Padding\<close>

function pad_zeros :: "string \<Rightarrow> string" where
  "pad_zeros p = (if length p mod 64 \<noteq> 56 then pad_zeros (p @ [CHR 0x00]) else p)"
  by pat_completeness auto

termination
proof (relation "measure (\<lambda>p. (120 - length p mod 64) mod 64)")
  fix p :: string
  assume "length p mod 64 \<noteq> 56"
  define r where "r = length p mod 64"
  have r: "r < 64" "r \<noteq> 56" using \<open>length p mod 64 \<noteq> 56\<close> by (simp_all add: r_def)
  have "(length p + 1) mod 64 = (if r = 63 then 0 else r + 1)" by (simp add: r_def mod_Suc)
  moreover have "(120 - (if r = 63 then 0 else r + 1)) mod 64 < (120 - r) mod (64 :: nat)"
  proof (cases "r < 56")
    case True
    then have "(120 - r) mod 64 = 56 - r" "(120 - (r + 1)) mod 64 = 56 - (r + 1)"
      by (simp_all add: le_mod_geq)
    with True show ?thesis by simp
  qed (use r in auto)
  ultimately have "(120 - (length p + 1) mod 64) mod 64 < (120 - length p mod 64) mod 64" by (simp add: r_def)
  then show "(p @ [CHR 0x00], p) \<in> measure (\<lambda>p. (120 - length p mod 64) mod 64)" by simp
qed simp

declare pad_zeros.simps [simp del]

definition be_bytes :: "nat \<Rightarrow> nat \<Rightarrow> string" where
  "be_bytes k n = map (\<lambda>i. char_of (n div 256 ^ (k - 1 - i))) [0..<k]"

definition from_be_bytes :: "string \<Rightarrow> nat" where
  "from_be_bytes bs = foldl (\<lambda>acc c. acc * 256 + of_char c) 0 bs"

definition bit_len :: "string \<Rightarrow> 64 word" where
  "bit_len msg = word_of_int (if int (length msg) < 2 ^ 64 then int (length msg) else 2 ^ 64 - 1) * 8"

definition padded :: "string \<Rightarrow> string" where
  "padded msg = pad_zeros (msg @ [CHR 0x80]) @ be_bytes 8 (unat (bit_len msg))"

text \<open>\<open>as_chunks::<N>().0\<close>: the whole chunks, a shorter rest left out.\<close>

function chunks :: "nat \<Rightarrow> 'a list \<Rightarrow> 'a list list" where
  "chunks n xs = (if n = 0 \<or> length xs < n then [] else take n xs # chunks n (drop n xs))"
  by pat_completeness auto

termination
  by (relation "measure (\<lambda>(n, xs). length xs)") auto

declare chunks.simps [simp del]

section \<open>One block\<close>

definition schedule_word :: "32 word list \<Rightarrow> nat \<Rightarrow> 32 word" where
  "schedule_word w i =
     (let x = w ! (i - 15); y = w ! (i - 2);
          s0 = word_rotr 7 x XOR word_rotr 18 x XOR drop_bit 3 x;
          s1 = word_rotr 17 y XOR word_rotr 19 y XOR drop_bit 10 y
      in w ! (i - 16) + s0 + w ! (i - 7) + s1)"

definition schedule :: "string \<Rightarrow> 32 word list" where
  "schedule block =
     foldl (\<lambda>w i. w[i := schedule_word w i])
       (map (\<lambda>c. word_of_int (int (from_be_bytes c))) (chunks 4 block) @ replicate 48 0) [16..<64]"

fun sha_round ::
  "32 word \<times> 32 word \<times> 32 word \<times> 32 word \<times> 32 word \<times> 32 word \<times> 32 word \<times> 32 word \<Rightarrow> 32 word \<times> 32 word \<Rightarrow>
   32 word \<times> 32 word \<times> 32 word \<times> 32 word \<times> 32 word \<times> 32 word \<times> 32 word \<times> 32 word" where
  "sha_round (a, b, c, d, e, f, g, hh) (k, wi) =
     (let s1 = word_rotr 6 e XOR word_rotr 11 e XOR word_rotr 25 e;
          ch = (e AND f) XOR (NOT e AND g);
          t1 = hh + s1 + ch + k + wi;
          s0 = word_rotr 2 a XOR word_rotr 13 a XOR word_rotr 22 a;
          maj = (a AND b) XOR (a AND c) XOR (b AND c);
          t2 = s0 + maj
      in (t1 + t2, a, b, c, d + t1, e, f, g))"

definition compress :: "32 word list \<Rightarrow> string \<Rightarrow> 32 word list" where
  "compress h block =
     (let (a, b, c, d, e, f, g, hh) =
            foldl sha_round (h ! 0, h ! 1, h ! 2, h ! 3, h ! 4, h ! 5, h ! 6, h ! 7)
              (zip SHA256_K (schedule block))
      in map2 (+) h [a, b, c, d, e, f, g, hh])"

section \<open>The digest\<close>

definition hex_digit :: "nat \<Rightarrow> char" where
  "hex_digit n = (if n < 10 then char_of (48 + n) else char_of (87 + n))"

definition hex8 :: "32 word \<Rightarrow> string" where
  "hex8 w = map (\<lambda>i. hex_digit (unat w div 16 ^ (7 - i) mod 16)) [0..<8]"

definition sha256_hex :: "string \<Rightarrow> string" where
  "sha256_hex msg = concat (map hex8 (foldl compress SHA256_H (chunks 64 (padded msg))))"

lemma pad_zeros_length: "length (pad_zeros p) mod 64 = 56"
proof (induction p rule: pad_zeros.induct)
  case (1 p)
  then show ?case by (cases "length p mod 64 = 56") (simp_all add: pad_zeros.simps [of p])
qed

lemma length_compress [simp]: "length h = 8 \<Longrightarrow> length (compress h block) = 8"
  by (simp add: compress_def split: prod.split)

lemma length_digest: "length h = 8 \<Longrightarrow> length (foldl compress h bs) = 8"
  by (induction bs arbitrary: h) simp_all

text \<open>Every message is hashed whole: padding reaches a block boundary, so no byte is left over.\<close>

lemma padded_blocks: "length (padded msg) mod 64 = 0"
proof -
  have "length (padded msg) = length (pad_zeros (msg @ [CHR 0x80])) + 8" by (simp add: padded_def be_bytes_def)
  then show ?thesis using pad_zeros_length [of "msg @ [CHR 0x80]"] by presburger
qed

lemma chunks_concat: "0 < n \<Longrightarrow> length xs mod n = 0 \<Longrightarrow> concat (chunks n xs) = xs"
proof (induction n xs rule: chunks.induct)
  case (1 n xs)
  show ?case
  proof (cases "length xs < n")
    case True
    then have "xs = []" using 1(3) by simp
    then show ?thesis using 1(2) by (simp add: chunks.simps [of n "[]"])
  next
    case False
    then have "length (drop n xs) mod n = 0" using 1(3) by (simp add: mod_if)
    then show ?thesis using 1 False by (simp add: chunks.simps [of n xs])
  qed
qed

lemma sha256_consumes: "concat (chunks 64 (padded msg)) = padded msg"
  by (rule chunks_concat) (simp_all add: padded_blocks)

lemma sha256_length: "length (sha256_hex msg) = 64"
proof -
  let ?h = "foldl compress SHA256_H (chunks 64 (padded msg))"
  have l: "length ?h = 8" by (rule length_digest) (simp add: SHA256_H_def)
  have "length (concat (map hex8 ws)) = 8 * length ws" for ws
    by (induction ws) (simp_all add: hex8_def)
  then show ?thesis by (simp add: sha256_hex_def l)
qed

end
