(* ===== verification/Rust_Text.thy ===== *)
theory Rust_Text
  imports Bitcoin_Map Framing
begin

text \<open>
  The text operations of the Rust standard library that the Bitcoin adapter uses, on UTF-8
  bytes: character boundaries, \<open>chars().take(n)\<close>, \<open>trim\<close>, \<open>parse\<close> of integers, \<open>Path::join\<close>.
\<close>

section \<open>Characters\<close>

definition cont_byte :: "char \<Rightarrow> bool" where
  "cont_byte c \<longleftrightarrow> 128 \<le> (of_char c :: nat) \<and> (of_char c :: nat) < 192"

definition is_char_boundary :: "string \<Rightarrow> nat \<Rightarrow> bool" where
  "is_char_boundary s i \<longleftrightarrow> i = 0 \<or> i = length s \<or> (i < length s \<and> \<not> cont_byte (s ! i))"

fun take_chars :: "nat \<Rightarrow> string \<Rightarrow> string" where
  "take_chars n [] = []"
| "take_chars n (c # cs) =
     (if cont_byte c then c # take_chars n cs
      else if n = 0 then []
      else c # take_chars (n - 1) cs)"

section \<open>Whitespace\<close>

text \<open>The code points of the Unicode property \<open>White_Space\<close>, in UTF-8.\<close>

definition white_space :: "string list" where
  "white_space =
     [[CHR 0x09], [CHR 0x0A], [CHR 0x0B], [CHR 0x0C], [CHR 0x0D], [CHR 0x20],
      [CHR 0xC2, CHR 0x85], [CHR 0xC2, CHR 0xA0], [CHR 0xE1, CHR 0x9A, CHR 0x80],
      [CHR 0xE2, CHR 0x80, CHR 0x80], [CHR 0xE2, CHR 0x80, CHR 0x81], [CHR 0xE2, CHR 0x80, CHR 0x82],
      [CHR 0xE2, CHR 0x80, CHR 0x83], [CHR 0xE2, CHR 0x80, CHR 0x84], [CHR 0xE2, CHR 0x80, CHR 0x85],
      [CHR 0xE2, CHR 0x80, CHR 0x86], [CHR 0xE2, CHR 0x80, CHR 0x87], [CHR 0xE2, CHR 0x80, CHR 0x88],
      [CHR 0xE2, CHR 0x80, CHR 0x89], [CHR 0xE2, CHR 0x80, CHR 0x8A], [CHR 0xE2, CHR 0x80, CHR 0xA8],
      [CHR 0xE2, CHR 0x80, CHR 0xA9], [CHR 0xE2, CHR 0x80, CHR 0xAF], [CHR 0xE2, CHR 0x81, CHR 0x9F],
      [CHR 0xE3, CHR 0x80, CHR 0x80]]"

lemma drop_shorter: "w \<noteq> [] \<Longrightarrow> take (length w) s = w \<Longrightarrow> length (drop (length w) s) < length s"
  by (cases s; cases w) auto

function strip_front :: "string list \<Rightarrow> string \<Rightarrow> string" where
  "strip_front ws s =
     (case List.find (\<lambda>w. w \<noteq> [] \<and> take (length w) s = w) ws of
        None \<Rightarrow> s
      | Some w \<Rightarrow> strip_front ws (drop (length w) s))"
  by pat_completeness auto

termination
  by (relation "measure (\<lambda>(ws, s). length s)") (auto dest!: find_SomeD drop_shorter simp del: length_drop)

declare strip_front.simps [simp del]

definition trim :: "string \<Rightarrow> string" where
  "trim s = rev (strip_front (map rev white_space) (rev (strip_front white_space s)))"

section \<open>Integers\<close>

definition parse_unsigned :: "int \<Rightarrow> string \<Rightarrow> nat option" where
  "parse_unsigned hi s =
     (let ds = (case s of c # cs \<Rightarrow> if c = CHR ''+'' then cs else s | [] \<Rightarrow> s) in
      if ds \<noteq> [] \<and> list_all is_digit ds \<and> int (undec ds) \<le> hi then Some (undec ds) else None)"

definition parse_signed :: "int \<Rightarrow> int \<Rightarrow> string \<Rightarrow> int option" where
  "parse_signed lo hi s =
     (let (neg, ds) = (case s of
            c # cs \<Rightarrow> if c = CHR ''-'' then (True, cs) else if c = CHR ''+'' then (False, cs) else (False, s)
          | [] \<Rightarrow> (False, s));
          n = (if neg then - int (undec ds) else int (undec ds)) in
      if ds \<noteq> [] \<and> list_all is_digit ds \<and> lo \<le> n \<and> n \<le> hi then Some n else None)"

lemma parse_signed_show_int: "lo \<le> n \<Longrightarrow> n \<le> hi \<Longrightarrow> parse_signed lo hi (show_int n) = Some n"
proof (cases "n < 0")
  case True
  assume "lo \<le> n" "n \<le> hi"
  with True show ?thesis
    using dec_digits [of "nat (- n)"] by (simp add: parse_signed_def show_int_def list_all_iff)
next
  case False
  assume b: "lo \<le> n" "n \<le> hi"
  obtain c cs where d: "dec (nat n) = c # cs" by (cases "dec (nat n)") simp_all
  have "is_digit c" using dec_digits [of "nat n"] d by simp
  then have c: "c \<noteq> CHR ''-''" "c \<noteq> CHR ''+''" by auto
  have "undec (c # cs) = nat n" "\<forall>x\<in>set (c # cs). is_digit x"
    using undec_dec [of "nat n"] dec_digits [of "nat n"] by (simp_all only: d)
  with False b c show ?thesis by (simp add: parse_signed_def show_int_def d list_all_iff)
qed

section \<open>Paths\<close>

definition path_join :: "string \<Rightarrow> string \<Rightarrow> string" where
  "path_join dir name =
     (if take 1 name = ''/'' then name
      else if dir = [] \<or> last dir = CHR ''/'' then dir @ name
      else dir @ ''/'' @ name)"

text \<open>\<open>read_to_string\<close>: a file that is there and is UTF-8.\<close>

type_synonym files = "string \<Rightarrow> string option"

definition read_to_string :: "files \<Rightarrow> string \<Rightarrow> string option" where
  "read_to_string fs p = (case fs p of None \<Rightarrow> None | Some b \<Rightarrow> if utf8 b then Some b else None)"

end
