(* ===== verification/Esplora.thy ===== *)
theory Esplora
  imports Rust_Text
begin

text \<open>
  Where the Bitcoin adapter's chain data comes from (\<open>adapters/bitcoin/src/source.rs\<close>): an
  Esplora deployment over HTTP, or a corpus of recorded responses on disk. The HTTP client, the
  clock, the JSON reader and whether a file can be written are parameters; the network may answer
  the same request differently each time, so it carries a state of its own. The loop over the
  pages of an address may run forever, which is the value \<^const>\<open>None\<close>.
\<close>

section \<open>Fetch outcomes\<close>

datatype fetch_error =
    FetchRateLimited nat (fetch_detail: provider_detail)
  | FetchUnavailable (fetch_detail: provider_detail)

datatype fetched = FetchedBody string | FetchedNotFound

definition fetch_unavailable :: "string \<Rightarrow> string \<Rightarrow> json \<Rightarrow> fetch_error" where
  "fetch_unavailable code msg raw = FetchUnavailable \<lparr>pd_code = code, pd_message = msg, pd_raw = raw\<rparr>"

definition DEFAULT_RETRY_AFTER_MS :: nat where "DEFAULT_RETRY_AFTER_MS = 60000"
definition CHAIN_PAGE :: nat where "CHAIN_PAGE = 25"
definition MAX_DETAIL_BODY :: nat where "MAX_DETAIL_BODY = 4096"

section \<open>The outside world\<close>

record response =
  rp_status :: nat
  rp_retry_after :: "string option"
  rp_body :: "string + string"

text \<open>
  The parameters: one exchange with the HTTP client, the clock, the JSON reader and writers with the
  texts of their errors, Rust's \<open>Debug\<close> of a string, and the outcomes of file operations: whether a
  directory can be made, whether a file can be opened for writing, after how many bytes a write
  stops short, if it does, and whether a file can be renamed.
\<close>

record 'w btc_env =
  ev_call :: "'w \<Rightarrow> string \<Rightarrow> (string + response) \<times> 'w"
  ev_clock :: "'w \<Rightarrow> nat option"
  ev_from_str :: "string \<Rightarrow> string + json"
  ev_to_string :: "json \<Rightarrow> string option"
  ev_to_pretty :: "json \<Rightarrow> string option"
  ev_de_text :: "de_error \<Rightarrow> string"
  ev_json_text :: string
  ev_debug :: "string \<Rightarrow> string"
  ev_mkdir :: "string \<Rightarrow> bool"
  ev_open :: "string \<Rightarrow> bool"
  ev_short :: "string \<Rightarrow> string \<Rightarrow> nat option"
  ev_rename :: "string \<Rightarrow> string \<Rightarrow> bool"

record 'w world =
  wo_net :: 'w
  wo_files :: files

datatype source = Http string "string option" | Replay string "int option"

definition source_http :: "string \<Rightarrow> string option \<Rightarrow> source" where
  "source_http base_url rec = Http (rev (dropWhile ((=) (CHR ''/'')) (rev base_url))) rec"

definition source_replay :: "files \<Rightarrow> string \<Rightarrow> nat \<Rightarrow> source" where
  "source_replay fs corpus run =
     (let dir = path_join corpus (''run'' @ dec run) in
      Replay dir
        (Option.bind (read_to_string fs (path_join dir ''now'')) (\<lambda>s. parse_signed (- (2 ^ 63)) (2 ^ 63 - 1) (trim s))))"

definition source_provider_id :: "source \<Rightarrow> string" where
  "source_provider_id src = (case src of Http base _ \<Rightarrow> base | Replay dir _ \<Rightarrow> ''file:'' @ dir)"

definition source_now :: "'w btc_env \<Rightarrow> source \<Rightarrow> 'w world \<Rightarrow> int" where
  "source_now env src w =
     (case src of
        Replay _ (Some t) \<Rightarrow> t
      | _ \<Rightarrow> (case ev_clock env (wo_net w) of
                None \<Rightarrow> 0
              | Some secs \<Rightarrow> if int secs < 2 ^ 63 then int secs else 0))"

section \<open>Status to outcome\<close>

fun boundary_down :: "string \<Rightarrow> nat \<Rightarrow> nat" where
  "boundary_down s 0 = 0"
| "boundary_down s (Suc n) = (if is_char_boundary s (Suc n) then Suc n else boundary_down s n)"

definition cap_body :: "string \<Rightarrow> string" where
  "cap_body body =
     (if length body \<le> MAX_DETAIL_BODY then body
      else take (boundary_down body MAX_DETAIL_BODY) body @ '' [truncated: '' @ dec (length body) @ '' bytes]'')"

definition classify_detail :: "nat \<Rightarrow> string \<Rightarrow> string \<Rightarrow> string \<Rightarrow> provider_detail" where
  "classify_detail status capped path code =
     \<lparr>pd_code = code, pd_message = path @ '': HTTP '' @ dec status,
      pd_raw = JObj (btree_of [(''status'', JInt (int status)), (''body'', JStr capped)])\<rparr>"

definition classify :: "nat \<Rightarrow> string \<Rightarrow> nat option \<Rightarrow> string \<Rightarrow> fetch_error + fetched" where
  "classify status body retry_after path =
     (if status = 200 then Inr (FetchedBody body)
      else if status = 404 then Inr FetchedNotFound
      else
        let detail = classify_detail status (cap_body body) path in
        if status = 429 then
          Inl (FetchRateLimited (case retry_after of None \<Rightarrow> DEFAULT_RETRY_AFTER_MS | Some ms \<Rightarrow> ms) (detail ''http_429''))
        else Inl (FetchUnavailable (detail (''http_'' @ dec status))))"

text \<open>\<open>HeaderValue::to_str\<close>: visible ASCII and tabs.\<close>

definition header_str :: "string \<Rightarrow> string option" where
  "header_str v =
     (if list_all (\<lambda>c. of_char c = (9::nat) \<or> (32 \<le> (of_char c :: nat) \<and> (of_char c :: nat) < 127)) v
      then Some v else None)"

definition retry_after_header :: "string option \<Rightarrow> nat option" where
  "retry_after_header h =
     map_option (\<lambda>secs. if int (secs * 1000) \<le> u64_max then secs * 1000 else nat u64_max)
       (Option.bind (Option.bind h header_str) (\<lambda>v. parse_u64 (trim v)))"

definition http_get ::
  "'w btc_env \<Rightarrow> string \<Rightarrow> string \<Rightarrow> 'w world \<Rightarrow> (fetch_error + fetched) \<times> 'w world" where
  "http_get env url path w =
     (case ev_call env (wo_net w) url of
        (Inl e, net) \<Rightarrow> (Inl (fetch_unavailable ''transport'' (path @ '': '' @ e) JNull), w\<lparr>wo_net := net\<rparr>)
      | (Inr r, net) \<Rightarrow>
          (let body = (case rp_body r of Inr b \<Rightarrow> b | Inl e \<Rightarrow> ''<body unreadable: '' @ e @ ''>'') in
           (classify (rp_status r) body (retry_after_header (rp_retry_after r)) path, w\<lparr>wo_net := net\<rparr>)))"

section \<open>The corpus on disk\<close>

definition corpus_name :: "string \<Rightarrow> string" where
  "corpus_name path = map (\<lambda>c. if c = CHR ''/'' then CHR ''_'' else c) (dropWhile ((=) (CHR ''/'')) path)"

definition json_file :: "string \<Rightarrow> string \<Rightarrow> string" where
  "json_file dir path = path_join dir (corpus_name path @ ''.json'')"

definition status_file :: "string \<Rightarrow> string \<Rightarrow> string" where
  "status_file dir path = path_join dir (corpus_name path @ ''.status'')"

definition newline :: char where "newline = CHR 0x0A"

definition replay_get :: "files \<Rightarrow> string \<Rightarrow> string \<Rightarrow> fetch_error + fetched" where
  "replay_get fs dir path =
     (case read_to_string fs (json_file dir path) of
        Some body \<Rightarrow> Inr (FetchedBody body)
      | None \<Rightarrow>
          (case read_to_string fs (status_file dir path) of
             Some raw \<Rightarrow>
               (let (head, body) = (case split_once [newline] raw of Some hb \<Rightarrow> hb | None \<Rightarrow> (raw, [])) in
                case parse_unsigned (2 ^ 16 - 1) (trim head) of
                  None \<Rightarrow>
                    Inl (fetch_unavailable ''corpus_malformed''
                           (status_file dir path @ '': first line is not an HTTP status'') JNull)
                | Some status \<Rightarrow> classify status body None path)
           | None \<Rightarrow>
               Inl (fetch_unavailable ''corpus_missing''
                      (path @ '': no recorded response ('' @ json_file dir path @ '' or '' @ status_file dir path @ '')'')
                      JNull)))"

definition recording :: "string \<Rightarrow> string \<Rightarrow> fetch_error + fetched \<Rightarrow> (string \<times> string) option" where
  "recording dir path out =
     (case out of
        Inr (FetchedBody body) \<Rightarrow> Some (json_file dir path, body)
      | Inr FetchedNotFound \<Rightarrow> Some (status_file dir path, ''404'' @ [newline])
      | Inl e \<Rightarrow>
          (let raw = pd_raw (fetch_detail e);
               body = (case Option.bind (json_get ''body'' raw) json_str of None \<Rightarrow> [] | Some b \<Rightarrow> b) in
           case Option.bind (json_get ''status'' raw) json_u64 of
             Some s \<Rightarrow> Some (status_file dir path, dec s @ [newline] @ body)
           | None \<Rightarrow> None))"

text \<open>\<open>std::fs::write\<close>: success, and the files as they are then.\<close>

definition write_file :: "'w btc_env \<Rightarrow> string \<Rightarrow> string \<Rightarrow> files \<Rightarrow> bool \<times> files" where
  "write_file env p contents fs =
     (if ev_open env p then
        (case ev_short env p contents of
           None \<Rightarrow> (True, fs(p \<mapsto> contents))
         | Some n \<Rightarrow> (False, fs(p \<mapsto> take n contents)))
      else (False, fs))"

definition record_response ::
  "'w btc_env \<Rightarrow> string \<Rightarrow> string \<Rightarrow> fetch_error + fetched \<Rightarrow> files \<Rightarrow> files" where
  "record_response env dir path out fs =
     (case recording dir path out of
        None \<Rightarrow> fs
      | Some (file, contents) \<Rightarrow> if ev_mkdir env dir then snd (write_file env file contents fs) else fs)"

section \<open>Requests\<close>

definition source_get ::
  "'w btc_env \<Rightarrow> source \<Rightarrow> string \<Rightarrow> 'w world \<Rightarrow> (fetch_error + fetched) \<times> 'w world" where
  "source_get env src path w =
     (case src of
        Http base rec \<Rightarrow>
          (let (out, w) = http_get env (base @ path) path w in
           (out, case rec of
                   None \<Rightarrow> w
                 | Some dir \<Rightarrow> w\<lparr>wo_files := record_response env dir path out (wo_files w)\<rparr>))
      | Replay dir _ \<Rightarrow> (replay_get (wo_files w) dir path, w))"

definition read_body :: "'w btc_env \<Rightarrow> (json \<Rightarrow> de_error + 'a) \<Rightarrow> string \<Rightarrow> fetched \<Rightarrow> fetch_error + 'a" where
  "read_body env dcd path f =
     (case f of
        FetchedNotFound \<Rightarrow>
          Inl (fetch_unavailable ''http_404'' (path @ '': not found, where a body was required'') JNull)
      | FetchedBody body \<Rightarrow>
          map_err (\<lambda>e. fetch_unavailable ''unparseable_body'' (path @ '': '' @ e) (JStr (take_chars 512 body)))
            (res_bind (ev_from_str env body) (\<lambda>j. map_err (ev_de_text env) (dcd j))))"

definition get_json ::
  "'w btc_env \<Rightarrow> source \<Rightarrow> (json \<Rightarrow> de_error + 'a) \<Rightarrow> string \<Rightarrow> 'w world \<Rightarrow> (fetch_error + 'a) \<times> 'w world" where
  "get_json env src dcd path w =
     (case source_get env src path w of (out, w) \<Rightarrow> (res_bind out (read_body env dcd path), w))"

definition fetch_address_stats ::
  "'w btc_env \<Rightarrow> source \<Rightarrow> string \<Rightarrow> 'w world \<Rightarrow> (fetch_error + address_stats) \<times> 'w world" where
  "fetch_address_stats env src address = get_json env src de_address_stats (''/address/'' @ address)"

definition address_mempool ::
  "'w btc_env \<Rightarrow> source \<Rightarrow> string \<Rightarrow> 'w world \<Rightarrow> (fetch_error + tx list) \<times> 'w world" where
  "address_mempool env src address = get_json env src (de_vec de_tx) (''/address/'' @ address @ ''/txs/mempool'')"

definition chain_path :: "string \<Rightarrow> string option \<Rightarrow> string" where
  "chain_path address last_seen =
     (case last_seen of
        None \<Rightarrow> ''/address/'' @ address @ ''/txs/chain''
      | Some t \<Rightarrow> ''/address/'' @ address @ ''/txs/chain/'' @ t)"

partial_function (option) chain_loop ::
  "'w btc_env \<Rightarrow> source \<Rightarrow> string \<Rightarrow> string option \<Rightarrow> tx list \<Rightarrow> 'w world \<Rightarrow>
   ((fetch_error + tx list) \<times> 'w world) option" where
  "chain_loop env src address last_seen out w =
     (case get_json env src (de_vec de_tx) (chain_path address last_seen) w of
        (Inl e, w) \<Rightarrow> Some (Inl e, w)
      | (Inr page, w) \<Rightarrow>
          if page = [] then Some (Inr out, w)
          else if length page < CHAIN_PAGE then Some (Inr (out @ page), w)
          else if last_seen = Some (tx_txid (last page)) then
            Some (Inl (fetch_unavailable ''pagination_stalled''
                         (chain_path address last_seen @ '': the listing did not advance past '' @ tx_txid (last page))
                         JNull), w)
          else chain_loop env src address (Some (tx_txid (last page))) (out @ page) w)"

definition address_chain ::
  "'w btc_env \<Rightarrow> source \<Rightarrow> string \<Rightarrow> 'w world \<Rightarrow> ((fetch_error + tx list) \<times> 'w world) option" where
  "address_chain env src address = chain_loop env src address None []"

end
