(* ===== verification/Wallet.thy ===== *)
theory Wallet
  imports Esplora Sha256
begin

text \<open>
  The watch-only wallets of the Bitcoin adapter (\<open>adapters/bitcoin/src/wallet.rs\<close>): the wallet
  file and its validation, the sync that gathers everything a crawl is planned from, and the two
  balances. The texts of the rejections are the reasons they were formatted from.
\<close>

section \<open>The wallet file\<close>

record wallet =
  wl_resource_id :: string
  wl_label :: string
  wl_addresses :: "string list"
  wl_owned :: "string list"
  wl_address_hash :: string

record wallet_file =
  wf_resource_id :: string
  wf_label :: "string option"
  wf_addresses :: "string list"

definition de_wallet_file :: "json \<Rightarrow> de_error + wallet_file" where
  "de_wallet_file =
     de_lenient [''resource_id'', ''label'', ''addresses'']
       (\<lambda>get.
          res_bind (req get ''resource_id'' de_string) (\<lambda>r.
          res_bind (dflt get ''label'' None (de_option de_string)) (\<lambda>l.
          res_bind (req get ''addresses'' (de_vec de_string)) (\<lambda>a.
          Inr \<lparr>wf_resource_id = r, wf_label = l, wf_addresses = a\<rparr>))))"

definition de_config_file :: "json \<Rightarrow> de_error + wallet_file list" where
  "de_config_file = de_lenient [''wallets''] (\<lambda>get. req get ''wallets'' (de_vec de_wallet_file))"

datatype config_error =
    ConfigUnreadable
  | ConfigUnparseable
  | NoWallets
  | BadResourceId string
  | RepeatedResourceId string
  | NoAddresses string
  | BadAddress string string
  | RepeatedAddress string

definition resource_id_ok :: "string \<Rightarrow> bool" where
  "resource_id_ok r \<longleftrightarrow>
     r \<noteq> [] \<and> length r \<le> 64 \<and> r \<noteq> ''.'' \<and> r \<noteq> ''..'' \<and>
     list_all (\<lambda>c. ascii_alphanumeric c \<or> c \<in> set ''._-'') r"

definition address_ok :: "string \<Rightarrow> bool" where
  "address_ok a \<longleftrightarrow> 10 \<le> length a \<and> length a \<le> 100 \<and> list_all ascii_alphanumeric a"

definition join_lines :: "string list \<Rightarrow> string" where
  "join_lines xs = concat (case xs of [] \<Rightarrow> [] | y # ys \<Rightarrow> y # map (\<lambda>z. newline # z) ys)"

definition check_wallet :: "wallet list \<Rightarrow> wallet_file \<Rightarrow> config_error + wallet" where
  "check_wallet out w =
     (if \<not> resource_id_ok (wf_resource_id w) then Inl (BadResourceId (wf_resource_id w))
      else if list_ex (\<lambda>v. wl_resource_id v = wf_resource_id w) out then Inl (RepeatedResourceId (wf_resource_id w))
      else if wf_addresses w = [] then Inl (NoAddresses (wf_resource_id w))
      else (case List.find (\<lambda>a. \<not> address_ok a) (wf_addresses w) of
              Some a \<Rightarrow> Inl (BadAddress (wf_resource_id w) a)
            | None \<Rightarrow>
                let owned = btree_set (wf_addresses w) in
                if length owned \<noteq> length (wf_addresses w) then Inl (RepeatedAddress (wf_resource_id w))
                else Inr \<lparr>wl_resource_id = wf_resource_id w,
                          wl_label = (case wf_label w of None \<Rightarrow> wf_resource_id w | Some l \<Rightarrow> l),
                          wl_addresses = owned, wl_owned = owned,
                          wl_address_hash = sha256_hex (join_lines owned)\<rparr>))"

fun check_wallets :: "wallet list \<Rightarrow> wallet_file list \<Rightarrow> config_error + wallet list" where
  "check_wallets out [] = Inr out"
| "check_wallets out (w # ws) = res_bind (check_wallet out w) (\<lambda>v. check_wallets (out @ [v]) ws)"

definition load_wallets :: "(string \<Rightarrow> string + json) \<Rightarrow> files \<Rightarrow> string \<Rightarrow> config_error + wallet list" where
  "load_wallets from_str fs path =
     res_bind (ok_or ConfigUnreadable (read_to_string fs path)) (\<lambda>raw.
     res_bind (map_err (\<lambda>_. ConfigUnparseable) (from_str raw)) (\<lambda>j.
     res_bind (map_err (\<lambda>_. ConfigUnparseable) (de_config_file j)) (\<lambda>ws.
     if ws = [] then Inl NoWallets else check_wallets [] ws)))"

section \<open>One sync\<close>

type_synonym chain_txs = "(string, tx) btree_map"

definition malformed_txid :: "string \<Rightarrow> tx \<Rightarrow> fetch_error" where
  "malformed_txid address t =
     FetchUnavailable
       \<lparr>pd_code = ''malformed_txid'',
        pd_message = address @ '': listing carried a txid that is not 64 hex characters'',
        pd_raw = JStr (take_chars 128 (tx_txid t))\<rparr>"

fun admit_txs :: "string \<Rightarrow> tx list \<Rightarrow> chain_txs \<Rightarrow> fetch_error + chain_txs" where
  "admit_txs address [] txs = Inr txs"
| "admit_txs address (t # ts) txs =
     (if \<not> is_txid (tx_txid t) then Inl (malformed_txid address t)
      else admit_txs address ts
             (if tx_height t \<noteq> None \<or> map_of txs (tx_txid t) = None then btree_insert (tx_txid t) t txs else txs))"

fun sync_addresses ::
  "'w btc_env \<Rightarrow> source \<Rightarrow> string list \<Rightarrow> chain_txs \<Rightarrow> 'w world \<Rightarrow> ((fetch_error + chain_txs) \<times> 'w world) option" where
  "sync_addresses env src [] txs w = Some (Inr txs, w)"
| "sync_addresses env src (address # rest) txs w =
     (case address_chain env src address w of
        None \<Rightarrow> None
      | Some (Inl e, w) \<Rightarrow> Some (Inl e, w)
      | Some (Inr confirmed, w) \<Rightarrow>
          (case address_mempool env src address w of
             (Inl e, w) \<Rightarrow> Some (Inl e, w)
           | (Inr pending, w) \<Rightarrow>
               (case admit_txs address (confirmed @ pending) txs of
                  Inl e \<Rightarrow> Some (Inl e, w)
                | Inr txs \<Rightarrow> sync_addresses env src rest txs w)))"

definition chain_data :: "chain_txs \<Rightarrow> chain_view" where
  "chain_data txs =
     \<lparr>ch_txs = txs, ch_mempool = btree_set (map tx_txid (filter (\<lambda>t. tx_height t = None) (map snd txs)))\<rparr>"

definition sync ::
  "'w btc_env \<Rightarrow> source \<Rightarrow> wallet \<Rightarrow> 'w world \<Rightarrow> ((fetch_error + chain_view) \<times> 'w world) option" where
  "sync env src wl w =
     map_option (map_prod (map_sum id chain_data) id) (sync_addresses env src (wl_addresses wl) [] w)"

section \<open>Balances\<close>

fun balances_loop ::
  "'w btc_env \<Rightarrow> source \<Rightarrow> string list \<Rightarrow> int \<times> int \<Rightarrow> 'w world \<Rightarrow> (fetch_error + int \<times> int) \<times> 'w world" where
  "balances_loop env src [] acc w = (Inr acc, w)"
| "balances_loop env src (address # rest) (confirmed, unconfirmed) w =
     (case fetch_address_stats env src address w of
        (Inl e, w) \<Rightarrow> (Inl e, w)
      | (Inr s, w) \<Rightarrow>
          balances_loop env src rest (confirmed + stats_net (as_chain s), unconfirmed + stats_net (as_mempool s)) w)"

definition wallet_balances ::
  "'w btc_env \<Rightarrow> source \<Rightarrow> wallet \<Rightarrow> 'w world \<Rightarrow> (fetch_error + int \<times> int) \<times> 'w world" where
  "wallet_balances env src wl w = balances_loop env src (wl_addresses wl) (0, 0) w"

end
