(* ===== verification/Seen.thy ===== *)
theory Seen
  imports Wallet
begin

text \<open>
  The balance cache of the Bitcoin adapter (\<open>adapters/bitcoin/src/seen.rs\<close>): one file per
  resource, read as a whole or not at all, written beside its place and renamed into it.
\<close>

section \<open>The file\<close>

definition SCHEMA :: nat where "SCHEMA = 3"

record seen =
  sn_balances_as_of :: "rfc3339 option"
  sn_confirmed :: "int option"
  sn_unconfirmed :: "int option"

definition seen_default :: seen where
  "seen_default = \<lparr>sn_balances_as_of = None, sn_confirmed = None, sn_unconfirmed = None\<rparr>"

record balances_file =
  bf_as_of :: "string option"
  bf_confirmed :: "string option"
  bf_unconfirmed :: "string option"

record seen_file =
  sf_schema :: nat
  sf_address_set_sha256 :: string
  sf_balances :: balances_file

definition balances_file_default :: balances_file where
  "balances_file_default = \<lparr>bf_as_of = None, bf_confirmed = None, bf_unconfirmed = None\<rparr>"

definition de_balances_file :: "json \<Rightarrow> de_error + balances_file" where
  "de_balances_file =
     de_lenient [''as_of'', ''confirmed'', ''unconfirmed'']
       (\<lambda>get.
          res_bind (dflt get ''as_of'' None (de_option de_string)) (\<lambda>a.
          res_bind (dflt get ''confirmed'' None (de_option de_string)) (\<lambda>c.
          res_bind (dflt get ''unconfirmed'' None (de_option de_string)) (\<lambda>u.
          Inr \<lparr>bf_as_of = a, bf_confirmed = c, bf_unconfirmed = u\<rparr>))))"

definition de_seen_file :: "json \<Rightarrow> de_error + seen_file" where
  "de_seen_file =
     de_lenient [''schema'', ''address_set_sha256'', ''balances'']
       (\<lambda>get.
          res_bind (req get ''schema'' de_u32) (\<lambda>s.
          res_bind (req get ''address_set_sha256'' de_string) (\<lambda>h.
          res_bind (dflt get ''balances'' balances_file_default de_balances_file) (\<lambda>b.
          Inr \<lparr>sf_schema = s, sf_address_set_sha256 = h, sf_balances = b\<rparr>))))"

definition ser_balances_file :: "balances_file \<Rightarrow> json" where
  "ser_balances_file b =
     ser_struct
       [(''as_of'', some_json JStr (bf_as_of b)), (''confirmed'', Some (json_opt JStr (bf_confirmed b))),
        (''unconfirmed'', Some (json_opt JStr (bf_unconfirmed b)))]"

definition ser_seen_file :: "seen_file \<Rightarrow> json" where
  "ser_seen_file f =
     ser_struct
       [(''schema'', Some (JInt (int (sf_schema f)))),
        (''address_set_sha256'', Some (JStr (sf_address_set_sha256 f))),
        (''balances'', Some (ser_balances_file (sf_balances f)))]"

section \<open>Reading\<close>

definition store_path :: "string option \<Rightarrow> string \<Rightarrow> string option" where
  "store_path dir resource_id = map_option (\<lambda>d. path_join d (resource_id @ ''.json'')) dir"

definition read_seen_file :: "'w btc_env \<Rightarrow> files \<Rightarrow> string \<Rightarrow> string \<Rightarrow> seen_file option" where
  "read_seen_file env fs path address_hash =
     (case read_to_string fs path of
        None \<Rightarrow> None
      | Some raw \<Rightarrow>
          (case ev_from_str env raw of
             Inl _ \<Rightarrow> None
           | Inr j \<Rightarrow>
               (case de_seen_file j of
                  Inl _ \<Rightarrow> None
                | Inr file \<Rightarrow>
                    if sf_schema file \<noteq> SCHEMA then None
                    else if sf_address_set_sha256 file \<noteq> address_hash then None
                    else Some file)))"

definition parse_i128 :: "string \<Rightarrow> int option" where
  "parse_i128 = parse_signed (- (2 ^ 127)) (2 ^ 127 - 1)"

definition parse_balance :: "string option \<Rightarrow> int option option" where
  "parse_balance v = (case v of None \<Rightarrow> Some None | Some s \<Rightarrow> map_option Some (parse_i128 s))"

definition decode_seen :: "seen_file \<Rightarrow> seen option" where
  "decode_seen file =
     Option.bind
       (case bf_as_of (sf_balances file) of
          None \<Rightarrow> Some None
        | Some s \<Rightarrow> map_option Some (res_ok (rfc3339_new s))) (\<lambda>seen_at.
     Option.bind (parse_balance (bf_confirmed (sf_balances file))) (\<lambda>c.
     Option.bind (parse_balance (bf_unconfirmed (sf_balances file))) (\<lambda>u.
     Some \<lparr>sn_balances_as_of = seen_at, sn_confirmed = c, sn_unconfirmed = u\<rparr>)))"

definition load_seen :: "'w btc_env \<Rightarrow> string option \<Rightarrow> files \<Rightarrow> string \<Rightarrow> string \<Rightarrow> seen" where
  "load_seen env dir fs resource_id address_hash =
     (case store_path dir resource_id of
        None \<Rightarrow> seen_default
      | Some path \<Rightarrow>
          (case read_seen_file env fs path address_hash of
             None \<Rightarrow> seen_default
           | Some file \<Rightarrow> (case decode_seen file of None \<Rightarrow> seen_default | Some s \<Rightarrow> s)))"

section \<open>Writing\<close>

text \<open>
  \<open>Path::with_extension\<close> on the last component: what follows its last dot is replaced, unless
  that dot is its first byte.
\<close>

definition file_name :: "string \<Rightarrow> string" where
  "file_name p = rev (takeWhile (\<lambda>c. c \<noteq> CHR ''/'') (rev p))"

definition file_stem :: "string \<Rightarrow> string" where
  "file_stem n =
     (let ext = takeWhile (\<lambda>c. c \<noteq> CHR ''.'') (rev n); stem = drop (length ext + 1) (rev n) in
      if length ext = length n \<or> stem = [] then n else rev stem)"

definition with_extension :: "string \<Rightarrow> string \<Rightarrow> string" where
  "with_extension p ext = take (length p - length (file_name p)) p @ file_stem (file_name p) @ ''.'' @ ext"

definition write_atomic :: "'w btc_env \<Rightarrow> nat \<Rightarrow> string \<Rightarrow> string \<Rightarrow> files \<Rightarrow> bool \<times> files" where
  "write_atomic env pid path bytes fs =
     (let tmp = with_extension path (''tmp.'' @ dec pid) in
      case write_file env tmp bytes fs of
        (False, fs) \<Rightarrow> (False, fs)
      | (True, fs) \<Rightarrow>
          if ev_rename env tmp path then (True, fs(path := fs tmp, tmp := None))
          else (False, fs(tmp := None)))"

definition seen_file_of :: "string \<Rightarrow> rfc3339 \<Rightarrow> int option \<Rightarrow> int option \<Rightarrow> seen_file" where
  "seen_file_of address_hash seen_at confirmed unconfirmed =
     \<lparr>sf_schema = SCHEMA, sf_address_set_sha256 = address_hash,
      sf_balances = \<lparr>bf_as_of = Some (ts_str seen_at), bf_confirmed = map_option show_int confirmed,
                     bf_unconfirmed = map_option show_int unconfirmed\<rparr>\<rparr>"

definition save_balances ::
  "'w btc_env \<Rightarrow> nat \<Rightarrow> string option \<Rightarrow> string \<Rightarrow> string \<Rightarrow> rfc3339 \<Rightarrow> int option \<Rightarrow> int option \<Rightarrow> files \<Rightarrow>
   bool \<times> files" where
  "save_balances env pid dir resource_id address_hash seen_at confirmed unconfirmed fs =
     (case dir of
        None \<Rightarrow> (True, fs)
      | Some d \<Rightarrow>
          if ev_mkdir env d then
            (case ev_to_pretty env (ser_seen_file (seen_file_of address_hash seen_at confirmed unconfirmed)) of
               None \<Rightarrow> (False, fs)
             | Some bytes \<Rightarrow> write_atomic env pid (path_join d (resource_id @ ''.json'')) bytes fs)
          else (False, fs))"

end
