(* ===== verification/Bitcoin_Adapter.thy ===== *)
theory Bitcoin_Adapter
  imports Seen
begin

text \<open>
  The Bitcoin adapter process (\<open>adapters/bitcoin/src/main.rs\<close>): its command line, the byte
  budget of a reply, the five operations over the wallets, the crawl snapshots between pages, and
  the loop from stdin to stdout. A request whose sync never ends has no reply, which is
  \<^const>\<open>None\<close>.
\<close>

section \<open>Constants\<close>

definition ADAPTER_ID :: string where "ADAPTER_ID = ''sumer-bitcoin''"
definition ADAPTER_VERSION :: string where "ADAPTER_VERSION = ''0.1.0''"
definition PROTOCOL :: string where "PROTOCOL = ''1''"
definition DEFAULT_SOURCE :: string where "DEFAULT_SOURCE = ''https://blockstream.info/api''"
definition MAX_SOURCE_BYTES :: nat where "MAX_SOURCE_BYTES = 256"
definition ENVELOPE_BYTES :: nat where "ENVELOPE_BYTES = 512"
definition PAGE_REPLY_BYTES :: nat where "PAGE_REPLY_BYTES = 320"

section \<open>Error bodies\<close>

definition map_error_text :: "'w btc_env \<Rightarrow> map_error \<Rightarrow> string" where
  "map_error_text env e =
     (case e of
        MapMoney m \<Rightarrow> ''money: '' @ money_error_text m
      | MapTime pos \<Rightarrow> ''timestamp: byte '' @ dec pos
      | MapJson \<Rightarrow> ''json: '' @ ev_json_text env)"

definition invalid :: "string \<Rightarrow> error_body" where
  "invalid msg = error_body_new InvalidRequest msg"

definition internal :: "string \<Rightarrow> error_body" where
  "internal msg = error_body_new Internal msg"

definition cursor_error_text :: "'w btc_env \<Rightarrow> string \<Rightarrow> string" where
  "cursor_error_text env c =
     ''not a cursor this adapter issued: '' @ ev_debug env c @ '' (expected '' @ [CHR 0x22] @ ''<height>:<txid>'' @
     [CHR 0x22] @ '' with an optional '' @ [CHR 0x22] @ '':m:<mempool_txid>'' @ [CHR 0x22] @ '' suffix)''"

section \<open>Writing a reply\<close>

definition ev_to_vec :: "'w btc_env \<Rightarrow> json \<Rightarrow> nat option" where
  "ev_to_vec env j = map_option length (ev_to_string env j)"

text \<open>The line that goes to stdout, without its line feed, if the writer succeeds.\<close>

definition reply_line :: "'w btc_env \<Rightarrow> json reply \<Rightarrow> string option" where
  "reply_line env r =
     Option.bind (ev_to_string env (ser_reply id r)) (\<lambda>line.
     if MAX_FRAME_BYTES < length line then
       ev_to_string env
         (ser_reply id (ReplyErr (reply_id r)
            (internal (''this reply is '' @ dec (length line) @ '' bytes and MAX_FRAME_BYTES is '' @
                       dec MAX_FRAME_BYTES @ ''; ask for fewer resources per request''))))
     else Some line)"

section \<open>The byte budget of a reply\<close>

definition status_entry :: "string \<Rightarrow> read_outcome \<Rightarrow> resource_status" where
  "status_entry resource_id out =
     \<lparr>rs_resource_id = resource_id, rs_outcome = out, rs_degraded = [], rs_provider_detail = None,
      rs_page = None, rs_credential_expires_at = None, rs_strong_auth_expires_at = None,
      rs_history_start = None\<rparr>"

definition entry_with_detail :: "resource_status \<Rightarrow> provider_detail \<Rightarrow> resource_status" where
  "entry_with_detail s d = s\<lparr>rs_provider_detail := Some d\<rparr>"

definition unknown_resource :: "string \<Rightarrow> resource_status" where
  "unknown_resource resource_id =
     entry_with_detail (status_entry resource_id NotFetched)
       \<lparr>pd_code = ''unknown_resource'', pd_message = ''no wallet with this resource_id is configured'', pd_raw = JNull\<rparr>"

definition entry_bytes :: "'w btc_env \<Rightarrow> resource_status \<Rightarrow> nat" where
  "entry_bytes env s = (case ev_to_vec env (ser_resource_status s) of None \<Rightarrow> 0 | Some n \<Rightarrow> n)"

definition status_bytes :: "'w btc_env \<Rightarrow> string \<Rightarrow> nat" where
  "status_bytes env resource_id = entry_bytes env (status_entry resource_id (Fetched True)) + PAGE_REPLY_BYTES"

definition budget_new :: nat where
  "budget_new = MAX_FRAME_BYTES - ENVELOPE_BYTES"

definition budget_reserve :: "'w btc_env \<Rightarrow> string list \<Rightarrow> nat \<Rightarrow> nat" where
  "budget_reserve env ids b = foldl (\<lambda>b i. b - status_bytes env i) b ids"

definition budget_charge :: "'w btc_env \<Rightarrow> resource_status \<Rightarrow> nat \<Rightarrow> nat" where
  "budget_charge env s b = b - (entry_bytes env s - status_bytes env (rs_resource_id s))"

definition budget_page :: "nat \<Rightarrow> nat" where
  "budget_page b = min b PAGE_BUDGET_BYTES"

section \<open>The command line\<close>

datatype usage_error =
    MissingValue string
  | HelpRequested
  | UnknownArgument string
  | WalletsRequired
  | SourceTooLong nat
  | RecordNeedsHttp

record options =
  op_wallets :: string
  op_source :: source
  op_state_dir :: "string option"

record flags =
  fl_wallets :: "string option"
  fl_target :: string
  fl_state_dir :: "string option"
  fl_record :: "string option"

fun parse_flags :: "string list \<Rightarrow> flags \<Rightarrow> usage_error + flags" where
  "parse_flags [] f = Inr f"
| "parse_flags (flag # rest) f =
     (if flag \<in> {''--wallets'', ''--source'', ''--state-dir'', ''--record''} then
        (case rest of
           [] \<Rightarrow> Inl (MissingValue flag)
         | v # rest \<Rightarrow>
             parse_flags rest
               (if flag = ''--wallets'' then f\<lparr>fl_wallets := Some v\<rparr>
                else if flag = ''--source'' then f\<lparr>fl_target := v\<rparr>
                else if flag = ''--state-dir'' then f\<lparr>fl_state_dir := Some v\<rparr>
                else f\<lparr>fl_record := Some v\<rparr>))
      else if flag = ''-h'' \<or> flag = ''--help'' then Inl HelpRequested
      else Inl (UnknownArgument flag))"

definition fixture_run :: "string option \<Rightarrow> nat" where
  "fixture_run var =
     (case Option.bind var (\<lambda>v. parse_u64 (trim v)) of None \<Rightarrow> 0 | Some n \<Rightarrow> n)"

definition parse_options :: "files \<Rightarrow> string option \<Rightarrow> string list \<Rightarrow> usage_error + options" where
  "parse_options fs run_var args =
     res_bind (parse_flags args
                 \<lparr>fl_wallets = None, fl_target = DEFAULT_SOURCE, fl_state_dir = None, fl_record = None\<rparr>) (\<lambda>f.
     res_bind (ok_or WalletsRequired (fl_wallets f)) (\<lambda>wallets.
     if MAX_SOURCE_BYTES < length (fl_target f) then Inl (SourceTooLong (length (fl_target f)))
     else
       res_bind
         (if take 5 (fl_target f) = ''file:'' then
            (if fl_record f \<noteq> None then Inl RecordNeedsHttp
             else Inr (source_replay fs (drop 5 (fl_target f)) (fixture_run run_var)))
          else Inr (source_http (fl_target f) (fl_record f))) (\<lambda>src.
       Inr \<lparr>op_wallets = wallets, op_source = src, op_state_dir = fl_state_dir f\<rparr>)))"

section \<open>The adapter\<close>

record adapter =
  ad_wallets :: "wallet list"
  ad_source :: source
  ad_state_dir :: "string option"
  ad_pid :: nat

record crawl_snapshot =
  cs_observed_at :: rfc3339
  cs_chain :: chain_view

record 'w adapter_state =
  as_world :: "'w world"
  as_crawls :: "(string, crawl_snapshot) hash_map"

fun no_repeats :: "string list \<Rightarrow> string list \<Rightarrow> error_body + unit" where
  "no_repeats done [] = Inr ()"
| "no_repeats done (r # rs) =
     (if r \<in> set done then
        Inl (error_body_new InvalidRequest
               (''a resource_id is named more than once in this request; every requested '' @
                ''resource_id appears in statuses exactly once, so a repeat has no answer''))
      else no_repeats (r # done) rs)"

definition lookup_wallet :: "adapter \<Rightarrow> string \<Rightarrow> wallet option" where
  "lookup_wallet ad resource_id = List.find (\<lambda>w. wl_resource_id w = resource_id) (ad_wallets ad)"

definition adapter_ctx :: "adapter \<Rightarrow> wallet \<Rightarrow> rfc3339 \<Rightarrow> ctx" where
  "adapter_ctx ad wl observed_at =
     \<lparr>cx_resource_id = wl_resource_id wl, cx_adapter_id = ADAPTER_ID,
      cx_provider_id = source_provider_id (ad_source ad), cx_observed_at = observed_at\<rparr>"

definition observed_now :: "'w btc_env \<Rightarrow> adapter \<Rightarrow> 'w world \<Rightarrow> error_body + rfc3339" where
  "observed_now env ad w =
     map_err (\<lambda>n. internal (''clock: byte '' @ dec n)) (rfc3339_utc (source_now env (ad_source ad) w))"

definition de_resources_list_params :: "json \<Rightarrow> de_error + unit" where
  "de_resources_list_params = de_struct [] (\<lambda>get. Inr ())"

definition descriptor_of :: "adapter \<Rightarrow> wallet \<Rightarrow> resource_descriptor" where
  "descriptor_of ad wl =
     \<lparr>rd_resource_id = wl_resource_id wl, rd_provider_id = source_provider_id (ad_source ad),
      rd_kind = ''bitcoin_wallet'', rd_label = wl_label wl,
      rd_provider_extra =
        Some (btree_of [(''address_count'', JInt (int (length (wl_addresses wl)))),
                        (''address_set_sha256'', JStr (wl_address_hash wl))])\<rparr>"

definition op_resources_list :: "'w btc_env \<Rightarrow> adapter \<Rightarrow> json \<Rightarrow> error_body + json" where
  "op_resources_list env ad params =
     res_bind (map_err (\<lambda>e. invalid (ev_de_text env e)) (de_resources_list_params params)) (\<lambda>_.
     Inr (json_value (ser_resources_list_reply (map (descriptor_of ad) (ad_wallets ad)))))"

section \<open>Balances\<close>

record balance_answer =
  ba_confirmed :: "int option"
  ba_unconfirmed :: "int option"
  ba_status :: resource_status
  ba_abandoned :: bool

definition read_wallet_balances ::
  "'w btc_env \<Rightarrow> adapter \<Rightarrow> wallet \<Rightarrow> rfc3339 \<Rightarrow> 'w world \<Rightarrow> balance_answer \<times> 'w world" where
  "read_wallet_balances env ad wl observed_at w =
     (case wallet_balances env (ad_source ad) wl w of
        (Inr (c, u), w) \<Rightarrow>
          (\<lparr>ba_confirmed = Some c, ba_unconfirmed = Some u,
            ba_status = status_entry (wl_resource_id wl) (Fetched False), ba_abandoned = False\<rparr>,
           w\<lparr>wo_files := snd (save_balances env (ad_pid ad) (ad_state_dir ad) (wl_resource_id wl)
                                (wl_address_hash wl) observed_at (Some c) (Some u) (wo_files w))\<rparr>)
      | (Inl (FetchRateLimited ms detail), w) \<Rightarrow>
          (\<lparr>ba_confirmed = None, ba_unconfirmed = None,
            ba_status = entry_with_detail (status_entry (wl_resource_id wl) (RateLimited ms)) detail,
            ba_abandoned = True\<rparr>, w)
      | (Inl (FetchUnavailable detail), w) \<Rightarrow>
          (let recorded = load_seen env (ad_state_dir ad) (wo_files w) (wl_resource_id wl) (wl_address_hash wl) in
           case sn_balances_as_of recorded of
             Some t \<Rightarrow>
               (\<lparr>ba_confirmed = sn_confirmed recorded, ba_unconfirmed = sn_unconfirmed recorded,
                 ba_status = entry_with_detail (status_entry (wl_resource_id wl) (Stale t)) detail,
                 ba_abandoned = False\<rparr>, w)
           | None \<Rightarrow>
               (\<lparr>ba_confirmed = None, ba_unconfirmed = None,
                 ba_status = entry_with_detail (status_entry (wl_resource_id wl) Unavailable) detail,
                 ba_abandoned = False\<rparr>, w)))"

fun balances_each ::
  "'w btc_env \<Rightarrow> adapter \<Rightarrow> rfc3339 \<Rightarrow> bool \<Rightarrow> string list \<Rightarrow> balance_wire list \<times> resource_status list \<Rightarrow> 'w world \<Rightarrow>
   (error_body + balance_wire list \<times> resource_status list) \<times> 'w world" where
  "balances_each env ad observed_at abandoned [] acc w = (Inr acc, w)"
| "balances_each env ad observed_at abandoned (r # rs) (obs, sts) w =
     (case lookup_wallet ad r of
        None \<Rightarrow> balances_each env ad observed_at abandoned rs (obs, sts @ [unknown_resource r]) w
      | Some wl \<Rightarrow>
          (case (if abandoned then
                   (\<lparr>ba_confirmed = None, ba_unconfirmed = None, ba_status = status_entry r NotFetched,
                     ba_abandoned = True\<rparr>, w)
                 else read_wallet_balances env ad wl observed_at w) of
             (a, w) \<Rightarrow>
               (case balance_lines (adapter_ctx ad wl observed_at) (ba_confirmed a) (ba_unconfirmed a) of
                  Inl e \<Rightarrow> (Inl (internal (map_error_text env e)), w)
                | Inr lines \<Rightarrow>
                    balances_each env ad observed_at (ba_abandoned a) rs (obs @ lines, sts @ [ba_status a]) w)))"

definition op_balances_read ::
  "'w btc_env \<Rightarrow> adapter \<Rightarrow> json \<Rightarrow> 'w world \<Rightarrow> (error_body + json) \<times> 'w world" where
  "op_balances_read env ad params w =
     (case map_err (\<lambda>e. invalid (ev_de_text env e)) (de_balances_read_params params) of
        Inl e \<Rightarrow> (Inl e, w)
      | Inr ids \<Rightarrow>
          (case res_bind (no_repeats [] ids) (\<lambda>_. observed_now env ad w) of
             Inl e \<Rightarrow> (Inl e, w)
           | Inr observed_at \<Rightarrow>
               map_prod (map_sum id (\<lambda>acc. json_value (ser_balances_read_reply acc))) id
                 (balances_each env ad observed_at False ids ([], []) w)))"

section \<open>History\<close>

definition read_cursor :: "'w btc_env \<Rightarrow> page_request option \<Rightarrow> error_body + btc_cursor option" where
  "read_cursor env pg =
     (case pg of
        None \<Rightarrow> Inr None
      | Some (Cursor c) \<Rightarrow>
          map_err (\<lambda>e. invalid (cursor_error_text env e)) (map_sum id Some (cursor_parse c))
      | Some (Window _ _ _ _) \<Rightarrow>
          Inl (with_detail (JObj [(''page_kind'', JStr ''window'')])
                 (error_body_new InvalidRequest
                    (''this adapter serves cursor pages only; Bitcoin history is ordered by '' @
                     ''block, not by wall-clock time''))))"

text \<open>
  A new snapshot for a resource: nothing if it was taken, the fetch error if a fetch failed, and
  an error body if the clock has no timestamp.
\<close>

definition start_crawl ::
  "'w btc_env \<Rightarrow> adapter \<Rightarrow> wallet \<Rightarrow> string \<Rightarrow> 'w adapter_state \<Rightarrow>
   ((error_body + fetch_error option) \<times> 'w adapter_state) option" where
  "start_crawl env ad wl r st =
     (case observed_now env ad (as_world st) of
        Inl e \<Rightarrow> Some (Inl e, st)
      | Inr observed_at \<Rightarrow>
          map_option
            (\<lambda>(out, w).
               (case out of
                  Inl e \<Rightarrow> (Inr (Some e), st\<lparr>as_world := w\<rparr>)
                | Inr ch \<Rightarrow>
                    (Inr None,
                     st\<lparr>as_world := w,
                        as_crawls := AList.update r \<lparr>cs_observed_at = observed_at, cs_chain = ch\<rparr> (as_crawls st)\<rparr>)))
            (sync env (ad_source ad) wl (as_world st)))"

definition page_reply_of :: "Bitcoin_Map.page \<Rightarrow> page_reply" where
  "page_reply_of pg =
     \<lparr>pg_cursor_resumable = Exact, pg_next = map_option (\<lambda>c. Cursor (cursor_encode c)) (pa_next pg),
      pg_window_capped_to = None, pg_page_size_reduced_to = pa_page_size_reduced_to pg\<rparr>"

definition fetched_entry :: "string \<Rightarrow> Bitcoin_Map.page \<Rightarrow> resource_status" where
  "fetched_entry r pg =
     (status_entry r (Fetched (pa_observations pg = [])))
       \<lparr>rs_degraded := pa_degraded pg, rs_page := Some (page_reply_of pg)\<rparr>"

text \<open>One page of the snapshot: the page, what is left of the budget, and the snapshots.\<close>

definition serve_page ::
  "'w btc_env \<Rightarrow> adapter \<Rightarrow> wallet \<Rightarrow> string \<Rightarrow> btc_cursor option \<Rightarrow> nat \<Rightarrow> (string, crawl_snapshot) hash_map \<Rightarrow>
   error_body + Bitcoin_Map.page \<times> nat \<times> (string, crawl_snapshot) hash_map" where
  "serve_page env ad wl r from budget crawls =
     (let budget = budget_charge env (status_entry r (Fetched True)) budget in
      case map_of crawls r of
        None \<Rightarrow> Inl (internal ''the crawl snapshot vanished before it was read'')
      | Some crawl \<Rightarrow>
          map_err (\<lambda>e. internal (map_error_text env e))
            (res_bind (make_plan (adapter_ctx ad wl (cs_observed_at crawl)) (cs_chain crawl) (wl_owned wl) from) (\<lambda>p.
             res_bind (cut_page (ev_to_vec env) p from (budget_page budget)) (\<lambda>pg.
             Inr (pg, budget - pa_bytes pg,
                  if pa_next pg = None then AList.delete r crawls else crawls)))))"

text \<open>
  One resource of the read: what its turn adds to the reply, whether the provider asked to stop,
  and what is left of the budget.
\<close>

definition history_step ::
  "'w btc_env \<Rightarrow> adapter \<Rightarrow> bool \<Rightarrow> nat \<Rightarrow> resource_query \<Rightarrow> 'w adapter_state \<Rightarrow>
   ((error_body + observation_wire list \<times> resource_status \<times> bool \<times> nat) \<times> 'w adapter_state) option" where
  "history_step env ad abandoned budget q st =
     (case read_cursor env (qy_page q) of
        Inl e \<Rightarrow> Some (Inl e, st)
      | Inr from \<Rightarrow>
          let r = qy_resource_id q;
              push = (\<lambda>entry abandoned st. Some (Inr ([], entry, abandoned, budget_charge env entry budget), st)) in
          (case lookup_wallet ad r of
             None \<Rightarrow> push (unknown_resource r) abandoned st
           | Some wl \<Rightarrow>
               if abandoned then push (status_entry r NotFetched) abandoned st
               else
                 (case (if from = None \<or> map_of (as_crawls st) r = None then start_crawl env ad wl r st
                        else Some (Inr None, st)) of
                    None \<Rightarrow> None
                  | Some (Inl e, st) \<Rightarrow> Some (Inl e, st)
                  | Some (Inr (Some (FetchRateLimited ms detail)), st) \<Rightarrow>
                      push (entry_with_detail (status_entry r (RateLimited ms)) detail) True st
                  | Some (Inr (Some (FetchUnavailable detail)), st) \<Rightarrow>
                      push (entry_with_detail (status_entry r Unavailable) detail) abandoned st
                  | Some (Inr None, st) \<Rightarrow>
                      (case serve_page env ad wl r from budget (as_crawls st) of
                         Inl e \<Rightarrow> Some (Inl e, st)
                       | Inr (pg, budget, crawls) \<Rightarrow>
                           Some (Inr (pa_observations pg, fetched_entry r pg, abandoned, budget),
                                 st\<lparr>as_crawls := crawls\<rparr>)))))"

fun history_each ::
  "'w btc_env \<Rightarrow> adapter \<Rightarrow> resource_query list \<Rightarrow> bool \<Rightarrow> nat \<Rightarrow> observation_wire list \<times> resource_status list \<Rightarrow>
   'w adapter_state \<Rightarrow>
   ((error_body + observation_wire list \<times> resource_status list) \<times> 'w adapter_state) option" where
  "history_each env ad [] abandoned budget acc st = Some (Inr acc, st)"
| "history_each env ad (q # qs) abandoned budget (obs, sts) st =
     (case history_step env ad abandoned budget q st of
        None \<Rightarrow> None
      | Some (Inl e, st) \<Rightarrow> Some (Inl e, st)
      | Some (Inr (page_obs, entry, abandoned, budget), st) \<Rightarrow>
          history_each env ad qs abandoned budget (obs @ page_obs, sts @ [entry]) st)"

definition op_history_read ::
  "'w btc_env \<Rightarrow> adapter \<Rightarrow> json \<Rightarrow> 'w adapter_state \<Rightarrow> ((error_body + json) \<times> 'w adapter_state) option" where
  "op_history_read env ad params st =
     (case map_err (\<lambda>e. invalid (ev_de_text env e)) (de_history_read_params params) of
        Inl e \<Rightarrow> Some (Inl e, st)
      | Inr qs \<Rightarrow>
          (case no_repeats [] (map qy_resource_id qs) of
             Inl e \<Rightarrow> Some (Inl e, st)
           | Inr _ \<Rightarrow>
               map_option (map_prod (map_sum id (\<lambda>acc. json_value (ser_history_read_reply acc))) id)
                 (history_each env ad qs False (budget_reserve env (map qy_resource_id qs) budget_new) ([], []) st)))"

section \<open>Reachability\<close>

fun status_each ::
  "'w btc_env \<Rightarrow> adapter \<Rightarrow> bool \<Rightarrow> string list \<Rightarrow> resource_status list \<Rightarrow> 'w world \<Rightarrow>
   resource_status list \<times> 'w world" where
  "status_each env ad abandoned [] sts w = (sts, w)"
| "status_each env ad abandoned (r # rs) sts w =
     (case Option.bind (lookup_wallet ad r) (\<lambda>wl. case wl_addresses wl of [] \<Rightarrow> None | a # _ \<Rightarrow> Some a) of
        None \<Rightarrow> status_each env ad abandoned rs (sts @ [unknown_resource r]) w
      | Some address \<Rightarrow>
          if abandoned then status_each env ad abandoned rs (sts @ [status_entry r NotFetched]) w
          else
            (case fetch_address_stats env (ad_source ad) address w of
               (Inr _, w) \<Rightarrow> status_each env ad abandoned rs (sts @ [status_entry r (Fetched True)]) w
             | (Inl (FetchRateLimited ms detail), w) \<Rightarrow>
                 status_each env ad True rs
                   (sts @ [entry_with_detail (status_entry r (RateLimited ms)) detail]) w
             | (Inl (FetchUnavailable detail), w) \<Rightarrow>
                 status_each env ad abandoned rs
                   (sts @ [entry_with_detail (status_entry r Unavailable) detail]) w))"

definition op_status_read ::
  "'w btc_env \<Rightarrow> adapter \<Rightarrow> json \<Rightarrow> 'w world \<Rightarrow> (error_body + json) \<times> 'w world" where
  "op_status_read env ad params w =
     (case map_err (\<lambda>e. invalid (ev_de_text env e)) (de_status_read_params params) of
        Inl e \<Rightarrow> (Inl e, w)
      | Inr ids \<Rightarrow>
          (case no_repeats [] ids of
             Inl e \<Rightarrow> (Inl e, w)
           | Inr _ \<Rightarrow>
               map_prod (\<lambda>sts. Inr (json_value (ser_status_read_reply sts))) id
                 (status_each env ad False ids [] w)))"

section \<open>The handshake and the dispatch\<close>

definition hello_reply_here :: hello_reply where
  "hello_reply_here =
     \<lparr>hr_protocol = PROTOCOL, hr_adapter_id = ADAPTER_ID, hr_adapter_version = ADAPTER_VERSION,
      hr_capabilities = [OP_RESOURCES_LIST, OP_BALANCES_READ, OP_HISTORY_READ, OP_STATUS_READ],
      hr_local_id_derivation = LOCAL_ID_DERIVATION, hr_max_in_flight = 1\<rparr>"

definition op_hello :: "'w btc_env \<Rightarrow> json \<Rightarrow> error_body + json" where
  "op_hello env params =
     res_bind (map_err (\<lambda>e. invalid (ev_de_text env e)) (de_hello_params params)) (\<lambda>offered.
     if PROTOCOL \<notin> set offered then
       Inl (with_detail (JObj [(''offered'', JArr (map JStr offered))])
              (error_body_new UnsupportedProtocol ''this adapter speaks protocol 1 only''))
     else Inr (json_value (ser_hello_reply hello_reply_here)))"

definition dispatch ::
  "'w btc_env \<Rightarrow> adapter \<Rightarrow> string \<Rightarrow> json \<Rightarrow> 'w adapter_state \<Rightarrow> ((error_body + json) \<times> 'w adapter_state) option" where
  "dispatch env ad opr params st =
     (let with_world = map_prod id (\<lambda>w. st\<lparr>as_world := w\<rparr>) in
      if opr = OP_HELLO then Some (op_hello env params, st)
      else if opr = OP_RESOURCES_LIST then Some (op_resources_list env ad params, st)
      else if opr = OP_BALANCES_READ then Some (with_world (op_balances_read env ad params (as_world st)))
      else if opr = OP_HISTORY_READ then op_history_read env ad params st
      else if opr = OP_STATUS_READ then Some (with_world (op_status_read env ad params (as_world st)))
      else Some (Inl (with_detail (JObj [(''op'', JStr opr)])
                        (error_body_new Unsupported ''operation not supported by this adapter'')), st))"

text \<open>The reply to a frame, if it gets one.\<close>

definition handle ::
  "'w btc_env \<Rightarrow> adapter \<Rightarrow> string \<Rightarrow> 'w adapter_state \<Rightarrow> (json reply option \<times> 'w adapter_state) option" where
  "handle env ad frame st =
     (case ev_from_str env frame of
        Inl _ \<Rightarrow> Some (None, st)
      | Inr j \<Rightarrow>
          let v = json_value j in
          (case de_request v of
             Inl e \<Rightarrow>
               Some (map_option (\<lambda>i. ReplyErr (of_nat i) (invalid (ev_de_text env e)))
                       (Option.bind (json_get ''id'' v) json_u64), st)
           | Inr request \<Rightarrow>
               map_option
                 (\<lambda>(out, st).
                    (Some (case out of Inl e \<Rightarrow> ReplyErr (rq_id request) e | Inr b \<Rightarrow> ReplyOk (rq_id request) b), st))
                 (dispatch env ad (rq_op request)
                    (if rq_params request = JNull then JObj [] else rq_params request) st)))"

section \<open>The process\<close>

text \<open>
  The lines of stdin up to its end or an error, and the lines written to stdout. \<open>stdout_ok\<close>
  tells whether the next write succeeds.
\<close>

datatype stdin_event = StdinLine string | StdinError

definition frame_of :: "string \<Rightarrow> string" where
  "frame_of line = rev (dropWhile (\<lambda>c. c = newline \<or> c = CHR 0x0D) (rev line))"

fun serve ::
  "'w btc_env \<Rightarrow> adapter \<Rightarrow> (string list \<Rightarrow> bool) \<Rightarrow> stdin_event list \<Rightarrow> string list \<Rightarrow> 'w adapter_state \<Rightarrow>
   (string list \<times> 'w adapter_state) option" where
  "serve env ad stdout_ok [] out st = Some (out, st)"
| "serve env ad stdout_ok (StdinError # ins) out st = Some (out, st)"
| "serve env ad stdout_ok (StdinLine line # ins) out st =
     (if frame_of line = [] then serve env ad stdout_ok ins out st
      else
        (case handle env ad (frame_of line) st of
           None \<Rightarrow> None
         | Some (None, st) \<Rightarrow> serve env ad stdout_ok ins out st
         | Some (Some r, st) \<Rightarrow>
             (case reply_line env r of
                None \<Rightarrow> Some (out, st)
              | Some l \<Rightarrow>
                  if stdout_ok out then serve env ad stdout_ok ins (out @ [l]) st else Some (out, st))))"

datatype start_error = StartUsage usage_error | StartConfig config_error

definition start_adapter ::
  "'w btc_env \<Rightarrow> nat \<Rightarrow> files \<Rightarrow> string option \<Rightarrow> string list \<Rightarrow> start_error + adapter" where
  "start_adapter env pid fs run_var args =
     res_bind (map_err StartUsage (parse_options fs run_var args)) (\<lambda>opts.
     res_bind (map_err StartConfig (load_wallets (ev_from_str env) fs (op_wallets opts))) (\<lambda>ws.
     Inr \<lparr>ad_wallets = ws, ad_source = op_source opts, ad_state_dir = op_state_dir opts, ad_pid = pid\<rparr>))"

text \<open>The exit code and the lines of stdout.\<close>

definition adapter_main ::
  "'w btc_env \<Rightarrow> nat \<Rightarrow> string option \<Rightarrow> string list \<Rightarrow> (string list \<Rightarrow> bool) \<Rightarrow> stdin_event list \<Rightarrow> 'w world \<Rightarrow>
   (nat \<times> string list) option" where
  "adapter_main env pid run_var args stdout_ok ins w =
     (case start_adapter env pid (wo_files w) run_var args of
        Inl _ \<Rightarrow> Some (2, [])
      | Inr ad \<Rightarrow>
          map_option (\<lambda>(out, _). (0, out))
            (serve env ad stdout_ok ins [] \<lparr>as_world = w, as_crawls = []\<rparr>))"

end
