(* ===== verification/Bitcoin_Sync.thy ===== *)
theory Bitcoin_Sync
  imports Wallet Bitcoin_Paging
begin

text \<open>
  What one sync of a wallet establishes. The listing loop returns the whole history of an address
  from a provider that pages it as Esplora documents, and never returns from one that alternates
  between two full pages. What a sync hands on is a chain a crawl can be planned from.
\<close>

section \<open>The listing loop\<close>

text \<open>A listing \<open>txs\<close>, newest first, as Esplora pages it: 25 entries from the start or after an entry.\<close>

fun listing_page :: "tx list \<Rightarrow> string option \<Rightarrow> tx list" where
  "listing_page txs None = take CHAIN_PAGE txs"
| "listing_page txs (Some i) = take CHAIN_PAGE (drop 1 (dropWhile (\<lambda>t. tx_txid t \<noteq> i) txs))"

definition serves_listing :: "'w btc_env \<Rightarrow> source \<Rightarrow> string \<Rightarrow> tx list \<Rightarrow> bool" where
  "serves_listing env src address txs \<longleftrightarrow>
     (\<forall>w. \<forall>seen\<in>insert None (Some ` tx_txid ` set txs).
        fst (get_json env src (de_vec de_tx) (chain_path address seen) w) = Inr (listing_page txs seen))"

lemma dropWhile_txid:
  assumes "distinct (map tx_txid (as @ t # bs))"
  shows "dropWhile (\<lambda>u. tx_txid u \<noteq> tx_txid t) (as @ t # bs) = t # bs"
proof -
  have "\<forall>u\<in>set as. tx_txid u \<noteq> tx_txid t" using assms by (auto simp: image_iff)
  then show ?thesis by (subst dropWhile_append2) auto
qed

lemma chain_loop_returns:
  assumes L: "serves_listing env src address txs" and d: "distinct (map tx_txid txs)"
    and "txs = out @ rest"
    and "case seen of None \<Rightarrow> out = [] | Some i \<Rightarrow> out \<noteq> [] \<and> i = tx_txid (last out)"
  shows "\<exists>w'. chain_loop env src address seen out w = Some (Inr txs, w')"
  using assms(3,4)
proof (induction "length rest" arbitrary: rest out seen w rule: less_induct)
  case less
  have seen: "seen \<in> insert None (Some ` tx_txid ` set txs)"
    using less.prems by (cases seen) auto
  obtain w' where g: "get_json env src (de_vec de_tx) (chain_path address seen) w = (Inr (listing_page txs seen), w')"
    using L seen unfolding serves_listing_def by (metis prod.collapse)
  have page: "listing_page txs seen = take CHAIN_PAGE rest"
  proof (cases seen)
    case None
    then show ?thesis using less.prems by simp
  next
    case (Some i)
    then have ne: "out \<noteq> []" and i: "i = tx_txid (last out)" using less.prems(2) by auto
    have split: "txs = butlast out @ last out # rest" using ne less.prems(1) by simp
    have "distinct (map tx_txid (butlast out @ last out # rest))" using d split by metis
    from dropWhile_txid [OF this] show ?thesis by (simp only: Some i split listing_page.simps) simp
  qed
  show ?case
  proof (cases "length rest < CHAIN_PAGE")
    case True
    then have p: "listing_page txs seen = rest" by (simp add: page)
    show ?thesis
      by (subst chain_loop.simps) (use g p True less.prems(1) in auto)
  next
    case False
    define pg where "pg = take CHAIN_PAGE rest"
    have len: "length pg = CHAIN_PAGE" "0 < CHAIN_PAGE" using False by (simp_all add: pg_def CHAIN_PAGE_def)
    then have ne: "pg \<noteq> []" by auto
    have txs: "txs = (out @ pg) @ drop CHAIN_PAGE rest" using less.prems(1) by (simp add: pg_def)
    have adv: "seen \<noteq> Some (tx_txid (last pg))"
    proof
      assume s: "seen = Some (tx_txid (last pg))"
      then have o: "out \<noteq> []" "tx_txid (last pg) = tx_txid (last out)" using less.prems(2) by auto
      have "tx_txid (last out) \<in> set (map tx_txid out)" "tx_txid (last pg) \<in> set (map tx_txid pg)"
        using o(1) ne by auto
      moreover have "set (map tx_txid out) \<inter> set (map tx_txid pg) = {}" using d unfolding txs by auto
      ultimately show False using o(2) by auto
    qed
    have "\<exists>w''. chain_loop env src address (Some (tx_txid (last pg))) (out @ pg) w' = Some (Inr txs, w'')"
      by (rule less.hyps [OF _ txs]) (use False ne len in auto)
    then show ?thesis
      by (subst chain_loop.simps) (use g page pg_def len ne adv in auto)
  qed
qed

text \<open>C25. The listing loop ends and loses nothing: from a provider that pages a listing of distinct
  transactions as Esplora documents, 25 at a time after the last one seen, it returns the whole
  listing in order, whatever the listing's length, also where that is a multiple of 25.\<close>

theorem address_chain_complete:
  assumes "serves_listing env src address txs" and "distinct (map tx_txid txs)"
  shows "\<exists>w'. address_chain env src address w = Some (Inr txs, w')"
  unfolding address_chain_def by (rule chain_loop_returns [OF assms, of "[]" txs]) simp_all

section \<open>A provider that never lets the loop end\<close>

text \<open>Two full pages that name each other's last transaction: no two requests in a row repeat.\<close>

definition alternating :: "'w btc_env \<Rightarrow> source \<Rightarrow> string \<Rightarrow> tx list \<Rightarrow> tx list \<Rightarrow> bool" where
  "alternating env src address p q \<longleftrightarrow>
     length p = CHAIN_PAGE \<and> length q = CHAIN_PAGE \<and> tx_txid (last p) \<noteq> tx_txid (last q) \<and>
     (\<forall>w. fst (get_json env src (de_vec de_tx) (chain_path address None) w) = Inr p \<and>
          fst (get_json env src (de_vec de_tx) (chain_path address (Some (tx_txid (last p)))) w) = Inr q \<and>
          fst (get_json env src (de_vec de_tx) (chain_path address (Some (tx_txid (last q)))) w) = Inr p)"

lemma chain_loop_diverges:
  assumes alt: "alternating env src address p q"
    and ret: "chain_loop env src address seen out w = Some r"
  shows "seen \<notin> {None, Some (tx_txid (last p)), Some (tx_txid (last q))}"
proof -
  let ?bad = "{None, Some (tx_txid (last p)), Some (tx_txid (last q))}"
  have "e = env \<and> s = src \<and> a = address \<longrightarrow> seen \<notin> ?bad"
    if "chain_loop e s a seen out w = Some r" for e s a seen out w r
  proof (rule chain_loop.raw_induct [where P = "\<lambda>e s a seen out w r. e = env \<and> s = src \<and> a = address \<longrightarrow> seen \<notin> ?bad",
        OF _ that])
    fix f and e :: "'a btc_env" and s a seen out w r
    assume IH: "\<And>e s a seen out w r. f e s a seen out w = Some r \<Longrightarrow>
        e = env \<and> s = src \<and> a = address \<longrightarrow> seen \<notin> ?bad"
      and eq: "(case get_json e s (de_vec de_tx) (chain_path a seen) w of
          (Inl x, w) \<Rightarrow> Some (Inl x, w)
        | (Inr page, w) \<Rightarrow>
            if page = [] then Some (Inr out, w)
            else if length page < CHAIN_PAGE then Some (Inr (out @ page), w)
            else if seen = Some (tx_txid (last page)) then
              Some (Inl (fetch_unavailable ''pagination_stalled''
                (chain_path a seen @ '': the listing did not advance past '' @ tx_txid (last page)) JNull), w)
            else f e s a (Some (tx_txid (last page))) (out @ page) w) = Some r"
    show "e = env \<and> s = src \<and> a = address \<longrightarrow> seen \<notin> ?bad"
    proof (intro impI notI)
      assume e: "e = env \<and> s = src \<and> a = address" and bad: "seen \<in> ?bad"
      obtain pg w' where g: "get_json e s (de_vec de_tx) (chain_path a seen) w = (Inr pg, w')"
        and pg: "pg = p \<and> seen \<noteq> Some (tx_txid (last p)) \<or> pg = q \<and> seen \<noteq> Some (tx_txid (last q))"
        using alt bad e unfolding alternating_def by (metis insert_iff empty_iff prod.collapse option.distinct(1) option.inject)
      have "length pg = CHAIN_PAGE" "pg \<noteq> []" using alt pg by (auto simp: alternating_def CHAIN_PAGE_def)
      with eq g pg have "f e s a (Some (tx_txid (last pg))) (out @ pg) w' = Some r" by (auto split: if_splits)
      from IH [OF this] e pg show False by auto
    qed
  qed
  then show ?thesis using ret by blast
qed

text \<open>C27. The stall check of the listing loop compares a page's last transaction with that of the
  page before only, so the loop does not refuse every provider that fails to advance: from one
  that alternates between two full pages it never returns.\<close>

theorem address_chain_can_diverge:
  assumes "alternating env src address p q"
  shows "address_chain env src address w = None"
proof (cases "address_chain env src address w")
  case (Some r)
  then show ?thesis using chain_loop_diverges [OF assms, of None "[]" w r] by (simp add: address_chain_def)
qed simp

section \<open>What a sync keeps\<close>

text \<open>
  The reference: every listing of every address one after the other, and of each transaction id
  the last confirmed copy among them, or the first copy if none is confirmed.
\<close>

fun fetch_all ::
  "'w btc_env \<Rightarrow> source \<Rightarrow> string list \<Rightarrow> 'w world \<Rightarrow> ((fetch_error + tx list) \<times> 'w world) option" where
  "fetch_all env src [] w = Some (Inr [], w)"
| "fetch_all env src (address # rest) w =
     (case address_chain env src address w of
        None \<Rightarrow> None
      | Some (Inl e, w) \<Rightarrow> Some (Inl e, w)
      | Some (Inr confirmed, w) \<Rightarrow>
          (case address_mempool env src address w of
             (Inl e, w) \<Rightarrow> Some (Inl e, w)
           | (Inr pending, w) \<Rightarrow>
               map_option (map_prod (map_sum id ((@) (confirmed @ pending))) id) (fetch_all env src rest w)))"

definition copies :: "string \<Rightarrow> tx list \<Rightarrow> tx list" where
  "copies i ts = filter (\<lambda>t. tx_txid t = i) ts"

definition confirmed_copies :: "string \<Rightarrow> tx list \<Rightarrow> tx list" where
  "confirmed_copies i ts = filter (\<lambda>t. tx_txid t = i \<and> tx_height t \<noteq> None) ts"

definition kept_copy :: "string \<Rightarrow> tx list \<Rightarrow> tx option" where
  "kept_copy i ts =
     (if confirmed_copies i ts \<noteq> [] then Some (last (confirmed_copies i ts))
      else if copies i ts \<noteq> [] then Some (hd (copies i ts)) else None)"

definition admit_tx :: "chain_txs \<Rightarrow> tx \<Rightarrow> chain_txs" where
  "admit_tx txs t =
     (if tx_height t \<noteq> None \<or> map_of txs (tx_txid t) = None then btree_insert (tx_txid t) t txs else txs)"

lemma admit_txs_foldl:
  "admit_txs address ts txs = Inr txs' \<longleftrightarrow>
     list_all (\<lambda>t. is_txid (tx_txid t)) ts \<and> txs' = foldl admit_tx txs ts"
  by (induction address ts txs rule: admit_txs.induct) (auto simp: admit_tx_def)

lemma map_of_admit_tx:
  "map_of (admit_tx m t) i =
     (if tx_txid t = i \<and> (tx_height t \<noteq> None \<or> map_of m i = None) then Some t else map_of m i)"
  by (auto simp: admit_tx_def)

lemma map_of_admitted:
  "map_of (foldl admit_tx m ts) i =
     (if confirmed_copies i ts \<noteq> [] then Some (last (confirmed_copies i ts))
      else if map_of m i \<noteq> None then map_of m i
      else if copies i ts \<noteq> [] then Some (hd (copies i ts)) else None)"
proof (induction ts arbitrary: m)
  case (Cons t ts)
  show ?case
  proof (cases "tx_txid t = i")
    case True
    then show ?thesis
      by (cases "tx_height t"; cases "map_of m i")
        (simp_all add: Cons.IH map_of_admit_tx copies_def confirmed_copies_def)
  next
    case False
    then show ?thesis by (simp add: Cons.IH map_of_admit_tx copies_def confirmed_copies_def)
  qed
qed (simp add: copies_def confirmed_copies_def)

lemma btree_ok_admitted: "btree_ok m \<Longrightarrow> btree_ok (foldl admit_tx m ts)"
  by (induction ts arbitrary: m) (simp_all add: admit_tx_def)

lemma sync_addresses_iff:
  "sync_addresses env src as txs w = Some (Inr txs', w') \<longleftrightarrow>
     (\<exists>ts. fetch_all env src as w = Some (Inr ts, w') \<and> list_all (\<lambda>t. is_txid (tx_txid t)) ts \<and>
           txs' = foldl admit_tx txs ts)"
proof (induction env src as txs w rule: sync_addresses.induct)
  case (2 env src a as txs w)
  show ?case
  proof (cases "address_chain env src a w")
    case (Some r)
    obtain c w1 where r: "r = (c, w1)" by force
    show ?thesis
    proof (cases c)
      case (Inr confirmed)
      obtain p w2 where p: "address_mempool env src a w1 = (p, w2)" by force
      show ?thesis
      proof (cases p)
        case Inr': (Inr pending)
        have R: "fetch_all env src (a # as) w =
            map_option (map_prod (map_sum id ((@) (confirmed @ pending))) id) (fetch_all env src as w2)"
          by (simp add: Some r Inr p Inr')
        show ?thesis
        proof (cases "admit_txs a (confirmed @ pending) txs")
          case (Inl e)
          then have bad: "\<not> list_all (\<lambda>t. is_txid (tx_txid t)) (confirmed @ pending)"
            using admit_txs_foldl [of a "confirmed @ pending" txs] by (metis Inl_Inr_False)
          have "sync_addresses env src (a # as) txs w = Some (Inl e, w2)" by (simp add: Some r Inr p Inr' Inl)
          then show ?thesis using bad unfolding R by (cases "fetch_all env src as w2") (auto simp: map_sum_Inr_iff)
        next
          case ok: (Inr txs1)
          have adm: "list_all (\<lambda>t. is_txid (tx_txid t)) (confirmed @ pending)"
            "txs1 = foldl admit_tx txs (confirmed @ pending)"
            using ok admit_txs_foldl by blast+
          have L: "sync_addresses env src (a # as) txs w = sync_addresses env src as txs1 w2"
            by (simp add: Some r Inr p Inr' ok)
          have IH: "sync_addresses env src as txs1 w2 = Some (Inr txs', w') \<longleftrightarrow>
              (\<exists>ts. fetch_all env src as w2 = Some (Inr ts, w') \<and> list_all (\<lambda>t. is_txid (tx_txid t)) ts \<and>
                    txs' = foldl admit_tx txs1 ts)"
            by (rule 2 [OF Some r [symmetric] Inr p [symmetric] Inr' ok])
          show ?thesis
            unfolding L IH R using adm by (cases "fetch_all env src as w2") (auto simp: map_sum_Inr_iff)
        qed
      qed (simp add: Some r Inr p)
    qed (simp add: Some r)
  qed simp
qed auto

lemma sync_iff:
  "sync env src wl w = Some (Inr ch, w') \<longleftrightarrow>
     (\<exists>ts. fetch_all env src (wl_addresses wl) w = Some (Inr ts, w') \<and>
           list_all (\<lambda>t. is_txid (tx_txid t)) ts \<and>
           btree_ok (ch_txs ch) \<and> map_of (ch_txs ch) = (\<lambda>i. kept_copy i ts) \<and>
           sorted_wrt (<) (ch_mempool ch) \<and>
           set (ch_mempool ch) = {i. \<exists>t. kept_copy i ts = Some t \<and> tx_height t = None})"
proof -
  have mem: "sorted_wrt (<) ms \<and> set ms = {i. \<exists>t. map_of m i = Some t \<and> tx_height t = None} \<longleftrightarrow>
      ms = btree_set (map tx_txid (filter (\<lambda>t. tx_height t = None) (map snd m)))"
    if m: "btree_ok m" and ids: "\<forall>(i, t)\<in>set m. tx_txid t = i" for m :: chain_txs and ms
  proof -
    have look: "map_of m i = Some t \<longleftrightarrow> (i, t) \<in> set m" for i t using btree_ok_distinct [OF m] by simp
    have "i \<in> {i. \<exists>t. map_of m i = Some t \<and> tx_height t = None} \<longleftrightarrow>
        i \<in> set (map tx_txid (filter (\<lambda>t. tx_height t = None) (map snd m)))" for i
    proof
      assume "i \<in> {i. \<exists>t. map_of m i = Some t \<and> tx_height t = None}"
      then obtain t where "(i, t) \<in> set m" "tx_height t = None" by (auto simp: look)
      moreover from this have "tx_txid t = i" using ids by blast
      ultimately show "i \<in> set (map tx_txid (filter (\<lambda>t. tx_height t = None) (map snd m)))" by force
    next
      assume "i \<in> set (map tx_txid (filter (\<lambda>t. tx_height t = None) (map snd m)))"
      then obtain j t where "(j, t) \<in> set m" "tx_height t = None" "i = tx_txid t" by auto
      moreover from this have "tx_txid t = j" using ids by blast
      ultimately show "i \<in> {i. \<exists>t. map_of m i = Some t \<and> tx_height t = None}" by (auto simp: look)
    qed
    then have eq: "{i. \<exists>t. map_of m i = Some t \<and> tx_height t = None} =
        set (map tx_txid (filter (\<lambda>t. tx_height t = None) (map snd m)))" by (rule set_eqI)
    show ?thesis
      unfolding eq by (auto intro: strict_sorted_equal simp: btree_set_sorted simp del: set_map set_filter)
  qed
  have ids: "tx_txid t = i" if "(i, t) \<in> set (foldl admit_tx [] ts)" for i t ts
  proof -
    have "map_of (foldl admit_tx [] ts) i = Some t"
      using that btree_ok_distinct [OF btree_ok_admitted [of "[]" ts, OF btree_ok_Nil]] by (simp only: map_of_is_SomeI)
    then have "(if confirmed_copies i ts \<noteq> [] then Some (last (confirmed_copies i ts))
        else if copies i ts \<noteq> [] then Some (hd (copies i ts)) else None) = Some t"
      using map_of_admitted [of "[]" ts i] by (simp split: if_splits)
    then have "t \<in> set (confirmed_copies i ts) \<or> t \<in> set (copies i ts)"
      using last_in_set [of "confirmed_copies i ts"] hd_in_set [of "copies i ts"] by (auto split: if_splits)
    then show ?thesis by (auto simp: copies_def confirmed_copies_def)
  qed
  have "sync env src wl w = Some (Inr ch, w') \<longleftrightarrow>
      (\<exists>txs. sync_addresses env src (wl_addresses wl) [] w = Some (Inr txs, w') \<and> ch = chain_data txs)"
    by (auto simp: sync_def map_sum_Inr_iff map_option_case split: option.splits)
  then have "sync env src wl w = Some (Inr ch, w') \<longleftrightarrow>
      (\<exists>ts. fetch_all env src (wl_addresses wl) w = Some (Inr ts, w') \<and> list_all (\<lambda>t. is_txid (tx_txid t)) ts \<and>
            ch = chain_data (foldl admit_tx [] ts))"
    unfolding sync_addresses_iff by blast
  moreover have "ch = chain_data (foldl admit_tx [] ts) \<longleftrightarrow>
      btree_ok (ch_txs ch) \<and> map_of (ch_txs ch) = (\<lambda>i. kept_copy i ts) \<and> sorted_wrt (<) (ch_mempool ch) \<and>
      set (ch_mempool ch) = {i. \<exists>t. kept_copy i ts = Some t \<and> tx_height t = None}" for ts
  proof -
    let ?m = "foldl admit_tx [] ts"
    have m: "btree_ok ?m" "map_of ?m = (\<lambda>i. kept_copy i ts)"
      by (simp_all add: btree_ok_admitted map_of_admitted kept_copy_def fun_eq_iff)
    have "btree_ok (ch_txs ch) \<and> map_of (ch_txs ch) = (\<lambda>i. kept_copy i ts) \<longleftrightarrow> ch_txs ch = ?m"
      using m btree_ext by metis
    moreover have "sorted_wrt (<) (ch_mempool ch) \<and>
        set (ch_mempool ch) = {i. \<exists>t. kept_copy i ts = Some t \<and> tx_height t = None} \<longleftrightarrow>
        ch_mempool ch = btree_set (map tx_txid (filter (\<lambda>t. tx_height t = None) (map snd ?m)))"
      using mem [OF m(1), of "ch_mempool ch"] ids by (auto simp: m(2))
    ultimately show ?thesis by (cases ch) (auto simp: chain_data_def)
  qed
  ultimately show ?thesis by (simp only: conj_assoc)
qed

section \<open>Where a sync stops\<close>

text \<open>
  Reading one address fails, with this error: its listing or its mempool cannot be read, or one of
  the transactions has a malformed id, and the error names the first of them.
\<close>

definition address_fails ::
  "'w btc_env \<Rightarrow> source \<Rightarrow> fetch_error \<Rightarrow> 'w world \<Rightarrow> string \<Rightarrow> 'w world \<Rightarrow> bool" where
  "address_fails env src e w' a w \<longleftrightarrow>
     address_chain env src a w = Some (Inl e, w') \<or>
     (\<exists>confirmed w1. address_chain env src a w = Some (Inr confirmed, w1) \<and>
        (address_mempool env src a w1 = (Inl e, w') \<or>
         (\<exists>pending t. address_mempool env src a w1 = (Inr pending, w') \<and>
            find (\<lambda>t. \<not> is_txid (tx_txid t)) (confirmed @ pending) = Some t \<and> e = malformed_txid a t)))"

text \<open>Every address before this one was read, with valid ids, and this one ends the sync.\<close>

definition stops_at ::
  "'w btc_env \<Rightarrow> source \<Rightarrow> (string \<Rightarrow> 'w world \<Rightarrow> bool) \<Rightarrow> string list \<Rightarrow> 'w world \<Rightarrow> bool" where
  "stops_at env src P as w \<longleftrightarrow>
     (\<exists>earlier a later ts w1. as = earlier @ a # later \<and> fetch_all env src earlier w = Some (Inr ts, w1) \<and>
        list_all (\<lambda>t. is_txid (tx_txid t)) ts \<and> P a w1)"

lemma stops_at_Nil: "\<not> stops_at env src P [] w"
  by (simp add: stops_at_def)

lemma fetch_all_Cons:
  "fetch_all env src (a # as) w = Some (Inr ts, w') \<longleftrightarrow>
     (\<exists>confirmed w1 pending w2 us. address_chain env src a w = Some (Inr confirmed, w1) \<and>
        address_mempool env src a w1 = (Inr pending, w2) \<and> fetch_all env src as w2 = Some (Inr us, w') \<and>
        ts = (confirmed @ pending) @ us)"
  by (auto simp: map_sum_Inr_iff split: option.splits sum.splits prod.splits)

lemma stops_at_Cons:
  "stops_at env src P (a # as) w \<longleftrightarrow> P a w \<or>
     (\<exists>confirmed w1 pending w2. address_chain env src a w = Some (Inr confirmed, w1) \<and>
        address_mempool env src a w1 = (Inr pending, w2) \<and>
        list_all (\<lambda>t. is_txid (tx_txid t)) (confirmed @ pending) \<and> stops_at env src P as w2)"
  (is "?l \<longleftrightarrow> _ \<or> ?r")
proof
  assume ?l
  then obtain earlier b later ts w1 where s: "a # as = earlier @ b # later"
    "fetch_all env src earlier w = Some (Inr ts, w1)" "list_all (\<lambda>t. is_txid (tx_txid t)) ts" "P b w1"
    unfolding stops_at_def by blast
  show "P a w \<or> ?r"
  proof (cases earlier)
    case (Cons c cs)
    with s(2) obtain confirmed v pending w2 us where f: "address_chain env src a w = Some (Inr confirmed, v)"
      "address_mempool env src a v = (Inr pending, w2)" "fetch_all env src cs w2 = Some (Inr us, w1)"
      "ts = (confirmed @ pending) @ us" using s(1) unfolding Cons fetch_all_Cons by fastforce
    moreover from f(3,4) s Cons have "stops_at env src P as w2" unfolding stops_at_def by fastforce
    ultimately show ?thesis using s(3) by (simp only: list_all_append) blast
  qed (use s in auto)
next
  assume "P a w \<or> ?r"
  then show ?l
  proof
    assume "P a w"
    then have "a # as = [] @ a # as \<and> fetch_all env src [] w = Some (Inr [], w) \<and>
        list_all (\<lambda>t. is_txid (tx_txid t)) [] \<and> P a w" by simp
    then show ?l unfolding stops_at_def by blast
  next
    assume ?r
    then obtain confirmed v pending w2 earlier b later ts w1 where f: "address_chain env src a w = Some (Inr confirmed, v)"
      "address_mempool env src a v = (Inr pending, w2)" "list_all (\<lambda>t. is_txid (tx_txid t)) (confirmed @ pending)"
      and s: "as = earlier @ b # later" "fetch_all env src earlier w2 = Some (Inr ts, w1)"
      "list_all (\<lambda>t. is_txid (tx_txid t)) ts" "P b w1" unfolding stops_at_def by blast
    have "a # as = (a # earlier) @ b # later \<and> fetch_all env src (a # earlier) w = Some (Inr ((confirmed @ pending) @ ts), w1) \<and>
        list_all (\<lambda>t. is_txid (tx_txid t)) ((confirmed @ pending) @ ts) \<and> P b w1"
      using f s by simp
    then show ?l unfolding stops_at_def by blast
  qed
qed

lemma admit_txs_fails:
  "admit_txs a ts txs = Inl e \<longleftrightarrow> (\<exists>t. find (\<lambda>t. \<not> is_txid (tx_txid t)) ts = Some t \<and> e = malformed_txid a t)"
  by (induction a ts txs rule: admit_txs.induct) auto

lemma sync_addresses_stops:
  "sync_addresses env src as txs w = None \<longleftrightarrow> stops_at env src (\<lambda>a w. address_chain env src a w = None) as w"
  "sync_addresses env src as txs w = Some (Inl e, w') \<longleftrightarrow> stops_at env src (address_fails env src e w') as w"
proof (induction env src as txs w rule: sync_addresses.induct)
  case (2 env src a as txs w)
  show "sync_addresses env src (a # as) txs w = None \<longleftrightarrow> stops_at env src (\<lambda>a w. address_chain env src a w = None) (a # as) w"
    "sync_addresses env src (a # as) txs w = Some (Inl e, w') \<longleftrightarrow> stops_at env src (address_fails env src e w') (a # as) w"
  proof (atomize (full), cases "address_chain env src a w")
    case (Some r)
    obtain c w1 where r: "r = (c, w1)" by force
    show "(sync_addresses env src (a # as) txs w = None \<longleftrightarrow> stops_at env src (\<lambda>a w. address_chain env src a w = None) (a # as) w) \<and>
      (sync_addresses env src (a # as) txs w = Some (Inl e, w') \<longleftrightarrow> stops_at env src (address_fails env src e w') (a # as) w)"
    proof (cases c)
      case (Inr confirmed)
      obtain p w2 where p: "address_mempool env src a w1 = (p, w2)" by force
      show ?thesis
      proof (cases p)
        case Inr': (Inr pending)
        show ?thesis
        proof (cases "admit_txs a (confirmed @ pending) txs")
          case (Inl x)
          then obtain t where t: "find (\<lambda>t. \<not> is_txid (tx_txid t)) (confirmed @ pending) = Some t" "x = malformed_txid a t"
            using admit_txs_fails by blast
          have bad: "\<not> list_all (\<lambda>t. is_txid (tx_txid t)) (confirmed @ pending)"
            using Inl admit_txs_foldl [of a "confirmed @ pending" txs] by (metis Inl_Inr_False)
          have L: "sync_addresses env src (a # as) txs w = Some (Inl x, w2)" by (simp add: Some r Inr p Inr' Inl)
          show ?thesis using bad t unfolding L stops_at_Cons address_fails_def
            by (auto simp: Some r Inr p Inr')
        next
          case ok: (Inr txs1)
          have adm: "list_all (\<lambda>t. is_txid (tx_txid t)) (confirmed @ pending)"
            using ok admit_txs_foldl by blast
          have none: "find (\<lambda>t. \<not> is_txid (tx_txid t)) (confirmed @ pending) = None"
            using adm unfolding find_None_iff list_all_iff by blast
          have L: "sync_addresses env src (a # as) txs w = sync_addresses env src as txs1 w2"
            by (simp add: Some r Inr p Inr' ok)
          note IH = 2 [OF Some r [symmetric] Inr p [symmetric] Inr' ok]
          show ?thesis
            unfolding L IH stops_at_Cons address_fails_def using adm none by (simp add: Some r Inr p Inr')
        qed
      qed (auto simp: Some r Inr p stops_at_Cons address_fails_def)
    qed (auto simp: Some r stops_at_Cons address_fails_def)
  qed (simp add: stops_at_Cons address_fails_def)
qed (simp_all add: stops_at_Nil)

lemma sync_stops:
  "sync env src wl w = None \<longleftrightarrow> stops_at env src (\<lambda>a w. address_chain env src a w = None) (wl_addresses wl) w"
  "sync env src wl w = Some (Inl e, w') \<longleftrightarrow> stops_at env src (address_fails env src e w') (wl_addresses wl) w"
proof -
  have "map_sum id f m = Inl e \<longleftrightarrow> m = Inl e" for f :: "chain_txs \<Rightarrow> chain_view" and m by (cases m) simp_all
  then have "sync env src wl w = None \<longleftrightarrow> sync_addresses env src (wl_addresses wl) [] w = None"
    "sync env src wl w = Some (Inl e, w') \<longleftrightarrow> sync_addresses env src (wl_addresses wl) [] w = Some (Inl e, w')"
    by (cases "sync_addresses env src (wl_addresses wl) [] w"; auto simp: sync_def)+
  then show "sync env src wl w = None \<longleftrightarrow> stops_at env src (\<lambda>a w. address_chain env src a w = None) (wl_addresses wl) w"
    "sync env src wl w = Some (Inl e, w') \<longleftrightarrow> stops_at env src (address_fails env src e w') (wl_addresses wl) w"
    by (simp_all add: sync_addresses_stops)
qed

text \<open>C26. A sync succeeds exactly if every listing of every address was read and every transaction id
  is 64 hex digits, and what it keeps is then, for each id, the last confirmed copy among all
  listings or else the first copy: a transaction that confirms between two requests is never kept
  as pending. The mempool section is exactly the ids kept without a height. It ends in an error
  exactly if some address, after all earlier ones were read with valid ids, fails with that error
  and leaves the provider in that state: its listing cannot be read, or its mempool, or the error
  names the first of its transactions whose id is malformed. And it does not return exactly if, at
  such a point, the loop over the listing of an address does not.\<close>

theorem sync_meets_spec:
  "(sync env src wl w = Some (Inr ch, w') \<longleftrightarrow>
     (\<exists>ts. fetch_all env src (wl_addresses wl) w = Some (Inr ts, w') \<and>
           list_all (\<lambda>t. is_txid (tx_txid t)) ts \<and>
           btree_ok (ch_txs ch) \<and> map_of (ch_txs ch) = (\<lambda>i. kept_copy i ts) \<and>
           sorted_wrt (<) (ch_mempool ch) \<and>
           set (ch_mempool ch) = {i. \<exists>t. kept_copy i ts = Some t \<and> tx_height t = None})) \<and>
   (sync env src wl w = Some (Inl e, w') \<longleftrightarrow> stops_at env src (address_fails env src e w') (wl_addresses wl) w) \<and>
   (sync env src wl w = None \<longleftrightarrow> stops_at env src (\<lambda>a w. address_chain env src a w = None) (wl_addresses wl) w)"
  unfolding sync_stops by (intro conjI sync_iff refl)

section \<open>A sync hands on a chain that can be planned\<close>

definition height_ok :: "tx \<Rightarrow> bool" where
  "height_ok t \<longleftrightarrow> (case tx_height t of None \<Rightarrow> True | Some h \<Rightarrow> int h \<le> u64_max)"

lemma de_lenient_Inr: "de_lenient names build j = Inr x \<Longrightarrow> \<exists>get. build get = Inr x"
  by (auto simp: de_lenient_def Let_def split: json.splits if_splits)

lemma dflt_u64: "dflt get k None (de_option de_u64) = Inr (Some n) \<Longrightarrow> int n \<le> u64_max"
  by (cases "get k"; cases "the (get k)") (auto simp: dflt_def split: if_splits)

lemma de_tx_status_height: "de_tx_status j = Inr s \<Longrightarrow> st_block_height s = Some n \<Longrightarrow> int n \<le> u64_max"
  unfolding de_tx_status_def by (drule de_lenient_Inr) (auto simp: res_simps dest: dflt_u64)

lemma de_tx_height: "de_tx j = Inr t \<Longrightarrow> height_ok t"
proof -
  assume "de_tx j = Inr t"
  then obtain i where "de_tx_status i = Inr (tx_state t)"
    unfolding de_tx_def by (auto dest!: de_lenient_Inr simp: res_simps req_def)
  then show ?thesis by (auto simp: height_ok_def tx_height_def dest: de_tx_status_height split: option.split)
qed

lemma de_vec_heights: "de_vec de_tx j = Inr ts \<Longrightarrow> list_all height_ok ts"
proof -
  have "de_list de_tx js = Inr ts \<Longrightarrow> list_all height_ok ts" for js
    by (induction js arbitrary: ts) (auto simp: res_simps de_tx_height)
  then show "de_vec de_tx j = Inr ts \<Longrightarrow> list_all height_ok ts"
    by (cases j) (simp_all add: de_vec_def)
qed

lemma read_body_Inr: "read_body env dcd path f = Inr x \<Longrightarrow> \<exists>j. dcd j = Inr x"
  by (cases f) (auto simp: read_body_def res_simps)

lemma get_json_Inr: "get_json env src dcd path w = (Inr x, w') \<Longrightarrow> \<exists>j. dcd j = Inr x"
  by (auto simp: get_json_def res_simps split: prod.splits dest: read_body_Inr)

lemma get_json_heights: "get_json env src (de_vec de_tx) path w = (Inr ts, w') \<Longrightarrow> list_all height_ok ts"
  by (drule get_json_Inr) (erule exE, rule de_vec_heights)

lemma chain_loop_heights:
  assumes "chain_loop env src address seen out w = Some (Inr ts, w')" and "list_all height_ok out"
  shows "list_all height_ok ts"
proof -
  have "list_all height_ok out \<longrightarrow> (case fst r of Inl _ \<Rightarrow> True | Inr ts \<Rightarrow> list_all height_ok ts)"
    if "chain_loop env src address seen out w = Some r" for r
  proof (rule chain_loop.raw_induct [where P = "\<lambda>e s a seen out w r.
        list_all height_ok out \<longrightarrow> (case fst r of Inl _ \<Rightarrow> True | Inr ts \<Rightarrow> list_all height_ok ts)", OF _ that])
    fix f and e :: "'a btc_env" and s a seen out w r
    assume IH: "\<And>e s a seen out w r. f e s a seen out w = Some r \<Longrightarrow>
        list_all height_ok out \<longrightarrow> (case fst r of Inl _ \<Rightarrow> True | Inr ts \<Rightarrow> list_all height_ok ts)"
      and eq: "(case get_json e s (de_vec de_tx) (chain_path a seen) w of
          (Inl x, w) \<Rightarrow> Some (Inl x, w)
        | (Inr page, w) \<Rightarrow>
            if page = [] then Some (Inr out, w)
            else if length page < CHAIN_PAGE then Some (Inr (out @ page), w)
            else if seen = Some (tx_txid (last page)) then
              Some (Inl (fetch_unavailable ''pagination_stalled''
                (chain_path a seen @ '': the listing did not advance past '' @ tx_txid (last page)) JNull), w)
            else f e s a (Some (tx_txid (last page))) (out @ page) w) = Some r"
    show "list_all height_ok out \<longrightarrow> (case fst r of Inl _ \<Rightarrow> True | Inr ts \<Rightarrow> list_all height_ok ts)"
    proof (cases "get_json e s (de_vec de_tx) (chain_path a seen) w")
      case (Pair x w1)
      show ?thesis
      proof (cases x)
        case (Inr page)
        then have "list_all height_ok page" using get_json_heights [of e s "chain_path a seen" w page w1] Pair by simp
        then show ?thesis
          using eq IH [of e s a "Some (tx_txid (last page))" "out @ page" w1 r]
          by (auto simp: Pair Inr split: if_splits)
      qed (use eq in \<open>auto simp: Pair\<close>)
    qed
  qed
  from this [OF assms(1)] assms(2) show ?thesis by simp
qed

lemma fetch_all_heights: "fetch_all env src as w = Some (Inr ts, w') \<Longrightarrow> list_all height_ok ts"
proof (induction env src as w arbitrary: ts rule: fetch_all.induct)
  case (2 env src a as w)
  obtain c w1 p w2 us where "address_chain env src a w = Some (Inr c, w1)"
    "address_mempool env src a w1 = (Inr p, w2)" "fetch_all env src as w2 = Some (Inr us, w')" "ts = (c @ p) @ us"
    using 2(2) by (auto simp: map_sum_Inr_iff split: option.splits sum.splits prod.splits)
  moreover from this have "list_all height_ok c"
    using chain_loop_heights [of env src a None "[]" w c w1] by (simp add: address_chain_def)
  moreover have "list_all height_ok p"
    using calculation(2) get_json_heights by (simp add: address_mempool_def)
  ultimately show ?case using 2(1) by fastforce
qed simp

lemma sync_chain_ok:
  assumes "sync env src wl w = Some (Inr ch, w')"
  shows "chain_ok ch"
proof -
  from assms obtain ts where ts: "fetch_all env src (wl_addresses wl) w = Some (Inr ts, w')"
    "list_all (\<lambda>t. is_txid (tx_txid t)) ts" "btree_ok (ch_txs ch)" "map_of (ch_txs ch) = (\<lambda>i. kept_copy i ts)"
    "sorted_wrt (<) (ch_mempool ch)"
    "set (ch_mempool ch) = {i. \<exists>t. kept_copy i ts = Some t \<and> tx_height t = None}"
    unfolding sync_iff by blast
  have kept: "t \<in> set ts \<and> tx_txid t = i" if "kept_copy i ts = Some t" for i t
    using that last_in_set [of "confirmed_copies i ts"] hd_in_set [of "copies i ts"]
    by (auto simp: kept_copy_def copies_def confirmed_copies_def split: if_splits)
  have k: "kept_copy i ts = Some t" if "(i, t) \<in> set (ch_txs ch)" for i t
    using that btree_ok_distinct [OF ts(3)] by (metis map_of_is_SomeI ts(4))
  show ?thesis
    unfolding chain_ok_def
    using ts(2,3,5,6) kept k fetch_all_heights [OF ts(1)]
    by (fastforce simp: list_all_iff height_ok_def)
qed

section \<open>Witnesses\<close>

definition pending_tx :: "string \<Rightarrow> tx" where
  "pending_tx i =
     \<lparr>tx_txid = i, tx_fee = 0,
      tx_state = \<lparr>st_confirmed = False, st_block_height = None, st_block_hash = None, st_block_time = None\<rparr>,
      tx_vin = [], tx_vout = []\<rparr>"

definition pending_json :: "string \<Rightarrow> json" where
  "pending_json i = JObj [(''txid'', JStr i), (''status'', JObj [(''confirmed'', JBool False)])]"

lemma de_pending: "de_tx (pending_json i) = Inr (pending_tx i)"
  by (simp add: de_tx_def de_tx_status_def de_lenient_def pending_json_def pending_tx_def req_def dflt_def)

lemma de_pendings: "de_vec de_tx (JArr (replicate n (pending_json i))) = Inr (replicate n (pending_tx i))"
  by (induction n) (simp_all add: de_pending de_vec_def)

text \<open>A provider without a state of its own: the path is the body, and \<open>page\<close> what it parses to.\<close>

definition sample_provider :: "(string \<Rightarrow> json) \<Rightarrow> unit btc_env" where
  "sample_provider page =
     \<lparr>ev_call = (\<lambda>_ url. (Inr \<lparr>rp_status = 200, rp_retry_after = None, rp_body = Inr url\<rparr>, ())),
      ev_clock = (\<lambda>_. Some 0), ev_from_str = (\<lambda>b. Inr (page b)), ev_to_string = (\<lambda>_. Some []),
      ev_to_pretty = (\<lambda>_. Some []), ev_de_text = (\<lambda>_. []), ev_json_text = [], ev_debug = id,
      ev_mkdir = (\<lambda>_. True), ev_open = (\<lambda>_. True), ev_short = (\<lambda>_ _. None), ev_rename = (\<lambda>_ _. True)\<rparr>"

definition sample_world :: "unit world" where
  "sample_world = \<lparr>wo_net = (), wo_files = (\<lambda>_. None)\<rparr>"

lemma sample_get:
  "get_json (sample_provider page) (Http [] None) dcd path w =
     (case dcd (page path) of
        Inl e \<Rightarrow> Inl (fetch_unavailable ''unparseable_body'' (path @ '': '') (JStr (take_chars 512 path)))
      | Inr x \<Rightarrow> Inr x, w\<lparr>wo_net := ()\<rparr>)"
  by (simp add: get_json_def source_get_def http_get_def sample_provider_def classify_def read_body_def split: sum.split)

theorem address_chain_complete_witness:
  "\<exists>w'. address_chain
     (sample_provider (\<lambda>p. JArr (if p = chain_path ''a'' None then [pending_json ''x''] else [])))
     (Http [] None) ''a'' sample_world = Some (Inr [pending_tx ''x''], w')"
proof (rule address_chain_complete)
  show "serves_listing (sample_provider (\<lambda>p. JArr (if p = chain_path ''a'' None then [pending_json ''x''] else [])))
     (Http [] None) ''a'' [pending_tx ''x'']"
    by (simp add: serves_listing_def sample_get de_vec_def de_pending chain_path_def pending_tx_def CHAIN_PAGE_def)
qed simp

theorem address_chain_can_diverge_witness:
  "address_chain
     (sample_provider (\<lambda>p. JArr (replicate 25 (pending_json (if p = chain_path ''a'' (Some ''x'') then ''y'' else ''x'')))))
     (Http [] None) ''a'' sample_world = None"
proof (rule address_chain_can_diverge)
  show "alternating
      (sample_provider (\<lambda>p. JArr (replicate 25 (pending_json (if p = chain_path ''a'' (Some ''x'') then ''y'' else ''x'')))))
      (Http [] None) ''a'' (replicate 25 (pending_tx ''x'')) (replicate 25 (pending_tx ''y''))"
    by (simp add: alternating_def sample_get de_pendings CHAIN_PAGE_def chain_path_def pending_tx_def)
qed

end
