(* ===== verification/Value_Stable.thy ===== *)
theory Value_Stable
  imports Envelope_Correct
begin

text \<open>
  A body that passes through a \<open>serde_json::Value\<close> has its members sorted and its repeated members
  merged before it is read. The readers of the wire types do not notice: what they accept they also
  accept from the \<open>Value\<close>, with the same result.
\<close>

section \<open>Readers that do not notice\<close>

definition res_le :: "'e + 'a \<Rightarrow> 'e + 'a \<Rightarrow> bool" where
  "res_le m n \<longleftrightarrow> (\<forall>x. m = Inr x \<longrightarrow> n = Inr x)"

definition value_stable :: "(json \<Rightarrow> de_error + 'a) \<Rightarrow> bool" where
  "value_stable f \<longleftrightarrow> (\<forall>j. res_le (f j) (f (json_value j)))"

named_theorems stable \<open>readers that accept a value where they accept the text\<close>

lemma res_le_refl [stable]: "res_le m m"
  by (simp add: res_le_def)

lemma res_le_bind [stable]:
  "res_le m n \<Longrightarrow> (\<And>x. res_le (f x) (g x)) \<Longrightarrow> res_le (res_bind m f) (res_bind n g)"
  by (auto simp: res_le_def res_simps)

lemma value_stableD: "value_stable f \<Longrightarrow> f j = Inr x \<Longrightarrow> f (json_value j) = Inr x"
  by (simp add: value_stable_def res_le_def)

lemma value_stableI: "(\<And>j x. f j = Inr x \<Longrightarrow> f (json_value j) = Inr x) \<Longrightarrow> value_stable f"
  by (simp add: value_stable_def res_le_def)

lemma json_value_null [simp]: "json_value j = JNull \<longleftrightarrow> j = JNull"
  by (cases j) auto

section \<open>Scalars\<close>

lemma stable_scalar: "(\<And>j x. f j = Inr x \<Longrightarrow> json_value j = j) \<Longrightarrow> value_stable f"
  by (intro value_stableI) simp

lemma stable_string [stable]: "value_stable de_string"
  by (rule stable_scalar) (auto simp: res_simps)

lemma stable_bool [stable]: "value_stable de_bool"
  by (rule stable_scalar) (auto simp: res_simps)

lemma stable_u64 [stable]: "value_stable de_u64"
  by (rule stable_scalar) (auto simp: res_simps)

lemma stable_u32 [stable]: "value_stable de_u32"
  by (rule stable_scalar) (auto simp: res_simps de_u32_def)

lemma stable_rfc3339 [stable]: "value_stable de_rfc3339"
  by (rule stable_scalar) (auto simp: de_rfc3339_ok ser_rfc3339_def)

lemma stable_plain [stable]: "value_stable deserialize_plain_text"
  by (rule stable_scalar) (auto simp: res_simps deserialize_plain_text_def)

lemma stable_asset [stable]: "value_stable de_asset_id"
  by (rule stable_scalar) (auto simp: res_simps de_asset_id_def)

lemma stable_enum [stable]: "value_stable (de_unit_enum table)"
  by (rule stable_scalar) (auto simp: de_unit_enum_def btree_of_def res_simps split: json.splits list.splits if_splits)

lemma stable_outcome [stable]: "value_stable de_read_outcome"
proof (rule stable_scalar)
  fix j x assume "de_read_outcome j = Inr x"
  then have "j = ser_read_outcome x" by (simp add: de_read_outcome_iff)
  then show "json_value j = j" by (cases x) (simp_all add: btree_of_def ser_rfc3339_def)
qed

section \<open>Objects\<close>

lemma value_members:
  assumes "distinct (map fst ms)"
  shows "map_of (btree_of (map (map_prod id json_value) ms)) = (\<lambda>k. map_option json_value (map_of ms k))"
    and "set (map fst (btree_of (map (map_prod id json_value) ms))) = set (map fst ms)"
    and "distinct (map fst (btree_of (map (map_prod id json_value) ms)))"
proof -
  let ?ps = "map (map_prod id json_value) ms"
  have d: "distinct (map fst ?ps)" using assms by (simp add: comp_def)
  have m: "map_of (btree_of ?ps) = map_of ?ps"
    unfolding map_of_btree_of by (rule map_of_inject_set [THEN iffD2]) (use d in \<open>simp_all flip: rev_map\<close>)
  have "map_of ?ps k = map_option json_value (map_of ms k)" for k by (induction ms) auto
  with m show lk: "map_of (btree_of ?ps) = (\<lambda>k. map_option json_value (map_of ms k))" by auto
  show "distinct (map fst (btree_of ?ps))" using btree_ok_distinct [OF btree_ok_of] by blast
  have "dom (map_of (btree_of ?ps)) = dom (map_of ms)" unfolding lk by auto
  then show "set (map fst (btree_of ?ps)) = set (map fst ms)" by (simp add: dom_map_of_conv_image_fst)
qed

lemma struct_members:
  assumes "de_struct members build (JObj ms) = Inr x"
    and "\<And>get. res_le (build get) (build (\<lambda>k. map_option json_value (get k)))"
    and "map_of ms' = (\<lambda>k. map_option json_value (map_of ms k))"
    and "distinct (map fst ms')" and "set (map fst ms') = set (map fst ms)"
  shows "de_struct members build (JObj ms') = Inr x"
proof -
  have k: "known_fields members ms = Inr ()" and b: "build (map_of ms) = Inr x"
    using assms(1) by (auto simp: de_struct_def res_simps)
  have "set (map fst ms) \<subseteq> set members" using k by (simp add: res_simps)
  then have "known_fields members ms' = Inr ()" using assms(4,5) by (intro known_fields_ok) auto
  moreover have "build (map_of ms') = Inr x"
    using assms(2) [of "map_of ms"] b unfolding assms(3) res_le_def by blast
  ultimately show ?thesis by (simp add: de_struct_def)
qed

lemma stable_struct:
  assumes "\<And>get. res_le (build get) (build (\<lambda>k. map_option json_value (get k)))"
  shows "value_stable (de_struct members build)"
proof (rule value_stableI)
  fix j x assume d: "de_struct members build j = Inr x"
  then obtain ms where j: "j = JObj ms" and k: "known_fields members ms = Inr ()"
    by (auto simp: de_struct_def res_simps)
  have "distinct (map fst ms)" using k by (simp add: res_simps)
  note v = value_members [OF this]
  show "de_struct members build (json_value j) = Inr x"
    using struct_members [OF d [unfolded j] assms v(1,3,2)] by (simp add: j)
qed

lemma stable_req [stable]: "value_stable f \<Longrightarrow> res_le (req get k f) (req (\<lambda>k. map_option json_value (get k)) k f)"
  by (auto simp: res_le_def req_def res_simps dest: value_stableD)

lemma stable_dflt [stable]:
  "value_stable f \<Longrightarrow> res_le (dflt get k d f) (dflt (\<lambda>k. map_option json_value (get k)) k d f)"
  by (cases "get k") (auto simp: res_le_def dflt_def dest: value_stableD)

lemma stable_option [stable]: "value_stable f \<Longrightarrow> value_stable (de_option f)"
proof (rule value_stableI)
  fix j x assume f: "value_stable f" and d: "de_option f j = Inr x"
  show "de_option f (json_value j) = Inr x"
  proof (cases "j = JNull")
    case False
    then have o: "de_option f j = map_sum id Some (f j)" "de_option f (json_value j) = map_sum id Some (f (json_value j))"
      using json_value_null [of j] by (cases j; cases "json_value j"; simp)+
    then show ?thesis using d value_stableD [OF f, of j] by (cases "f j") auto
  qed (use d in simp)
qed

lemma stable_vec [stable]: "value_stable f \<Longrightarrow> value_stable (de_vec f)"
proof (rule value_stableI)
  fix j x assume f: "value_stable f" and d: "de_vec f j = Inr x"
  have "de_list f js = Inr xs \<Longrightarrow> de_list f (map json_value js) = Inr xs" for js xs
    by (induction js arbitrary: xs) (auto simp: res_simps value_stableD [OF f])
  then show "de_vec f (json_value j) = Inr x" using d by (cases j) (simp_all add: de_vec_def)
qed

lemma stable_value [stable]: "value_stable de_value"
  by (rule value_stableI) (simp add: de_value_def json_value_idem)

lemma stable_map [stable]: "value_stable de_map"
proof (rule value_stableI)
  fix j x assume "de_map j = Inr x"
  then obtain ms where j: "j = JObj ms" and x: "x = btree_of (map (map_prod id json_value) ms)"
    by (auto simp: de_map_def res_simps)
  have "json_value (json_value j) = json_value j" by (rule json_value_idem)
  then show "de_map (json_value j) = Inr x" by (simp add: j x de_map_def)
qed

section \<open>The wire types\<close>

lemma stable_amount [stable]: "value_stable de_amount"
  by (rule value_stableI) (auto simp: de_amount_iff ser_amount_def from_amount_def btree_of_def)

lemma stable_provenance [stable]: "value_stable de_provenance_wire"
  unfolding de_provenance_wire_def by (rule stable_struct) (intro stable)

lemma stable_required_amount [stable]: "value_stable deserialize_required_amount"
  unfolding deserialize_required_amount_def by (intro stable)

lemma stable_balance [stable]: "value_stable de_balance_wire"
  unfolding de_balance_wire_def by (rule stable_struct) (intro stable)

lemma stable_observation [stable]: "value_stable de_observation_wire"
  unfolding de_observation_wire_def by (rule stable_struct) (intro stable)

lemma stable_detail [stable]: "value_stable de_provider_detail"
  unfolding de_provider_detail_def by (rule stable_struct) (intro stable)

lemma stable_degraded [stable]: "value_stable de_degraded"
  unfolding de_degraded_def by (rule stable_struct) (intro stable)

lemma map_of_without: "map_of (filter (\<lambda>m. fst m \<noteq> k) ms) = (\<lambda>x. if x = k then None else map_of ms x)"
  by (induction ms) (auto simp: fun_eq_iff)

lemma keys_without: "set (map fst (filter (\<lambda>m. fst m \<noteq> k) ms)) = set (map fst ms) - {k}"
  by auto

lemma filter_key_single:
  "distinct (map fst ms) \<Longrightarrow> map_of ms k = Some v \<Longrightarrow> filter (\<lambda>m. fst m = k) ms = [(k, v)]"
proof (induction ms)
  case (Cons m ms)
  show ?case
  proof (cases "fst m = k")
    case True
    have "\<forall>n\<in>set ms. fst n \<noteq> k" using Cons.prems(1) by (auto simp: True image_iff)
    then have "filter (\<lambda>m. fst m = k) ms = []" by (simp add: filter_empty_conv)
    with True Cons.prems(2) show ?thesis by (cases m) simp
  qed (use Cons in auto)
qed simp

lemma stable_page_request [stable]: "value_stable de_page_request"
proof (rule value_stableI)
  fix j x assume d: "de_page_request j = Inr x"
  then obtain ms where j: "j = JObj ms" by (auto simp: de_page_request_def res_simps)
  let ?rest = "filter (\<lambda>m. fst m \<noteq> ''kind'') ms"
  let ?ms = "btree_of (map (map_prod id json_value) ms)"
  let ?rest' = "filter (\<lambda>m. fst m \<noteq> ''kind'') ?ms"
  obtain k v where f: "filter (\<lambda>m. fst m = ''kind'') ms = [(k, v)]"
    using d by (auto simp: j de_page_request_def split: list.splits)
  have kv: "(k, v) \<in> set (filter (\<lambda>m. fst m = ''kind'') ms)" by (simp add: f)
  then have k: "k = ''kind''" by simp
  have "distinct (map fst ?rest)"
    using d by (auto simp: j de_page_request_def f k res_simps Let_def de_struct_def split: if_splits)
  moreover have "distinct (map fst (filter (\<lambda>m. fst m = ''kind'') ms))" by (simp add: f)
  ultimately have dist: "distinct (map fst ms)"
  proof (induction ms)
    case (Cons m ms)
    then show ?case by (cases "fst m = ''kind''") (auto simp: image_iff)
  qed simp
  note v = value_members [OF dist]
  have m: "map_of ms ''kind'' = Some v"
    using kv k dist by simp
  have f': "filter (\<lambda>m. fst m = ''kind'') ?ms = [(''kind'', json_value v)]"
    by (rule filter_key_single [OF v(3)]) (simp add: v(1) m)
  have r: "map_of ?rest' = (\<lambda>k. map_option json_value (map_of ?rest k))"
    by (simp add: map_of_without v(1) fun_eq_iff)
  have r': "distinct (map fst ?rest')" "set (map fst ?rest') = set (map fst ?rest)"
    using v(3) keys_without [of "''kind''" ms] keys_without [of "''kind''" ?ms] v(2)
    by (simp_all add: distinct_map_filter)
  have sub: "de_struct members build (JObj ?rest') = Inr y"
    if "de_struct members build (JObj ?rest) = Inr y"
      "\<And>get. res_le (build get) (build (\<lambda>k. map_option json_value (get k)))" for members build and y :: page_request
    by (rule struct_members [OF that r r'])
  show "de_page_request (json_value j) = Inr x"
  proof (cases "v = JStr ''cursor''")
    case True
    have "de_struct [''cursor''] (\<lambda>get. res_bind (req get ''cursor'' de_string) (\<lambda>c. Inr (Cursor c)))
        (JObj ?rest) = Inr x"
      using d True by (simp add: j de_page_request_def f)
    have "de_struct [''cursor''] (\<lambda>get. res_bind (req get ''cursor'' de_string) (\<lambda>c. Inr (Cursor c)))
        (JObj ?rest') = Inr x"
      by (rule sub [OF \<open>de_struct _ _ _ = _\<close>]) (intro stable)
    then show ?thesis using True by (simp add: j de_page_request_def f')
  next
    case False
    let ?build = "\<lambda>get. res_bind (req get ''resource_id'' de_string) (\<lambda>r.
        res_bind (dflt get ''asset'' None (de_option de_asset_id)) (\<lambda>a.
        res_bind (req get ''start'' de_rfc3339) (\<lambda>s.
        res_bind (req get ''end'' de_rfc3339) (\<lambda>e. Inr (Window r a s e)))))"
    let ?members = "[''resource_id'', ''asset'', ''start'', ''end'']"
    obtain n where v: "v = JStr n" "n \<noteq> ''cursor''"
      using d False by (cases v) (auto simp: j de_page_request_def f)
    have n: "n = ''window''" and w: "de_struct ?members ?build (JObj ?rest) = Inr x"
      using d v by (auto simp: j de_page_request_def f Let_def split: if_splits)
    have "de_struct ?members ?build (JObj ?rest') = Inr x" by (rule sub [OF w]) (intro stable)
    then show ?thesis using v n by (simp add: j de_page_request_def f')
  qed
qed

lemma stable_page_reply [stable]: "value_stable de_page_reply"
  unfolding de_page_reply_def by (rule stable_struct) (intro stable)

lemma stable_status [stable]: "value_stable de_resource_status"
  unfolding de_resource_status_def by (rule stable_struct) (intro stable)

lemma stable_history_reply [stable]: "value_stable de_history_read_reply"
  unfolding de_history_read_reply_def by (rule stable_struct) (intro stable)

lemma stable_balances_reply [stable]: "value_stable de_balances_read_reply"
  unfolding de_balances_read_reply_def by (rule stable_struct) (intro stable)

end
