(* ===== verification/Bitcoin_Replies.thy ===== *)
theory Bitcoin_Replies
  imports Bitcoin_Sync Bitcoin_Adapter Value_Stable
begin

text \<open>
  Everything the Bitcoin adapter puts in a reply is well formed on the wire: the provider details
  made of fetch errors, the observations of a page with their sizes, the paging objects and the
  balance lines. The host's readers therefore take a reply as it was meant.
\<close>

section \<open>Provider details\<close>

definition fetch_error_ok :: "fetch_error \<Rightarrow> bool" where
  "fetch_error_ok e \<longleftrightarrow>
     json_parsed (pd_raw (fetch_detail e)) \<and> (case e of FetchRateLimited ms _ \<Rightarrow> int ms \<le> u64_max | _ \<Rightarrow> True)"

definition fails_well :: "fetch_error + 'a \<Rightarrow> bool" where
  "fails_well r \<longleftrightarrow> (\<forall>e. r = Inl e \<longrightarrow> fetch_error_ok e)"

lemma fails_well_simps [simp]: "fails_well (Inr x)" "fails_well (Inl e) = fetch_error_ok e"
  by (simp_all add: fails_well_def)

lemma fails_well_bind: "fails_well m \<Longrightarrow> (\<And>x. fails_well (f x)) \<Longrightarrow> fails_well (res_bind m f)"
  by (cases m) simp_all

lemma json_parsed_scalar [simp]: "json_parsed JNull" "json_parsed (JStr s)" "json_parsed (JInt n)"
  by (simp_all add: json_parsed_def)

lemma unavailable_ok [simp]: "fetch_error_ok (fetch_unavailable code msg raw) \<longleftrightarrow> json_parsed raw"
  by (simp add: fetch_error_ok_def fetch_unavailable_def)

lemma classify_ok: "opt_ok (\<lambda>ms. int ms \<le> u64_max) retry \<Longrightarrow> fails_well (Esplora.classify status body retry path)"
proof -
  assume r: "opt_ok (\<lambda>ms. int ms \<le> u64_max) retry"
  have "json_parsed (pd_raw (classify_detail status capped path code))" for capped code
    using extra_parsed [of "[(''status'', JInt (int status)), (''body'', JStr capped)]"]
    by (simp add: classify_detail_def map_parsed_def)
  then show ?thesis
    using r by (auto simp: Esplora.classify_def Let_def fetch_error_ok_def DEFAULT_RETRY_AFTER_MS_def u64_max_def
        split: option.splits)
qed

lemma retry_after_ok: "opt_ok (\<lambda>ms. int ms \<le> u64_max) (retry_after_header h)"
  by (cases "Option.bind (Option.bind h header_str) (\<lambda>v. parse_u64 (trim v))")
    (auto simp: retry_after_header_def u64_max_def)

lemma http_get_ok: "http_get env url path w = (out, w') \<Longrightarrow> fails_well out"
  by (auto simp: http_get_def Let_def classify_ok retry_after_ok split: prod.splits sum.splits)

lemma replay_get_ok: "fails_well (replay_get fs dir path)"
  by (auto simp: replay_get_def classify_ok split: option.splits prod.splits)

lemma source_get_ok: "source_get env src path w = (out, w') \<Longrightarrow> fails_well out"
  by (auto simp: source_get_def replay_get_ok split: source.splits prod.splits dest: http_get_ok)

lemma get_json_ok: "get_json env src dcd path w = (out, w') \<Longrightarrow> fails_well out"
proof -
  assume g: "get_json env src dcd path w = (out, w')"
  obtain f w1 where s: "source_get env src path w = (f, w1)" by force
  have "fails_well (read_body env dcd path x)" for x
    by (cases x; cases "res_bind (ev_from_str env (case x of FetchedBody b \<Rightarrow> b | _ \<Rightarrow> [])) (\<lambda>j. map_err (ev_de_text env) (dcd j))")
      (simp_all add: read_body_def)
  then have "fails_well (res_bind f (read_body env dcd path))" by (rule fails_well_bind [OF source_get_ok [OF s]])
  then show ?thesis using g by (auto simp: get_json_def s)
qed

lemma chain_loop_ok:
  assumes "chain_loop env src address seen out w = Some r"
  shows "fails_well (fst r)"
proof (rule chain_loop.raw_induct [where P = "\<lambda>e s a seen out w r. fails_well (fst r)", OF _ assms])
  fix f and e :: "'a btc_env" and s a seen out w r
  assume IH: "\<And>e s a seen out w r. f e s a seen out w = Some r \<Longrightarrow> fails_well (fst r)"
    and eq: "(case get_json e s (de_vec de_tx) (chain_path a seen) w of
        (Inl x, w) \<Rightarrow> Some (Inl x, w)
      | (Inr page, w) \<Rightarrow>
          if page = [] then Some (Inr out, w)
          else if length page < CHAIN_PAGE then Some (Inr (out @ page), w)
          else if seen = Some (tx_txid (last page)) then
            Some (Inl (fetch_unavailable ''pagination_stalled''
              (chain_path a seen @ '': the listing did not advance past '' @ tx_txid (last page)) JNull), w)
          else f e s a (Some (tx_txid (last page))) (out @ page) w) = Some r"
  obtain x w1 where g: "get_json e s (de_vec de_tx) (chain_path a seen) w = (x, w1)" by force
  show "fails_well (fst r)"
    using eq get_json_ok [OF g] IH by (cases x) (auto simp: g split: if_splits)
qed

lemma admit_txs_ok: "fails_well (admit_txs address ts txs)"
  by (induction address ts txs rule: admit_txs.induct) (simp_all add: malformed_txid_def fetch_error_ok_def)

lemma sync_addresses_ok: "sync_addresses env src as txs w = Some (out, w') \<Longrightarrow> fails_well out"
proof (induction env src as txs w rule: sync_addresses.induct)
  case (2 env src a as txs w)
  show ?case
  proof (cases "address_chain env src a w")
    case (Some r)
    obtain c w1 where r: "r = (c, w1)" by force
    have c: "fails_well c" using chain_loop_ok [of env src a None "[]" w r] Some by (simp add: address_chain_def r)
    show ?thesis
    proof (cases c)
      case (Inr confirmed)
      obtain p w2 where p: "address_mempool env src a w1 = (p, w2)" by force
      have pok: "fails_well p" using p get_json_ok by (simp add: address_mempool_def)
      show ?thesis
      proof (cases p)
        case Inr': (Inr pending)
        show ?thesis
          using 2 admit_txs_ok [of a "confirmed @ pending" txs]
          by (cases "admit_txs a (confirmed @ pending) txs") (auto simp: Some r Inr p Inr')
      qed (use 2(2) pok in \<open>auto simp: Some r Inr p\<close>)
    qed (use 2(2) c in \<open>auto simp: Some r\<close>)
  qed (use 2(2) in simp)
qed auto

lemma sync_ok: "sync env src wl w = Some (out, w') \<Longrightarrow> fails_well out"
proof -
  assume "sync env src wl w = Some (out, w')"
  then obtain o' w1 where s: "sync_addresses env src (wl_addresses wl) [] w = Some (o', w1)"
    and o: "out = map_sum id chain_data o'"
    by (auto simp: sync_def)
  show ?thesis using sync_addresses_ok [OF s] by (cases o') (simp_all add: o)
qed

lemma address_stats_ok: "fetch_address_stats env src a w = (out, w') \<Longrightarrow> fails_well out"
  unfolding fetch_address_stats_def by (rule get_json_ok)

lemma wallet_balances_ok: "wallet_balances env src wl w = (out, w') \<Longrightarrow> fails_well out"
proof -
  have "balances_loop env src as acc w = (out, w') \<Longrightarrow> fails_well out" for as acc
  proof (induction env src as acc w rule: balances_loop.induct)
    case (2 env src a as c u w)
    obtain x w1 where s: "fetch_address_stats env src a w = (x, w1)" by force
    show ?case using 2 address_stats_ok [OF s] by (cases x) (auto simp: s)
  qed auto
  then show "wallet_balances env src wl w = (out, w') \<Longrightarrow> fails_well out" by (simp add: wallet_balances_def)
qed

section \<open>Observations of a page\<close>

text \<open>An observation the adapter made for one of its resources.\<close>

definition made_for :: "(json \<Rightarrow> nat option) \<Rightarrow> ctx \<Rightarrow> observation_wire \<Rightarrow> bool" where
  "made_for to_vec cx ob \<longleftrightarrow>
     observation_wire_ok ob \<and> ow_resource_id ob = cx_resource_id cx \<and>
     pw_adapter_id (ow_provenance ob) = cx_adapter_id cx \<and>
     pw_observed_at (ow_provenance ob) = cx_observed_at cx \<and>
     to_vec (ser_observation_wire ob) \<noteq> None \<and> wire_bytes to_vec ob \<le> MAX_OBSERVATION_BYTES"

lemma active_made:
  assumes "rfc_ok (cx_observed_at cx)" and "active cx t owned = Inr ob" and "degrade_step to_vec ob = Inr (ob', n)"
    and "n \<le> MAX_OBSERVATION_BYTES"
  shows "made_for to_vec cx ob'"
proof -
  have ok: "observation_wire_ok ob" by (rule active_ok [OF assms(1,2)])
  have tr: "map_parsed (btree_of [(''_truncated'', JBool True), (''_original_bytes'', JInt (int d))])" for d
    by (rule extra_parsed) (simp add: json_parsed_def)
  have d: "ob' = ob \<or> (\<exists>d. ob' = truncated ob d)" "to_vec (ser_observation_wire ob') = Some n"
    using assms(3) by (auto simp: degrade_step_def Let_def wire_size_def res_simps split: if_splits)
  have "observation_wire_ok ob' \<and> ow_resource_id ob' = ow_resource_id ob \<and>
      pw_adapter_id (ow_provenance ob') = pw_adapter_id (ow_provenance ob) \<and>
      pw_observed_at (ow_provenance ob') = pw_observed_at (ow_provenance ob)"
    using d(1) ok tr by (auto simp: truncated_def observation_wire_ok_def provenance_wire_ok_def)
  moreover have "ow_resource_id ob = cx_resource_id cx \<and> pw_adapter_id (ow_provenance ob) = cx_adapter_id cx \<and>
      pw_observed_at (ow_provenance ob) = cx_observed_at cx"
    by (rule active_InrE [OF assms(2)]) (simp add: ctx_provenance_def)
  ultimately show ?thesis using d(2) assms(4) by (simp add: made_for_def wire_bytes_def)
qed

lemma cut_items_made:
  assumes "cut_items to_vec budget items s = Inr s'"
    and "\<forall>it\<in>set items. \<forall>ob n. degrade_step to_vec (snd it) = Inr (ob, n) \<longrightarrow> n \<le> MAX_OBSERVATION_BYTES \<longrightarrow> P ob"
    and "\<forall>ob\<in>set (cu_observations s). P ob"
    and "\<forall>d\<in>set (cu_degraded s). int (dg_bytes d) \<le> u64_max"
  shows "(\<forall>ob\<in>set (cu_observations s'). P ob) \<and> (\<forall>d\<in>set (cu_degraded s'). int (dg_bytes d) \<le> u64_max)"
  using assms
proof (induction to_vec budget items s rule: cut_items.induct)
  case (2 to_vec budget k ob items s)
  obtain ob' n where d: "degrade_step to_vec ob = Inr (ob', n)"
    using 2(3) by (auto simp: res_simps)
  consider (big) "MAX_OBSERVATION_BYTES < n" | (cut) "n \<le> MAX_OBSERVATION_BYTES" "budget < cu_used s + (n + 1)"
    | (fits) "n \<le> MAX_OBSERVATION_BYTES" "cu_used s + (n + 1) \<le> budget" by linarith
  then show ?case
  proof cases
    case big
    then show ?thesis using 2(1) [OF d refl big] 2(3-) by (simp add: d)
  next
    case cut
    then show ?thesis using 2(3-) by (auto simp: d)
  next
    case fits
    then have "P ob'" using 2(4) d by simp
    then show ?thesis using fits 2(2) [OF d refl _ refl] 2(3-) by (simp add: d not_less)
  qed
qed simp

lemma page_made:
  assumes "rfc_ok (cx_observed_at cx)" and "make_plan cx ch owned from = Inr p"
    and "cut_page to_vec p from budget = Inr pg"
  shows "\<forall>ob\<in>set (pa_observations pg). made_for to_vec cx ob"
    and "\<forall>d\<in>set (pa_degraded pg). int (dg_bytes d) \<le> u64_max"
    and "pa_bytes pg \<le> budget" and "pa_bytes pg = (\<Sum>ob\<leftarrow>pa_observations pg. wire_bytes to_vec ob + 1)"
    and "opt_ok (\<lambda>n. n < 2 ^ 32) (pa_page_size_reduced_to pg)"
proof -
  obtain s where c: "cut_items to_vec budget (pl_items p)
      \<lparr>cu_observations = [], cu_last_key = None, cu_degraded = [], cu_used = 0, cu_cut = False\<rparr> = Inr s"
    using assms(3) by (auto simp: cut_page_def res_simps)
  have pg: "pa_observations pg = cu_observations s" "pa_degraded pg = cu_degraded s" "pa_bytes pg = cu_used s"
    using cut_page_Inr [OF c, of "from"] assms(3) by auto
  have items: "\<forall>it\<in>set (pl_items p). \<exists>t. active cx t owned = Inr (snd it)"
    using make_plan_entries(1) [OF assms(2), unfolded observed_Inr_iff]
    by (fastforce simp: list_all_iff is_ok_iff)
  have m: "(\<forall>ob\<in>set (cu_observations s). made_for to_vec cx ob) \<and> (\<forall>d\<in>set (cu_degraded s). int (dg_bytes d) \<le> u64_max)"
  proof (rule cut_items_made [OF c])
    show "\<forall>it\<in>set (pl_items p). \<forall>ob n. degrade_step to_vec (snd it) = Inr (ob, n) \<longrightarrow>
        n \<le> MAX_OBSERVATION_BYTES \<longrightarrow> made_for to_vec cx ob"
      using items active_made [OF assms(1)] by blast
  qed simp_all
  have i: "cut_inv to_vec budget s" by (rule cut_items_inv [OF c]) (simp add: cut_inv_def)
  show "\<forall>ob\<in>set (pa_observations pg). made_for to_vec cx ob"
    "\<forall>d\<in>set (pa_degraded pg). int (dg_bytes d) \<le> u64_max"
    using m by (simp_all add: pg)
  show "pa_bytes pg \<le> budget" "pa_bytes pg = (\<Sum>ob\<leftarrow>pa_observations pg. wire_bytes to_vec ob + 1)"
    using i by (simp_all add: pg cut_inv_def)
  show "opt_ok (\<lambda>n. n < 2 ^ 32) (pa_page_size_reduced_to pg)"
    using assms(3) by (auto simp: cut_page_def res_simps Let_def)
qed

section \<open>Status entries\<close>

lemma entry_fields [simp]:
  "rs_resource_id (status_entry r out) = r" "rs_outcome (status_entry r out) = out"
  "rs_resource_id (entry_with_detail s d) = rs_resource_id s" "rs_outcome (entry_with_detail s d) = rs_outcome s"
  "rs_resource_id (unknown_resource r) = r" "rs_outcome (unknown_resource r) = NotFetched"
  "rs_resource_id (fetched_entry r pg) = r" "rs_outcome (fetched_entry r pg) = Fetched (pa_observations pg = [])"
  by (simp_all add: status_entry_def entry_with_detail_def unknown_resource_def fetched_entry_def)

lemma status_entry_ok [simp]: "resource_status_ok (status_entry r out) \<longleftrightarrow> outcome_ok out"
  by (simp add: status_entry_def resource_status_ok_def)

lemma entry_detail_ok: "resource_status_ok s \<Longrightarrow> json_parsed (pd_raw d) \<Longrightarrow> resource_status_ok (entry_with_detail s d)"
  by (simp add: entry_with_detail_def resource_status_ok_def)

lemma unknown_ok [simp]: "resource_status_ok (unknown_resource r)"
  by (simp add: unknown_resource_def entry_detail_ok outcome_ok_def)

lemma failed_entry_ok:
  "fetch_error_ok (FetchRateLimited ms d) \<Longrightarrow> resource_status_ok (entry_with_detail (status_entry r (RateLimited ms)) d)"
  "fetch_error_ok (FetchUnavailable d) \<Longrightarrow>
     resource_status_ok (entry_with_detail (status_entry r read_outcome.Unavailable) d)"
  "fetch_error_ok (FetchUnavailable d) \<Longrightarrow> rfc_ok t \<Longrightarrow>
     resource_status_ok (entry_with_detail (status_entry r (Stale t)) d)"
  by (simp_all add: fetch_error_ok_def entry_detail_ok outcome_ok_def)

lemma fetched_entry_ok:
  assumes "\<forall>d\<in>set (pa_degraded pg). int (dg_bytes d) \<le> u64_max"
    and "opt_ok (\<lambda>n. n < 2 ^ 32) (pa_page_size_reduced_to pg)"
  shows "resource_status_ok (fetched_entry r pg)"
proof -
  have "opt_ok page_request_ok (map_option (\<lambda>c. Cursor (cursor_encode c)) (pa_next pg))"
    by (cases "pa_next pg") simp_all
  with assms show ?thesis
    by (simp add: fetched_entry_def status_entry_def resource_status_ok_def outcome_ok_def page_reply_of_def page_reply_ok_def)
qed

section \<open>Balances\<close>

lemma opt_sats_ok: "opt_sats v = Inr a \<Longrightarrow> opt_ok money_ok a \<and> a = map_option sat v"
proof (cases v)
  case (Some n)
  assume "opt_sats v = Inr a"
  then have "\<bar>n\<bar> < 10 ^ MAX_DIGITS" "a = Some (sat n)"
    using Some by (auto simp: opt_sats_def res_simps map_sum_Inr_iff sats_Inr_iff)
  then show ?thesis
    using asset_sat by (simp add: Some money_ok_def amount_ok_def sat_def digit_count_iff res_simps)
qed (simp add: opt_sats_def)

lemma balance_lines_ok:
  assumes "rfc_ok (cx_observed_at cx)" and "balance_lines cx c u = Inr bs"
  shows "\<forall>b\<in>set bs. balance_wire_ok b \<and> bw_resource_id b = cx_resource_id cx \<and>
      pw_adapter_id (bw_provenance b) = cx_adapter_id cx"
    and "map bw_amount bs = [map_option sat c, map_option sat u]"
proof -
  obtain a b where "opt_sats c = Inr a" "opt_sats u = Inr b"
    and bs: "bs = [\<lparr>bw_resource_id = cx_resource_id cx, bw_category = ''confirmed'', bw_canonical_hint = Some Confirmed,
                   bw_amount = a, bw_provenance = ctx_provenance cx SURFACE_STATS None\<rparr>,
                 \<lparr>bw_resource_id = cx_resource_id cx, bw_category = ''unconfirmed'', bw_canonical_hint = Some Unconfirmed,
                   bw_amount = b, bw_provenance = ctx_provenance cx SURFACE_STATS None\<rparr>]"
    using assms(2) by (auto simp: balance_lines_def balance_line_def res_simps)
  with opt_sats_ok assms(1)
  show "\<forall>b\<in>set bs. balance_wire_ok b \<and> bw_resource_id b = cx_resource_id cx \<and>
      pw_adapter_id (bw_provenance b) = cx_adapter_id cx"
    "map bw_amount bs = [map_option sat c, map_option sat u]"
    by (auto simp: balance_wire_ok_def ctx_provenance_def provenance_wire_ok_def)
qed

lemma load_seen_ok: "opt_ok rfc_ok (sn_balances_as_of (load_seen env dir fs r h))"
proof -
  have "decode_seen f = Some s \<Longrightarrow> opt_ok rfc_ok (sn_balances_as_of s)" for f s
    by (auto simp: decode_seen_def res_simps bind_eq_Some_conv split: option.splits dest: rfc3339_new_ok)
  then show ?thesis
    by (auto simp: load_seen_def seen_default_def split: option.splits)
qed

section \<open>Requests the host writes\<close>

lemma stable_request_id [stable]: "value_stable de_request_id"
  unfolding de_request_id_def value_stable_def by (intro allI res_le_bind stable_u64 [unfolded value_stable_def, rule_format] res_le_refl)

lemma stable_request [stable]: "value_stable de_request"
  unfolding de_request_def by (rule stable_struct) (intro stable)

lemma stable_query [stable]: "value_stable de_resource_query"
  unfolding de_resource_query_def by (rule stable_struct) (intro stable)

lemma stable_history_params [stable]: "value_stable de_history_read_params"
  unfolding de_history_read_params_def by (rule stable_struct) (intro stable)

lemma stable_balances_params [stable]: "value_stable de_balances_read_params"
  unfolding de_balances_read_params_def by (rule stable_struct) (intro stable)

lemma observed_now_ok: "observed_now env ad w = Inr t \<Longrightarrow> rfc_ok t"
  by (auto simp: observed_now_def res_simps rfc3339_utc_new dest: rfc3339_new_ok)

end
