(* ===== verification/Bitcoin_Adapter_Correct.thy ===== *)
theory Bitcoin_Adapter_Correct
  imports Bitcoin_Replies Host_Correct
begin

text \<open>
  What a history read of the Bitcoin adapter answers: the invariant of its crawl snapshots, what
  one resource and then the loop over all of them add to a reply, that the reply's observations
  keep within what its statuses leave of the frame, and that the host takes the reply as it was
  meant.
\<close>

section \<open>The snapshots\<close>

definition snapshot_ok :: "crawl_snapshot \<Rightarrow> bool" where
  "snapshot_ok cs \<longleftrightarrow> rfc_ok (cs_observed_at cs) \<and> chain_ok (cs_chain cs)"

definition adapter_inv :: "'w adapter_state \<Rightarrow> bool" where
  "adapter_inv st \<longleftrightarrow>
     distinct (map fst (as_crawls st)) \<and> (\<forall>r cs. map_of (as_crawls st) r = Some cs \<longrightarrow> snapshot_ok cs)"

lemma adapter_inv_world [simp]: "adapter_inv (st\<lparr>as_world := w\<rparr>) = adapter_inv st"
  by (simp add: adapter_inv_def)

lemma lookup_wallet_id: "lookup_wallet ad r = Some wl \<Longrightarrow> wl_resource_id wl = r"
  unfolding lookup_wallet_def by (drule find_SomeD) simp

lemma start_crawl_cases:
  assumes "start_crawl env ad wl r st = Some (out, st')"
  obtains (clock) e where "out = Inl e" "st' = st"
  | (failed) e w' where "out = Inr (Some e)" "fetch_error_ok e" "st' = st\<lparr>as_world := w'\<rparr>"
      "sync env (ad_source ad) wl (as_world st) = Some (Inl e, w')"
  | (taken) t ch w' where "out = Inr None" "rfc_ok t" "chain_ok ch"
      "observed_now env ad (as_world st) = Inr t"
      "sync env (ad_source ad) wl (as_world st) = Some (Inr ch, w')"
      "st' = st\<lparr>as_world := w',
                as_crawls := AList.update r \<lparr>cs_observed_at = t, cs_chain = ch\<rparr> (as_crawls st)\<rparr>"
proof (cases "observed_now env ad (as_world st)")
  case (Inl e)
  show thesis by (rule clock [of e]) (use assms in \<open>simp_all add: start_crawl_def Inl\<close>)
next
  case (Inr t)
  then obtain o' w' where s: "sync env (ad_source ad) wl (as_world st) = Some (o', w')"
    using assms by (auto simp: start_crawl_def)
  show thesis
  proof (cases o')
    case (Inl e)
    show thesis
      by (rule failed [of e w']) (use assms sync_ok [OF s] in \<open>simp_all add: start_crawl_def Inr s Inl\<close>)
  next
    case ok: (Inr ch)
    show thesis
      by (rule taken [of t ch w'])
        (use assms observed_now_ok [OF Inr] sync_chain_ok [OF s [unfolded ok]] in \<open>simp_all add: start_crawl_def Inr s ok\<close>)
  qed
qed

text \<open>Whatever a step does to the snapshots, it keeps the invariant and touches its own only.\<close>

definition crawls_step :: "string \<Rightarrow> 'w adapter_state \<Rightarrow> 'w adapter_state \<Rightarrow> bool" where
  "crawls_step r st st' \<longleftrightarrow>
     (adapter_inv st \<longrightarrow> adapter_inv st') \<and>
     (\<forall>r'. r' \<noteq> r \<longrightarrow> map_of (as_crawls st') r' = map_of (as_crawls st) r')"

lemma crawls_step_refl: "crawls_step r st st"
  by (simp add: crawls_step_def)

lemma crawls_step_trans: "crawls_step r st st' \<Longrightarrow> crawls_step r st' st'' \<Longrightarrow> crawls_step r st st''"
  by (simp add: crawls_step_def)

lemma crawls_step_start: "start_crawl env ad wl r st = Some (out, st') \<Longrightarrow> crawls_step r st st'"
proof (erule start_crawl_cases, goal_cases)
  case (3 t ch w')
  then show ?case
    by (auto simp: crawls_step_def adapter_inv_def snapshot_ok_def update_conv' distinct_update)
qed (simp_all add: crawls_step_def)

lemma crawls_step_drop:
  "crawls = as_crawls st \<or> crawls = AList.delete r (as_crawls st) \<Longrightarrow> crawls_step r st (st\<lparr>as_crawls := crawls\<rparr>)"
  by (auto simp: crawls_step_def adapter_inv_def delete_conv' distinct_delete split: if_splits dest: map_of_SomeD)

lemma serve_page_Inr:
  assumes "serve_page env ad wl r from budget (as_crawls st) = Inr (pg, b, crawls)"
  obtains cs p where "map_of (as_crawls st) r = Some cs"
    "make_plan (adapter_ctx ad wl (cs_observed_at cs)) (cs_chain cs) (wl_owned wl) from = Inr p"
    "cut_page (ev_to_vec env) p from (budget_page (budget_charge env (status_entry r (Fetched True)) budget)) = Inr pg"
    "b = budget_charge env (status_entry r (Fetched True)) budget - pa_bytes pg"
    "crawls = (if pa_next pg = None then AList.delete r (as_crawls st) else as_crawls st)"
proof -
  from assms obtain cs where cs: "map_of (as_crawls st) r = Some cs"
    by (auto simp: serve_page_def Let_def split: option.splits)
  show thesis
    by (rule assms [unfolded serve_page_def Let_def cs option.case, simplified res_simps, THEN exE])
      (auto intro: that [OF cs])
qed

section \<open>One resource\<close>

fun limited :: "read_outcome \<Rightarrow> bool" where
  "limited (RateLimited ms) = True"
| "limited out = False"

definition sent_ok :: "'w btc_env \<Rightarrow> string \<Rightarrow> observation_wire \<Rightarrow> bool" where
  "sent_ok env r ob \<longleftrightarrow>
     observation_wire_ok ob \<and> ow_resource_id ob = r \<and> pw_adapter_id (ow_provenance ob) = ADAPTER_ID \<and>
     ev_to_vec env (ser_observation_wire ob) \<noteq> None \<and> wire_bytes (ev_to_vec env) ob \<le> MAX_OBSERVATION_BYTES"

definition obs_bytes :: "'w btc_env \<Rightarrow> observation_wire list \<Rightarrow> nat" where
  "obs_bytes env obs = (\<Sum>ob\<leftarrow>obs. wire_bytes (ev_to_vec env) ob + 1)"

definition step_reply ::
  "'w btc_env \<Rightarrow> string \<Rightarrow> bool \<Rightarrow> nat \<Rightarrow> observation_wire list \<Rightarrow> resource_status \<Rightarrow> bool \<Rightarrow> nat \<Rightarrow> bool" where
  "step_reply env r abandoned b obs s abandoned' b' \<longleftrightarrow>
     rs_resource_id s = r \<and> resource_status_ok s \<and> (\<forall>ob\<in>set obs. sent_ok env r ob) \<and>
     (obs \<noteq> [] \<longrightarrow> rs_outcome s = Fetched False) \<and> (abandoned \<longrightarrow> rs_outcome s = NotFetched) \<and>
     (abandoned' \<longleftrightarrow> abandoned \<or> limited (rs_outcome s)) \<and> obs_bytes env obs + b' \<le> b"

lemma budget_charge_le: "budget_charge env s b \<le> b"
  by (simp add: budget_charge_def)

lemma serve_page_reply:
  assumes "serve_page env ad wl (wl_resource_id wl) from budget (as_crawls st) = Inr (pg, b, crawls)" and "adapter_inv st"
  shows "step_reply env (wl_resource_id wl) False budget (pa_observations pg) (fetched_entry (wl_resource_id wl) pg) False b"
    and "crawls_step (wl_resource_id wl) st (st\<lparr>as_crawls := crawls\<rparr>)"
proof -
  let ?r = "wl_resource_id wl"
  let ?charged = "budget_charge env (status_entry ?r (Fetched True)) budget"
  from assms(1) obtain cs p where cs: "map_of (as_crawls st) ?r = Some cs"
    and p: "make_plan (adapter_ctx ad wl (cs_observed_at cs)) (cs_chain cs) (wl_owned wl) from = Inr p"
    and pg: "cut_page (ev_to_vec env) p from (budget_page ?charged) = Inr pg"
    and b: "b = ?charged - pa_bytes pg"
    and c: "crawls = (if pa_next pg = None then AList.delete ?r (as_crawls st) else as_crawls st)"
    by (rule serve_page_Inr)
  show "crawls_step ?r st (st\<lparr>as_crawls := crawls\<rparr>)" by (rule crawls_step_drop) (simp add: c)
  have "rfc_ok (cs_observed_at cs)" using assms(2) cs by (auto simp: adapter_inv_def snapshot_ok_def)
  then have "rfc_ok (cx_observed_at (adapter_ctx ad wl (cs_observed_at cs)))" by (simp add: adapter_ctx_def)
  note m = page_made [OF this p pg]
  have "sent_ok env ?r ob" if "ob \<in> set (pa_observations pg)" for ob
    using m(1) that by (simp add: made_for_def sent_ok_def adapter_ctx_def)
  moreover have "obs_bytes env (pa_observations pg) + b \<le> budget"
    using m(3,4) budget_charge_le [of env "status_entry ?r (Fetched True)" budget]
    by (simp add: obs_bytes_def b budget_page_def)
  ultimately show "step_reply env ?r False budget (pa_observations pg) (fetched_entry ?r pg) False b"
    using fetched_entry_ok [OF m(2,5)] by (simp add: step_reply_def)
qed

lemma history_step_crawls:
  assumes "history_step env ad ab b q st = Some (out, st')"
  shows "crawls_step (qy_resource_id q) st st'"
proof (cases "read_cursor env (qy_page q)")
  case (Inr "from")
  show ?thesis
  proof (cases "lookup_wallet ad (qy_resource_id q) = None \<or> ab")
    case False
    then obtain wl where wl: "lookup_wallet ad (qy_resource_id q) = Some wl" by auto
    let ?start = "if from = None \<or> map_of (as_crawls st) (qy_resource_id q) = None
        then start_crawl env ad wl (qy_resource_id q) st else Some (Inr None, st)"
    obtain o1 st1 where s: "?start = Some (o1, st1)"
      using assms False by (auto simp: history_step_def Inr wl Let_def split: option.splits)
    have c1: "crawls_step (qy_resource_id q) st st1"
      using s crawls_step_start crawls_step_refl by (auto split: if_splits)
    show ?thesis
    proof (cases "o1 = Inr None")
      case True
      then show ?thesis
        using assms False c1 s
        by (auto simp: history_step_def Inr wl Let_def split: sum.splits prod.splits
            elim!: serve_page_Inr intro!: crawls_step_trans [OF c1] crawls_step_drop)
    next
      case o1: False
      then have "st' = st1"
        using assms False s
        by (cases o1) (auto simp: history_step_def Inr wl Let_def split: option.splits fetch_error.splits)
      with c1 show ?thesis by simp
    qed
  qed (use assms in \<open>auto simp: history_step_def Inr Let_def crawls_step_refl split: option.splits\<close>)
qed (use assms in \<open>simp add: history_step_def crawls_step_refl\<close>)

lemma plain_reply:
  assumes "rs_resource_id s = r" "resource_status_ok s" "ab \<longrightarrow> rs_outcome s = NotFetched"
    "ab' \<longleftrightarrow> ab \<or> limited (rs_outcome s)"
  shows "step_reply env r ab b [] s ab' (budget_charge env s b)"
  using assms budget_charge_le [of env s b] by (simp add: step_reply_def obs_bytes_def)

lemma history_step_reply:
  assumes "history_step env ad ab b q st = Some (Inr (obs, s, ab', b'), st')" and "adapter_inv st"
  shows "step_reply env (qy_resource_id q) ab b obs s ab' b'"
proof -
  let ?r = "qy_resource_id q"
  obtain "from" where f: "read_cursor env (qy_page q) = Inr from"
    using assms(1) by (auto simp: history_step_def split: sum.splits)
  show ?thesis
  proof (cases "lookup_wallet ad ?r = None \<or> ab")
    case True
    then show ?thesis using assms(1)
      by (auto simp: history_step_def f Let_def outcome_ok_def split: option.splits intro!: plain_reply)
  next
    case False
    then obtain wl where wl: "lookup_wallet ad ?r = Some wl" "\<not> ab" by auto
    let ?start = "if from = None \<or> map_of (as_crawls st) ?r = None
        then start_crawl env ad wl ?r st else Some (Inr None, st)"
    obtain o1 st1 where s: "?start = Some (Inr o1, st1)"
      using assms(1) wl by (auto simp: history_step_def f Let_def split: option.splits sum.splits)
    have inv: "adapter_inv st1" and err: "opt_ok fetch_error_ok o1"
      using s assms(2) crawls_step_start [of env ad wl ?r st]
      by (auto simp: crawls_step_def split: if_splits elim!: start_crawl_cases)
    show ?thesis
    proof (cases o1)
      case None
      then obtain pg crawls where
        "serve_page env ad wl (wl_resource_id wl) from b (as_crawls st1) = Inr (pg, b', crawls)"
        "obs = pa_observations pg" "s = fetched_entry ?r pg" "\<not> ab'"
        using assms(1) wl s by (auto simp: history_step_def f Let_def lookup_wallet_id split: sum.splits)
      with serve_page_reply(1) [OF this(1) inv] show ?thesis using wl by (simp add: lookup_wallet_id)
    next
      case (Some e)
      then show ?thesis using assms(1) wl s err
        by (cases e) (auto simp: history_step_def f Let_def intro!: plain_reply failed_entry_ok)
    qed
  qed
qed

section \<open>All resources\<close>

fun quiet :: "bool \<Rightarrow> resource_status list \<Rightarrow> bool" where
  "quiet abandoned [] \<longleftrightarrow> True"
| "quiet abandoned (s # ss) \<longleftrightarrow>
     (abandoned \<longrightarrow> rs_outcome s = NotFetched) \<and> quiet (abandoned \<or> limited (rs_outcome s)) ss"

text \<open>
  What the loop adds to a reply: one status for each resource, in order, nothing but
  \<open>NotFetched\<close> after the provider asked to stop, and only well-formed observations of resources
  that were fetched, within the budget.
\<close>

definition history_ok ::
  "'w btc_env \<Rightarrow> bool \<Rightarrow> nat \<Rightarrow> string list \<Rightarrow> observation_wire list \<Rightarrow> resource_status list \<Rightarrow> bool" where
  "history_ok env abandoned b ids obs sts \<longleftrightarrow>
     map rs_resource_id sts = ids \<and> list_all resource_status_ok sts \<and> quiet abandoned sts \<and> obs_bytes env obs \<le> b \<and>
     list_all (\<lambda>ob. sent_ok env (ow_resource_id ob) ob \<and>
                 list_ex (\<lambda>s. rs_resource_id s = ow_resource_id ob \<and> rs_outcome s = Fetched False) sts) obs"

lemma history_ok_Cons:
  assumes "step_reply env r ab b obs s ab' b'" and "history_ok env ab' b' ids obs' sts"
  shows "history_ok env ab b (r # ids) (obs @ obs') (s # sts)"
proof -
  have "sent_ok env (ow_resource_id ob) ob \<and> rs_resource_id s = ow_resource_id ob \<and> rs_outcome s = Fetched False"
    if "ob \<in> set obs" for ob
    using assms(1) that by (auto simp: step_reply_def sent_ok_def)
  then show ?thesis
    using assms by (auto simp: history_ok_def step_reply_def obs_bytes_def list_all_iff)
qed

lemma history_each_adds:
  assumes "history_each env ad qs ab b (obs, sts) st = Some (Inr (obs', sts'), st')" and "adapter_inv st"
  shows "\<exists>o2 s2. obs' = obs @ o2 \<and> sts' = sts @ s2 \<and> history_ok env ab b (map qy_resource_id qs) o2 s2"
  using assms
proof (induction qs arbitrary: ab b obs sts st)
  case Nil
  then show ?case by (simp add: history_ok_def obs_bytes_def)
next
  case (Cons q qs)
  obtain o1 s1 ab1 b1 st1 where step: "history_step env ad ab b q st = Some (Inr (o1, s1, ab1, b1), st1)"
    using Cons.prems(1) by (auto split: option.splits sum.splits)
  have inv: "adapter_inv st1" using history_step_crawls [OF step] Cons.prems(2) by (simp add: crawls_step_def)
  obtain o2 s2 where r: "obs' = (obs @ o1) @ o2" "sts' = (sts @ [s1]) @ s2"
    "history_ok env ab1 b1 (map qy_resource_id qs) o2 s2"
    using Cons.IH [OF _ inv, of ab1 b1 "obs @ o1" "sts @ [s1]"] Cons.prems(1) step by auto
  have "history_ok env ab b (map qy_resource_id (q # qs)) (o1 @ o2) (s1 # s2)"
    using history_ok_Cons [OF history_step_reply [OF step Cons.prems(2)] r(3)] by simp
  with r(1,2) show ?case by (intro exI [of _ "o1 @ o2"] exI [of _ "s1 # s2"]) simp
qed

lemma history_each_crawls:
  assumes "history_each env ad qs ab b acc st = Some (out, st')"
  shows "(adapter_inv st \<longrightarrow> adapter_inv st') \<and>
    (\<forall>r. r \<notin> qy_resource_id ` set qs \<longrightarrow> map_of (as_crawls st') r = map_of (as_crawls st) r)"
  using assms
proof (induction qs arbitrary: ab b acc st)
  case (Cons q qs)
  obtain obs sts where acc: "acc = (obs, sts)" by force
  obtain o1 st1 where step: "history_step env ad ab b q st = Some (o1, st1)"
    using Cons.prems by (auto simp: acc split: option.splits)
  note c = history_step_crawls [OF step]
  show ?case
  proof (cases o1)
    case (Inl e)
    then show ?thesis using Cons.prems c by (auto simp: acc step crawls_step_def)
  next
    case (Inr x)
    obtain o' s' ab' b' where x: "x = (o', s', ab', b')" using prod_cases4 by blast
    have "history_each env ad qs ab' b' (obs @ o', sts @ [s']) st1 = Some (out, st')"
      using Cons.prems by (simp add: acc step Inr x)
    from Cons.IH [OF this] c show ?thesis by (auto simp: crawls_step_def)
  qed
qed simp

section \<open>What the adapter answers\<close>

text \<open>
  The answer to one query, told without the reply: a wallet that is not configured and every query
  after a rate limit have no observation and say so; a sync that failed is reported; and otherwise
  the answer is the page that the plan of the resource's snapshot gives from the cursor of the query,
  within the room that is left. The snapshot is the one of before, or a new one if the query starts
  a crawl or there is none.
\<close>

definition starts_crawl :: "resource_query \<Rightarrow> btc_cursor option \<Rightarrow> 'w adapter_state \<Rightarrow> bool" where
  "starts_crawl q from st \<longleftrightarrow> from = None \<or> map_of (as_crawls st) (qy_resource_id q) = None"

inductive snapshot_read ::
  "'w btc_env \<Rightarrow> adapter \<Rightarrow> wallet \<Rightarrow> string \<Rightarrow> bool \<Rightarrow> 'w adapter_state \<Rightarrow> crawl_snapshot \<Rightarrow> 'w adapter_state \<Rightarrow> bool"
  for env ad wl r where
  Kept: "map_of (as_crawls st) r = Some cs \<Longrightarrow> snapshot_read env ad wl r False st cs st"
| Taken: "observed_now env ad (as_world st) = Inr t \<Longrightarrow>
    sync env (ad_source ad) wl (as_world st) = Some (Inr ch, w) \<Longrightarrow> cs = \<lparr>cs_observed_at = t, cs_chain = ch\<rparr> \<Longrightarrow>
    snapshot_read env ad wl r True st cs (st\<lparr>as_world := w, as_crawls := AList.update r cs (as_crawls st)\<rparr>)"

definition failure_entry :: "string \<Rightarrow> fetch_error \<Rightarrow> resource_status" where
  "failure_entry r e =
     (case e of
        FetchRateLimited ms detail \<Rightarrow> entry_with_detail (status_entry r (RateLimited ms)) detail
      | FetchUnavailable detail \<Rightarrow> entry_with_detail (status_entry r Unavailable) detail)"

inductive query_answer ::
  "'w btc_env \<Rightarrow> adapter \<Rightarrow> bool \<Rightarrow> nat \<Rightarrow> resource_query \<Rightarrow> 'w adapter_state \<Rightarrow>
   observation_wire list \<Rightarrow> resource_status \<Rightarrow> nat \<Rightarrow> 'w adapter_state \<Rightarrow> bool"
  for env ad where
  Unconfigured: "lookup_wallet ad (qy_resource_id q) = None \<Longrightarrow> s = unknown_resource (qy_resource_id q) \<Longrightarrow>
    query_answer env ad stopped b q st [] s (budget_charge env s b) st"
| Stopped: "lookup_wallet ad (qy_resource_id q) = Some wl \<Longrightarrow> s = status_entry (qy_resource_id q) NotFetched \<Longrightarrow>
    query_answer env ad True b q st [] s (budget_charge env s b) st"
| Failed: "lookup_wallet ad (qy_resource_id q) = Some wl \<Longrightarrow> read_cursor env (qy_page q) = Inr from \<Longrightarrow>
    starts_crawl q from st \<Longrightarrow> sync env (ad_source ad) wl (as_world st) = Some (Inl e, w) \<Longrightarrow>
    s = failure_entry (qy_resource_id q) e \<Longrightarrow>
    query_answer env ad False b q st [] s (budget_charge env s b) (st\<lparr>as_world := w\<rparr>)"
| Page: "lookup_wallet ad (qy_resource_id q) = Some wl \<Longrightarrow> read_cursor env (qy_page q) = Inr from \<Longrightarrow>
    snapshot_read env ad wl (qy_resource_id q) (starts_crawl q from st) st cs st1 \<Longrightarrow>
    make_plan (adapter_ctx ad wl (cs_observed_at cs)) (cs_chain cs) (wl_owned wl) from = Inr p \<Longrightarrow>
    cut_page (ev_to_vec env) p from (budget_page b) = Inr pg \<Longrightarrow>
    crawls = (if pa_next pg = None then AList.delete (qy_resource_id q) (as_crawls st1) else as_crawls st1) \<Longrightarrow>
    query_answer env ad False b q st (pa_observations pg) (fetched_entry (qy_resource_id q) pg) (b - pa_bytes pg)
      (st1\<lparr>as_crawls := crawls\<rparr>)"

text \<open>The answers to a list of queries: the observations one after the other, and the statuses.\<close>

inductive history_answer ::
  "'w btc_env \<Rightarrow> adapter \<Rightarrow> bool \<Rightarrow> nat \<Rightarrow> resource_query list \<Rightarrow> 'w adapter_state \<Rightarrow>
   observation_wire list \<Rightarrow> resource_status list \<Rightarrow> 'w adapter_state \<Rightarrow> bool"
  for env ad where
  Done: "history_answer env ad stopped b [] st [] [] st"
| Next: "query_answer env ad stopped b q st obs s b' st1 \<Longrightarrow>
    history_answer env ad (stopped \<or> limited (rs_outcome s)) b' qs st1 obs' ss st' \<Longrightarrow>
    history_answer env ad stopped b (q # qs) st (obs @ obs') (s # ss) st'"

lemma charge_fetched: "budget_charge env (status_entry r (Fetched True)) b = b"
  by (simp add: budget_charge_def status_bytes_def)

lemma history_step_answer:
  assumes "history_step env ad ab b q st = Some (Inr (obs, s, ab', b'), st')"
  shows "query_answer env ad ab b q st obs s b' st' \<and> (ab' \<longleftrightarrow> ab \<or> limited (rs_outcome s))"
proof -
  let ?r = "qy_resource_id q"
  obtain "from" where f: "read_cursor env (qy_page q) = Inr from"
    using assms by (auto simp: history_step_def split: sum.splits)
  show ?thesis
  proof (cases "lookup_wallet ad ?r")
    case None
    with assms show ?thesis
      by (auto simp: history_step_def f Let_def unknown_resource_def entry_with_detail_def status_entry_def
          intro: query_answer.Unconfigured [unfolded unknown_resource_def entry_with_detail_def status_entry_def])
  next
    case wl: (Some wl)
    show ?thesis
    proof (cases ab)
      case True
      with assms show ?thesis
        by (auto simp: history_step_def f wl Let_def status_entry_def
            intro: query_answer.Stopped [OF wl, unfolded status_entry_def])
    next
      case False
      let ?new = "starts_crawl q from st"
      obtain o1 st1 where s: "(if ?new then start_crawl env ad wl ?r st else Some (Inr None, st)) = Some (Inr o1, st1)"
        using assms False by (auto simp: history_step_def f wl Let_def starts_crawl_def split: option.splits sum.splits)
      show ?thesis
      proof (cases o1)
        case None
        have "\<exists>cs. snapshot_read env ad wl ?r ?new st cs st1 \<and> map_of (as_crawls st1) ?r = Some cs"
        proof (cases ?new)
          case True
          then have "start_crawl env ad wl ?r st = Some (Inr None, st1)" using s None by simp
          then show ?thesis
            by (rule start_crawl_cases) (auto simp: True update_conv' intro!: snapshot_read.Taken)
        next
          case False
          then show ?thesis using s by (auto simp: starts_crawl_def intro!: snapshot_read.Kept)
        qed
        then obtain cs where cs: "snapshot_read env ad wl ?r ?new st cs st1" "map_of (as_crawls st1) ?r = Some cs" by blast
        obtain pg crawls where pg: "serve_page env ad wl ?r from b (as_crawls st1) = Inr (pg, b', crawls)"
          "obs = pa_observations pg" "s = fetched_entry ?r pg" "\<not> ab'" "st' = st1\<lparr>as_crawls := crawls\<rparr>"
          using assms False s None
          by (auto simp: history_step_def f wl Let_def starts_crawl_def split: sum.splits)
        from pg(1) obtain cs' p where p: "map_of (as_crawls st1) ?r = Some cs'"
          "make_plan (adapter_ctx ad wl (cs_observed_at cs')) (cs_chain cs') (wl_owned wl) from = Inr p"
          "cut_page (ev_to_vec env) p from (budget_page b) = Inr pg" "b' = b - pa_bytes pg"
          "crawls = (if pa_next pg = None then AList.delete ?r (as_crawls st1) else as_crawls st1)"
          by (rule serve_page_Inr [where b = b']) (simp_all add: charge_fetched)
        then have same: "cs' = cs" using cs(2) by simp
        have "\<not> limited (rs_outcome s)" by (simp add: pg(3) fetched_entry_def status_entry_def)
        with query_answer.Page [OF wl f cs(1) p(2) [unfolded same] p(3,5)] False show ?thesis
          by (simp add: pg(2-5) p(4))
      next
        case (Some e)
        then have new: ?new using s by (auto split: if_splits)
        then have "start_crawl env ad wl ?r st = Some (Inr (Some e), st1)" using s Some by simp
        then obtain w' where w: "st1 = st\<lparr>as_world := w'\<rparr>" "sync env (ad_source ad) wl (as_world st) = Some (Inl e, w')"
          by (rule start_crawl_cases) auto
        have r: "obs = []" "s = failure_entry ?r e" "b' = budget_charge env s b" "st' = st1"
          "ab' \<longleftrightarrow> limited (rs_outcome s)"
          using assms False s Some new
          by (cases e; auto simp: history_step_def f wl Let_def starts_crawl_def failure_entry_def entry_with_detail_def
              status_entry_def)+
        from query_answer.Failed [OF wl f new w(2) r(2)] False show ?thesis by (simp add: r(1,3,4,5) w(1))
      qed
    qed
  qed
qed

lemma history_each_answer:
  assumes "history_each env ad qs ab b (obs, sts) st = Some (Inr (obs', sts'), st')"
  shows "\<exists>o2 s2. obs' = obs @ o2 \<and> sts' = sts @ s2 \<and> history_answer env ad ab b qs st o2 s2 st'"
  using assms
proof (induction qs arbitrary: ab b obs sts st)
  case Nil
  then show ?case by (simp add: history_answer.Done)
next
  case (Cons q qs)
  obtain o1 s1 ab1 b1 st1 where step: "history_step env ad ab b q st = Some (Inr (o1, s1, ab1, b1), st1)"
    using Cons.prems by (auto split: option.splits sum.splits)
  obtain o2 s2 where r: "obs' = (obs @ o1) @ o2" "sts' = (sts @ [s1]) @ s2" "history_answer env ad ab1 b1 qs st1 o2 s2 st'"
    using Cons.IH [of ab1 b1 "obs @ o1" "sts @ [s1]" st1] Cons.prems step by auto
  have "history_answer env ad ab b (q # qs) st (o1 @ o2) (s1 # s2) st'"
    using history_answer.Next [OF conjunct1 [OF history_step_answer [OF step]]]
      conjunct2 [OF history_step_answer [OF step]] r(3) by simp
  with r(1,2) show ?case by (intro exI [of _ "o1 @ o2"] exI [of _ "s1 # s2"]) simp
qed

lemma no_repeats_iff: "no_repeats done rs = Inr u \<longleftrightarrow> distinct rs \<and> set rs \<inter> set done = {}"
  by (induction "done" rs rule: no_repeats.induct) auto

lemma budget_reserve_eq: "budget_reserve env ids b = b - (\<Sum>i\<leftarrow>ids. status_bytes env i)"
  by (induction ids arbitrary: b) (simp_all add: budget_reserve_def)

definition history_budget :: "'w btc_env \<Rightarrow> resource_query list \<Rightarrow> nat" where
  "history_budget env qs = MAX_FRAME_BYTES - ENVELOPE_BYTES - (\<Sum>q\<leftarrow>qs. status_bytes env (qy_resource_id q))"

lemma op_history_reply:
  assumes "op_history_read env ad params st = Some (Inr body, st')" and "adapter_inv st"
  obtains qs obs sts where "de_history_read_params params = Inr qs" "distinct (map qy_resource_id qs)"
    "body = json_value (ser_history_read_reply (obs, sts))"
    "history_ok env False (history_budget env qs) (map qy_resource_id qs) obs sts"
    "history_answer env ad False (history_budget env qs) qs st obs sts st'"
proof -
  obtain qs where qs: "de_history_read_params params = Inr qs"
    using assms(1) by (auto simp: op_history_read_def res_simps split: sum.splits)
  obtain u where u: "no_repeats [] (map qy_resource_id qs) = Inr u"
    using assms(1) by (auto simp: op_history_read_def qs split: sum.splits)
  obtain o1 where h: "history_each env ad qs False (budget_reserve env (map qy_resource_id qs) budget_new) ([], []) st =
      Some (o1, st')" and b: "map_sum id (\<lambda>acc. json_value (ser_history_read_reply acc)) o1 = Inr body"
    using assms(1) by (auto simp: op_history_read_def qs u)
  obtain obs sts where acc: "o1 = Inr (obs, sts)" using b by (cases o1) auto
  show thesis
    using history_each_adds [OF h [unfolded acc] assms(2)] history_each_answer [OF h [unfolded acc]] u b
    by (intro that [OF qs, of obs sts])
      (auto simp: acc no_repeats_iff history_budget_def budget_reserve_eq budget_new_def comp_def)
qed

section \<open>Errors are well formed too\<close>

lemma error_ok_simps [simp]: "error_body_ok (invalid m)" "error_body_ok (internal m)" "error_body_ok (error_body_new c m)"
  by (simp_all add: invalid_def internal_def error_body_new_def error_body_ok_def)

lemma with_detail_ok: "json_parsed d \<Longrightarrow> d \<noteq> JNull \<Longrightarrow> error_body_ok (with_detail d e)"
  by (simp add: with_detail_def error_body_ok_def)

lemma json_parsed_single: "json_parsed j \<Longrightarrow> json_parsed (JObj [(k, j)])"
  by (simp add: json_parsed_def btree_of_def)

lemma json_parsed_strings: "json_parsed (JArr (map JStr xs))"
  by (simp add: json_parsed_def comp_def)

lemma no_repeats_error: "no_repeats done rs = Inl e \<Longrightarrow> error_body_ok e"
  by (induction "done" rs rule: no_repeats.induct) (auto split: if_splits)

lemma read_cursor_error: "read_cursor env pg = Inl e \<Longrightarrow> error_body_ok e"
  by (auto simp: read_cursor_def json_parsed_single with_detail_ok res_simps split: option.splits page_request.splits)

lemma observed_now_error: "observed_now env ad w = Inl e \<Longrightarrow> error_body_ok e"
  by (cases "rfc3339_utc (source_now env (ad_source ad) w)") (auto simp: observed_now_def)

lemma map_err_error: "map_err f m = Inl e \<Longrightarrow> (\<And>x. error_body_ok (f x)) \<Longrightarrow> error_body_ok e"
  by (cases m) auto

lemma start_crawl_error: "start_crawl env ad wl r st = Some (Inl e, st') \<Longrightarrow> error_body_ok e"
proof (cases "observed_now env ad (as_world st)")
  case (Inr t)
  assume s: "start_crawl env ad wl r st = Some (Inl e, st')"
  then obtain o' w' where "sync env (ad_source ad) wl (as_world st) = Some (o', w')"
    by (auto simp: start_crawl_def Inr)
  with s show ?thesis by (cases o') (simp_all add: start_crawl_def Inr)
qed (simp add: start_crawl_def observed_now_error)

lemma serve_page_error: "serve_page env ad wl r from b crawls = Inl e \<Longrightarrow> error_body_ok e"
  by (auto simp: serve_page_def Let_def split: option.splits elim!: map_err_error)

lemma history_step_error:
  assumes "history_step env ad ab b q st = Some (Inl e, st')"
  shows "error_body_ok e"
  using assms read_cursor_error start_crawl_error serve_page_error
  by (auto simp: history_step_def Let_def split: sum.splits option.splits if_splits prod.splits fetch_error.splits)

lemma history_each_error: "history_each env ad qs ab b acc st = Some (Inl e, st') \<Longrightarrow> error_body_ok e"
proof (induction qs arbitrary: ab b acc st)
  case (Cons q qs)
  then show ?case
    by (cases acc) (auto split: option.splits sum.splits prod.splits dest: history_step_error)
qed simp

lemma op_history_error:
  assumes "op_history_read env ad params st = Some (Inl e, st')"
  shows "error_body_ok e"
proof -
  have m: "map_sum id f o1 = Inl e \<Longrightarrow> o1 = Inl e" for f :: "'x \<Rightarrow> 'y" and o1 by (cases o1) auto
  show ?thesis
    using assms
    by (auto simp: op_history_read_def split: sum.splits option.splits
        elim!: map_err_error dest: no_repeats_error history_each_error m)
qed

section \<open>The host reads what the adapter wrote\<close>

text \<open>What is written for a reply: itself, or the error that stands for one too large for a frame.\<close>

definition sent_reply :: "'w btc_env \<Rightarrow> json reply \<Rightarrow> json reply" where
  "sent_reply env r =
     (case ev_to_string env (ser_reply id r) of
        None \<Rightarrow> r
      | Some l \<Rightarrow>
          if MAX_FRAME_BYTES < length l then
            ReplyErr (reply_id r)
              (internal (''this reply is '' @ dec (length l) @ '' bytes and MAX_FRAME_BYTES is '' @
                         dec MAX_FRAME_BYTES @ ''; ask for fewer resources per request''))
          else r)"

lemma reply_line_sent: "reply_line env r = Some l \<Longrightarrow> ev_to_string env (ser_reply id (sent_reply env r)) = Some l"
  by (auto simp: reply_line_def sent_reply_def bind_eq_Some_conv split: if_splits)

lemma read_error_reply:
  assumes "from_str l = Some (ser_reply id (ReplyErr i e))" and "error_body_ok e"
  shows "call_typed_with_receipt from_str err_text f op (Inr (l, t)) = Inl (Wire e)"
proof -
  have "reply_members f [(''id'', ser_request_id i), (''err'', ser_error_body e)] (ReplyErr i e)"
    using de_ser_error_body [OF assms(2)] by (auto simp: reply_members_def)
  then have "de_reply f (ser_reply id (ReplyErr i e)) = Inr (ReplyErr i e)" by (auto simp: de_reply_iff)
  then show ?thesis using assms(1) by (simp add: call_typed_with_receipt_def decode_reply_def)
qed

text \<open>What the host finds on the line that answers its request.\<close>

lemma answered:
  assumes "r = (case out of Inl e \<Rightarrow> ReplyErr i e | Inr b \<Rightarrow> ReplyOk i b)" and "reply_line env r = Some line"
    and "\<forall>j s. ev_to_string env j = Some s \<longrightarrow> from_str s = Some j" and "\<And>e. out = Inl e \<Longrightarrow> error_body_ok e"
  shows "reply_id r = i"
    and "case sent_reply env r of
           ReplyErr k e \<Rightarrow> k = i \<and> error_body_ok e \<and> from_str line = Some (ser_reply id (ReplyErr i e))
         | ReplyOk k body \<Rightarrow> k = i \<and> out = Inr body \<and> from_str line = Some (ser_reply id (ReplyOk i body))"
proof -
  show "reply_id r = i" by (simp add: assms(1) split: sum.split)
  then have sid: "reply_id (sent_reply env r) = i" by (simp add: sent_reply_def split: option.split)
  have read: "from_str line = Some (ser_reply id (sent_reply env r))"
    using assms(3) reply_line_sent [OF assms(2)] by blast
  show "case sent_reply env r of
           ReplyErr k e \<Rightarrow> k = i \<and> error_body_ok e \<and> from_str line = Some (ser_reply id (ReplyErr i e))
         | ReplyOk k body \<Rightarrow> k = i \<and> out = Inr body \<and> from_str line = Some (ser_reply id (ReplyOk i body))"
  proof (cases "sent_reply env r")
    case (ReplyOk k body)
    then have "out = Inr body"
      by (auto simp: sent_reply_def assms(1) split: option.splits if_splits sum.splits)
    with ReplyOk sid read show ?thesis by simp
  next
    case (ReplyErr k e)
    then have "error_body_ok e"
      using assms(4) by (auto simp: sent_reply_def assms(1) split: option.splits if_splits sum.splits)
    with ReplyErr sid read show ?thesis by simp
  qed
qed

lemma covers_same: "map rs_resource_id sts = ids \<Longrightarrow> distinct ids \<Longrightarrow> covers ids sts"
  by (simp add: covers_def flip: set_map)

lemma staleness_fetched:
  assumes "distinct (map rs_resource_id sts)" and "s \<in> set sts" and "rs_resource_id s = r"
  shows "staleness_of sts r = outcome_staleness (rs_outcome s)"
proof -
  have "List.find (\<lambda>s. rs_resource_id s = r) sts = Some s"
    using assms
  proof (induction sts)
    case (Cons a sts)
    then show ?case by (cases "a = s") (auto simp: rev_image_eqI)
  qed simp
  then show ?thesis by (simp add: staleness_of_def)
qed

lemma history_result_all:
  assumes "history_ok env False b ids obs sts" and "distinct ids"
  shows "history_result (ev_to_vec env) ADAPTER_ID t obs sts =
    \<lparr>hrd_observations = map (\<lambda>w. observation_stamp w t Live) obs, hrd_statuses = sts\<rparr>"
proof -
  have small: "written_bytes (ev_to_vec env) (ser_observation_wire w) \<le> MAX_OBSERVATION_BYTES" if "w \<in> set obs" for w
    using assms(1) that
    by (auto simp: history_ok_def list_all_iff sent_ok_def written_bytes_def wire_bytes_def split: option.splits)
  have live: "staleness_of sts (ow_resource_id w) = Live" if w: "w \<in> set obs" for w
  proof -
    obtain s where s: "s \<in> set sts" "rs_resource_id s = ow_resource_id w" "rs_outcome s = Fetched False"
      using assms(1) w by (auto simp: history_ok_def list_all_iff list_ex_iff)
    have "distinct (map rs_resource_id sts)" using assms by (simp add: history_ok_def)
    from staleness_fetched [OF this s(1,2)] s(3) show ?thesis by simp
  qed
  have keep: "filter (\<lambda>w. \<not> (pw_adapter_id (ow_provenance w) = ADAPTER_ID \<and>
      MAX_OBSERVATION_BYTES < written_bytes (ev_to_vec env) (ser_observation_wire w))) obs = obs"
    using small by (auto simp: filter_id_conv not_less)
  have none: "filter (\<lambda>w. (pw_adapter_id (ow_provenance w) = ADAPTER_ID \<and>
      MAX_OBSERVATION_BYTES < written_bytes (ev_to_vec env) (ser_observation_wire w)) \<and> ow_resource_id w = rid) obs = []" for rid
    using small by (auto simp: filter_empty_conv not_less)
  have "map (\<lambda>w. observation_stamp w t (staleness_of sts (ow_resource_id w))) obs = map (\<lambda>w. observation_stamp w t Live) obs"
    using live by simp
  moreover have "map (add_degraded (\<lambda>rid. [])) sts = sts" by (rule map_idI) simp
  ultimately show ?thesis unfolding history_result_def Let_def keep none by simp
qed

lemma host_history_read:
  assumes "from_str l = Some (ser_reply id (ReplyOk i (json_value (ser_history_read_reply (obs, sts)))))"
    and "history_ok env False b (map qy_resource_id qs) obs sts" and "distinct (map qy_resource_id qs)"
  shows "history_read from_str err_text (ev_to_vec env) ADAPTER_ID qs (Inr (l, t)) =
    Inr \<lparr>hrd_observations = map (\<lambda>w. observation_stamp w t Live) obs, hrd_statuses = sts\<rparr>"
proof -
  have "de_history_read_reply (ser_history_read_reply (obs, sts)) = Inr (obs, sts)"
    using assms(2) by (intro de_ser_history_reply) (auto simp: history_ok_def list_all_iff sent_ok_def)
  then have "de_history_read_reply (json_value (ser_history_read_reply (obs, sts))) = Inr (obs, sts)"
    by (rule value_stableD [OF stable_history_reply])
  then have "de_reply de_history_read_reply
      (ser_reply (\<lambda>p. json_value (ser_history_read_reply p)) (ReplyOk i (obs, sts))) = Inr (ReplyOk i (obs, sts))"
    by (rule de_ser_reply_ok)
  then have "reply_body from_str de_history_read_reply l = Some (obs, sts)"
    using assms(1) by (simp add: reply_body_def)
  moreover have "covers (map qy_resource_id qs) sts"
    by (rule covers_same [OF _ assms(3)]) (use assms(2) in \<open>simp add: history_ok_def\<close>)
  ultimately show ?thesis
    unfolding history_read_iff using history_result_all [OF assms(2,3), symmetric] by blast
qed

lemma handle_request:
  assumes "ev_from_str env frame = Inr (ser_request \<lparr>rq_id = i, rq_op = p, rq_params = json_value params\<rparr>)"
    and "params \<noteq> JNull"
  shows "handle env ad frame st =
    map_option (\<lambda>(out, st). (Some (case out of Inl e \<Rightarrow> ReplyErr i e | Inr b \<Rightarrow> ReplyOk i b), st))
      (dispatch env ad p (json_value params) st)"
proof -
  have "json_parsed (json_value params)" by (simp add: json_parsed_def json_value_idem)
  then have "de_request (json_value (ser_request \<lparr>rq_id = i, rq_op = p, rq_params = json_value params\<rparr>)) =
      Inr \<lparr>rq_id = i, rq_op = p, rq_params = json_value params\<rparr>"
    by (intro value_stableD [OF stable_request] de_ser_request) simp
  then show ?thesis
    using assms by (cases "dispatch env ad p (json_value params) st") (auto simp: handle_def split: sum.split)
qed

lemma dispatch_history: "dispatch env ad OP_HISTORY_READ params st = op_history_read env ad params st"
  by (simp add: dispatch_def OP_HISTORY_READ_def OP_HELLO_def OP_RESOURCES_LIST_def OP_BALANCES_READ_def)

lemma adapter_inv_mapped:
  "map_prod id (\<lambda>w. st\<lparr>as_world := w\<rparr>) x = (out, st') \<Longrightarrow> adapter_inv st' = adapter_inv st"
  by (cases x) auto

lemma dispatch_crawls:
  assumes "dispatch env ad p params st = Some (out, st')" and "adapter_inv st"
  shows "adapter_inv st'"
proof (cases "p = OP_HISTORY_READ")
  case True
  then show ?thesis
    using assms by (auto simp: dispatch_history op_history_read_def split: sum.splits dest: history_each_crawls)
qed (use assms in \<open>auto simp: dispatch_def Let_def adapter_inv_mapped split: if_splits\<close>)

lemma handle_crawls:
  assumes "handle env ad frame st = Some (r, st')" and "adapter_inv st"
  shows "adapter_inv st'"
proof (cases "ev_from_str env frame")
  case (Inr j)
  show ?thesis
  proof (cases "de_request (json_value j)")
    case req: (Inr request)
    show ?thesis
      using assms dispatch_crawls by (auto simp: handle_def Inr req)
  qed (use assms in \<open>simp add: handle_def Inr\<close>)
qed (use assms in \<open>simp add: handle_def\<close>)

section \<open>The properties\<close>

text \<open>C19. The loop from stdin to stdout keeps the snapshots in order: from a state in which each resource
  has at most one snapshot, each a chain as a sync builds it under a valid timestamp, every input
  leads to such a state again; nothing already written is taken back and no line of input gets
  more than one line of output.\<close>

theorem serve_keeps_snapshots:
  assumes "serve env ad stdout_ok ins out st = Some (out', st')" and "adapter_inv st"
  shows "adapter_inv st' \<and> (\<exists>ls. out' = out @ ls \<and> length ls \<le> length ins)"
  using assms
proof (induction env ad stdout_ok ins out st rule: serve.induct)
  case (3 env ad stdout_ok line ins out st)
  show ?case
  proof (cases "frame_of line = []")
    case True
    then show ?thesis using 3(1) 3(4,5) by auto
  next
    case False
    then obtain r st1 where h: "handle env ad (frame_of line) st = Some (r, st1)"
      using 3(4) by (auto split: option.splits)
    note inv = handle_crawls [OF h 3(5)]
    show ?thesis
    proof (cases r)
      case None
      then show ?thesis using 3(2) [OF False h] 3(4) inv False h by auto
    next
      case (Some rep)
      show ?thesis
      proof (cases "\<exists>l. reply_line env rep = Some l \<and> stdout_ok out")
        case True
        then obtain l where l: "reply_line env rep = Some l" "stdout_ok out" by blast
        then have "serve env ad stdout_ok ins (out @ [l]) st1 = Some (out', st')" using 3(4) False h Some by simp
        from 3(3) [OF False h refl Some l this inv]
        obtain ls where "adapter_inv st'" "out' = (out @ [l]) @ ls" "length ls \<le> length ins" by blast
        then show ?thesis by (intro conjI exI [of _ "l # ls"]) simp_all
      qed (use 3(4) inv False h Some in \<open>auto split: option.splits if_splits\<close>)
    qed
  qed
qed simp_all

text \<open>C15. A history read through both programs: when the host's request reaches the adapter and the line it
  answers with is read back by the host, the host either gets exactly the error the adapter sent,
  or exactly what the adapter answered. The answer has one status for each query, in the order of the
  request, and its observations are, one after the other, those of the page that each fetched
  resource's snapshot gives from the cursor asked for; a failed sync is reported as what it was, and
  after a rate limit nothing is fetched any more. The host returns all of these observations and no
  other, stamped live and otherwise unchanged, with these statuses; each is well formed and within
  the size cap.\<close>

theorem host_reads_adapter_history:
  assumes "adapter_inv st"
    and "ev_from_str env frame =
      Inr (ser_request \<lparr>rq_id = i, rq_op = OP_HISTORY_READ, rq_params = json_value (ser_history_read_params qs)\<rparr>)"
    and "\<forall>q\<in>set qs. opt_ok page_request_ok (qy_page q)"
    and "handle env ad frame st = Some (Some r, st')" and "reply_line env r = Some line"
    and "\<forall>j s. ev_to_string env j = Some s \<longrightarrow> from_str s = Some j"
  shows "reply_id r = i \<and>
    (case sent_reply env r of
       ReplyErr k e \<Rightarrow>
         k = i \<and> history_read from_str err_text (ev_to_vec env) ADAPTER_ID qs (Inr (line, t)) = Inl (Wire e)
     | ReplyOk k body \<Rightarrow>
         k = i \<and>
         (\<exists>obs sts. history_answer env ad False (history_budget env qs) qs st obs sts st' \<and>
            body = json_value (ser_history_read_reply (obs, sts)) \<and>
            history_ok env False (history_budget env qs) (map qy_resource_id qs) obs sts \<and>
            history_read from_str err_text (ev_to_vec env) ADAPTER_ID qs (Inr (line, t)) =
              Inr \<lparr>hrd_observations = map (\<lambda>w. observation_stamp w t Live) obs, hrd_statuses = sts\<rparr>))"
proof -
  have nn: "ser_history_read_params qs \<noteq> JNull" by (simp add: ser_history_read_params_def ser_struct_def)
  obtain out where d: "op_history_read env ad (json_value (ser_history_read_params qs)) st = Some (out, st')"
    and r: "r = (case out of Inl e \<Rightarrow> ReplyErr i e | Inr b \<Rightarrow> ReplyOk i b)"
    using assms(4) unfolding handle_request [OF assms(2) nn] dispatch_history by auto
  have err: "out = Inl e \<Longrightarrow> error_body_ok e" for e using d op_history_error by blast
  note ans = answered [OF r assms(5,6) err]
  show ?thesis
  proof (cases "sent_reply env r")
    case (ReplyErr k e)
    then show ?thesis
      using ans unfolding history_read_def by (simp only: read_error_reply res_bind.simps reply.case)
  next
    case (ReplyOk k body)
    then have body: "k = i" "out = Inr body" "from_str line = Some (ser_reply id (ReplyOk i body))" using ans(2) by simp_all
    obtain qs' obs sts where q: "de_history_read_params (json_value (ser_history_read_params qs)) = Inr qs'"
      "distinct (map qy_resource_id qs')" "body = json_value (ser_history_read_reply (obs, sts))"
      "history_ok env False (history_budget env qs') (map qy_resource_id qs') obs sts"
      "history_answer env ad False (history_budget env qs') qs' st obs sts st'"
      using op_history_reply [OF d [unfolded body(2)] assms(1)] by blast
    have "qs' = qs"
      using value_stableD [OF stable_history_params de_ser_history_params [OF assms(3)]] q(1) by simp
    with q host_history_read [of from_str line i obs sts env "history_budget env qs" qs] body ans(1) ReplyOk
    show ?thesis by (auto intro!: exI [of _ obs] exI [of _ sts])
  qed
qed

section \<open>Witnesses\<close>

text \<open>A wallet with one address and no transactions, and a host that asks for its history.\<close>

definition idle_adapter :: adapter where
  "idle_adapter =
     \<lparr>ad_wallets = [\<lparr>wl_resource_id = ''w'', wl_label = ''w'', wl_addresses = [''a''], wl_owned = [''a''], wl_address_hash = []\<rparr>],
      ad_source = Http [] None, ad_state_dir = None, ad_pid = 1\<rparr>"

definition idle_query :: resource_query where
  "idle_query = \<lparr>qy_resource_id = ''w'', qy_page = None\<rparr>"

definition idle_request :: json where
  "idle_request =
     ser_request \<lparr>rq_id = 5, rq_op = OP_HISTORY_READ, rq_params = json_value (ser_history_read_params [idle_query])\<rparr>"

definition idle_entry :: resource_status where
  "idle_entry =
     fetched_entry ''w''
       \<lparr>pa_observations = [], pa_next = None, pa_page_size_reduced_to = None, pa_degraded = [], pa_bytes = 0\<rparr>"

definition idle_reply :: "json reply" where
  "idle_reply = ReplyOk 5 (json_value (ser_history_read_reply ([], [idle_entry])))"

definition idle_env :: "unit btc_env" where
  "idle_env =
     (sample_provider (\<lambda>p. if p = ''frame'' then idle_request else JArr []))
       \<lparr>ev_to_string := (\<lambda>j. if j = ser_reply id idle_reply then Some ''reply'' else None)\<rparr>"

definition idle_state :: "unit adapter_state" where
  "idle_state = \<lparr>as_world = sample_world, as_crawls = []\<rparr>"

lemma idle_get: "path \<noteq> ''frame'' \<Longrightarrow>
    get_json idle_env (Http [] None) (de_vec de_tx) path w = (Inr [], w\<lparr>wo_net := ()\<rparr>)"
  by (simp add: get_json_def source_get_def http_get_def idle_env_def sample_provider_def Esplora.classify_def
      read_body_def de_vec_def)

lemma idle_sync: "wl_addresses wl = [''a''] \<Longrightarrow>
    \<exists>w'. sync idle_env (Http [] None) wl w = Some (Inr \<lparr>ch_txs = [], ch_mempool = []\<rparr>, w')"
  by (simp add: sync_def address_chain_def chain_loop.simps [of idle_env] chain_path_def idle_get address_mempool_def
      chain_data_def btree_set_def btree_of_def)

lemma idle_handle: "\<exists>st'. handle idle_env idle_adapter ''frame'' idle_state = Some (Some idle_reply, st')"
proof -
  obtain t where t: "observed_now idle_env idle_adapter sample_world = Inr t"
    using rfc3339_utc_instant [of 0]
    by (auto simp: observed_now_def source_now_def idle_adapter_def idle_env_def sample_provider_def sample_world_def)
  let ?wl = "\<lparr>wl_resource_id = ''w'', wl_label = ''w'', wl_addresses = [''a''], wl_owned = [''a''], wl_address_hash = []\<rparr>"
  obtain w' where s: "sync idle_env (ad_source idle_adapter) ?wl sample_world = Some (Inr \<lparr>ch_txs = [], ch_mempool = []\<rparr>, w')"
    using idle_sync [of ?wl sample_world] by (auto simp: idle_adapter_def)
  let ?st = "idle_state\<lparr>as_world := w', as_crawls := AList.update ''w'' \<lparr>cs_observed_at = t,
      cs_chain = \<lparr>ch_txs = [], ch_mempool = []\<rparr>\<rparr> []\<rparr>"
  have start: "start_crawl idle_env idle_adapter ?wl ''w'' idle_state = Some (Inr None, ?st)"
    using t s by (simp add: start_crawl_def idle_state_def)
  have wl: "lookup_wallet idle_adapter ''w'' = Some ?wl" by (simp add: lookup_wallet_def idle_adapter_def)
  have serve: "serve_page idle_env idle_adapter ?wl ''w'' None b [(''w'', \<lparr>cs_observed_at = t, cs_chain = \<lparr>ch_txs = [], ch_mempool = []\<rparr>\<rparr>)] =
      Inr (\<lparr>pa_observations = [], pa_next = None, pa_page_size_reduced_to = None, pa_degraded = [], pa_bytes = 0\<rparr>,
           budget_charge idle_env (status_entry ''w'' (Fetched True)) b, [])" for b
    by (simp add: serve_page_def Let_def make_plan_def cut_page_def update_conv')
  have req: "de_history_read_params (json_value (ser_history_read_params [idle_query])) = Inr [idle_query]"
    by (rule value_stableD [OF stable_history_params de_ser_history_params]) (simp add: idle_query_def)
  have f: "ev_from_str idle_env ''frame'' =
      Inr (ser_request \<lparr>rq_id = 5, rq_op = OP_HISTORY_READ, rq_params = json_value (ser_history_read_params [idle_query])\<rparr>)"
    by (simp add: idle_env_def sample_provider_def idle_request_def)
  have nn: "ser_history_read_params [idle_query] \<noteq> JNull" by (simp add: ser_history_read_params_def ser_struct_def)
  have step: "\<exists>b' st'. history_step idle_env idle_adapter False b idle_query idle_state =
      Some (Inr ([], idle_entry, False, b'), st')" for b
    by (simp add: history_step_def idle_query_def read_cursor_def wl start serve idle_entry_def Let_def)
  have "\<exists>st'. op_history_read idle_env idle_adapter (json_value (ser_history_read_params [idle_query])) idle_state =
      Some (Inr (json_value (ser_history_read_reply ([], [idle_entry]))), st')"
    using step [of "budget_reserve idle_env (map qy_resource_id [idle_query]) budget_new"]
    by (auto simp: op_history_read_def req)
  then show ?thesis
    unfolding handle_request [OF f nn] dispatch_history by (auto simp: idle_reply_def)
qed

theorem serve_keeps_snapshots_witness:
  "\<exists>st' ls. serve idle_env idle_adapter (\<lambda>_. True) [StdinLine ''frame''] [] idle_state = Some (ls, st') \<and>
     adapter_inv st' \<and> length ls \<le> 1"
proof -
  have e: "frame_of ''frame'' = ''frame''" by (simp add: frame_of_def newline_def)
  obtain st' where "handle idle_env idle_adapter ''frame'' idle_state = Some (Some idle_reply, st')"
    using idle_handle by blast
  moreover have "reply_line idle_env idle_reply = Some ''reply''"
    by (simp add: reply_line_def idle_env_def MAX_FRAME_BYTES_def)
  ultimately have s: "serve idle_env idle_adapter (\<lambda>_. True) [StdinLine ''frame''] [] idle_state = Some ([''reply''], st')"
    by (simp add: e)
  moreover have "adapter_inv idle_state" by (simp add: adapter_inv_def idle_state_def)
  ultimately show ?thesis using serve_keeps_snapshots [OF s] by auto
qed

theorem host_reads_adapter_history_witness:
  "\<exists>obs sts. map rs_resource_id sts = [''w''] \<and>
     history_read (\<lambda>s. if s = ''reply'' then Some (ser_reply id idle_reply) else None) id (ev_to_vec idle_env) ADAPTER_ID
       [idle_query] (Inr (''reply'', Rfc3339 [])) = 
       Inr \<lparr>hrd_observations = map (\<lambda>w. observation_stamp w (Rfc3339 []) Live) obs, hrd_statuses = sts\<rparr>"
proof -
  obtain st' where h: "handle idle_env idle_adapter ''frame'' idle_state = Some (Some idle_reply, st')"
    using idle_handle by blast
  have inv: "adapter_inv idle_state" by (simp add: adapter_inv_def idle_state_def)
  have f: "ev_from_str idle_env ''frame'' =
      Inr (ser_request \<lparr>rq_id = 5, rq_op = OP_HISTORY_READ, rq_params = json_value (ser_history_read_params [idle_query])\<rparr>)"
    by (simp add: idle_env_def sample_provider_def idle_request_def)
  have line: "reply_line idle_env idle_reply = Some ''reply''" "sent_reply idle_env idle_reply = idle_reply"
    by (simp_all add: reply_line_def sent_reply_def idle_env_def MAX_FRAME_BYTES_def)
  have rt: "\<forall>j s. ev_to_string idle_env j = Some s \<longrightarrow>
      (if s = ''reply'' then Some (ser_reply id idle_reply) else None) = Some j"
    by (simp add: idle_env_def)
  have q: "\<forall>q\<in>set [idle_query]. opt_ok page_request_ok (qy_page q)" by (simp add: idle_query_def)
  have sent: "sent_reply idle_env idle_reply = ReplyOk 5 (json_value (ser_history_read_reply ([], [idle_entry])))"
    unfolding line(2) by (rule idle_reply_def)
  obtain obs sts where hist: "history_ok idle_env False (history_budget idle_env [idle_query])
      (map qy_resource_id [idle_query]) obs sts"
    "history_read (\<lambda>s. if s = ''reply'' then Some (ser_reply id idle_reply) else None) id (ev_to_vec idle_env) ADAPTER_ID
       [idle_query] (Inr (''reply'', Rfc3339 [])) =
     Inr \<lparr>hrd_observations = map (\<lambda>w. observation_stamp w (Rfc3339 []) Live) obs, hrd_statuses = sts\<rparr>"
    using host_reads_adapter_history [OF inv f q h line(1) rt, of id "Rfc3339 []", THEN conjunct2, unfolded sent reply.case]
    by blast
  have ids: "map rs_resource_id sts = [''w'']" using hist(1) by (simp add: history_ok_def idle_query_def)
  show ?thesis by (rule exI [of _ obs], rule exI [of _ sts], rule conjI [OF ids hist(2)])
qed

end
