(* ===== verification/Bitcoin_Crawl.thy ===== *)
theory Bitcoin_Crawl
  imports Bitcoin_Adapter_Correct
begin

text \<open>
  A whole crawl of one resource through the adapter's history read: each request names the cursor
  the last reply gave, and between the replies the provider, the files and the snapshots of other
  resources may change at will. The pages are those of the chain the first request fetched.
\<close>

section \<open>One page\<close>

definition read_page ::
  "'w btc_env \<Rightarrow> adapter \<Rightarrow> string \<Rightarrow> string option \<Rightarrow> 'w adapter_state \<Rightarrow>
   ((error_body + observation_wire list \<times> resource_status list) \<times> 'w adapter_state) option" where
  "read_page env ad r cur st =
     history_each env ad [\<lparr>qy_resource_id = r, qy_page = map_option Cursor cur\<rparr>] False
       (budget_reserve env [r] budget_new) ([], []) st"

definition page_room :: "'w btc_env \<Rightarrow> string \<Rightarrow> nat" where
  "page_room env r = budget_page (budget_new - status_bytes env r)"

lemma charge_reserved: "budget_charge env (status_entry r (Fetched True)) b = b"
  by (simp add: budget_charge_def status_bytes_def)

definition cursor_of :: "string option \<Rightarrow> btc_cursor option option" where
  "cursor_of cur = (case cur of None \<Rightarrow> Some None | Some s \<Rightarrow> map_option Some (res_ok (cursor_parse s)))"

lemma read_cursor_of:
  "cursor_of cur = Some from \<Longrightarrow> read_cursor env (map_option Cursor cur) = Inr from \<and> (from = None \<longleftrightarrow> cur = None)"
  by (cases cur) (auto simp: cursor_of_def read_cursor_def res_simps)

lemma page_at_Some:
  "page_at to_vec cx ch owned b cur = Some pg \<longleftrightarrow>
     (\<exists>from p. cursor_of cur = Some from \<and> make_plan cx ch owned from = Inr p \<and> cut_page to_vec p from b = Inr pg)"
  by (auto simp: page_at_def cursor_of_def bind_eq_Some_conv res_simps)

text \<open>A page served from a snapshot is the page of that snapshot's chain.\<close>

lemma serve_page_at:
  assumes "page_at (ev_to_vec env) (adapter_ctx ad wl t) ch (wl_owned wl) (budget_page b) cur = Some pg"
    and "map_of crawls r = Some \<lparr>cs_observed_at = t, cs_chain = ch\<rparr>" and "cursor_of cur = Some from"
  shows "serve_page env ad wl r from b crawls =
    Inr (pg, b - pa_bytes pg, if pa_next pg = None then AList.delete r crawls else crawls)"
proof -
  obtain p where "make_plan (adapter_ctx ad wl t) ch (wl_owned wl) from = Inr p"
    "cut_page (ev_to_vec env) p from (budget_page b) = Inr pg"
    using assms(1,3) unfolding page_at_Some by auto
  then show ?thesis by (simp add: serve_page_def Let_def assms(2) charge_reserved)
qed

lemma read_page_resumed:
  assumes "lookup_wallet ad r = Some wl" and "map_of (as_crawls st) r = Some \<lparr>cs_observed_at = t, cs_chain = ch\<rparr>"
    and "page_at (ev_to_vec env) (adapter_ctx ad wl t) ch (wl_owned wl) (page_room env r) (Some c) = Some pg"
  shows "read_page env ad r (Some c) st =
    Some (Inr (pa_observations pg, [fetched_entry r pg]),
          st\<lparr>as_crawls := if pa_next pg = None then AList.delete r (as_crawls st) else as_crawls st\<rparr>)"
proof -
  obtain "from" where f: "cursor_of (Some c) = Some from" using assms(3) unfolding page_at_Some by blast
  then obtain x where x: "from = Some x" by (auto simp: cursor_of_def)
  note s = serve_page_at [OF assms(3) [unfolded page_room_def] assms(2) f]
  show ?thesis
    using read_cursor_of [OF f, of env]
    by (simp add: read_page_def history_step_def budget_reserve_def assms(1,2) s [unfolded x] x Let_def)
qed

lemma read_page_started:
  assumes "lookup_wallet ad r = Some wl" and "observed_now env ad (as_world st) = Inr t"
    and "sync env (ad_source ad) wl (as_world st) = Some (Inr ch, w')"
    and "page_at (ev_to_vec env) (adapter_ctx ad wl t) ch (wl_owned wl) (page_room env r) None = Some pg"
  shows "\<exists>st'. read_page env ad r None st = Some (Inr (pa_observations pg, [fetched_entry r pg]), st') \<and>
    map_of (as_crawls st') r = (if pa_next pg = None then None else Some \<lparr>cs_observed_at = t, cs_chain = ch\<rparr>)"
proof -
  let ?st = "st\<lparr>as_world := w', as_crawls := AList.update r \<lparr>cs_observed_at = t, cs_chain = ch\<rparr> (as_crawls st)\<rparr>"
  have f: "cursor_of None = Some None" by (simp add: cursor_of_def)
  have start: "start_crawl env ad wl r st = Some (Inr None, ?st)" by (simp add: start_crawl_def assms(2,3))
  have m: "map_of (as_crawls ?st) r = Some \<lparr>cs_observed_at = t, cs_chain = ch\<rparr>" by (simp add: update_conv')
  note s = serve_page_at [OF assms(4) [unfolded page_room_def] m f]
  show ?thesis
    using s by (simp add: read_page_def history_step_def budget_reserve_def read_cursor_def assms(1) start Let_def
        update_conv' delete_conv')
qed

section \<open>The crawl\<close>

text \<open>
  The requests of a crawl. \<open>drift n\<close> is what happens to the adapter between two of them; the fuel
  bounds the requests, and running out of it is not a result.
\<close>

fun adapter_crawl ::
  "'w btc_env \<Rightarrow> adapter \<Rightarrow> string \<Rightarrow> (nat \<Rightarrow> 'w adapter_state \<Rightarrow> 'w adapter_state) \<Rightarrow> nat \<Rightarrow> string option \<Rightarrow>
   'w adapter_state \<Rightarrow> (observation_wire list \<times> degraded list \<times> 'w adapter_state) option" where
  "adapter_crawl env ad r drift 0 cur st = None"
| "adapter_crawl env ad r drift (Suc n) cur st =
     (case read_page env ad r cur st of
        Some (Inr (obs, [s]), st) \<Rightarrow>
          (case rs_page s of
             None \<Rightarrow> None
           | Some pg \<Rightarrow>
               (case pg_next pg of
                  None \<Rightarrow> Some (obs, rs_degraded s, st)
                | Some (Window _ _ _ _) \<Rightarrow> None
                | Some (Cursor c) \<Rightarrow>
                    map_option (\<lambda>(os, ds, st). (obs @ os, rs_degraded s @ ds, st))
                      (adapter_crawl env ad r drift n (Some c) (drift n st))))
      | _ \<Rightarrow> None)"

lemma fetched_page [simp]:
  "rs_page (fetched_entry r pg) = Some (page_reply_of pg)" "rs_degraded (fetched_entry r pg) = pa_degraded pg"
  "pg_next (page_reply_of pg) = map_option (\<lambda>c. Cursor (cursor_encode c)) (pa_next pg)"
  by (simp_all add: fetched_entry_def page_reply_of_def)

lemma adapter_crawl_resumed:
  assumes "lookup_wallet ad r = Some wl"
    and "\<And>n st. map_of (as_crawls (drift n st)) r = map_of (as_crawls st) r"
    and "map_of (as_crawls st) r = Some \<lparr>cs_observed_at = t, cs_chain = ch\<rparr>"
    and "crawl (ev_to_vec env) (adapter_ctx ad wl t) ch (wl_owned wl) (page_room env r) n (Some c) = Some pgs"
  shows "\<exists>st'. adapter_crawl env ad r drift n (Some c) st =
      Some (concat (map pa_observations pgs), concat (map pa_degraded pgs), st') \<and> map_of (as_crawls st') r = None"
  using assms(3,4)
proof (induction n arbitrary: c st pgs)
  case (Suc n)
  obtain pg where pg: "page_at (ev_to_vec env) (adapter_ctx ad wl t) ch (wl_owned wl) (page_room env r) (Some c) = Some pg"
    using Suc.prems(2) by (auto simp: bind_eq_Some_conv)
  note r = read_page_resumed [OF assms(1) Suc.prems(1) pg]
  show ?case
  proof (cases "pa_next pg")
    case None
    then show ?thesis using Suc.prems(2) by (auto simp: pg r delete_conv')
  next
    case (Some d)
    then obtain pgs' where pgs: "pgs = pg # pgs'"
      and c: "crawl (ev_to_vec env) (adapter_ctx ad wl t) ch (wl_owned wl) (page_room env r) n (Some (cursor_encode d)) = Some pgs'"
      using Suc.prems(2) by (auto simp: pg)
    have m: "map_of (as_crawls (drift n st)) r = Some \<lparr>cs_observed_at = t, cs_chain = ch\<rparr>"
      using assms(2) Suc.prems(1) by simp
    from Suc.IH [OF m c] show ?thesis by (auto simp: r Some pgs)
  qed
qed simp

text \<open>C16. A crawl through the adapter ends and is a snapshot: if the first request's sync succeeds, then
  whatever the provider, the files and the other resources' requests do between the pages, the
  requests, each with the cursor of the reply before, deliver every transaction of that one chain
  that is not too large, once and in order, report the others, and leave no snapshot behind.\<close>

theorem adapter_crawl_complete:
  assumes "lookup_wallet ad r = Some wl" and "observed_now env ad (as_world st) = Inr t"
    and "sync env (ad_source ad) wl (as_world st) = Some (Inr ch, w')"
    and "make_plan (adapter_ctx ad wl t) ch (wl_owned wl) None = Inr p"
    and "\<forall>j. ev_to_string env j \<noteq> None"
    and "status_bytes env r + ENVELOPE_BYTES + MAX_OBSERVATION_BYTES < MAX_FRAME_BYTES"
    and "\<forall>n st. map_of (as_crawls (drift n st)) r = map_of (as_crawls st) r"
  shows "\<exists>ds st'. adapter_crawl env ad r drift (Suc (length (pl_items p))) None st =
      Some (map snd (deliveries (ev_to_vec env) (pl_items p)), ds, st') \<and>
    set ds = set (reports (ev_to_vec env) (pl_items p)) \<and> map_of (as_crawls st') r = None"
proof -
  let ?cx = "adapter_ctx ad wl t"
  have tv: "\<forall>j. ev_to_vec env j \<noteq> None" using assms(5) by (simp add: ev_to_vec_def)
  have room: "MAX_OBSERVATION_BYTES < page_room env r"
    using assms(6) by (simp add: page_room_def budget_page_def budget_new_def PAGE_BUDGET_BYTES_def MAX_OBSERVATION_BYTES_def)
  note items = make_plan_entries(1) [OF assms(4), unfolded observed_Inr_iff]
  have len: "length (entries ch None) \<le> length (pl_items p)" by (simp add: items)
  obtain pgs where c: "crawl (ev_to_vec env) ?cx ch (wl_owned wl) (page_room env r) (Suc (length (pl_items p))) None = Some pgs"
    and obs: "concat (map pa_observations pgs) = map snd (deliveries (ev_to_vec env) (pl_items p))"
    and deg: "set (concat (map pa_degraded pgs)) = set (reports (ev_to_vec env) (pl_items p))"
    using crawl_from [OF sync_chain_ok [OF assms(3)] tv room, of None ?cx "wl_owned wl" "length (pl_items p)"] items len assms(4)
    by (auto simp: settled_def)
  obtain pg where pg: "page_at (ev_to_vec env) ?cx ch (wl_owned wl) (page_room env r) None = Some pg"
    using c by (auto simp: bind_eq_Some_conv)
  obtain st1 where first: "read_page env ad r None st = Some (Inr (pa_observations pg, [fetched_entry r pg]), st1)"
    and m: "map_of (as_crawls st1) r = (if pa_next pg = None then None else Some \<lparr>cs_observed_at = t, cs_chain = ch\<rparr>)"
    using read_page_started [OF assms(1-3) pg] by blast
  show ?thesis
  proof (cases "pa_next pg")
    case None
    then show ?thesis using c obs deg m by (auto simp: pg first)
  next
    case (Some d)
    then obtain pgs' where pgs: "pgs = pg # pgs'"
      and c': "crawl (ev_to_vec env) ?cx ch (wl_owned wl) (page_room env r) (length (pl_items p)) (Some (cursor_encode d)) = Some pgs'"
      using c by (auto simp: pg)
    have m': "map_of (as_crawls (drift (length (pl_items p)) st1)) r = Some \<lparr>cs_observed_at = t, cs_chain = ch\<rparr>"
      using m assms(7) Some by simp
    have "\<exists>st'. adapter_crawl env ad r drift (length (pl_items p)) (Some (cursor_encode d)) (drift (length (pl_items p)) st1) =
        Some (concat (map pa_observations pgs'), concat (map pa_degraded pgs'), st') \<and> map_of (as_crawls st') r = None"
      by (rule adapter_crawl_resumed [OF assms(1) _ m' c']) (use assms(7) in blast)
    with obs deg show ?thesis by (auto simp: first Some pgs)
  qed
qed

text \<open>A wallet with one unconfirmed transaction, whose files are lost between the requests.\<close>

definition sample_id :: string where "sample_id = replicate 64 (CHR ''a'')"

definition mempool_env :: "unit btc_env" where
  "mempool_env = sample_provider (\<lambda>p. JArr (if p = ''/address/a/txs/mempool'' then [pending_json sample_id] else []))"

lemma sample_id_txid: "is_txid sample_id"
  by (simp add: sample_id_def is_txid_def lower_hex_def list_all_iff)

lemma mempool_sync:
  "wl_addresses wl = [''a''] \<Longrightarrow>
     \<exists>w'. sync mempool_env (Http [] None) wl w =
       Some (Inr \<lparr>ch_txs = [(sample_id, pending_tx sample_id)], ch_mempool = [sample_id]\<rparr>, w')"
proof -
  assume wl: "wl_addresses wl = [''a'']"
  have chain: "get_json mempool_env (Http [] None) (de_vec de_tx) (chain_path ''a'' None) w = (Inr [], w\<lparr>wo_net := ()\<rparr>)" for w
    unfolding mempool_env_def sample_get by (simp add: chain_path_def de_vec_def)
  have mem: "get_json mempool_env (Http [] None) (de_vec de_tx) ''/address/a/txs/mempool'' w =
      (Inr [pending_tx sample_id], w\<lparr>wo_net := ()\<rparr>)" for w
    unfolding mempool_env_def sample_get by (simp add: de_vec_def de_pending)
  have t: "tx_txid (pending_tx sample_id) = sample_id" "tx_height (pending_tx sample_id) = None"
    by (simp_all add: pending_tx_def tx_height_def)
  have "chain_data [(sample_id, pending_tx sample_id)] =
      \<lparr>ch_txs = [(sample_id, pending_tx sample_id)], ch_mempool = [sample_id]\<rparr>"
    by (simp add: chain_data_def t btree_set_def btree_of_def)
  then show ?thesis
    by (simp add: sync_def wl address_chain_def chain_loop.simps [of mempool_env] chain address_mempool_def mem t sample_id_txid)
qed

theorem adapter_crawl_complete_witness:
  "\<exists>(p :: plan) ds st'. adapter_crawl mempool_env idle_adapter ''w'' (\<lambda>n st. st\<lparr>as_world := sample_world\<rparr>) (Suc (length (pl_items p)))
     None idle_state = Some (map snd (deliveries (ev_to_vec mempool_env) (pl_items p)), ds, st') \<and>
     map fst (pl_items p) = [KMempool sample_id]"
proof -
  let ?wl = "\<lparr>wl_resource_id = ''w'', wl_label = ''w'', wl_addresses = [''a''], wl_owned = [''a''], wl_address_hash = []\<rparr>"
  let ?ch = "\<lparr>ch_txs = [(sample_id, pending_tx sample_id)], ch_mempool = [sample_id]\<rparr>"
  obtain t where t: "observed_now mempool_env idle_adapter (as_world idle_state) = Inr t"
    using rfc3339_utc_instant [of 0]
    by (auto simp: observed_now_def source_now_def idle_adapter_def mempool_env_def sample_provider_def)
  obtain w' where s: "sync mempool_env (ad_source idle_adapter) ?wl (as_world idle_state) = Some (Inr ?ch, w')"
    using mempool_sync [of ?wl "as_world idle_state"] by (auto simp: idle_adapter_def)
  have wl: "lookup_wallet idle_adapter ''w'' = Some ?wl" by (simp add: lookup_wallet_def idle_adapter_def)
  have e: "entries ?ch None = [(KMempool sample_id, pending_tx sample_id)]"
    by (simp add: entries_def confirmed_entries_def confirmed_entry_def mempool_entries_def List.map_filter_simps
        pending_tx_def tx_height_def)
  have "is_ok (active cx (pending_tx sample_id) [''a''])" for cx
    by (rule active_total)
      (simp_all add: amounts_fit_def pending_tx_def net_delta_def wallet_spent_def spent_outputs_def List.map_filter_simps
        MAX_DIGITS_def)
  then obtain p where p: "make_plan (adapter_ctx idle_adapter ?wl t) ?ch (wl_owned ?wl) None = Inr p"
    using make_plan_total [of "adapter_ctx idle_adapter ?wl t" "[''a'']" ?ch None] by (auto simp: e)
  have items: "map fst (pl_items p) = [KMempool sample_id]"
    using make_plan_entries(1) [OF p] by (simp add: e observed_Inr_iff)
  have tv: "\<forall>j. ev_to_string mempool_env j \<noteq> None" by (simp add: mempool_env_def sample_provider_def)
  have room: "status_bytes mempool_env ''w'' + ENVELOPE_BYTES + MAX_OBSERVATION_BYTES < MAX_FRAME_BYTES"
    by (simp add: status_bytes_def entry_bytes_def ev_to_vec_def mempool_env_def sample_provider_def PAGE_REPLY_BYTES_def
        ENVELOPE_BYTES_def MAX_OBSERVATION_BYTES_def MAX_FRAME_BYTES_def)
  have drift: "\<forall>(n :: nat) st. map_of (as_crawls (st\<lparr>as_world := sample_world\<rparr>)) ''w'' = map_of (as_crawls st) ''w''" by simp
  obtain ds st' where r: "adapter_crawl mempool_env idle_adapter ''w'' (\<lambda>n st. st\<lparr>as_world := sample_world\<rparr>)
      (Suc (length (pl_items p))) None idle_state =
      Some (map snd (deliveries (ev_to_vec mempool_env) (pl_items p)), ds, st')"
    using adapter_crawl_complete [OF wl t s p tv room drift] by (elim exE conjE)
  show ?thesis by (rule exI [of _ p], rule exI [of _ ds], rule exI [of _ st'], rule conjI [OF r items])
qed

end
