(* ===== verification/Bitcoin_Balances.thy ===== *)
theory Bitcoin_Balances
  imports Bitcoin_Adapter_Correct
begin

text \<open>
  What a balances read of the Bitcoin adapter answers: two lines for each configured wallet,
  whatever happened, with the amounts known exactly when there is a figure to report; and how the
  host takes them.
\<close>

section \<open>One wallet\<close>

definition lines_of :: "adapter \<Rightarrow> string \<Rightarrow> resource_status \<Rightarrow> balance_wire list \<Rightarrow> bool" where
  "lines_of ad r s bs \<longleftrightarrow>
     rs_resource_id s = r \<and> resource_status_ok s \<and>
     list_all (\<lambda>b. balance_wire_ok b \<and> bw_resource_id b = r \<and> pw_adapter_id (bw_provenance b) = ADAPTER_ID) bs \<and>
     (case lookup_wallet ad r of
        None \<Rightarrow> bs = [] \<and> rs_outcome s = NotFetched
      | Some wl \<Rightarrow>
          map bw_category bs = [''confirmed'', ''unconfirmed''] \<and>
          (case rs_outcome s of
             Fetched _ \<Rightarrow> list_all (\<lambda>b. bw_amount b \<noteq> None) bs
           | Stale _ \<Rightarrow> True
           | _ \<Rightarrow> list_all (\<lambda>b. bw_amount b = None) bs))"

lemma balance_lines_categories: "balance_lines cx c u = Inr bs \<Longrightarrow> map bw_category bs = [''confirmed'', ''unconfirmed'']"
  by (auto simp: balance_lines_def balance_line_def res_simps)

lemma read_wallet_status:
  assumes "read_wallet_balances env ad wl t w = (a, w')" and "rfc_ok t"
  shows "rs_resource_id (ba_status a) = wl_resource_id wl \<and> resource_status_ok (ba_status a) \<and>
    (ba_abandoned a \<longleftrightarrow> limited (rs_outcome (ba_status a))) \<and>
    (case rs_outcome (ba_status a) of
       Fetched _ \<Rightarrow> ba_confirmed a \<noteq> None \<and> ba_unconfirmed a \<noteq> None
     | Stale _ \<Rightarrow> True
     | _ \<Rightarrow> ba_confirmed a = None \<and> ba_unconfirmed a = None)"
proof -
  obtain x w1 where x: "wallet_balances env (ad_source ad) wl w = (x, w1)" by force
  note ok = wallet_balances_ok [OF x]
  show ?thesis
  proof (cases x)
    case (Inr cu)
    then show ?thesis
      using assms by (cases cu) (auto simp: read_wallet_balances_def x outcome_ok_def)
  next
    case (Inl e)
    show ?thesis
    proof (cases e)
      case (FetchRateLimited ms d)
      then show ?thesis using assms ok failed_entry_ok(1) [of ms d]
        by (auto simp: read_wallet_balances_def x Inl)
    next
      case (FetchUnavailable d)
      let ?rec = "load_seen env (ad_state_dir ad) (wo_files w1) (wl_resource_id wl) (wl_address_hash wl)"
      have "opt_ok rfc_ok (sn_balances_as_of ?rec)" by (rule load_seen_ok)
      then show ?thesis using assms ok failed_entry_ok(2,3) [of d]
        by (auto simp: read_wallet_balances_def x Inl FetchUnavailable Let_def split: option.splits)
    qed
  qed
qed

lemma read_wallet_lines:
  assumes "read_wallet_balances env ad wl t w = (a, w')" and "rfc_ok t" and "lookup_wallet ad r = Some wl"
    and "balance_lines (adapter_ctx ad wl t) (ba_confirmed a) (ba_unconfirmed a) = Inr bs"
  shows "lines_of ad r (ba_status a) bs"
proof -
  have cx: "rfc_ok (cx_observed_at (adapter_ctx ad wl t))" using assms(2) by (simp add: adapter_ctx_def)
  note b = balance_lines_ok [OF cx assms(4)] balance_lines_categories [OF assms(4)]
  obtain b1 b2 where bs: "bs = [b1, b2]" using b(3) by (auto simp: map_eq_Cons_conv)
  have amounts: "bw_amount b1 = map_option sat (ba_confirmed a)" "bw_amount b2 = map_option sat (ba_unconfirmed a)"
    using b(2) by (simp_all add: bs)
  show ?thesis
    using read_wallet_status [OF assms(1,2)] b(1,3) amounts lookup_wallet_id [OF assms(3)]
    by (auto simp: lines_of_def assms(3) bs adapter_ctx_def split: read_outcome.splits)
qed

lemma not_fetched_lines:
  assumes "rfc_ok t" and "lookup_wallet ad r = Some wl"
    and "balance_lines (adapter_ctx ad wl t) None None = Inr bs"
  shows "lines_of ad r (status_entry r NotFetched) bs"
proof -
  have cx: "rfc_ok (cx_observed_at (adapter_ctx ad wl t))" using assms(1) by (simp add: adapter_ctx_def)
  note b = balance_lines_ok [OF cx assms(3)] balance_lines_categories [OF assms(3)]
  obtain b1 b2 where bs: "bs = [b1, b2]" using b(3) by (auto simp: map_eq_Cons_conv)
  show ?thesis
    using b lookup_wallet_id [OF assms(2)] by (auto simp: lines_of_def assms(2) bs adapter_ctx_def outcome_ok_def)
qed

section \<open>All wallets\<close>

text \<open>The lines of a reply are those of its statuses, one after the other.\<close>

definition balances_ok ::
  "adapter \<Rightarrow> bool \<Rightarrow> string list \<Rightarrow> balance_wire list \<Rightarrow> resource_status list \<Rightarrow> bool" where
  "balances_ok ad abandoned ids obs sts \<longleftrightarrow>
     quiet abandoned sts \<and> map rs_resource_id sts = ids \<and>
     (\<exists>bss. obs = concat bss \<and> list_all2 (\<lambda>s bs. lines_of ad (rs_resource_id s) s bs) sts bss)"

lemma balances_ok_Cons:
  assumes "lines_of ad r s bs" and "abandoned \<longrightarrow> rs_outcome s = NotFetched"
    and "balances_ok ad (abandoned \<or> limited (rs_outcome s)) ids obs sts"
  shows "balances_ok ad abandoned (r # ids) (bs @ obs) (s # sts)"
proof -
  from assms(3) obtain bss where "obs = concat bss" "list_all2 (\<lambda>s bs. lines_of ad (rs_resource_id s) s bs) sts bss"
    by (auto simp: balances_ok_def)
  then show ?thesis using assms
    by (auto simp: balances_ok_def lines_of_def intro!: exI [of _ "bs # bss"])
qed

lemma balances_each_adds:
  assumes "balances_each env ad t ab ids (obs, sts) w = (Inr (obs', sts'), w')" and "rfc_ok t"
  shows "\<exists>o2 s2. obs' = obs @ o2 \<and> sts' = sts @ s2 \<and> balances_ok ad ab ids o2 s2"
  using assms(1)
proof (induction ids arbitrary: ab obs sts w)
  case Nil
  then show ?case by (simp add: balances_ok_def)
next
  case (Cons r rs)
  have step: ?case
    if one: "lines_of ad r s bs" "ab \<longrightarrow> rs_outcome s = NotFetched"
      and rest: "balances_each env ad t (ab \<or> limited (rs_outcome s)) rs (obs @ bs, sts @ [s]) w1 = (Inr (obs', sts'), w')"
    for s bs w1
  proof -
    obtain o2 s2 where "obs' = (obs @ bs) @ o2" "sts' = (sts @ [s]) @ s2"
      "balances_ok ad (ab \<or> limited (rs_outcome s)) rs o2 s2"
      using Cons.IH [OF rest] by blast
    with balances_ok_Cons [OF one] show ?thesis by (intro exI [of _ "bs @ o2"] exI [of _ "s # s2"]) simp
  qed
  show ?case
  proof (cases "lookup_wallet ad r")
    case None
    then have "lines_of ad r (unknown_resource r) []" by (simp add: lines_of_def)
    then show ?thesis using Cons.prems None by (intro step [of "unknown_resource r" "[]" w]) simp_all
  next
    case (Some wl)
    show ?thesis
    proof (cases ab)
      case True
      obtain bs where "balance_lines (adapter_ctx ad wl t) None None = Inr bs"
        using Cons.prems True by (cases "balance_lines (adapter_ctx ad wl t) None None") (auto simp: Some)
      then show ?thesis
        using Cons.prems True not_fetched_lines [OF assms(2) Some]
        by (intro step [of "status_entry r NotFetched" bs w]) (simp_all add: Some)
    next
      case False
      obtain a w1 where a: "read_wallet_balances env ad wl t w = (a, w1)" by force
      obtain bs where bs: "balance_lines (adapter_ctx ad wl t) (ba_confirmed a) (ba_unconfirmed a) = Inr bs"
        using Cons.prems False a
        by (cases "balance_lines (adapter_ctx ad wl t) (ba_confirmed a) (ba_unconfirmed a)") (auto simp: Some)
      show ?thesis
        using Cons.prems False a bs read_wallet_lines [OF a assms(2) Some bs] read_wallet_status [OF a assms(2)]
        by (intro step [of "ba_status a" bs w1]) (simp_all add: Some)
    qed
  qed
qed

section \<open>Where the figures come from\<close>

text \<open>What the provider says of every address of a wallet, in order, or its first failure.\<close>

fun provider_stats ::
  "'w btc_env \<Rightarrow> source \<Rightarrow> string list \<Rightarrow> 'w world \<Rightarrow> (fetch_error + address_stats list) \<times> 'w world" where
  "provider_stats env src [] w = (Inr [], w)"
| "provider_stats env src (address # rest) w =
     (case fetch_address_stats env src address w of
        (Inl e, w) \<Rightarrow> (Inl e, w)
      | (Inr stats, w) \<Rightarrow> map_prod (map_sum id ((#) stats)) id (provider_stats env src rest w))"

definition confirmed_total :: "address_stats list \<Rightarrow> int" where
  "confirmed_total ss = (\<Sum>a\<leftarrow>ss. stats_net (as_chain a))"

definition unconfirmed_total :: "address_stats list \<Rightarrow> int" where
  "unconfirmed_total ss = (\<Sum>a\<leftarrow>ss. stats_net (as_mempool a))"

lemma balances_loop_stats:
  "balances_loop env src as acc w =
     map_prod (map_sum id (\<lambda>ss. (fst acc + confirmed_total ss, snd acc + unconfirmed_total ss))) id
       (provider_stats env src as w)"
proof (induction env src as acc w rule: balances_loop.induct)
  case (2 env src a as c u w)
  obtain x w1 where f: "fetch_address_stats env src a w = (x, w1)" by force
  show ?case
  proof (cases x)
    case (Inr stats)
    obtain y w2 where p: "provider_stats env src as w1 = (y, w2)" by force
    show ?thesis using 2 [OF f [symmetric] Inr]
      by (cases y) (simp_all add: f Inr p confirmed_total_def unconfirmed_total_def)
  qed (simp add: f)
qed (simp add: confirmed_total_def unconfirmed_total_def)

text \<open>The two lines of a wallet, with these figures.\<close>

definition lines_with :: "string \<Rightarrow> int option \<Rightarrow> int option \<Rightarrow> balance_wire list \<Rightarrow> bool" where
  "lines_with r confirmed unconfirmed bs \<longleftrightarrow>
     map (\<lambda>b. (bw_resource_id b, bw_category b, bw_amount b)) bs =
       [(r, ''confirmed'', map_option sat confirmed), (r, ''unconfirmed'', map_option sat unconfirmed)]"

text \<open>
  The answer for one resource, told from what the provider said. A wallet that is not configured has
  no line. Each other has two: without figures after a rate limit, or if the read fails and nothing is
  saved; with the saved figures, called stale as of when they were saved, if it fails and there are
  some; and with the sums over all addresses, called fetched, if every address was read.
\<close>

inductive resource_figures ::
  "'w btc_env \<Rightarrow> adapter \<Rightarrow> rfc3339 \<Rightarrow> bool \<Rightarrow> string \<Rightarrow> 'w world \<Rightarrow> balance_wire list \<Rightarrow> resource_status \<Rightarrow>
   'w world \<Rightarrow> bool"
  for env ad t where
  Unconfigured: "lookup_wallet ad r = None \<Longrightarrow> resource_figures env ad t stopped r w [] (unknown_resource r) w"
| Stopped: "lookup_wallet ad r = Some wl \<Longrightarrow> lines_with r None None bs \<Longrightarrow>
    resource_figures env ad t True r w bs (status_entry r NotFetched) w"
| Answered: "lookup_wallet ad r = Some wl \<Longrightarrow>
    provider_stats env (ad_source ad) (wl_addresses wl) w = (Inr ss, w1) \<Longrightarrow>
    c = confirmed_total ss \<Longrightarrow> u = unconfirmed_total ss \<Longrightarrow> lines_with r (Some c) (Some u) bs \<Longrightarrow>
    files = snd (save_balances env (ad_pid ad) (ad_state_dir ad) r (wl_address_hash wl) t (Some c) (Some u) (wo_files w1)) \<Longrightarrow>
    resource_figures env ad t False r w bs (status_entry r (Fetched False)) (w1\<lparr>wo_files := files\<rparr>)"
| Limited: "lookup_wallet ad r = Some wl \<Longrightarrow>
    provider_stats env (ad_source ad) (wl_addresses wl) w = (Inl (FetchRateLimited ms detail), w1) \<Longrightarrow>
    lines_with r None None bs \<Longrightarrow>
    resource_figures env ad t False r w bs (entry_with_detail (status_entry r (RateLimited ms)) detail) w1"
| Saved: "lookup_wallet ad r = Some wl \<Longrightarrow>
    provider_stats env (ad_source ad) (wl_addresses wl) w = (Inl (FetchUnavailable detail), w1) \<Longrightarrow>
    seen = load_seen env (ad_state_dir ad) (wo_files w1) r (wl_address_hash wl) \<Longrightarrow>
    sn_balances_as_of seen = Some since \<Longrightarrow> lines_with r (sn_confirmed seen) (sn_unconfirmed seen) bs \<Longrightarrow>
    resource_figures env ad t False r w bs (entry_with_detail (status_entry r (Stale since)) detail) w1"
| Unread: "lookup_wallet ad r = Some wl \<Longrightarrow>
    provider_stats env (ad_source ad) (wl_addresses wl) w = (Inl (FetchUnavailable detail), w1) \<Longrightarrow>
    sn_balances_as_of (load_seen env (ad_state_dir ad) (wo_files w1) r (wl_address_hash wl)) = None \<Longrightarrow>
    lines_with r None None bs \<Longrightarrow>
    resource_figures env ad t False r w bs (entry_with_detail (status_entry r Unavailable) detail) w1"

inductive figures ::
  "'w btc_env \<Rightarrow> adapter \<Rightarrow> rfc3339 \<Rightarrow> bool \<Rightarrow> string list \<Rightarrow> 'w world \<Rightarrow> balance_wire list \<Rightarrow> resource_status list \<Rightarrow>
   'w world \<Rightarrow> bool"
  for env ad t where
  Done: "figures env ad t stopped [] w [] [] w"
| Next: "resource_figures env ad t stopped r w bs s w1 \<Longrightarrow>
    figures env ad t (stopped \<or> limited (rs_outcome s)) rs w1 bs' ss w' \<Longrightarrow>
    figures env ad t stopped (r # rs) w (bs @ bs') (s # ss) w'"

lemma balance_lines_with:
  assumes "balance_lines (adapter_ctx ad wl t) c u = Inr bs" and "rfc_ok t" and "lookup_wallet ad r = Some wl"
  shows "lines_with r c u bs"
proof -
  have cx: "rfc_ok (cx_observed_at (adapter_ctx ad wl t))" using assms(2) by (simp add: adapter_ctx_def)
  note b = balance_lines_ok [OF cx assms(1)] balance_lines_categories [OF assms(1)]
  obtain b1 b2 where bs: "bs = [b1, b2]" using b(3) by (auto simp: map_eq_Cons_conv)
  show ?thesis using b lookup_wallet_id [OF assms(3)] by (simp add: lines_with_def bs adapter_ctx_def)
qed

lemma read_wallet_figures:
  assumes a: "read_wallet_balances env ad wl t w = (a, w')" and wl: "lookup_wallet ad r = Some wl"
    and bs: "balance_lines (adapter_ctx ad wl t) (ba_confirmed a) (ba_unconfirmed a) = Inr bs" and t: "rfc_ok t"
  shows "resource_figures env ad t False r w bs (ba_status a) w'"
proof -
  note lines = balance_lines_with [OF bs t wl]
  note r = lookup_wallet_id [OF wl]
  obtain x w1 where x: "provider_stats env (ad_source ad) (wl_addresses wl) w = (x, w1)" by force
  have wb: "wallet_balances env (ad_source ad) wl w =
      (map_sum id (\<lambda>ss. (confirmed_total ss, unconfirmed_total ss)) x, w1)"
    by (simp add: wallet_balances_def balances_loop_stats x)
  show ?thesis
  proof (cases x)
    case (Inr ss)
    let ?f = "snd (save_balances env (ad_pid ad) (ad_state_dir ad) r (wl_address_hash wl) t
        (Some (confirmed_total ss)) (Some (unconfirmed_total ss)) (wo_files w1))"
    have b: "ba_confirmed a = Some (confirmed_total ss)" "ba_unconfirmed a = Some (unconfirmed_total ss)"
      "ba_status a = status_entry r (Fetched False)" "w' = w1\<lparr>wo_files := ?f\<rparr>"
      using a by (auto simp: read_wallet_balances_def wb Inr r)
    show ?thesis unfolding b(3,4)
      by (rule resource_figures.Answered [OF wl x [unfolded Inr] refl refl lines [unfolded b(1,2)] refl])
  next
    case (Inl e)
    show ?thesis
    proof (cases e)
      case (FetchRateLimited ms d)
      have b: "ba_confirmed a = None" "ba_unconfirmed a = None"
        "ba_status a = entry_with_detail (status_entry r (RateLimited ms)) d" "w' = w1"
        using a by (auto simp: read_wallet_balances_def wb Inl FetchRateLimited r)
      show ?thesis unfolding b(3,4)
        by (rule resource_figures.Limited [OF wl x [unfolded Inl FetchRateLimited] lines [unfolded b(1,2)]])
    next
      case (FetchUnavailable d)
      note x' = x [unfolded Inl FetchUnavailable]
      show ?thesis
      proof (cases "sn_balances_as_of (load_seen env (ad_state_dir ad) (wo_files w1) r (wl_address_hash wl))")
        case None
        have b: "ba_confirmed a = None" "ba_unconfirmed a = None"
          "ba_status a = entry_with_detail (status_entry r Unavailable) d" "w' = w1"
          using a None by (auto simp: read_wallet_balances_def wb Inl FetchUnavailable Let_def r)
        show ?thesis unfolding b(3,4)
          by (rule resource_figures.Unread [OF wl x' None lines [unfolded b(1,2)]])
      next
        case (Some since)
        let ?seen = "load_seen env (ad_state_dir ad) (wo_files w1) r (wl_address_hash wl)"
        have b: "ba_confirmed a = sn_confirmed ?seen" "ba_unconfirmed a = sn_unconfirmed ?seen"
          "ba_status a = entry_with_detail (status_entry r (Stale since)) d" "w' = w1"
          using a Some by (auto simp: read_wallet_balances_def wb Inl FetchUnavailable Let_def r)
        show ?thesis unfolding b(3,4)
          by (rule resource_figures.Saved [OF wl x' refl Some lines [unfolded b(1,2)]])
      qed
    qed
  qed
qed

lemma balances_each_figures:
  assumes "balances_each env ad t ab ids (obs, sts) w = (Inr (obs', sts'), w')" and t: "rfc_ok t"
  shows "\<exists>o2 s2. obs' = obs @ o2 \<and> sts' = sts @ s2 \<and> figures env ad t ab ids w o2 s2 w'"
  using assms(1)
proof (induction ids arbitrary: ab obs sts w)
  case Nil
  then show ?case by (simp add: figures.Done)
next
  case (Cons r rs)
  have step: ?case
    if one: "resource_figures env ad t ab r w bs s w1"
      and rest: "balances_each env ad t (ab \<or> limited (rs_outcome s)) rs (obs @ bs, sts @ [s]) w1 = (Inr (obs', sts'), w')"
    for s bs w1
  proof -
    obtain o2 s2 where "obs' = (obs @ bs) @ o2" "sts' = (sts @ [s]) @ s2"
      "figures env ad t (ab \<or> limited (rs_outcome s)) rs w1 o2 s2 w'"
      using Cons.IH [OF rest] by blast
    with figures.Next [OF one] show ?thesis by (intro exI [of _ "bs @ o2"] exI [of _ "s # s2"]) simp
  qed
  show ?case
  proof (cases "lookup_wallet ad r")
    case None
    show ?thesis
      by (rule step [OF resource_figures.Unconfigured [OF None]])
        (use Cons.prems None in \<open>simp add: unknown_resource_def entry_with_detail_def status_entry_def\<close>)
  next
    case (Some wl)
    show ?thesis
    proof (cases ab)
      case True
      obtain bs where bs: "balance_lines (adapter_ctx ad wl t) None None = Inr bs"
        using Cons.prems True by (cases "balance_lines (adapter_ctx ad wl t) None None") (auto simp: Some)
      have "resource_figures env ad t ab r w bs (status_entry r NotFetched) w"
        unfolding eqTrueI [OF True] by (rule resource_figures.Stopped [OF Some balance_lines_with [OF bs t Some]])
      then show ?thesis by (rule step) (use Cons.prems True bs in \<open>simp add: Some\<close>)
    next
      case False
      obtain a w1 where a: "read_wallet_balances env ad wl t w = (a, w1)" by force
      obtain bs where bs: "balance_lines (adapter_ctx ad wl t) (ba_confirmed a) (ba_unconfirmed a) = Inr bs"
        using Cons.prems False a
        by (cases "balance_lines (adapter_ctx ad wl t) (ba_confirmed a) (ba_unconfirmed a)") (auto simp: Some)
      have "resource_figures env ad t ab r w bs (ba_status a) w1"
        using read_wallet_figures [OF a Some bs t] False by simp
      then show ?thesis
        by (rule step) (use Cons.prems False a bs read_wallet_status [OF a t] in \<open>simp add: Some\<close>)
    qed
  qed
qed

lemma balances_each_error: "balances_each env ad t ab ids acc w = (Inl e, w') \<Longrightarrow> error_body_ok e"
proof (induction ids arbitrary: ab acc w)
  case (Cons r rs)
  obtain obs sts where acc: "acc = (obs, sts)" by force
  show ?case
  proof (cases "lookup_wallet ad r")
    case (Some wl)
    obtain a w1 where "(if ab then (\<lparr>ba_confirmed = None, ba_unconfirmed = None, ba_status = status_entry r NotFetched,
        ba_abandoned = True\<rparr>, w) else read_wallet_balances env ad wl t w) = (a, w1)" by force
    with Cons show ?thesis
      by (cases "balance_lines (adapter_ctx ad wl t) (ba_confirmed a) (ba_unconfirmed a)") (auto simp: Some acc)
  qed (use Cons in \<open>simp add: acc\<close>)
qed simp

section \<open>Through the host\<close>

lemma de_ser_balances_params: "de_balances_read_params (ser_balances_read_params ids) = Inr ids"
  unfolding de_balances_read_params_def ser_balances_read_params_def
  by (subst de_ser_struct) (simp_all add: req_def wire_simps)

lemma dispatch_balances:
  "dispatch env ad OP_BALANCES_READ params st =
     Some (map_prod id (\<lambda>w. st\<lparr>as_world := w\<rparr>) (op_balances_read env ad params (as_world st)))"
  by (simp add: dispatch_def OP_HELLO_def OP_RESOURCES_LIST_def OP_BALANCES_READ_def)

lemma op_balances_cases:
  assumes "op_balances_read env ad (json_value (ser_balances_read_params ids)) w = (out, w')"
  obtains (err) e where "out = Inl e" "error_body_ok e"
  | (ok) t obs sts where "out = Inr (json_value (ser_balances_read_reply (obs, sts)))" "distinct ids"
      "balances_ok ad False ids obs sts" "observed_now env ad w = Inr t" "figures env ad t False ids w obs sts w'"
proof -
  have q: "de_balances_read_params (json_value (ser_balances_read_params ids)) = Inr ids"
    by (rule value_stableD [OF stable_balances_params de_ser_balances_params])
  show thesis
  proof (cases "res_bind (no_repeats [] ids) (\<lambda>_. observed_now env ad w)")
    case (Inl e)
    moreover from this have "error_body_ok e"
      by (cases "no_repeats [] ids") (auto dest: no_repeats_error observed_now_error)
    ultimately show thesis using assms err by (auto simp: op_balances_read_def q)
  next
    case (Inr t)
    then have t: "rfc_ok t" "distinct ids" by (auto simp: res_simps no_repeats_iff dest: observed_now_ok)
    obtain x w1 where b: "balances_each env ad t False ids ([], []) w = (x, w1)" by force
    show thesis
    proof (cases x)
      case Inl': (Inl e)
      show thesis using assms err balances_each_error [OF b [unfolded Inl']]
        by (auto simp: op_balances_read_def q Inr b Inl')
    next
      case Inr': (Inr acc)
      obtain obs sts where acc: "acc = (obs, sts)" by force
      have now: "observed_now env ad w = Inr t" using Inr by (auto simp: res_simps)
      have o: "out = Inr (json_value (ser_balances_read_reply (obs, sts)))" "w1 = w'"
        using assms by (simp_all add: op_balances_read_def q Inr b Inr' acc)
      show thesis
        using balances_each_adds [OF b [unfolded Inr' acc] t(1)] balances_each_figures [OF b [unfolded Inr' acc] t(1)] t(2)
        by (intro ok [OF o(1) _ _ now]) (auto simp: o(2))
    qed
  qed
qed

lemma balances_ok_lines:
  assumes "balances_ok ad ab ids obs sts"
  shows "list_all (\<lambda>b. balance_wire_ok b \<and> pw_adapter_id (bw_provenance b) = ADAPTER_ID \<and> bw_resource_id b \<in> set ids) obs"
    and "list_all resource_status_ok sts" and "map rs_resource_id sts = ids"
proof -
  from assms obtain bss where obs: "obs = concat bss" and ids: "map rs_resource_id sts = ids"
    and l: "list_all2 (\<lambda>s bs. lines_of ad (rs_resource_id s) s bs) sts bss"
    by (auto simp: balances_ok_def)
  show "map rs_resource_id sts = ids" by (rule ids)
  have len: "length sts = length bss" by (rule list_all2_lengthD [OF l])
  have "lines_of ad (rs_resource_id (sts ! n)) (sts ! n) (bss ! n)" if "n < length sts" for n
    using l that by (simp add: list_all2_conv_all_nth)
  then have each: "\<exists>s\<in>set sts. lines_of ad (rs_resource_id s) s bs" if "bs \<in> set bss" for bs
    using that len by (metis in_set_conv_nth nth_mem)
  show "list_all (\<lambda>b. balance_wire_ok b \<and> pw_adapter_id (bw_provenance b) = ADAPTER_ID \<and> bw_resource_id b \<in> set ids) obs"
    using each by (fastforce simp: obs list_all_iff lines_of_def simp flip: ids)
  show "list_all resource_status_ok sts"
    using l by (auto simp: list_all_iff list_all2_conv_all_nth in_set_conv_nth lines_of_def)
qed

lemma host_balances_read:
  assumes "from_str l = Some (ser_reply id (ReplyOk i (json_value (ser_balances_read_reply (obs, sts)))))"
    and "balances_ok ad False ids obs sts" and "distinct ids"
  shows "balances_read from_str err_text to_vec ADAPTER_ID ids (Inr (l, t)) = Inr (balances_result to_vec t obs sts)"
proof -
  note lines = balances_ok_lines [OF assms(2)]
  have "de_balances_read_reply (ser_balances_read_reply (obs, sts)) = Inr (obs, sts)"
    using lines by (intro de_ser_balances_reply) (auto simp: list_all_iff)
  then have "de_balances_read_reply (json_value (ser_balances_read_reply (obs, sts))) = Inr (obs, sts)"
    by (rule value_stableD [OF stable_balances_reply])
  then have "de_reply de_balances_read_reply
      (ser_reply (\<lambda>p. json_value (ser_balances_read_reply p)) (ReplyOk i (obs, sts))) = Inr (ReplyOk i (obs, sts))"
    by (rule de_ser_reply_ok)
  then have "reply_body from_str de_balances_read_reply l = Some (obs, sts)"
    using assms(1) by (simp add: reply_body_def)
  moreover have "covers ids sts" by (rule covers_same [OF lines(3) assms(3)])
  moreover have "list_all (\<lambda>b. pw_adapter_id (bw_provenance b) = ADAPTER_ID \<and> bw_resource_id b \<in> set ids) obs"
    using lines(1) by (simp add: list_all_iff)
  ultimately show ?thesis unfolding balances_read_iff by blast
qed

section \<open>The properties\<close>

text \<open>C17. A balances read through both programs never turns an unknown balance into a figure. The host
  gets the adapter's error, or what the adapter answered, and that is for each requested resource, in
  order, what the provider said: if it answered for every address, the two sums of what it answered;
  if it did not, the saved figures under the time they were saved, or two lines without an amount if
  there are none or the provider asked to stop, after which nothing is fetched any more. A resource
  that is not configured gets no line.\<close>

theorem host_reads_adapter_balances:
  assumes "ev_from_str env frame =
      Inr (ser_request \<lparr>rq_id = i, rq_op = OP_BALANCES_READ, rq_params = json_value (ser_balances_read_params ids)\<rparr>)"
    and "handle env ad frame st = Some (Some r, st')" and "reply_line env r = Some line"
    and "\<forall>j s. ev_to_string env j = Some s \<longrightarrow> from_str s = Some j"
  shows "reply_id r = i \<and>
    (case sent_reply env r of
       ReplyErr k e \<Rightarrow>
         k = i \<and> balances_read from_str err_text (ev_to_vec env) ADAPTER_ID ids (Inr (line, t)) = Inl (Wire e)
     | ReplyOk k body \<Rightarrow>
         k = i \<and>
         (\<exists>now obs sts. observed_now env ad (as_world st) = Inr now \<and>
            figures env ad now False ids (as_world st) obs sts (as_world st') \<and>
            body = json_value (ser_balances_read_reply (obs, sts)) \<and> balances_ok ad False ids obs sts \<and>
            balances_read from_str err_text (ev_to_vec env) ADAPTER_ID ids (Inr (line, t)) =
              Inr (balances_result (ev_to_vec env) t obs sts)))"
proof -
  have nn: "ser_balances_read_params ids \<noteq> JNull" by (simp add: ser_balances_read_params_def ser_struct_def)
  obtain out w' where d: "op_balances_read env ad (json_value (ser_balances_read_params ids)) (as_world st) = (out, w')"
    and r: "r = (case out of Inl e \<Rightarrow> ReplyErr i e | Inr b \<Rightarrow> ReplyOk i b)" and w': "as_world st' = w'"
    using assms(2) unfolding handle_request [OF assms(1) nn] dispatch_balances
    by (cases "op_balances_read env ad (json_value (ser_balances_read_params ids)) (as_world st)") auto
  have err: "out = Inl e \<Longrightarrow> error_body_ok e" for e using d by (rule op_balances_cases) auto
  note ans = answered [OF r assms(3,4) err]
  show ?thesis
  proof (cases "sent_reply env r")
    case (ReplyErr k e)
    then show ?thesis
      using ans unfolding balances_read_def by (simp only: read_error_reply res_bind.simps reply.case)
  next
    case (ReplyOk k body)
    then have body: "k = i" "out = Inr body" "from_str line = Some (ser_reply id (ReplyOk i body))" using ans(2) by simp_all
    from d show ?thesis
    proof (rule op_balances_cases)
      fix now obs sts
      assume o: "out = Inr (json_value (ser_balances_read_reply (obs, sts)))" "distinct ids" "balances_ok ad False ids obs sts"
        "observed_now env ad (as_world st) = Inr now" "figures env ad now False ids (as_world st) obs sts w'"
      have b: "body = json_value (ser_balances_read_reply (obs, sts))" using o(1) body(2) by simp
      have "balances_read from_str err_text (ev_to_vec env) ADAPTER_ID ids (Inr (line, t)) =
          Inr (balances_result (ev_to_vec env) t obs sts)"
        using host_balances_read [of from_str line i obs sts ad ids] body(1,3) b o(2,3) by auto
      then show ?thesis using ans(1) o(3,4,5) b body(1) unfolding w' ReplyOk reply.case by blast
    qed (use body in simp)
  qed
qed

text \<open>A host that asks for the balances of a wallet that is not configured.\<close>

definition stranger_reply :: "json reply" where
  "stranger_reply = ReplyOk 5 (json_value (ser_balances_read_reply ([], [unknown_resource ''z''])))"

definition stranger_env :: "unit btc_env" where
  "stranger_env =
     (sample_provider (\<lambda>p. ser_request
        \<lparr>rq_id = 5, rq_op = OP_BALANCES_READ, rq_params = json_value (ser_balances_read_params [''z''])\<rparr>))
       \<lparr>ev_to_string := (\<lambda>j. if j = ser_reply id stranger_reply then Some ''reply'' else None)\<rparr>"

theorem host_reads_adapter_balances_witness:
  "\<exists>sts. map rs_resource_id sts = [''z''] \<and>
     balances_read (\<lambda>s. if s = ''reply'' then Some (ser_reply id stranger_reply) else None) id (ev_to_vec stranger_env)
       ADAPTER_ID [''z''] (Inr (''reply'', Rfc3339 [])) = Inr \<lparr>br_observations = [], br_statuses = sts\<rparr>"
proof -
  let ?req = "ser_request \<lparr>rq_id = 5, rq_op = OP_BALANCES_READ, rq_params = json_value (ser_balances_read_params [''z''])\<rparr>"
  have f: "ev_from_str stranger_env ''frame'' = Inr ?req" by (simp add: stranger_env_def sample_provider_def)
  obtain t where t: "observed_now stranger_env idle_adapter sample_world = Inr t"
    using rfc3339_utc_instant [of 0]
    by (auto simp: observed_now_def source_now_def idle_adapter_def stranger_env_def sample_provider_def)
  have q: "de_balances_read_params (json_value (ser_balances_read_params [''z''])) = Inr [''z'']"
    by (rule value_stableD [OF stable_balances_params de_ser_balances_params])
  have "lookup_wallet idle_adapter ''z'' = None" by (simp add: lookup_wallet_def idle_adapter_def)
  then have o: "op_balances_read stranger_env idle_adapter (json_value (ser_balances_read_params [''z''])) sample_world =
      (Inr (json_value (ser_balances_read_reply ([], [unknown_resource ''z'']))), sample_world)"
    by (simp add: op_balances_read_def q t)
  have nn: "ser_balances_read_params [''z''] \<noteq> JNull" by (simp add: ser_balances_read_params_def ser_struct_def)
  have h: "handle stranger_env idle_adapter ''frame'' idle_state = Some (Some stranger_reply, idle_state)"
    unfolding handle_request [OF f nn] dispatch_balances using o by (simp add: idle_state_def stranger_reply_def)
  have line: "reply_line stranger_env stranger_reply = Some ''reply''" "sent_reply stranger_env stranger_reply = stranger_reply"
    by (simp_all add: reply_line_def sent_reply_def stranger_env_def MAX_FRAME_BYTES_def)
  have sent: "sent_reply stranger_env stranger_reply =
      ReplyOk 5 (json_value (ser_balances_read_reply ([], [unknown_resource ''z''])))"
    unfolding line(2) by (rule stranger_reply_def)
  have rt: "\<forall>j s. ev_to_string stranger_env j = Some s \<longrightarrow>
      (if s = ''reply'' then Some (ser_reply id stranger_reply) else None) = Some j"
    by (simp add: stranger_env_def)
  obtain obs sts where r: "balances_ok idle_adapter False [''z''] obs sts"
    "balances_read (\<lambda>s. if s = ''reply'' then Some (ser_reply id stranger_reply) else None) id (ev_to_vec stranger_env)
       ADAPTER_ID [''z''] (Inr (''reply'', Rfc3339 [])) = Inr (balances_result (ev_to_vec stranger_env) (Rfc3339 []) obs sts)"
    using host_reads_adapter_balances [OF f h line(1) rt, of id "Rfc3339 []", THEN conjunct2, unfolded sent reply.case]
    by blast
  have ids: "map rs_resource_id sts = [''z'']" using r(1) by (simp add: balances_ok_def)
  then obtain s where sts: "sts = [s]" "rs_resource_id s = ''z''" by (auto simp: map_eq_Cons_conv)
  have "obs = []" using r(1) by (auto simp: balances_ok_def sts lines_of_def lookup_wallet_def idle_adapter_def list_all2_Cons1)
  then have "balances_result (ev_to_vec stranger_env) (Rfc3339 []) obs sts = \<lparr>br_observations = [], br_statuses = sts\<rparr>"
    by (simp add: balances_result_def Let_def sts)
  with r(2) ids show ?thesis by (intro exI [of _ sts] conjI) simp_all
qed

end
