(* ===== verification/Seen_Correct.thy ===== *)
theory Seen_Correct
  imports Bitcoin_Replies
begin

text \<open>
  The balance cache as an atomic store: a save that succeeds is what the next load of that resource
  and address set returns, a save that fails at any point leaves every load as it was, and no save
  touches another resource.
\<close>

section \<open>The file reads back\<close>

lemma de_ser_lenient:
  assumes "distinct (map fst kvs)" and "set (map fst kvs) \<subseteq> set names"
  shows "de_lenient names build (ser_struct kvs) = build (\<lambda>k. Option.bind (map_of kvs k) id)"
proof -
  have "filter (\<lambda>m. fst m \<in> set names) (present kvs) = present kvs"
    using present_keys [of kvs] assms(2) by (intro filter_True) auto
  moreover have "map_of (present kvs) = (\<lambda>k. Option.bind (map_of kvs k) id)"
    by (rule ext) (rule present_get [OF assms(1)])
  ultimately show ?thesis using present_distinct [OF assms(1)] by (simp add: de_lenient_def ser_struct_def)
qed

lemma dflt_null_string [wire_simps]:
  "(case json_opt JStr v of JNull \<Rightarrow> Inr None | j \<Rightarrow> map_sum id Some (de_string j)) = Inr v"
  by (cases v) simp_all

lemma de_option_opt: "de_option de_string (json_opt JStr v) = Inr v"
  by (cases v) simp_all

lemma de_ser_balances_file: "de_balances_file (ser_balances_file b) = Inr b"
  unfolding de_balances_file_def ser_balances_file_def
  by (subst de_ser_lenient) (simp_all add: dflt_def de_option_opt dflt_string)

lemma de_ser_seen_file: "sf_schema f < 2 ^ 32 \<Longrightarrow> de_seen_file (ser_seen_file f) = Inr f"
  unfolding de_seen_file_def ser_seen_file_def
  by (subst de_ser_lenient) (simp_all add: req_def dflt_def de_ser_balances_file de_u32_JInt)

definition i128_ok :: "int option \<Rightarrow> bool" where
  "i128_ok v \<longleftrightarrow> opt_ok (\<lambda>n. - (2 ^ 127) \<le> n \<and> n < 2 ^ 127) v"

lemma decode_seen_file_of:
  assumes "rfc_ok t" and "i128_ok c" and "i128_ok u"
  shows "decode_seen (seen_file_of h t c u) =
    Some \<lparr>sn_balances_as_of = Some t, sn_confirmed = c, sn_unconfirmed = u\<rparr>"
proof -
  have "parse_balance (map_option show_int v) = Some v" if "i128_ok v" for v
    using that by (cases v) (simp_all add: parse_balance_def parse_i128_def i128_ok_def parse_signed_show_int)
  moreover have "rfc3339_new (ts_str t) = Inr t" using assms(1) by (simp add: rfc3339_new_def rfc_ok_def)
  ultimately show ?thesis using assms by (simp add: decode_seen_def seen_file_of_def)
qed

section \<open>The paths\<close>

definition dir_prefix :: "string \<Rightarrow> string" where
  "dir_prefix d = (if d = [] \<or> last d = CHR ''/'' then d else d @ ''/'')"

lemma resource_id_plain: "resource_id_ok r \<Longrightarrow> r \<noteq> [] \<and> CHR ''/'' \<notin> set r"
  by (auto simp: resource_id_ok_def list_all_iff ascii_alphanumeric_def is_digit_def)

lemma store_file: "resource_id_ok r \<Longrightarrow> path_join d (r @ ''.json'') = dir_prefix d @ r @ ''.json''"
  using resource_id_plain [of r] by (cases r) (auto simp: path_join_def dir_prefix_def)

lemma takeWhile_rev_append:
  "P \<notin> set xs \<Longrightarrow> ys = [] \<or> last ys = P \<Longrightarrow> takeWhile (\<lambda>c. c \<noteq> P) (rev (ys @ xs)) = rev xs"
  by (cases ys rule: rev_cases) (auto simp: takeWhile_tail intro!: takeWhile_eq_all_conv [THEN iffD2])

lemma temp_file:
  assumes "resource_id_ok r"
  shows "with_extension (dir_prefix d @ r @ ''.json'') ext = dir_prefix d @ r @ ''.'' @ ext"
proof -
  have slash: "CHR ''/'' \<notin> set (r @ ''.json'')" using resource_id_plain [OF assms] by simp
  have "dir_prefix d = [] \<or> last (dir_prefix d) = CHR ''/''" by (simp add: dir_prefix_def)
  from takeWhile_rev_append [OF slash this] have n: "file_name (dir_prefix d @ r @ ''.json'') = r @ ''.json''"
    unfolding file_name_def by (simp only: rev_rev_ident)
  have "file_stem (r @ ''.json'') = r"
    using resource_id_plain [OF assms] by (simp add: file_stem_def)
  then show ?thesis by (simp add: with_extension_def n)
qed

lemma temp_file_apart: "dir_prefix d @ r @ ''.'' @ ''tmp.'' @ dec pid \<noteq> dir_prefix d @ r' @ ''.json''"
proof
  assume "dir_prefix d @ r @ ''.'' @ ''tmp.'' @ dec pid = dir_prefix d @ r' @ ''.json''"
  then have "last (r @ ''.'' @ ''tmp.'' @ dec pid) = last (r' @ ''.json'')" by simp
  then have "last (dec pid) = CHR ''n''" by simp
  moreover have "is_digit (last (dec pid))" using dec_digits [of pid] last_in_set [of "dec pid"] by simp
  ultimately show False by (simp add: is_digit_def)
qed

section \<open>The save\<close>

lemma load_seen_cong:
  "store_path dir r = Some p \<Longrightarrow> fs p = fs' p \<Longrightarrow> load_seen env dir fs r h = load_seen env dir fs' r h"
  by (simp add: load_seen_def read_seen_file_def read_to_string_def)

lemma write_atomic_files:
  assumes "write_atomic env pid path bytes fs = (ok, fs')" and "tmp = with_extension path (''tmp.'' @ dec pid)"
    and "tmp \<noteq> path"
  shows "(ok \<longrightarrow> fs' path = Some bytes) \<and> (\<forall>p. p \<noteq> tmp \<longrightarrow> (p \<noteq> path \<or> \<not> ok) \<longrightarrow> fs' p = fs p)"
  using assms
  by (auto simp: write_atomic_def write_file_def Let_def split: if_splits option.splits)

text \<open>C18. The balance cache is atomic: whether a save succeeds or fails at the directory, the writer, the
  write or the rename, every later load is either as it was before or, for the saved resource after
  a success, exactly the saved figures for the same address set and a first run for any other.\<close>

theorem save_balances_atomic:
  assumes "save_balances env pid (Some d) r h t c u fs = (ok, fs')"
    and "resource_id_ok r" and "rfc_ok t" and "i128_ok c" and "i128_ok u"
    and "\<forall>j b. ev_to_pretty env j = Some b \<longrightarrow> ev_from_str env b = Inr j \<and> utf8 b"
  shows "\<forall>r' h'. resource_id_ok r' \<longrightarrow>
    load_seen env (Some d) fs' r' h' =
      (if ok \<and> r' = r then
         (if h' = h then \<lparr>sn_balances_as_of = Some t, sn_confirmed = c, sn_unconfirmed = u\<rparr> else seen_default)
       else load_seen env (Some d) fs r' h')"
proof (intro allI impI)
  fix r' h' assume r': "resource_id_ok r'"
  let ?path = "dir_prefix d @ r @ ''.json''" and ?path' = "dir_prefix d @ r' @ ''.json''"
  let ?tmp = "with_extension ?path (''tmp.'' @ dec pid)"
  let ?file = "seen_file_of h t c u"
  have p: "path_join d (r @ ''.json'') = ?path" "store_path (Some d) r' = Some ?path'" "store_path (Some d) r = Some ?path"
    using assms(2) r' by (simp_all add: store_file store_path_def)
  have apart: "?tmp \<noteq> ?path" "?tmp \<noteq> ?path'"
    using temp_file [OF assms(2), of d "''tmp.'' @ dec pid"] temp_file_apart [of d r pid] by simp_all
  show "load_seen env (Some d) fs' r' h' =
      (if ok \<and> r' = r then
         (if h' = h then \<lparr>sn_balances_as_of = Some t, sn_confirmed = c, sn_unconfirmed = u\<rparr> else seen_default)
       else load_seen env (Some d) fs r' h')"
  proof (cases "ok \<and> r' = r")
    case True
    then obtain bytes where b: "ev_to_pretty env (ser_seen_file ?file) = Some bytes"
      "write_atomic env pid ?path bytes fs = (True, fs')"
      using assms(1) by (auto simp: save_balances_def p(1) split: if_splits option.splits)
    have "fs' ?path = Some bytes" using write_atomic_files [OF b(2) refl apart(1)] by simp
    moreover have "ev_from_str env bytes = Inr (ser_seen_file ?file)" "utf8 bytes" using assms(6) b(1) by blast+
    moreover have "de_seen_file (ser_seen_file ?file) = Inr ?file"
      by (rule de_ser_seen_file) (simp add: seen_file_of_def SCHEMA_def)
    ultimately have "read_seen_file env fs' ?path' h' = (if h' = h then Some ?file else None)"
      using True by (simp add: read_seen_file_def read_to_string_def) (simp add: seen_file_of_def)
    then show ?thesis
      using True decode_seen_file_of [OF assms(3-5)] by (simp add: load_seen_def p(3))
  next
    case False
    have "fs' ?path' = fs ?path'"
    proof (cases "\<exists>bytes. write_atomic env pid ?path bytes fs = (ok, fs')")
      case True
      then obtain bytes where "write_atomic env pid ?path bytes fs = (ok, fs')" by blast
      from write_atomic_files [OF this refl apart(1)] False apart(2) show ?thesis by auto
    next
      case f: False
      then have "fs' = fs"
        using assms(1) by (auto simp: save_balances_def p(1) split: if_splits option.splits)
      then show ?thesis by simp
    qed
    then show ?thesis unfolding if_not_P [OF False] by (rule load_seen_cong [OF p(2)])
  qed
qed

definition cached_at :: rfc3339 where "cached_at = Rfc3339 (format_utc 0)"

definition cache_file :: json where "cache_file = ser_seen_file (seen_file_of ''h'' cached_at (Some 5) None)"

definition cache_env :: "unit btc_env" where
  "cache_env = (sample_provider (\<lambda>_. cache_file))\<lparr>ev_to_pretty := (\<lambda>j. if j = cache_file then Some ''x'' else None)\<rparr>"

theorem save_balances_atomic_witness:
  "\<exists>fs. save_balances cache_env 1 (Some ''d'') ''w'' ''h'' cached_at (Some 5) None (\<lambda>_. None) = (True, fs) \<and>
     load_seen cache_env (Some ''d'') fs ''w'' ''h'' =
       \<lparr>sn_balances_as_of = Some cached_at, sn_confirmed = Some 5, sn_unconfirmed = None\<rparr> \<and>
     load_seen cache_env (Some ''d'') fs ''w'' ''other'' = seen_default"
proof -
  have "\<exists>fs. save_balances cache_env 1 (Some ''d'') ''w'' ''h'' cached_at (Some 5) None (\<lambda>_. None) = (True, fs)"
    by (simp add: save_balances_def cache_env_def sample_provider_def cache_file_def write_atomic_def write_file_def Let_def)
  then obtain fs where s: "save_balances cache_env 1 (Some ''d'') ''w'' ''h'' cached_at (Some 5) None (\<lambda>_. None) = (True, fs)"
    by blast
  have id: "resource_id_ok ''w''" by (simp add: resource_id_ok_def ascii_alphanumeric_def)
  have t: "rfc_ok cached_at" using sample_ctx_ok by (simp add: cached_at_def sample_ctx_def)
  have n: "i128_ok (Some 5)" "i128_ok None" by (simp_all add: i128_ok_def)
  have rw: "\<forall>j b. ev_to_pretty cache_env j = Some b \<longrightarrow> ev_from_str cache_env b = Inr j \<and> utf8 b"
    by (simp add: cache_env_def sample_provider_def) code_simp
  show ?thesis using s save_balances_atomic [OF s id t n rw] id by auto
qed

end
