(* ===== verification/Compare.thy ===== *)
theory Compare
  imports Money_Correct Observation
begin

text \<open>
  The assertion primitives of the conformance suite (\<open>conformance/src/assert.rs\<close>). A
  \<open>serde_json::Value\<close> is a \<^typ>\<open>json\<close> whose objects are the key-sorted lists its \<open>BTreeMap\<close>
  iterates as; a float is the shortest decimal text of its value, so that equal floats are equal
  texts.

  A function that pushes to the \<open>diffs\<close> or \<open>failures\<close> it is handed returns what it pushes, in
  order. A message is not its text but what it is formatted from: the fixed words that tell it
  from the other messages, and the interpolated values (which the code abbreviates by \<open>brief\<close>).
\<close>

section \<open>Failures\<close>

datatype message =
    Message string "json list"
  | Within message message

record failure =
  fl_assertion :: string
  fl_message :: message
  fl_mechanism :: "string option"

definition failure_new :: "string \<Rightarrow> message \<Rightarrow> failure" where
  "failure_new a m = \<lparr>fl_assertion = a, fl_message = m, fl_mechanism = None\<rparr>"

definition failure_violation :: "string \<Rightarrow> message \<Rightarrow> failure" where
  "failure_violation kind m = \<lparr>fl_assertion = ''A11'', fl_message = m, fl_mechanism = Some kind\<rparr>"

section \<open>The subset comparison\<close>

definition parse_amount_json :: "json \<Rightarrow> unit + amount" where
  "parse_amount_json v =
     res_bind (ok_or () (Option.bind (json_get ''asset'' v) json_str)) (\<lambda>a.
     res_bind (ok_or () (Option.bind (json_get ''amount'' v) json_str)) (\<lambda>m.
     res_bind (map_err (\<lambda>_. ()) (asset_new a)) (\<lambda>a.
     map_err (\<lambda>_. ()) (parse a m))))"

definition compare_amount :: "json \<Rightarrow> json \<Rightarrow> string \<Rightarrow> message list" where
  "compare_amount actual expected path =
     (if actual = JNull \<and> expected = JNull then []
      else if actual = JNull then [Message ''got null (unknown)'' [JStr path, expected]]
      else if expected = JNull then [Message ''expected null (unknown)'' [JStr path, actual]]
      else case parse_amount_json actual of
             Inl _ \<Rightarrow> [Message ''could not parse actual amount'' [JStr path, actual]]
           | Inr a \<Rightarrow>
               (case parse_amount_json expected of
                  Inl _ \<Rightarrow> [Message ''could not parse expected amount'' [JStr path, expected]]
                | Inr e \<Rightarrow>
                    (case cmp_same_asset a e of
                       Inr Equal \<Rightarrow> []
                     | Inr _ \<Rightarrow> [Message ''not numerically equal'' [JStr path, actual, expected]]
                     | Inl _ \<Rightarrow> [Message ''different assets'' [JStr path, actual, expected]])))"

text \<open>
  The recursion on \<open>expected\<close>, with the loop over the members of an object and the loop over the
  zipped elements of two arrays.
\<close>

fun json_subset_diff :: "json \<Rightarrow> json \<Rightarrow> string \<Rightarrow> message list"
  and members_diff :: "(string \<times> json) list \<Rightarrow> (string \<times> json) list \<Rightarrow> string \<Rightarrow> message list"
  and items_diff :: "json list \<Rightarrow> json list \<Rightarrow> nat \<Rightarrow> string \<Rightarrow> message list" where
  "json_subset_diff actual (JObj exp_map) path =
     (case actual of
        JObj act_map \<Rightarrow> members_diff act_map exp_map path
      | _ \<Rightarrow> [Message ''expected an object'' [JStr path, actual]])"
| "json_subset_diff actual (JArr exp_arr) path =
     (case actual of
        JArr act_arr \<Rightarrow>
          if length act_arr \<noteq> length exp_arr
          then [Message ''element count'' [JStr path, JInt (int (length exp_arr)), actual]]
          else items_diff act_arr exp_arr 0 path
      | _ \<Rightarrow> [Message ''expected an array'' [JStr path, actual]])"
| "json_subset_diff actual JNull path = (if actual \<noteq> JNull then [Message ''expected'' [JStr path, JNull, actual]] else [])"
| "json_subset_diff actual (JBool b) path = (if actual \<noteq> JBool b then [Message ''expected'' [JStr path, JBool b, actual]] else [])"
| "json_subset_diff actual (JInt n) path = (if actual \<noteq> JInt n then [Message ''expected'' [JStr path, JInt n, actual]] else [])"
| "json_subset_diff actual (JFloat s) path = (if actual \<noteq> JFloat s then [Message ''expected'' [JStr path, JFloat s, actual]] else [])"
| "json_subset_diff actual (JStr s) path = (if actual \<noteq> JStr s then [Message ''expected'' [JStr path, JStr s, actual]] else [])"
| "members_diff act_map [] path = []"
| "members_diff act_map ((k, exp_v) # ms) path =
     (case map_of act_map k of
        None \<Rightarrow> [Message ''missing'' [JStr (path @ ''.'' @ k), exp_v]]
      | Some act_v \<Rightarrow>
          if k = ''amount'' \<or> k = ''fees'' then compare_amount act_v exp_v (path @ ''.'' @ k)
          else json_subset_diff act_v exp_v (path @ ''.'' @ k)) @
     members_diff act_map ms path"
| "items_diff (a # as) (e # es) i path =
     json_subset_diff a e (path @ ''['' @ dec i @ '']'') @ items_diff as es (i + 1) path"
| "items_diff [] es i path = []"
| "items_diff as [] i path = []"

text \<open>Every status covers a requested resource, and every requested resource has one.\<close>

definition status_counts :: "json list \<Rightarrow> (string, nat) hash_map" where
  "status_counts statuses =
     foldl (\<lambda>seen s. case Option.bind (json_get ''resource_id'' s) json_str of
                       Some r \<Rightarrow> AList.update r (case map_of seen r of Some n \<Rightarrow> n + 1 | None \<Rightarrow> 1) seen
                     | None \<Rightarrow> seen) [] statuses"

text \<open>The count is a \<open>u32\<close>; a reply of 2^32 statuses is over the frame cap.\<close>

definition assert_status_coverage :: "string list \<Rightarrow> json list \<Rightarrow> failure list" where
  "assert_status_coverage requested statuses =
     (let seen = status_counts statuses in
      map (\<lambda>s. failure_new ''A7'' (Message ''a statuses entry has no resource_id'' [s]))
        (filter (\<lambda>s. Option.bind (json_get ''resource_id'' s) json_str = None) statuses) @
      concat (map (\<lambda>rid. case map_of seen rid of
                None \<Rightarrow> [failure_new ''A7'' (Message ''missing from statuses'' [JStr rid])]
              | Some n \<Rightarrow> if n = 1 then []
                          else [failure_new ''A7'' (Message ''times in statuses'' [JStr rid, JInt (int n)])])
        requested) @
      map (\<lambda>extra. failure_new ''A7'' (Message ''never requested'' [JStr extra]))
        (filter (\<lambda>k. k \<notin> set requested) (map fst seen)))"

section \<open>Shaping\<close>

definition expect_object :: "json \<Rightarrow> string \<Rightarrow> failure list \<times> (string \<times> json) list option" where
  "expect_object v what =
     (case v of JObj ms \<Rightarrow> ([], Some ms)
      | _ \<Rightarrow> ([failure_new ''setup'' (Message ''must be an object'' [JStr what, v])], None))"

definition expect_array :: "json \<Rightarrow> string \<Rightarrow> failure list \<times> json list option" where
  "expect_array v what =
     (case v of JArr js \<Rightarrow> ([], Some js)
      | _ \<Rightarrow> ([failure_new ''setup'' (Message ''must be an array'' [JStr what, v])], None))"

definition expect_str :: "json \<Rightarrow> string \<Rightarrow> failure list \<times> string option" where
  "expect_str v what =
     (case v of JStr s \<Rightarrow> ([], Some s)
      | _ \<Rightarrow> ([failure_new ''setup'' (Message ''must be a string'' [JStr what, v])], None))"

definition expect_u64 :: "json \<Rightarrow> string \<Rightarrow> failure list \<times> nat option" where
  "expect_u64 v what =
     (case json_u64 v of Some n \<Rightarrow> ([], Some n)
      | None \<Rightarrow> ([failure_new ''setup'' (Message ''must be a non-negative integer'' [JStr what, v])], None))"

text \<open>The members of an object without one key, and an object with one member changed in place.\<close>

fun json_remove :: "string \<Rightarrow> json \<Rightarrow> json" where
  "json_remove k (JObj ms) = JObj (btree_remove k ms)"
| "json_remove k j = j"

fun json_update :: "string \<Rightarrow> (json \<Rightarrow> json) \<Rightarrow> json \<Rightarrow> json" where
  "json_update k f (JObj ms) = JObj (map (\<lambda>(k', v). (k', if k' = k then f v else v)) ms)"
| "json_update k f j = j"

definition stable_view :: "json \<Rightarrow> json" where
  "stable_view j = json_update ''provenance'' (json_remove ''received_at'') j"

definition diff_observation :: "json \<Rightarrow> json \<Rightarrow> string \<Rightarrow> message list" where
  "diff_observation actual expected path =
     (case json_get ''provider_extra'' expected of
        None \<Rightarrow> []
      | Some expected_extra \<Rightarrow>
          (let actual_extra = (case json_get ''provider_extra'' actual of Some v \<Rightarrow> v | None \<Rightarrow> JNull) in
           if actual_extra \<noteq> expected_extra
           then [Message ''provider_extra must be EXACTLY'' [JStr path, expected_extra, actual_extra]]
           else [])) @
     json_subset_diff actual (json_remove ''provider_extra'' expected) path"

definition disagreement :: "json \<Rightarrow> json \<Rightarrow> message" where
  "disagreement actual expected =
     (case (actual, expected) of
        (JArr a, JArr e) \<Rightarrow>
          if length a \<noteq> length e
          then Message ''observation(s) in this execution'' [JInt (int (length a)), JInt (int (length e))]
          else (case position (\<lambda>(x, y). x \<noteq> y) (zip a e) of
                  Some i \<Rightarrow> Message ''observation differs'' [JInt (int i), a ! i, e ! i]
                | None \<Rightarrow> Message ''!='' [actual, expected])
      | _ \<Rightarrow> Message ''!='' [actual, expected])"

definition content_diff :: "(string, json) btree_map \<Rightarrow> (string, json) btree_map \<Rightarrow> message list" where
  "content_diff actual expected =
     concat (map (\<lambda>(key, expected_obs).
        case map_of actual key of
          None \<Rightarrow> [Message ''missing'' [JStr key]]
        | Some actual_obs \<Rightarrow>
            if actual_obs \<noteq> expected_obs
            then [Within (Message ''key'' [JStr key]) (disagreement actual_obs expected_obs)]
            else []) expected) @
     map (\<lambda>key. Message ''unexpected, not in the other execution'' [JStr key])
       (filter (\<lambda>k. map_of expected k = None) (map fst actual))"

section \<open>What a clean comparison means\<close>

text \<open>
  The relation the comparison decides: an object contains what is expected of it, amounts agree
  as amounts, everything else is equal.
\<close>

definition same_amount :: "json \<Rightarrow> json \<Rightarrow> bool" where
  "same_amount a e \<longleftrightarrow> a = JNull \<and> e = JNull \<or>
     a \<noteq> JNull \<and> e \<noteq> JNull \<and>
     (\<exists>x y. parse_amount_json a = Inr x \<and> parse_amount_json e = Inr y \<and>
            asset x = asset y \<and> value_of x = value_of y)"

inductive agrees :: "json \<Rightarrow> json \<Rightarrow> bool" where
  Object: "(\<And>k e. (k, e) \<in> set es \<Longrightarrow> \<exists>a. map_of as k = Some a \<and>
              (if k = ''amount'' \<or> k = ''fees'' then same_amount a e else agrees a e)) \<Longrightarrow>
           agrees (JObj as) (JObj es)"
| Array: "list_all2 agrees as es \<Longrightarrow> agrees (JArr as) (JArr es)"
| Scalar: "(\<And>es. e \<noteq> JObj es) \<Longrightarrow> (\<And>es. e \<noteq> JArr es) \<Longrightarrow> agrees e e"

inductive_simps agrees_object: "agrees a (JObj es)"
inductive_simps agrees_array: "agrees a (JArr es)"
inductive_simps agrees_null: "agrees a JNull"
inductive_simps agrees_bool: "agrees a (JBool b)"
inductive_simps agrees_int: "agrees a (JInt n)"
inductive_simps agrees_float: "agrees a (JFloat s)"
inductive_simps agrees_str: "agrees a (JStr s)"

lemmas agrees_simps = agrees_object agrees_array agrees_null agrees_bool agrees_int agrees_float agrees_str

lemma compare_amount_iff: "compare_amount a e p = [] \<longleftrightarrow> same_amount a e"
proof (cases "a = JNull \<or> e = JNull")
  case True
  then show ?thesis by (auto simp: compare_amount_def same_amount_def)
next
  case False
  show ?thesis
  proof (cases "parse_amount_json a")
    case (Inr x)
    note x = this
    show ?thesis
    proof (cases "parse_amount_json e")
      case (Inr y)
      have "(case cmp_same_asset x y of Inr Equal \<Rightarrow> [] | Inr _ \<Rightarrow> [m] | Inl _ \<Rightarrow> [m']) = ([] :: message list) \<longleftrightarrow>
        amount_eq x y" for m m'
        by (auto simp: amount_eq_def split: sum.split ordering.split)
      with False x Inr show ?thesis by (simp add: compare_amount_def same_amount_def amount_eq_iff)
    qed (use False x in \<open>simp add: compare_amount_def same_amount_def\<close>)
  qed (use False in \<open>simp add: compare_amount_def same_amount_def\<close>)
qed

lemma subset_diff_iff:
  "json_subset_diff a e p = [] \<longleftrightarrow> agrees a e"
  "members_diff as es p = [] \<longleftrightarrow>
     (\<forall>(k, e)\<in>set es. \<exists>a. map_of as k = Some a \<and>
        (if k = ''amount'' \<or> k = ''fees'' then same_amount a e else agrees a e))"
  "length js = length ks \<Longrightarrow> items_diff js ks i p = [] \<longleftrightarrow> list_all2 agrees js ks"
proof (induction a e p and as es p and js ks i p rule: json_subset_diff_members_diff_items_diff.induct)
  case (1 actual exp_map path)
  then show ?case by (cases actual) (force simp: agrees_simps)+
next
  case (2 actual exp_arr path)
  then show ?case by (cases actual) (auto simp: agrees_simps list_all2_lengthD)
qed (auto simp: agrees_simps compare_amount_iff split: option.split)

end
