(* ===== verification/Ledger.thy ===== *)
theory Ledger
  imports Compare
begin

text \<open>
  The evidence ledger of the conformance suite (\<open>conformance/src/ledger.rs\<close>): what one execution
  emitted for each resource, in order, what a fixture declared, and the comparison of the two
  sequences.
\<close>

section \<open>The ledger\<close>

datatype obs_kind = Balances | History

instantiation obs_kind :: linorder
begin

definition less_eq_obs_kind :: "obs_kind \<Rightarrow> obs_kind \<Rightarrow> bool" where
  "less_eq_obs_kind a b \<longleftrightarrow> a = Balances \<or> b = History"

definition less_obs_kind :: "obs_kind \<Rightarrow> obs_kind \<Rightarrow> bool" where
  "less_obs_kind a b \<longleftrightarrow> a = Balances \<and> b = History"

instance
proof
  fix a b c :: obs_kind
  show "a < b \<longleftrightarrow> a \<le> b \<and> \<not> b \<le> a" "a \<le> a" "a \<le> b \<Longrightarrow> b \<le> c \<Longrightarrow> a \<le> c"
    "a \<le> b \<Longrightarrow> b \<le> a \<Longrightarrow> a = b" "a \<le> b \<or> b \<le> a"
    by (cases a; cases b; cases c; simp add: less_eq_obs_kind_def less_obs_kind_def)+
qed

end

fun kind_key :: "obs_kind \<Rightarrow> string" where
  "kind_key Balances = ''balances''"
| "kind_key History = ''history''"

fun kind_assertion :: "obs_kind \<Rightarrow> string" where
  "kind_assertion Balances = ''A1''"
| "kind_assertion History = ''A2''"

record ledger_entry =
  le_local_id :: "string option"
  le_json :: json

type_synonym seq_key = "string \<times> obs_kind"

record ledger =
  lg_seqs :: "(seq_key, ledger_entry list) btree_map"
  lg_frames :: "(seq_key, nat) btree_map"

definition ledger_new :: ledger where
  "ledger_new = \<lparr>lg_seqs = [], lg_frames = []\<rparr>"

definition sequence :: "obs_kind \<Rightarrow> string \<Rightarrow> ledger \<Rightarrow> ledger_entry list" where
  "sequence kind rid lg = (case map_of (lg_seqs lg) (rid, kind) of Some es \<Rightarrow> es | None \<Rightarrow> [])"

definition ledger_push :: "obs_kind \<Rightarrow> string \<Rightarrow> string option \<Rightarrow> json \<Rightarrow> ledger \<Rightarrow> ledger" where
  "ledger_push kind rid lid json lg =
     lg\<lparr>lg_seqs := btree_insert (rid, kind)
          (sequence kind rid lg @ [\<lparr>le_local_id = lid, le_json = json\<rparr>]) (lg_seqs lg)\<rparr>"

definition ledger_frames :: "obs_kind \<Rightarrow> string \<Rightarrow> ledger \<Rightarrow> nat" where
  "ledger_frames kind rid lg = (case map_of (lg_frames lg) (rid, kind) of Some n \<Rightarrow> n | None \<Rightarrow> 0)"

definition count_frame :: "obs_kind \<Rightarrow> string \<Rightarrow> ledger \<Rightarrow> ledger" where
  "count_frame kind rid lg =
     lg\<lparr>lg_frames := btree_insert (rid, kind) (ledger_frames kind rid lg + 1) (lg_frames lg)\<rparr>"

definition ledger_keys :: "ledger \<Rightarrow> seq_key list" where
  "ledger_keys lg = btree_set (map fst (lg_seqs lg))"

definition ledger_local_ids :: "ledger \<Rightarrow> string list" where
  "ledger_local_ids lg = btree_set (List.map_filter le_local_id (concat (map snd (lg_seqs lg))))"

definition history_by_local_id :: "ledger \<Rightarrow> (string, json) btree_map" where
  "history_by_local_id lg =
     map (map_prod id JArr)
       (foldl (\<lambda>out e. case le_local_id e of
                  Some lid \<Rightarrow> btree_insert lid ((case map_of out lid of Some js \<Rightarrow> js | None \<Rightarrow> []) @ [le_json e]) out
                | None \<Rightarrow> out) []
          (concat (map snd (filter (\<lambda>p. snd (fst p) = History) (lg_seqs lg)))))"

section \<open>What a fixture declares\<close>

datatype obliged = CompleteSequence | TruncatedSequence

record declared =
  dc_seqs :: "(seq_key, json list) btree_map"
  dc_omitted :: "string list"

definition declared_new :: declared where
  "declared_new = \<lparr>dc_seqs = [], dc_omitted = []\<rparr>"

text \<open>
  One entry of a sequence: it is kept, or its local id goes to the omitted ones, or it is flagged
  and names none. The entries, the kinds of a resource and the resources are three loops.
\<close>

definition declared_entry :: "string \<Rightarrow> json \<Rightarrow> failure list \<times> json list \<times> string list" where
  "declared_entry what entry =
     (let flag = json_get ''omitted'' entry;
          entry = json_remove ''omitted'' entry in
      if flag = Some (JBool True) then
        (case json_get ''local_id'' entry of
           None \<Rightarrow> ([failure_new ''setup'' (Message ''flagged omitted but names no local_id'' [JStr what])], [], [])
         | Some v \<Rightarrow>
             (case expect_str v (what @ ''[].local_id'') of
                (fs, Some lid) \<Rightarrow> (fs, [], [lid])
              | (fs, None) \<Rightarrow>
                  (fs @ [failure_new ''setup'' (Message ''flagged omitted but names no local_id'' [JStr what])], [], [])))
      else ([], [entry], []))"

definition kind_of_key :: "string \<Rightarrow> obs_kind option" where
  "kind_of_key k = (if k = ''balances'' then Some Balances else if k = ''history'' then Some History else None)"

definition declared_kind :: "string \<Rightarrow> string \<Rightarrow> string \<times> json \<Rightarrow> failure list \<times> declared \<Rightarrow> failure list \<times> declared" where
  "declared_kind what rid kv acc =
     (let (k, entries) = kv; (failures, d) = acc in
      case kind_of_key k of
        None \<Rightarrow> (failures @ [failure_new ''setup'' (Message ''the only two sequences'' [JStr what, JStr k])], d)
      | Some kind \<Rightarrow>
          (case expect_array entries (what @ ''.'' @ k) of
             (fs, None) \<Rightarrow> (failures @ fs, d)
           | (fs, Some entries) \<Rightarrow>
               (let read = map (declared_entry (what @ ''.'' @ k)) entries in
                (failures @ fs @ concat (map fst read),
                 d\<lparr>dc_seqs := btree_insert (rid, kind) (concat (map (fst \<circ> snd) read)) (dc_seqs d),
                   dc_omitted := btree_set (dc_omitted d @ concat (map (snd \<circ> snd) read))\<rparr>))))"

definition declared_resource :: "string \<Rightarrow> string \<times> json \<Rightarrow> failure list \<times> declared \<Rightarrow> failure list \<times> declared" where
  "declared_resource label kv acc =
     (let (rid, kinds) = kv; (failures, d) = acc;
          what = label @ '': expect.ledger.'' @ rid in
      case expect_object kinds what of
        (fs, None) \<Rightarrow> (failures @ fs, d)
      | (fs, Some kinds) \<Rightarrow> fold (declared_kind what rid) kinds (failures @ fs, d))"

definition parse_declared :: "json \<Rightarrow> string \<Rightarrow> failure list \<times> declared" where
  "parse_declared ledger label =
     (case expect_object ledger (label @ '': expect.ledger'') of
        (fs, None) \<Rightarrow> (fs, declared_new)
      | (fs, Some by_resource) \<Rightarrow> fold (declared_resource label) by_resource (fs, declared_new))"

section \<open>The comparison of two sequences\<close>

text \<open>\<open>declared.get(offset + i)\<close> is absent past the end; such an entry is skipped.\<close>

definition align_diffs :: "string \<Rightarrow> json list \<Rightarrow> ledger_entry list \<Rightarrow> nat \<Rightarrow> message list" where
  "align_diffs loc declared emitted offset =
     concat (map (\<lambda>(i, entry). case nth_opt declared (offset + i) of
                    None \<Rightarrow> []
                  | Some expected \<Rightarrow>
                      diff_observation (le_json entry) expected (loc @ ''['' @ dec (offset + i) @ '']''))
              (List.enumerate 0 emitted))"

record sequence_ref =
  sr_label :: string
  sr_resource_id :: string
  sr_kind :: obs_kind

text \<open>\<open>min_by_key\<close> takes the first of several minimal elements, as \<^const>\<open>arg_min_list\<close> does.\<close>

definition compare_sequence ::
  "sequence_ref \<Rightarrow> json list \<Rightarrow> ledger_entry list \<Rightarrow> obliged \<Rightarrow> failure list" where
  "compare_sequence seq declared emitted completeness =
     (let assertion = kind_assertion (sr_kind seq);
          loc = sr_label seq @ '': '' @ sr_resource_id seq @ ''/'' @ kind_key (sr_kind seq) in
      if length declared < length emitted then
        [failure_new assertion (Message ''orphans the fixture never named''
           (JStr loc # map le_json (drop (length declared) emitted)))]
      else if completeness = CompleteSequence \<and> length emitted \<noteq> length declared then
        [failure_new assertion (Message ''the sequence must be EQUAL, not a subset''
           (JStr loc # map le_json emitted))]
      else
        let offsets = (case completeness of
                         CompleteSequence \<Rightarrow> [0]
                       | TruncatedSequence \<Rightarrow> [0..<length declared - length emitted + 1]);
            (offset, diffs) =
              arg_min_list (\<lambda>(_, diffs). length diffs)
                (map (\<lambda>offset. (offset, align_diffs loc declared emitted offset)) offsets)
        in map (\<lambda>diff. failure_new assertion
                  (if completeness = TruncatedSequence
                   then Within (Message ''best-matching contiguous slice'' [JInt (int offset)]) diff
                   else diff)) diffs)"

section \<open>What a clean comparison means\<close>

text \<open>An emitted observation satisfies a declared one; a window of the declared sequence.\<close>

definition satisfies :: "json \<Rightarrow> json \<Rightarrow> bool" where
  "satisfies actual expected \<longleftrightarrow>
     (\<forall>x. json_get ''provider_extra'' expected = Some x \<longrightarrow>
        (case json_get ''provider_extra'' actual of Some v \<Rightarrow> v | None \<Rightarrow> JNull) = x) \<and>
     agrees actual (json_remove ''provider_extra'' expected)"

definition fits_at :: "json list \<Rightarrow> ledger_entry list \<Rightarrow> nat \<Rightarrow> bool" where
  "fits_at declared emitted offset \<longleftrightarrow>
     offset + length emitted \<le> length declared \<and>
     list_all2 satisfies (map le_json emitted) (take (length emitted) (drop offset declared))"

fun sequence_spec :: "obliged \<Rightarrow> json list \<Rightarrow> ledger_entry list \<Rightarrow> bool" where
  "sequence_spec CompleteSequence declared emitted \<longleftrightarrow> list_all2 satisfies (map le_json emitted) declared"
| "sequence_spec TruncatedSequence declared emitted \<longleftrightarrow> (\<exists>offset. fits_at declared emitted offset)"

lemma diff_observation_iff: "diff_observation a e p = [] \<longleftrightarrow> satisfies a e"
  by (auto simp: diff_observation_def satisfies_def subset_diff_iff Let_def split: option.split)

lemma ball_enumerate: "(\<forall>p\<in>set (List.enumerate 0 xs). P p) \<longleftrightarrow> (\<forall>i<length xs. P (i, xs ! i))"
  by (force simp: in_set_enumerate_eq)

lemma align_diffs_iff:
  assumes "offset + length emitted \<le> length declared"
  shows "align_diffs w declared emitted offset = [] \<longleftrightarrow> fits_at declared emitted offset"
proof -
  have inside: "nth_opt declared (offset + i) = Some (declared ! (offset + i))" if "i < length emitted" for i
    using that assms by (simp add: nth_opt_def)
  have "align_diffs w declared emitted offset = [] \<longleftrightarrow>
    (\<forall>i<length emitted. satisfies (le_json (emitted ! i)) (declared ! (offset + i)))"
    by (simp add: align_diffs_def ball_enumerate diff_observation_iff inside)
  then show ?thesis
    using assms by (auto simp: fits_at_def list_all2_conv_all_nth)
qed

lemma arg_min_list_zero:
  fixes f :: "'a \<Rightarrow> nat"
  assumes "xs \<noteq> []"
  shows "f (arg_min_list f xs) = 0 \<longleftrightarrow> (\<exists>x\<in>set xs. f x = 0)"
  using assms f_arg_min_list_f [OF assms, of f] arg_min_list_in [OF assms, of f]
  by (metis Min_le finite_set finite_imageI image_eqI le_zero_eq)

lemma compare_sequence_iff: "compare_sequence seq declared emitted c = [] \<longleftrightarrow> sequence_spec c declared emitted"
proof (cases "length declared < length emitted \<or> c = CompleteSequence \<and> length emitted \<noteq> length declared")
  case True
  then have "\<not> sequence_spec c declared emitted"
    by (cases c) (auto simp: fits_at_def dest: list_all2_lengthD)
  with True show ?thesis by (auto simp: compare_sequence_def Let_def)
next
  case False
  define w where "w = sr_label seq @ '': '' @ sr_resource_id seq @ ''/'' @ kind_key (sr_kind seq)"
  define offsets where "offsets = (case c of CompleteSequence \<Rightarrow> [0]
                       | TruncatedSequence \<Rightarrow> [0..<length declared - length emitted + 1])"
  define tried where "tried = map (\<lambda>offset. (offset, align_diffs w declared emitted offset)) offsets"
  have ne: "tried \<noteq> []" by (simp add: tried_def offsets_def split: obliged.split)
  have "compare_sequence seq declared emitted c = [] \<longleftrightarrow> snd (arg_min_list (\<lambda>(_, diffs). length diffs) tried) = []"
    using False by (auto simp: compare_sequence_def Let_def w_def tried_def offsets_def split: prod.split)
  also have "\<dots> \<longleftrightarrow> (\<exists>offset\<in>set offsets. align_diffs w declared emitted offset = [])"
    using arg_min_list_zero [OF ne, of "\<lambda>(_, diffs). length diffs"]
    by (simp add: tried_def case_prod_beta)
  also have "\<dots> \<longleftrightarrow> (\<exists>offset\<in>set offsets. fits_at declared emitted offset)"
  proof -
    have "offset + length emitted \<le> length declared" if "offset \<in> set offsets" for offset
      using that False by (auto simp: offsets_def split: obliged.splits)
    then show ?thesis by (meson align_diffs_iff)
  qed
  also have "\<dots> \<longleftrightarrow> sequence_spec c declared emitted"
  proof (cases c)
    case CompleteSequence
    with False show ?thesis by (simp add: offsets_def fits_at_def)
  next
    case TruncatedSequence
    have "offset \<in> set [0..<length declared - length emitted + 1]" if "fits_at declared emitted offset" for offset
      using that by (auto simp: fits_at_def)
    with TruncatedSequence show ?thesis unfolding offsets_def by (auto simp del: set_upt upt_Suc)
  qed
  finally show ?thesis .
qed

end
