(* ===== verification/Handle.thy ===== *)
theory Handle
  imports Host
begin

text \<open>
  The adapter handle as its clients hold it (\<open>core/host/src/lib.rs\<close>, with \<open>Mux::call\<close> and the
  transcript of \<open>core/host/src/mux.rs\<close>): starting an adapter, the calls, the recording, the
  close. The connection below the queue is a parameter: \<open>ce_send\<close> queues one request and returns
  what the waiting task was given, \<open>ce_join\<close> is what two calls awaited together are given,
  \<open>ce_terminal\<close> reads the terminal reason, \<open>ce_close\<close> is what
  \<open>close\<close> finds once the stream has ended or the deadline has passed. \<open>Mux\<close> models what
  happens behind them.
\<close>

section \<open>The transcript\<close>

record exchange =
  ex_op :: string
  ex_params :: json
  ex_frame :: "string option"
  ex_received_at :: "rfc3339 option"

definition transcript_push :: "string \<Rightarrow> json \<Rightarrow> exchange list \<Rightarrow> nat \<times> exchange list" where
  "transcript_push op params t =
     (length t, t @ [\<lparr>ex_op = op, ex_params = params, ex_frame = None, ex_received_at = None\<rparr>])"

definition transcript_fill :: "nat \<Rightarrow> string \<Rightarrow> rfc3339 \<Rightarrow> exchange list \<Rightarrow> exchange list" where
  "transcript_fill i frame received_at t =
     (if i < length t then t[i := (t ! i)\<lparr>ex_frame := Some frame, ex_received_at := Some received_at\<rparr>] else t)"

section \<open>A call\<close>

record 's conn_env =
  ce_spawn :: "string list \<Rightarrow> (string \<times> string) list \<Rightarrow> nat \<Rightarrow> string + 's"
  ce_send :: "string \<Rightarrow> json \<Rightarrow> 's \<Rightarrow> (host_error + string \<times> rfc3339) \<times> 's"
  ce_join :: "string \<times> json \<Rightarrow> string \<times> json \<Rightarrow> 's \<Rightarrow>
     ((host_error + string \<times> rfc3339) \<times> (host_error + string \<times> rfc3339)) \<times> 's"
  ce_terminal :: "'s \<Rightarrow> terminal option"
  ce_raise :: "nat \<Rightarrow> 's \<Rightarrow> 's"
  ce_close :: "'s \<Rightarrow> terminal option"
  ce_from_str :: "string \<Rightarrow> json option"
  ce_err_text :: "string \<Rightarrow> string"
  ce_to_vec :: "json \<Rightarrow> nat option"

text \<open>A connection and its transcript, if it has one.\<close>

type_synonym 's recorded = "'s \<times> exchange list option"

definition mux_call :: "'s conn_env \<Rightarrow> string \<Rightarrow> json \<Rightarrow> 's recorded \<Rightarrow> (host_error + string \<times> rfc3339) \<times> 's recorded" where
  "mux_call env op params ct =
     (let (c, t) = ct in
      case ce_terminal env c of
        Some reason \<Rightarrow> (Inl (host_error_of reason), (c, t))
      | None \<Rightarrow>
          (let recorded = map_option (transcript_push op params) t;
               (result, c) = ce_send env op params c
           in (result, c,
               case recorded of None \<Rightarrow> None
               | Some (i, t) \<Rightarrow>
                   Some (case result of Inr (frame, received_at) \<Rightarrow> transcript_fill i frame received_at t
                         | Inl _ \<Rightarrow> t))))"

section \<open>Starting and ending\<close>

record 's adapter_handle =
  hd_conn :: "'s recorded"
  hd_hello :: hello_reply

text \<open>
  \<open>spawn_impl\<close>. After a failed handshake the connection is dropped with a kill sent, and nobody
  holds it any more.
\<close>

definition spawn_impl ::
  "'s conn_env \<Rightarrow> string list \<Rightarrow> (string \<times> string) list \<Rightarrow> nat \<Rightarrow> bool \<Rightarrow> host_error + 's adapter_handle" where
  "spawn_impl env argv extra_env deadline recorded =
     (case ce_spawn env argv extra_env deadline of
        Inl e \<Rightarrow> Inl (Spawn e)
      | Inr c \<Rightarrow>
          (let (result, c, t) =
                 mux_call env OP_HELLO (json_value (ser_hello_params OFFERED_PROTOCOLS))
                   (c, if recorded then Some [] else None)
           in case fst (handshake (ce_from_str env) (ce_err_text env) result) of
                Inl e \<Rightarrow> Inl e
              | Inr (hello, permits) \<Rightarrow> Inr \<lparr>hd_conn = (ce_raise env permits c, t), hd_hello = hello\<rparr>))"

definition handle_transcript :: "'s adapter_handle \<Rightarrow> exchange list" where
  "handle_transcript h = (case snd (hd_conn h) of Some t \<Rightarrow> t | None \<Rightarrow> [])"

definition handle_close :: "'s conn_env \<Rightarrow> 's adapter_handle \<Rightarrow> terminal option" where
  "handle_close env h = ce_close env (fst (hd_conn h))"

section \<open>The typed calls\<close>

text \<open>Every call goes through the mux, and what it returns is decoded from the frame.\<close>

definition handle_call ::
  "'s conn_env \<Rightarrow> string \<Rightarrow> json \<Rightarrow> (host_error + string \<times> rfc3339 \<Rightarrow> host_error + 'r) \<Rightarrow> 's adapter_handle \<Rightarrow>
   (host_error + 'r) \<times> 's adapter_handle" where
  "handle_call env op params decode h =
     (let (result, ct) = mux_call env op (json_value params) (hd_conn h)
      in (decode result, h\<lparr>hd_conn := ct\<rparr>))"

definition handle_resources_list ::
  "'s conn_env \<Rightarrow> 's adapter_handle \<Rightarrow> (host_error + resource_descriptor list) \<times> 's adapter_handle" where
  "handle_resources_list env =
     handle_call env OP_RESOURCES_LIST (JObj [])
       (\<lambda>r. map_sum id fst
          (call_typed_with_receipt (ce_from_str env) (ce_err_text env) de_resources_list_reply OP_RESOURCES_LIST r))"

definition handle_status_read ::
  "'s conn_env \<Rightarrow> string list \<Rightarrow> 's adapter_handle \<Rightarrow> (host_error + resource_status list) \<times> 's adapter_handle" where
  "handle_status_read env ids =
     handle_call env OP_STATUS_READ (ser_status_read_params ids)
       (status_read (ce_from_str env) (ce_err_text env) ids)"

definition handle_balances_read ::
  "'s conn_env \<Rightarrow> string list \<Rightarrow> 's adapter_handle \<Rightarrow> (host_error + host_balances) \<times> 's adapter_handle" where
  "handle_balances_read env ids h =
     handle_call env OP_BALANCES_READ (ser_balances_read_params ids)
       (balances_read (ce_from_str env) (ce_err_text env) (ce_to_vec env) (hr_adapter_id (hd_hello h)) ids) h"

definition handle_history_read ::
  "'s conn_env \<Rightarrow> resource_query list \<Rightarrow> 's adapter_handle \<Rightarrow> (host_error + host_history) \<times> 's adapter_handle" where
  "handle_history_read env queries h =
     handle_call env OP_HISTORY_READ (ser_history_read_params queries)
       (history_read (ce_from_str env) (ce_err_text env) (ce_to_vec env) (hr_adapter_id (hd_hello h)) queries) h"

text \<open>\<open>call_raw\<close>: the envelope as it is, an \<open>err\<close> included.\<close>

definition handle_call_raw ::
  "'s conn_env \<Rightarrow> string \<Rightarrow> json \<Rightarrow> 's adapter_handle \<Rightarrow> (host_error + json reply) \<times> 's adapter_handle" where
  "handle_call_raw env op params =
     handle_call env op params
       (\<lambda>r. res_bind r (\<lambda>(frame, _).
          case Option.bind (ce_from_str env frame) (\<lambda>j. res_ok (de_reply de_value j)) of
            None \<Rightarrow> Inl (malformed op (ce_err_text env frame))
          | Some reply \<Rightarrow> Inr reply))"

section \<open>What is recorded\<close>

text \<open>
  A transcript only grows, by one exchange for every request that was dispatched, and records
  the very frame the caller's reply was decoded from.
\<close>

lemma mux_call_transcript:
  "mux_call env op params (c, Some t) = (result, c', t') \<Longrightarrow>
   \<exists>es. t' = Some (t @ es) \<and>
     (es = [] \<and> (\<exists>e. result = Inl e) \<or>
      es = [\<lparr>ex_op = op, ex_params = params, ex_frame = res_ok (map_sum id fst result),
             ex_received_at = res_ok (map_sum id snd result)\<rparr>])"
  by (auto simp: mux_call_def transcript_push_def transcript_fill_def list_update_append
      split: option.splits prod.splits sum.splits)

lemma handle_call_transcript:
  assumes "handle_call env op params decode h = (r, h')" and "snd (hd_conn h) = Some t"
  obtains result es where "r = decode result" "hd_hello h' = hd_hello h" "snd (hd_conn h') = Some (t @ es)"
    "es = [] \<and> (\<exists>e. result = Inl e) \<or>
     es = [\<lparr>ex_op = op, ex_params = json_value params, ex_frame = res_ok (map_sum id fst result),
            ex_received_at = res_ok (map_sum id snd result)\<rparr>]"
proof -
  obtain c where "hd_conn h = (c, Some t)" using assms(2) by (cases "hd_conn h") simp
  moreover obtain result c' t' where "mux_call env op (json_value params) (hd_conn h) = (result, c', t')"
    using prod_cases3 by blast
  ultimately show thesis
    using mux_call_transcript [of env op "json_value params" c t result c' t'] assms that [of result]
    by (auto simp: handle_call_def)
qed

end
