(* ===== verification/Judge.thy ===== *)
theory Judge
  imports Ledger Handle Revisions
begin

text \<open>
  The judgement of one adapter execution (\<open>conformance/src/exec.rs\<close>): the raw observations of its
  transcript are measured, its ledger is held to the declared sequences, its live set to the
  declared one, and its replies to the other \<open>expect\<close> keys of the fixture. As in \<open>Compare\<close>, a
  function returns the failures it pushes.
\<close>

section \<open>The host's observations as JSON\<close>

text \<open>\<open>#[derive(Serialize)]\<close> on the stamped types: an absent option is an explicit null.\<close>

definition ser_provenance :: "provenance \<Rightarrow> json" where
  "ser_provenance p =
     JObj [(''adapter_id'', JStr (pv_adapter_id p)), (''provider_id'', JStr (pv_provider_id p)),
           (''surface'', JStr (pv_surface p)), (''observed_at'', ser_rfc3339 (pv_observed_at p)),
           (''received_at'', ser_rfc3339 (pv_received_at p)),
           (''effective_at'', json_opt ser_rfc3339 (pv_effective_at p)),
           (''staleness'', ser_enum staleness_names (pv_staleness p)),
           (''completeness'', ser_enum completeness_names (pv_completeness p))]"

definition ser_balance :: "balance \<Rightarrow> json" where
  "ser_balance b =
     JObj [(''resource_id'', JStr (bl_resource_id b)), (''category'', JStr (bl_category b)),
           (''canonical_hint'', json_opt (ser_enum canonical_hint_names) (bl_canonical_hint b)),
           (''amount'', json_opt ser_amount (bl_amount b)),
           (''provenance'', ser_provenance (bl_provenance b))]"

definition ser_observation :: "observation \<Rightarrow> json" where
  "ser_observation ob =
     JObj [(''resource_id'', JStr (ob_resource_id ob)), (''local_id'', JStr (ob_local_id ob)),
           (''provider_id'', json_opt JStr (ob_provider_id ob)),
           (''supersedes_provider_id'', json_opt JStr (ob_supersedes_provider_id ob)),
           (''state'', ser_enum state_names (ob_state ob)),
           (''tombstone_reason'', json_opt JStr (ob_tombstone_reason ob)),
           (''surface'', JStr (ob_surface ob)), (''posting'', ser_enum posting_names (ob_posting ob)),
           (''amount'', ser_amount (ob_amount ob)), (''fees'', json_opt ser_amount (ob_fees ob)),
           (''raw_sign'', ser_enum raw_sign_names (ob_raw_sign ob)),
           (''description'', JStr (ob_description ob)),
           (''provider_extra'', JObj (ob_provider_extra ob)),
           (''provenance'', ser_provenance (ob_provenance ob))]"

text \<open>\<open>to_value\<close>: the same value with its members sorted.\<close>

definition to_json :: "('a \<Rightarrow> json) \<Rightarrow> 'a \<Rightarrow> json" where
  "to_json ser x = json_value (ser x)"

text \<open>\<open>Value::pointer\<close> along keys none of which is an array index.\<close>

fun json_pointer :: "string list \<Rightarrow> json \<Rightarrow> json option" where
  "json_pointer [] j = Some j"
| "json_pointer (k # ks) j = Option.bind (json_get k j) (json_pointer ks)"

section \<open>An execution\<close>

record execution =
  xe_label :: string
  xe_fold :: fold_state
  xe_ledger :: ledger
  xe_transcript :: "exchange list"
  xe_request_shapes :: "json list"
  xe_resource_ids :: "string list"
  xe_crashed :: bool

definition execution_new :: "string \<Rightarrow> execution" where
  "execution_new label =
     \<lparr>xe_label = label, xe_fold = fold_new, xe_ledger = ledger_new, xe_transcript = [],
      xe_request_shapes = [], xe_resource_ids = [], xe_crashed = False\<rparr>"

definition live_content :: "fold_state \<Rightarrow> (string, json) btree_map" where
  "live_content f =
     btree_of (map (\<lambda>((_, lid), r). (lid, stable_view (to_json ser_observation (rv_observation r)))) (live_set f))"

definition emitted_history_ids :: "string \<Rightarrow> execution \<Rightarrow> string list" where
  "emitted_history_ids rid x = List.map_filter le_local_id (sequence History rid (xe_ledger x))"

definition history_frames :: "string \<Rightarrow> execution \<Rightarrow> nat" where
  "history_frames rid x = ledger_frames History rid (xe_ledger x)"

section \<open>The raw observations and their size\<close>

text \<open>One exchange: its failures, and the observations of its frame with what they are called.\<close>

definition raw_name :: "string \<Rightarrow> string \<Rightarrow> nat \<Rightarrow> json \<Rightarrow> message" where
  "raw_name label op j raw =
     (case Option.bind (json_get ''local_id'' raw) json_str of
        Some l \<Rightarrow> Message ''observation'' [JStr label, JStr op, JStr l]
      | None \<Rightarrow> Message ''observation'' [JStr label, JStr op, JInt (int j)])"

definition raw_of_exchange ::
  "(string \<Rightarrow> json option) \<Rightarrow> string \<Rightarrow> nat \<times> exchange \<Rightarrow> failure list \<times> (message \<times> json) list" where
  "raw_of_exchange from_str label ie =
     (let (i, ex) = ie in
      if ex_op ex \<noteq> OP_BALANCES_READ \<and> ex_op ex \<noteq> OP_HISTORY_READ then ([], [])
      else case ex_frame ex of
             None \<Rightarrow> ([], [])
           | Some frame \<Rightarrow>
               (case map_option json_value (from_str frame) of
                  None \<Rightarrow> ([failure_new ''A11'' (Message ''is not JSON'' [JStr label, JInt (int i), JStr (ex_op ex)])], [])
                | Some reply \<Rightarrow>
                    (case json_get ''ok'' reply of
                       None \<Rightarrow> ([], [])
                     | Some ok \<Rightarrow>
                         (case json_get ''observations'' ok of
                            Some (JArr items) \<Rightarrow>
                              ([], map (\<lambda>(j, raw). (raw_name label (ex_op ex) j raw, raw)) (List.enumerate 0 items))
                          | other \<Rightarrow>
                              ([failure_new ''A2'' (Message ''has no observations array''
                                  (JStr label # JStr (ex_op ex) # (case other of None \<Rightarrow> [] | Some v \<Rightarrow> [v])))], [])))))"

definition raw_observations :: "(string \<Rightarrow> json option) \<Rightarrow> execution \<Rightarrow> failure list \<times> (message \<times> json) list" where
  "raw_observations from_str x =
     (let read = map (raw_of_exchange from_str (xe_label x)) (List.enumerate 0 (xe_transcript x))
      in (concat (map fst read), concat (map snd read)))"

definition assert_wire_size :: "(json \<Rightarrow> nat option) \<Rightarrow> message \<times> json \<Rightarrow> failure list" where
  "assert_wire_size to_vec wr =
     (let (what, raw) = wr in
      case to_vec raw of
        None \<Rightarrow> [failure_new ''A10'' (Within what (Message ''could not re-serialize'' []))]
      | Some bytes \<Rightarrow>
          if MAX_OBSERVATION_BYTES < bytes
          then [failure_new ''A10'' (Within what (Message ''over MAX_OBSERVATION_BYTES'' [JInt (int bytes)]))]
          else [])"

section \<open>The live set\<close>

definition declared_ids :: "string \<Rightarrow> json list \<Rightarrow> failure list \<times> string list" where
  "declared_ids what ids =
     (let read = map (\<lambda>v. expect_str v what) ids
      in (concat (map fst read), btree_set (List.map_filter snd read)))"

definition live_ids :: "fold_state \<Rightarrow> string \<Rightarrow> string list" where
  "live_ids f rid =
     btree_set (map (\<lambda>r. ob_local_id (rv_observation r))
       (filter (\<lambda>r. ob_resource_id (rv_observation r) = rid) (map snd (live_set f))))"

definition assert_live_resource ::
  "string \<Rightarrow> fold_state \<Rightarrow> obliged \<Rightarrow> string \<times> json \<Rightarrow> failure list \<times> string list" where
  "assert_live_resource label f completeness kv =
     (let (rid, ids) = kv; what = label @ '': expect.live.'' @ rid in
      case expect_array ids what of
        (fs, None) \<Rightarrow> (fs, [])
      | (fs, Some ids) \<Rightarrow>
          (let (gs, declared) = declared_ids (what @ ''[]'') ids; emitted = live_ids f rid in
           (fs @ gs @
            (if declared \<noteq> [] \<and> emitted = []
             then [failure_new ''A6'' (Message ''report success with nothing behind it'' [JStr label, JStr rid])]
             else map (\<lambda>extra. failure_new ''A2'' (Message ''live but not declared'' [JStr label, JStr rid, JStr extra]))
                    (filter (\<lambda>l. l \<notin> set declared) emitted) @
                  (if completeness = CompleteSequence
                   then map (\<lambda>missing. failure_new ''A2'' (Message ''declared live, but the fold does not''
                                 [JStr label, JStr rid, JStr missing]))
                          (filter (\<lambda>l. l \<notin> set emitted) declared)
                   else [])),
            declared)))"

definition assert_live :: "string \<Rightarrow> json \<Rightarrow> fold_state \<Rightarrow> obliged \<Rightarrow> failure list" where
  "assert_live label expect f completeness =
     (case json_get ''live'' expect of
        None \<Rightarrow> [failure_new ''setup'' (Message ''declares no expect.live'' [JStr label])]
      | Some live \<Rightarrow>
          (case expect_object live (label @ '': expect.live'') of
             (fs, None) \<Rightarrow> fs
           | (fs, Some by_resource) \<Rightarrow>
               (let read = map (assert_live_resource label f completeness) by_resource;
                    declared_everywhere = concat (map snd read) in
                fs @ concat (map fst read) @
                map (\<lambda>lid. failure_new ''A2'' (Message ''declares it under no resource'' [JStr label, JStr lid]))
                  (filter (\<lambda>lid. lid \<notin> set declared_everywhere) (map (\<lambda>((_, lid), _). lid) (live_set f))))))"

section \<open>The judgement\<close>

text \<open>
  The sequences are compared over the union of the declared and the emitted keys; a balance
  sequence is always owed whole.
\<close>

definition judge_sequence :: "execution \<Rightarrow> declared \<Rightarrow> obliged \<Rightarrow> seq_key \<Rightarrow> failure list" where
  "judge_sequence x d history_completeness rk =
     (let (rid, kind) = rk in
      compare_sequence \<lparr>sr_label = xe_label x, sr_resource_id = rid, sr_kind = kind\<rparr>
        (case map_of (dc_seqs d) (rid, kind) of Some js \<Rightarrow> js | None \<Rightarrow> [])
        (sequence kind rid (xe_ledger x))
        (case kind of Balances \<Rightarrow> CompleteSequence | History \<Rightarrow> history_completeness))"

definition assert_execution ::
  "(string \<Rightarrow> json option) \<Rightarrow> (json \<Rightarrow> nat option) \<Rightarrow> execution \<Rightarrow> json \<Rightarrow> obliged \<Rightarrow> fold_state \<Rightarrow> failure list" where
  "assert_execution from_str to_vec x expect history_completeness live_fold =
     (let (raw_failures, raws) = raw_observations from_str x;
          sizes = concat (map (assert_wire_size to_vec) raws) in
      raw_failures @ sizes @
      (case json_get ''ledger'' expect of
         None \<Rightarrow> [failure_new ''setup'' (Message ''declares no expect.ledger'' [JStr (xe_label x)])]
       | Some ledger \<Rightarrow>
           (let (fs, d) = parse_declared ledger (xe_label x) in
            fs @
            concat (map (judge_sequence x d history_completeness)
              (btree_set (map fst (dc_seqs d) @ ledger_keys (xe_ledger x)))) @
            map (\<lambda>lid. failure_new ''A10'' (Message ''declared fully OMITTED'' [JStr (xe_label x), JStr lid]))
              (filter (\<lambda>lid. lid \<in> set (ledger_local_ids (xe_ledger x))) (dc_omitted d)) @
            assert_live (xe_label x) expect live_fold history_completeness)))"

definition CURSOR_PLACEHOLDER :: string where "CURSOR_PLACEHOLDER = ''<cursor>''"

definition request_shape :: "exchange \<Rightarrow> json" where
  "request_shape ex =
     JObj [(''op'', JStr (ex_op ex)),
           (''params'',
            json_update ''resources''
              (\<lambda>rs. case rs of
                 JArr rs \<Rightarrow> JArr (map (json_update ''page'' (json_update ''cursor'' (\<lambda>_. JStr CURSOR_PLACEHOLDER))) rs)
               | _ \<Rightarrow> rs) (ex_params ex))]"

end
