(* ===== verification/Expect.thy ===== *)
theory Expect
  imports Judge
begin

text \<open>
  The other \<open>expect\<close> keys of a fixture, judged inside the crawl that produced the replies
  (\<open>conformance/src/exec.rs\<close>): resources, grammar, provenance, statuses and the FDX field map.
\<close>

section \<open>Resources\<close>

definition find_resource :: "string \<Rightarrow> json list \<Rightarrow> json option" where
  "find_resource rid = List.find (\<lambda>a. Option.bind (json_get ''resource_id'' a) json_str = Some rid)"

definition assert_resource :: "string \<Rightarrow> json list \<Rightarrow> json \<Rightarrow> failure list" where
  "assert_resource label actual expected =
     (case json_get ''resource_id'' expected of
        None \<Rightarrow> []
      | Some v \<Rightarrow>
          (case expect_str v ''expect.resources[].resource_id'' of
             (fs, None) \<Rightarrow> fs
           | (fs, Some rid) \<Rightarrow> fs @
               (case find_resource rid actual of
                  None \<Rightarrow> [failure_new ''setup'' (Message ''did not return resource_id'' [JStr label, JStr rid])]
                | Some a \<Rightarrow>
                    map (failure_new ''setup'')
                      (json_subset_diff a expected (label @ '': resources['' @ rid @ '']'')))))"

definition assert_resources :: "string \<Rightarrow> json list \<Rightarrow> json \<Rightarrow> failure list" where
  "assert_resources label actual expected =
     (case expect_array expected (label @ '': expect.resources'') of
        (fs, None) \<Rightarrow> fs
      | (fs, Some expected_list) \<Rightarrow>
          fs @
          (if length actual \<noteq> length expected_list
           then [failure_new ''A1'' (Message ''resource(s), expected''
                   [JStr label, JInt (int (length actual)), JInt (int (length expected_list))])]
           else []) @
          concat (map (assert_resource label actual) expected_list))"

section \<open>Grammar and provenance of balances\<close>

definition grammar_key :: "string \<Rightarrow> (string \<times> bool) option" where
  "grammar_key key =
     (case strip_suffix ''_digit_count'' key of
        Some c \<Rightarrow> Some (c, False)
      | None \<Rightarrow> map_option (\<lambda>c. (c, True)) (strip_suffix ''_scale'' key))"

definition assert_grammar_entry :: "string \<Rightarrow> balance list \<Rightarrow> string \<times> json \<Rightarrow> failure list" where
  "assert_grammar_entry label actual kv =
     (let (key, expected_val) = kv in
      if key = ''note'' then []
      else case grammar_key key of
             None \<Rightarrow> [failure_new ''setup'' (Message ''so nothing reads it'' [JStr label, JStr key])]
           | Some (category, is_scale) \<Rightarrow>
               (case List.find (\<lambda>b. bl_category b = category) actual of
                  None \<Rightarrow> [failure_new ''A1'' (Message ''which no balance reported'' [JStr label, JStr category])]
                | Some b \<Rightarrow>
                    (case bl_amount b of
                       None \<Rightarrow> [failure_new ''A1'' (Message ''there are no digits to count'' [JStr label, JStr category])]
                     | Some amount \<Rightarrow>
                         (case expect_u64 expected_val key of
                            (fs, None) \<Rightarrow> fs
                          | (fs, Some expected) \<Rightarrow> fs @
                              (if is_scale then
                                 (if scale amount \<noteq> expected
                                  then [failure_new ''A1'' (Message ''scale''
                                          [JStr label, JStr category, JInt (int (scale amount)), JInt (int expected)])]
                                  else [])
                               else
                                 let actual_digits = length (filter is_digit (display amount)) in
                                 if actual_digits \<noteq> expected
                                 then [failure_new ''A1'' (Message ''significant digits''
                                         [JStr label, JStr category, JInt (int actual_digits), JInt (int expected)])]
                                 else [])))))"

definition assert_grammar_check :: "string \<Rightarrow> balance list \<Rightarrow> json \<Rightarrow> failure list" where
  "assert_grammar_check label actual grammar =
     (case expect_object grammar (label @ '': expect.grammar_check'') of
        (fs, None) \<Rightarrow> fs
      | (fs, Some ms) \<Rightarrow> fs @ concat (map (assert_grammar_entry label actual) ms))"

definition assert_provenance :: "string \<Rightarrow> balance list \<Rightarrow> json \<Rightarrow> failure list" where
  "assert_provenance label actual expected =
     (case expect_object expected (label @ '': expect.provenance'') of
        (fs, None) \<Rightarrow> fs
      | (fs, Some ms) \<Rightarrow> fs @
          concat (map (\<lambda>(rid, expected_prov).
            case List.find (\<lambda>b. bl_resource_id b = rid) actual of
              None \<Rightarrow> [failure_new ''A3'' (Message ''which returned no balance'' [JStr label, JStr rid])]
            | Some b \<Rightarrow>
                map (failure_new ''A3'')
                  (json_subset_diff (to_json ser_provenance (bl_provenance b)) expected_prov
                     (label @ '': provenance.'' @ rid))) ms))"

section \<open>Statuses\<close>

text \<open>A null of the expected entry means absent or null; the others are compared as a subset.\<close>

definition status_entry_diffs :: "json \<Rightarrow> json \<Rightarrow> message list" where
  "status_entry_diffs actual expected =
     (let unknown = (case expected of JObj ms \<Rightarrow> map fst (filter (\<lambda>(_, v). v = JNull) ms) | _ \<Rightarrow> []) in
      concat (map (\<lambda>key. case json_get key actual of
                None \<Rightarrow> []
              | Some claimed \<Rightarrow>
                  if claimed = JNull then []
                  else [Message ''must be absent (unknown)'' [JStr key, claimed]]) unknown) @
      json_subset_diff actual (foldl (\<lambda>j key. json_remove key j) expected unknown) ''status'')"

definition assert_expected_statuses ::
  "string \<Rightarrow> (string, json list) hash_map \<Rightarrow> json \<Rightarrow> string \<Rightarrow> failure list" where
  "assert_expected_statuses label by_resource expected what =
     (case expect_object expected (label @ '': '' @ what) of
        (fs, None) \<Rightarrow> fs
      | (fs, Some ms) \<Rightarrow> fs @
          concat (map (\<lambda>(rid, expected_entry).
            let candidates = (case map_of by_resource rid of Some js \<Rightarrow> js | None \<Rightarrow> []) in
            if candidates = []
            then [failure_new ''A7'' (Message ''no status entry for it was ever observed'' [JStr label, JStr rid, JStr what])]
            else map (\<lambda>diff. failure_new ''A7'' (Within (Message ''resource'' [JStr label, JStr rid, JStr what]) diff))
                   (arg_min_list length (map (\<lambda>status. status_entry_diffs status expected_entry) candidates))) ms))"

section \<open>The FDX field map\<close>

text \<open>The loop of \<open>provider_extra_targets\<close>: each pass cuts off at least the needle.\<close>

definition NEEDLE :: string where "NEEDLE = ''provider_extra.''"

definition is_target_char :: "char \<Rightarrow> bool" where
  "is_target_char c \<longleftrightarrow> ascii_alphanumeric c \<or> c = CHR ''_''"

lemma split_once_shorter: "split_once pat s = Some (a, b) \<Longrightarrow> length a + length pat + length b = length s"
  by (induction pat s arbitrary: a rule: split_once.induct) (auto split: if_splits dest: arg_cong [of _ _ length])

lemma rest_shorter: "split_once NEEDLE prose = Some (a, tail) \<Longrightarrow> length (dropWhile P tail) < length prose"
  using split_once_shorter [of NEEDLE prose a tail] length_dropWhile_le [of P tail] by (simp add: NEEDLE_def)

function provider_extra_targets :: "string \<Rightarrow> string list" where
  "provider_extra_targets prose =
     (case split_once NEEDLE prose of
        None \<Rightarrow> []
      | Some (_, tail) \<Rightarrow>
          (let token = takeWhile is_target_char tail; rest = dropWhile is_target_char tail
           in (if token \<noteq> [] then [token] else []) @ provider_extra_targets rest))"
  by pat_completeness auto

termination
  by (relation "measure length") (auto dest: rest_shorter)

declare provider_extra_targets.simps [simp del]

definition json_object :: "json \<Rightarrow> (string \<times> json) list option" where
  "json_object j = (case j of JObj ms \<Rightarrow> Some ms | _ \<Rightarrow> None)"

definition provider_extra_keys :: "json list \<Rightarrow> string list" where
  "provider_extra_keys values =
     btree_set (concat (map (map fst)
       (List.map_filter json_object (List.map_filter (json_get ''provider_extra'') values))))"

definition assert_fdx_field_map :: "string \<Rightarrow> json \<Rightarrow> string list \<Rightarrow> failure list" where
  "assert_fdx_field_map label field_map emitted =
     (case expect_object field_map (label @ '': expect.fdx_field_map'') of
        (fs, None) \<Rightarrow> fs
      | (fs, Some ms) \<Rightarrow>
          (let named = btree_set (concat (map provider_extra_targets (List.map_filter (json_str \<circ> snd) ms))) in
           fs @
           (if named = [] then [failure_new ''A1'' (Message ''names no provider_extra target at all'' [JStr label])] else []) @
           map (\<lambda>key. failure_new ''A1'' (Message ''no observation carried that key'' [JStr label, JStr key]))
             (filter (\<lambda>k. k \<notin> set emitted) named) @
           map (\<lambda>key. failure_new ''A1'' (Message ''documents no FDX field landing there'' [JStr label, JStr key]))
             (filter (\<lambda>k. k \<notin> set named) emitted)))"

end
