(* ===== verification/Crawl_Run.thy ===== *)
theory Crawl_Run
  imports Expect
begin

text \<open>
  One full read crawl of the conformance suite (\<open>run_crawl\<close>, \<open>drain_history\<close> and \<open>finish\<close> in
  \<open>conformance/src/exec.rs\<close>) over the handle of an adapter process. The locals of the crawl are
  the record \<open>crawl\<close>; the numbered steps of the source are one function each, and a step that
  returns early says so.
\<close>

definition MAX_CRAWL_PAGES :: nat where "MAX_CRAWL_PAGES = 500"

section \<open>State\<close>

record resumption =
  rn_resume :: resume_state
  rn_fold :: fold_state

definition resumption_new :: resumption where
  "resumption_new = \<lparr>rn_resume = resume_new None, rn_fold = fold_new\<rparr>"

datatype mode = CompleteRun | TruncatedRun resumption bool

record 's crawl =
  cw_handle :: "'s adapter_handle"
  cw_exec :: execution
  cw_across :: "resumption option"
  cw_failures :: "failure list"
  cw_statuses :: "(string, json list) hash_map"
  cw_status_read :: "json list"
  cw_verified :: "string list"
  cw_extra :: "string list"

definition fail :: "failure list \<Rightarrow> 's crawl \<Rightarrow> 's crawl" where
  "fail fs s = s\<lparr>cw_failures := cw_failures s @ fs\<rparr>"

definition verify :: "string list \<Rightarrow> 's crawl \<Rightarrow> 's crawl" where
  "verify ops s = s\<lparr>cw_verified := cw_verified s @ ops\<rparr>"

definition saw_extra :: "json list \<Rightarrow> 's crawl \<Rightarrow> 's crawl" where
  "saw_extra values s = s\<lparr>cw_extra := btree_set (cw_extra s @ provider_extra_keys values)\<rparr>"

definition on_exec :: "(execution \<Rightarrow> execution) \<Rightarrow> 's crawl \<Rightarrow> 's crawl" where
  "on_exec f s = s\<lparr>cw_exec := f (cw_exec s)\<rparr>"

definition on_ledger :: "(ledger \<Rightarrow> ledger) \<Rightarrow> 's crawl \<Rightarrow> 's crawl" where
  "on_ledger f = on_exec (\<lambda>x. x\<lparr>xe_ledger := f (xe_ledger x)\<rparr>)"

definition label_of :: "'s crawl \<Rightarrow> json" where
  "label_of s = JStr (xe_label (cw_exec s))"

definition ask :: "('s adapter_handle \<Rightarrow> 'r \<times> 's adapter_handle) \<Rightarrow> 's crawl \<Rightarrow> 'r \<times> 's crawl" where
  "ask f s = (let (r, h) = f (cw_handle s) in (r, s\<lparr>cw_handle := h\<rparr>))"

text \<open>\<open>entry(rid).or_default().push(...)\<close> for each status that names its resource.\<close>

definition status_push :: "string \<Rightarrow> json list \<Rightarrow> (string, json list) hash_map \<Rightarrow> (string, json list) hash_map" where
  "status_push rid js m = AList.update rid ((case map_of m rid of Some old \<Rightarrow> old | None \<Rightarrow> []) @ js) m"

definition by_resource :: "json list \<Rightarrow> (string, json list) hash_map \<Rightarrow> (string, json list) hash_map" where
  "by_resource statuses m =
     foldl (\<lambda>m s. case Option.bind (json_get ''resource_id'' s) json_str of
                    Some rid \<Rightarrow> status_push rid [s] m | None \<Rightarrow> m) m statuses"

section \<open>Resources and the probe\<close>

definition crawl_resources :: "'s conn_env \<Rightarrow> json \<Rightarrow> 's crawl \<Rightarrow> bool \<times> 's crawl" where
  "crawl_resources env expect s =
     (let (r, s) = ask (handle_resources_list env) s in
      case r of
        Inl e \<Rightarrow> (False, fail [failure_new ''setup'' (Message ''resources.list failed'' [label_of s, JStr (host_error_text e)])] s)
      | Inr resources \<Rightarrow>
          let resources_json = map (to_json ser_resource_descriptor) resources;
              s = (case json_get ''resources'' expect of
                     Some declared \<Rightarrow> fail (assert_resources (xe_label (cw_exec s)) resources_json declared) s
                   | None \<Rightarrow> s);
              s = saw_extra resources_json s;
              s = on_exec (\<lambda>x. x\<lparr>xe_resource_ids := map rd_resource_id resources\<rparr>) s
          in if resources = []
             then (False, fail [failure_new ''setup'' (Message ''returned no resources'' [label_of s])] s)
             else (True,
               if cw_across s \<noteq> None \<and> length resources \<noteq> 1
               then fail [failure_new ''setup'' (Message ''one ResumeState cannot stand for several''
                       (label_of s # map (JStr \<circ> rd_resource_id) resources))] s
               else s))"

definition judge_probe :: "json \<Rightarrow> string \<Rightarrow> json \<Rightarrow> host_error + json reply \<Rightarrow> failure list" where
  "judge_probe label op probe r =
     (case r of
        Inr (ReplyErr _ err) \<Rightarrow>
          (let code = to_json (ser_enum code_names) (eb_code err);
               expected_code = (case Option.bind (json_pointer [''expected_err'', ''code''] probe) json_str of
                                  Some c \<Rightarrow> c | None \<Rightarrow> ''unsupported'') in
           (if json_str code \<noteq> Some expected_code
            then [failure_new ''A4'' (Message ''expected err.code'' [label, JStr op, JStr expected_code, code])]
            else []) @
           (case Option.bind (json_pointer [''expected_err'', ''detail'', ''op''] probe) json_str of
              None \<Rightarrow> []
            | Some expected_op \<Rightarrow>
                if Option.bind (Option.bind (eb_detail err) (json_get ''op'')) json_str \<noteq> Some expected_op
                then [failure_new ''A4'' (Message ''expected detail.op'' [label, JStr op, JStr expected_op])]
                else []))
      | _ \<Rightarrow> [failure_new ''A4'' (Message ''expected an envelope err'' [label, JStr op])])"

definition assert_probe :: "'s conn_env \<Rightarrow> json \<Rightarrow> 's crawl \<Rightarrow> 's crawl" where
  "assert_probe env probe s =
     (let op = (case Option.bind (json_get ''op'' probe) json_str of Some p \<Rightarrow> p | None \<Rightarrow> ''execute'');
          params = (case json_get ''params'' probe of Some p \<Rightarrow> p | None \<Rightarrow> JObj []);
          (r, s) = ask (handle_call_raw env op params) s
      in fail (judge_probe (label_of s) op probe r) s)"

definition crawl_probe :: "'s conn_env \<Rightarrow> json \<Rightarrow> 's crawl \<Rightarrow> 's crawl" where
  "crawl_probe env expect s =
     (case json_get ''probe'' expect of
        None \<Rightarrow> s
      | Some probe \<Rightarrow>
          (let s = assert_probe env probe s; (r, s) = ask (handle_resources_list env) s in
           case r of
             Inr _ \<Rightarrow> verify [''resources.list''] s
           | Inl e \<Rightarrow> fail [failure_new ''A4'' (Message ''resources.list after the probe failed''
                              [label_of s, JStr (host_error_text e)])] s))"

section \<open>Balances\<close>

definition op_on :: "string \<Rightarrow> string \<Rightarrow> string" where
  "op_on op rid = op @ ''('' @ rid @ '')''"

definition push_balance :: "balance \<Rightarrow> 's crawl \<Rightarrow> 's crawl" where
  "push_balance b s =
     (let json = stable_view (to_json ser_balance b)
      in on_ledger (ledger_push Balances (bl_resource_id b) None json) (saw_extra [json] s))"

definition expect_key :: "json \<Rightarrow> string \<Rightarrow> (json \<Rightarrow> failure list) \<Rightarrow> 's crawl \<Rightarrow> 's crawl" where
  "expect_key expect k judge s = (case json_get k expect of None \<Rightarrow> s | Some v \<Rightarrow> fail (judge v) s)"

definition crawl_balances :: "'s conn_env \<Rightarrow> json \<Rightarrow> bool \<Rightarrow> 's crawl \<Rightarrow> bool \<times> 's crawl" where
  "crawl_balances env expect killed s =
     (let batch = xe_resource_ids (cw_exec s); (r, s) = ask (handle_balances_read env batch) s in
      case r of
        Inr reply \<Rightarrow>
          let statuses = map (to_json ser_resource_status) (br_statuses reply);
              s = fail (assert_status_coverage batch statuses) s;
              s = s\<lparr>cw_statuses := by_resource statuses (cw_statuses s)\<rparr>;
              s = fold push_balance (br_observations reply) s;
              s = on_ledger (fold (count_frame Balances) batch) s;
              s = verify (map (op_on ''balances.read'') batch) s;
              s = expect_key expect ''grammar_check''
                    (assert_grammar_check (xe_label (cw_exec s)) (br_observations reply)) s;
              s = expect_key expect ''provenance''
                    (assert_provenance (xe_label (cw_exec s)) (br_observations reply)) s
          in (True, s)
      | Inl (AdapterCrashed status) \<Rightarrow>
          let s = on_exec (\<lambda>x. x\<lparr>xe_crashed := True\<rparr>) s
          in (False, if killed then s
                     else fail [failure_new ''A2'' (Message ''the adapter died during balances.read'' [label_of s])] s)
      | Inl e \<Rightarrow>
          (True, fail [failure_new ''A2'' (Message ''balances.read failed'' [label_of s, JStr (host_error_text e)])] s))"

section \<open>History\<close>

definition push_observation :: "observation \<Rightarrow> 's crawl \<Rightarrow> 's crawl" where
  "push_observation ob s =
     (let s = on_ledger (ledger_push History (ob_resource_id ob) (Some (ob_local_id ob))
                           (stable_view (to_json ser_observation ob))) s;
          s = s\<lparr>cw_across := map_option (\<lambda>a. a\<lparr>rn_fold := snd (ingest ob (rn_fold a))\<rparr>) (cw_across s)\<rparr>
      in on_exec (\<lambda>x. x\<lparr>xe_fold := snd (ingest ob (xe_fold x))\<rparr>) s)"

text \<open>What the first status of a reply says about the next page.\<close>

definition page_of :: "resource_status list \<Rightarrow> cursor_resumable \<times> page_request option" where
  "page_of statuses =
     (case statuses of
        [] \<Rightarrow> (NoCursor, None)
      | st # _ \<Rightarrow> (case rs_page st of None \<Rightarrow> (NoCursor, None) | Some p \<Rightarrow> (pg_cursor_resumable p, pg_next p)))"

definition history_page :: "string \<Rightarrow> host_history \<Rightarrow> 's crawl \<Rightarrow> 's crawl" where
  "history_page rid reply s =
     (let s = on_ledger (count_frame History rid) s;
          s = fail (assert_status_coverage [rid] (map (to_json ser_resource_status) (hrd_statuses reply))) s;
          s = fold push_observation (hrd_observations reply) s;
          (resumable, nxt) = page_of (hrd_statuses reply)
      in s\<lparr>cw_across := map_option (\<lambda>a. a\<lparr>rn_resume := resume_record resumable nxt (rn_resume a)\<rparr>) (cw_across s)\<rparr>)"

text \<open>The loop, with the number of pages it may still read.\<close>

fun drain_history ::
  "'s conn_env \<Rightarrow> string \<Rightarrow> bool \<Rightarrow> nat \<Rightarrow> page_request option \<Rightarrow> 's crawl \<Rightarrow> json list \<times> 's crawl" where
  "drain_history env rid tolerate_crash 0 page s =
     ([], fail [failure_new ''setup'' (Message ''exceeded MAX_PAGES pages -- treating as hung'' [label_of s, JStr rid])] s)"
| "drain_history env rid tolerate_crash (Suc n) page s =
     (let (r, s) = ask (handle_history_read env [\<lparr>qy_resource_id = rid, qy_page = page\<rparr>]) s in
      case r of
        Inl (AdapterCrashed status) \<Rightarrow>
          let s = on_exec (\<lambda>x. x\<lparr>xe_crashed := True\<rparr>) s
          in ([], if tolerate_crash then s
                  else fail [failure_new ''A2'' (Message ''the adapter died part-way through the read'' [label_of s, JStr rid])] s)
      | Inl e \<Rightarrow>
          ([], fail [failure_new ''A2'' (Message ''history.read failed'' [label_of s, JStr rid, JStr (host_error_text e)])] s)
      | Inr reply \<Rightarrow>
          let s = history_page rid reply s; statuses = map (to_json ser_resource_status) (hrd_statuses reply) in
          (case snd (page_of (hrd_statuses reply)) of
             None \<Rightarrow> (statuses, s)
           | Some p \<Rightarrow>
               let (rest, s) = drain_history env rid tolerate_crash n (Some p) s in (statuses @ rest, s)))"

text \<open>One resource of the history loop; the loop breaks once the adapter has crashed.\<close>

definition crawl_history_of :: "'s conn_env \<Rightarrow> bool \<Rightarrow> string \<Rightarrow> 's crawl \<Rightarrow> 's crawl" where
  "crawl_history_of env killed rid s =
     (let start = (case cw_across s of None \<Rightarrow> None | Some a \<Rightarrow> next_request (rn_resume a));
          blamed = length (cw_failures s);
          (statuses, s) = drain_history env rid killed MAX_CRAWL_PAGES start s;
          s = s\<lparr>cw_statuses := status_push rid statuses (cw_statuses s)\<rparr>
      in if length (cw_failures s) = blamed then verify [op_on ''history.read'' rid] s else s)"

fun crawl_history :: "'s conn_env \<Rightarrow> bool \<Rightarrow> string list \<Rightarrow> 's crawl \<Rightarrow> 's crawl" where
  "crawl_history env killed [] s = s"
| "crawl_history env killed (rid # rids) s =
     (let s = crawl_history_of env killed rid s
      in if xe_crashed (cw_exec s) then s else crawl_history env killed rids s)"

definition history_extra :: "'s crawl \<Rightarrow> 's crawl" where
  "history_extra s =
     fold (\<lambda>rid s. saw_extra (map le_json (sequence History rid (xe_ledger (cw_exec s)))) s)
       (xe_resource_ids (cw_exec s)) s"

section \<open>Status, envelope errors, and the fixture's lists\<close>

definition crawl_status :: "'s conn_env \<Rightarrow> 's crawl \<Rightarrow> 's crawl" where
  "crawl_status env s =
     (if xe_crashed (cw_exec s) then s
      else let ids = xe_resource_ids (cw_exec s); (r, s) = ask (handle_status_read env ids) s in
           case r of
             Inr statuses \<Rightarrow>
               let js = map (to_json ser_resource_status) statuses;
                   s = fail (assert_status_coverage ids js) (s\<lparr>cw_status_read := js\<rparr>)
               in verify (map (op_on ''status.read'') ids) s
           | Inl e \<Rightarrow> fail [failure_new ''A7'' (Message ''status.read failed'' [label_of s, JStr (host_error_text e)])] s)"

definition judge_envelope_error :: "json \<Rightarrow> string \<Rightarrow> string \<Rightarrow> json \<Rightarrow> host_error option \<Rightarrow> failure list" where
  "judge_envelope_error label key rid expected_body result =
     (let expected_code = Option.bind (json_get ''code'' expected_body) json_str in
      case result of
        Some (Wire err) \<Rightarrow>
          (let actual_code = to_json (ser_enum code_names) (eb_code err) in
           if json_str actual_code \<noteq> expected_code
           then [failure_new ''A4'' (Message ''expected envelope err.code'' [label, JStr rid, actual_code])]
           else [])
      | _ \<Rightarrow> [failure_new ''A4'' (Message ''expected an envelope err with code'' [label, JStr key])])"

definition err :: "'e + 'a \<Rightarrow> 'e option" where
  "err r = (case r of Inl e \<Rightarrow> Some e | Inr _ \<Rightarrow> None)"

definition envelope_error_step :: "'s conn_env \<Rightarrow> string \<times> json \<Rightarrow> 's crawl \<Rightarrow> 's crawl" where
  "envelope_error_step env kv s =
     (let (key, expected_body) = kv in
      case strip_suffix ''_balances_read'' key of
        Some rid \<Rightarrow>
          (let (r, s) = ask (handle_balances_read env [rid]) s
           in fail (judge_envelope_error (label_of s) key rid expected_body (err r)) s)
      | None \<Rightarrow>
          (case strip_suffix ''_history_read'' key of
             Some rid \<Rightarrow>
               (let (r, s) = ask (handle_history_read env [\<lparr>qy_resource_id = rid, qy_page = None\<rparr>]) s
                in fail (judge_envelope_error (label_of s) key rid expected_body (err r)) s)
           | None \<Rightarrow> fail [failure_new ''setup'' (Message ''names no op'' [label_of s, JStr key])] s))"

definition crawl_envelope_errors :: "'s conn_env \<Rightarrow> json \<Rightarrow> 's crawl \<Rightarrow> 's crawl" where
  "crawl_envelope_errors env expect s =
     (case json_get ''envelope_errors'' expect of
        None \<Rightarrow> s
      | Some expected \<Rightarrow>
          (case expect_object expected (xe_label (cw_exec s) @ '': expect.envelope_errors'') of
             (fs, None) \<Rightarrow> fail fs s
           | (fs, Some ms) \<Rightarrow>
               (let s = fold (envelope_error_step env) ms (fail fs s);
                    (r, s) = ask (handle_resources_list env) s in
                case r of
                  Inr _ \<Rightarrow> s
                | Inl e \<Rightarrow> fail [failure_new ''A4'' (Message ''the connection did not survive the envelope error''
                                   [label_of s, JStr (host_error_text e)])] s)))"

definition judge_must_succeed :: "json \<Rightarrow> string list \<Rightarrow> json \<Rightarrow> failure list" where
  "judge_must_succeed label verified required =
     (case expect_array required ''expect.must_still_succeed'' of
        (fs, None) \<Rightarrow> fs
      | (fs, Some required) \<Rightarrow> fs @
          map (\<lambda>op. failure_new ''A4'' (Message ''never verified it succeeded after the probe'' [label, JStr op]))
            (filter (\<lambda>op. op \<notin> set verified) (List.map_filter json_str required)))"

definition crawl_expectations :: "json \<Rightarrow> 's crawl \<Rightarrow> 's crawl" where
  "crawl_expectations expect s =
     (let label = xe_label (cw_exec s);
          s = expect_key expect ''must_still_succeed'' (judge_must_succeed (label_of s) (cw_verified s)) s;
          s = expect_key expect ''statuses''
                (\<lambda>v. assert_expected_statuses label (cw_statuses s) v ''expect.statuses'') s;
          s = expect_key expect ''status_read''
                (\<lambda>v. assert_expected_statuses label (by_resource (cw_status_read s) []) v ''expect.status_read'') s
      in expect_key expect ''fdx_field_map'' (\<lambda>v. assert_fdx_field_map label v (cw_extra s)) s)"

section \<open>The end\<close>

definition live_fold_of :: "'s crawl \<Rightarrow> fold_state" where
  "live_fold_of s = (case cw_across s of None \<Rightarrow> xe_fold (cw_exec s) | Some a \<Rightarrow> rn_fold a)"

definition judge_close :: "string \<Rightarrow> terminal option \<Rightarrow> failure list" where
  "judge_close label t =
     (case t of
        Some (Violation kind) \<Rightarrow>
          [failure_violation (kind_debug kind) (Message ''the connection ended in'' [JStr label, JStr (kind_debug kind)])]
      | _ \<Rightarrow> [])"

definition finish_crawl :: "'s conn_env \<Rightarrow> json \<Rightarrow> obliged \<Rightarrow> 's crawl \<Rightarrow> 's crawl" where
  "finish_crawl env expect completeness s =
     (let t = handle_transcript (cw_handle s);
          s = on_exec (\<lambda>x. x\<lparr>xe_transcript := t, xe_request_shapes := map request_shape t\<rparr>) s;
          s = fail (judge_close (xe_label (cw_exec s)) (handle_close env (cw_handle s))) s
      in fail (assert_execution (ce_from_str env) (ce_to_vec env) (cw_exec s) expect completeness (live_fold_of s)) s)"

definition crawl_steps :: "'s conn_env \<Rightarrow> json \<Rightarrow> bool \<Rightarrow> 's crawl \<Rightarrow> 's crawl" where
  "crawl_steps env expect killed s =
     (case crawl_resources env expect s of
        (False, s) \<Rightarrow> s
      | (True, s) \<Rightarrow>
          (case crawl_balances env expect killed (crawl_probe env expect s) of
             (False, s) \<Rightarrow> s
           | (True, s) \<Rightarrow>
               crawl_expectations expect
                 (crawl_envelope_errors env expect
                    (crawl_status env
                       (history_extra (crawl_history env killed (xe_resource_ids (cw_exec s)) s))))))"

definition crawl_new :: "'s adapter_handle \<Rightarrow> string \<Rightarrow> resumption option \<Rightarrow> 's crawl" where
  "crawl_new h label across =
     \<lparr>cw_handle = h, cw_exec = execution_new label, cw_across = across, cw_failures = [],
      cw_statuses = [], cw_status_read = [], cw_verified = [], cw_extra = []\<rparr>"

definition env_for :: "string \<Rightarrow> nat \<Rightarrow> (string \<times> string) list" where
  "env_for path run = [(''SUMER_FIXTURE'', path), (''SUMER_FIXTURE_RUN'', dec run)]"

definition mode_parts :: "mode \<Rightarrow> obliged \<times> resumption option \<times> bool" where
  "mode_parts m =
     (case m of CompleteRun \<Rightarrow> (CompleteSequence, None, False)
      | TruncatedRun across killed \<Rightarrow> (TruncatedSequence, Some across, killed))"

text \<open>
  What \<open>run_crawl\<close> pushes, the execution it returns and the resumption it leaves. \<open>stem\<close> is the
  file stem of the fixture's path.
\<close>

definition run_crawl ::
  "'s conn_env \<Rightarrow> string list \<Rightarrow> string \<Rightarrow> string \<Rightarrow> nat \<Rightarrow> json \<Rightarrow> mode \<Rightarrow> nat \<Rightarrow>
   failure list \<times> execution \<times> resumption option" where
  "run_crawl env argv path stem run expect m deadline =
     (let label = stem @ ''[run '' @ dec run @ '']''; (completeness, across, killed) = mode_parts m in
      case spawn_impl env argv (env_for path run) deadline True of
        Inl e \<Rightarrow>
          let x = execution_new label;
              live_fold = (case across of None \<Rightarrow> xe_fold x | Some a \<Rightarrow> rn_fold a)
          in (failure_new ''setup'' (Message ''spawn failed'' [JStr label, JStr (host_error_text e)]) #
              assert_execution (ce_from_str env) (ce_to_vec env) x expect completeness live_fold, x, across)
      | Inr h \<Rightarrow>
          let s = finish_crawl env expect completeness (crawl_steps env expect killed (crawl_new h label across))
          in (cw_failures s, cw_exec s, cw_across s))"

end
