(* ===== verification/Runner.thy ===== *)
theory Runner
  imports Crawl_Run
begin

text \<open>
  The drivers of the conformance suite (\<open>conformance/src/runner.rs\<close>): which executions a case
  needs, and what has to hold between them. Every launch is a process of its own, so what the
  n-th launch of a case does is a connection environment of its own, \<open>launches n\<close>. How often
  \<open>wait_for_violation\<close> polls before its three seconds are over is the parameter \<open>polls\<close>.
\<close>

record case_outcome =
  co_case :: string
  co_failures :: "failure list"

definition deadline_of :: "json \<Rightarrow> nat" where
  "deadline_of fixture =
     (case Option.bind (json_pointer [''conformance_hints'', ''deadline_ms''] fixture) json_u64 of
        Some n \<Rightarrow> n | None \<Rightarrow> 30000)"

definition expect_of :: "json \<Rightarrow> json" where
  "expect_of fixture = (case json_get ''expect'' fixture of Some e \<Rightarrow> e | None \<Rightarrow> JNull)"

section \<open>The standard case\<close>

definition assert_local_id_purity :: "execution \<Rightarrow> execution \<Rightarrow> failure list" where
  "assert_local_id_purity first second =
     (let a = xe_request_shapes first; b = xe_request_shapes second; label = JStr (xe_label first) in
      if a \<noteq> b then
        let i = (case position (\<lambda>(x, y). x \<noteq> y) (zip a b) of Some i \<Rightarrow> i | None \<Rightarrow> min (length a) (length b))
        in [failure_new ''A9'' (Message ''the two executions dispatched different requests''
              [label, JInt (int i), JInt (int (length a)), JInt (int (length b))])]
      else map (\<lambda>line. failure_new ''A9'' (Within (Message ''the association differs'' [label]) line))
             (content_diff (history_by_local_id (xe_ledger second)) (history_by_local_id (xe_ledger first))))"

definition case_crawl ::
  "(nat \<Rightarrow> 's conn_env) \<Rightarrow> string list \<Rightarrow> string \<Rightarrow> string \<Rightarrow> json \<Rightarrow> failure list" where
  "case_crawl launches argv path stem fixture =
     (let expect = expect_of fixture; deadline = deadline_of fixture;
          (fs, first, _) = run_crawl (launches 0) argv path stem 0 expect CompleteRun deadline;
          (gs, second, _) = run_crawl (launches 1) argv path stem 0 expect CompleteRun deadline
      in fs @ gs @ assert_local_id_purity first second)"

section \<open>Interrupted pagination\<close>

definition run_index :: "json \<Rightarrow> string \<Rightarrow> nat option" where
  "run_index family key = Option.bind (json_pointer [key, ''index''] family) json_u64"

text \<open>The optional keys of a family, held against what the resumed run emitted.\<close>

definition family_array :: "json \<Rightarrow> string \<Rightarrow> string \<Rightarrow> (string list \<Rightarrow> failure list) \<Rightarrow> failure list" where
  "family_array family name k judge =
     (case json_get k family of
        None \<Rightarrow> []
      | Some v \<Rightarrow>
          (case expect_array v (name @ '': '' @ k) of
             (fs, None) \<Rightarrow> fs
           | (fs, Some js) \<Rightarrow> fs @ judge (List.map_filter json_str js)))"

definition judge_resume :: "string \<Rightarrow> json \<Rightarrow> string \<Rightarrow> execution \<Rightarrow> failure list" where
  "judge_resume name family rid resumed =
     (let emitted = emitted_history_ids rid resumed in
      family_array family name ''must_not_reemit_before_resume_cursor''
        (\<lambda>ids. map (\<lambda>f. failure_new ''A5'' (Message ''was re-emitted after resume'' [JStr name, JStr f]))
                 (filter (\<lambda>f. f \<in> set emitted) ids)) @
      family_array family name ''redelivered_on_resume''
        (\<lambda>ids. map (\<lambda>r. failure_new ''A5'' (Message ''was expected to be re-delivered'' [JStr name, JStr r]))
                 (filter (\<lambda>r. r \<notin> set emitted) ids)) @
      (case json_get ''max_post_resume_frame_count'' family of
         None \<Rightarrow> []
       | Some v \<Rightarrow>
           (case expect_u64 v (name @ '': max_post_resume_frame_count'') of
              (fs, None) \<Rightarrow> fs
            | (fs, Some max_frames) \<Rightarrow> fs @
                (if max_frames < history_frames rid resumed
                 then [failure_new ''A5'' (Message ''post-resume frames''
                         [JStr name, JInt (int (history_frames rid resumed)), JInt (int max_frames)])]
                 else []))))"

definition run_pagination_family ::
  "(nat \<Rightarrow> 's conn_env) \<Rightarrow> string list \<Rightarrow> string \<Rightarrow> string \<Rightarrow> nat \<Rightarrow> nat \<times> string \<times> json \<Rightarrow> failure list" where
  "run_pagination_family launches argv path stem deadline nf =
     (let (n, name, family) = nf in
      case Option.bind (json_get ''resource_id'' family) json_str of
        None \<Rightarrow> [failure_new ''setup'' (Message ''missing resource_id'' [JStr name])]
      | Some rid \<Rightarrow>
          (case (run_index family ''uninterrupted_run'', run_index family ''interrupted_before_run'',
                 run_index family ''interrupted_after_run'') of
             (Some full_idx, Some before_idx, Some after_idx) \<Rightarrow>
               (let (fs, full, _) =
                      run_crawl (launches (3 * n)) argv path stem full_idx family CompleteRun deadline;
                    (gs, killed, across) =
                      run_crawl (launches (3 * n + 1)) argv path stem before_idx family
                        (TruncatedRun resumption_new True) deadline;
                    (hs, resumed, across) =
                      run_crawl (launches (3 * n + 2)) argv path stem after_idx family
                        (TruncatedRun (case across of Some a \<Rightarrow> a | None \<Rightarrow> resumption_new) False) deadline;
                    bracket = content_diff
                                (live_content (case across of Some a \<Rightarrow> rn_fold a | None \<Rightarrow> fold_new))
                                (live_content (xe_fold full))
                in fs @ gs @
                   (if \<not> xe_crashed killed
                    then [failure_new ''A5'' (Message ''completed without ever crashing'' [JStr name])] else []) @
                   hs @
                   (if xe_crashed resumed
                    then [failure_new ''A5'' (Message ''the resuming run died'' [JStr name])] else []) @
                   map (\<lambda>line. failure_new ''A5'' (Within (Message ''the live set differs'' [JStr name]) line)) bracket @
                   judge_resume name family rid resumed)
           | _ \<Rightarrow> [failure_new ''setup'' (Message ''missing a run index'' [JStr name])]))"

definition case_interrupted_pagination ::
  "(nat \<Rightarrow> 's conn_env) \<Rightarrow> string list \<Rightarrow> string \<Rightarrow> string \<Rightarrow> json \<Rightarrow> failure list" where
  "case_interrupted_pagination launches argv path stem fixture =
     (let expect = expect_of fixture; deadline = deadline_of fixture;
          families = (case Option.bind (json_get ''families'' expect) json_object of Some ms \<Rightarrow> ms | None \<Rightarrow> []) in
      if families = []
      then [failure_new ''setup'' (Message ''expect.families declares no cursor family'' [])]
      else concat (map (run_pagination_family launches argv path stem deadline) (List.enumerate 0 families)))"

section \<open>Protocol violations\<close>

definition spawn_run :: "'s conn_env \<Rightarrow> string list \<Rightarrow> string \<Rightarrow> nat \<Rightarrow> nat \<Rightarrow> host_error + 's adapter_handle" where
  "spawn_run env argv path run deadline = spawn_impl env argv (env_for path run) deadline False"

definition assert_violation_kind :: "violation_kind \<Rightarrow> string option \<Rightarrow> json \<Rightarrow> failure list" where
  "assert_violation_kind actual expected label =
     (case expected of
        Some name \<Rightarrow>
          if name = kind_debug actual then []
          else [failure_violation name (Message ''expected ProtocolViolation'' [label, JStr name, JStr (kind_debug actual)])]
      | None \<Rightarrow>
          [failure_violation (kind_debug actual) (Message ''the fixture named no expected kind'' [label])])"

definition expected_violation :: "string option \<Rightarrow> message \<Rightarrow> failure" where
  "expected_violation kind m = (case kind of Some k \<Rightarrow> failure_violation k m | None \<Rightarrow> failure_new ''A11'' m)"

definition prerequisite_failure :: "host_error \<Rightarrow> message \<Rightarrow> failure" where
  "prerequisite_failure e m =
     (case e of ProtocolViolation kind \<Rightarrow> failure_violation (kind_debug kind) m | _ \<Rightarrow> failure_new ''A11'' m)"

text \<open>The polling loop: only an adapter that still answers is asked again.\<close>

fun wait_for_violation :: "'s conn_env \<Rightarrow> nat \<Rightarrow> 's adapter_handle \<Rightarrow> message + violation_kind" where
  "wait_for_violation env polls h =
     (let (r, h) = handle_resources_list env h;
          again = (case polls of
                     0 \<Rightarrow> Inl (Message ''timed out waiting for the expected protocol violation'' [])
                   | Suc n \<Rightarrow> wait_for_violation env n h) in
      case r of
        Inr _ \<Rightarrow> again
      | Inl (Wire _) \<Rightarrow> again
      | Inl (ProtocolViolation kind) \<Rightarrow> Inr kind
      | Inl (AdapterCrashed status) \<Rightarrow>
          Inl (Message ''adapter died with no protocol violation ever established'' [])
      | Inl e \<Rightarrow> Inl (Message ''instead of a protocol violation'' [JStr (host_error_text e)]))"

declare wait_for_violation.simps [simp del]

definition check_violation_after_resources_list ::
  "'s conn_env \<Rightarrow> nat \<Rightarrow> string list \<Rightarrow> string \<Rightarrow> nat \<Rightarrow> json \<Rightarrow> string option \<Rightarrow> nat \<Rightarrow> bool \<Rightarrow> failure list" where
  "check_violation_after_resources_list env polls argv path run label kind deadline needs_poll =
     (case spawn_run env argv path run deadline of
        Inl e \<Rightarrow> [prerequisite_failure e (Message ''spawn failed'' [label, JStr (host_error_text e)])]
      | Inr h \<Rightarrow>
          (case handle_resources_list env h of
             (Inl e, _) \<Rightarrow>
               [prerequisite_failure e (Message ''resources.list unexpectedly failed'' [label, JStr (host_error_text e)])]
           | (Inr _, h) \<Rightarrow>
               if needs_poll then
                 (case wait_for_violation env polls h of
                    Inr actual \<Rightarrow> assert_violation_kind actual kind label
                  | Inl m \<Rightarrow> [expected_violation kind (Within (Message ''run'' [label]) m)])
               else
                 (case fst (handle_balances_read env [''res-a''] h) of
                    Inl (ProtocolViolation actual) \<Rightarrow> assert_violation_kind actual kind label
                  | _ \<Rightarrow> [expected_violation kind (Message ''expected a ProtocolViolation on balances.read'' [label])])))"

definition assert_reply_belongs_to :: "resource_status list \<Rightarrow> string \<Rightarrow> json \<Rightarrow> failure list" where
  "assert_reply_belongs_to statuses rid label =
     (if map rs_resource_id statuses \<noteq> [rid]
      then [failure_new ''A11'' (Message ''carried statuses for'' (label # JStr rid # map (JStr \<circ> rs_resource_id) statuses))]
      else [])"

text \<open>What the reply of one of the four reads on the second run proves.\<close>

definition belongs_or_failed :: "string \<Rightarrow> string \<Rightarrow> json \<Rightarrow> host_error + resource_status list \<Rightarrow> failure list" where
  "belongs_or_failed op rid label r =
     (case r of
        Inr statuses \<Rightarrow> assert_reply_belongs_to statuses rid label
      | Inl e \<Rightarrow> [failure_new ''A4'' (Message ''unexpectedly failed'' [label, JStr op, JStr rid, JStr (host_error_text e)])])"

definition handle_history_join ::
  "'s conn_env \<Rightarrow> resource_query \<Rightarrow> resource_query \<Rightarrow> 's adapter_handle \<Rightarrow>
   ((host_error + host_history) \<times> (host_error + host_history)) \<times> 's adapter_handle" where
  "handle_history_join env p q h =
     (let params = (\<lambda>q. (OP_HISTORY_READ, json_value (ser_history_read_params [q])));
          decode = (\<lambda>q. history_read (ce_from_str env) (ce_err_text env) (ce_to_vec env)
                          (hr_adapter_id (hd_hello h)) [q]);
          ((r, r'), c) = ce_join env (params p) (params q) (fst (hd_conn h))
      in ((decode p r, decode q r'), h\<lparr>hd_conn := (c, snd (hd_conn h))\<rparr>))"

definition check_survivable_then_kill ::
  "'s conn_env \<Rightarrow> string list \<Rightarrow> string \<Rightarrow> nat \<Rightarrow> json \<Rightarrow> string option \<Rightarrow> nat \<Rightarrow> failure list" where
  "check_survivable_then_kill env argv path run label expected_kind deadline =
     (case spawn_run env argv path run deadline of
        Inl e \<Rightarrow> [failure_new ''A4'' (Message ''spawn failed'' [label, JStr (host_error_text e)])]
      | Inr h \<Rightarrow>
          (case handle_resources_list env h of
             (Inl e, _) \<Rightarrow> [failure_new ''A4'' (Message ''resources.list failed'' [label, JStr (host_error_text e)])]
           | (Inr _, h) \<Rightarrow>
               (let (b, h) = handle_balances_read env [''res-b''] h;
                    (a, h) = handle_balances_read env [''res-a''] h;
                    ((ha, hb), h) = handle_history_join env \<lparr>qy_resource_id = ''res-a'', qy_page = None\<rparr>
                                      \<lparr>qy_resource_id = ''res-b'', qy_page = None\<rparr> h;
                    (st, h) = handle_status_read env [''res-a'', ''res-b''] h
                in belongs_or_failed ''balances.read'' ''res-b'' label (map_sum id br_statuses b) @
                   (case a of
                      Inl Timeout \<Rightarrow> []
                    | _ \<Rightarrow> [failure_new ''A11'' (Message ''expected Timeout (tombstoned/discarded)'' [label])]) @
                   belongs_or_failed ''history.read'' ''res-a'' label (map_sum id hrd_statuses ha) @
                   belongs_or_failed ''history.read'' ''res-b'' label (map_sum id hrd_statuses hb) @
                   (case st of
                      Inl (ProtocolViolation kind) \<Rightarrow> assert_violation_kind kind expected_kind label
                    | _ \<Rightarrow> [expected_violation expected_kind
                              (Message ''expected the final status.read to trigger a ProtocolViolation'' [label])]))))"

definition judge_first_run :: "host_error + 's adapter_handle \<Rightarrow> string option \<Rightarrow> json \<Rightarrow> failure list" where
  "judge_first_run r expected_kind label =
     (case r of
        Inl (ProtocolViolation kind) \<Rightarrow> assert_violation_kind kind expected_kind label
      | Inl e \<Rightarrow> [prerequisite_failure e (Message ''got a different error'' [label, JStr (host_error_text e)])]
      | Inr _ \<Rightarrow> [expected_violation expected_kind (Message ''but it succeeded'' [label])])"

definition protocol_run ::
  "(nat \<Rightarrow> 's conn_env) \<Rightarrow> nat \<Rightarrow> string list \<Rightarrow> string \<Rightarrow> nat \<Rightarrow> nat \<times> json \<Rightarrow> failure list" where
  "protocol_run launches polls argv path deadline ne =
     (let (n, run_entry) = ne; env = launches n;
          (fs, index) = (case json_get ''index'' run_entry of
                           None \<Rightarrow> ([], None) | Some v \<Rightarrow> expect_u64 v ''expect.runs[].index'') in
      case index of
        None \<Rightarrow> fs @ [failure_new ''setup'' (Message ''an expect.runs entry names no run index'' [])]
      | Some run \<Rightarrow>
          (let label = JStr (case Option.bind (json_get ''label'' run_entry) json_str of Some l \<Rightarrow> l | None \<Rightarrow> ''?'');
               kind = Option.bind (json_pointer [''outcome'', ''protocol_violation'', ''kind''] run_entry) json_str in
           fs @
           (if run = 0 then judge_first_run (spawn_run env argv path run deadline) kind label
            else if run = 1 then check_survivable_then_kill env argv path run label kind deadline
            else check_violation_after_resources_list env polls argv path run label kind deadline (run = 2))))"

definition case_protocol_violations ::
  "(nat \<Rightarrow> 's conn_env) \<Rightarrow> nat \<Rightarrow> string list \<Rightarrow> string \<Rightarrow> json \<Rightarrow> failure list" where
  "case_protocol_violations launches polls argv path fixture =
     (case json_get ''runs'' (expect_of fixture) of
        Some (JArr runs) \<Rightarrow>
          concat (map (protocol_run launches polls argv path (deadline_of fixture)) (List.enumerate 0 runs))
      | _ \<Rightarrow> [failure_new ''setup'' (Message ''expect.runs missing'' [])])"

section \<open>A case\<close>

text \<open>\<open>file\<close> is what \<open>read_to_string\<close> returned for the fixture.\<close>

definition run_case ::
  "(nat \<Rightarrow> 's conn_env) \<Rightarrow> (string \<Rightarrow> json option) \<Rightarrow> nat \<Rightarrow> string list \<Rightarrow> string \<Rightarrow> string \<Rightarrow> string option \<Rightarrow>
   case_outcome" where
  "run_case launches from_str polls argv path stem file =
     (case file of
        None \<Rightarrow> \<lparr>co_case = path, co_failures = [failure_new ''setup'' (Message ''could not read'' [JStr path])]\<rparr>
      | Some t \<Rightarrow>
          (case map_option json_value (from_str t) of
             None \<Rightarrow> \<lparr>co_case = path, co_failures = [failure_new ''setup'' (Message ''invalid JSON'' [JStr path])]\<rparr>
           | Some fixture \<Rightarrow>
               (let c = (case Option.bind (json_get ''case'' fixture) json_str of Some c \<Rightarrow> c | None \<Rightarrow> ''<unknown>'') in
                \<lparr>co_case = c,
                 co_failures =
                   (if c = ''interrupted_pagination'' then case_interrupted_pagination launches argv path stem fixture
                    else if c = ''protocol_violations'' then case_protocol_violations launches polls argv path fixture
                    else case_crawl launches argv path stem fixture)\<rparr>)))"

text \<open>The exit code of the command line, given the outcomes in order (\<open>conformance/src/main.rs\<close>).\<close>

definition exit_code :: "case_outcome list \<Rightarrow> nat" where
  "exit_code outcomes =
     (if outcomes = [] then 2
      else if list_ex (\<lambda>c. co_failures c \<noteq> []) outcomes then 1 else 0)"

end
