(* ===== verification/Judge_Correct.thy ===== *)
theory Judge_Correct
  imports Judge
begin

text \<open>
  What the judgement of an execution decides. The declared sequences, the sizes on the wire, the
  omitted records and the live set are stated on their own, and an execution is judged without a
  failure exactly if they all hold.
\<close>

section \<open>Status coverage\<close>

lemma status_counts_append:
  "status_counts (ss @ [s]) =
     (case Option.bind (json_get ''resource_id'' s) json_str of
        Some r \<Rightarrow> AList.update r (case map_of (status_counts ss) r of Some n \<Rightarrow> n + 1 | None \<Rightarrow> 1) (status_counts ss)
      | None \<Rightarrow> status_counts ss)"
  by (cases "Option.bind (json_get ''resource_id'' s) json_str") (simp_all add: status_counts_def)

definition names :: "json list \<Rightarrow> string list" where
  "names statuses = List.map_filter (\<lambda>s. Option.bind (json_get ''resource_id'' s) json_str) statuses"

lemma names_append: "names (ss @ [s]) =
  names ss @ (case Option.bind (json_get ''resource_id'' s) json_str of Some r \<Rightarrow> [r] | None \<Rightarrow> [])"
  by (simp add: names_def map_filter_def split: option.split)

lemma status_counts_lookup:
  "map_of (status_counts ss) r = (if r \<in> set (names ss) then Some (count_list (names ss) r) else None)"
proof (induction ss arbitrary: r rule: rev_induct)
  case Nil
  show ?case by (simp add: status_counts_def names_def map_filter_def)
next
  case (snoc s ss)
  show ?case
  proof (cases "Option.bind (json_get ''resource_id'' s) json_str")
    case None
    with snoc show ?thesis by (simp add: status_counts_append names_append)
  next
    case (Some q)
    have "(case map_of (status_counts ss) q of Some n \<Rightarrow> n + 1 | None \<Rightarrow> 1) = count_list (names ss) q + 1"
      by (simp add: snoc [of q] count_list_0_iff)
    with snoc [of r] Some show ?thesis by (simp add: status_counts_append names_append count_list_append)
  qed
qed

lemma status_counts_keys: "set (map fst (status_counts ss)) = set (names ss)"
  using status_counts_lookup [of ss] by (metis (no_types, lifting) domIff dom_map_of_conv_image_fst image_set option.distinct(1) set_eqI)

lemma assert_status_coverage_iff:
  "assert_status_coverage requested statuses = [] \<longleftrightarrow>
     (\<forall>s\<in>set statuses. Option.bind (json_get ''resource_id'' s) json_str \<noteq> None) \<and>
     (\<forall>r\<in>set requested. count_list (names statuses) r = 1) \<and> set (names statuses) \<subseteq> set requested"
proof -
  have one: "(case map_of (status_counts statuses) r of None \<Rightarrow> [a] | Some n \<Rightarrow> if n = 1 then [] else [b n]) = [] \<longleftrightarrow>
    count_list (names statuses) r = 1" for r and a :: failure and b
    by (auto simp: status_counts_lookup count_list_0_iff)
  show ?thesis
    unfolding assert_status_coverage_def Let_def append_is_Nil_conv concat_eq_Nil_conv map_is_Nil_conv
      filter_empty_conv set_map ball_simps one status_counts_keys [unfolded set_map]
    by auto
qed

section \<open>Sizes\<close>

text \<open>What a frame of a read must look like, and the raw observations it carries.\<close>

definition frame_measured :: "(string \<Rightarrow> json option) \<Rightarrow> (json \<Rightarrow> nat option) \<Rightarrow> string \<Rightarrow> bool" where
  "frame_measured from_str to_vec frame \<longleftrightarrow>
     (\<exists>reply. from_str frame = Some reply \<and>
        (\<forall>ok. json_get ''ok'' (json_value reply) = Some ok \<longrightarrow>
           (\<exists>items. json_get ''observations'' ok = Some (JArr items) \<and>
              (\<forall>raw\<in>set items. \<exists>n. to_vec raw = Some n \<and> n \<le> MAX_OBSERVATION_BYTES))))"

definition transcript_measured :: "(string \<Rightarrow> json option) \<Rightarrow> (json \<Rightarrow> nat option) \<Rightarrow> exchange list \<Rightarrow> bool" where
  "transcript_measured from_str to_vec t \<longleftrightarrow>
     (\<forall>ex\<in>set t. \<forall>frame. ex_op ex \<in> {OP_BALANCES_READ, OP_HISTORY_READ} \<and> ex_frame ex = Some frame \<longrightarrow>
        frame_measured from_str to_vec frame)"

lemma assert_wire_size_iff:
  "assert_wire_size to_vec (what, raw) = [] \<longleftrightarrow> (\<exists>n. to_vec raw = Some n \<and> n \<le> MAX_OBSERVATION_BYTES)"
  by (auto simp: assert_wire_size_def not_less split: option.split)

lemma exchange_measured:
  "fst (raw_of_exchange from_str label (i, ex)) = [] \<and>
   (\<forall>wr\<in>set (snd (raw_of_exchange from_str label (i, ex))). assert_wire_size to_vec wr = []) \<longleftrightarrow>
   (\<forall>frame. ex_op ex \<in> {OP_BALANCES_READ, OP_HISTORY_READ} \<and> ex_frame ex = Some frame \<longrightarrow>
      frame_measured from_str to_vec frame)"
proof (cases "ex_op ex \<in> {OP_BALANCES_READ, OP_HISTORY_READ}")
  case False
  then show ?thesis by (simp add: raw_of_exchange_def)
next
  case op: True
  show ?thesis
  proof (cases "ex_frame ex")
    case None
    with op show ?thesis by (auto simp: raw_of_exchange_def)
  next
    case (Some frame)
    note f = this
    show ?thesis
    proof (cases "from_str frame")
      case None
      with op f show ?thesis by (auto simp: raw_of_exchange_def frame_measured_def)
    next
      case (Some reply)
      note r = this
      show ?thesis
      proof (cases "json_get ''ok'' (json_value reply)")
        case None
        with op f r show ?thesis by (auto simp: raw_of_exchange_def frame_measured_def)
      next
        case (Some ok)
        note k = this
        show ?thesis
        proof (cases "\<exists>items. json_get ''observations'' ok = Some (JArr items)")
          case True
          then obtain items where items: "json_get ''observations'' ok = Some (JArr items)" by blast
          have "raw_of_exchange from_str label (i, ex) =
            ([], map (\<lambda>(j, raw). (raw_name label (ex_op ex) j raw, raw)) (List.enumerate 0 items))"
            using op f r k items by (auto simp: raw_of_exchange_def)
          moreover have "(\<forall>wr\<in>set (map (\<lambda>(j, raw). (raw_name label (ex_op ex) j raw, raw)) (List.enumerate 0 items)).
              assert_wire_size to_vec wr = []) \<longleftrightarrow>
            (\<forall>raw\<in>set items. \<exists>n. to_vec raw = Some n \<and> n \<le> MAX_OBSERVATION_BYTES)"
            by (simp add: ball_enumerate assert_wire_size_iff case_prod_beta all_set_conv_all_nth nth_enumerate_eq)
          ultimately show ?thesis using op f r k items by (auto simp: frame_measured_def)
        next
          case False
          then have "fst (raw_of_exchange from_str label (i, ex)) \<noteq> []"
            using op f r k by (auto simp: raw_of_exchange_def split: option.split json.split)
          with False op f r k show ?thesis by (auto simp: frame_measured_def)
        qed
      qed
    qed
  qed
qed

lemma raws_iff:
  "fst (raw_observations from_str x) = [] \<and>
   concat (map (assert_wire_size to_vec) (snd (raw_observations from_str x))) = [] \<longleftrightarrow>
   transcript_measured from_str to_vec (xe_transcript x)"
proof -
  let ?r = "raw_of_exchange from_str (xe_label x)"
  have "fst (raw_observations from_str x) = [] \<and>
      concat (map (assert_wire_size to_vec) (snd (raw_observations from_str x))) = [] \<longleftrightarrow>
    (\<forall>ie\<in>set (List.enumerate 0 (xe_transcript x)). fst (?r ie) = [] \<and>
       (\<forall>wr\<in>set (snd (?r ie)). assert_wire_size to_vec wr = []))"
    by (auto simp: raw_observations_def Let_def)
  also have "\<dots> \<longleftrightarrow> transcript_measured from_str to_vec (xe_transcript x)"
    unfolding transcript_measured_def all_set_conv_all_nth [of "xe_transcript x"]
    unfolding ball_enumerate exchange_measured by (rule refl)
  finally show ?thesis .
qed

section \<open>Sequences\<close>

definition declared_seq :: "declared \<Rightarrow> string \<Rightarrow> obs_kind \<Rightarrow> json list" where
  "declared_seq d rid kind = (case map_of (dc_seqs d) (rid, kind) of Some js \<Rightarrow> js | None \<Rightarrow> [])"

fun owed :: "obliged \<Rightarrow> obs_kind \<Rightarrow> obliged" where
  "owed c Balances = CompleteSequence"
| "owed c History = c"

lemma empty_sequence: "sequence_spec c [] []"
  by (cases c) (auto simp: fits_at_def intro: exI [of _ 0])

lemma judge_sequences_iff:
  "concat (map (judge_sequence x d c) (btree_set (map fst (dc_seqs d) @ ledger_keys (xe_ledger x)))) = [] \<longleftrightarrow>
   (\<forall>rid kind. sequence_spec (owed c kind) (declared_seq d rid kind) (sequence kind rid (xe_ledger x)))"
proof -
  have one: "judge_sequence x d c (rid, kind) = [] \<longleftrightarrow>
    sequence_spec (owed c kind) (declared_seq d rid kind) (sequence kind rid (xe_ledger x))" for rid kind
    by (cases kind) (simp_all add: judge_sequence_def compare_sequence_iff declared_seq_def)
  have "sequence_spec (owed c kind) (declared_seq d rid kind) (sequence kind rid (xe_ledger x))"
    if "(rid, kind) \<notin> set (map fst (dc_seqs d) @ ledger_keys (xe_ledger x))" for rid kind
  proof -
    from that have "map_of (dc_seqs d) (rid, kind) = None" "map_of (lg_seqs (xe_ledger x)) (rid, kind) = None"
      by (auto simp: map_of_eq_None_iff ledger_keys_def)
    then show ?thesis by (simp add: declared_seq_def sequence_def empty_sequence)
  qed
  note outside = this
  show ?thesis
  proof
    assume "concat (map (judge_sequence x d c) (btree_set (map fst (dc_seqs d) @ ledger_keys (xe_ledger x)))) = []"
    then have "judge_sequence x d c p = []" if "p \<in> set (map fst (dc_seqs d) @ ledger_keys (xe_ledger x))" for p
      using that by simp
    with one outside show "\<forall>rid kind. sequence_spec (owed c kind) (declared_seq d rid kind) (sequence kind rid (xe_ledger x))"
      by blast
  next
    assume "\<forall>rid kind. sequence_spec (owed c kind) (declared_seq d rid kind) (sequence kind rid (xe_ledger x))"
    with one have "judge_sequence x d c p = []" for p by (cases p) simp
    then show "concat (map (judge_sequence x d c) (btree_set (map fst (dc_seqs d) @ ledger_keys (xe_ledger x)))) = []"
      by simp
  qed
qed

section \<open>The live set\<close>

definition live_ok :: "json \<Rightarrow> fold_state \<Rightarrow> obliged \<Rightarrow> bool" where
  "live_ok expect f c \<longleftrightarrow>
     (\<exists>by_resource. json_get ''live'' expect = Some (JObj by_resource) \<and>
        (\<forall>(rid, ids)\<in>set by_resource. \<exists>ls. ids = JArr (map JStr ls) \<and>
           (set ls \<noteq> {} \<longrightarrow> live_ids f rid \<noteq> []) \<and> set (live_ids f rid) \<subseteq> set ls \<and>
           (c = CompleteSequence \<longrightarrow> set ls \<subseteq> set (live_ids f rid))) \<and>
        (\<forall>((a, lid), r)\<in>set (live_set f). \<exists>(rid, ids)\<in>set by_resource. \<exists>ls. ids = JArr (map JStr ls) \<and> lid \<in> set ls))"

lemma declared_ids_iff: "fst (declared_ids what ids) = [] \<longleftrightarrow> (\<exists>ls. ids = map JStr ls)"
proof -
  have "fst (expect_str v what) = [] \<longleftrightarrow> (\<exists>l. v = JStr l)" for v
    by (cases v) (simp_all add: expect_str_def)
  then have "fst (declared_ids what ids) = [] \<longleftrightarrow> (\<forall>v\<in>set ids. \<exists>l. v = JStr l)"
    by (simp add: declared_ids_def Let_def)
  also have "\<dots> \<longleftrightarrow> (\<exists>ls. ids = map JStr ls)"
    by (rule ex_map_conv [symmetric])
  finally show ?thesis .
qed

lemma declared_ids_strings: "declared_ids what (map JStr ls) = ([], btree_set ls)"
  by (induction ls) (simp_all add: declared_ids_def expect_str_def map_filter_def comp_def)

lemma btree_set_Nil_iff [simp]: "btree_set xs = [] \<longleftrightarrow> xs = []"
  by (metis btree_set_set set_empty)

lemma assert_live_resource_iff:
  "fst (assert_live_resource label f c (rid, ids)) = [] \<longleftrightarrow>
     (\<exists>ls. ids = JArr (map JStr ls) \<and>
        (set ls \<noteq> {} \<longrightarrow> live_ids f rid \<noteq> []) \<and> set (live_ids f rid) \<subseteq> set ls \<and>
        (c = CompleteSequence \<longrightarrow> set ls \<subseteq> set (live_ids f rid)))"
proof (cases "\<exists>ls. ids = JArr (map JStr ls)")
  case True
  then obtain ls where ls: "ids = JArr (map JStr ls)" by blast
  have inj: "map JStr ls = map JStr ls' \<longleftrightarrow> ls' = ls" for ls'
    by (metis inj_map_eq_map injI json.inject(4))
  show ?thesis
    by (auto simp: ls assert_live_resource_def expect_array_def declared_ids_strings Let_def filter_empty_conv inj)
next
  case False
  show ?thesis
  proof (cases "\<exists>js. ids = JArr js")
    case True
    then obtain js where js: "ids = JArr js" by blast
    have "fst (declared_ids (label @ '': expect.live.'' @ rid @ ''[]'') js) \<noteq> []"
      using False by (simp add: js declared_ids_iff)
    then have "fst (assert_live_resource label f c (rid, ids)) \<noteq> []"
      by (simp add: js assert_live_resource_def expect_array_def Let_def case_prod_beta)
    with False show ?thesis by blast
  next
    case no: False
    then have "fst (assert_live_resource label f c (rid, ids)) \<noteq> []"
      by (cases ids) (auto simp: assert_live_resource_def expect_array_def)
    with False show ?thesis by blast
  qed
qed

lemma assert_live_resource_declared:
  "ids = JArr (map JStr ls) \<Longrightarrow> snd (assert_live_resource label f c (rid, ids)) = btree_set ls"
  by (simp add: assert_live_resource_def expect_array_def declared_ids_strings Let_def)

lemma assert_live_iff: "assert_live label expect f c = [] \<longleftrightarrow> live_ok expect f c"
proof (cases "\<exists>ms. json_get ''live'' expect = Some (JObj ms)")
  case False
  then have "assert_live label expect f c \<noteq> []"
    by (auto simp: assert_live_def expect_object_def split: option.split json.split)
  with False show ?thesis by (auto simp: live_ok_def)
next
  case True
  then obtain ms where ms: "json_get ''live'' expect = Some (JObj ms)" by blast
  let ?r = "assert_live_resource label f c"
  have start: "assert_live label expect f c = [] \<longleftrightarrow>
    (\<forall>kv\<in>set ms. fst (?r kv) = []) \<and>
    (\<forall>((a, lid), r)\<in>set (live_set f). \<exists>kv\<in>set ms. lid \<in> set (snd (?r kv)))"
    by (auto simp: assert_live_def expect_object_def ms filter_empty_conv Let_def)
  have "(\<forall>((a, lid), r)\<in>set (live_set f). \<exists>kv\<in>set ms. lid \<in> set (snd (?r kv))) \<longleftrightarrow>
    (\<forall>((a, lid), r)\<in>set (live_set f). \<exists>(rid, ids)\<in>set ms. \<exists>ls. ids = JArr (map JStr ls) \<and> lid \<in> set ls)"
    if ok: "\<forall>kv\<in>set ms. fst (?r kv) = []"
  proof -
    have "lid \<in> set (snd (?r kv)) \<longleftrightarrow> (\<exists>ls. snd kv = JArr (map JStr ls) \<and> lid \<in> set ls)" if "kv \<in> set ms" for kv lid
    proof -
      obtain rid ids where kv: "kv = (rid, ids)" by fastforce
      with ok that obtain ls where ls: "ids = JArr (map JStr ls)"
        using assert_live_resource_iff [of label f c rid ids] by auto
      have inj: "map JStr ls = map JStr ls' \<longleftrightarrow> ls' = ls" for ls'
        by (metis inj_map_eq_map injI json.inject(4))
      show ?thesis by (simp add: kv assert_live_resource_declared [OF ls]) (simp add: ls inj)
    qed
    then show ?thesis by (simp add: case_prod_beta)
  qed
  moreover have "(\<forall>kv\<in>set ms. fst (?r kv) = []) \<longleftrightarrow>
    (\<forall>(rid, ids)\<in>set ms. \<exists>ls. ids = JArr (map JStr ls) \<and>
        (set ls \<noteq> {} \<longrightarrow> live_ids f rid \<noteq> []) \<and> set (live_ids f rid) \<subseteq> set ls \<and>
        (c = CompleteSequence \<longrightarrow> set ls \<subseteq> set (live_ids f rid)))"
  proof (rule ball_cong [OF refl])
    fix kv
    show "fst (?r kv) = [] \<longleftrightarrow> (case kv of (rid, ids) \<Rightarrow> \<exists>ls. ids = JArr (map JStr ls) \<and>
        (set ls \<noteq> {} \<longrightarrow> live_ids f rid \<noteq> []) \<and> set (live_ids f rid) \<subseteq> set ls \<and>
        (c = CompleteSequence \<longrightarrow> set ls \<subseteq> set (live_ids f rid)))"
      by (cases kv) (simp only: prod.case assert_live_resource_iff)
  qed
  ultimately show ?thesis unfolding start by (auto simp: live_ok_def ms)
qed

section \<open>The judgement\<close>

definition execution_ok ::
  "(string \<Rightarrow> json option) \<Rightarrow> (json \<Rightarrow> nat option) \<Rightarrow> execution \<Rightarrow> json \<Rightarrow> obliged \<Rightarrow> fold_state \<Rightarrow> bool" where
  "execution_ok from_str to_vec x expect c f \<longleftrightarrow>
     transcript_measured from_str to_vec (xe_transcript x) \<and>
     (\<exists>ledger d. json_get ''ledger'' expect = Some ledger \<and> parse_declared ledger (xe_label x) = ([], d) \<and>
        (\<forall>rid kind. sequence_spec (owed c kind) (declared_seq d rid kind) (sequence kind rid (xe_ledger x))) \<and>
        set (dc_omitted d) \<inter> set (ledger_local_ids (xe_ledger x)) = {}) \<and>
     live_ok expect f c"

lemma assert_execution_iff:
  "assert_execution from_str to_vec x expect c f = [] \<longleftrightarrow> execution_ok from_str to_vec x expect c f"
proof (cases "json_get ''ledger'' expect")
  case None
  then show ?thesis by (auto simp: assert_execution_def execution_ok_def split: prod.split)
next
  case (Some ledger)
  obtain fs d where d: "parse_declared ledger (xe_label x) = (fs, d)" by fastforce
  obtain rf raws where raws: "raw_observations from_str x = (rf, raws)" by fastforce
  have "assert_execution from_str to_vec x expect c f = [] \<longleftrightarrow>
    (rf = [] \<and> concat (map (assert_wire_size to_vec) raws) = []) \<and> fs = [] \<and>
    concat (map (judge_sequence x d c) (btree_set (map fst (dc_seqs d) @ ledger_keys (xe_ledger x)))) = [] \<and>
    set (dc_omitted d) \<inter> set (ledger_local_ids (xe_ledger x)) = {} \<and> assert_live (xe_label x) expect f c = []"
    unfolding assert_execution_def Let_def Some d raws option.case prod.case append_is_Nil_conv
      map_is_Nil_conv filter_empty_conv by blast
  then show ?thesis
    using raws_iff [of from_str x to_vec] unfolding judge_sequences_iff assert_live_iff
    by (simp add: execution_ok_def Some d raws) blast
qed

end
