(* ===== verification/Crawl_Correct.thy ===== *)
theory Crawl_Correct
  imports Judge_Correct Crawl_Run Revisions_Correct "HOL-Library.Sublist"
begin

text \<open>
  One execution, both views: whatever a crawl does, its ledger and its fold are the observations
  of history replies that its own transcript recorded, in the order they crossed the connection.
  Which replies these are is read off the transcript: the drains of the resources, one after the other.
  A clean crawl is one whose adapter gave, on the wire, what the fixture declares.
\<close>

section \<open>The history on the wire\<close>

text \<open>The observations a recorded reply to a history read of one resource was decoded to.\<close>

definition recorded_page :: "'s conn_env \<Rightarrow> string \<Rightarrow> string \<Rightarrow> exchange \<Rightarrow> observation list" where
  "recorded_page env own rid ex =
     (case (ex_frame ex, ex_received_at ex) of
        (Some frame, Some received_at) \<Rightarrow>
          (case history_read (ce_from_str env) (ce_err_text env) (ce_to_vec env) own
                  [\<lparr>qy_resource_id = rid, qy_page = None\<rparr>] (Inr (frame, received_at)) of
             Inr reply \<Rightarrow> hrd_observations reply
           | Inl _ \<Rightarrow> [])
      | _ \<Rightarrow> [])"

text \<open>Drained exchanges, in order, each with its resource.\<close>

type_synonym drained = "(string \<times> exchange) list"

definition on_the_wire :: "'s conn_env \<Rightarrow> string \<Rightarrow> drained \<Rightarrow> observation list" where
  "on_the_wire env own ds = concat (map (\<lambda>(rid, ex). recorded_page env own rid ex) ds)"

definition history_entry :: "observation \<Rightarrow> ledger_entry" where
  "history_entry ob = \<lparr>le_local_id = Some (ob_local_id ob), le_json = stable_view (to_json ser_observation ob)\<rparr>"

definition wire_view :: "observation list \<Rightarrow> execution \<Rightarrow> bool" where
  "wire_view obs x \<longleftrightarrow>
     xe_fold x = ingest_all obs \<and>
     (\<forall>rid. sequence History rid (xe_ledger x) = map history_entry (filter (\<lambda>ob. ob_resource_id ob = rid) obs))"

lemma sequence_count_frame [simp]: "sequence k r (count_frame kind rid lg) = sequence k r lg"
  by (simp add: sequence_def count_frame_def)

lemma sequence_push:
  "sequence k r (ledger_push kind rid lid j lg) =
     (if (r, k) = (rid, kind) then sequence k r lg @ [\<lparr>le_local_id = lid, le_json = j\<rparr>] else sequence k r lg)"
  by (auto simp: sequence_def ledger_push_def)

section \<open>One page\<close>

lemma push_observation_view:
  "wire_view obs (cw_exec s) \<Longrightarrow> wire_view (obs @ [ob]) (cw_exec (push_observation ob s))"
  by (auto simp: wire_view_def push_observation_def Let_def on_ledger_def on_exec_def sequence_push history_entry_def)

lemma push_observations_view:
  "wire_view obs (cw_exec s) \<Longrightarrow> wire_view (obs @ new) (cw_exec (fold push_observation new s))"
proof (induction new arbitrary: obs s)
  case (Cons ob new)
  then show ?case using Cons.IH [OF push_observation_view, of obs s ob] by simp
qed simp

lemma push_observation_handle [simp]: "cw_handle (push_observation ob s) = cw_handle s"
  by (simp add: push_observation_def Let_def on_ledger_def on_exec_def)

lemma push_observations_handle [simp]: "cw_handle (fold push_observation obs s) = cw_handle s"
  by (induction obs arbitrary: s) simp_all

lemma history_read_queries:
  "map qy_resource_id qs = map qy_resource_id qs' \<Longrightarrow>
   history_read fs et tv own qs r = history_read fs et tv own qs' r"
  by (simp add: history_read_def)

lemma history_page_exec:
  "cw_exec (history_page rid reply s) =
     cw_exec (fold push_observation (hrd_observations reply)
       (fail (assert_status_coverage [rid] (map (to_json ser_resource_status) (hrd_statuses reply)))
         (on_ledger (count_frame History rid) s)))"
  by (simp add: history_page_def Let_def split: prod.split)

section \<open>Failures are never taken back\<close>

definition grows :: "'s crawl \<Rightarrow> 's crawl \<Rightarrow> bool" where
  "grows s s' \<longleftrightarrow> (\<exists>fs. cw_failures s' = cw_failures s @ fs)"

text \<open>A crash is tolerated or blamed.\<close>

definition crash_blamed :: "bool \<Rightarrow> 's crawl \<Rightarrow> bool" where
  "crash_blamed killed s \<longleftrightarrow> (xe_crashed (cw_exec s) \<longrightarrow> killed \<or> cw_failures s \<noteq> [])"

definition step_ok :: "bool \<Rightarrow> 's crawl \<Rightarrow> 's crawl \<Rightarrow> bool" where
  "step_ok killed s s' \<longleftrightarrow> grows s s' \<and> (crash_blamed killed s \<longrightarrow> crash_blamed killed s')"

lemma step_ok_refl: "step_ok k s s"
  by (simp add: step_ok_def grows_def)

lemma step_ok_trans: "step_ok k s s' \<Longrightarrow> step_ok k s' s'' \<Longrightarrow> step_ok k s s''"
  by (auto simp: step_ok_def grows_def)

lemma step_ok_clean: "step_ok k s s' \<Longrightarrow> cw_failures s' = [] \<Longrightarrow> cw_failures s = []"
  by (auto simp: step_ok_def grows_def)

lemma step_ok_grow:
  assumes "\<exists>fs. cw_failures s' = cw_failures s @ fs" "xe_crashed (cw_exec s') = xe_crashed (cw_exec s)"
  shows "step_ok k s s'"
  using assms by (auto simp: step_ok_def grows_def crash_blamed_def)

lemma ask_step: "ask f s = (r, s') \<Longrightarrow> step_ok k s s'"
  by (rule step_ok_grow) (auto simp: ask_def split: prod.splits)

lemma quiet_steps:
  "step_ok k s (fail fs s)" "step_ok k s (verify ops s)" "step_ok k s (saw_extra js s)"
  "step_ok k s (s\<lparr>cw_statuses := m\<rparr>)" "step_ok k s (s\<lparr>cw_status_read := js\<rparr>)" "step_ok k s (s\<lparr>cw_across := a\<rparr>)"
  "step_ok k s (on_exec (\<lambda>x. x\<lparr>xe_resource_ids := ids\<rparr>) s)" "step_ok k s (on_ledger g s)"
  "step_ok k s (expect_key expect key judge s)"
  by (rule step_ok_grow;
      simp add: fail_def verify_def saw_extra_def on_exec_def on_ledger_def expect_key_def split: option.split)+

lemma crashed_step: "killed \<or> fs \<noteq> [] \<Longrightarrow>
  step_ok killed s (if killed then on_exec (\<lambda>x. x\<lparr>xe_crashed := True\<rparr>) s
                    else fail fs (on_exec (\<lambda>x. x\<lparr>xe_crashed := True\<rparr>) s))"
  by (auto simp: step_ok_def grows_def crash_blamed_def fail_def on_exec_def)

lemma fold_step: "(\<And>x s. step_ok k s (f x s)) \<Longrightarrow> step_ok k s (fold f xs s)"
proof (induction xs arbitrary: s)
  case (Cons x xs)
  then show ?case by (simp add: step_ok_trans [of k s "f x s"])
qed (simp add: step_ok_refl)

lemma push_balance_step: "step_ok k s (push_balance b s)"
  by (rule step_ok_grow) (simp_all add: push_balance_def Let_def on_ledger_def on_exec_def saw_extra_def)

lemma push_observation_step: "step_ok k s (push_observation ob s)"
  by (rule step_ok_grow) (simp_all add: push_observation_def Let_def on_ledger_def on_exec_def)

lemma history_page_step: "step_ok k s (history_page rid reply s)"
proof -
  obtain res nxt where "page_of (hrd_statuses reply) = (res, nxt)" by fastforce
  then show ?thesis
    unfolding history_page_def Let_def prod.case
    by (auto intro!: quiet_steps(6) [THEN step_ok_trans [rotated]] fold_step push_observation_step
        intro: step_ok_trans [OF quiet_steps(8)] step_ok_trans [OF quiet_steps(1)])
qed

section \<open>Draining one resource\<close>

definition page_params :: "string \<Rightarrow> page_request option \<Rightarrow> json" where
  "page_params rid page = json_value (ser_history_read_params [\<lparr>qy_resource_id = rid, qy_page = page\<rparr>])"

definition reply_in :: "'s conn_env \<Rightarrow> string \<Rightarrow> string \<Rightarrow> exchange \<Rightarrow> host_history option" where
  "reply_in env own rid ex =
     (case (ex_frame ex, ex_received_at ex) of
        (Some frame, Some received_at) \<Rightarrow>
          res_ok (history_read (ce_from_str env) (ce_err_text env) (ce_to_vec env) own
                  [\<lparr>qy_resource_id = rid, qy_page = None\<rparr>] (Inr (frame, received_at)))
      | _ \<Rightarrow> None)"

text \<open>
  The exchanges of one drain: each asks for the page that the reply before it named, and only the
  last may have no usable reply. A drain that went to the end closes with a reply that names no
  next page.
\<close>

fun follows :: "'s conn_env \<Rightarrow> string \<Rightarrow> string \<Rightarrow> page_request option \<Rightarrow> exchange list \<Rightarrow> bool" where
  "follows env own rid page [] \<longleftrightarrow> True"
| "follows env own rid page (ex # exs) \<longleftrightarrow>
     ex_op ex = OP_HISTORY_READ \<and> ex_params ex = page_params rid page \<and>
     (exs = [] \<or>
      (\<exists>reply p. reply_in env own rid ex = Some reply \<and> snd (page_of (hrd_statuses reply)) = Some p \<and>
                 follows env own rid (Some p) exs))"

definition to_the_end :: "'s conn_env \<Rightarrow> string \<Rightarrow> string \<Rightarrow> exchange list \<Rightarrow> bool" where
  "to_the_end env own rid exs \<longleftrightarrow> exs \<noteq> [] \<and>
     (\<exists>reply. reply_in env own rid (last exs) = Some reply \<and> snd (page_of (hrd_statuses reply)) = None)"

lemma recorded_page_reply:
  "recorded_page env own rid ex = (case reply_in env own rid ex of Some reply \<Rightarrow> hrd_observations reply | None \<Rightarrow> [])"
  by (auto simp: recorded_page_def reply_in_def split: option.split sum.split)

text \<open>
  The page a recorded reply names as the next one, and the drains of a transcript, read off it: a
  drain takes exchanges as long as each reply names a next page, up to the limit of pages; the
  drains of several resources follow each other.
\<close>

definition next_of :: "'s conn_env \<Rightarrow> string \<Rightarrow> string \<Rightarrow> exchange \<Rightarrow> page_request option" where
  "next_of env own rid ex = Option.bind (reply_in env own rid ex) (\<lambda>reply. snd (page_of (hrd_statuses reply)))"

fun take_drain :: "'s conn_env \<Rightarrow> string \<Rightarrow> string \<Rightarrow> nat \<Rightarrow> exchange list \<Rightarrow> exchange list \<times> exchange list" where
  "take_drain env own rid 0 es = ([], es)"
| "take_drain env own rid (Suc n) [] = ([], [])"
| "take_drain env own rid (Suc n) (ex # es) =
     (if next_of env own rid ex = None then ([ex], es)
      else (case take_drain env own rid n es of (exs, rest) \<Rightarrow> (ex # exs, rest)))"

type_synonym drains = "(string \<times> exchange list) list"

fun take_drains :: "'s conn_env \<Rightarrow> string \<Rightarrow> string list \<Rightarrow> exchange list \<Rightarrow> drains \<times> exchange list" where
  "take_drains env own [] es = ([], es)"
| "take_drains env own (rid # rids) es =
     (case take_drain env own rid MAX_CRAWL_PAGES es of
        (exs, rest) \<Rightarrow> (case take_drains env own rids rest of (drains, rest') \<Rightarrow> ((rid, exs) # drains, rest')))"

text \<open>A drain that is over, whatever follows it in the transcript.\<close>

definition drain_over :: "'s conn_env \<Rightarrow> string \<Rightarrow> string \<Rightarrow> nat \<Rightarrow> exchange list \<Rightarrow> bool" where
  "drain_over env own rid n exs \<longleftrightarrow> length exs = n \<or> exs \<noteq> [] \<and> next_of env own rid (last exs) = None"

lemma take_drain_follows:
  assumes "follows env own rid page exs" "length exs \<le> n" "drain_over env own rid n exs \<or> rest = []"
  shows "take_drain env own rid n (exs @ rest) = (exs, rest)"
  using assms
proof (induction exs arbitrary: n page)
  case Nil
  then show ?case by (cases n) (auto simp: drain_over_def)
next
  case (Cons ex exs)
  then obtain m where n: "n = Suc m" "length exs \<le> m" by (cases n) auto
  show ?case
  proof (cases "next_of env own rid ex")
    case None
    then have "exs = []" using Cons.prems(1) by (auto simp: next_of_def)
    with None show ?thesis by (simp add: n)
  next
    case (Some p)
    have f: "\<exists>page. follows env own rid page exs" using Cons.prems(1) by auto
    have "drain_over env own rid m exs \<or> rest = []" using Cons.prems(3) Some by (auto simp: drain_over_def n split: if_splits)
    then have "take_drain env own rid m (exs @ rest) = (exs, rest)" using Cons.IH n(2) f by blast
    with Some show ?thesis by (simp add: n)
  qed
qed

lemma take_drains_map: "map fst (fst (take_drains env own rids es)) = rids"
  by (induction rids arbitrary: es) (simp_all add: case_prod_beta)

lemma take_drain_nothing: "take_drain env own rid n [] = ([], [])"
  by (cases n) simp_all

lemma take_drains_nothing: "take_drains env own rids [] = (map (\<lambda>rid. (rid, [])) rids, [])"
  by (induction rids) (simp_all add: take_drain_nothing)

text \<open>A connection that is over records nothing any more.\<close>

definition closed :: "'s conn_env \<Rightarrow> 's crawl \<Rightarrow> bool" where
  "closed env s \<longleftrightarrow> ce_terminal env (fst (hd_conn (cw_handle s))) \<noteq> None"

lemma handle_call_closed:
  "handle_call env op params decode h = (r, h') \<Longrightarrow> ce_terminal env (fst (hd_conn h)) \<noteq> None \<Longrightarrow>
   hd_conn h' = hd_conn h"
  by (auto simp: handle_call_def mux_call_def split: option.splits prod.splits)

lemma handle_call_open:
  "handle_call env op params decode h = (r, h') \<Longrightarrow> ce_terminal env (fst (hd_conn h)) = None \<Longrightarrow>
   snd (hd_conn h) = Some t \<Longrightarrow> snd (hd_conn h') = Some (t @ es) \<Longrightarrow> es \<noteq> []"
  by (auto simp: handle_call_def mux_call_def transcript_push_def transcript_fill_def split: prod.splits sum.splits)

text \<open>What a stretch of the crawl that drained these exchanges did.\<close>

definition own_of :: "'s crawl \<Rightarrow> string" where
  "own_of s = hr_adapter_id (hd_hello (cw_handle s))"

definition view_grows :: "observation list \<Rightarrow> 's crawl \<Rightarrow> 's crawl \<Rightarrow> bool" where
  "view_grows new s s' \<longleftrightarrow> (\<forall>obs. wire_view obs (cw_exec s) \<longrightarrow> wire_view (obs @ new) (cw_exec s'))"

definition did :: "'s conn_env \<Rightarrow> drained \<Rightarrow> exchange list \<Rightarrow> 's crawl \<Rightarrow> 's crawl \<Rightarrow> bool" where
  "did env ds es s s' \<longleftrightarrow>
     (\<forall>t. snd (hd_conn (cw_handle s)) = Some t \<longrightarrow> snd (hd_conn (cw_handle s')) = Some (t @ es)) \<and>
     hd_hello (cw_handle s') = hd_hello (cw_handle s) \<and>
     view_grows (on_the_wire env (own_of s) ds) s s' \<and> (closed env s \<longrightarrow> es = [] \<and> closed env s')"

lemma did_trans:
  assumes "did env ds es s s'" "did env ds' es' s' s''"
  shows "did env (ds @ ds') (es @ es') s s''"
  using assms
  by (simp add: did_def view_grows_def on_the_wire_def own_of_def append_assoc [symmetric] del: append_assoc)

lemma did_nothing:
  assumes "cw_handle s' = cw_handle s" "xe_fold (cw_exec s') = xe_fold (cw_exec s)"
    "\<And>rid. sequence History rid (xe_ledger (cw_exec s')) = sequence History rid (xe_ledger (cw_exec s))"
  shows "did env [] [] s s'"
  using assms by (simp add: did_def view_grows_def wire_view_def on_the_wire_def closed_def)

lemma ask_history:
  assumes "ask (handle_history_read env [\<lparr>qy_resource_id = rid, qy_page = page\<rparr>]) s = (r, s')"
    and "snd (hd_conn (cw_handle s)) = Some t"
  obtains es where "did env [] es s s'" "follows env (own_of s) rid page es" "length es \<le> 1"
    "\<And>reply. r = Inr reply \<Longrightarrow> \<exists>ex. es = [ex] \<and> reply_in env (own_of s) rid ex = Some reply"
    "\<And>e. r = Inl e \<Longrightarrow> on_the_wire env (own_of s) (map (Pair rid) es) = []"
    "cw_exec s' = cw_exec s" "cw_failures s' = cw_failures s" "cw_across s' = cw_across s"
    "es = [] \<Longrightarrow> closed env s'" "\<And>e. r = Inl e \<Longrightarrow> \<forall>ex\<in>set es. reply_in env (own_of s) rid ex = None"
proof -
  let ?decode = "history_read (ce_from_str env) (ce_err_text env) (ce_to_vec env) (own_of s)"
  obtain h where h: "handle_history_read env [\<lparr>qy_resource_id = rid, qy_page = page\<rparr>] (cw_handle s) = (r, h)"
      "s' = s\<lparr>cw_handle := h\<rparr>"
    using assms(1) by (auto simp: ask_def split: prod.splits)
  obtain result es where r: "r = ?decode [\<lparr>qy_resource_id = rid, qy_page = page\<rparr>] result"
      "hd_hello h = hd_hello (cw_handle s)" "snd (hd_conn h) = Some (t @ es)"
      "es = [] \<and> (\<exists>e. result = Inl e) \<or>
       es = [\<lparr>ex_op = OP_HISTORY_READ, ex_params = page_params rid page,
              ex_frame = res_ok (map_sum id fst result), ex_received_at = res_ok (map_sum id snd result)\<rparr>]"
    using handle_call_transcript [OF h(1) [unfolded handle_history_read_def] assms(2)]
    unfolding page_params_def own_of_def by metis
  have q: "r = ?decode [\<lparr>qy_resource_id = rid, qy_page = None\<rparr>] result"
    using r(1) history_read_queries [of "[\<lparr>qy_resource_id = rid, qy_page = page\<rparr>]" "[\<lparr>qy_resource_id = rid, qy_page = None\<rparr>]"]
    by simp
  have bad: "?decode qs (Inl e) = Inl e" for qs e
    by (simp add: history_read_def call_typed_with_receipt_def)
  have reply: "reply_in env (own_of s) rid ex = res_ok r" if "es = [ex]" for ex
    using that r(4) q bad by (cases result) (auto simp: reply_in_def)
  note called = h(1) [unfolded handle_history_read_def]
  have over: "es = [] \<and> closed env s'" if c: "closed env s"
  proof -
    have "hd_conn h = hd_conn (cw_handle s)" by (rule handle_call_closed [OF called c [unfolded closed_def]])
    then show ?thesis using c r(3) assms(2) h(2) by (simp add: closed_def)
  qed
  have silent: "closed env s" if "es = []"
  proof (rule ccontr)
    assume "\<not> closed env s"
    then have "es \<noteq> []" by (intro handle_call_open [OF called _ assms(2) r(3)]) (simp add: closed_def)
    with that show False by simp
  qed
  show thesis
  proof (rule that [of es])
    show "did env [] es s s'" using assms(2) h(2) r(2,3) over by (simp add: did_def view_grows_def on_the_wire_def)
    show "closed env s'" if "es = []" using over silent [OF that] by simp
    show "\<forall>ex\<in>set es. reply_in env (own_of s) rid ex = None" if "r = Inl e" for e
      using that r(4) reply by auto
    show "follows env (own_of s) rid page es" "length es \<le> 1" using r(4) by auto
    show "\<exists>ex. es = [ex] \<and> reply_in env (own_of s) rid ex = Some reply" if "r = Inr reply" for reply
      using that r(4) reply q bad by (cases result) auto
    show "on_the_wire env (own_of s) (map (Pair rid) es) = []" if "r = Inl e" for e
      using that r(4) reply by (auto simp: on_the_wire_def recorded_page_reply)
    show "cw_exec s' = cw_exec s" "cw_failures s' = cw_failures s" "cw_across s' = cw_across s"
      using h(2) by simp_all
  qed
qed

lemma history_page_did:
  assumes "reply_in env (own_of s) rid ex = Some reply"
  shows "did env [(rid, ex)] [] s (history_page rid reply s)"
proof -
  define s'' where "s'' = fail (assert_status_coverage [rid] (map (to_json ser_resource_status) (hrd_statuses reply)))
    (on_ledger (count_frame History rid) s)"
  have "wire_view obs (cw_exec s'') \<longleftrightarrow> wire_view obs (cw_exec s)" for obs
    by (simp add: s''_def wire_view_def fail_def on_ledger_def on_exec_def)
  then have "view_grows (hrd_observations reply) s (history_page rid reply s)"
    using push_observations_view [of _ s'' "hrd_observations reply"]
    by (simp add: view_grows_def history_page_exec s''_def)
  moreover have "cw_handle (history_page rid reply s) = cw_handle s"
    by (simp add: history_page_def Let_def fail_def on_ledger_def on_exec_def split: prod.split)
  ultimately show ?thesis using assms by (simp add: did_def on_the_wire_def recorded_page_reply closed_def)
qed

lemma push_observations_crashed: "xe_crashed (cw_exec (fold push_observation obs s)) = xe_crashed (cw_exec s)"
  by (induction obs arbitrary: s) (simp_all add: push_observation_def Let_def on_ledger_def on_exec_def)

lemma history_page_crashed: "xe_crashed (cw_exec (history_page rid reply s)) = xe_crashed (cw_exec s)"
  by (simp add: history_page_exec push_observations_crashed) (simp add: fail_def on_ledger_def on_exec_def)

lemma did_fail: "did env [] [] s (fail fs s)"
  by (rule did_nothing) (simp_all add: fail_def)

lemma did_crash: "did env [] [] s (on_exec (\<lambda>x. x\<lparr>xe_crashed := b\<rparr>) s)"
  by (rule did_nothing) (simp_all add: on_exec_def)

lemma did_step0: "did env [] es s s' \<Longrightarrow> did env [] [] s' s'' \<Longrightarrow> did env [] es s s''"
  using did_trans [of env "[]" es s s' "[]" "[]" s''] by simp

lemma did_quiet: "on_the_wire env (own_of s) ds = [] \<Longrightarrow> did env [] es s s' \<Longrightarrow> did env ds es s s'"
  by (simp add: did_def) (simp add: on_the_wire_def)

lemma follows_cons:
  "follows env own rid page [ex] \<Longrightarrow> reply_in env own rid ex = Some reply \<Longrightarrow>
   snd (page_of (hrd_statuses reply)) = Some p \<Longrightarrow> follows env own rid (Some p) es \<Longrightarrow>
   follows env own rid page (ex # es)"
  by simp

lemma page_failures_grow: "\<exists>fs. cw_failures (history_page rid reply s) = cw_failures s @ fs"
  using history_page_step [of False s rid reply] by (simp add: step_ok_def grows_def)

lemma drain_history_did:
  assumes "drain_history env rid tol n page s = (statuses, s')" "snd (hd_conn (cw_handle s)) = Some t"
  shows "\<exists>es. did env (map (Pair rid) es) es s s' \<and> follows env (own_of s) rid page es \<and> length es \<le> n \<and>
     step_ok tol s s' \<and>
     (cw_failures s' = cw_failures s \<longrightarrow> xe_crashed (cw_exec s') \<or> to_the_end env (own_of s) rid es) \<and>
     (drain_over env (own_of s) rid n es \<or> closed env s') \<and>
     (xe_crashed (cw_exec s') \<longrightarrow> xe_crashed (cw_exec s) \<or> \<not> to_the_end env (own_of s) rid es)"
  using assms
proof (induction n arbitrary: page s statuses t)
  case 0
  then have "s' = fail [failure_new ''setup'' (Message ''exceeded MAX_PAGES pages -- treating as hung'' [label_of s, JStr rid])] s"
    by simp
  then show ?case
    by (intro exI [of _ "[]"]) (simp add: did_fail quiet_steps drain_over_def, simp add: fail_def)
next
  case (Suc n)
  obtain r s1 where asked: "ask (handle_history_read env [\<lparr>qy_resource_id = rid, qy_page = page\<rparr>]) s = (r, s1)"
    by fastforce
  obtain es where es: "did env [] es s s1" "follows env (own_of s) rid page es" "length es \<le> 1"
    "\<And>reply. r = Inr reply \<Longrightarrow> \<exists>ex. es = [ex] \<and> reply_in env (own_of s) rid ex = Some reply"
    "\<And>e. r = Inl e \<Longrightarrow> on_the_wire env (own_of s) (map (Pair rid) es) = []"
    "cw_exec s1 = cw_exec s" "cw_failures s1 = cw_failures s" "cw_across s1 = cw_across s"
    "es = [] \<Longrightarrow> closed env s1" "\<And>e. r = Inl e \<Longrightarrow> \<forall>ex\<in>set es. reply_in env (own_of s) rid ex = None"
    using ask_history [OF asked Suc.prems(2)] by blast
  have own: "own_of s1 = own_of s" using es(1) by (simp add: did_def own_of_def)
  have step: "step_ok tol s s1" by (rule ask_step [OF asked])
  show ?case
  proof (cases r)
    case (Inl e)
    have failed: "\<exists>s2. s' = s2 \<and> did env [] [] s1 s2 \<and> step_ok tol s1 s2 \<and>
      (cw_failures s2 = cw_failures s1 \<longrightarrow> xe_crashed (cw_exec s2))"
    proof (cases "\<exists>status. e = AdapterCrashed status")
      case True
      then have "s' = (if tol then on_exec (\<lambda>x. x\<lparr>xe_crashed := True\<rparr>) s1
        else fail [failure_new ''A2'' (Message ''the adapter died part-way through the read'' [label_of s1, JStr rid])]
          (on_exec (\<lambda>x. x\<lparr>xe_crashed := True\<rparr>) s1))"
        using Suc.prems(1) asked Inl by (auto simp: Let_def label_of_def on_exec_def)
      then show ?thesis
        by (auto simp: crashed_step did_crash intro: did_step0 [OF did_crash did_fail])
           (auto simp: on_exec_def fail_def crashed_step)
    next
      case False
      then have "s' = fail [failure_new ''A2'' (Message ''history.read failed'' [label_of s1, JStr rid, JStr (host_error_text e)])] s1"
        using Suc.prems(1) asked Inl by (cases e) auto
      then show ?thesis by (simp add: did_fail quiet_steps) (simp add: fail_def)
    qed
    then obtain s2 where s2: "s' = s2" "did env [] [] s1 s2" "step_ok tol s1 s2"
      "cw_failures s2 = cw_failures s1 \<longrightarrow> xe_crashed (cw_exec s2)" by blast
    have none: "\<forall>ex\<in>set es. reply_in env (own_of s) rid ex = None" by (rule es(10) [OF Inl])
    have "drain_over env (own_of s) rid (Suc n) es \<or> closed env s'"
    proof (cases "es = []")
      case True
      then show ?thesis using es(9) s2(1,2) by (simp add: did_def)
    next
      case False
      then show ?thesis using none by (simp add: drain_over_def next_of_def)
    qed
    moreover have "\<not> to_the_end env (own_of s) rid es" using none by (auto simp: to_the_end_def)
    moreover have "did env (map (Pair rid) es) es s s'"
      unfolding s2(1) by (rule did_quiet [OF es(5) [OF Inl] did_step0 [OF es(1) s2(2)]])
    moreover have "step_ok tol s s'" unfolding s2(1) by (rule step_ok_trans [OF step s2(3)])
    moreover have "cw_failures s' = cw_failures s \<longrightarrow> xe_crashed (cw_exec s')" using s2(1,4) es(7) by simp
    moreover have "length es \<le> Suc n" using es(3) by simp
    ultimately show ?thesis using es(2) by blast
  next
    case (Inr reply)
    then obtain ex where ex: "es = [ex]" "reply_in env (own_of s) rid ex = Some reply" using es(4) by blast
    let ?s2 = "history_page rid reply s1"
    have page: "did env [(rid, ex)] [ex] s ?s2" "step_ok tol s ?s2"
      using did_trans [OF es(1) history_page_did [of env s1 rid ex reply]] ex own
        step_ok_trans [OF step history_page_step] by simp_all
    show ?thesis
    proof (cases "snd (page_of (hrd_statuses reply))")
      case None
      then have "s' = ?s2" using Suc.prems(1) asked Inr by (simp add: Let_def)
      moreover have "drain_over env (own_of s) rid (Suc n) [ex]" using ex(2) None by (simp add: drain_over_def next_of_def)
      moreover have "xe_crashed (cw_exec ?s2) = xe_crashed (cw_exec s)" by (simp add: history_page_crashed es(6))
      ultimately show ?thesis using page es(2) ex None by (intro exI [of _ "[ex]"]) (simp add: to_the_end_def)
    next
      case (Some p)
      obtain rest where rest: "drain_history env rid tol n (Some p) ?s2 = (rest, s')"
        using Suc.prems(1) asked Inr Some by (auto simp: Let_def split: prod.splits)
      obtain t2 where t2: "snd (hd_conn (cw_handle ?s2)) = Some t2"
        using page(1) Suc.prems(2) by (auto simp: did_def)
      obtain es2 where es2: "did env (map (Pair rid) es2) es2 ?s2 s'" "follows env (own_of ?s2) rid (Some p) es2"
          "length es2 \<le> n" "step_ok tol ?s2 s'"
          "cw_failures s' = cw_failures ?s2 \<longrightarrow> xe_crashed (cw_exec s') \<or> to_the_end env (own_of ?s2) rid es2"
          "drain_over env (own_of ?s2) rid n es2 \<or> closed env s'"
          "xe_crashed (cw_exec s') \<longrightarrow> xe_crashed (cw_exec ?s2) \<or> \<not> to_the_end env (own_of ?s2) rid es2"
        using Suc.IH [OF rest t2] by blast
      have own2: "own_of ?s2 = own_of s" using page(1) by (simp add: did_def own_of_def)
      have "cw_failures ?s2 = cw_failures s" if "cw_failures s' = cw_failures s"
      proof -
        obtain fs gs where "cw_failures ?s2 = cw_failures s @ fs" "cw_failures s' = cw_failures ?s2 @ gs"
          using page(2) es2(4) by (auto simp: step_ok_def grows_def)
        with that show ?thesis by simp
      qed
      then have "cw_failures s' = cw_failures s \<longrightarrow> xe_crashed (cw_exec s') \<or> to_the_end env (own_of s) rid (ex # es2)"
        using es2(5) own2 by (auto simp: to_the_end_def)
      moreover have "follows env (own_of s) rid page (ex # es2)"
        using follows_cons [OF _ ex(2) Some] es(2) es2(2) ex(1) own2 by simp
      moreover have "drain_over env (own_of s) rid (Suc n) (ex # es2) \<or> closed env s'"
        using es2(6) own2 by (auto simp: drain_over_def)
      moreover have "xe_crashed (cw_exec s') \<longrightarrow> xe_crashed (cw_exec s) \<or> \<not> to_the_end env (own_of s) rid (ex # es2)"
        using es2(7) own2 ex(2) Some by (auto simp: to_the_end_def history_page_crashed es(6))
      moreover have "did env (map (Pair rid) (ex # es2)) (ex # es2) s s'"
        using did_trans [OF page(1) es2(1)] by simp
      ultimately show ?thesis
        using es2(3) step_ok_trans [OF page(2) es2(4)] by (intro exI [of _ "ex # es2"]) simp
    qed
  qed
qed

section \<open>The stages\<close>

text \<open>A stage that adds nothing to the history, whatever it asks.\<close>

definition kept :: "'s crawl \<Rightarrow> 's crawl \<Rightarrow> bool" where
  "kept s s' \<longleftrightarrow>
     xe_resource_ids (cw_exec s') = xe_resource_ids (cw_exec s) \<and> xe_label (cw_exec s') = xe_label (cw_exec s) \<and>
     (cw_across s = None \<longrightarrow> cw_across s' = None)"

definition stage :: "'s conn_env \<Rightarrow> bool \<Rightarrow> 's crawl \<Rightarrow> 's crawl \<Rightarrow> bool" where
  "stage env killed s s' \<longleftrightarrow> (\<exists>es. did env [] es s s') \<and> step_ok killed s s' \<and> kept s s'"

lemma kept_trans: "kept s s' \<Longrightarrow> kept s' s'' \<Longrightarrow> kept s s''"
  by (auto simp: kept_def)

lemma stage_refl: "stage env k s s"
  by (auto simp: stage_def step_ok_refl kept_def intro: did_nothing)

lemma stage_trans: "stage env k s s' \<Longrightarrow> stage env k s' s'' \<Longrightarrow> stage env k s s''"
  using did_trans [of env "[]" _ s s' "[]" _ s''] step_ok_trans [of k s s' s''] kept_trans [of s s' s'']
  by (auto simp: stage_def)

lemma stage_quiet:
  assumes "cw_handle s' = cw_handle s" "xe_fold (cw_exec s') = xe_fold (cw_exec s)"
    "\<And>rid. sequence History rid (xe_ledger (cw_exec s')) = sequence History rid (xe_ledger (cw_exec s))"
    "step_ok k s s'" "kept s s'"
  shows "stage env k s s'"
  using did_nothing [OF assms(1-3)] assms(4,5) by (auto simp: stage_def)

lemma stage_ask_call:
  assumes "ask (handle_call env op params decode) s = (r, s')"
  shows "stage env k s s'"
proof -
  obtain h where h: "handle_call env op params decode (cw_handle s) = (r, h)" "s' = s\<lparr>cw_handle := h\<rparr>"
    using assms by (auto simp: ask_def split: prod.splits)
  have "\<exists>es. did env [] es s s'"
  proof (cases "snd (hd_conn (cw_handle s))")
    case None
    have "hd_hello h = hd_hello (cw_handle s)" using h(1) by (auto simp: handle_call_def split: prod.splits)
    moreover have "closed env s \<Longrightarrow> closed env s'" using handle_call_closed [OF h(1)] h(2) by (simp add: closed_def)
    ultimately show ?thesis using None h(2) by (intro exI [of _ "[]"]) (simp add: did_def view_grows_def on_the_wire_def)
  next
    case (Some t)
    obtain result es where e: "hd_hello h = hd_hello (cw_handle s)" "snd (hd_conn h) = Some (t @ es)"
      using handle_call_transcript [OF h(1) Some] by metis
    have "es = [] \<and> closed env s'" if c: "closed env s"
      using handle_call_closed [OF h(1) c [unfolded closed_def]] c e(2) Some h(2) by (simp add: closed_def)
    with Some h(2) e show ?thesis by (auto simp: did_def view_grows_def on_the_wire_def intro!: exI [of _ es])
  qed
  moreover have "kept s s'" using h(2) by (simp add: kept_def)
  ultimately show ?thesis using ask_step [OF assms] by (auto simp: stage_def)
qed

lemma stage_asks:
  "ask (handle_resources_list env) s = (r1, s') \<Longrightarrow> stage env k s s'"
  "ask (handle_status_read env ids) s = (r2, s') \<Longrightarrow> stage env k s s'"
  "ask (handle_call_raw env op params) s = (r3, s') \<Longrightarrow> stage env k s s'"
  "ask (handle_balances_read env ids) s = (r4, s') \<Longrightarrow> stage env k s s'"
  "ask (handle_history_read env qs) s = (r5, s') \<Longrightarrow> stage env k s s'"
  unfolding handle_resources_list_def handle_status_read_def handle_call_raw_def
  by (auto simp: handle_balances_read_def [abs_def] handle_history_read_def [abs_def] ask_def
      intro: stage_ask_call [unfolded ask_def])

lemma stage_simple:
  "stage env k s (fail fs s)" "stage env k s (verify ops s)" "stage env k s (saw_extra js s)"
  "stage env k s (s\<lparr>cw_statuses := m\<rparr>)" "stage env k s (s\<lparr>cw_status_read := js\<rparr>)"
  "stage env k s (expect_key expect key judge s)"
  "stage env k s (push_balance b s)"
  "stage env k s (on_ledger (fold (count_frame kind) rids) s)"
proof -
  have frames: "sequence History rid (fold (count_frame kind) rids lg) = sequence History rid lg" for rid lg
    by (induction rids arbitrary: lg) simp_all
  show "stage env k s (fail fs s)" "stage env k s (verify ops s)" "stage env k s (saw_extra js s)"
    "stage env k s (s\<lparr>cw_statuses := m\<rparr>)" "stage env k s (s\<lparr>cw_status_read := js\<rparr>)"
    "stage env k s (expect_key expect key judge s)" "stage env k s (push_balance b s)"
    "stage env k s (on_ledger (fold (count_frame kind) rids) s)"
    by (rule stage_quiet;
        (rule quiet_steps push_balance_step |
         simp add: fail_def verify_def saw_extra_def on_exec_def expect_key_def push_balance_def on_ledger_def
           sequence_push Let_def frames kept_def split: option.split))+
qed

lemma stage_fold: "(\<And>x s. stage env k s (f x s)) \<Longrightarrow> stage env k s (fold f xs s)"
proof (induction xs arbitrary: s)
  case (Cons x xs)
  then show ?case by (simp add: stage_trans [of env k s "f x s"])
qed (simp add: stage_refl)

lemma crash_stage:
  assumes "killed \<or> fs \<noteq> []"
  shows "stage env killed s (if killed then on_exec (\<lambda>x. x\<lparr>xe_crashed := True\<rparr>) s
                             else fail fs (on_exec (\<lambda>x. x\<lparr>xe_crashed := True\<rparr>) s))"
  by (rule stage_quiet [OF _ _ _ crashed_step [OF assms]]) (auto simp: on_exec_def fail_def kept_def)

lemma crawl_resources_stage:
  assumes "crawl_resources env expect s = (go, s')"
  shows "\<exists>s1 ids. stage env k s s1 \<and> stage env k (on_exec (\<lambda>x. x\<lparr>xe_resource_ids := ids\<rparr>) s1) s' \<and>
     (go \<longrightarrow> ids \<noteq> []) \<and>
     (\<not> go \<longrightarrow> cw_failures s' \<noteq> [] \<and> (xe_resource_ids (cw_exec s) = [] \<longrightarrow> ids = []))"
proof -
  obtain r s1 where asked: "ask (handle_resources_list env) s = (r, s1)" by fastforce
  note first = stage_asks(1) [OF asked]
  show ?thesis
  proof (cases r)
    case (Inl e)
    then have "go = False" "s' = fail [failure_new ''setup'' (Message ''resources.list failed'' [label_of s1, JStr (host_error_text e)])] s1"
      using assms asked by (simp_all add: crawl_resources_def)
    moreover have "on_exec (\<lambda>x. x\<lparr>xe_resource_ids := xe_resource_ids (cw_exec s1)\<rparr>) s1 = s1"
      by (simp add: on_exec_def)
    moreover have "xe_resource_ids (cw_exec s1) = xe_resource_ids (cw_exec s)"
      using asked by (auto simp: ask_def split: prod.splits)
    ultimately show ?thesis
      using first stage_simple(1) by (intro exI [of _ s1] exI [of _ "xe_resource_ids (cw_exec s1)"]) (simp, simp add: fail_def)
  next
    case (Inr resources)
    let ?js = "map (to_json ser_resource_descriptor) resources"
    define s2 where "s2 = saw_extra ?js
      (case json_get ''resources'' expect of
         Some declared \<Rightarrow> fail (assert_resources (xe_label (cw_exec s1)) ?js declared) s1 | None \<Rightarrow> s1)"
    define s3 where "s3 = on_exec (\<lambda>x. x\<lparr>xe_resource_ids := map rd_resource_id resources\<rparr>) s2"
    have "stage env k s s2"
      unfolding s2_def by (auto split: option.split intro: stage_trans [OF first] stage_trans [OF stage_simple(1)] stage_simple)
    moreover define s4 where "s4 = (if resources = [] then fail [failure_new ''setup'' (Message ''returned no resources'' [label_of s3])] s3
             else if cw_across s3 \<noteq> None \<and> length resources \<noteq> 1
             then fail [failure_new ''setup'' (Message ''one ResumeState cannot stand for several''
                     (label_of s3 # map (JStr \<circ> rd_resource_id) resources))] s3
             else s3)"
    have "crawl_resources env expect s = (resources \<noteq> [], s4)"
      by (simp add: crawl_resources_def asked Inr Let_def s2_def s3_def s4_def)
    with assms have "go \<longleftrightarrow> resources \<noteq> []" "s' = s4" by simp_all
    moreover have "stage env k s3 s4" "resources = [] \<longrightarrow> cw_failures s4 \<noteq> []"
      by (simp_all add: s4_def stage_simple stage_refl) (simp add: fail_def)
    ultimately show ?thesis unfolding s3_def by (intro exI [of _ s2] exI [of _ "map rd_resource_id resources"]) auto
  qed
qed

lemma crawl_probe_stage: "stage env k s (crawl_probe env expect s)"
proof (cases "json_get ''probe'' expect")
  case (Some probe)
  have probe: "stage env k s (assert_probe env probe s)"
    by (auto simp: assert_probe_def Let_def split: prod.split intro: stage_trans [OF stage_asks(3)] stage_simple)
  obtain r s1 where asked: "ask (handle_resources_list env) (assert_probe env probe s) = (r, s1)" by fastforce
  note stage_trans [OF probe stage_asks(1) [OF asked]]
  from stage_trans [OF this] show ?thesis
    by (auto simp: crawl_probe_def Some Let_def asked stage_simple split: sum.split)
qed (simp add: crawl_probe_def stage_refl)

lemma crawl_status_stage: "stage env k s (crawl_status env s)"
proof (cases "xe_crashed (cw_exec s)")
  case False
  obtain r s1 where asked: "ask (handle_status_read env (xe_resource_ids (cw_exec s))) s = (r, s1)" by fastforce
  note stage_trans [OF stage_asks(2) [OF asked]]
  from this stage_asks(2) [OF asked] show ?thesis
    by (auto simp: crawl_status_def False Let_def asked stage_simple split: sum.split
        intro!: stage_trans [OF _ stage_simple(2)] stage_trans [OF _ stage_simple(1)])
qed (simp add: crawl_status_def stage_refl)

lemma envelope_error_step_stage: "stage env k s (envelope_error_step env kv s)"
  by (auto simp: envelope_error_step_def Let_def split: prod.split option.split
      intro: stage_trans [OF stage_asks(4)] stage_trans [OF stage_asks(5)] stage_simple)

lemma crawl_envelope_errors_stage: "stage env k s (crawl_envelope_errors env expect s)"
proof (cases "json_get ''envelope_errors'' expect")
  case (Some v)
  obtain fs m where e: "expect_object v (xe_label (cw_exec s) @ '': expect.envelope_errors'') = (fs, m)" by fastforce
  show ?thesis
  proof (cases m)
    case (Some ms)
    let ?s = "fold (envelope_error_step env) ms (fail fs s)"
    obtain r s1 where asked: "ask (handle_resources_list env) ?s = (r, s1)" by fastforce
    have "stage env k s ?s"
      by (rule stage_trans [OF stage_simple(1) stage_fold]) (rule envelope_error_step_stage)
    note stage_trans [OF this stage_asks(1) [OF asked]]
    from this stage_trans [OF this] show ?thesis
      by (auto simp: crawl_envelope_errors_def \<open>json_get _ _ = Some v\<close> e Some Let_def asked stage_simple split: sum.split)
  qed (simp add: crawl_envelope_errors_def Some e stage_simple)
qed (simp add: crawl_envelope_errors_def stage_refl)

lemma crawl_expectations_stage: "stage env k s (crawl_expectations expect s)"
  unfolding crawl_expectations_def Let_def
  by (blast intro: stage_trans [OF stage_simple(6)] stage_simple(6))

lemma history_extra_stage: "stage env k s (history_extra s)"
  unfolding history_extra_def by (rule stage_fold) (rule stage_simple)

lemma crawl_balances_stage:
  assumes "crawl_balances env expect killed s = (go, s')"
  shows "stage env killed s s'"
proof -
  obtain r s1 where asked: "ask (handle_balances_read env (xe_resource_ids (cw_exec s))) s = (r, s1)" by fastforce
  note first = stage_asks(4) [OF asked]
  show ?thesis
  proof (cases r)
    case (Inl e)
    show ?thesis
    proof (cases "\<exists>status. e = AdapterCrashed status")
      case True
      then have "s' = (if killed then on_exec (\<lambda>x. x\<lparr>xe_crashed := True\<rparr>) s1
        else fail [failure_new ''A2'' (Message ''the adapter died during balances.read'' [label_of s1])]
          (on_exec (\<lambda>x. x\<lparr>xe_crashed := True\<rparr>) s1))"
        using assms asked Inl by (auto simp: crawl_balances_def Let_def label_of_def on_exec_def)
      then show ?thesis using stage_trans [OF first crash_stage] by simp
    next
      case False
      then have "\<exists>fs. s' = fail fs s1"
        using assms asked Inl by (cases e) (auto simp: crawl_balances_def Let_def)
      then show ?thesis using stage_trans [OF first stage_simple(1)] by blast
    qed
  next
    case (Inr reply)
    then show ?thesis
      using assms asked unfolding crawl_balances_def
      by (auto simp: Let_def intro!: stage_trans [OF _ stage_simple(6)] stage_trans [OF _ stage_simple(2)]
          stage_trans [OF _ stage_simple(8)] stage_trans [OF _ stage_fold [OF stage_simple(7)]]
          stage_trans [OF _ stage_simple(4)] stage_trans [OF first stage_simple(1)])
  qed
qed

section \<open>How much a crawl asks before the history\<close>

text \<open>At most so many exchanges are recorded; fewer only if the connection is over, and then no more follow.\<close>

definition asks :: "'s conn_env \<Rightarrow> nat \<Rightarrow> 's crawl \<Rightarrow> 's crawl \<Rightarrow> bool" where
  "asks env n s s' \<longleftrightarrow>
     (closed env s \<longrightarrow> closed env s') \<and>
     (\<forall>t. snd (hd_conn (cw_handle s)) = Some t \<longrightarrow>
        (\<exists>es. snd (hd_conn (cw_handle s')) = Some (t @ es) \<and> length es \<le> n \<and>
              (length es < n \<longrightarrow> closed env s') \<and> (closed env s \<longrightarrow> es = [])))"

lemma asks_trans:
  assumes a: "asks env n s s'" and b: "asks env m s' s''"
  shows "asks env (n + m) s s''"
  unfolding asks_def
proof (intro conjI impI allI)
  show "closed env s \<Longrightarrow> closed env s''" using a b by (simp add: asks_def)
  fix t assume "snd (hd_conn (cw_handle s)) = Some t"
  then obtain e1 where e1: "snd (hd_conn (cw_handle s')) = Some (t @ e1)" "length e1 \<le> n"
    "length e1 < n \<longrightarrow> closed env s'" "closed env s \<longrightarrow> e1 = []" using a unfolding asks_def by blast
  then obtain e2 where e2: "snd (hd_conn (cw_handle s'')) = Some ((t @ e1) @ e2)" "length e2 \<le> m"
    "length e2 < m \<longrightarrow> closed env s''" "closed env s' \<longrightarrow> e2 = []" using b unfolding asks_def by blast
  have "closed env s' \<longrightarrow> closed env s''" "closed env s \<longrightarrow> closed env s'" using a b by (simp_all add: asks_def)
  with e1 e2 show "\<exists>es. snd (hd_conn (cw_handle s'')) = Some (t @ es) \<and> length es \<le> n + m \<and>
      (length es < n + m \<longrightarrow> closed env s'') \<and> (closed env s \<longrightarrow> es = [])"
    by (intro exI [of _ "e1 @ e2"]) auto
qed

lemma asks_same: "cw_handle s' = cw_handle s \<Longrightarrow> asks env 0 s s'"
  by (simp add: asks_def closed_def)

lemma asks_then: "asks env n s s' \<Longrightarrow> cw_handle s'' = cw_handle s' \<Longrightarrow> asks env n s s''"
  by (simp add: asks_def closed_def)

lemma asks_call:
  assumes "ask (handle_call env op params decode) s = (r, s')"
  shows "asks env 1 s s'"
proof -
  obtain h where h: "handle_call env op params decode (cw_handle s) = (r, h)" "s' = s\<lparr>cw_handle := h\<rparr>"
    using assms by (auto simp: ask_def split: prod.splits)
  have keeps: "hd_conn h = hd_conn (cw_handle s)" if "closed env s"
    using handle_call_closed [OF h(1) that [unfolded closed_def]] .
  have "\<exists>es. snd (hd_conn h) = Some (t @ es) \<and> length es \<le> 1 \<and> (length es < 1 \<longrightarrow> closed env s') \<and> (closed env s \<longrightarrow> es = [])"
    if t: "snd (hd_conn (cw_handle s)) = Some t" for t
  proof -
    obtain result es where e: "snd (hd_conn h) = Some (t @ es)" "length es \<le> 1"
      using handle_call_transcript [OF h(1) t] by (metis One_nat_def le_numeral_extra(4) length_Cons list.size(3) zero_le)
    have "closed env s" if "es = []"
      using handle_call_open [OF h(1) _ t e(1)] that by (auto simp: closed_def)
    with e keeps t h(2) show ?thesis by (intro exI [of _ es]) (auto simp: closed_def)
  qed
  with keeps h(2) show ?thesis by (auto simp: asks_def closed_def)
qed

lemma asks_all:
  "ask (handle_resources_list env) s = (r1, s') \<Longrightarrow> asks env 1 s s'"
  "ask (handle_call_raw env op params) s = (r3, s') \<Longrightarrow> asks env 1 s s'"
  "ask (handle_balances_read env ids) s = (r4, s') \<Longrightarrow> asks env 1 s s'"
  unfolding handle_resources_list_def handle_call_raw_def
  by (auto simp: handle_balances_read_def [abs_def] ask_def intro: asks_call [unfolded ask_def One_nat_def])

lemma handle_simps [simp]:
  "cw_handle (fail fs s) = cw_handle s" "cw_handle (verify ops s) = cw_handle s"
  "cw_handle (saw_extra js s) = cw_handle s" "cw_handle (on_exec f s) = cw_handle s"
  "cw_handle (on_ledger g s) = cw_handle s" "cw_handle (expect_key expect key judge s) = cw_handle s"
  "cw_handle (push_balance b s) = cw_handle s"
  by (simp_all add: fail_def verify_def saw_extra_def on_exec_def on_ledger_def expect_key_def push_balance_def Let_def
      split: option.split)

lemma push_balances_handle [simp]: "cw_handle (fold push_balance bs s) = cw_handle s"
  by (induction bs arbitrary: s) simp_all

lemma crawl_resources_asks:
  assumes "crawl_resources env expect s = (go, s')"
  shows "asks env 1 s s'" "xe_crashed (cw_exec s') = xe_crashed (cw_exec s)"
proof -
  obtain r s1 where asked: "ask (handle_resources_list env) s = (r, s1)" by fastforce
  have "cw_handle s' = cw_handle s1"
    using assms by (auto simp: crawl_resources_def asked Let_def split: sum.splits option.splits if_splits)
  then show "asks env 1 s s'" by (rule asks_then [OF asks_all(1) [OF asked]])
  have "xe_crashed (cw_exec s1) = xe_crashed (cw_exec s)" using asked by (auto simp: ask_def split: prod.splits)
  then show "xe_crashed (cw_exec s') = xe_crashed (cw_exec s)"
    using assms
    by (auto simp: crawl_resources_def asked Let_def fail_def saw_extra_def on_exec_def split: sum.splits option.splits if_splits)
qed

text \<open>
  The resources the adapter listed, read off what a transcript records after the hello: the ids in
  the reply to the first request.
\<close>

definition listed :: "'s conn_env \<Rightarrow> exchange list \<Rightarrow> string list" where
  "listed env es =
     (case es of
        [] \<Rightarrow> []
      | ex # _ \<Rightarrow>
          (case (ex_frame ex, ex_received_at ex) of
             (Some frame, Some received_at) \<Rightarrow>
               (case decode_reply (ce_from_str env) (ce_err_text env) de_resources_list_reply OP_RESOURCES_LIST
                       (frame, received_at) of
                  Inr (resources, _) \<Rightarrow> map rd_resource_id resources
                | Inl _ \<Rightarrow> [])
           | _ \<Rightarrow> []))"

lemma listed_append: "es = [] \<longrightarrow> es' = [] \<Longrightarrow> listed env (es @ es') = listed env es"
  by (cases es) (simp_all add: listed_def)

lemma asked_listed:
  assumes "ask (handle_resources_list env) s = (r, s1)" "snd (hd_conn (cw_handle s)) = Some t"
    and "snd (hd_conn (cw_handle s1)) = Some (t @ es)"
  shows "listed env es = (case r of Inr resources \<Rightarrow> map rd_resource_id resources | Inl _ \<Rightarrow> [])"
proof -
  obtain h where h: "handle_resources_list env (cw_handle s) = (r, h)" "s1 = s\<lparr>cw_handle := h\<rparr>"
    using assms(1) by (auto simp: ask_def split: prod.splits)
  have t: "snd (hd_conn h) = Some (t @ es)" using assms(3) h(2) by simp
  obtain result es' where e: "r = map_sum id fst (call_typed_with_receipt (ce_from_str env) (ce_err_text env)
        de_resources_list_reply OP_RESOURCES_LIST result)" "snd (hd_conn h) = Some (t @ es')"
      "es' = [] \<and> (\<exists>e. result = Inl e) \<or>
       es' = [\<lparr>ex_op = OP_RESOURCES_LIST, ex_params = json_value (JObj []), ex_frame = res_ok (map_sum id fst result),
               ex_received_at = res_ok (map_sum id snd result)\<rparr>]"
    using handle_call_transcript [OF h(1) [unfolded handle_resources_list_def] assms(2)] by metis
  from e(2) t have [simp]: "es' = es" by simp
  show ?thesis
  proof (cases result)
    case (Inr x)
    with e show ?thesis
      by (cases x) (simp add: listed_def call_typed_with_receipt_def case_prod_beta split: sum.split)
  qed (use e in \<open>auto simp: listed_def call_typed_with_receipt_def\<close>)
qed

lemma crawl_resources_listed:
  assumes "crawl_resources env expect s = (go, s')" "snd (hd_conn (cw_handle s)) = Some t"
    and "snd (hd_conn (cw_handle s')) = Some (t @ es)" "xe_resource_ids (cw_exec s) = []"
  shows "xe_resource_ids (cw_exec s') = listed env es"
proof -
  obtain r s1 where asked: "ask (handle_resources_list env) s = (r, s1)" by fastforce
  have "cw_handle s' = cw_handle s1" "xe_resource_ids (cw_exec s1) = []"
    using assms(1,4) asked
    by (auto simp: crawl_resources_def Let_def fail_def saw_extra_def on_exec_def ask_def
        split: sum.splits option.splits if_splits prod.splits)
  moreover from this have "listed env es = (case r of Inr resources \<Rightarrow> map rd_resource_id resources | Inl _ \<Rightarrow> [])"
    using asked_listed [OF asked assms(2)] assms(3) by simp
  ultimately show ?thesis using assms(1)
    by (auto simp: crawl_resources_def asked Let_def fail_def saw_extra_def on_exec_def
        split: sum.splits option.splits if_splits)
qed

definition asks_before :: "json \<Rightarrow> nat" where
  "asks_before expect = 2 + (if json_get ''probe'' expect = None then 0 else 2)"

lemma crawl_probe_asks:
  "asks env (if json_get ''probe'' expect = None then 0 else 2) s (crawl_probe env expect s)"
  "xe_crashed (cw_exec (crawl_probe env expect s)) = xe_crashed (cw_exec s)"
proof -
  have "asks env (if json_get ''probe'' expect = None then 0 else 2) s (crawl_probe env expect s) \<and>
    xe_crashed (cw_exec (crawl_probe env expect s)) = xe_crashed (cw_exec s)"
  proof (cases "json_get ''probe'' expect")
    case None
    then show ?thesis by (simp add: crawl_probe_def asks_same)
  next
    case (Some probe)
    let ?op = "case Option.bind (json_get ''op'' probe) json_str of Some p \<Rightarrow> p | None \<Rightarrow> ''execute''"
    let ?params = "case json_get ''params'' probe of Some p \<Rightarrow> p | None \<Rightarrow> JObj []"
    obtain r0 s0 where first: "ask (handle_call_raw env ?op ?params) s = (r0, s0)" by fastforce
    have p: "assert_probe env probe s = fail (judge_probe (label_of s0) ?op probe r0) s0"
      using first by (simp add: assert_probe_def Let_def)
    obtain r s1 where asked: "ask (handle_resources_list env) (assert_probe env probe s) = (r, s1)" by fastforce
    have h: "cw_handle (crawl_probe env expect s) = cw_handle s1"
      by (auto simp: crawl_probe_def Some Let_def asked split: sum.split)
    have "asks env 2 s (crawl_probe env expect s)"
      unfolding one_add_one [symmetric]
      by (rule asks_then [OF asks_trans [OF asks_then [OF asks_all(2) [OF first]] asks_all(1) [OF asked]] h])
        (simp add: p)
    moreover have "xe_crashed (cw_exec s0) = xe_crashed (cw_exec s)" "xe_crashed (cw_exec s1) = xe_crashed (cw_exec s0)"
      using first asked by (auto simp: ask_def p fail_def split: prod.splits)
    then have "xe_crashed (cw_exec (crawl_probe env expect s)) = xe_crashed (cw_exec s)"
      by (auto simp: crawl_probe_def Some Let_def asked fail_def verify_def split: sum.split)
    ultimately show ?thesis by (simp add: Some)
  qed
  then show "asks env (if json_get ''probe'' expect = None then 0 else 2) s (crawl_probe env expect s)"
    "xe_crashed (cw_exec (crawl_probe env expect s)) = xe_crashed (cw_exec s)" by blast+
qed

lemma push_balances_crashed: "xe_crashed (cw_exec (fold push_balance bs s)) = xe_crashed (cw_exec s)"
  by (induction bs arbitrary: s) (simp_all add: push_balance_def Let_def on_ledger_def on_exec_def saw_extra_def)

lemma crawl_balances_asks:
  assumes "crawl_balances env expect killed s = (ok, s')"
  shows "asks env 1 s s'" "ok \<Longrightarrow> xe_crashed (cw_exec s') = xe_crashed (cw_exec s)"
proof -
  obtain r s1 where asked: "ask (handle_balances_read env (xe_resource_ids (cw_exec s))) s = (r, s1)" by fastforce
  have "cw_handle s' = cw_handle s1"
    using assms by (auto simp: crawl_balances_def asked Let_def split: sum.splits host_error.splits if_splits)
  then show "asks env 1 s s'" by (rule asks_then [OF asks_all(3) [OF asked]])
  have "xe_crashed (cw_exec s1) = xe_crashed (cw_exec s)" using asked by (auto simp: ask_def split: prod.splits)
  then show "ok \<Longrightarrow> xe_crashed (cw_exec s') = xe_crashed (cw_exec s)"
    using assms
    by (auto simp: push_balances_crashed crawl_balances_def asked Let_def fail_def verify_def on_ledger_def on_exec_def expect_key_def
        split: sum.splits host_error.splits if_splits option.splits)
qed

section \<open>The history of all resources\<close>

lemma history_page_kept: "kept s (history_page rid reply s)"
proof -
  have "kept s (fold push_observation obs s)" for obs and s :: "'s crawl"
  proof (induction obs arbitrary: s)
    case (Cons ob obs)
    have "kept s (push_observation ob s)"
      by (simp add: kept_def push_observation_def Let_def on_ledger_def on_exec_def)
    with Cons show ?case using kept_trans by fastforce
  qed (simp add: kept_def)
  note pushed = this
  have "kept s (fail fs (on_ledger (count_frame History rid) s))" for fs
    by (simp add: kept_def fail_def on_ledger_def on_exec_def)
  from kept_trans [OF this pushed] show ?thesis
    by (simp add: history_page_def Let_def split: prod.split) (simp add: kept_def)
qed

lemma drain_history_kept: "drain_history env rid tol n page s = (statuses, s') \<Longrightarrow> kept s s'"
proof (induction n arbitrary: page s statuses)
  case 0
  then show ?case by (auto simp: kept_def fail_def)
next
  case (Suc n)
  obtain r s1 where asked: "ask (handle_history_read env [\<lparr>qy_resource_id = rid, qy_page = page\<rparr>]) s = (r, s1)"
    by fastforce
  then have first: "kept s s1" by (auto simp: ask_def kept_def split: prod.splits)
  show ?case
  proof (cases r)
    case (Inl e)
    then have "kept s1 s'"
      using Suc.prems asked
      by (cases e) (auto simp: Let_def kept_def fail_def on_exec_def split: if_splits)
    with first show ?thesis by (rule kept_trans)
  next
    case (Inr reply)
    note page = kept_trans [OF first history_page_kept [of s1 rid reply]]
    show ?thesis
    proof (cases "snd (page_of (hrd_statuses reply))")
      case None
      with Inr Suc.prems asked page show ?thesis by (simp add: Let_def)
    next
      case (Some p)
      obtain rest where "drain_history env rid tol n (Some p) (history_page rid reply s1) = (rest, s')"
        using Suc.prems asked Inr Some by (auto simp: Let_def split: prod.splits)
      from kept_trans [OF page Suc.IH [OF this]] show ?thesis .
    qed
  qed
qed

definition all_drained :: "drains \<Rightarrow> drained" where
  "all_drained drains = concat (map (\<lambda>(rid, exs). map (Pair rid) exs) drains)"

definition all_exchanges :: "drains \<Rightarrow> exchange list" where
  "all_exchanges drains = concat (map snd drains)"

definition bounded_chains :: "'s conn_env \<Rightarrow> string \<Rightarrow> bool \<Rightarrow> drains \<Rightarrow> bool" where
  "bounded_chains env own fresh drains \<longleftrightarrow>
     (\<forall>(rid, exs)\<in>set drains. length exs \<le> MAX_CRAWL_PAGES \<and>
        (\<exists>page. (fresh \<longrightarrow> page = None) \<and> follows env own rid page exs))"

definition drained_whole :: "'s conn_env \<Rightarrow> string \<Rightarrow> drains \<Rightarrow> bool" where
  "drained_whole env own drains \<longleftrightarrow> (\<forall>(rid, exs)\<in>set drains. to_the_end env own rid exs)"

lemma bounded_chains_fresh:
  "bounded_chains env own fresh drains \<Longrightarrow> (fresh' \<Longrightarrow> fresh) \<Longrightarrow> bounded_chains env own fresh' drains"
  by (fastforce simp: bounded_chains_def)

lemma bounded_chains_Cons:
  "bounded_chains env own fresh [d] \<Longrightarrow> bounded_chains env own fresh drains \<Longrightarrow> bounded_chains env own fresh (d # drains)"
  by (simp add: bounded_chains_def)

lemma crawl_history_of_did:
  assumes "snd (hd_conn (cw_handle s)) = Some t"
  shows "\<exists>exs. did env (map (Pair rid) exs) exs s (crawl_history_of env killed rid s) \<and>
     bounded_chains env (own_of s) (cw_across s = None) [(rid, exs)] \<and>
     step_ok killed s (crawl_history_of env killed rid s) \<and> kept s (crawl_history_of env killed rid s) \<and>
     (cw_failures (crawl_history_of env killed rid s) = [] \<longrightarrow>
        xe_crashed (cw_exec (crawl_history_of env killed rid s)) \<or> to_the_end env (own_of s) rid exs) \<and>
     (drain_over env (own_of s) rid MAX_CRAWL_PAGES exs \<or> closed env (crawl_history_of env killed rid s)) \<and>
     (xe_crashed (cw_exec (crawl_history_of env killed rid s)) \<longrightarrow>
        xe_crashed (cw_exec s) \<or> \<not> to_the_end env (own_of s) rid exs)"
proof -
  define start where "start = (case cw_across s of None \<Rightarrow> None | Some a \<Rightarrow> next_request (rn_resume a))"
  obtain statuses s1 where d: "drain_history env rid killed MAX_CRAWL_PAGES start s = (statuses, s1)" by fastforce
  define s2 where "s2 = crawl_history_of env killed rid s"
  obtain exs where exs: "did env (map (Pair rid) exs) exs s s1" "follows env (own_of s) rid start exs"
      "length exs \<le> MAX_CRAWL_PAGES" "step_ok killed s s1"
      "cw_failures s1 = cw_failures s \<longrightarrow> xe_crashed (cw_exec s1) \<or> to_the_end env (own_of s) rid exs"
      "drain_over env (own_of s) rid MAX_CRAWL_PAGES exs \<or> closed env s1"
      "xe_crashed (cw_exec s1) \<longrightarrow> xe_crashed (cw_exec s) \<or> \<not> to_the_end env (own_of s) rid exs"
    using drain_history_did [OF d assms] by blast
  have same: "xe_crashed (cw_exec s2) = xe_crashed (cw_exec s1)" "cw_failures s2 = cw_failures s1"
      "cw_handle s2 = cw_handle s1" "cw_exec s2 = cw_exec s1" "cw_across s2 = cw_across s1"
    by (simp_all add: s2_def crawl_history_of_def Let_def start_def [symmetric] d verify_def)
  have "did env (map (Pair rid) exs) exs s s2"
    using exs(1) same by (simp add: did_def view_grows_def closed_def)
  moreover have "drain_over env (own_of s) rid MAX_CRAWL_PAGES exs \<or> closed env s2"
    "xe_crashed (cw_exec s2) \<longrightarrow> xe_crashed (cw_exec s) \<or> \<not> to_the_end env (own_of s) rid exs"
    using exs(6,7) same by (simp_all add: closed_def)
  moreover have "step_ok killed s s2" "kept s s2"
    using exs(4) drain_history_kept [OF d] same by (simp_all add: step_ok_def grows_def crash_blamed_def kept_def)
  moreover have "cw_failures s2 = [] \<longrightarrow> xe_crashed (cw_exec s2) \<or> to_the_end env (own_of s) rid exs"
    using exs(4,5) same by (auto simp: step_ok_def grows_def)
  moreover have "bounded_chains env (own_of s) (cw_across s = None) [(rid, exs)]"
    using exs(2,3) by (auto simp: bounded_chains_def start_def intro!: exI [of _ start])
  ultimately show ?thesis unfolding s2_def by blast
qed

lemma did_conn: "did env ds es s s' \<Longrightarrow> snd (hd_conn (cw_handle s)) = Some t \<Longrightarrow>
  snd (hd_conn (cw_handle s')) = Some (t @ es)"
  by (simp add: did_def)

lemma did_own: "did env ds es s s' \<Longrightarrow> own_of s' = own_of s"
  by (simp add: did_def own_of_def)

text \<open>The drains can be read off what the transcript then says, whatever follows.\<close>

definition readable :: "'s conn_env \<Rightarrow> string \<Rightarrow> string list \<Rightarrow> drains \<Rightarrow> 's crawl \<Rightarrow> bool" where
  "readable env own rids drains s' \<longleftrightarrow>
     (\<forall>post. (closed env s' \<longrightarrow> post = []) \<longrightarrow>
        take_drains env own (take (length drains) rids) (all_exchanges drains @ post) = (drains, post))"

text \<open>All of them were drained, or the adapter crashed in the last.\<close>

definition all_or_crashed :: "'s conn_env \<Rightarrow> string \<Rightarrow> string list \<Rightarrow> drains \<Rightarrow> bool \<Rightarrow> bool" where
  "all_or_crashed env own rids drains crashed \<longleftrightarrow>
     length drains = length rids \<or>
     length drains < length rids \<and> crashed \<and> drains \<noteq> [] \<and> \<not> to_the_end env own (fst (last drains)) (snd (last drains))"

lemma crawl_history_did:
  assumes "snd (hd_conn (cw_handle s)) = Some t" "\<not> xe_crashed (cw_exec s)"
  shows "\<exists>drains. did env (all_drained drains) (all_exchanges drains) s (crawl_history env killed rids s) \<and>
     map fst drains = take (length drains) rids \<and>
     bounded_chains env (own_of s) (cw_across s = None) drains \<and>
     step_ok killed s (crawl_history env killed rids s) \<and> kept s (crawl_history env killed rids s) \<and>
     (cw_failures (crawl_history env killed rids s) = [] \<longrightarrow>
        xe_crashed (cw_exec (crawl_history env killed rids s)) \<or>
        (length drains = length rids \<and> drained_whole env (own_of s) drains)) \<and>
     readable env (own_of s) rids drains (crawl_history env killed rids s) \<and>
     all_or_crashed env (own_of s) rids drains (xe_crashed (cw_exec (crawl_history env killed rids s)))"
  using assms
proof (induction rids arbitrary: s t)
  case Nil
  have "did env [] [] s s" "step_ok killed s s" "kept s s"
    by (simp_all add: did_nothing step_ok_refl kept_def)
  then show ?case
    by (intro exI [of _ "[]"])
      (simp add: all_drained_def all_exchanges_def bounded_chains_def drained_whole_def readable_def all_or_crashed_def)
next
  case (Cons rid rids)
  define s1 where "s1 = crawl_history_of env killed rid s"
  obtain exs where exs: "did env (map (Pair rid) exs) exs s s1"
      "bounded_chains env (own_of s) (cw_across s = None) [(rid, exs)]" "step_ok killed s s1" "kept s s1"
      "cw_failures s1 = [] \<longrightarrow> xe_crashed (cw_exec s1) \<or> to_the_end env (own_of s) rid exs"
      "drain_over env (own_of s) rid MAX_CRAWL_PAGES exs \<or> closed env s1"
      "xe_crashed (cw_exec s1) \<longrightarrow> xe_crashed (cw_exec s) \<or> \<not> to_the_end env (own_of s) rid exs"
    unfolding s1_def using crawl_history_of_did [OF Cons.prems(1), of env rid killed] by blast
  obtain page where "follows env (own_of s) rid page exs" "length exs \<le> MAX_CRAWL_PAGES"
    using exs(2) by (auto simp: bounded_chains_def)
  note taken = take_drain_follows [OF this]
  show ?case
  proof (cases "xe_crashed (cw_exec s1)")
    case True
    then have "crawl_history env killed (rid # rids) s = s1" by (simp add: Let_def s1_def)
    moreover have "readable env (own_of s) (rid # rids) [(rid, exs)] s1"
      unfolding readable_def
    proof (intro allI impI)
      fix post :: "exchange list" assume "closed env s1 \<longrightarrow> post = []"
      with exs(6) have "drain_over env (own_of s) rid MAX_CRAWL_PAGES exs \<or> post = []" by blast
      from taken [OF this] show "take_drains env (own_of s) (take (length [(rid, exs)]) (rid # rids))
          (all_exchanges [(rid, exs)] @ post) = ([(rid, exs)], post)" by (simp add: all_exchanges_def)
    qed
    moreover have "all_or_crashed env (own_of s) (rid # rids) [(rid, exs)] True"
      using exs(7) True Cons.prems(2) by (cases rids) (simp_all add: all_or_crashed_def)
    ultimately show ?thesis using exs(1-5) True
      by (intro exI [of _ "[(rid, exs)]"]) (simp add: all_drained_def all_exchanges_def)
  next
    case False
    define s' where "s' = crawl_history env killed rids s1"
    have s': "crawl_history env killed (rid # rids) s = s'" using False by (simp add: Let_def s1_def s'_def)
    obtain drains where d: "did env (all_drained drains) (all_exchanges drains) s1 s'"
        "map fst drains = take (length drains) rids"
        "bounded_chains env (own_of s1) (cw_across s1 = None) drains" "step_ok killed s1 s'" "kept s1 s'"
        "cw_failures s' = [] \<longrightarrow> xe_crashed (cw_exec s') \<or>
           (length drains = length rids \<and> drained_whole env (own_of s1) drains)"
        "readable env (own_of s1) rids drains s'"
        "all_or_crashed env (own_of s1) rids drains (xe_crashed (cw_exec s'))"
      unfolding s'_def using Cons.IH [OF did_conn [OF exs(1) Cons.prems(1)] False] by blast
    note own = did_own [OF exs(1)]
    have "readable env (own_of s) (rid # rids) ((rid, exs) # drains) s'"
      unfolding readable_def
    proof (intro allI impI)
      fix post :: "exchange list" assume p: "closed env s' \<longrightarrow> post = []"
      have "drain_over env (own_of s) rid MAX_CRAWL_PAGES exs \<or> all_exchanges drains @ post = []"
        using exs(6) d(1) p by (auto simp: did_def)
      from taken [OF this] d(7) p show "take_drains env (own_of s) (take (length ((rid, exs) # drains)) (rid # rids))
          (all_exchanges ((rid, exs) # drains) @ post) = ((rid, exs) # drains, post)"
        by (simp add: readable_def own) (simp add: all_exchanges_def)
    qed
    moreover have "all_or_crashed env (own_of s) (rid # rids) ((rid, exs) # drains) (xe_crashed (cw_exec s'))"
      using d(8) own by (auto simp: all_or_crashed_def)
    moreover have "did env (all_drained ((rid, exs) # drains)) (all_exchanges ((rid, exs) # drains)) s s'"
      using did_trans [OF exs(1) d(1)] by (simp add: all_drained_def all_exchanges_def)
    moreover have "bounded_chains env (own_of s) (cw_across s = None) ((rid, exs) # drains)"
      using bounded_chains_Cons [OF exs(2) bounded_chains_fresh [OF d(3) [unfolded did_own [OF exs(1)]]]] exs(4)
      by (simp add: kept_def)
    moreover have "cw_failures s' = [] \<longrightarrow> xe_crashed (cw_exec s') \<or>
        (length ((rid, exs) # drains) = length (rid # rids) \<and> drained_whole env (own_of s) ((rid, exs) # drains))"
      using exs(5) d(6) False step_ok_clean [OF d(4)] did_own [OF exs(1)] by (auto simp: drained_whole_def)
    ultimately show ?thesis
      using d(2) step_ok_trans [OF exs(3) d(4)] kept_trans [OF exs(4) d(5)] unfolding s'
      by (intro exI [of _ "(rid, exs) # drains"]) simp
  qed
qed

lemma crawl_balances_early: "crawl_balances env expect killed s = (ok, s') \<Longrightarrow> \<not> ok \<Longrightarrow> xe_crashed (cw_exec s')"
proof -
  assume b: "crawl_balances env expect killed s = (ok, s')" "\<not> ok"
  obtain r s1 where "ask (handle_balances_read env (xe_resource_ids (cw_exec s))) s = (r, s1)" by fastforce
  with b show ?thesis
    by (auto simp: crawl_balances_def Let_def on_exec_def fail_def split: sum.splits host_error.splits if_splits)
qed

lemma ask_crashed: "ask f s = (r, s') \<Longrightarrow> xe_crashed (cw_exec s') = xe_crashed (cw_exec s)"
  by (auto simp: ask_def split: prod.splits)

lemma crashed_simps [simp]:
  "xe_crashed (cw_exec (fail fs s)) = xe_crashed (cw_exec s)"
  "xe_crashed (cw_exec (verify ops s)) = xe_crashed (cw_exec s)"
  "xe_crashed (cw_exec (saw_extra js s)) = xe_crashed (cw_exec s)"
  "xe_crashed (cw_exec (expect_key expect key judge s)) = xe_crashed (cw_exec s)"
  by (simp_all add: fail_def verify_def saw_extra_def expect_key_def split: option.split)

lemma crashed_after:
  "xe_crashed (cw_exec (crawl_expectations expect (crawl_envelope_errors env expect (crawl_status env (history_extra s))))) =
   xe_crashed (cw_exec s)"
proof -
  have fold_crashed: "(\<And>x s. xe_crashed (cw_exec (f x s)) = xe_crashed (cw_exec s)) \<Longrightarrow>
    xe_crashed (cw_exec (fold f xs s)) = xe_crashed (cw_exec s)" for f :: "'x \<Rightarrow> 'a crawl \<Rightarrow> 'a crawl" and xs s
    by (induction xs arbitrary: s) simp_all
  have step: "xe_crashed (cw_exec (envelope_error_step env kv s)) = xe_crashed (cw_exec s)" for kv and s :: "'a crawl"
    by (auto simp: envelope_error_step_def Let_def ask_crashed split: prod.split option.split)
  have "xe_crashed (cw_exec (crawl_envelope_errors env expect s)) = xe_crashed (cw_exec s)" for s :: "'a crawl"
    using fold_crashed [of "envelope_error_step env", OF step]
    by (auto simp: crawl_envelope_errors_def Let_def dest: ask_crashed split: option.split prod.split sum.split)
  moreover have "xe_crashed (cw_exec (crawl_status env s)) = xe_crashed (cw_exec s)" for s :: "'a crawl"
    by (auto simp: crawl_status_def Let_def dest: ask_crashed split: prod.split sum.split)
  moreover have "xe_crashed (cw_exec (history_extra s)) = xe_crashed (cw_exec s)" for s :: "'a crawl"
    unfolding history_extra_def by (rule fold_crashed) simp
  moreover have "xe_crashed (cw_exec (crawl_expectations expect s)) = xe_crashed (cw_exec s)" for s :: "'a crawl"
    by (simp add: crawl_expectations_def Let_def)
  ultimately show ?thesis by simp
qed

section \<open>A whole crawl\<close>

definition wire_history :: "'s conn_env \<Rightarrow> string \<Rightarrow> drains \<Rightarrow> observation list" where
  "wire_history env own drains = on_the_wire env own (all_drained drains)"

text \<open>What the crawl did, up to the end of its steps.\<close>

definition crawl_view ::
  "'s conn_env \<Rightarrow> json \<Rightarrow> bool \<Rightarrow> 's crawl \<Rightarrow> 's crawl \<Rightarrow> exchange list \<Rightarrow> drains \<Rightarrow> exchange list \<Rightarrow> bool" where
  "crawl_view env expect killed s s' pre drains post \<longleftrightarrow>
     length pre \<le> asks_before expect \<and> (length pre < asks_before expect \<longrightarrow> all_exchanges drains @ post = []) \<and>
     take_drains env (own_of s) (take (length drains) (xe_resource_ids (cw_exec s'))) (all_exchanges drains @ post) =
       (drains, post) \<and>
     all_or_crashed env (own_of s) (xe_resource_ids (cw_exec s')) drains (xe_crashed (cw_exec s')) \<and>
     xe_resource_ids (cw_exec s') = listed env (pre @ all_exchanges drains @ post) \<and>
     did env (all_drained drains) (pre @ all_exchanges drains @ post) s s' \<and>
     bounded_chains env (own_of s) (cw_across s = None) drains \<and> step_ok killed s s' \<and>
     xe_label (cw_exec s') = xe_label (cw_exec s) \<and> (cw_across s = None \<longrightarrow> cw_across s' = None) \<and>
     (cw_failures s' = [] \<longrightarrow> xe_crashed (cw_exec s') \<or>
        map fst drains = xe_resource_ids (cw_exec s') \<and> drains \<noteq> [] \<and> drained_whole env (own_of s) drains)"

lemma stageD:
  assumes "stage env k s s'"
  obtains es where "did env [] es s s'" "step_ok k s s'" "kept s s'"
  using assms by (auto simp: stage_def)

lemma crawl_steps_view:
  assumes conn: "snd (hd_conn (cw_handle s)) = Some t" and fresh: "xe_resource_ids (cw_exec s) = []" "\<not> xe_crashed (cw_exec s)"
  shows "\<exists>pre drains post. crawl_view env expect killed s (crawl_steps env expect killed s) pre drains post"
proof -
  obtain go s3 where r: "crawl_resources env expect s = (go, s3)" by fastforce
  obtain s1 ids where ids: "stage env killed s s1" "stage env killed (on_exec (\<lambda>x. x\<lparr>xe_resource_ids := ids\<rparr>) s1) s3"
      "go \<longrightarrow> ids \<noteq> []" "\<not> go \<longrightarrow> cw_failures s3 \<noteq> [] \<and> ids = []"
    using crawl_resources_stage [OF r] fresh(1) by blast
  let ?s2 = "on_exec (\<lambda>x. x\<lparr>xe_resource_ids := ids\<rparr>) s1"
  have s2: "did env [] [] s1 ?s2" "step_ok killed s1 ?s2"
    by (rule did_nothing; simp add: on_exec_def) (rule quiet_steps)
  obtain e1 where e1: "did env [] e1 s s1" "step_ok killed s s1" "kept s s1" using stageD [OF ids(1)] .
  obtain e2 where e2: "did env [] e2 ?s2 s3" "step_ok killed ?s2 s3" "kept ?s2 s3" using stageD [OF ids(2)] .
  have first: "did env [] (e1 @ e2) s s3" "step_ok killed s s3"
    using did_trans [OF did_trans [OF e1(1) s2(1)] e2(1)] step_ok_trans [OF step_ok_trans [OF e1(2) s2(2)] e2(2)]
    by simp_all
  have first_kept: "xe_label (cw_exec s3) = xe_label (cw_exec s)" "cw_across s = None \<longrightarrow> cw_across s3 = None"
      "xe_resource_ids (cw_exec s3) = ids"
    using e1(3) e2(3) by (auto simp: kept_def on_exec_def)
  have asked: "length e \<le> n \<and> (length e < n \<longrightarrow> closed env s')" if "asks env n s s'" "did env [] e s s'" for e n s'
    using that(1) did_conn [OF that(2) conn] conn unfolding asks_def by auto
  have "e1 @ e2 = [] \<longrightarrow> closed env s3" using asked [OF crawl_resources_asks(1) [OF r] first(1)] by fastforce
  then have names: "ids = listed env ((e1 @ e2) @ e)" if "closed env s3 \<longrightarrow> e = []" for e
    using crawl_resources_listed [OF r conn did_conn [OF first(1) conn] fresh(1)] first_kept(3) that
      listed_append [of "e1 @ e2" e env] by simp
  have stopped: "crawl_view env expect killed s s' (e1 @ e2 @ e) (map (\<lambda>rid. (rid, [])) (xe_resource_ids (cw_exec s'))) []"
    if "did env [] e s3 s'" "step_ok killed s3 s'" "kept s3 s'"
      "cw_failures s' \<noteq> [] \<or> xe_crashed (cw_exec s')" "length (e1 @ e2 @ e) \<le> asks_before expect" for s' e
  proof -
    let ?none = "map (\<lambda>rid. (rid, [] :: exchange list)) (xe_resource_ids (cw_exec s'))"
    have none: "all_drained ?none = []" "all_exchanges ?none = []"
      by (simp_all add: all_drained_def all_exchanges_def comp_def)
    have "did env (all_drained ?none) ((e1 @ e2 @ e) @ all_exchanges ?none @ []) s s'"
      using did_trans [OF first(1) that(1)] by (simp add: none)
    moreover have "take_drains env (own_of s) (take (length ?none) (xe_resource_ids (cw_exec s'))) (all_exchanges ?none @ []) =
        (?none, [])" by (simp add: none take_drains_nothing)
    moreover have "bounded_chains env (own_of s) (cw_across s = None) ?none" by (auto simp: bounded_chains_def)
    moreover have "all_or_crashed env (own_of s) (xe_resource_ids (cw_exec s')) ?none (xe_crashed (cw_exec s'))"
      by (simp add: all_or_crashed_def)
    moreover have "all_exchanges ?none @ [] = []" by (simp add: none)
    moreover have "xe_resource_ids (cw_exec s') = listed env ((e1 @ e2 @ e) @ all_exchanges ?none @ [])"
      using names [of e] that(1,3) first_kept(3) unfolding none by (simp add: kept_def did_def)
    moreover have "step_ok killed s s'" by (rule step_ok_trans [OF first(2) that(2)])
    moreover have "xe_label (cw_exec s') = xe_label (cw_exec s)" "cw_across s = None \<longrightarrow> cw_across s' = None"
      using that(3) first_kept by (simp_all add: kept_def)
    ultimately show ?thesis using that(4,5) unfolding crawl_view_def by blast
  qed
  show ?thesis
  proof (cases go)
    case False
    then have "crawl_steps env expect killed s = s3" by (simp add: crawl_steps_def r)
    moreover have "length (e1 @ e2) \<le> asks_before expect"
      using asked [OF crawl_resources_asks(1) [OF r] first(1)] by (simp add: asks_before_def)
    then have "crawl_view env expect killed s s3 (e1 @ e2 @ []) (map (\<lambda>rid. (rid, [])) (xe_resource_ids (cw_exec s3))) []"
      by (intro stopped) (use ids(4) False in \<open>simp_all add: did_nothing step_ok_refl kept_def\<close>)
    ultimately show ?thesis by metis
  next
    case True
    obtain ok s4 where b: "crawl_balances env expect killed (crawl_probe env expect s3) = (ok, s4)" by fastforce
    obtain e4 where e4: "did env [] e4 s3 s4" "step_ok killed s3 s4" "kept s3 s4"
      using stageD [OF stage_trans [OF crawl_probe_stage crawl_balances_stage [OF b]]] .
    have before: "did env [] (e1 @ e2 @ e4) s s4" using did_trans [OF first(1) e4(1)] by simp
    have "asks env (1 + ((if json_get ''probe'' expect = None then 0 else 2) + 1)) s s4"
      by (rule asks_trans [OF crawl_resources_asks(1) [OF r] asks_trans [OF crawl_probe_asks(1) crawl_balances_asks(1) [OF b]]])
    moreover have "1 + ((if json_get ''probe'' expect = None then 0 else 2) + 1) = asks_before expect"
      by (simp add: asks_before_def)
    ultimately have pre: "length (e1 @ e2 @ e4) \<le> asks_before expect"
        "length (e1 @ e2 @ e4) < asks_before expect \<longrightarrow> closed env s4"
      using asked [OF _ before] by metis+
    show ?thesis
    proof (cases ok)
      case False
      then have "crawl_steps env expect killed s = s4" using True by (simp add: crawl_steps_def r b)
      moreover have "crawl_view env expect killed s s4 (e1 @ e2 @ e4) (map (\<lambda>rid. (rid, [])) (xe_resource_ids (cw_exec s4))) []"
        by (rule stopped [OF e4 _ pre(1)]) (rule disjI2, rule crawl_balances_early [OF b False])
      ultimately show ?thesis by metis
    next
      case ok: True
      define s5 where "s5 = crawl_history env killed (xe_resource_ids (cw_exec s4)) s4"
      define s' where "s' = crawl_steps env expect killed s"
      have s': "s' = crawl_expectations expect (crawl_envelope_errors env expect (crawl_status env (history_extra s5)))"
        using True ok by (simp add: s'_def crawl_steps_def r b s5_def)
      obtain e6 where e6: "did env [] e6 s5 s'" "step_ok killed s5 s'" "kept s5 s'"
        using stageD [OF stage_trans [OF stage_trans [OF stage_trans [OF history_extra_stage crawl_status_stage]
            crawl_envelope_errors_stage] crawl_expectations_stage]] unfolding s' .
      have alive: "\<not> xe_crashed (cw_exec s4)"
        using crawl_balances_asks(2) [OF b ok] crawl_resources_asks(2) [OF r] fresh(2)
        by (simp add: crawl_probe_asks(2) [of env expect s3])
      obtain drains where d: "did env (all_drained drains) (all_exchanges drains) s4 s5"
          "map fst drains = take (length drains) (xe_resource_ids (cw_exec s4))"
          "bounded_chains env (own_of s4) (cw_across s4 = None) drains" "step_ok killed s4 s5" "kept s4 s5"
          "cw_failures s5 = [] \<longrightarrow> xe_crashed (cw_exec s5) \<or>
             (length drains = length (xe_resource_ids (cw_exec s4)) \<and> drained_whole env (own_of s4) drains)"
          "readable env (own_of s4) (xe_resource_ids (cw_exec s4)) drains s5"
          "all_or_crashed env (own_of s4) (xe_resource_ids (cw_exec s4)) drains (xe_crashed (cw_exec s5))"
        unfolding s5_def using crawl_history_did [OF did_conn [OF before conn] alive] by blast
      have ids': "xe_resource_ids (cw_exec s4) = ids" "xe_resource_ids (cw_exec s') = ids"
        using e4(3) d(5) e6(3) first_kept(3) by (simp_all add: kept_def)
      have "did env (all_drained drains) ((e1 @ e2 @ e4) @ all_exchanges drains @ e6) s s'"
        using did_trans [OF did_trans [OF before d(1)] e6(1)] by simp
      moreover have "cw_failures s' = [] \<longrightarrow> xe_crashed (cw_exec s') \<or>
          map fst drains = xe_resource_ids (cw_exec s') \<and> drains \<noteq> [] \<and> drained_whole env (own_of s) drains"
      proof
        assume clean: "cw_failures s' = []"
        then have "cw_failures s5 = []" by (rule step_ok_clean [OF e6(2)])
        moreover have "xe_crashed (cw_exec s') = xe_crashed (cw_exec s5)" unfolding s' by (rule crashed_after)
        ultimately show "xe_crashed (cw_exec s') \<or>
          map fst drains = xe_resource_ids (cw_exec s') \<and> drains \<noteq> [] \<and> drained_whole env (own_of s) drains"
          using d(2,6) ids' ids(3) True did_own [OF before] by auto
      qed
      moreover have "bounded_chains env (own_of s) (cw_across s = None) drains"
        using bounded_chains_fresh [OF d(3) [unfolded did_own [OF before]]] first_kept(2) e4(3) by (auto simp: kept_def)
      moreover have "step_ok killed s s'"
        by (rule step_ok_trans [OF step_ok_trans [OF step_ok_trans [OF first(2) e4(2)] d(4)] e6(2)])
      moreover have "xe_label (cw_exec s') = xe_label (cw_exec s)" "cw_across s = None \<longrightarrow> cw_across s' = None"
        using e4(3) d(5) e6(3) first_kept by (auto simp: kept_def)
      moreover have "closed env s4 \<longrightarrow> all_exchanges drains = [] \<and> closed env s5" "closed env s5 \<longrightarrow> e6 = []"
        using d(1) e6(1) by (simp_all add: did_def)
      then have "length (e1 @ e2 @ e4) < asks_before expect \<longrightarrow> all_exchanges drains @ e6 = []"
        "take_drains env (own_of s) (take (length drains) (xe_resource_ids (cw_exec s'))) (all_exchanges drains @ e6) = (drains, e6)"
        using pre(2) d(7) did_own [OF before] by (simp_all add: readable_def ids' del: length_append)
      moreover have "closed env s3 \<longrightarrow> e4 @ all_exchanges drains @ e6 = []"
        using e4(1) d(1) e6(1) by (auto simp: did_def)
      from names [OF this] have "xe_resource_ids (cw_exec s') = listed env ((e1 @ e2 @ e4) @ all_exchanges drains @ e6)"
        by (simp add: ids')
      moreover have "xe_crashed (cw_exec s') = xe_crashed (cw_exec s5)" unfolding s' by (rule crashed_after)
      then have "all_or_crashed env (own_of s) (xe_resource_ids (cw_exec s')) drains (xe_crashed (cw_exec s'))"
        using d(8) did_own [OF before] by (simp add: ids')
      ultimately have "crawl_view env expect killed s s' (e1 @ e2 @ e4) drains e6"
        using pre(1) unfolding crawl_view_def by blast
      then show ?thesis unfolding s'_def by blast
    qed
  qed
qed

text \<open>The adapter id the hello reply announced, which is the first thing a transcript records.\<close>

definition announced :: "'s conn_env \<Rightarrow> exchange list \<Rightarrow> string" where
  "announced env t =
     (case t of
        [] \<Rightarrow> []
      | ex # _ \<Rightarrow>
          (case (ex_frame ex, ex_received_at ex) of
             (Some frame, Some received_at) \<Rightarrow>
               (case decode_reply (ce_from_str env) (ce_err_text env) de_hello_reply OP_HELLO (frame, received_at) of
                  Inr (hello, _) \<Rightarrow> hr_adapter_id hello
                | Inl _ \<Rightarrow> [])
           | _ \<Rightarrow> []))"

lemma spawn_recorded:
  assumes "spawn_impl env argv extra deadline True = Inr h"
  obtains ex where "snd (hd_conn h) = Some [ex]" "announced env (ex # es) = hr_adapter_id (hd_hello h)"
proof -
  obtain c where c: "ce_spawn env argv extra deadline = Inr c"
    using assms by (auto simp: spawn_impl_def split: sum.splits)
  obtain result c' t where m: "mux_call env OP_HELLO (json_value (ser_hello_params OFFERED_PROTOCOLS)) (c, Some []) = (result, c', t)"
    using prod_cases3 by blast
  obtain hello permits where s: "fst (handshake (ce_from_str env) (ce_err_text env) result) = Inr (hello, permits)"
    "h = \<lparr>hd_conn = (ce_raise env permits c', t), hd_hello = hello\<rparr>"
    using assms by (auto simp: spawn_impl_def c m split: sum.splits)
  obtain frame received_at where r: "result = Inr (frame, received_at)"
    using s(1) by (cases result) (auto simp: handshake_def)
  obtain x where d: "decode_reply (ce_from_str env) (ce_err_text env) de_hello_reply OP_HELLO (frame, received_at) = Inr (hello, x)"
    using s(1) r by (auto simp: handshake_def split: sum.splits if_splits)
  from mux_call_transcript [OF m] r show thesis
    by (auto simp: s(2) announced_def d intro!: that)
qed

lemma new_view: "wire_view [] (cw_exec (crawl_new h label across))" "wire_view [] (execution_new label)"
  by (simp_all add: wire_view_def crawl_new_def execution_new_def sequence_def ledger_new_def)

text \<open>
  The drains of an execution, read off its transcript: after the hello and what is asked before the
  history, those of its first resources, in order, the resources being those listed there. And what the ledger and the fold are then: exactly
  the observations of the replies of these drains, for all resources unless the adapter crashed in
  the middle of one.
\<close>

definition drains_of :: "'s conn_env \<Rightarrow> json \<Rightarrow> nat \<Rightarrow> execution \<Rightarrow> drains" where
  "drains_of env expect k x =
     fst (take_drains env (announced env (xe_transcript x)) (take k (xe_resource_ids x))
            (drop (1 + asks_before expect) (xe_transcript x)))"

definition seen_on_wire :: "'s conn_env \<Rightarrow> json \<Rightarrow> bool \<Rightarrow> nat \<Rightarrow> execution \<Rightarrow> bool" where
  "seen_on_wire env expect fresh k x \<longleftrightarrow>
     (let own = announced env (xe_transcript x); drains = drains_of env expect k x in
      xe_resource_ids x = listed env (drop 1 (xe_transcript x)) \<and>
      wire_view (wire_history env own drains) x \<and> bounded_chains env own fresh drains \<and>
      (k = length (xe_resource_ids x) \<or>
       k < length (xe_resource_ids x) \<and> xe_crashed x \<and> drains \<noteq> [] \<and>
       \<not> to_the_end env own (fst (last drains)) (snd (last drains))))"

lemma finish_view:
  assumes h: "snd (hd_conn h) = Some [ex]" "\<And>es. announced env (ex # es) = hr_adapter_id (hd_hello h)"
    and view: "crawl_view env expect killed (crawl_new h label across) s pre drains post"
    and x: "x = cw_exec (finish_crawl env expect c s)"
  shows "seen_on_wire env expect (across = None) (length drains) x"
    and "drains_of env expect (length drains) x = drains" "announced env (xe_transcript x) = hr_adapter_id (hd_hello h)"
proof -
  let ?own = "hr_adapter_id (hd_hello h)"
  have own: "own_of (crawl_new h label across) = ?own" by (simp add: own_of_def crawl_new_def)
  note v = view [unfolded crawl_view_def own]
  have t: "xe_transcript x = ex # pre @ all_exchanges drains @ post"
  proof -
    have "did env (all_drained drains) (pre @ all_exchanges drains @ post) (crawl_new h label across) s"
      using v by blast
    from did_conn [OF this, of "[ex]"] h(1) have "snd (hd_conn (cw_handle s)) = Some (ex # pre @ all_exchanges drains @ post)"
      by (simp add: crawl_new_def)
    then show ?thesis by (simp add: x finish_crawl_def Let_def handle_transcript_def) (simp add: fail_def on_exec_def)
  qed
  have same: "xe_resource_ids x = xe_resource_ids (cw_exec s)" "xe_crashed x = xe_crashed (cw_exec s)"
    "xe_fold x = xe_fold (cw_exec s)" "xe_ledger x = xe_ledger (cw_exec s)"
    by (simp_all add: x finish_crawl_def Let_def fail_def on_exec_def)
  show a: "announced env (xe_transcript x) = ?own" by (simp add: t h(2))
  have "drop (asks_before expect) (pre @ all_exchanges drains @ post) = all_exchanges drains @ post"
    using v by (cases "length pre < asks_before expect") auto
  then have "drop (1 + asks_before expect) (xe_transcript x) = all_exchanges drains @ post" by (simp add: t)
  moreover have "take_drains env ?own (take (length drains) (xe_resource_ids (cw_exec s))) (all_exchanges drains @ post) =
      (drains, post)" using v by blast
  ultimately show d: "drains_of env expect (length drains) x = drains" unfolding drains_of_def a same by simp
  have "wire_view (wire_history env ?own drains) (cw_exec s)"
    using v new_view(1) [of h label across]
    by (fastforce simp: did_def view_grows_def wire_history_def own)
  then have "wire_view (wire_history env ?own drains) x" by (simp add: wire_view_def same)
  moreover have "bounded_chains env ?own (across = None) drains" using v by (simp add: crawl_new_def)
  moreover have "all_or_crashed env ?own (xe_resource_ids x) drains (xe_crashed x)" using v unfolding same by blast
  moreover have "xe_resource_ids x = listed env (drop 1 (xe_transcript x))" using v unfolding same t by simp
  ultimately show "seen_on_wire env expect (across = None) (length drains) x"
    unfolding seen_on_wire_def Let_def d a all_or_crashed_def by blast
qed

text \<open>What a crawl without a failure certifies about the adapter.\<close>

definition certified :: "'s conn_env \<Rightarrow> json \<Rightarrow> execution \<Rightarrow> bool" where
  "certified env expect x \<longleftrightarrow>
     (let n = length (xe_resource_ids x) in
      seen_on_wire env expect True n x \<and> xe_resource_ids x \<noteq> [] \<and>
      drained_whole env (announced env (xe_transcript x)) (drains_of env expect n x)) \<and>
     \<not> xe_crashed x \<and>
     execution_ok (ce_from_str env) (ce_to_vec env) x expect CompleteSequence (xe_fold x)"

lemma new_fresh:
  "xe_resource_ids (cw_exec (crawl_new h label across)) = []" "\<not> xe_crashed (cw_exec (crawl_new h label across))"
  by (simp_all add: crawl_new_def execution_new_def)

lemma run_crawl_view:
  "\<exists>k. seen_on_wire env expect (m = CompleteRun) k (fst (snd (run_crawl env argv path stem run expect m deadline)))"
proof -
  obtain c across killed where m: "mode_parts m = (c, across, killed)" using prod_cases3 by blast
  let ?label = "stem @ ''[run '' @ dec run @ '']''"
  show ?thesis
  proof (cases "spawn_impl env argv (env_for path run) deadline True")
    case (Inl e)
    then have "fst (snd (run_crawl env argv path stem run expect m deadline)) = execution_new ?label"
      by (simp add: run_crawl_def m Let_def)
    moreover have "seen_on_wire env expect (m = CompleteRun) 0 (execution_new ?label)"
      using new_view(2)
      by (simp add: seen_on_wire_def listed_def drains_of_def execution_new_def bounded_chains_def wire_history_def
          on_the_wire_def all_drained_def)
    ultimately show ?thesis by auto
  next
    case (Inr h)
    obtain ex where t: "snd (hd_conn h) = Some [ex]" using spawn_recorded [OF Inr] by metis
    have own: "announced env (ex # es) = hr_adapter_id (hd_hello h)" for es
      using spawn_recorded [OF Inr, of es] t by fastforce
    have "snd (hd_conn (cw_handle (crawl_new h ?label across))) = Some [ex]" using t by (simp add: crawl_new_def)
    from crawl_steps_view [OF this new_fresh, of env expect killed] obtain pre drains post where
      v: "crawl_view env expect killed (crawl_new h ?label across) (crawl_steps env expect killed (crawl_new h ?label across)) pre drains post"
      by blast
    have "fst (snd (run_crawl env argv path stem run expect m deadline)) =
      cw_exec (finish_crawl env expect c (crawl_steps env expect killed (crawl_new h ?label across)))"
      by (simp add: run_crawl_def m Let_def Inr)
    moreover have "(m = CompleteRun) = (across = None)" using m by (auto simp: mode_parts_def split: mode.splits)
    ultimately show ?thesis using finish_view(1) [OF t own v refl, of c] by auto
  qed
qed

lemma finish_failures:
  "cw_failures (finish_crawl env expect c s) =
     cw_failures s @ judge_close (xe_label (cw_exec s)) (handle_close env (cw_handle s)) @
     assert_execution (ce_from_str env) (ce_to_vec env) (cw_exec (finish_crawl env expect c s)) expect c (live_fold_of s)"
proof -
  have "live_fold_of (fail fs s) = live_fold_of s" for fs and s :: "'a crawl"
    by (simp add: fail_def live_fold_of_def split: option.split)
  moreover have "live_fold_of (on_exec (\<lambda>x. x\<lparr>xe_transcript := t, xe_request_shapes := js\<rparr>) s) = live_fold_of s" for t js
    by (simp add: on_exec_def live_fold_of_def split: option.split)
  ultimately show ?thesis
    by (simp add: finish_crawl_def Let_def) (simp add: fail_def on_exec_def)
qed

lemma run_crawl_clean:
  assumes clean: "fst (run_crawl env argv path stem run expect CompleteRun deadline) = []"
  shows "certified env expect (fst (snd (run_crawl env argv path stem run expect CompleteRun deadline)))"
proof -
  let ?label = "stem @ ''[run '' @ dec run @ '']''"
  obtain h where h: "spawn_impl env argv (env_for path run) deadline True = Inr h"
    using clean by (cases "spawn_impl env argv (env_for path run) deadline True")
      (simp_all add: run_crawl_def mode_parts_def Let_def)
  obtain ex where t: "snd (hd_conn h) = Some [ex]" using spawn_recorded [OF h] by metis
  have own: "announced env (ex # es) = hr_adapter_id (hd_hello h)" for es
    using spawn_recorded [OF h, of es] t by fastforce
  define s0 where "s0 = crawl_new h ?label None"
  define s where "s = crawl_steps env expect False s0"
  define s' where "s' = finish_crawl env expect CompleteSequence s"
  have run: "run_crawl env argv path stem run expect CompleteRun deadline = (cw_failures s', cw_exec s', cw_across s')"
    by (simp add: run_crawl_def mode_parts_def Let_def h s0_def s_def s'_def)
  have "snd (hd_conn (cw_handle s0)) = Some [ex]" using t by (simp add: s0_def crawl_new_def)
  then obtain pre drains post where v: "crawl_view env expect False s0 s pre drains post"
    unfolding s_def s0_def using crawl_steps_view [OF _ new_fresh] by blast
  note seen = finish_view [OF t own v [unfolded s0_def] s'_def [THEN arg_cong, of cw_exec]]
  have fails: "cw_failures s = []" "assert_execution (ce_from_str env) (ce_to_vec env) (cw_exec s') expect CompleteSequence (live_fold_of s) = []"
    using clean by (simp_all add: run s'_def finish_failures)
  have same: "xe_crashed (cw_exec s') = xe_crashed (cw_exec s)" "xe_resource_ids (cw_exec s') = xe_resource_ids (cw_exec s)"
      "xe_fold (cw_exec s') = xe_fold (cw_exec s)"
    by (simp_all add: s'_def finish_crawl_def Let_def fail_def on_exec_def)
  have "crash_blamed False s0" by (simp add: crash_blamed_def s0_def crawl_new_def execution_new_def)
  with v fails(1) have alive: "\<not> xe_crashed (cw_exec s)" by (simp add: crawl_view_def step_ok_def crash_blamed_def)
  have whole: "map fst drains = xe_resource_ids (cw_exec s)" "drains \<noteq> []"
      "drained_whole env (hr_adapter_id (hd_hello h)) drains" "cw_across s = None"
    using v fails(1) alive by (simp_all add: crawl_view_def s0_def crawl_new_def own_of_def)
  have "execution_ok (ce_from_str env) (ce_to_vec env) (cw_exec s') expect CompleteSequence (xe_fold (cw_exec s'))"
    using fails(2) whole(4) same(3) by (simp add: assert_execution_iff live_fold_of_def)
  moreover have "length drains = length (xe_resource_ids (cw_exec s'))" "xe_resource_ids (cw_exec s') \<noteq> []"
    using whole(1,2) same(2) by (metis length_map, metis list.simps(8) map_is_Nil_conv)
  ultimately show ?thesis
    using seen whole(3) alive same(1) unfolding run fst_conv snd_conv certified_def Let_def by simp
qed

end
