(* ===== verification/Runner_Correct.thy ===== *)
theory Runner_Correct
  imports Crawl_Correct Runner
begin

text \<open>
  What a case without a failure certifies: both of its executions, and that the association of
  local ids with provider records is the same in two processes.
\<close>

section \<open>Comparing two executions\<close>

lemma content_diff_iff:
  assumes "btree_ok actual" "btree_ok expected"
  shows "content_diff actual expected = [] \<longleftrightarrow> actual = expected"
proof
  assume c: "content_diff actual expected = []"
  have "map_of actual k = Some v" if "map_of expected k = Some v" for k v
  proof -
    have "(k, v) \<in> set expected" using that by (rule map_of_SomeD)
    with c show ?thesis by (force simp: content_diff_def split: option.splits if_splits)
  qed
  moreover have "map_of expected k \<noteq> None" if "map_of actual k = Some v" for k v
    using c map_of_SomeD [OF that] by (force simp: content_diff_def filter_empty_conv)
  ultimately have "map_of actual = map_of expected"
    by (intro ext) (metis option.exhaust)
  then show "actual = expected" by (rule btree_ext [OF assms])
next
  assume "actual = expected"
  moreover have "map_of expected k = Some v" if "(k, v) \<in> set expected" for k v
    using that btree_ok_distinct [OF assms(2)] by simp
  ultimately show "content_diff actual expected = []"
    by (force simp: content_diff_def filter_empty_conv)
qed

lemma history_by_local_id_ok: "btree_ok (history_by_local_id lg)"
proof -
  have step: "btree_ok m \<Longrightarrow> btree_ok (foldl (\<lambda>out e. case le_local_id e of
      Some lid \<Rightarrow> btree_insert lid ((case map_of out lid of Some js \<Rightarrow> js | None \<Rightarrow> []) @ [le_json e]) out
    | None \<Rightarrow> out) m es)" for m es
    by (induction es arbitrary: m) (simp_all split: option.split)
  have "map fst (map (map_prod id JArr) m) = map fst m" for m :: "(string \<times> json list) list"
    by (induction m) auto
  then show ?thesis using step [of "[]"] by (simp add: history_by_local_id_def btree_ok_def)
qed

lemma purity_iff:
  "assert_local_id_purity x y = [] \<longleftrightarrow>
     xe_request_shapes x = xe_request_shapes y \<and>
     history_by_local_id (xe_ledger x) = history_by_local_id (xe_ledger y)"
  using content_diff_iff [OF history_by_local_id_ok history_by_local_id_ok, of "xe_ledger y" "xe_ledger x"]
  by (auto simp: assert_local_id_purity_def Let_def)

text \<open>The execution that the n-th process launched for a fixture of the standard case is judged by.\<close>

definition crawled :: "(nat \<Rightarrow> 's conn_env) \<Rightarrow> string list \<Rightarrow> string \<Rightarrow> string \<Rightarrow> json \<Rightarrow> nat \<Rightarrow> execution" where
  "crawled launches argv path stem fixture n =
     fst (snd (run_crawl (launches n) argv path stem 0 (expect_of fixture) CompleteRun (deadline_of fixture)))"

lemma case_crawl_clean:
  assumes "case_crawl launches argv path stem fixture = []"
  shows "n < 2 \<Longrightarrow> certified (launches n) (expect_of fixture) (crawled launches argv path stem fixture n)"
    and "xe_request_shapes (crawled launches argv path stem fixture 0) =
      xe_request_shapes (crawled launches argv path stem fixture 1)"
    and "history_by_local_id (xe_ledger (crawled launches argv path stem fixture 0)) =
      history_by_local_id (xe_ledger (crawled launches argv path stem fixture 1))"
proof -
  let ?run = "\<lambda>n. run_crawl (launches n) argv path stem 0 (expect_of fixture) CompleteRun (deadline_of fixture)"
  have c: "fst (?run 0) = []" "fst (?run 1) = []"
    "assert_local_id_purity (fst (snd (?run 0))) (fst (snd (?run 1))) = []"
    using assms by (simp_all add: case_crawl_def Let_def case_prod_beta)
  show "certified (launches n) (expect_of fixture) (crawled launches argv path stem fixture n)" if "n < 2"
  proof -
    have "n = 0 \<or> n = 1" using that by auto
    with c(1,2) have "fst (?run n) = []" by auto
    from run_crawl_clean [OF this] show ?thesis by (simp add: crawled_def)
  qed
  show "xe_request_shapes (crawled launches argv path stem fixture 0) =
      xe_request_shapes (crawled launches argv path stem fixture 1)"
    "history_by_local_id (xe_ledger (crawled launches argv path stem fixture 0)) =
      history_by_local_id (xe_ledger (crawled launches argv path stem fixture 1))"
    using c(3) by (simp_all only: purity_iff crawled_def)
qed

section \<open>A scripted adapter\<close>

text \<open>An adapter with one resource and one transaction; a frame is named by the operation it answers.\<close>

definition script_stamp :: rfc3339 where "script_stamp = Rfc3339 ''2024-01-01T00:00:00Z''"

definition script_ok :: "json \<Rightarrow> json" where
  "script_ok body = JObj [(''id'', JInt 1), (''ok'', body)]"

definition script_status :: json where
  "script_status = JObj [(''resource_id'', JStr ''r''), (''outcome'', JObj [(''fetched'', JObj [(''page_empty'', JBool False)])])]"

definition script_tx :: json where
  "script_tx = JObj
     [(''resource_id'', JStr ''r''), (''local_id'', JStr ''tx''), (''state'', JStr ''active''),
      (''surface'', JStr ''s''), (''posting'', JStr ''posted''),
      (''amount'', JObj [(''asset'', JStr ''EUR''), (''amount'', JStr ''1'')]),
      (''raw_sign'', JStr ''provider_positive''), (''description'', JStr ''d''),
      (''provenance'', JObj
         [(''adapter_id'', JStr ''a''), (''provider_id'', JStr ''p''), (''surface'', JStr ''s''),
          (''observed_at'', JStr ''2024-01-01T00:00:00Z''), (''completeness'', JStr ''complete'')])]"

definition script_from_str :: "string \<Rightarrow> json option" where
  "script_from_str frame = map_of
     [(OP_HELLO, script_ok (JObj
         [(''protocol'', JStr ''1''), (''adapter_id'', JStr ''a''), (''adapter_version'', JStr ''1''),
          (''capabilities'', JArr []), (''local_id_derivation'', JStr ''d'')])),
      (OP_RESOURCES_LIST, script_ok (JObj [(''resources'', JArr [JObj
         [(''resource_id'', JStr ''r''), (''provider_id'', JStr ''p''), (''kind'', JStr ''k''), (''label'', JStr ''l'')]])])),
      (OP_BALANCES_READ, script_ok (JObj [(''observations'', JArr []), (''statuses'', JArr [script_status])])),
      (OP_HISTORY_READ, script_ok (JObj [(''observations'', JArr [script_tx]), (''statuses'', JArr [script_status])])),
      (OP_STATUS_READ, script_ok (JObj [(''statuses'', JArr [script_status])]))] frame"

definition script_env :: "unit conn_env" where
  "script_env =
     \<lparr>ce_spawn = (\<lambda>_ _ _. Inr ()), ce_send = (\<lambda>op _ c. (Inr (op, script_stamp), c)),
      ce_join = (\<lambda>p q c. ((Inr (fst p, script_stamp), Inr (fst q, script_stamp)), c)),
      ce_terminal = (\<lambda>_. None), ce_raise = (\<lambda>_ c. c), ce_close = (\<lambda>_. None),
      ce_from_str = script_from_str, ce_err_text = id, ce_to_vec = (\<lambda>_. Some 100)\<rparr>"

definition script_fixture :: json where
  "script_fixture = JObj [(''expect'', JObj
     [(''ledger'', JObj [(''r'', JObj [(''history'', JArr [JObj
         [(''local_id'', JStr ''tx''), (''state'', JStr ''active'')]])])]),
      (''live'', JObj [(''r'', JArr [JStr ''tx''])])])]"

definition script_ask :: "string \<Rightarrow> json \<Rightarrow> exchange" where
  "script_ask op params =
     \<lparr>ex_op = op, ex_params = json_value params, ex_frame = Some op, ex_received_at = Some script_stamp\<rparr>"

definition script_hello :: hello_reply where
  "script_hello = \<lparr>hr_protocol = ''1'', hr_adapter_id = ''a'', hr_adapter_version = ''1'', hr_capabilities = [],
                   hr_local_id_derivation = ''d'', hr_max_in_flight = default_max_in_flight\<rparr>"

definition script_handle :: "exchange list \<Rightarrow> unit adapter_handle" where
  "script_handle t = \<lparr>hd_conn = ((), Some t), hd_hello = script_hello\<rparr>"

definition script_resource :: resource_descriptor where
  "script_resource = \<lparr>rd_resource_id = ''r'', rd_provider_id = ''p'', rd_kind = ''k'', rd_label = ''l'',
                      rd_provider_extra = None\<rparr>"

definition script_read :: resource_status where
  "script_read = \<lparr>rs_resource_id = ''r'', rs_outcome = Fetched False, rs_degraded = [], rs_provider_detail = None,
                  rs_page = None, rs_credential_expires_at = None, rs_strong_auth_expires_at = None,
                  rs_history_start = None\<rparr>"

definition script_wire :: observation_wire where
  "script_wire =
     \<lparr>ow_resource_id = ''r'', ow_local_id = ''tx'', ow_provider_id = None, ow_supersedes_provider_id = None,
      ow_state = Active, ow_tombstone_reason = None, ow_surface = ''s'', ow_posting = Posted,
      ow_amount = \<lparr>asset = AssetId ''EUR'', units = 1, scale = 0\<rparr>, ow_fees = None,
      ow_raw_sign = ProviderPositive, ow_description = ''d'', ow_provider_extra = [],
      ow_provenance = \<lparr>pw_adapter_id = ''a'', pw_provider_id = ''p'', pw_surface = ''s'',
        pw_observed_at = script_stamp, pw_effective_at = None, pw_completeness = Complete\<rparr>\<rparr>"

lemma script_call:
  "handle_call script_env op params decode (script_handle t) =
     (decode (Inr (op, script_stamp)), script_handle (t @ [script_ask op params]))"
  by (simp add: handle_call_def mux_call_def script_env_def script_handle_def script_ask_def transcript_push_def
      transcript_fill_def list_update_append)

lemma script_env_sel:
  "ce_from_str script_env = script_from_str" "ce_err_text script_env = id" "ce_to_vec script_env = (\<lambda>_. Some 100)"
  by (simp_all add: script_env_def)

lemma script_hello_read:
  "decode_reply script_from_str id de_hello_reply OP_HELLO (OP_HELLO, script_stamp) = Inr (script_hello, script_stamp)"
  by code_simp

lemma script_spawn:
  "spawn_impl script_env argv extra d True =
     Inr (script_handle [script_ask OP_HELLO (ser_hello_params OFFERED_PROTOCOLS)])"
  by (simp add: spawn_impl_def mux_call_def transcript_push_def transcript_fill_def handshake_def script_hello_read
      script_env_def script_handle_def script_ask_def OFFERED_PROTOCOLS_def) (simp add: script_hello_def)

lemma script_replies:
  "call_typed_with_receipt script_from_str id de_resources_list_reply OP_RESOURCES_LIST (Inr (OP_RESOURCES_LIST, script_stamp)) =
     Inr ([script_resource], script_stamp)"
  "call_typed_with_receipt script_from_str id de_balances_read_reply OP_BALANCES_READ (Inr (OP_BALANCES_READ, script_stamp)) =
     Inr (([], [script_read]), script_stamp)"
  "call_typed_with_receipt script_from_str id de_history_read_reply OP_HISTORY_READ (Inr (OP_HISTORY_READ, script_stamp)) =
     Inr (([script_wire], [script_read]), script_stamp)"
  "call_typed_with_receipt script_from_str id de_status_read_reply OP_STATUS_READ (Inr (OP_STATUS_READ, script_stamp)) =
     Inr ([script_read], script_stamp)"
  by code_simp+

lemma script_covered: "check_status_coverage op [''r''] [script_read] = Inr ()"
  by (simp add: check_status_coverage_def script_read_def)

definition script_ob :: observation where
  "script_ob = observation_stamp script_wire script_stamp Live"

lemma script_calls:
  "handle_resources_list script_env (script_handle t) =
     (Inr [script_resource], script_handle (t @ [script_ask OP_RESOURCES_LIST (JObj [])]))"
  "handle_balances_read script_env [''r''] (script_handle t) =
     (Inr \<lparr>br_observations = [], br_statuses = [script_read]\<rparr>,
      script_handle (t @ [script_ask OP_BALANCES_READ (ser_balances_read_params [''r''])]))"
  "handle_history_read script_env [\<lparr>qy_resource_id = ''r'', qy_page = pg\<rparr>] (script_handle t) =
     (Inr \<lparr>hrd_observations = [script_ob], hrd_statuses = [script_read]\<rparr>,
      script_handle (t @ [script_ask OP_HISTORY_READ (ser_history_read_params [\<lparr>qy_resource_id = ''r'', qy_page = pg\<rparr>])]))"
  "handle_status_read script_env [''r''] (script_handle t) =
     (Inr [script_read], script_handle (t @ [script_ask OP_STATUS_READ (ser_status_read_params [''r''])]))"
  by (simp_all add: handle_resources_list_def handle_balances_read_def handle_history_read_def handle_status_read_def
      script_call script_env_sel script_replies script_covered balances_read_def history_read_def status_read_def
      MAX_OBSERVATION_BYTES_def written_bytes_def)
    (simp_all add: script_ob_def script_read_def script_wire_def staleness_for_def staleness_by_resource_def
      script_handle_def script_hello_def)

definition script_entry :: ledger_entry where
  "script_entry = \<lparr>le_local_id = Some ''tx'', le_json = stable_view (to_json ser_observation script_ob)\<rparr>"

definition script_execution :: "string \<Rightarrow> execution" where
  "script_execution label =
     (let t = [script_ask OP_HELLO (ser_hello_params OFFERED_PROTOCOLS), script_ask OP_RESOURCES_LIST (JObj []),
               script_ask OP_BALANCES_READ (ser_balances_read_params [''r'']),
               script_ask OP_HISTORY_READ (ser_history_read_params [\<lparr>qy_resource_id = ''r'', qy_page = None\<rparr>]),
               script_ask OP_STATUS_READ (ser_status_read_params [''r''])] in
      \<lparr>xe_label = label, xe_fold = snd (ingest script_ob fold_new),
       xe_ledger = \<lparr>lg_seqs = [((''r'', History), [script_entry])],
                    lg_frames = [((''r'', Balances), 1), ((''r'', History), 1)]\<rparr>,
       xe_transcript = t, xe_request_shapes = map request_shape t, xe_resource_ids = [''r''],
       xe_crashed = False\<rparr>)"

definition script_expect :: json where "script_expect = expect_of script_fixture"

lemma script_expect_keys:
  "json_get k script_expect = (if k = ''ledger'' then Some (JObj [(''r'', JObj [(''history'', JArr [JObj
         [(''local_id'', JStr ''tx''), (''state'', JStr ''active'')]])])])
    else if k = ''live'' then Some (JObj [(''r'', JArr [JStr ''tx''])]) else None)"
  by (simp add: script_expect_def script_fixture_def expect_of_def)

lemma script_statuses_ok: "assert_status_coverage [''r''] (map (to_json ser_resource_status) [script_read]) = []"
  by code_simp

lemma script_sized: "assert_wire_size (\<lambda>_. Some 100) wr = []"
  by (cases wr) (simp add: assert_wire_size_def MAX_OBSERVATION_BYTES_def)

lemma script_raw: "fst (raw_observations script_from_str (script_execution label)) = []"
  by code_simp

lemma script_declared:
  "parse_declared (JObj [(''r'', JObj [(''history'', JArr [JObj [(''local_id'', JStr ''tx''), (''state'', JStr ''active'')]])])]) label =
     ([], \<lparr>dc_seqs = [((''r'', History), [JObj [(''local_id'', JStr ''tx''), (''state'', JStr ''active'')]])], dc_omitted = []\<rparr>)"
  by code_simp

lemma script_sequence:
  "judge_sequence (script_execution label)
     \<lparr>dc_seqs = [((''r'', History), [JObj [(''local_id'', JStr ''tx''), (''state'', JStr ''active'')]])], dc_omitted = []\<rparr>
     CompleteSequence (''r'', History) = []"
  by code_simp

lemma script_live: "assert_live label script_expect (snd (ingest script_ob fold_new)) CompleteSequence = []"
  by code_simp

lemma script_judged:
  "assert_execution script_from_str (\<lambda>_. Some 100) (script_execution label) script_expect CompleteSequence
     (snd (ingest script_ob fold_new)) = []"
proof -
  have "xe_label (script_execution label) = label" "ledger_keys (xe_ledger (script_execution label)) = [(''r'', History)]"
    by (simp_all add: script_execution_def Let_def ledger_keys_def btree_set_def btree_of_def)
  then show ?thesis
    by (simp add: assert_execution_def script_expect_keys script_raw script_sized script_declared script_sequence
        script_live case_prod_beta btree_set_def btree_of_def)
qed

lemma script_no_extra:
  "provider_extra_keys (map (to_json ser_resource_descriptor) [script_resource]) = []"
  "provider_extra_keys [le_json script_entry] = []"
  by code_simp+

lemma script_read_id: "by_resource (map (to_json ser_resource_status) [script_read]) m = status_push ''r'' (map (to_json ser_resource_status) [script_read]) m"
proof -
  have "Option.bind (json_get ''resource_id'' (to_json ser_resource_status script_read)) json_str = Some ''r''" by code_simp
  then show ?thesis by (simp add: by_resource_def)
qed

lemma script_crawl_resources:
  "crawl_resources script_env script_expect
     \<lparr>cw_handle = script_handle t, cw_exec = x, cw_across = None, cw_failures = [], cw_statuses = m,
      cw_status_read = js, cw_verified = v, cw_extra = []\<rparr> =
   (True, \<lparr>cw_handle = script_handle (t @ [script_ask OP_RESOURCES_LIST (JObj [])]), cw_exec = x\<lparr>xe_resource_ids := [''r'']\<rparr>,
      cw_across = None, cw_failures = [], cw_statuses = m, cw_status_read = js, cw_verified = v, cw_extra = []\<rparr>)"
  using script_no_extra
  by (simp add: crawl_resources_def ask_def script_calls script_expect_keys saw_extra_def on_exec_def fail_def btree_set_def btree_of_def
      script_resource_def)

lemma script_crawl_balances:
  assumes "xe_resource_ids x = [''r'']"
  shows "crawl_balances script_env script_expect False
     \<lparr>cw_handle = script_handle t, cw_exec = x, cw_across = None, cw_failures = [], cw_statuses = m,
      cw_status_read = js, cw_verified = v, cw_extra = e\<rparr> =
   (True, \<lparr>cw_handle = script_handle (t @ [script_ask OP_BALANCES_READ (ser_balances_read_params [''r''])]),
      cw_exec = x\<lparr>xe_ledger := count_frame Balances ''r'' (xe_ledger x)\<rparr>,
      cw_across = None, cw_failures = [], cw_statuses = status_push ''r'' (map (to_json ser_resource_status) [script_read]) m,
      cw_status_read = js, cw_verified = v @ [op_on ''balances.read'' ''r''], cw_extra = e\<rparr>)"
  using assms script_statuses_ok script_read_id [of m]
  by (simp add: crawl_balances_def ask_def script_calls script_expect_keys on_ledger_def on_exec_def fail_def verify_def
      expect_key_def Let_def)

lemma script_drained:
  "drain_history script_env ''r'' False (Suc n) None
     \<lparr>cw_handle = script_handle t, cw_exec = x, cw_across = None, cw_failures = [], cw_statuses = m,
      cw_status_read = js, cw_verified = v, cw_extra = e\<rparr> =
   (map (to_json ser_resource_status) [script_read],
    \<lparr>cw_handle = script_handle (t @ [script_ask OP_HISTORY_READ (ser_history_read_params [\<lparr>qy_resource_id = ''r'', qy_page = None\<rparr>])]),
      cw_exec = x\<lparr>xe_ledger := ledger_push History ''r'' (Some ''tx'') (le_json script_entry) (count_frame History ''r'' (xe_ledger x)),
                  xe_fold := snd (ingest script_ob (xe_fold x))\<rparr>,
      cw_across = None, cw_failures = [], cw_statuses = m, cw_status_read = js, cw_verified = v, cw_extra = e\<rparr>)"
proof -
  have "ob_resource_id script_ob = ''r''" "ob_local_id script_ob = ''tx''" "rs_page script_read = None"
    by (simp_all add: script_ob_def observation_stamp_def script_wire_def script_read_def)
  then show ?thesis
    using script_statuses_ok
    by (simp add: ask_def script_calls history_page_def page_of_def push_observation_def on_ledger_def on_exec_def fail_def
        script_entry_def)
qed

lemma MAX_CRAWL_PAGES_alt: "MAX_CRAWL_PAGES = Suc 499"
  by (simp add: MAX_CRAWL_PAGES_def)

lemma script_steps:
  "crawl_steps script_env script_expect False (crawl_new (script_handle t) label None) =
     \<lparr>cw_handle = script_handle (t @ [script_ask OP_RESOURCES_LIST (JObj []),
               script_ask OP_BALANCES_READ (ser_balances_read_params [''r'']),
               script_ask OP_HISTORY_READ (ser_history_read_params [\<lparr>qy_resource_id = ''r'', qy_page = None\<rparr>]),
               script_ask OP_STATUS_READ (ser_status_read_params [''r''])]),
      cw_exec = (execution_new label)\<lparr>xe_resource_ids := [''r''], xe_fold := snd (ingest script_ob fold_new),
        xe_ledger := xe_ledger (script_execution label)\<rparr>,
      cw_across = None, cw_failures = [],
      cw_statuses = status_push ''r'' (map (to_json ser_resource_status) [script_read])
        (status_push ''r'' (map (to_json ser_resource_status) [script_read]) []),
      cw_status_read = map (to_json ser_resource_status) [script_read],
      cw_verified = [op_on ''balances.read'' ''r'', op_on ''history.read'' ''r'', op_on ''status.read'' ''r''],
      cw_extra = []\<rparr>"
proof -
  have lg: "ledger_push History ''r'' (Some ''tx'') (le_json script_entry)
      (count_frame History ''r'' (count_frame Balances ''r'' ledger_new)) = xe_ledger (script_execution label)"
    by (simp add: ledger_push_def count_frame_def ledger_new_def script_execution_def Let_def sequence_def
        ledger_frames_def script_entry_def less_prod_def less_eq_prod_def less_obs_kind_def)
  have history: "sequence History ''r'' (xe_ledger (script_execution label)) = [script_entry]"
    by (simp add: sequence_def script_execution_def Let_def)
  show ?thesis
    using script_statuses_ok script_no_extra(2)
    by (simp add: crawl_steps_def crawl_new_def script_crawl_resources crawl_probe_def script_expect_keys
        script_crawl_balances execution_new_def crawl_history_of_def script_drained [of 499, folded MAX_CRAWL_PAGES_alt] Let_def lg history
        history_extra_def saw_extra_def crawl_status_def ask_def script_calls fail_def verify_def
        crawl_envelope_errors_def crawl_expectations_def expect_key_def btree_set_def btree_of_def del: drain_history.simps)
qed

lemma script_execution_view:
  "(execution_new label)\<lparr>xe_resource_ids := [''r''], xe_fold := snd (ingest script_ob fold_new),
     xe_ledger := xe_ledger (script_execution label),
     xe_transcript := xe_transcript (script_execution label),
     xe_request_shapes := map request_shape (xe_transcript (script_execution label))\<rparr> = script_execution label"
  by (simp add: execution_new_def script_execution_def Let_def)

lemma script_transcript:
  "handle_transcript (script_handle ([script_ask OP_HELLO (ser_hello_params OFFERED_PROTOCOLS)] @
     [script_ask OP_RESOURCES_LIST (JObj []), script_ask OP_BALANCES_READ (ser_balances_read_params [''r'']),
      script_ask OP_HISTORY_READ (ser_history_read_params [\<lparr>qy_resource_id = ''r'', qy_page = None\<rparr>]),
      script_ask OP_STATUS_READ (ser_status_read_params [''r''])])) = xe_transcript (script_execution label)"
  by (simp add: handle_transcript_def script_handle_def script_execution_def Let_def)

lemma script_run:
  "run_crawl script_env argv path stem run script_expect CompleteRun d =
     ([], script_execution (stem @ ''[run '' @ dec run @ '']''), None)"
proof -
  define label where "label = stem @ ''[run '' @ dec run @ '']''"
  define s where "s = crawl_steps script_env script_expect False
    (crawl_new (script_handle [script_ask OP_HELLO (ser_hello_params OFFERED_PROTOCOLS)]) label None)"
  have s: "handle_transcript (cw_handle s) = xe_transcript (script_execution label)" "cw_failures s = []" "cw_across s = None"
    "cw_exec s = (execution_new label)\<lparr>xe_resource_ids := [''r''], xe_fold := snd (ingest script_ob fold_new),
        xe_ledger := xe_ledger (script_execution label)\<rparr>"
    unfolding s_def script_steps using script_transcript by simp_all
  have closed: "judge_close l (handle_close script_env h) = []" for l h
    by (simp add: judge_close_def handle_close_def script_env_def)
  have x: "cw_exec (finish_crawl script_env script_expect CompleteSequence s) = script_execution label"
    using script_execution_view [of label] by (simp add: finish_crawl_def Let_def fail_def on_exec_def s)
  have "cw_failures (finish_crawl script_env script_expect CompleteSequence s) = []"
    unfolding finish_failures x using script_judged [of label]
    by (simp add: s closed script_env_sel live_fold_of_def)
  moreover have "cw_across (finish_crawl script_env script_expect CompleteSequence s) = None"
    by (simp add: finish_crawl_def Let_def fail_def on_exec_def s)
  ultimately show ?thesis
    using x by (simp add: run_crawl_def mode_parts_def script_spawn Let_def s_def label_def)
qed

lemma script_clean: "case_crawl (\<lambda>_. script_env) [] [] ''case'' script_fixture = []"
  using script_run by (simp add: case_crawl_def Let_def script_expect_def purity_iff)

end
