(* ===== verification/Suite.thy ===== *)
theory Suite
  imports Runner Seen
begin

text \<open>
  The command line of the conformance suite (\<open>conformance/src/main.rs\<close>): the arguments, the
  fixtures of a directory in order, their cases and the exit code. What a directory lists, what
  a file holds and what every process launched for a case does are parameters.
\<close>

section \<open>Arguments\<close>

definition starts_with_space :: "string \<Rightarrow> bool" where
  "starts_with_space s \<longleftrightarrow> list_ex (\<lambda>w. take (length w) s = w) white_space"

fun break_space :: "string \<Rightarrow> string \<times> string" where
  "break_space [] = ([], [])"
| "break_space (c # cs) =
     (if starts_with_space (c # cs) then ([], c # cs)
      else (case break_space cs of (a, b) \<Rightarrow> (c # a, b)))"

text \<open>\<open>str::split_whitespace\<close>; a step consumes at least one byte, so the length bounds the steps.\<close>

fun split_spaces :: "nat \<Rightarrow> string \<Rightarrow> string list" where
  "split_spaces 0 s = []"
| "split_spaces (Suc n) s =
     (let s = strip_front white_space s in
      if s = [] then []
      else (case break_space s of (word, rest) \<Rightarrow> word # split_spaces n rest))"

definition split_whitespace :: "string \<Rightarrow> string list" where
  "split_whitespace s = split_spaces (length s) s"

datatype suite_usage =
    NeedsValue string
  | Unrecognized string
  | MissingAdapter
  | MissingCases
  | EmptyArgv

fun suite_flags :: "string list \<Rightarrow> string option \<times> string option \<Rightarrow> suite_usage + string option \<times> string option" where
  "suite_flags [] f = Inr f"
| "suite_flags (arg # rest) f =
     (if arg = ''--adapter'' \<or> arg = ''--cases'' then
        (case rest of
           [] \<Rightarrow> Inl (NeedsValue arg)
         | v # rest \<Rightarrow> suite_flags rest (if arg = ''--adapter'' then (Some v, snd f) else (fst f, Some v)))
      else Inl (Unrecognized arg))"

definition parse_suite_args :: "string list \<Rightarrow> suite_usage + string list \<times> string" where
  "parse_suite_args args =
     res_bind (suite_flags args (None, None)) (\<lambda>(adapter, cases).
     res_bind (ok_or MissingAdapter adapter) (\<lambda>adapter.
     res_bind (ok_or MissingCases cases) (\<lambda>cases.
     let argv = split_whitespace adapter in
     if argv = [] then Inl EmptyArgv else Inr (argv, cases))))"

section \<open>The fixtures of a directory\<close>

definition extension_of :: "string \<Rightarrow> string option" where
  "extension_of name =
     (let ext = takeWhile (\<lambda>c. c \<noteq> CHR ''.'') (rev name) in
      if length ext + 1 < length name then Some (rev ext) else None)"

text \<open>The paths of one directory are ordered as their file names are.\<close>

definition case_names :: "string list \<Rightarrow> string list" where
  "case_names names = sort (filter (\<lambda>n. extension_of n = Some ''json'') names)"

section \<open>The run\<close>

text \<open>
  \<open>launches name n\<close> is the n-th process launched for the fixture of that name; \<open>read\<close> is what
  \<open>read_to_string\<close> returns for a path.
\<close>

definition run_suite ::
  "(string \<Rightarrow> nat \<Rightarrow> 's conn_env) \<Rightarrow> (string \<Rightarrow> json option) \<Rightarrow> nat \<Rightarrow> (string \<Rightarrow> string option) \<Rightarrow>
   string list \<Rightarrow> string \<Rightarrow> string list \<Rightarrow> case_outcome list" where
  "run_suite launches from_str polls read argv dir names =
     map (\<lambda>n. let path = path_join dir n in
              run_case (launches n) from_str polls argv path (file_stem n) (read path))
       (case_names names)"

definition suite_main ::
  "(string \<Rightarrow> nat \<Rightarrow> 's conn_env) \<Rightarrow> (string \<Rightarrow> json option) \<Rightarrow> nat \<Rightarrow> (string \<Rightarrow> string option) \<Rightarrow>
   (string \<Rightarrow> string list option) \<Rightarrow> string list \<Rightarrow> nat \<times> case_outcome list" where
  "suite_main launches from_str polls read read_dir args =
     (case parse_suite_args args of
        Inl _ \<Rightarrow> (2, [])
      | Inr (argv, dir) \<Rightarrow>
          (case read_dir dir of
             None \<Rightarrow> (2, [])
           | Some names \<Rightarrow>
               (let outcomes = run_suite launches from_str polls read argv dir names
                in (exit_code outcomes, outcomes))))"

end
