(* ===== verification/Suite_Correct.thy ===== *)
theory Suite_Correct
  imports Suite Runner_Correct
begin

text \<open>
  What the conformance suite says: the comparison of two sequences and the judgement of an
  execution as equivalences, that an execution has one source for all its views, and what exit
  code 0 means.
\<close>

section \<open>The words of an argument\<close>

lemma break_space_append: "break_space s = (a, b) \<Longrightarrow> s = a @ b"
  by (induction s arbitrary: a b) (auto split: if_splits prod.splits)

lemma strip_front_Nil [simp]: "strip_front ws [] = []"
proof -
  have "List.find (\<lambda>w. w \<noteq> [] \<and> take (length w) [] = w) ws = None" by (auto simp: find_None_iff)
  then show ?thesis by (simp add: strip_front.simps [of ws "[]"])
qed

lemma strip_front_length: "length (strip_front ws s) \<le> length s"
proof (induction ws s rule: strip_front.induct)
  case (1 ws s)
  show ?case
  proof (cases "List.find (\<lambda>w. w \<noteq> [] \<and> take (length w) s = w) ws")
    case None
    then show ?thesis by (simp add: strip_front.simps [of ws s])
  next
    case (Some w)
    from 1 [OF this] Some show ?thesis
      by (simp add: strip_front.simps [of ws s])
  qed
qed

lemma strip_front_done: "strip_front ws s \<noteq> [] \<Longrightarrow> w \<in> set ws \<Longrightarrow> w \<noteq> [] \<Longrightarrow>
  take (length w) (strip_front ws s) \<noteq> w"
proof (induction ws s rule: strip_front.induct)
  case (1 ws s)
  show ?case
  proof (cases "List.find (\<lambda>w. w \<noteq> [] \<and> take (length w) s = w) ws")
    case None
    then have "strip_front ws s = s" by (simp add: strip_front.simps [of ws s])
    with None 1(3,4) show ?thesis by (auto simp: find_None_iff)
  next
    case (Some v)
    with 1(1) [OF this] 1(2-4) show ?thesis by (simp add: strip_front.simps [of ws s])
  qed
qed

lemma split_spaces_step:
  assumes "s' = strip_front white_space s" "s' \<noteq> []" "break_space s' = (word, rest)"
  shows "word \<noteq> []" "length rest < length s"
proof -
  have "w \<noteq> []" if "w \<in> set white_space" for w using that by (auto simp: white_space_def)
  then have "\<not> starts_with_space s'"
    using strip_front_done [of white_space s] assms(1,2) by (auto simp: starts_with_space_def list_ex_iff)
  with assms(2,3) show "word \<noteq> []" by (cases s') (auto split: prod.splits)
  with break_space_append [OF assms(3)] strip_front_length [of white_space s] assms(1)
  show "length rest < length s" by (cases word) auto
qed

text \<open>The bound on the steps is never what ends the splitting.\<close>

lemma split_spaces_bound: "length s \<le> n \<Longrightarrow> split_spaces n s = split_spaces (length s) s"
proof (induction n arbitrary: s rule: less_induct)
  case (less n)
  show ?case
  proof (cases "n = 0 \<or> s = []")
    case True
    then show ?thesis using less.prems by (cases n) auto
  next
    case False
    then obtain m k where m: "n = Suc m" "length s = Suc k" by (metis length_0_conv not0_implies_Suc)
    show ?thesis
    proof (cases "strip_front white_space s = []")
      case True
      then show ?thesis by (simp add: m)
    next
      case ne: False
      obtain word rest where b: "break_space (strip_front white_space s) = (word, rest)" by fastforce
      have "length rest \<le> m" "length rest \<le> k"
        using split_spaces_step(2) [OF refl ne b] less.prems m by simp_all
      then have "split_spaces m rest = split_spaces k rest"
        using less.IH [of m rest] less.IH [of k rest] less.prems m by simp
      then show ?thesis by (simp add: m ne b)
    qed
  qed
qed

section \<open>The comparison and the judgement\<close>

text \<open>C23. The comparison of an emitted sequence with the declared one reports nothing exactly if
  every emitted observation satisfies the declared observation at its place: at equal length for
  a complete run, and at some window of the declared sequence for a truncated one.\<close>

lemma compare_sequence_exact:
  "compare_sequence seq declared emitted c = [] \<longleftrightarrow> sequence_spec c declared emitted"
  by (rule compare_sequence_iff)

text \<open>C22. An execution is judged without a failure exactly if every raw observation of its
  transcript is readable and within its size, the declared ledger is well formed and every
  sequence it emitted is the declared one, no record it declares omitted was emitted, and the
  live set is the declared one.\<close>

lemma judgement_exact:
  "assert_execution from_str to_vec x expect c live_fold = [] \<longleftrightarrow>
     execution_ok from_str to_vec x expect c live_fold"
  by (rule assert_execution_iff)

text \<open>C21. Whatever an adapter does, one transcript is the source of everything a crawl says of the
  history. Its resources are those in the reply to the first request after the hello. Read the drains
  off the transcript of the execution: after the hello and what is asked before the history, one for
  each of its resources in order, each taking exchanges as long as the
  reply names a next page and within the page limit. Then the ledger's sequence of each resource and
  the fold of the live set are exactly the observations of the replies of these drains, in order, and
  each request asked for the page the reply before it named. Only if the adapter crashed in the middle
  of a drain, so that the page named last was never read, does this hold of the drains up to that one.\<close>

lemma one_execution_both_views:
  "\<exists>k. seen_on_wire env expect (m = CompleteRun) k (fst (snd (run_crawl env argv path stem run expect m deadline)))"
  by (rule run_crawl_view)

section \<open>Exit code 0\<close>

definition crawl_case :: "json \<Rightarrow> bool" where
  "crawl_case fixture \<longleftrightarrow>
     Option.bind (json_get ''case'' fixture) json_str \<notin> {Some ''interrupted_pagination'', Some ''protocol_violations''}"

text \<open>
  The executions of the two processes launched for the fixture are certified, each against its own
  adapter, and agree: both were asked the same, and gave the same records under the same local ids.
\<close>

definition certified_twice ::
  "(nat \<Rightarrow> 's conn_env) \<Rightarrow> string list \<Rightarrow> string \<Rightarrow> string \<Rightarrow> json \<Rightarrow> bool" where
  "certified_twice launches argv path stem fixture \<longleftrightarrow>
     (let x = crawled launches argv path stem fixture 0; y = crawled launches argv path stem fixture 1 in
      certified (launches 0) (expect_of fixture) x \<and> certified (launches 1) (expect_of fixture) y \<and>
      xe_request_shapes x = xe_request_shapes y \<and>
      history_by_local_id (xe_ledger x) = history_by_local_id (xe_ledger y))"

definition fixture_at :: "(string \<Rightarrow> json option) \<Rightarrow> (string \<Rightarrow> string option) \<Rightarrow> string \<Rightarrow> json option" where
  "fixture_at from_str read path = map_option json_value (Option.bind (read path) from_str)"

lemma run_case_clean:
  assumes "co_failures (run_case launches from_str polls argv path stem (read path)) = []"
  shows "\<exists>fixture. fixture_at from_str read path = Some fixture \<and>
    (crawl_case fixture \<longrightarrow> certified_twice launches argv path stem fixture)"
proof -
  obtain t fixture where t: "read path = Some t" "map_option json_value (from_str t) = Some fixture"
    using assms by (auto simp: run_case_def split: option.splits)
  have "certified_twice launches argv path stem fixture" if "crawl_case fixture"
  proof -
    have "case_crawl launches argv path stem fixture = []"
      using assms that t by (auto simp: run_case_def crawl_case_def Let_def split: option.splits if_splits)
    note clean = case_crawl_clean [OF this]
    show ?thesis using clean(1) [of 0] clean(1) [of 1] clean(2,3) by (simp add: certified_twice_def Let_def)
  qed
  with t show ?thesis by (intro exI [of _ fixture]) (simp add: fixture_at_def)
qed

lemma exit_code_zero: "exit_code outcomes = 0 \<longleftrightarrow> outcomes \<noteq> [] \<and> (\<forall>c\<in>set outcomes. co_failures c = [])"
  by (auto simp: exit_code_def list_ex_iff)

text \<open>C20. Exit code 0 of the conformance suite means that the directory had fixtures, that every one
  of them is a readable JSON document, and that each fixture of the standard case certifies the
  adapter. The executions meant are those of the two processes launched for it. In each the crawl
  read every listed resource page by page to a page without a continuation, the ledger and the live
  set hold exactly the observations of the replies on the wire, every raw observation is within its
  size, and the emitted sequences and the live set are the declared ones; and both processes were
  asked the same requests and gave the same records under the same local ids.\<close>

lemma exit_zero_certifies:
  assumes "fst (suite_main launches from_str polls read read_dir args) = 0"
  shows "\<exists>argv dir names. parse_suite_args args = Inr (argv, dir) \<and> read_dir dir = Some names \<and> case_names names \<noteq> [] \<and>
    (\<forall>n\<in>set (case_names names). \<exists>fixture. fixture_at from_str read (path_join dir n) = Some fixture \<and>
       (crawl_case fixture \<longrightarrow> certified_twice (launches n) argv (path_join dir n) (file_stem n) fixture))"
proof -
  obtain argv dir where a: "parse_suite_args args = Inr (argv, dir)"
    using assms by (cases "parse_suite_args args") (auto simp: suite_main_def)
  obtain names where d: "read_dir dir = Some names"
    using assms by (cases "read_dir dir") (simp_all add: suite_main_def a)
  have all: "case_names names \<noteq> []" "\<And>n. n \<in> set (case_names names) \<Longrightarrow>
      co_failures (run_case (launches n) from_str polls argv (path_join dir n) (file_stem n) (read (path_join dir n))) = []"
    using assms by (auto simp: suite_main_def a d Let_def exit_code_zero run_suite_def)
  have "\<exists>fixture. fixture_at from_str read (path_join dir n) = Some fixture \<and>
       (crawl_case fixture \<longrightarrow> certified_twice (launches n) argv (path_join dir n) (file_stem n) fixture)" if "n \<in> set (case_names names)" for n
    by (rule run_case_clean [where read = read, OF all(2) [OF that]])
  with a d all(1) show ?thesis by blast
qed

text \<open>The scripted adapter passes a directory with one fixture.\<close>

definition script_text :: "string \<Rightarrow> json option" where
  "script_text t = (if t = ''fixture'' then Some script_fixture else None)"

definition script_args :: "string list" where
  "script_args = [''--adapter'', ''./adapter'', ''--cases'', ''cases'']"

lemma script_args_read: "parse_suite_args script_args = Inr ([''./adapter''], ''cases'')"
  by code_simp

lemma script_names: "case_names [''case.json'', ''notes.txt''] = [''case.json'']"
  by code_simp

lemma script_fixture_read:
  "fixture_at script_text (\<lambda>_. Some ''fixture'') p = Some script_fixture" "crawl_case script_fixture"
proof -
  have "json_value script_fixture = script_fixture" by code_simp
  then show "fixture_at script_text (\<lambda>_. Some ''fixture'') p = Some script_fixture"
    by (simp add: fixture_at_def script_text_def)
  show "crawl_case script_fixture" by code_simp
qed

lemma script_main:
  "fst (suite_main (\<lambda>_ _. script_env) script_text 0 (\<lambda>_. Some ''fixture'')
     (\<lambda>_. Some [''case.json'', ''notes.txt'']) script_args) = 0"
proof -
  obtain j where "script_text ''fixture'' = Some j" "json_value j = script_fixture"
    using script_fixture_read(1) by (auto simp: fixture_at_def)
  moreover have "json_get ''case'' script_fixture = None" by (simp add: script_fixture_def)
  ultimately have "co_failures (run_case (\<lambda>_. script_env) script_text 0 [''./adapter''] p stem (Some ''fixture'')) = []" for p stem
    using script_run by (simp add: run_case_def case_crawl_def Let_def script_expect_def purity_iff)
  then show ?thesis by (simp add: suite_main_def script_args_read script_names run_suite_def exit_code_def)
qed

lemma exit_zero_certifies_witness:
  "certified_twice (\<lambda>_. script_env) [''./adapter''] (path_join ''cases'' ''case.json'') (file_stem ''case.json'') script_fixture"
  using exit_zero_certifies [OF script_main] script_fixture_read
  by (simp add: script_args_read script_names)

end
