(* ===== verification/Render.thy ===== *)
theory Render
  imports Sweep Rust_Text
begin

text \<open>
  The lines the store prints (\<open>core/store/src/render.rs\<close>): a balance line with its source and
  freshness, a history row, a record's chain with its retractions, the line of a sweep. Text is
  UTF-8, so padding counts characters and a slice needs character boundaries.
\<close>

section \<open>Formatting\<close>

definition char_count :: "string \<Rightarrow> nat" where
  "char_count s = length (filter (\<lambda>c. \<not> Rust_Text.cont_byte c) s)"

definition pad_right :: "nat \<Rightarrow> string \<Rightarrow> string" where
  "pad_right n s = s @ replicate (n - char_count s) (CHR '' '')"

definition pad_left :: "nat \<Rightarrow> string \<Rightarrow> string" where
  "pad_left n s = replicate (n - char_count s) (CHR '' '') @ s"

definition get_slice :: "string \<Rightarrow> nat \<Rightarrow> nat \<Rightarrow> string option" where
  "get_slice s i j =
     (if i \<le> j \<and> j \<le> length s \<and> is_char_boundary s i \<and> is_char_boundary s j
      then Some (take (j - i) (drop i s)) else None)"

text \<open>The middle dot between two parts of a line.\<close>

definition dot :: string where
  "dot = '' '' @ [CHR 0xC2, CHR 0xB7] @ '' ''"

definition time_of_day :: "string \<Rightarrow> string" where
  "time_of_day t = (case get_slice t 11 20 of Some s \<Rightarrow> s | None \<Rightarrow> t)"

section \<open>Balances\<close>

definition strip_prefix :: "string \<Rightarrow> string \<Rightarrow> string option" where
  "strip_prefix pre s = (if take (length pre) s = pre then Some (drop (length pre) s) else None)"

definition balance_as_of :: "balance_row \<Rightarrow> string" where
  "balance_as_of r = (case strip_prefix ''stale:'' (ba_outcome r) of Some t \<Rightarrow> t | None \<Rightarrow> ba_received_at r)"

definition amount_columns :: "nat \<Rightarrow> amount \<Rightarrow> string" where
  "amount_columns n a = pad_left n (display a) @ '' '' @ as_str (asset a)"

definition source_columns :: "balance_row \<Rightarrow> string" where
  "source_columns r = dot @ ba_provider_id r @ dot @ time_of_day (ba_received_at r)"

definition stale_line :: "string \<Rightarrow> amount \<Rightarrow> balance_row \<Rightarrow> string" where
  "stale_line category a r =
     ''  '' @ pad_right 14 category @ '' '' @ amount_columns 14 a @ ''   stale (as of '' @ balance_as_of r @ '')'' @
     source_columns r"

definition balance_line_text :: "string \<Rightarrow> balance_row list \<Rightarrow> string" where
  "balance_line_text category rows =
     (if rows = [] then ''  '' @ pad_right 14 category @ '' unavailable''
      else
        let newest = last rows;
            is_live = (ba_from_latest_read newest \<and> ba_staleness newest = Live) in
        (case (ba_amount newest, is_live) of
           (Some a, True) \<Rightarrow>
             ''  '' @ pad_right 14 category @ '' '' @ amount_columns 14 a @ ''   live'' @ source_columns newest
         | (Some a, False) \<Rightarrow> stale_line category a newest
         | (None, True) \<Rightarrow>
             ''  '' @ pad_right 14 category @ '' '' @ pad_left 14 ''unknown'' @ ''     unknown'' @ source_columns newest
         | (None, False) \<Rightarrow>
             (case List.find (\<lambda>r. ba_amount r \<noteq> None) (rev rows) of
                Some r \<Rightarrow> stale_line category (the (ba_amount r)) r
              | None \<Rightarrow>
                  ''  '' @ pad_right 14 category @ '' '' @ pad_left 14 ''--'' @ ''     unavailable'' @
                  source_columns newest)))"

section \<open>Records\<close>

definition posting_label :: "observation \<Rightarrow> string" where
  "posting_label ob =
     (case ob_state ob of
        observation_state.Tombstoned \<Rightarrow> ''tombstoned''
      | Active \<Rightarrow>
          (case ob_posting ob of
             posting.Pending \<Rightarrow> ''pending'' | Posted \<Rightarrow> ''posted'' | posting.Unknown \<Rightarrow> ''unknown''))"

definition freshness :: "staleness \<Rightarrow> string" where
  "freshness s = (case s of Live \<Rightarrow> ''live'' | Cached \<Rightarrow> ''cached'' | staleness.Unavailable \<Rightarrow> ''unavailable'')"

definition history_line :: "string \<Rightarrow> nat \<Rightarrow> observation \<Rightarrow> string" where
  "history_line l revision ob =
     ''  '' @ l @ ''  r'' @ dec revision @ ''  '' @ amount_columns 16 (ob_amount ob) @ ''  '' @ posting_label ob @ ''  '' @
     ob_description ob @ ''  '' @ freshness (pv_staleness (ob_provenance ob)) @ dot @ pv_provider_id (ob_provenance ob)"

definition observation_line :: "stored_observation \<Rightarrow> string" where
  "observation_line so =
     (let ob = so_observation so; pv = ob_provenance ob in
      ''  r'' @ dec (so_revision so) @ ''  observation  '' @ amount_columns 16 (ob_amount ob) @ ''  '' @ posting_label ob @
      ''  crawl '' @ show_int (so_crawl_id so) @ dot @ pv_provider_id pv @ dot @ ''received '' @ ts_str (pv_received_at pv) @
      dot @ ''content '' @
      (case get_slice (so_content_hash so) 0 12 of Some h \<Rightarrow> h | None \<Rightarrow> so_content_hash so))"

definition retraction_line :: "retraction_row \<Rightarrow> string" where
  "retraction_line r =
     ''  r'' @ dec (rr_revision r) @ ''  RETRACTED    '' @ rr_reason r @ ''  crawl '' @ show_int (rr_crawl_id r) @ dot @
     ''at '' @ rr_retracted_at r"

definition show_lines :: "stored_observation list \<Rightarrow> retraction_row list \<Rightarrow> string list" where
  "show_lines rows retractions =
     map (snd \<circ> snd)
       (sort_key (\<lambda>(revision, kind, _). (revision, kind))
          (map (\<lambda>so. (so_revision so, 0::nat, observation_line so)) rows @
           map (\<lambda>r. (rr_revision r, 1, retraction_line r)) retractions))"

section \<open>Sweeps\<close>

definition sweep_line :: "sweep_report \<Rightarrow> string" where
  "sweep_line rep =
     (let verdict = (case (sp_error rep, sp_disqualified_reason rep) of
            (Some e, _) \<Rightarrow> ''sweep: failed -- '' @ e
          | (None, Some reason) \<Rightarrow> ''sweep: partial -- '' @ reason @ '', no retractions derived''
          | (None, None) \<Rightarrow> ''sweep: complete'') in
      sp_adapter_id rep @ ''/'' @ sp_resource_id rep @ '': '' @ dec (sp_new rep) @ '' new'' @ dot @
      dec (sp_revised rep) @ '' revised'' @ dot @ dec (sp_retracted rep) @ '' retracted'' @ dot @
      dec (sp_unchanged rep) @ '' unchanged'' @ dot @ verdict)"

end
