(* ===== verification/Cli.thy ===== *)
theory Cli
  imports Render Refresh Handle
begin

text \<open>
  The command line of the store (\<open>core/store/src/main.rs\<close>) over a profile directory
  (\<open>profile.rs\<close>, and opening a database in \<open>store.rs\<close>): seven commands, their options, the
  writer lock, the lines they print and the exit code. What the file system says when the lock is
  taken, the environment variables, what a launched adapter answers and the texts of errors from
  libraries are parameters. A profile directory is its path and its database file.
\<close>

section \<open>The profile\<close>

text \<open>A database file that has no schema yet is a file of version 0 without tables.\<close>

datatype db_file = FreshFile | Written db

type_synonym profile_file = "db_file option"

datatype lock_outcome = LockTaken | LockBusy | LockFailed

definition db_path :: "string \<Rightarrow> string" where
  "db_path dir = path_join dir ''sumer.db''"

definition profile_lock :: "lock_outcome \<Rightarrow> string \<Rightarrow> store_error + unit" where
  "profile_lock outcome dir =
     (case outcome of LockTaken \<Rightarrow> Inr () | LockBusy \<Rightarrow> Inl (ProfileLocked dir) | LockFailed \<Rightarrow> Inl StoreIo)"

definition store_open :: "string \<Rightarrow> profile_file \<Rightarrow> store_error + db" where
  "store_open dir file =
     (case file of
        None \<Rightarrow> Inl (NoProfile dir)
      | Some FreshFile \<Rightarrow> Inl (SchemaVersion (db_path dir) 0 USER_VERSION)
      | Some (Written d) \<Rightarrow> from_open (db_path dir) d)"

definition store_init :: "string \<Rightarrow> profile_file \<Rightarrow> store_error + db" where
  "store_init dir file =
     (case file of
        None \<Rightarrow> Inr db_new
      | Some FreshFile \<Rightarrow> Inr db_new
      | Some (Written d) \<Rightarrow>
          if user_version d \<noteq> 0 then from_open (db_path dir) d else Inl (Sqlite TableExists))"

section \<open>Texts\<close>

definition text_lines :: "string list \<Rightarrow> string" where
  "text_lines ls = (case ls of [] \<Rightarrow> [] | l # ls \<Rightarrow> l @ concat (map (\<lambda>x. LF # x) ls))"

definition INIT_NOTICE :: string where
  "INIT_NOTICE = text_lines
     [''Profile created.'',
      '''',
      ''  What is stored here: your full transaction history and, for a Bitcoin'',
      ''  wallet, its address set. No credentials -- Milestone 1 is watch-only.'',
      '''',
      ''  This database is NOT encrypted. The two realistic losses are a stolen or'',
      ''  discarded disk and a profile directory synced to a cloud backup.'',
      '''',
      ''  * For the disk: use FULL-DISK ENCRYPTION (LUKS on Linux, FileVault on'',
      ''    macOS, BitLocker on Windows). That is the correct tool, and nothing'',
      ''    this program can do replaces it.'',
      ''  * For the backup: this directory is 0700 and the database 0600, which'',
      ''    keeps another local user out and does NOT survive being copied into a'',
      ''    backup that is readable elsewhere. Exclude it, or encrypt the backup.'',
      '''',
      ''  Application-level encryption ships at Milestone 3, with the first stored'',
      ''  credential. See adr/0005.'']"

definition USAGE :: string where
  "USAGE = text_lines
     [''sumer -- a local-first ledger of what your providers say'',
      '''',
      ''USAGE'',
      ''  sumer [--profile <dir>] <command> [options]'',
      '''',
      ''COMMANDS'',
      ''  init                      create the profile (prints what is and is not'',
      ''                            protected -- read it once)'',
      ''  connect <argv>...         run an adapter, record it and its resources'',
      ''  refresh [--resume]        sweep every connected adapter'',
      ''          [--confirm-empty] retract 100% of a resource (the only way)'',
      ''          [--adapter <id>]'',
      ''  balances                  every balance line, with source and freshness'',
      ''  history [--resource <id>] the live records'',
      ''  show <local_id>           one record'' @ [CHR 0x27] @ ''s whole chain, retractions included'',
      ''  status                    adapters, resources, crawls and discrepancies'',
      '''',
      ''  --profile <dir>           default: $SUMER_PROFILE, else ~/.sumer'',
      '''',
      ''EXIT'',
      ''  0 ok '' @ [CHR 0xC2, CHR 0xB7] @ '' 1 a resource failed '' @ [CHR 0xC2, CHR 0xB7] @ '' 2 usage or profile error '' @ [CHR 0xC2, CHR 0xB7] @ '' 3 lock held'']"

text \<open>\<open>Display\<close> of a store error; \<open>lib\<close> is the text of the error it carries.\<close>

definition store_error_text :: "(store_error \<Rightarrow> string) \<Rightarrow> store_error \<Rightarrow> string" where
  "store_error_text lib e =
     (case e of
        Sqlite _ \<Rightarrow> ''sqlite: '' @ lib e
      | StoreIo \<Rightarrow> ''io: '' @ lib e
      | StoreJson \<Rightarrow> ''json: '' @ lib e
      | StoreMoney m \<Rightarrow> ''money: '' @ money_error_text m
      | StoreHost t \<Rightarrow> ''adapter: '' @ t
      | ProfileLocked dir \<Rightarrow> ''another sumer process is writing to the profile at '' @ dir
      | NoProfile dir \<Rightarrow> ''no profile at '' @ dir @ '' -- run `sumer init` first''
      | SchemaVersion path found expected \<Rightarrow>
          ''profile at '' @ path @ '' is schema version '' @ show_int found @ '', this build speaks '' @ show_int expected
      | CorruptRow _ \<Rightarrow> ''stored row is unreadable: '' @ lib e
      | Usage t \<Rightarrow> t)"

definition refresh_error_text :: "(store_error \<Rightarrow> string) \<Rightarrow> refresh_error \<Rightarrow> string" where
  "refresh_error_text lib e =
     (case e of
        SpawnFailed h \<Rightarrow> host_error_text h
      | EndedInViolation kind \<Rightarrow> ''the connection ended in a wire-contract violation: '' @ kind_debug kind
      | AdapterFailed s \<Rightarrow> store_error_text lib s
      | Reported t \<Rightarrow> t)"

section \<open>Commands\<close>

text \<open>
  A command returns what it prints, one element for each \<open>out!\<close>, then its exit code or the error
  it ends with, and the database file it leaves.
\<close>

record 's cli_env =
  cl_lock :: lock_outcome
  cl_var :: "string \<Rightarrow> string option"
  cl_from_str :: "string \<Rightarrow> json option"
  cl_value_text :: "json \<Rightarrow> string"
  cl_fingerprint :: "resource_descriptor \<Rightarrow> string"
  cl_session :: "adapter_row \<Rightarrow> host_error + session"
  cl_conn :: "'s conn_env"
  cl_lib :: "store_error \<Rightarrow> string"

type_synonym command_result = "string list \<times> (store_error + nat) \<times> profile_file"

text \<open>A loop that prints: the lines before the error that ends it, if one does.\<close>

fun print_each :: "('a \<Rightarrow> string list \<times> store_error option) \<Rightarrow> 'a list \<Rightarrow> string list \<times> store_error option" where
  "print_each f [] = ([], None)"
| "print_each f (x # xs) =
     (case f x of
        (ls, Some e) \<Rightarrow> (ls, Some e)
      | (ls, None) \<Rightarrow> (case print_each f xs of (ls', r) \<Rightarrow> (ls @ ls', r)))"

definition reported :: "string list \<times> store_error option \<Rightarrow> profile_file \<Rightarrow> command_result" where
  "reported p file = (fst p, (case snd p of Some e \<Rightarrow> Inl e | None \<Rightarrow> Inr 0), file)"

definition cmd_init :: "'s cli_env \<Rightarrow> string \<Rightarrow> profile_file \<Rightarrow> command_result" where
  "cmd_init env dir file =
     (case profile_lock (cl_lock env) dir of
        Inl e \<Rightarrow> ([], Inl e, file)
      | Inr _ \<Rightarrow>
          (case store_init dir file of
             Inl e \<Rightarrow> ([], Inl e, file)
           | Inr d \<Rightarrow> ([INIT_NOTICE, LF # ''  Profile: '' @ dir], Inr 0, Some (Written d))))"

text \<open>The adapter of \<open>connect\<close>: its id, its derivation and its resources.\<close>

definition DEFAULT_DEADLINE :: nat where "DEFAULT_DEADLINE = 30000"

definition candidate :: "'s conn_env \<Rightarrow> string list \<Rightarrow> store_error + string \<times> string \<times> resource_descriptor list" where
  "candidate env argv =
     (case spawn_impl env argv [] DEFAULT_DEADLINE False of
        Inl e \<Rightarrow> Inl (StoreHost (host_error_text e))
      | Inr h \<Rightarrow>
          (case handle_resources_list env h of
             (Inl e, _) \<Rightarrow> Inl (StoreHost (host_error_text e))
           | (Inr listed, h) \<Rightarrow>
               (case handle_close env h of
                  Some (Violation kind) \<Rightarrow>
                    Inl (StoreHost (''the adapter broke the wire contract as it exited ('' @ kind_debug kind @
                      '');                  nothing was written to the profile''))
                | _ \<Rightarrow> Inr (hr_adapter_id (hd_hello h), hr_local_id_derivation (hd_hello h), listed))))"

definition cmd_connect :: "'s cli_env \<Rightarrow> string \<Rightarrow> string list \<Rightarrow> profile_file \<Rightarrow> command_result" where
  "cmd_connect env dir argv file =
     (if argv = [] then
        ([], Inl (Usage ''connect needs an adapter command line, e.g. `sumer connect ./adapter --wallets w.json`''), file)
      else
        (case res_bind (profile_lock (cl_lock env) dir) (\<lambda>_. store_open dir file) of
           Inl e \<Rightarrow> ([], Inl e, file)
         | Inr d \<Rightarrow>
             (case candidate (cl_conn env) argv of
                Inl e \<Rightarrow> ([], Inl e, file)
              | Inr (a, derivation, listed) \<Rightarrow>
                  (case upsert_all a listed
                          (set_adapter_derivation a derivation (upsert_adapter (cl_value_text env) a argv d)) of
                     (Inl e, d) \<Rightarrow> ([], Inl e, Some (Written d))
                   | (Inr _, d) \<Rightarrow>
                       ((''connected '' @ a @ '' ('' @ derivation @ '')'') #
                          map (\<lambda>x. ''  '' @ rd_resource_id x @ ''  '' @ rd_label x @ ''  ['' @ rd_kind x @ '']'') listed,
                        Inr 0, Some (Written d))))))"

fun refresh_flags :: "string list \<Rightarrow> refresh_options \<Rightarrow> store_error + refresh_options" where
  "refresh_flags [] f = Inr f"
| "refresh_flags (opt # rest) f =
     (if opt = ''--resume'' then refresh_flags rest (f\<lparr>rfo_resume := True\<rparr>)
      else if opt = ''--confirm-empty'' then refresh_flags rest (f\<lparr>rfo_confirm_empty := True\<rparr>)
      else if opt = ''--adapter'' then
        (case rest of
           [] \<Rightarrow> Inl (Usage ''--adapter needs an id'')
         | v # rest \<Rightarrow> refresh_flags rest (f\<lparr>rfo_only := Some v\<rparr>))
      else Inl (Usage (''refresh: unknown option '' @ dbg opt)))"

definition refresh_lines :: "(store_error \<Rightarrow> string) \<Rightarrow> refresh_report \<Rightarrow> string list" where
  "refresh_lines lib rep =
     map (\<lambda>(a, e). a @ '': '' @ refresh_error_text lib e) (rp_adapter_errors rep) @
     concat (map (\<lambda>s. sweep_line s # map (\<lambda>x. ''  ! '' @ dc_kind x @ '': '' @ dc_detail x) (sp_discrepancies s))
       (rp_sweeps rep))"

definition cmd_refresh :: "'s cli_env \<Rightarrow> string \<Rightarrow> string list \<Rightarrow> profile_file \<Rightarrow> command_result" where
  "cmd_refresh env dir args file =
     (case refresh_flags args \<lparr>rfo_resume = False, rfo_confirm_empty = False, rfo_only = None\<rparr> of
        Inl e \<Rightarrow> ([], Inl e, file)
      | Inr options \<Rightarrow>
          (case res_bind (profile_lock (cl_lock env) dir) (\<lambda>_. store_open dir file) of
             Inl e \<Rightarrow> ([], Inl e, file)
           | Inr d \<Rightarrow>
               (case refresh (cl_from_str env) (cl_fingerprint env) (cl_session env) options d of
                  (Inl e, d) \<Rightarrow> ([], Inl e, Some (Written d))
                | (Inr rep, d) \<Rightarrow>
                    (refresh_lines (cl_lib env) rep, Inr (if failed rep then 1 else 0), Some (Written d)))))"

definition resource_heading :: "resource_row \<Rightarrow> string" where
  "resource_heading r = sr_adapter_id r @ ''/'' @ sr_resource_id r @ ''  '' @ sr_label r"

definition by_category :: "balance_row list \<Rightarrow> (string, balance_row list) btree_map" where
  "by_category rows =
     foldl (\<lambda>m r. btree_insert (ba_category r)
                    ((case map_of m (ba_category r) of Some rs \<Rightarrow> rs | None \<Rightarrow> []) @ [r]) m) [] rows"

definition balances_of :: "db \<Rightarrow> resource_row \<Rightarrow> string list \<times> store_error option" where
  "balances_of d r =
     (case balance_history (sr_adapter_id r) (sr_resource_id r) d of
        Inl e \<Rightarrow> ([resource_heading r], Some e)
      | Inr rows \<Rightarrow>
          (resource_heading r #
             (if rows = [] then [''  (no balance has ever been read)'']
              else map (\<lambda>(category, rs). balance_line_text category rs) (by_category rows)),
           None))"

definition cmd_balances :: "string \<Rightarrow> profile_file \<Rightarrow> command_result" where
  "cmd_balances dir file =
     (case store_open dir file of
        Inl e \<Rightarrow> ([], Inl e, file)
      | Inr d \<Rightarrow> reported (print_each (balances_of d) (resources None d)) file)"

fun history_flags :: "string list \<Rightarrow> string option \<Rightarrow> store_error + string option" where
  "history_flags [] wanted = Inr wanted"
| "history_flags (opt # rest) wanted =
     (if opt = ''--resource'' then
        (case rest of
           [] \<Rightarrow> Inl (Usage ''--resource needs an id'')
         | v # rest \<Rightarrow> history_flags rest (Some v))
      else Inl (Usage (''history: unknown option '' @ dbg opt)))"

definition history_of :: "'s cli_env \<Rightarrow> db \<Rightarrow> string option \<Rightarrow> resource_row \<Rightarrow> string list \<times> store_error option" where
  "history_of env d wanted r =
     (if wanted \<noteq> None \<and> wanted \<noteq> Some (sr_resource_id r) then ([], None)
      else
        (case live_records (cl_from_str env) (sr_adapter_id r) (sr_resource_id r) d of
           Inl e \<Rightarrow> ([resource_heading r], Some e)
         | Inr live \<Rightarrow>
             (resource_heading r #
                (if live = [] then [''  (nothing live)''] else []) @
                map (\<lambda>(l, revision, ob). history_line l revision ob) live,
              None)))"

definition cmd_history :: "'s cli_env \<Rightarrow> string \<Rightarrow> string list \<Rightarrow> profile_file \<Rightarrow> command_result" where
  "cmd_history env dir args file =
     (case res_bind (history_flags args None) (\<lambda>wanted. res_bind (store_open dir file) (\<lambda>d. Inr (wanted, d))) of
        Inl e \<Rightarrow> ([], Inl e, file)
      | Inr (wanted, d) \<Rightarrow> reported (print_each (history_of env d wanted) (resources None d)) file)"

definition show_of :: "'s cli_env \<Rightarrow> db \<Rightarrow> string \<Rightarrow> adapter_row \<Rightarrow> string list \<times> store_error option" where
  "show_of env d l x =
     (case chain_rows (cl_from_str env) (ar_adapter_id x) l d of
        Inl e \<Rightarrow> ([], Some e)
      | Inr [] \<Rightarrow> ([], None)
      | Inr rows \<Rightarrow>
          (case retractions_for (ar_adapter_id x) l d of
             Inl e \<Rightarrow> ([], Some e)
           | Inr rs \<Rightarrow> ((ar_adapter_id x @ ''/'' @ l) # show_lines rows rs, None)))"

definition cmd_show :: "'s cli_env \<Rightarrow> string \<Rightarrow> string list \<Rightarrow> profile_file \<Rightarrow> command_result" where
  "cmd_show env dir args file =
     (case args of
        [] \<Rightarrow> ([], Inl (Usage ''show needs a local_id''), file)
      | l # _ \<Rightarrow>
          (case res_bind (store_open dir file) (\<lambda>d. res_bind (adapters (cl_from_str env) d) (\<lambda>rows. Inr (d, rows))) of
             Inl e \<Rightarrow> ([], Inl e, file)
           | Inr (d, rows) \<Rightarrow>
               (case print_each (show_of env d l) rows of
                  ([], None) \<Rightarrow> ([''no record '' @ dbg l @ '' in this profile''], Inr 0, file)
                | p \<Rightarrow> reported p file)))"

definition status_of :: "db \<Rightarrow> adapter_row \<Rightarrow> string list" where
  "status_of d x =
     (ar_adapter_id x @ ''  derivation '' @ (case ar_derivation x of Some v \<Rightarrow> v | None \<Rightarrow> ''(unknown)'') @ ''  '' @
        (if ar_needs_reauth x then ''NEEDS REAUTH'' else ''ok'')) #
     map (\<lambda>r. ''  '' @ sr_resource_id r @ ''  '' @ sr_label r @ ''  vantage '' @
            (case sr_last_provider_id r of Some p \<Rightarrow> p | None \<Rightarrow> ''(none yet)''))
       (resources (Some (ar_adapter_id x)) d)"

definition crawl_line :: "crawl_row \<Rightarrow> string" where
  "crawl_line c =
     (let verdict = (if cw_complete c then ''complete''
                     else (case cw_disqualified_reason c of Some reason \<Rightarrow> ''partial -- '' @ reason | None \<Rightarrow> ''open'')) in
      ''  '' @ show_int (cw_crawl_id c) @ '' '' @ cw_adapter_id c @ ''/'' @ cw_resource_id c @ '' at '' @ cw_started_at c @
      '' -- '' @ verdict)"

definition discrepancy_line :: "discrepancy_row \<Rightarrow> string" where
  "discrepancy_line x =
     ''  ['' @ di_kind x @ ''] '' @ di_adapter_id x @ ''/'' @ di_resource_id x @ '' crawl '' @ show_int (di_crawl_id x) @
     '': '' @ di_detail x"

definition cmd_status :: "'s cli_env \<Rightarrow> string \<Rightarrow> profile_file \<Rightarrow> command_result" where
  "cmd_status env dir file =
     (case res_bind (store_open dir file) (\<lambda>d. res_bind (adapters (cl_from_str env) d) (\<lambda>rows. Inr (d, rows))) of
        Inl e \<Rightarrow> ([], Inl e, file)
      | Inr (d, rows) \<Rightarrow>
          (let noted = discrepancies 20 d in
           (concat (map (status_of d) rows) @ [LF # ''recent crawls''] @ map crawl_line (crawls 10 d) @
            [LF # ''discrepancies''] @ (if noted = [] then [''  (none)''] else []) @ map discrepancy_line noted,
            Inr 0, file)))"

section \<open>The program\<close>

fun split_profile_flags :: "string list \<Rightarrow> string option \<Rightarrow> store_error + string option \<times> string list" where
  "split_profile_flags [] dir = Inr (dir, [])"
| "split_profile_flags (arg # rest) dir =
     (if arg = ''--profile'' then
        (case rest of
           [] \<Rightarrow> Inl (Usage ''--profile needs a directory'')
         | v # rest \<Rightarrow> split_profile_flags rest (Some v))
      else Inr (dir, arg # rest))"

definition split_profile :: "(string \<Rightarrow> string option) \<Rightarrow> string list \<Rightarrow> store_error + string \<times> string list" where
  "split_profile var args =
     res_bind (split_profile_flags args None) (\<lambda>(dir, rest).
       case dir of
         Some d \<Rightarrow> Inr (d, rest)
       | None \<Rightarrow>
           (case var ''SUMER_PROFILE'' of
              Some d \<Rightarrow> Inr (d, rest)
            | None \<Rightarrow>
                (case var ''HOME'' of
                   Some home \<Rightarrow> Inr (path_join home ''.sumer'', rest)
                 | None \<Rightarrow> Inl (Usage ''no profile: set --profile or SUMER_PROFILE''))))"

text \<open>The files are those of every directory; a command works on the one of its profile.\<close>

definition run_command :: "'s cli_env \<Rightarrow> string \<Rightarrow> string \<Rightarrow> string list \<Rightarrow> profile_file \<Rightarrow> command_result" where
  "run_command env dir command args file =
     (if command = ''init'' then cmd_init env dir file
      else if command = ''connect'' then cmd_connect env dir args file
      else if command = ''refresh'' then cmd_refresh env dir args file
      else if command = ''balances'' then cmd_balances dir file
      else if command = ''history'' then cmd_history env dir args file
      else if command = ''show'' then cmd_show env dir args file
      else if command = ''status'' then cmd_status env dir file
      else if command \<in> {''help'', ''--help'', ''-h''} then ([USAGE], Inr 0, file)
      else ([], Inl (Usage (''unknown command '' @ dbg command @ ''. Try `sumer help`.'')), file))"

definition run_cli ::
  "'s cli_env \<Rightarrow> string list \<Rightarrow> (string \<Rightarrow> profile_file) \<Rightarrow> string list \<times> (store_error + nat) \<times> (string \<Rightarrow> profile_file)" where
  "run_cli env args files =
     (case split_profile (cl_var env) args of
        Inl e \<Rightarrow> ([], Inl e, files)
      | Inr (dir, []) \<Rightarrow> ([USAGE], Inr 2, files)
      | Inr (dir, command # rest) \<Rightarrow>
          (case run_command env dir command rest (files dir) of
             (ls, r, file) \<Rightarrow> (ls, r, files(dir := file))))"

text \<open>
  \<open>out!\<close>: the first line that cannot be written ends the process with 0. Every command has
  written its rows before it prints, so only lines are lost.
\<close>

fun print_out :: "(string list \<Rightarrow> bool) \<Rightarrow> string list \<Rightarrow> string list \<Rightarrow> string list \<times> bool" where
  "print_out ok printed [] = (printed, True)"
| "print_out ok printed (l # ls) =
     (if ok (printed @ [l]) then print_out ok (printed @ [l]) ls else (printed, False))"

definition cli_exit :: "store_error + nat \<Rightarrow> nat" where
  "cli_exit r =
     (case r of Inr code \<Rightarrow> code | Inl e \<Rightarrow> (case e of ProfileLocked _ \<Rightarrow> 3 | _ \<Rightarrow> 2))"

definition cli_main ::
  "'s cli_env \<Rightarrow> (string list \<Rightarrow> bool) \<Rightarrow> string list \<Rightarrow> (string \<Rightarrow> profile_file) \<Rightarrow>
   nat \<times> string list \<times> (string \<Rightarrow> profile_file)" where
  "cli_main env stdout_ok args files =
     (case run_cli env args files of
        (ls, r, files) \<Rightarrow>
          (case print_out stdout_ok [] ls of
             (printed, True) \<Rightarrow> (cli_exit r, printed, files)
           | (printed, False) \<Rightarrow> (0, printed, files)))"

end
