(* ===== verification/Freshness.thy ===== *)
theory Freshness
  imports Refresh_Correct Store_Correct Render
begin

text \<open>
  The freshness of balances over a whole refresh: a read of an adapter that did not happen makes
  every figure stored for it stale, whatever the other adapters did before and after it, and what
  is printed for such a figure is its last value with the time it was observed.
\<close>

section \<open>Figures of one adapter\<close>

text \<open>No figure of the adapter is newer than its current read; none is of that read.\<close>

definition behind :: "string \<Rightarrow> db \<Rightarrow> bool" where
  "behind a d \<longleftrightarrow>
     (\<forall>b\<in>set (balance_t d). \<forall>r\<in>set (adapter_t d).
        bt_adapter_id b = a \<and> at_adapter_id r = a \<longrightarrow> bt_read_id b \<le> at_balance_read r)"

definition stale :: "string \<Rightarrow> db \<Rightarrow> bool" where
  "stale a d \<longleftrightarrow> (\<forall>b\<in>set (balance_t d). bt_adapter_id b = a \<longrightarrow> \<not> is_latest_read d b)"

lemma map_of_reads:
  "map_of (map (\<lambda>r. (at_adapter_id r, at_balance_read r)) rows) k =
     map_option at_balance_read (List.find (\<lambda>r. at_adapter_id r = k) rows)"
  by (induction rows) auto

lemma is_latest_reads: "is_latest_read d b \<longleftrightarrow> map_of (fst (reads_of d)) (bt_adapter_id b) = Some (bt_read_id b)"
  unfolding is_latest_read_def reads_of_def fst_conv map_of_reads by (auto split: option.split)

lemma stale_reads: "reads_of e = reads_of d \<Longrightarrow> stale a e = stale a d"
  unfolding stale_def is_latest_reads by (simp add: reads_of_def)

lemma find_filter: "List.find P xs = (case filter P xs of [] \<Rightarrow> None | x # _ \<Rightarrow> Some x)"
  by (induction xs) simp_all

lemma view_rows:
  assumes "view a e = view a d"
  shows "filter (\<lambda>x. at_adapter_id x = a) (adapter_t e) = filter (\<lambda>x. at_adapter_id x = a) (adapter_t d)"
    "filter (\<lambda>x. bt_adapter_id x = a) (balance_t e) = filter (\<lambda>x. bt_adapter_id x = a) (balance_t d)"
  using assms by (simp_all add: view_def)

lemma view_latest:
  assumes "view a e = view a d" "bt_adapter_id b = a"
  shows "is_latest_read e b = is_latest_read d b"
  using assms by (simp add: is_latest_read_def find_filter view_rows [OF assms(1)])

lemma behind_filter:
  "behind a d \<longleftrightarrow> (\<forall>b\<in>set (filter (\<lambda>x. bt_adapter_id x = a) (balance_t d)).
     \<forall>r\<in>set (filter (\<lambda>x. at_adapter_id x = a) (adapter_t d)). bt_read_id b \<le> at_balance_read r)"
  by (auto simp: behind_def)

lemma stale_filter:
  "stale a d \<longleftrightarrow> (\<forall>b\<in>set (filter (\<lambda>x. bt_adapter_id x = a) (balance_t d)). \<not> is_latest_read d b)"
  by (auto simp: stale_def)

lemma view_freshness:
  assumes "view a e = view a d"
  shows "behind a e = behind a d" "stale a e = stale a d"
  using view_latest [OF assms] by (auto simp: behind_filter stale_filter view_rows [OF assms])

lemma open_read_stale:
  assumes "behind a d" "open_balance_read a d = Inr (i, e)"
  shows "stale a e" "behind a e" "balance_t e = balance_t d"
proof -
  note row = open_balance_read_row [OF assms(2)]
  show "balance_t e = balance_t d" by (rule row(2))
  have after: "bt_read_id b < at_balance_read r"
    if "b \<in> set (balance_t d)" "bt_adapter_id b = a" "r \<in> set (adapter_t e)" "at_adapter_id r = a" for b r
    using that assms(1) unfolding row(4) by (force simp: update_where_def behind_def)
  then show "behind a e" by (auto simp: behind_def row(2) intro: less_imp_le)
  show "stale a e"
    using after by (auto simp: stale_def row(2) is_latest_read_def dest!: find_SomeD split: option.splits) force
qed

section \<open>A read that did not happen\<close>

definition unread :: "(adapter_row \<Rightarrow> host_error + session) \<Rightarrow> adapter_row \<Rightarrow> bool" where
  "unread spawn x \<longleftrightarrow>
     (case spawn x of
        Inl _ \<Rightarrow> True
      | Inr ses \<Rightarrow> hr_adapter_id (ss_hello ses) \<noteq> ar_adapter_id x \<or> \<not> is_ok (ss_listed ses) \<or>
          \<not> is_ok (ss_statuses ses) \<or> \<not> is_ok (ss_balances ses))"

lemma upsert_all_reads: "reads_of (snd (upsert_all a xs d)) = reads_of d"
proof (induction xs arbitrary: d)
  case (Cons x xs)
  have "reads_of e = reads_of d" if "upsert_resource a r k l d = Inr e" for r k l e
    using that by (auto simp: upsert_resource_def reads_of_def split: if_splits)
  then show ?case using Cons.IH by (auto split: sum.split)
qed simp

lemma sweep_all_reads: "reads_of (snd (sweep_all ses sts f a o1 tainted i xs reports d)) = reads_of d"
proof (induction xs arbitrary: tainted i reports d)
  case (Cons x xs)
  then show ?case
    using sweep_resource_reads [of "ss_sweep ses i" "sweep_input_of ses sts f a o1 tainted x" d]
    by (auto split: sum.split prod.split)
qed simp

lemma refresh_adapter_unread:
  assumes "unread spawn x" "spawn x = Inr ses" "behind (ar_adapter_id x) d"
    and open1: "open_balance_read (ar_adapter_id x) d = Inr (i, d1)"
  shows "reads_of (snd (refresh_adapter f ses (ar_adapter_id x) o1 d)) = reads_of d1"
proof (cases "hr_adapter_id (ss_hello ses) \<noteq> ar_adapter_id x \<or> \<not> is_ok (ss_listed ses)")
  case True
  then show ?thesis by (auto simp: refresh_adapter_def open1 is_ok_iff split: sum.split)
next
  case False
  then obtain listed where listed: "ss_listed ses = Inr listed" "\<not> hr_adapter_id (ss_hello ses) \<noteq> ar_adapter_id x"
    by (auto simp: is_ok_iff)
  obtain res d2 where u: "upsert_all (ar_adapter_id x) listed d1 = (res, d2)" by fastforce
  have d2: "reads_of d2 = reads_of d1" using upsert_all_reads [of "ar_adapter_id x" listed d1] by (simp add: u)
  have sweeps: "reads_of e = reads_of d1"
    if "sweep_all ses sts f a o1 tainted i xs reports (set_needs_reauth b w d2) = (r, e)" for sts a tainted i xs reports b w r e
    using sweep_all_reads [of ses sts f a o1 tainted i xs reports "set_needs_reauth b w d2"] that d2 by simp
  from assms(1) listed have "\<not> is_ok (ss_statuses ses) \<or> \<not> is_ok (ss_balances ses)"
    by (simp add: unread_def assms(2))
  then show ?thesis
    unfolding refresh_adapter_def open1 sum.case prod.case listed(1) u Let_def if_not_P [OF listed(2)]
    using d2 sweeps by (auto simp: is_ok_iff read_balances_def split: sum.split prod.split)
qed

lemma find_none_stale: "List.find (\<lambda>r. at_adapter_id r = a) (adapter_t d) = None \<Longrightarrow> stale a d"
  by (auto simp: stale_def is_latest_read_def)

lemma refresh_each_unread:
  assumes "refresh_each f spawn options xs rep d = (Inr rep', e)" "x \<in> set xs" "distinct (map ar_adapter_id xs)"
    "rfo_only options = None \<or> rfo_only options = Some (ar_adapter_id x)" "unread spawn x" "behind (ar_adapter_id x) d"
  shows "stale (ar_adapter_id x) e \<and>
    filter (\<lambda>b. bt_adapter_id b = ar_adapter_id x) (balance_t e) = filter (\<lambda>b. bt_adapter_id b = ar_adapter_id x) (balance_t d)"
  using assms
proof (induction xs arbitrary: rep d)
  case (Cons y ys)
  let ?a = "ar_adapter_id x" and ?b = "ar_adapter_id y"
  let ?o = "\<lparr>op_resume = rfo_resume options, op_confirm_empty = rfo_confirm_empty options\<rparr>"
  show ?case
  proof (cases "rfo_only options \<noteq> None \<and> rfo_only options \<noteq> Some ?b")
    case True
    then show ?thesis using Cons by auto
  next
    case False
    then obtain i d1 where o: "open_balance_read ?b d = Inr (i, d1)"
      using Cons.prems(1) by (cases "open_balance_read ?b d") auto
    define d2 where "d2 = (case spawn y of Inl _ \<Rightarrow> d1 | Inr ses \<Rightarrow> snd (refresh_adapter f ses ?b ?o d1))"
    obtain rep2 where rest: "refresh_each f spawn options ys rep2 d2 = (Inr rep', e)"
      using Cons.prems(1) unfolding refresh_each.simps if_not_P [OF False] d2_def
      by (auto simp: o Let_def split: sum.splits prod.splits)
    have g: "grows {?b} d d2"
      using grows_trans [OF grows_balance_read [OF o] refresh_adapter_grows] grows_balance_read [OF o]
      by (auto simp: d2_def split: sum.split)
    show ?thesis
    proof (cases "y = x")
      case True
      have "?a \<notin> visited options ys" using Cons.prems(3) by (auto simp: visited_def True)
      then have later: "view ?a e = view ?a d2"
        using refresh_each_grows [of options ys d2 f spawn rep2] by (simp add: rest grows_def)
      note opened = open_read_stale [OF Cons.prems(6) o [unfolded True]]
      have "stale ?a d2 \<and> filter (\<lambda>b. bt_adapter_id b = ?a) (balance_t d2) = filter (\<lambda>b. bt_adapter_id b = ?a) (balance_t d1)"
      proof (cases "spawn x")
        case (Inl err)
        then show ?thesis using opened by (simp add: d2_def True)
      next
        case (Inr ses)
        then have d2: "d2 = snd (refresh_adapter f ses ?a ?o d1)" by (simp add: d2_def True)
        show ?thesis
        proof (cases "open_balance_read ?a d1")
          case (Inl err)
          then show ?thesis using opened unfolding d2 by (simp add: refresh_adapter_def)
        next
          case Inr2: (Inr p)
          obtain j d3 where p: "open_balance_read ?a d1 = Inr (j, d3)" using Inr2 by (cases p) simp
          have "reads_of d2 = reads_of d3"
            unfolding d2 by (rule refresh_adapter_unread [OF Cons.prems(5) Inr opened(2) p])
          moreover have "stale ?a d3" "balance_t d3 = balance_t d1"
            by (rule open_read_stale [OF opened(2) p])+
          ultimately show ?thesis using stale_reads [of d2 d3 ?a] by (simp add: reads_of_def)
        qed
      qed
      then show ?thesis using view_freshness(2) [OF later] view_rows(2) [OF later] opened(3) by simp
    next
      case no: False
      then have x: "x \<in> set ys" using Cons.prems(2) by simp
      then have "?a \<noteq> ?b" using Cons.prems(3) by (metis distinct.simps(2) image_eqI list.set_map list.simps(9))
      then have v: "view ?a d2 = view ?a d" using g by (simp add: grows_def)
      have "behind ?a d2" using Cons.prems(6) view_freshness(1) [OF v] by simp
      from Cons.IH [OF rest x _ Cons.prems(4,5) this] Cons.prems(3) show ?thesis
        by (simp add: view_rows(2) [OF v])
    qed
  qed
qed simp


section \<open>What is printed\<close>

definition unread_row :: "balance_row \<Rightarrow> balance_row" where
  "unread_row b = b\<lparr>ba_from_latest_read := False\<rparr>"

text \<open>The last figure observed, with the row that has it.\<close>

definition last_figure :: "balance_row list \<Rightarrow> (amount \<times> balance_row) option" where
  "last_figure rows =
     (let figures = filter (\<lambda>r. ba_amount r \<noteq> None) rows in
      if figures = [] then None else Some (the (ba_amount (last figures)), last figures))"

definition no_figure_line :: "string \<Rightarrow> balance_row list \<Rightarrow> string" where
  "no_figure_line category rows =
     ''  '' @ pad_right 14 category @
     (if rows = [] then '' unavailable''
      else '' '' @ pad_left 14 ''--'' @ ''     unavailable'' @ source_columns (last rows))"

lemma filter_last: "xs \<noteq> [] \<Longrightarrow> P (last xs) \<Longrightarrow> filter P xs \<noteq> [] \<and> last (filter P xs) = last xs"
  by (induction xs rule: rev_induct) simp_all

lemma find_rev: "List.find P (rev xs) = (if filter P xs = [] then None else Some (last (filter P xs)))"
  by (induction xs rule: rev_induct) simp_all

lemma filter_unread: "filter (\<lambda>r. ba_amount r \<noteq> None) (map unread_row rows) = map unread_row (filter (\<lambda>r. ba_amount r \<noteq> None) rows)"
  by (induction rows) (simp_all add: unread_row_def)

lemma unread_columns [simp]:
  "source_columns (unread_row b) = source_columns b" "stale_line c a (unread_row b) = stale_line c a b"
  "ba_amount (unread_row b) = ba_amount b" "\<not> ba_from_latest_read (unread_row b)"
  by (simp_all add: unread_row_def source_columns_def stale_line_def balance_as_of_def split: option.split)

lemma balance_line_unread:
  "balance_line_text category (map unread_row rows) =
     (case last_figure rows of Some (a, b) \<Rightarrow> stale_line category a b | None \<Rightarrow> no_figure_line category rows)"
proof (cases "rows = []")
  case True
  then show ?thesis by (simp add: balance_line_text_def last_figure_def no_figure_line_def)
next
  case ne: False
  then have newest: "last (map unread_row rows) = unread_row (last rows)" by (simp add: last_map)
  show ?thesis
  proof (cases "ba_amount (last rows)")
    case (Some a)
    then have "filter (\<lambda>r. ba_amount r \<noteq> None) rows \<noteq> [] \<and> last (filter (\<lambda>r. ba_amount r \<noteq> None) rows) = last rows"
      using filter_last [OF ne, of "\<lambda>r. ba_amount r \<noteq> None"] by simp
    then have "last_figure rows = Some (a, last rows)" using Some by (simp add: last_figure_def Let_def)
    then show ?thesis using ne newest Some by (simp add: balance_line_text_def)
  next
    case None
    let ?figures = "filter (\<lambda>r. ba_amount r \<noteq> None) rows"
    have "List.find (\<lambda>r. ba_amount r \<noteq> None) (rev (map unread_row rows)) =
        (if ?figures = [] then None else Some (unread_row (last ?figures)))"
      unfolding find_rev filter_unread by (simp add: last_map)
    then show ?thesis
      unfolding balance_line_text_def last_figure_def no_figure_line_def Let_def newest
      using ne None by simp
  qed
qed

section \<open>The property\<close>

lemma balance_history_unread:
  assumes "stale a e" "filter (\<lambda>b. bt_adapter_id b = a) (balance_t e) = filter (\<lambda>b. bt_adapter_id b = a) (balance_t d)"
  shows "balance_history a r e = map_sum id (map unread_row) (balance_history a r d)"
proof -
  have rows: "filter (\<lambda>b. bt_adapter_id b = a \<and> bt_resource_id b = r) (balance_t e) =
      filter (\<lambda>b. bt_adapter_id b = a \<and> bt_resource_id b = r) (balance_t d)"
    using arg_cong [OF assms(2), of "filter (\<lambda>b. bt_resource_id b = r)"] by (simp add: conj_commute)
  have row: "balance_from_row e b = map_sum id unread_row (balance_from_row d b)"
    if "b \<in> set (balance_t e)" "bt_adapter_id b = a" for b
    using that assms(1)
    by (cases "money_columns (bt_amount_asset b) (bt_amount b)"; cases "from_spelling staleness_names (bt_staleness b)")
      (simp_all add: balance_from_row_def stale_def unread_row_def)
  have collect: "collect_rows (balance_from_row e) bs = map_sum id (map unread_row) (collect_rows (balance_from_row d) bs)"
    if "\<And>b. b \<in> set bs \<Longrightarrow> b \<in> set (balance_t e) \<and> bt_adapter_id b = a" for bs
    using that
  proof (induction bs)
    case (Cons b bs)
    have IH: "collect_rows (balance_from_row e) bs = map_sum id (map unread_row) (collect_rows (balance_from_row d) bs)"
      by (rule Cons.IH) (use Cons.prems in simp)
    have "balance_from_row e b = map_sum id unread_row (balance_from_row d b)" using row Cons.prems by simp
    then show ?case
      by (cases "balance_from_row d b"; cases "collect_rows (balance_from_row d) bs") (simp_all add: IH)
  qed simp
  show ?thesis
    unfolding balance_history_def rows [symmetric] by (rule collect) auto
qed

lemma adapters_distinct:
  assumes "adapters from_str d = Inr rows" "distinct (map at_adapter_id (adapter_t d))"
  shows "distinct (map ar_adapter_id rows)"
proof -
  have r: "list_all2 (\<lambda>x y. adapter_from_row from_str x = Inr y) (sort_key at_adapter_id (adapter_t d)) rows"
    using assms by (simp add: adapters_def collect_rows_Inr_iff)
  have "at_adapter_id x = ar_adapter_id y" if "adapter_from_row from_str x = Inr y" for x y
    using that by (auto simp: adapter_from_row_def split: option.splits)
  then have "map ar_adapter_id rows = map at_adapter_id (sort_key at_adapter_id (adapter_t d))"
    using r by (intro nth_equalityI) (auto simp: list_all2_conv_all_nth)
  moreover have "distinct (map at_adapter_id (sort_key at_adapter_id (adapter_t d)))"
    using assms(2) by (simp add: distinct_map)
  ultimately show ?thesis by simp
qed

text \<open>C8. A balance read that did not happen never erases a figure and never keeps one reading as
  live. Whatever else a refresh did: for a visited adapter whose connection failed before its
  balances came, the history of every resource has the same rows as before and none of them counts
  as just read, and the line printed for such rows is the last figure observed, marked stale with
  the time it was observed, or says that there is none.\<close>

theorem unread_balance_is_stale:
  assumes "reads_ok d" and rows: "adapters from_str d = Inr rows" "x \<in> set rows"
    and "rfo_only options = None \<or> rfo_only options = Some (ar_adapter_id x)" "unread spawn x"
    and "refresh from_str fingerprint spawn options d = (Inr rep, e)"
  shows "balance_history (ar_adapter_id x) r e = map_sum id (map unread_row) (balance_history (ar_adapter_id x) r d) \<and>
    balance_line_text category (map unread_row figures) =
      (case last_figure figures of Some (a, b) \<Rightarrow> stale_line category a b | None \<Rightarrow> no_figure_line category figures)"
proof
  have "refresh_each fingerprint spawn options rows \<lparr>rp_sweeps = [], rp_adapter_errors = []\<rparr> d = (Inr rep, e)"
    using assms(6) rows by (auto simp: refresh_def split: list.splits)
  moreover have "distinct (map ar_adapter_id rows)" "behind (ar_adapter_id x) d"
    using assms(1) adapters_distinct [OF rows(1)] by (auto simp: reads_ok_def behind_def)
  ultimately show "balance_history (ar_adapter_id x) r e = map_sum id (map unread_row) (balance_history (ar_adapter_id x) r d)"
    using refresh_each_unread rows(2) assms(4,5) balance_history_unread by metis
qed (rule balance_line_unread)

text \<open>One adapter with a figure just read, and a refresh that cannot start it.\<close>

definition fresh_db :: db where
  "fresh_db = append_balance ''a1'' 1 (sample_balance\<lparr>bl_amount := Some \<lparr>asset = AssetId ''EUR'', units = 150, scale = 2\<rparr>\<rparr>)
     ''fetched''
     (db_new\<lparr>adapter_t := [\<lparr>at_adapter_id = ''a1'', at_argv = ''[]'', at_derivation = None,
                            at_needs_reauth = False, at_balance_read = 1\<rparr>]\<rparr>)"

definition fresh_row :: balance_row where
  "fresh_row =
     \<lparr>ba_balance_id = 1, ba_adapter_id = ''a1'', ba_resource_id = ''wallet'', ba_category = ''total'',
      ba_canonical_hint = Some ''total'', ba_amount = Some \<lparr>asset = AssetId ''EUR'', units = 150, scale = 2\<rparr>,
      ba_provider_id = pv_provider_id (bl_provenance sample_balance),
      ba_received_at = ts_str (pv_received_at (bl_provenance sample_balance)), ba_staleness = Live,
      ba_outcome = ''fetched'', ba_from_latest_read = True\<rparr>"

lemma fresh_history: "balance_history ''a1'' ''wallet'' fresh_db = Inr [fresh_row]"
  by code_simp

theorem unread_balance_is_stale_witness:
  "\<exists>rep e. refresh (\<lambda>_. Some (JArr [])) (\<lambda>_. ''f'') (\<lambda>_. Inl Timeout)
       \<lparr>rfo_resume = False, rfo_confirm_empty = False, rfo_only = None\<rparr> fresh_db = (Inr rep, e) \<and>
     balance_history ''a1'' ''wallet'' e = Inr [unread_row fresh_row] \<and>
     balance_line_text ''total'' [unread_row fresh_row] =
       stale_line ''total'' \<lparr>asset = AssetId ''EUR'', units = 150, scale = 2\<rparr> fresh_row"
proof -
  let ?o = "\<lparr>rfo_resume = False, rfo_confirm_empty = False, rfo_only = None\<rparr>"
  let ?x = "\<lparr>ar_adapter_id = ''a1'', ar_argv = [], ar_derivation = None, ar_needs_reauth = False\<rparr>"
  have ok: "reads_ok fresh_db" by (simp add: reads_ok_def fresh_db_def append_balance_def db_new_def)
  have rows: "adapters (\<lambda>_. Some (JArr [])) fresh_db = Inr [?x]"
    by (simp add: adapters_def fresh_db_def append_balance_def adapter_from_row_def de_vec_def)
  obtain e where o: "open_balance_read ''a1'' fresh_db = Inr (2, e)"
    by (simp add: open_balance_read_def fresh_db_def append_balance_def)
  have r: "refresh (\<lambda>_. Some (JArr [])) (\<lambda>_. ''f'') (\<lambda>_. Inl Timeout) ?o fresh_db =
      (Inr \<lparr>rp_sweeps = [], rp_adapter_errors = [(''a1'', SpawnFailed Timeout)]\<rparr>, e)"
    by (simp add: refresh_def rows o)
  have "last_figure [fresh_row] = Some (\<lparr>asset = AssetId ''EUR'', units = 150, scale = 2\<rparr>, fresh_row)"
    by (simp add: last_figure_def fresh_row_def)
  then show ?thesis
    using unread_balance_is_stale [OF ok rows _ _ _ r, of ?x "''wallet''" "''total''" "[fresh_row]"] r fresh_history
    by (simp add: unread_def)
qed

end
