(* ===== verification/Cli_Correct.thy ===== *)
theory Cli_Correct
  imports "HOL-Library.Multiset" "HOL-Library.Product_Lexorder" Refresh_Correct Store_Correct Cli
begin

text \<open>
  The command line. No command takes back what a profile records and none writes without the
  writer lock, \<open>connect\<close> registers all of what an adapter listed or nothing, and \<open>show\<close> prints the
  life of a record in order.
\<close>

section \<open>What a command may write\<close>

text \<open>A database that was written is still there, with all its history.\<close>

definition kept :: "profile_file \<Rightarrow> profile_file \<Rightarrow> bool" where
  "kept pf pf' =
     (case pf of
        Some (Written d) \<Rightarrow> (case pf' of Some (Written e) \<Rightarrow> append_only d e | _ \<Rightarrow> False)
      | _ \<Rightarrow> True)"

lemma kept_refl [simp]: "kept pf pf"
  by (simp add: kept_def append_only_def split: option.split db_file.split)

abbreviation file_of :: "command_result \<Rightarrow> profile_file" where
  "file_of r \<equiv> snd (snd r)"

locale careful_command =
  fixes lock :: lock_outcome and cmd :: "profile_file \<Rightarrow> command_result"
  assumes locked: "file_of (cmd pf) \<noteq> pf \<Longrightarrow> lock = LockTaken"
    and keeps: "kept pf (file_of (cmd pf))"
begin

lemma careful: "file_of (cmd pf) = pf \<or> lock = LockTaken \<and> kept pf (file_of (cmd pf))"
  using locked keeps by blast

end

text \<open>A report reads, so it needs no lock.\<close>

locale reading_command =
  fixes lock :: lock_outcome and cmd :: "profile_file \<Rightarrow> command_result"
  assumes reads: "file_of (cmd pf) = pf"

sublocale reading_command < careful_command
  by unfold_locales (simp_all add: reads)

lemma store_open_same: "store_open dir pf = Inr d \<Longrightarrow> pf = Some (Written d)"
  by (auto simp: store_open_def from_open_def split: option.splits db_file.splits if_splits)

lemma profile_lock_taken: "profile_lock outcome dir = Inr u \<Longrightarrow> outcome = LockTaken"
  by (simp add: profile_lock_def split: lock_outcome.splits)

lemma opened:
  assumes "res_bind (profile_lock outcome dir) (\<lambda>_. store_open dir pf) = Inr d"
  shows "outcome = LockTaken" "pf = Some (Written d)"
  using assms by (auto simp: res_simps dest: profile_lock_taken store_open_same)

lemma store_init_keeps: "store_init dir pf = Inr d \<Longrightarrow> kept pf (Some (Written d))"
  by (auto simp: store_init_def from_open_def kept_def append_only_def split: option.splits db_file.splits if_splits)

interpretation init: careful_command "cl_lock env" "cmd_init env dir" for env dir
proof
  fix pf
  show "file_of (cmd_init env dir pf) \<noteq> pf \<Longrightarrow> cl_lock env = LockTaken"
    by (auto simp: cmd_init_def dest: profile_lock_taken split: sum.splits)
  show "kept pf (file_of (cmd_init env dir pf))"
    by (auto simp: cmd_init_def store_init_keeps split: sum.splits)
qed

lemma grows_adapter: "grows {a} d (upsert_adapter value_text a argv d)"
  by (auto simp: grows_def append_only_def view_def upsert_adapter_def Let_def intro!: filter_update_where)

text \<open>The database \<open>connect\<close> registers an adapter in, before its resources.\<close>

definition registered :: "(json \<Rightarrow> string) \<Rightarrow> string \<Rightarrow> string \<Rightarrow> string list \<Rightarrow> db \<Rightarrow> db" where
  "registered value_text a derivation argv d =
     set_adapter_derivation a derivation (upsert_adapter value_text a argv d)"

lemma connect_cases:
  assumes "cmd_connect env dir argv pf = (ls, r, pf')"
  obtains e where "r = Inl e" "pf' = pf" "ls = []"
  | d a derivation listed u e where "argv \<noteq> []" "cl_lock env = LockTaken" "pf = Some (Written d)"
      "candidate (cl_conn env) argv = Inr (a, derivation, listed)"
      "upsert_all a listed (registered (cl_value_text env) a derivation argv d) = (u, e)"
      "pf' = Some (Written e)" "r = map_sum id (\<lambda>_. 0) u"
  using assms opened [of "cl_lock env" dir pf]
  by (auto simp: cmd_connect_def registered_def split: if_splits sum.splits prod.splits)


lemma registered_grows: "grows {a} d (registered value_text a derivation argv d)"
  unfolding registered_def by (rule grows_trans [OF grows_adapter grows_derivation])

lemma connect_grows:
  "upsert_all a listed (registered value_text a derivation argv d) = (u, e) \<Longrightarrow> grows {a} d e"
  using grows_trans [OF registered_grows upsert_all_grows] by (metis snd_conv)

lemma kept_grows: "grows A d e \<Longrightarrow> kept (Some (Written d)) (Some (Written e))"
  by (simp add: kept_def grows_def)

interpretation connect: careful_command "cl_lock env" "cmd_connect env dir argv" for env dir argv
proof
  fix pf
  obtain ls r pf' where c: "cmd_connect env dir argv pf = (ls, r, pf')" by (rule prod_cases3)
  show "cl_lock env = LockTaken" if "file_of (cmd_connect env dir argv pf) \<noteq> pf"
    using that c by (cases rule: connect_cases [OF c]) simp_all
  show "kept pf (file_of (cmd_connect env dir argv pf))"
    using c by (cases rule: connect_cases [OF c]) (auto intro: kept_grows connect_grows)
qed

lemma refresh_result:
  "refresh from_str fingerprint spawn options d = (u, e) \<Longrightarrow> grows (refreshed options d) d e"
  by (metis refresh_grows snd_conv)

lemma refresh_cases:
  assumes "cmd_refresh env dir args pf = (ls, r, pf')"
  obtains e where "r = Inl e" "pf' = pf" "ls = []"
  | d options u e where "cl_lock env = LockTaken" "pf = Some (Written d)" "pf' = Some (Written e)"
      "refresh (cl_from_str env) (cl_fingerprint env) (cl_session env) options d = (u, e)"
  using assms opened [of "cl_lock env" dir pf]
  by (auto simp: cmd_refresh_def split: if_splits sum.splits prod.splits)

interpretation refresh: careful_command "cl_lock env" "cmd_refresh env dir args" for env dir args
proof
  fix pf
  obtain ls r pf' where c: "cmd_refresh env dir args pf = (ls, r, pf')" by (rule prod_cases3)
  show "cl_lock env = LockTaken" if "file_of (cmd_refresh env dir args pf) \<noteq> pf"
    using that c by (cases rule: refresh_cases [OF c]) simp_all
  show "kept pf (file_of (cmd_refresh env dir args pf))"
    using c by (cases rule: refresh_cases [OF c]) (auto intro: kept_grows refresh_result)
qed

interpretation balances: reading_command lock "cmd_balances dir" for lock dir
  by unfold_locales (simp add: cmd_balances_def reported_def split: sum.split)

interpretation history: reading_command lock "cmd_history env dir args" for lock env dir args
  by unfold_locales (auto simp: cmd_history_def reported_def split: sum.split)

interpretation shown: reading_command lock "cmd_show env dir args" for lock env dir args
  by unfold_locales (auto simp: cmd_show_def reported_def split: sum.split list.split option.split prod.split)

interpretation status: reading_command lock "cmd_status env dir" for lock env dir
  by unfold_locales (auto simp: cmd_status_def Let_def split: sum.split)

text \<open>The commands that may write.\<close>

definition WRITERS :: "string list" where
  "WRITERS = [''init'', ''connect'', ''refresh'']"

lemma run_command_careful:
  "file_of (run_command env dir command args pf) = pf \<or>
   cl_lock env = LockTaken \<and> command \<in> set WRITERS \<and> kept pf (file_of (run_command env dir command args pf))"
  using init.careful [of env dir pf] connect.careful [of env dir args pf] refresh.careful [of env dir args pf]
    balances.reads [of dir pf] history.reads [of env dir args pf] shown.reads [of env dir args pf]
    status.reads [of env dir pf]
  by (simp add: run_command_def WRITERS_def)

text \<open>
  C6. No run of the program takes back what a profile records, and none writes without the lock.
  Whatever the arguments, the environment, the adapters and standard output do, either no file has
  changed, or the writer lock of the profile was taken, the command is \<open>init\<close>, \<open>connect\<close> or
  \<open>refresh\<close>, and only the database of that profile has changed: if it was written before, it still
  holds every observation, retraction, balance and discrepancy it had.
\<close>

theorem cli_keeps_history:
  "(case cli_main env stdout_ok args files of (code, printed, files') \<Rightarrow>
      files' = files \<or>
      (\<exists>dir command rest. split_profile (cl_var env) args = Inr (dir, command # rest) \<and>
         command \<in> set WRITERS \<and> cl_lock env = LockTaken \<and>
         files' = files(dir := files' dir) \<and> kept (files dir) (files' dir)))"
proof (cases "split_profile (cl_var env) args")
  case (Inr x)
  show ?thesis
  proof (cases "snd x")
    case (Cons command rest)
    obtain dir ls r pf where c: "x = (dir, command # rest)" "run_command env dir command rest (files dir) = (ls, r, pf)"
      using Cons by (metis prod.collapse prod_cases3)
    have "cli_main env stdout_ok args files =
        (fst (cli_main env stdout_ok args files), fst (snd (cli_main env stdout_ok args files)), files(dir := pf))"
      by (simp add: cli_main_def run_cli_def Inr c split: prod.split bool.split)
    then show ?thesis using run_command_careful [of env dir command rest "files dir"] Inr c
      by (auto split: prod.splits)
  qed (use Inr in \<open>auto simp: cli_main_def run_cli_def split: prod.splits bool.splits\<close>)
qed (auto simp: cli_main_def run_cli_def split: prod.splits bool.splits)

section \<open>Connecting\<close>

text \<open>The row of a resource after an adapter listed its resources; the last of an id counts.\<close>

definition described :: "string \<Rightarrow> string \<Rightarrow> resource_descriptor list \<Rightarrow> resource_row option \<Rightarrow> resource_row option" where
  "described a r listed old =
     (case List.find (\<lambda>x. rd_resource_id x = r) (rev listed) of
        None \<Rightarrow> old
      | Some x \<Rightarrow>
          Some (case old of
                  Some y \<Rightarrow> y\<lparr>sr_kind := rd_kind x, sr_label := rd_label x\<rparr>
                | None \<Rightarrow> \<lparr>sr_adapter_id = a, sr_resource_id = r, sr_kind = rd_kind x, sr_label = rd_label x,
                           sr_fingerprint = None, sr_last_provider_id = None\<rparr>))"

text \<open>The adapter's row.\<close>

definition enrolled :: "string \<Rightarrow> string \<Rightarrow> string \<Rightarrow> adapter_rec option \<Rightarrow> adapter_rec" where
  "enrolled a derivation argv_text old =
     (case old of
        Some y \<Rightarrow> y\<lparr>at_argv := argv_text, at_derivation := Some derivation\<rparr>
      | None \<Rightarrow> \<lparr>at_adapter_id = a, at_argv = argv_text, at_derivation = Some derivation,
                 at_needs_reauth = False, at_balance_read = 0\<rparr>)"

abbreviation adapter_rec_of :: "string \<Rightarrow> db \<Rightarrow> adapter_rec option" where
  "adapter_rec_of a d \<equiv> List.find (\<lambda>x. at_adapter_id x = a) (adapter_t d)"

lemma find_append: "List.find P (xs @ ys) = (case List.find P xs of Some x \<Rightarrow> Some x | None \<Rightarrow> List.find P ys)"
  by (induction xs) simp_all

lemma resource_key: "resource b r d = Some y \<Longrightarrow> sr_adapter_id y = b \<and> sr_resource_id y = r"
  by (auto simp: resource_def dest: find_SomeD)

lemma find_key: "List.find (\<lambda>x. f x = k) xs = None \<longleftrightarrow> k \<notin> f ` set xs"
  by (auto simp: find_None_iff)

lemma registered_adapter:
  "adapter_rec_of b (registered value_text a derivation argv d) =
     (if b = a then Some (enrolled a derivation (value_text (JArr (map JStr argv))) (adapter_rec_of a d))
      else adapter_rec_of b d)"
proof -
  let ?text = "value_text (JArr (map JStr argv))"
  show ?thesis
  proof (cases "adapter_rec_of a d")
    case None
    then have "a \<notin> at_adapter_id ` set (adapter_t d)" by (simp add: find_key)
    then have upd: "adapter_rec_of b (registered value_text a derivation argv d) =
        map_option (\<lambda>r. if at_adapter_id r = a then at_derivation_update (\<lambda>_. Some derivation) r else r)
          (case adapter_rec_of b d of Some x \<Rightarrow> Some x
           | None \<Rightarrow> if a = b then Some \<lparr>at_adapter_id = a, at_argv = ?text, at_derivation = None,
                                     at_needs_reauth = False, at_balance_read = 0\<rparr> else None)"
      by (simp add: registered_def set_adapter_derivation_def upsert_adapter_def find_update_where find_append
          split: option.split)
    show ?thesis
    proof (cases "adapter_rec_of b d")
      case (Some z)
      with find_SomeD [OF this] \<open>adapter_rec_of a d = None\<close> show ?thesis by (auto simp: upd enrolled_def)
    qed (use upd \<open>adapter_rec_of a d = None\<close> in \<open>auto simp: enrolled_def\<close>)
  next
    case (Some x)
    then have "a \<in> at_adapter_id ` set (adapter_t d)" by (auto dest: find_SomeD)
    then have upd: "adapter_rec_of b (registered value_text a derivation argv d) =
        map_option (\<lambda>r. if at_adapter_id r = a then at_derivation_update (\<lambda>_. Some derivation) r else r)
          (map_option (\<lambda>r. if at_adapter_id r = a then at_argv_update (\<lambda>_. ?text) r else r) (adapter_rec_of b d))"
      by (simp add: registered_def set_adapter_derivation_def upsert_adapter_def find_update_where)
    show ?thesis
    proof (cases "adapter_rec_of b d")
      case (Some z)
      with find_SomeD [OF this] \<open>adapter_rec_of a d = Some x\<close> show ?thesis by (auto simp: upd enrolled_def)
    qed (use upd \<open>adapter_rec_of a d = Some x\<close> in \<open>auto simp: enrolled_def\<close>)
  qed
qed

lemma registered_frame:
  "(registered value_text a derivation argv d)\<lparr>adapter_t := x\<rparr> = d\<lparr>adapter_t := x\<rparr>"
  "resource_t (registered value_text a derivation argv d) = resource_t d"
  by (simp_all add: registered_def set_adapter_derivation_def upsert_adapter_def Let_def)

lemma upsert_resource_exact:
  assumes "a \<in> at_adapter_id ` set (adapter_t d)"
  obtains e where "upsert_resource a (rd_resource_id x) (rd_kind x) (rd_label x) d = Inr e"
    "e\<lparr>resource_t := resource_t d\<rparr> = d" "adapter_t e = adapter_t d"
    "\<And>b r. resource b r e = (if b = a then described a r [x] (resource b r d) else resource b r d)"
proof (cases "resource a (rd_resource_id x) d")
  case None
  then have new: "(a, rd_resource_id x) \<notin> (\<lambda>x. (sr_adapter_id x, sr_resource_id x)) ` set (resource_t d)"
    by (auto simp: resource_def find_None_iff)
  show thesis
  proof (rule that)
    show "upsert_resource a (rd_resource_id x) (rd_kind x) (rd_label x) d =
      Inr (d\<lparr>resource_t := resource_t d @
        [\<lparr>sr_adapter_id = a, sr_resource_id = rd_resource_id x, sr_kind = rd_kind x, sr_label = rd_label x,
          sr_fingerprint = None, sr_last_provider_id = None\<rparr>]\<rparr>)"
      using assms new by (simp add: upsert_resource_def)
  qed (use None in \<open>auto simp: resource_def find_append described_def split: option.split\<close>)
next
  case (Some y)
  then have old: "(a, rd_resource_id x) \<in> (\<lambda>x. (sr_adapter_id x, sr_resource_id x)) ` set (resource_t d)"
    by (force simp: resource_def find_Some_iff)
  show thesis
  proof (rule that)
    show "upsert_resource a (rd_resource_id x) (rd_kind x) (rd_label x) d =
      Inr (d\<lparr>resource_t := update_where (\<lambda>z. sr_adapter_id z = a \<and> sr_resource_id z = rd_resource_id x)
        (\<lambda>z. z\<lparr>sr_kind := rd_kind x, sr_label := rd_label x\<rparr>) (resource_t d)\<rparr>)"
      using old by (simp add: upsert_resource_def)
    show "resource b r (d\<lparr>resource_t := update_where (\<lambda>z. sr_adapter_id z = a \<and> sr_resource_id z = rd_resource_id x)
        (\<lambda>z. z\<lparr>sr_kind := rd_kind x, sr_label := rd_label x\<rparr>) (resource_t d)\<rparr>) =
      (if b = a then described a r [x] (resource b r d) else resource b r d)" for b r
    proof -
      have upd: "resource b r (d\<lparr>resource_t := update_where (\<lambda>z. sr_adapter_id z = a \<and> sr_resource_id z = rd_resource_id x)
          (\<lambda>z. z\<lparr>sr_kind := rd_kind x, sr_label := rd_label x\<rparr>) (resource_t d)\<rparr>) =
        map_option (\<lambda>z. if sr_adapter_id z = a \<and> sr_resource_id z = rd_resource_id x
                        then z\<lparr>sr_kind := rd_kind x, sr_label := rd_label x\<rparr> else z) (resource b r d)"
        by (simp add: resource_def find_update_where)
      show ?thesis
      proof (cases "resource b r d")
        case (Some z)
        with resource_key [OF this] \<open>resource a (rd_resource_id x) d = Some y\<close> show ?thesis
          by (auto simp: upd described_def)
      qed (use upd \<open>resource a (rd_resource_id x) d = Some y\<close> in \<open>auto simp: described_def\<close>)
    qed
  qed simp_all
qed

lemma described_Cons: "described a r (x # xs) old = described a r xs (described a r [x] old)"
  by (auto simp: described_def find_append split: option.split)

lemma upsert_all_exact:
  assumes "a \<in> at_adapter_id ` set (adapter_t d)"
  obtains e where "upsert_all a xs d = (Inr (), e)" "e\<lparr>resource_t := resource_t d\<rparr> = d"
    "\<And>b r. resource b r e = (if b = a then described a r xs (resource b r d) else resource b r d)"
  using assms
proof (induction xs arbitrary: d thesis)
  case Nil
  show ?case by (rule Nil(1) [of d]) (simp_all add: described_def)
next
  case (Cons x xs)
  obtain d1 where d1: "upsert_resource a (rd_resource_id x) (rd_kind x) (rd_label x) d = Inr d1"
    "d1\<lparr>resource_t := resource_t d\<rparr> = d" "adapter_t d1 = adapter_t d"
    "\<And>b r. resource b r d1 = (if b = a then described a r [x] (resource b r d) else resource b r d)"
    by (rule upsert_resource_exact [OF Cons.prems(2)]) blast
  obtain e where e: "upsert_all a xs d1 = (Inr (), e)" "e\<lparr>resource_t := resource_t d1\<rparr> = d1"
    "\<And>b r. resource b r e = (if b = a then described a r xs (resource b r d1) else resource b r d1)"
    using Cons.IH [of d1] Cons.prems(2) d1(3) by metis
  show ?case
  proof (rule Cons.prems(1))
    show "upsert_all a (x # xs) d = (Inr (), e)" by (simp add: d1(1) e(1))
    have "e\<lparr>resource_t := resource_t d\<rparr> = (e\<lparr>resource_t := resource_t d1\<rparr>)\<lparr>resource_t := resource_t d\<rparr>" by simp
    then show "e\<lparr>resource_t := resource_t d\<rparr> = d" by (simp only: e(2) d1(2))
    show "resource b r e = (if b = a then described a r (x # xs) (resource b r d) else resource b r d)" for b r
      by (simp add: e(3) d1(4) described_Cons [of a r x xs])
  qed
qed

text \<open>An adapter that answered \<open>hello\<close> and \<open>resources.list\<close> and did not break the contract as it closed.\<close>

definition vetted ::
  "'s conn_env \<Rightarrow> string list \<Rightarrow> string \<Rightarrow> string \<Rightarrow> resource_descriptor list \<Rightarrow> bool" where
  "vetted env argv a derivation listed \<longleftrightarrow>
     (\<exists>h h'. spawn_impl env argv [] DEFAULT_DEADLINE False = Inr h \<and>
        handle_resources_list env h = (Inr listed, h') \<and>
        (\<forall>kind. handle_close env h' \<noteq> Some (Violation kind)) \<and>
        a = hr_adapter_id (hd_hello h') \<and> derivation = hr_local_id_derivation (hd_hello h'))"

lemma candidate_vetted: "candidate env argv = Inr (a, derivation, listed) \<Longrightarrow> vetted env argv a derivation listed"
  unfolding candidate_def vetted_def by (auto split: sum.splits prod.splits option.splits terminal.splits)

text \<open>
  C7. \<open>connect\<close> registers everything or nothing. Either it ends in an error, prints nothing and
  leaves the profile as it was; or the adapter answered and closed without breaking the contract,
  and the profile differs in exactly this: the adapter has a row with the command line that was
  given and the derivation it named, each resource it listed has a row with its kind and label,
  and a row that was there keeps its other columns, so that the fingerprint and vantage the next
  refresh compares with are not lost.
\<close>

theorem connect_all_or_nothing:
  "(case cmd_connect env dir argv pf of (ls, r, pf') \<Rightarrow>
      (\<exists>x. r = Inl x) \<and> pf' = pf \<and> ls = [] \<or>
      (\<exists>d e a derivation listed.
         pf = Some (Written d) \<and> pf' = Some (Written e) \<and> r = Inr 0 \<and>
         vetted (cl_conn env) argv a derivation listed \<and>
         e\<lparr>adapter_t := [], resource_t := []\<rparr> = d\<lparr>adapter_t := [], resource_t := []\<rparr> \<and>
         (\<forall>b. adapter_rec_of b e =
            (if b = a then Some (enrolled a derivation (cl_value_text env (JArr (map JStr argv))) (adapter_rec_of a d))
             else adapter_rec_of b d)) \<and>
         (\<forall>b x. resource b x e = (if b = a then described a x listed (resource b x d) else resource b x d))))"
proof -
  obtain ls r pf' where c: "cmd_connect env dir argv pf = (ls, r, pf')" by (rule prod_cases3)
  show ?thesis unfolding c prod.case
  proof (cases rule: connect_cases [OF c])
    case (2 d a derivation listed u e)
    let ?d = "registered (cl_value_text env) a derivation argv d"
    have "adapter_rec_of a ?d \<noteq> None" by (simp add: registered_adapter)
    then have "a \<in> at_adapter_id ` set (adapter_t ?d)" by (simp add: find_key)
    then obtain e' where e': "upsert_all a listed ?d = (Inr (), e')" "e'\<lparr>resource_t := resource_t ?d\<rparr> = ?d"
      "\<And>b x. resource b x e' = (if b = a then described a x listed (resource b x ?d) else resource b x ?d)"
      by (rule upsert_all_exact) blast
    have u: "u = Inr ()" "e = e'" using e'(1) 2(5) by auto
    have "e\<lparr>adapter_t := [], resource_t := []\<rparr> = (e\<lparr>resource_t := resource_t ?d\<rparr>)\<lparr>adapter_t := [], resource_t := []\<rparr>"
      by simp
    also have "\<dots> = d\<lparr>adapter_t := [], resource_t := []\<rparr>" by (simp add: u e'(2) registered_frame(1))
    finally have rest: "e\<lparr>adapter_t := [], resource_t := []\<rparr> = d\<lparr>adapter_t := [], resource_t := []\<rparr>" .
    have "adapter_t e = adapter_t (e\<lparr>resource_t := resource_t ?d\<rparr>)" by simp
    then have adapters: "adapter_t e = adapter_t ?d" by (simp only: u e'(2))
    have resources: "resource b x e = (if b = a then described a x listed (resource b x d) else resource b x d)" for b x
      using e'(3) [of b x] by (simp add: u resource_def registered_frame(2))
    show "(\<exists>x. r = Inl x) \<and> pf' = pf \<and> ls = [] \<or>
      (\<exists>d e a derivation listed.
         pf = Some (Written d) \<and> pf' = Some (Written e) \<and> r = Inr 0 \<and>
         vetted (cl_conn env) argv a derivation listed \<and>
         e\<lparr>adapter_t := [], resource_t := []\<rparr> = d\<lparr>adapter_t := [], resource_t := []\<rparr> \<and>
         (\<forall>b. adapter_rec_of b e =
            (if b = a then Some (enrolled a derivation (cl_value_text env (JArr (map JStr argv))) (adapter_rec_of a d))
             else adapter_rec_of b d)) \<and>
         (\<forall>b x. resource b x e = (if b = a then described a x listed (resource b x d) else resource b x d)))"
      using 2(3,6,7) candidate_vetted [OF 2(4)] rest resources
        registered_adapter [of _ "cl_value_text env" a derivation argv d]
      unfolding adapters u(1) by (intro disjI2) (auto simp: adapters)
  qed simp
qed

section \<open>Showing a record\<close>

text \<open>Sorting by a key is grouping by the keys in order.\<close>

lemma mset_filter_disj:
  assumes "\<And>x. x \<in> set xs \<Longrightarrow> \<not> (P x \<and> Q x)"
  shows "mset (filter P xs) + mset (filter Q xs) = mset (filter (\<lambda>x. P x \<or> Q x) xs)"
  using assms by (induction xs) auto

lemma sort_key_groups:
  fixes f :: "'a \<Rightarrow> 'k :: linorder"
  assumes "sorted_wrt (<) ks" "f ` set xs \<subseteq> set ks"
  shows "sort_key f xs = concat (map (\<lambda>k. filter (\<lambda>x. f x = k) xs) ks)"
proof (rule properties_for_sort_key)
  have "mset (concat (map (\<lambda>k. filter (\<lambda>x. f x = k) xs) ks)) = mset (filter (\<lambda>x. f x \<in> set ks) xs)"
    using assms(1)
  proof (induction ks)
    case (Cons k ks)
    then have "k \<notin> set ks" by auto
    then show ?case using Cons mset_filter_disj [of xs "\<lambda>x. f x = k" "\<lambda>x. f x \<in> set ks"] by auto
  qed simp
  also have "filter (\<lambda>x. f x \<in> set ks) xs = xs" using assms(2) by (auto intro: filter_True)
  finally show "mset (concat (map (\<lambda>k. filter (\<lambda>x. f x = k) xs) ks)) = mset xs" .
next
  fix x assume "x \<in> set (concat (map (\<lambda>k. filter (\<lambda>x. f x = k) xs) ks))"
  then have "f x \<in> set ks" by auto
  with assms(1) show "filter (\<lambda>y. f x = f y) (concat (map (\<lambda>k. filter (\<lambda>x. f x = k) xs) ks)) =
      filter (\<lambda>y. f x = f y) xs"
  proof (induction ks)
    case (Cons k ks)
    have other: "filter (\<lambda>y. c = f y) (concat (map (\<lambda>k. filter (\<lambda>x. f x = k) xs) ks)) = []" if "c \<notin> set ks" for c
      using that by (auto simp: filter_empty_conv)
    show ?case
    proof (cases "f x = k")
      case True
      then have "k \<notin> set ks" using Cons.prems(1) by auto
      with True other show ?thesis by (auto intro: filter_cong)
    next
      case False
      then have "filter (\<lambda>y. f x = f y) (filter (\<lambda>y. f y = k) xs) = []" by (auto simp: filter_empty_conv)
      with False Cons show ?thesis by (simp del: filter_filter)
    qed
  qed simp
next
  show "sorted (map f (concat (map (\<lambda>k. filter (\<lambda>x. f x = k) xs) ks)))" using assms(1)
  proof (induction ks)
    case (Cons k ks)
    have "sorted (map f (filter (\<lambda>x. f x = k) xs))" by (induction xs) auto
    with Cons show ?case by (auto simp: sorted_append intro: less_imp_le)
  qed simp
qed

text \<open>The life of a record: each revision, followed by what retracted it.\<close>

definition record_life :: "stored_observation list \<Rightarrow> retraction_row list \<Rightarrow> string list" where
  "record_life rows rs =
     concat (map (\<lambda>so. observation_line so #
                    map retraction_line (filter (\<lambda>r. rr_revision r = so_revision so) rs)) rows)"

lemma concat_pairs: "concat (map g (concat (map (\<lambda>i. [(i, a), (i, b)]) xs))) = concat (map (\<lambda>i. g (i, a) @ g (i, b)) xs)"
  by (induction xs) simp_all

lemma show_lines_life:
  assumes rev: "map so_revision rows = [1..<Suc n]" and bound: "\<And>r. r \<in> set rs \<Longrightarrow> rr_revision r \<le> n"
  shows "show_lines rows rs = map retraction_line (filter (\<lambda>r. rr_revision r = 0) rs) @ record_life rows rs"
proof -
  let ?key = "\<lambda>(revision, kind, _). (revision, kind)"
  let ?items = "map (\<lambda>so. (so_revision so, 0::nat, observation_line so)) rows @
      map (\<lambda>r. (rr_revision r, 1, retraction_line r)) rs"
  let ?ks = "concat (map (\<lambda>i. [(i, 0::nat), (i, 1)]) [0..<Suc n])"
  let ?g = "\<lambda>k. map (snd \<circ> snd) (filter (\<lambda>x. ?key x = k) ?items)"
  have revs: "so_revision so \<in> {1..<Suc n}" if "so \<in> set rows" for so
    using that rev by (metis image_eqI list.set_map set_upt)
  have "sorted_wrt (<) ?ks" by (induction n) (auto simp: sorted_wrt_append)
  moreover have "?key ` set ?items \<subseteq> set ?ks" using revs bound by (fastforce simp: less_Suc_eq_le)
  ultimately have "show_lines rows rs = concat (map ?g ?ks)"
    unfolding show_lines_def by (simp only: sort_key_groups map_concat map_map comp_def)
  also have "\<dots> = concat (map (\<lambda>i. ?g (i, 0) @ ?g (i, 1)) [0..<Suc n])" by (rule concat_pairs)
  also have "\<dots> = concat (map (\<lambda>i. map observation_line (filter (\<lambda>so. so_revision so = i) rows) @
      map retraction_line (filter (\<lambda>r. rr_revision r = i) rs)) [0..<Suc n])"
    by (simp add: filter_map comp_def del: upt_Suc)
  also have "[0..<Suc n] = 0 # map so_revision rows" by (simp only: rev) (simp add: upt_conv_Cons)
  finally have "show_lines rows rs =
      concat (map (\<lambda>i. map observation_line (filter (\<lambda>so. so_revision so = i) rows) @
        map retraction_line (filter (\<lambda>r. rr_revision r = i) rs)) (0 # map so_revision rows))" .
  moreover have "filter (\<lambda>so. so_revision so = 0) rows = []" using revs by (force simp: filter_empty_conv)
  moreover have "filter (\<lambda>y. so_revision y = so_revision so) rows = [so]" if "so \<in> set rows" for so
    using that by (intro filter_key) (simp_all add: rev del: upt_Suc)
  ultimately show ?thesis by (simp add: record_life_def comp_def cong: map_cong)
qed

lemma chain_of_record:
  assumes "db_ok from_str d"
  obtains rows where "chain_rows from_str a l d = Inr rows"
    "list_all2 (\<lambda>r so. into_stored from_str (or_raw r) = Inr so) (chain_recs a l d) rows"
    "map so_revision rows = [1..<Suc (length (chain_recs a l d))]"
proof -
  have c: "chain_rows from_str a l d = collect_rows (\<lambda>r. into_stored from_str (or_raw r)) (chain_recs a l d)"
    unfolding chain_rows_def chain_recs_def sort_key_sorted_filter [OF db_okD(1) [OF assms]] ..
  have "is_ok (chain_rows from_str a l d)" unfolding c
    by (rule collect_rows_ok) (use db_okD(2) [OF assms] in \<open>auto simp: chain_recs_def row_ok_def\<close>)
  then obtain rows where rows: "chain_rows from_str a l d = Inr rows" by (auto simp: is_ok_iff)
  then have all: "list_all2 (\<lambda>r so. into_stored from_str (or_raw r) = Inr so) (chain_recs a l d) rows"
    by (simp add: c collect_rows_Inr_iff)
  then have "map int (map so_revision rows) = map (\<lambda>r. ro_revision (or_raw r)) (chain_recs a l d)"
    by (induction rule: list_all2_induct) (auto simp: into_stored_fields(1))
  also have "\<dots> = map int [1..<Suc (length (chain_recs a l d))]" by (rule db_okD(3) [OF assms])
  finally have "map so_revision rows = [1..<Suc (length (chain_recs a l d))]"
    by (rule map_injective) (simp add: inj_on_def)
  with rows all show thesis by (rule that)
qed

lemma list_all2_right: "list_all2 R xs ys \<Longrightarrow> y \<in> set ys \<Longrightarrow> \<exists>x\<in>set xs. R x y"
  by (induction rule: list_all2_induct) auto

lemma retractions_of_record:
  assumes "db_ok from_str d"
  obtains rs where "retractions_for a l d = Inr rs"
    "\<And>r. r \<in> set rs \<Longrightarrow> rr_revision r \<le> length (chain_recs a l d)"
proof -
  let ?rows = "sort_key rt_retraction_id (filter (\<lambda>r. rt_adapter_id r = a \<and> rt_local_id r = l) (retraction_t d))"
  have ok: "\<forall>r\<in>set ?rows. 0 \<le> rt_revision r \<and> rt_revision r \<le> int (length (chain_recs a l d))"
    using db_okD(4) [OF assms] by auto
  have "is_ok (retractions_for a l d)" unfolding retractions_for_def
    by (rule collect_rows_ok) (use ok in \<open>auto simp: retraction_from_row_def retraction_revision_def is_ok_iff res_simps\<close>)
  then obtain rs where rs: "retractions_for a l d = Inr rs" by (auto simp: is_ok_iff)
  then have all: "list_all2 (\<lambda>r x. retraction_from_row r = Inr x) ?rows rs"
    by (simp add: retractions_for_def collect_rows_Inr_iff)
  show thesis
  proof (rule that [OF rs])
    fix x assume "x \<in> set rs"
    with list_all2_right [OF all] obtain r where r: "r \<in> set ?rows" "retraction_from_row r = Inr x" by blast
    from r(2) bspec [OF ok r(1)] show "rr_revision x \<le> length (chain_recs a l d)"
      by (auto simp: retraction_from_row_def retraction_revision_def res_simps split: if_splits)
  qed
qed

text \<open>
  C9. On a consistent database \<open>show\<close> does not fail, and prints the life of a record for each
  adapter that has one: its revisions 1, 2, ... in order, each followed at once by what retracted
  it, so that a revival reads after the retraction it answers. Every observation and every
  retraction of the record is printed once. A retraction of revision 0, which no sweep writes,
  would come first.
\<close>

theorem show_prints_life:
  assumes "db_ok (cl_from_str env) d"
  shows "\<exists>rows rs. chain_rows (cl_from_str env) (ar_adapter_id x) l d = Inr rows \<and>
     retractions_for (ar_adapter_id x) l d = Inr rs \<and>
     map so_revision rows = [1..<Suc (length rows)] \<and> list_all (\<lambda>r. rr_revision r \<le> length rows) rs \<and>
     show_of env d l x =
       (if rows = [] then []
        else (ar_adapter_id x @ ''/'' @ l) # map retraction_line (filter (\<lambda>r. rr_revision r = 0) rs) @ record_life rows rs,
        None)"
proof -
  obtain rows where rows: "chain_rows (cl_from_str env) (ar_adapter_id x) l d = Inr rows"
    "list_all2 (\<lambda>r so. into_stored (cl_from_str env) (or_raw r) = Inr so) (chain_recs (ar_adapter_id x) l d) rows"
    "map so_revision rows = [1..<Suc (length (chain_recs (ar_adapter_id x) l d))]"
    by (rule chain_of_record [OF assms])
  obtain rs where rs: "retractions_for (ar_adapter_id x) l d = Inr rs"
    "\<And>r. r \<in> set rs \<Longrightarrow> rr_revision r \<le> length (chain_recs (ar_adapter_id x) l d)"
    using retractions_of_record [OF assms] by blast
  have n: "length (chain_recs (ar_adapter_id x) l d) = length rows" using rows(2) by (rule list_all2_lengthD)
  show ?thesis
    using rows(1) rs rows(3) show_lines_life [OF rows(3) rs(2)] unfolding n
    by (intro exI [of _ rows] exI [of _ rs]) (auto simp: show_of_def list_all_iff split: list.split)
qed

text \<open>A record that was retracted once and came back.\<close>

definition sample_cli :: "unit cli_env" where
  "sample_cli =
     \<lparr>cl_lock = LockTaken, cl_var = (\<lambda>_. Some ''p''), cl_from_str = (\<lambda>_. Some (JObj [])), cl_value_text = (\<lambda>_. ''{}''),
      cl_fingerprint = (\<lambda>_. ''f''), cl_session = (\<lambda>_. Inl Timeout),
      cl_conn = \<lparr>ce_spawn = (\<lambda>_ _ _. Inl ''no such file''), ce_send = (\<lambda>_ _ c. (Inl Timeout, c)),
                 ce_join = (\<lambda>_ _ c. ((Inl Timeout, Inl Timeout), c)), ce_terminal = (\<lambda>_. None),
                 ce_raise = (\<lambda>_ c. c), ce_close = (\<lambda>_. None), ce_from_str = (\<lambda>_. None),
                 ce_err_text = (\<lambda>_. []), ce_to_vec = (\<lambda>_. None)\<rparr>,
      cl_lib = (\<lambda>_. [])\<rparr>"

definition revived :: append_args where
  "revived = sample_append\<lparr>ap_revision := 2\<rparr>"

definition life_db :: db where
  "life_db =
     db_new\<lparr>observation_t := [\<lparr>or_adapter_id = ''a1'', or_raw = row_of_append (\<lambda>_. ''{}'') 1 sample_append\<rparr>,
                             \<lparr>or_adapter_id = ''a1'', or_raw = row_of_append (\<lambda>_. ''{}'') 2 revived\<rparr>],
            retraction_t := [\<lparr>rt_retraction_id = 1, rt_adapter_id = ''a1'', rt_local_id = ''x'', rt_revision = 1,
                              rt_reason = ''not_seen'', rt_crawl_id = 2, rt_retracted_at = ''t''\<rparr>]\<rparr>"

lemma life_rows [simp]:
  "into_stored (\<lambda>_. Some (JObj [])) (row_of_append (\<lambda>_. ''{}'') 1 sample_append) = Inr (stored_of 1 sample_append)"
  "into_stored (\<lambda>_. Some (JObj [])) (row_of_append (\<lambda>_. ''{}'') 2 revived) = Inr (stored_of 2 revived)"
  by (rule row_roundtrip; simp add: sample_append_def revived_def sample_ok i64_max_def)+

lemma life_db_ok: "db_ok (\<lambda>_. Some (JObj [])) life_db"
  by (simp add: db_ok_def life_db_def db_new_def chain_recs_def row_ok_def)
    (simp add: sample_append_def revived_def sample_observation_def sql_revision_def i64_max_def)

theorem show_prints_life_witness:
  "show_of sample_cli life_db ''x''
     \<lparr>ar_adapter_id = ''a1'', ar_argv = [], ar_derivation = None, ar_needs_reauth = False\<rparr> =
   ([''a1/x'', observation_line (stored_of 1 sample_append),
     retraction_line \<lparr>rr_adapter_id = ''a1'', rr_local_id = ''x'', rr_revision = 1, rr_reason = ''not_seen'',
       rr_crawl_id = 2, rr_retracted_at = ''t''\<rparr>,
     observation_line (stored_of 2 revived)], None)"
proof -
  let ?x = "\<lparr>ar_adapter_id = ''a1'', ar_argv = [], ar_derivation = None, ar_needs_reauth = False\<rparr>"
  have f: "cl_from_str sample_cli = (\<lambda>_. Some (JObj []))" by (simp add: sample_cli_def)
  have "ob_local_id (ap_observation sample_append) = ''x''" "ob_local_id (ap_observation revived) = ''x''"
    by (simp_all add: sample_append_def revived_def sample_observation_def)
  moreover have "so_revision (stored_of 1 sample_append) = 1" "so_revision (stored_of 2 revived) = 2"
    by (simp_all add: stored_of_def sample_append_def revived_def)
  ultimately show ?thesis
    using show_prints_life [of sample_cli life_db ?x "''x''"] life_db_ok
    by (simp add: f chain_rows_def retractions_for_def life_db_def retraction_from_row_def retraction_revision_def
        record_life_def)
qed

end
