(* ===== verification/Connection.thy ===== *)
theory Connection
  imports Mux Ordered_Map
begin

text \<open>
  One connection as a whole (\<open>core/host/src/mux.rs\<close>, \<open>process.rs\<close>, \<open>lib.rs\<close>): the environment a
  process is started with; the callers, the bounded queue, the pump, the concurrency permits, the
  tasks that wait for replies, the reader and the supervisor, each cut where it awaits, so that a
  run of the connection is a sequence of steps of its tasks in any order. Which step comes next,
  whether a deadline has passed, what a read or a write returned and when the process exits is up
  to the runtime and the adapter: it is an argument of the step.
\<close>

section \<open>Starting the process\<close>

definition ENV_ALLOWLIST :: "string list" where
  "ENV_ALLOWLIST = [''PATH'', ''HOME'', ''LANG'', ''LC_ALL'', ''TMPDIR'']"

text \<open>The environment of the child: cleared, then the allowed variables of the host, then the extra ones.\<close>

definition child_env :: "(string \<Rightarrow> string option) \<Rightarrow> (string \<times> string) list \<Rightarrow> (string, string) btree_map" where
  "child_env var extra_env =
     foldl (\<lambda>m p. btree_insert (fst p) (snd p) m)
       (foldl (\<lambda>m key. case var key of Some val \<Rightarrow> btree_insert key val m | None \<Rightarrow> m) [] ENV_ALLOWLIST)
       extra_env"

definition process_spawn ::
  "(string \<Rightarrow> string option) \<Rightarrow> (string \<Rightarrow> string list \<Rightarrow> (string, string) btree_map \<Rightarrow> string + 'p) \<Rightarrow>
   string list \<Rightarrow> (string \<times> string) list \<Rightarrow> string + 'p" where
  "process_spawn var cmd_spawn argv extra_env =
     (case argv of
        [] \<Rightarrow> Inl ''empty adapter argv''
      | program # args \<Rightarrow> cmd_spawn program args (child_env var extra_env))"

section \<open>The state\<close>

definition OUTBOUND_QUEUE_CAPACITY :: nat where "OUTBOUND_QUEUE_CAPACITY = 64"

text \<open>
  A call is named by its number in \<open>lk_calls\<close>; its responder is that number, and resolving it
  appends to \<open>lk_answers\<close>. The pump holds the request it took until it has spawned the task that
  waits for the reply.
\<close>

datatype pump_state =
    PumpIdle
  | PumpWaiting nat queued_request
  | PumpChecked nat queued_request
  | PumpWriting nat request_id
  | PumpEnded

type_synonym call_result = "host_error + string \<times> rfc3339"

record link =
  lk_conn :: connection
  lk_reader :: reader
  lk_calls :: "queued_request list"
  lk_senders :: "(nat \<times> queued_request) list"
  lk_queue :: "(nat \<times> queued_request) list"
  lk_pump :: pump_state
  lk_permits :: nat
  lk_tasks :: "(nat \<times> request_id) list"
  lk_lines :: "(nat \<times> request_id \<times> string) list"
  lk_answers :: "(nat \<times> call_result) list"
  lk_closing :: bool
  lk_supervised :: bool
  lk_limit :: "nat option"

text \<open>
  \<open>spawn_inner\<close>: one permit. \<open>lk_limit\<close> is the adapter's \<open>max_in_flight\<close> once the handshake has
  raised the permits to it; \<open>lk_lines\<close> is what went to the child's stdin, with the call it was for.
\<close>

definition link_new :: link where
  "link_new =
     \<lparr>lk_conn = \<lparr>cn_mux = mux_new, cn_kill = None\<rparr>, lk_reader = reader_new, lk_calls = [], lk_senders = [],
      lk_queue = [], lk_pump = PumpIdle, lk_permits = 1, lk_tasks = [], lk_lines = [], lk_answers = [],
      lk_closing = False, lk_supervised = False, lk_limit = None\<rparr>"

abbreviation lk_mux :: "link \<Rightarrow> mux" where
  "lk_mux k \<equiv> cn_mux (lk_conn k)"

definition set_mux :: "mux \<Rightarrow> link \<Rightarrow> link" where
  "set_mux m k = k\<lparr>lk_conn := (lk_conn k)\<lparr>cn_mux := m\<rparr>\<rparr>"

definition respond :: "nat \<Rightarrow> call_result \<Rightarrow> link \<Rightarrow> link" where
  "respond n result k = k\<lparr>lk_answers := lk_answers k @ [(n, result)]\<rparr>"

section \<open>A caller\<close>

text \<open>\<open>Mux::call\<close> up to the send: refused on a finished connection, else waiting for room in the queue.\<close>

definition call_start :: "queued_request \<Rightarrow> link \<Rightarrow> link" where
  "call_start rq k =
     (let n = length (lk_calls k); k = k\<lparr>lk_calls := lk_calls k @ [rq]\<rparr> in
      case terminal (lk_mux k) of
        Some t \<Rightarrow> respond n (Inl (host_error_of t)) k
      | None \<Rightarrow> k\<lparr>lk_senders := lk_senders k @ [(n, rq)]\<rparr>)"

definition call_enqueue :: "link \<Rightarrow> link" where
  "call_enqueue k =
     (case lk_senders k of
        x # xs \<Rightarrow>
          if lk_pump k \<noteq> PumpEnded \<and> length (lk_queue k) < OUTBOUND_QUEUE_CAPACITY
          then k\<lparr>lk_senders := xs, lk_queue := lk_queue k @ [x]\<rparr> else k
      | [] \<Rightarrow> k)"

text \<open>The pump is gone: a caller whose send fails, or whose queued request is dropped with the queue.\<close>

definition call_failed :: "nat \<times> queued_request \<Rightarrow> link \<Rightarrow> link" where
  "call_failed x k =
     (if lk_pump k = PumpEnded \<and> x \<in> set (lk_senders k @ lk_queue k)
      then respond (fst x) (Inl (terminal_error (lk_mux k)))
             (k\<lparr>lk_senders := remove1 x (lk_senders k), lk_queue := remove1 x (lk_queue k)\<rparr>)
      else k)"

section \<open>The pump\<close>

definition pump_take :: "bool \<Rightarrow> link \<Rightarrow> link" where
  "pump_take expired k =
     (case (lk_pump k, lk_queue k) of
        (PumpIdle, (n, rq) # queue) \<Rightarrow>
          (let k = k\<lparr>lk_queue := queue\<rparr> in
           case pump_admit expired (lk_mux k) of
             Some e \<Rightarrow> respond n (Inl e) k
           | None \<Rightarrow> k\<lparr>lk_pump := PumpWaiting n rq\<rparr>)
      | _ \<Rightarrow> k)"

text \<open>An empty queue lets the close win; returning drops the child's stdin.\<close>

definition pump_close :: "link \<Rightarrow> link" where
  "pump_close k =
     (if lk_pump k = PumpIdle \<and> lk_queue k = [] \<and> lk_closing k then k\<lparr>lk_pump := PumpEnded\<rparr> else k)"

definition pump_permit :: "bool \<Rightarrow> link \<Rightarrow> link" where
  "pump_permit expired k =
     (case lk_pump k of
        PumpWaiting n rq \<Rightarrow>
          if lk_permits k = 0 then k
          else (case pump_admit expired (lk_mux k) of
                  Some e \<Rightarrow> respond n (Inl e) (k\<lparr>lk_pump := PumpIdle\<rparr>)
                | None \<Rightarrow> k\<lparr>lk_permits := lk_permits k - 1, lk_pump := PumpChecked n rq\<rparr>)
      | _ \<Rightarrow> k)"

text \<open>The checks are over and their lock is released when the id is issued.\<close>

definition pump_line :: "(json \<Rightarrow> string + string) \<Rightarrow> link \<Rightarrow> link" where
  "pump_line to_text k =
     (case lk_pump k of
        PumpChecked n rq \<Rightarrow>
          (case pump_issue to_text rq (lk_mux k) of
             (Inl e, m) \<Rightarrow>
               respond n (Inl e) (set_mux m (k\<lparr>lk_pump := PumpIdle, lk_permits := lk_permits k + 1\<rparr>))
           | (Inr (i, line), m) \<Rightarrow>
               set_mux m (k\<lparr>lk_pump := PumpWriting n i, lk_lines := lk_lines k @ [(n, i, line)]\<rparr>))
      | _ \<Rightarrow> k)"

definition pump_write :: "write_outcome \<Rightarrow> link \<Rightarrow> link" where
  "pump_write w k =
     (case lk_pump k of
        PumpWriting n i \<Rightarrow>
          (case pump_written i w (lk_conn k) of
             (Some e, c) \<Rightarrow>
               respond n (Inl e) (k\<lparr>lk_conn := c, lk_pump := PumpEnded, lk_permits := lk_permits k + 1\<rparr>)
           | (None, c) \<Rightarrow> k\<lparr>lk_conn := c, lk_pump := PumpIdle, lk_tasks := lk_tasks k @ [(n, i)]\<rparr>)
      | _ \<Rightarrow> k)"

text \<open>The task that waits for one reply: what its channel or its deadline gave.\<close>

definition task_done :: "nat \<times> request_id \<Rightarrow> wait_outcome \<Rightarrow> link \<Rightarrow> link" where
  "task_done x w k =
     (if x \<in> set (lk_tasks k) then
        (case await_reply (snd x) w (lk_mux k) of
           (result, m) \<Rightarrow>
             respond (fst x) result
               (set_mux m (k\<lparr>lk_tasks := remove1 x (lk_tasks k), lk_permits := lk_permits k + 1\<rparr>)))
      else k)"

section \<open>The reader, the supervisor and the handle\<close>

definition reader_step :: "(string \<Rightarrow> json option) \<Rightarrow> (nat \<Rightarrow> rfc3339) \<Rightarrow> read_event \<Rightarrow> link \<Rightarrow> link" where
  "reader_step from_str clock e k =
     (case read_loop from_str clock [e] (lk_reader k, lk_conn k) of
        (r, c) \<Rightarrow> k\<lparr>lk_reader := r, lk_conn := c\<rparr>)"

definition supervisor_exit :: "int option \<Rightarrow> bool \<Rightarrow> link \<Rightarrow> link" where
  "supervisor_exit code drained k =
     (if lk_supervised k \<or> drained \<and> lk_reader k \<noteq> Returned then k
      else k\<lparr>lk_conn := supervise_exit code drained (lk_conn k), lk_supervised := True\<rparr>)"

definition supervisor_kill :: "link \<Rightarrow> link" where
  "supervisor_kill k =
     (if lk_supervised k \<or> cn_kill (lk_conn k) = None then k
      else k\<lparr>lk_conn := supervise_kill (lk_conn k), lk_supervised := True\<rparr>)"

text \<open>\<open>raise_concurrency\<close>, with the \<open>max_in_flight\<close> of the hello reply.\<close>

definition raise_limit :: "nat \<Rightarrow> link \<Rightarrow> link" where
  "raise_limit max_in_flight k =
     (let n = max 1 max_in_flight in
      k\<lparr>lk_permits := lk_permits k + extra_permits n, lk_limit := Some n\<rparr>)"

definition begin_close :: "link \<Rightarrow> link" where
  "begin_close k = k\<lparr>lk_closing := True\<rparr>"

definition close_timeout :: "bool \<Rightarrow> link \<Rightarrow> link" where
  "close_timeout exited k = set_mux (snd (close_outcome False exited (lk_mux k))) k"

definition drop_handle :: "link \<Rightarrow> link" where
  "drop_handle k = k\<lparr>lk_conn := try_send None (lk_conn k)\<rparr>"

section \<open>The runs\<close>

text \<open>
  The first call is the hello of \<open>spawn_impl\<close>; the handle that makes the others exists once it has
  been answered and the limit is raised.
\<close>

inductive link_step ::
  "(string \<Rightarrow> json option) \<Rightarrow> (nat \<Rightarrow> rfc3339) \<Rightarrow> (json \<Rightarrow> string + string) \<Rightarrow> link \<Rightarrow> link \<Rightarrow> bool"
  for from_str clock to_text where
  Call: "lk_calls k = [] \<or> lk_limit k \<noteq> None \<Longrightarrow> link_step from_str clock to_text k (call_start rq k)"
| Enqueue: "link_step from_str clock to_text k (call_enqueue k)"
| Failed: "link_step from_str clock to_text k (call_failed x k)"
| Take: "link_step from_str clock to_text k (pump_take expired k)"
| Stop: "link_step from_str clock to_text k (pump_close k)"
| Permit: "link_step from_str clock to_text k (pump_permit expired k)"
| Line: "link_step from_str clock to_text k (pump_line to_text k)"
| Write: "link_step from_str clock to_text k (pump_write w k)"
| Receive: "(snd x, dl) \<in> set (sent (lk_mux k)) \<Longrightarrow>
    link_step from_str clock to_text k (task_done x (Received dl) k)"
| Expire: "link_step from_str clock to_text k (task_done x Elapsed k)"
| Read: "link_step from_str clock to_text k (reader_step from_str clock e k)"
| Exit: "link_step from_str clock to_text k (supervisor_exit code drained k)"
| Kill: "link_step from_str clock to_text k (supervisor_kill k)"
| Raise: "lk_limit k = None \<Longrightarrow> (0, Inr frame) \<in> set (lk_answers k) \<Longrightarrow>
    link_step from_str clock to_text k (raise_limit max_in_flight k)"
| Close: "link_step from_str clock to_text k (begin_close k)"
| Late: "link_step from_str clock to_text k (close_timeout exited k)"
| Dropped: "link_step from_str clock to_text k (drop_handle k)"

inductive link_steps ::
  "(string \<Rightarrow> json option) \<Rightarrow> (nat \<Rightarrow> rfc3339) \<Rightarrow> (json \<Rightarrow> string + string) \<Rightarrow> link \<Rightarrow> link \<Rightarrow> bool"
  for from_str clock to_text where
  Refl: "link_steps from_str clock to_text k k"
| Step: "link_steps from_str clock to_text k k' \<Longrightarrow> link_step from_str clock to_text k' k'' \<Longrightarrow>
    link_steps from_str clock to_text k k''"

end
