(* ===== verification/Connection_Correct.thy ===== *)
theory Connection_Correct
  imports "HOL-Library.Multiset" "HOL-Library.Sublist" Mux_Correct Connection
begin

text \<open>
  Every run of a connection, whatever the adapter and the scheduler do: each call is in one place
  and is answered at most once, by the reply to its own request; calls are sent in order and no
  more at once than the adapter declared; and no call is ever stranded.
\<close>

section \<open>What the process sees of the host\<close>

text \<open>
  The environment of an adapter holds nothing of the host's own beyond the allowed variables; an
  extra variable wins over the host's.
\<close>

lemma child_env_lookup:
  "map_of (child_env var extra_env) key =
     (case map_of (rev extra_env) key of
        Some val \<Rightarrow> Some val
      | None \<Rightarrow> if key \<in> set ENV_ALLOWLIST then var key else None)"
proof -
  have extra: "map_of (foldl (\<lambda>m p. btree_insert (fst p) (snd p) m) m ps) key =
      (case map_of (rev ps) key of Some val \<Rightarrow> Some val | None \<Rightarrow> map_of m key)"
    for m and ps :: "(string \<times> string) list"
    by (induction ps arbitrary: m) (auto simp: map_add_def split: option.split)
  have allowed: "map_of (foldl (\<lambda>m key. case var key of Some val \<Rightarrow> btree_insert key val m | None \<Rightarrow> m) m keys) key =
      (if key \<in> set keys \<and> var key \<noteq> None then var key else map_of m key)" for m keys
    by (induction keys arbitrary: m) (auto split: option.split)
  show ?thesis unfolding child_env_def extra allowed by (auto split: option.split)
qed

section \<open>What a step does to the multiplexer\<close>

text \<open>The id a frame names, as \<open>on_frame\<close> reads it.\<close>

definition frame_id :: "(string \<Rightarrow> json option) \<Rightarrow> string \<Rightarrow> request_id option" where
  "frame_id from_str frame =
     map_option reply_id (Option.bind (from_str frame) (\<lambda>j. res_ok (de_reply (\<lambda>_. Inr ()) j)))"

text \<open>A delivery is the reply to its request, or tells it how the connection ended.\<close>

definition sent_ok :: "(string \<Rightarrow> json option) \<Rightarrow> mux \<Rightarrow> bool" where
  "sent_ok from_str m \<longleftrightarrow>
     (\<forall>i frame t. (i, Reply frame t) \<in> set (sent m) \<longrightarrow> frame_id from_str frame = Some i) \<and>
     (\<forall>i d. (i, d) \<in> set (sent m) \<longrightarrow>
        (\<exists>frame t. d = Reply frame t) \<or> map_option delivery_of (terminal m) = Some d)"

definition pending :: "mux \<Rightarrow> request_id \<Rightarrow> bool" where
  "pending m i \<longleftrightarrow> map_of (slots m) i = Some slot.Pending"

text \<open>Steps that issue nothing and give nothing up: slots are at most answered.\<close>

definition advances :: "(string \<Rightarrow> json option) \<Rightarrow> mux \<Rightarrow> mux \<Rightarrow> bool" where
  "advances from_str m m' \<longleftrightarrow>
     (mux_inv m \<longrightarrow> mux_inv m') \<and> next_id m' = next_id m \<and>
     (\<forall>i. map_of (slots m') i = map_of (slots m) i \<or> pending m i \<and> map_of (slots m') i = Some slot.Answered) \<and>
     prefix (sent m) (sent m') \<and> (sent_ok from_str m \<longrightarrow> sent_ok from_str m') \<and>
     (terminal m \<noteq> None \<longrightarrow> terminal m' = terminal m) \<and>
     (terminal m = None \<and> terminal m' \<noteq> None \<longrightarrow> (\<forall>i. \<not> pending m' i))"

lemma advances_refl [simp]: "advances from_str m m"
  by (auto simp: advances_def)

lemma advances_trans: "advances from_str m m' \<Longrightarrow> advances from_str m' m'' \<Longrightarrow> advances from_str m m''"
proof -
  assume a: "advances from_str m m'" and b: "advances from_str m' m''"
  have slots: "map_of (slots m'') i = map_of (slots m) i \<or> pending m i \<and> map_of (slots m'') i = Some slot.Answered" for i
    using a b unfolding advances_def pending_def by metis
  have quiet: "\<not> pending m'' i" if "terminal m = None" "terminal m'' \<noteq> None" for i
    using a b that unfolding advances_def pending_def by (metis option.inject slot.distinct(3))
  show ?thesis
    using a b slots quiet unfolding advances_def by (auto intro: prefix_order.order_trans)
qed

lemma advances_record: "advances from_str m (record_violation kind m)"
  using record_inv [of m kind] by (auto simp: advances_def record_violation_def sent_ok_def)

lemma advances_finish: "advances from_str m (snd (finish reason m))"
proof (cases "terminal m")
  case None
  have sl: "map_of (slots (snd (finish reason m))) i = map_option answer_pending (map_of (slots m) i)" for i
    by (simp add: finish_alt [OF None] map_of_mapped)
  have d: "delivery_of reason \<noteq> Reply frame t" for frame t by (cases reason) simp_all
  have "sent_ok from_str (snd (finish reason m))" if ok: "sent_ok from_str m"
  proof -
    have old: "\<exists>frame t. dl = Reply frame t \<and> frame_id from_str frame = Some i" if "(i, dl) \<in> set (sent m)" for i dl
    proof -
      have "\<exists>frame t. dl = Reply frame t" using ok that None unfolding sent_ok_def by simp
      with ok that show ?thesis unfolding sent_ok_def by blast
    qed
    have new: "(i, dl) \<in> set (sent m) \<or> dl = delivery_of reason" if "(i, dl) \<in> set (sent (snd (finish reason m)))" for i dl
      using that by (auto simp: finish_alt [OF None])
    have t: "terminal (snd (finish reason m)) = Some reason" by (simp add: finish_alt [OF None])
    show ?thesis unfolding sent_ok_def t
    proof (intro conjI allI impI)
      fix i frame t assume "(i, Reply frame t) \<in> set (sent (snd (finish reason m)))"
      then have "(i, Reply frame t) \<in> set (sent m)" using new [of i "Reply frame t"] d by metis
      then show "frame_id from_str frame = Some i" using old by blast
    next
      fix i dl assume "(i, dl) \<in> set (sent (snd (finish reason m)))"
      then show "(\<exists>frame t. dl = Reply frame t) \<or> map_option delivery_of (Some reason) = Some dl"
        using new [of i dl] old [of i dl] by auto
    qed
  qed
  moreover have "map_of (slots (snd (finish reason m))) i = map_of (slots m) i \<or>
      pending m i \<and> map_of (slots (snd (finish reason m))) i = Some slot.Answered" for i
    unfolding sl pending_def by (cases "map_of (slots m) i") (simp_all add: answer_pending_def)
  moreover have "\<not> pending (snd (finish reason m)) i" for i
    unfolding sl pending_def by (cases "map_of (slots m) i") (simp_all add: answer_pending_def)
  moreover have "next_id (snd (finish reason m)) = next_id m" "prefix (sent m) (sent (snd (finish reason m)))"
    by (simp_all add: finish_alt [OF None])
  ultimately show ?thesis using finish_inv [of m reason] None unfolding advances_def by blast
qed (simp add: finish_def)

lemma advances_frame:
  assumes "on_frame from_str h frame t m = (h', res, m')"
  shows "advances from_str m m'"
proof (cases "m' = m")
  case False
  then obtain reply where r: "Option.bind (from_str frame) (\<lambda>j. res_ok (de_reply (\<lambda>_. Inr ()) j)) = Some reply"
    "m' = snd (deliver (reply_id reply) frame t m)"
    using assms by (auto simp: on_frame_def split: option.splits if_splits prod.splits sum.splits)
  have id: "frame_id from_str frame = Some (reply_id reply)" by (simp add: frame_id_def r(1))
  have p: "\<not> next_id m \<le> reply_id reply" "pending m (reply_id reply)"
    using False r(2) by (auto simp: deliver_def pending_def split: option.splits slot.splits if_splits)
  then have "m' = m\<lparr>slots := AList.update (reply_id reply) slot.Answered (slots m),
      sent := sent m @ [(reply_id reply, Reply frame t)]\<rparr>"
    using r(2) by (simp add: deliver_def pending_def)
  then show ?thesis
    using p(2) id deliver_inv [of m "reply_id reply" frame t] unfolding r(2) [symmetric]
    by (auto simp: advances_def pending_def sent_ok_def)
qed simp

lemma advances_fatal: "advances from_str (cn_mux c) (cn_mux (fatal kind c))"
  using advances_record by (simp add: fatal_def try_send_def)

lemma advances_frames:
  "handle_frames from_str clock fs hn c = (res, c') \<Longrightarrow> advances from_str (cn_mux c) (cn_mux c')"
proof (induction from_str clock fs hn c arbitrary: res c' rule: handle_frames.induct)
  case (2 from_str clock frame frames h n c)
  obtain h' r m where o: "on_frame from_str h frame (clock n) (cn_mux c) = (h', r, m)" by (metis prod_cases3)
  note m = advances_frame [OF o]
  show ?case
  proof (cases r)
    case (Inl kind)
    then have "c' = fatal kind (c\<lparr>cn_mux := m\<rparr>)" using 2(2) o by (simp add: Let_def)
    then show ?thesis using advances_trans [OF m] advances_fatal [of from_str "c\<lparr>cn_mux := m\<rparr>" kind] by simp
  next
    case (Inr u)
    then have "handle_frames from_str clock frames (h', n + 1) (c\<lparr>cn_mux := m\<rparr>) = (res, c')"
      using 2(2) o by (simp add: Let_def)
    from 2(1) [OF o [symmetric] refl refl Inr this] show ?thesis using advances_trans [OF m] by simp
  qed
qed simp

lemma advances_read: "read_loop from_str clock [e] (r, c) = (r', c') \<Longrightarrow> advances from_str (cn_mux c) (cn_mux c')"
proof (cases r)
  case (Reading d h n)
  assume l: "read_loop from_str clock [e] (r, c) = (r', c')"
  show ?thesis
  proof (cases e)
    case (Bytes bytes)
    obtain d' fs res where p: "push (is_json_of from_str) bytes d [] = (d', fs, res)" by (metis prod_cases3)
    obtain o1 c1 where h: "handle_frames from_str clock fs (h, n) c = (o1, c1)" by fastforce
    have "cn_mux c' = cn_mux c1 \<or> (\<exists>kind. c' = fatal kind c1)"
      using l p h by (auto simp: Bytes Reading split: option.splits sum.splits)
    then show ?thesis using advances_frames [OF h] advances_trans advances_fatal by metis
  qed (use l Reading advances_fatal in \<open>auto split: if_splits\<close>)
qed simp

lemma advances_supervise:
  "advances from_str (cn_mux c) (cn_mux (supervise_exit code drained c))"
  "advances from_str (cn_mux c) (cn_mux (supervise_kill c))"
  "advances from_str m (snd (close_outcome False exited m))"
  using advances_finish
  by (auto simp: supervise_exit_def supervise_kill_def close_outcome_def Let_def split: option.split)

section \<open>Where a call is\<close>

definition holding :: "link \<Rightarrow> (nat \<times> queued_request) list" where
  "holding k = (case lk_pump k of PumpWaiting n rq \<Rightarrow> [(n, rq)] | PumpChecked n rq \<Rightarrow> [(n, rq)] | _ \<Rightarrow> [])"

definition cleared :: "link \<Rightarrow> bool" where
  "cleared k \<longleftrightarrow> (case lk_pump k of PumpChecked n rq \<Rightarrow> True | _ \<Rightarrow> False)"

definition inflight :: "link \<Rightarrow> (nat \<times> request_id) list" where
  "inflight k = (case lk_pump k of PumpWriting n i \<Rightarrow> [(n, i)] | _ \<Rightarrow> []) @ lk_tasks k"

definition waiting :: "link \<Rightarrow> (nat \<times> queued_request) list" where
  "waiting k = holding k @ lk_queue k @ lk_senders k"

definition outstanding :: "link \<Rightarrow> nat list" where
  "outstanding k = map fst (waiting k) @ map fst (inflight k)"

definition limit_of :: "link \<Rightarrow> nat" where
  "limit_of k = (case lk_limit k of Some n \<Rightarrow> n | None \<Rightarrow> 1)"

lemmas places = holding_def cleared_def inflight_def waiting_def outstanding_def limit_of_def

lemmas link_fields = set_mux_def respond_def

text \<open>Each call is outstanding or answered, once; the permits account for what is in flight.\<close>

definition calls_inv :: "link \<Rightarrow> bool" where
  "calls_inv k \<longleftrightarrow>
     mset (outstanding k @ map fst (lk_answers k)) = mset_set {..<length (lk_calls k)} \<and>
     (\<forall>x\<in>set (waiting k). lk_calls k ! fst x = snd x) \<and>
     length (lk_queue k) \<le> OUTBOUND_QUEUE_CAPACITY \<and>
     lk_permits k + length (inflight k) + of_bool (cleared k) = limit_of k \<and> 1 \<le> limit_of k"

lemma calls_invD:
  assumes "calls_inv k"
  shows "distinct (outstanding k @ map fst (lk_answers k))"
    and "set (outstanding k) \<union> fst ` set (lk_answers k) = {..<length (lk_calls k)}"
    and "x \<in> set (waiting k) \<Longrightarrow> fst x < length (lk_calls k) \<and> lk_calls k ! fst x = snd x"
    and "y \<in> set (inflight k) \<Longrightarrow> fst y < length (lk_calls k)"
proof -
  have m: "mset (outstanding k @ map fst (lk_answers k)) = mset [0..<length (lk_calls k)]"
    using assms by (simp add: calls_inv_def atLeast0LessThan)
  show "distinct (outstanding k @ map fst (lk_answers k))"
    using m mset_eq_imp_distinct_iff distinct_upt by metis
  have "set (outstanding k @ map fst (lk_answers k)) = set [0..<length (lk_calls k)]"
    using m by (rule mset_eq_setD)
  then show s: "set (outstanding k) \<union> fst ` set (lk_answers k) = {..<length (lk_calls k)}"
    by (auto simp: atLeast0LessThan)
  show "fst x < length (lk_calls k) \<and> lk_calls k ! fst x = snd x" if "x \<in> set (waiting k)"
  proof -
    have "fst x \<in> set (outstanding k)" using that by (simp add: outstanding_def)
    then have "fst x \<in> {..<length (lk_calls k)}" using s by blast
    then show ?thesis using that assms by (simp add: calls_inv_def)
  qed
  show "fst y < length (lk_calls k)" if "y \<in> set (inflight k)"
  proof -
    have "fst y \<in> set (outstanding k)" using that by (simp add: outstanding_def)
    then have "fst y \<in> {..<length (lk_calls k)}" using s by blast
    then show ?thesis by simp
  qed
qed

lemma mset_remove_fst:
  "x \<in> set xs \<Longrightarrow> image_mset fst (mset xs) = add_mset (fst x) (image_mset fst (mset xs - {#x#}))"
  by (metis image_mset_add_mset insert_DiffM in_multiset_in_set)

lemma calls_inv_cong:
  assumes "lk_calls k' = lk_calls k" "lk_senders k' = lk_senders k" "lk_queue k' = lk_queue k"
    "lk_pump k' = lk_pump k" "lk_permits k' = lk_permits k" "lk_tasks k' = lk_tasks k"
    "lk_answers k' = lk_answers k" "lk_limit k' = lk_limit k"
  shows "calls_inv k' = calls_inv k"
  using assms by (simp add: calls_inv_def places)

lemma calls_start: "calls_inv k \<Longrightarrow> calls_inv (call_start rq k)"
proof -
  assume k: "calls_inv k"
  have "\<forall>x\<in>set (waiting k). (lk_calls k @ [rq]) ! fst x = snd x"
    using calls_invD(3) [OF k] by (simp add: nth_append)
  with k show ?thesis
    by (auto simp: call_start_def Let_def calls_inv_def places add_mset_commute lessThan_Suc link_fields split: option.split pump_state.splits)
qed

lemma calls_enqueue: "calls_inv k \<Longrightarrow> calls_inv (call_enqueue k)"
  by (auto simp: call_enqueue_def calls_inv_def places add_mset_commute split: list.splits pump_state.splits)

lemma calls_failed: "calls_inv k \<Longrightarrow> calls_inv (call_failed x k)"
proof (cases "lk_pump k = PumpEnded \<and> x \<in> set (lk_senders k @ lk_queue k)")
  case True
  assume k: "calls_inv k"
  have d: "distinct (map fst (lk_queue k) @ map fst (lk_senders k))"
    using calls_invD(1) [OF k] by (auto simp: outstanding_def waiting_def)
  have "image_mset fst (mset (lk_queue k)) + image_mset fst (mset (lk_senders k)) =
      add_mset (fst x) (image_mset fst (mset (remove1 x (lk_queue k))) + image_mset fst (mset (remove1 x (lk_senders k))))"
  proof (cases "x \<in> set (lk_queue k)")
    case in_queue: True
    then have "x \<notin> set (lk_senders k)" using d by (auto simp: image_iff)
    then have "remove1 x (lk_senders k) = lk_senders k" by (rule remove1_idem)
    then show ?thesis by (simp add: mset_remove_fst [OF in_queue])
  next
    case False
    then have "x \<in> set (lk_senders k)" using True by simp
    from False have "remove1 x (lk_queue k) = lk_queue k" by (rule remove1_idem)
    then show ?thesis by (simp add: mset_remove_fst [OF \<open>x \<in> set (lk_senders k)\<close>])
  qed
  then have "image_mset fst (mset (lk_queue k)) + (image_mset fst (mset (lk_senders k)) + rest) =
      add_mset (fst x) (image_mset fst (mset (lk_queue k) - {#x#}) + (image_mset fst (mset (lk_senders k) - {#x#}) + rest))"
    for rest by (simp add: add.assoc [symmetric])
  then have "mset (outstanding (call_failed x k) @ map fst (lk_answers (call_failed x k))) =
      mset (outstanding k @ map fst (lk_answers k))"
    using True by (simp add: call_failed_def places link_fields add_mset_commute)
  moreover have "set (waiting (call_failed x k)) \<subseteq> set (waiting k)"
    using set_remove1_subset [of x "lk_queue k"] set_remove1_subset [of x "lk_senders k"] True
    by (auto simp: call_failed_def places link_fields)
  moreover have "length (remove1 x (lk_queue k)) \<le> length (lk_queue k)" by (simp add: length_remove1)
  ultimately show ?thesis using True k
    by (auto simp: calls_inv_def call_failed_def link_fields inflight_def cleared_def limit_of_def)
qed (auto simp: call_failed_def)

lemma calls_take: "calls_inv k \<Longrightarrow> calls_inv (pump_take expired k)"
  by (auto simp: pump_take_def Let_def calls_inv_def places add_mset_commute link_fields
      split: list.splits pump_state.splits option.splits)

lemma calls_close: "calls_inv k \<Longrightarrow> calls_inv (pump_close k)"
  by (auto simp: pump_close_def calls_inv_def places add_mset_commute)

lemma calls_permit: "calls_inv k \<Longrightarrow> calls_inv (pump_permit expired k)"
  by (auto simp: pump_permit_def calls_inv_def places add_mset_commute link_fields split: pump_state.splits option.splits)

lemma calls_line: "calls_inv k \<Longrightarrow> calls_inv (pump_line to_text k)"
  by (auto simp: pump_line_def calls_inv_def places add_mset_commute link_fields split: pump_state.splits prod.splits sum.splits)

lemma calls_write: "calls_inv k \<Longrightarrow> calls_inv (pump_write w k)"
  by (auto simp: pump_write_def calls_inv_def places add_mset_commute link_fields split: pump_state.splits prod.splits option.splits)

lemma calls_done: "calls_inv k \<Longrightarrow> calls_inv (task_done x w k)"
proof (cases "x \<in> set (lk_tasks k)")
  case True
  assume k: "calls_inv k"
  have "length (lk_tasks k) = Suc (length (remove1 x (lk_tasks k)))"
    using True by (simp add: length_remove1) (metis Suc_pred length_pos_if_in_set)
  with k True show ?thesis
    by (auto simp: task_done_def calls_inv_def places add_mset_commute link_fields mset_remove_fst [OF True]
        split: prod.splits pump_state.splits)
qed (simp add: task_done_def)

lemma calls_raise: "calls_inv k \<Longrightarrow> lk_limit k = None \<Longrightarrow> calls_inv (raise_limit n k)"
  by (auto simp: raise_limit_def Let_def calls_inv_def places add_mset_commute extra_permits_def split: pump_state.splits)

section \<open>What went to the adapter\<close>

text \<open>Requests are sent in the order of the calls, under increasing ids, each in its own frame.\<close>

definition lines_inv :: "(json \<Rightarrow> string + string) \<Rightarrow> link \<Rightarrow> bool" where
  "lines_inv to_text k \<longleftrightarrow>
     sorted_wrt (<) (map fst (lk_lines k) @ map fst (waiting k)) \<and>
     sorted_wrt (<) (map (fst \<circ> snd) (lk_lines k)) \<and>
     (\<forall>(n, i, line)\<in>set (lk_lines k). n < length (lk_calls k) \<and> i < next_id (lk_mux k) \<and>
        build_frame to_text i (qr_op (lk_calls k ! n)) (qr_params (lk_calls k ! n)) = Inr line) \<and>
     (\<forall>x\<in>set (inflight k). \<exists>line. (fst x, snd x, line) \<in> set (lk_lines k))"

lemma lines_invD:
  assumes "lines_inv to_text k"
  shows "sorted_wrt (<) (map fst (lk_lines k) @ map fst (waiting k))"
    and "sorted_wrt (<) (map (fst \<circ> snd) (lk_lines k))"
    and "(n, i, line) \<in> set (lk_lines k) \<Longrightarrow> n < length (lk_calls k) \<and> i < next_id (lk_mux k) \<and>
        build_frame to_text i (qr_op (lk_calls k ! n)) (qr_params (lk_calls k ! n)) = Inr line"
    and "x \<in> set (inflight k) \<Longrightarrow> \<exists>line. (fst x, snd x, line) \<in> set (lk_lines k)"
  using assms unfolding lines_inv_def by blast+

lemma same_id:
  assumes "lines_inv to_text k" "(n, i, line) \<in> set (lk_lines k)" "(n', i, line') \<in> set (lk_lines k)"
  shows "n' = n \<and> line' = line"
proof -
  have "distinct (map (fst \<circ> snd) (lk_lines k))" using lines_invD(2) [OF assms(1)] strict_sorted_iff by auto
  then have "inj_on (fst \<circ> snd) (set (lk_lines k))" by (simp add: distinct_map)
  from inj_onD [OF this _ assms(2,3)] show ?thesis by simp
qed

lemma sorted_wrt_subseq: "subseq xs ys \<Longrightarrow> sorted_wrt P ys \<Longrightarrow> sorted_wrt P xs"
proof (induction rule: list_emb.induct)
  case (list_emb_Cons2 x y xs ys)
  then have "set xs \<subseteq> set ys" by (metis subseq_conv_nths set_nths_subset)
  then show ?case using list_emb_Cons2 by auto
qed auto

lemma subseq_remove1: "subseq (remove1 x xs) xs"
  by (induction xs) auto

text \<open>A step that only drops or moves waiting calls, and sends nothing.\<close>

lemma lines_inv_drop:
  assumes "lines_inv to_text k" "subseq (map fst (waiting k')) (map fst (waiting k))" "lk_lines k' = lk_lines k"
    "lk_calls k' = lk_calls k" "next_id (lk_mux k) \<le> next_id (lk_mux k')" "set (inflight k') \<subseteq> set (inflight k)"
  shows "lines_inv to_text k'"
proof -
  have "sorted_wrt (<) (map fst (lk_lines k) @ map fst (waiting k'))"
    using lines_invD(1) [OF assms(1)] assms(2) by (blast intro: sorted_wrt_subseq list_emb_append_mono)
  then show ?thesis using assms unfolding lines_inv_def by (auto intro: less_le_trans)
qed

lemma lines_start:
  assumes "calls_inv k" "lines_inv to_text k"
  shows "lines_inv to_text (call_start rq k)"
proof -
  let ?n = "length (lk_calls k)"
  have less: "\<forall>n\<in>set (map fst (lk_lines k) @ map fst (waiting k)). n < ?n"
    using lines_invD(3) [OF assms(2)] calls_invD(3) [OF assms(1)] by fastforce
  have calls: "build_frame to_text i (qr_op ((lk_calls k @ [rq]) ! n)) (qr_params ((lk_calls k @ [rq]) ! n)) = Inr line"
    if "(n, i, line) \<in> set (lk_lines k)" for n i line
    using lines_invD(3) [OF assms(2) that] by (simp add: nth_append)
  have w: "waiting (call_start rq k) = (if terminal (lk_mux k) = None then waiting k @ [(?n, rq)] else waiting k)"
    "inflight (call_start rq k) = inflight k" "lk_lines (call_start rq k) = lk_lines k"
    "lk_calls (call_start rq k) = lk_calls k @ [rq]" "lk_mux (call_start rq k) = lk_mux k"
    by (auto simp: call_start_def Let_def places link_fields split: option.split)
  have "sorted_wrt (<) (map fst (lk_lines k) @ map fst (waiting (call_start rq k)))"
    using lines_invD(1) [OF assms(2)] less by (auto simp: w sorted_wrt_append)
  then show ?thesis
    using calls lines_invD(2,3,4) [OF assms(2)] unfolding lines_inv_def w(2-5) by (fastforce simp: less_Suc_eq)
qed

lemma waiting_enqueue: "waiting (call_enqueue k) = waiting k"
  by (simp add: call_enqueue_def places split: list.split)

lemma lines_enqueue: "lines_inv to_text k \<Longrightarrow> lines_inv to_text (call_enqueue k)"
  by (erule lines_inv_drop) (auto simp: waiting_enqueue, auto simp: call_enqueue_def places split: list.splits if_splits)

lemma lines_failed: "lines_inv to_text k \<Longrightarrow> lines_inv to_text (call_failed x k)"
proof (erule lines_inv_drop)
  have "subseq (waiting (call_failed x k)) (waiting k)"
    by (auto simp: call_failed_def places link_fields split: pump_state.split
        intro!: list_emb_append_mono subseq_remove1)
  then show "subseq (map fst (waiting (call_failed x k))) (map fst (waiting k))" by (rule subseq_map)
qed (auto simp: call_failed_def places link_fields)

lemma lines_take: "lines_inv to_text k \<Longrightarrow> lines_inv to_text (pump_take expired k)"
  by (erule lines_inv_drop)
    (auto simp: pump_take_def Let_def places link_fields split: list.splits pump_state.splits option.splits)

lemma lines_close: "lines_inv to_text k \<Longrightarrow> lines_inv to_text (pump_close k)"
  by (erule lines_inv_drop) (auto simp: pump_close_def places)

lemma lines_permit: "lines_inv to_text k \<Longrightarrow> lines_inv to_text (pump_permit expired k)"
  by (erule lines_inv_drop)
    (auto simp: pump_permit_def places link_fields split: pump_state.splits option.splits)

lemma lines_raise: "lines_inv to_text k \<Longrightarrow> lines_inv to_text (raise_limit n k)"
  by (erule lines_inv_drop) (auto simp: raise_limit_def Let_def places)

lemma issue_cases:
  obtains "issue m = (None, m)" | i m' where "issue m = (Some i, m')" "i = next_id m" "i < next_id m'"
    "slots m' = AList.update i slot.Pending (slots m)" "terminal m' = terminal m" "sent m' = sent m"
proof (cases "next_id m = - 1")
  case True
  then show ?thesis by (intro that(1)) (simp add: issue_def)
next
  case False
  then have "next_id m < next_id m + 1" using word_succ_less [of "next_id m" "next_id m"] by simp
  with False show ?thesis by (intro that(2) [of "next_id m" "snd (issue m)"]) (simp_all add: issue_def Let_def)
qed

lemma lines_line:
  assumes "calls_inv k" "lines_inv to_text k"
  shows "lines_inv to_text (pump_line to_text k)"
proof (cases "lk_pump k")
  case (PumpChecked n rq)
  obtain res m where p: "pump_issue to_text rq (lk_mux k) = (res, m)" by fastforce
  have id: "next_id (lk_mux k) \<le> next_id m"
    using p by (cases rule: issue_cases [of "lk_mux k"]) (auto simp: pump_issue_def split: sum.splits)
  have w: "waiting k = (n, rq) # waiting (pump_line to_text k)"
    using p by (simp add: pump_line_def PumpChecked places link_fields split: prod.split sum.split)
  show ?thesis
  proof (cases res)
    case (Inl e)
    then show ?thesis using p id assms(2)
      by (elim lines_inv_drop) (auto simp: pump_line_def PumpChecked places link_fields)
  next
    case (Inr x)
    obtain i line where x: "x = (i, line)" by fastforce
    have i: "i = next_id (lk_mux k)" "i < next_id m" "build_frame to_text i (qr_op rq) (qr_params rq) = Inr line"
      using p Inr x by (cases rule: issue_cases [of "lk_mux k"]; auto simp: pump_issue_def split: sum.splits)+
    let ?k = "pump_line to_text k"
    have k': "lk_lines ?k = lk_lines k @ [(n, i, line)]" "lk_calls ?k = lk_calls k" "lk_mux ?k = m"
      "inflight ?k = (n, i) # inflight k"
      using p Inr x by (simp_all add: pump_line_def PumpChecked places link_fields)
    have n: "n < length (lk_calls k)" "lk_calls k ! n = rq" using calls_invD(3) [OF assms(1), of "(n, rq)"] by (simp_all add: w)
    have "sorted_wrt (<) (map fst (lk_lines ?k) @ map fst (waiting ?k))"
      using lines_invD(1) [OF assms(2)] by (simp add: k' w)
    moreover have "sorted_wrt (<) (map (fst \<circ> snd) (lk_lines ?k))"
      using lines_invD(2,3) [OF assms(2)] i(1) by (fastforce simp: k' sorted_wrt_append)
    moreover have "n' < length (lk_calls k) \<and> i' < next_id m \<and>
        build_frame to_text i' (qr_op (lk_calls k ! n')) (qr_params (lk_calls k ! n')) = Inr line'"
      if "(n', i', line') \<in> set (lk_lines ?k)" for n' i' line'
      using that lines_invD(3) [OF assms(2), of n' i' line'] i n id by (auto simp: k')
    moreover have "\<exists>line. (fst x, snd x, line) \<in> set (lk_lines ?k)" if "x \<in> set (inflight ?k)" for x
      using that lines_invD(4) [OF assms(2), of x] by (auto simp: k')
    ultimately show ?thesis unfolding lines_inv_def k'(2,3) by blast
  qed
qed (use assms in \<open>simp_all add: pump_line_def\<close>)

lemma next_id_simps [simp]:
  "next_id (tombstone i m) = next_id m" "next_id (snd (finish reason m)) = next_id m"
  by (simp_all add: tombstone_def finish_def Let_def split: terminal.split)

lemma lines_write: "lines_inv to_text k \<Longrightarrow> lines_inv to_text (pump_write w k)"
  by (erule lines_inv_drop)
    (auto simp: pump_write_def pump_written_def try_send_def Let_def places link_fields
      split: pump_state.splits write_outcome.splits)

lemma await_cases:
  assumes "await_reply i w m = (res, m')"
  obtains frame t where "w = Received (Reply frame t)" "res = Inr (frame, t)" "m' = m"
  | e where "res = Inl e" "m' = m" "w \<noteq> Elapsed"
  | "res = Inl Timeout" "m' = tombstone i m" "w = Elapsed"
proof (cases w)
  case (Received dl)
  with assms that show thesis by (cases dl) (auto simp: await_reply_def)
qed (use assms that in \<open>auto simp: await_reply_def\<close>)

lemma task_frame:
  "waiting (task_done x w k) = waiting k" "lk_lines (task_done x w k) = lk_lines k"
  "lk_calls (task_done x w k) = lk_calls k" "next_id (lk_mux (task_done x w k)) = next_id (lk_mux k)"
  "set (inflight (task_done x w k)) \<subseteq> set (inflight k)"
proof -
  obtain res m where a: "await_reply (snd x) w (lk_mux k) = (res, m)" by fastforce
  have m: "next_id m = next_id (lk_mux k)"
    using a by (cases rule: await_cases) simp_all
  show "waiting (task_done x w k) = waiting k" "lk_lines (task_done x w k) = lk_lines k"
    "lk_calls (task_done x w k) = lk_calls k" "next_id (lk_mux (task_done x w k)) = next_id (lk_mux k)"
    by (simp_all add: task_done_def a m places link_fields)
  have "lk_pump (task_done x w k) = lk_pump k" "set (lk_tasks (task_done x w k)) \<subseteq> set (lk_tasks k)"
    using set_remove1_subset [of x "lk_tasks k"] by (simp_all add: task_done_def a link_fields)
  then show "set (inflight (task_done x w k)) \<subseteq> set (inflight k)"
    unfolding inflight_def set_append by (simp only:) (rule Un_mono [OF subset_refl])
qed

lemma lines_done: "lines_inv to_text k \<Longrightarrow> lines_inv to_text (task_done x w k)"
  by (erule lines_inv_drop) (simp_all add: task_frame)

section \<open>What comes back\<close>

text \<open>
  A request in flight keeps its channel, an answer with a reply is the reply to the caller's own
  request, and a connection that is over has at most one request that nobody has answered: the one
  whose checks the pump had done when the end came.
\<close>

definition reply_inv :: "(string \<Rightarrow> json option) \<Rightarrow> link \<Rightarrow> bool" where
  "reply_inv from_str k \<longleftrightarrow>
     mux_inv (lk_mux k) \<and> sent_ok from_str (lk_mux k) \<and>
     (\<forall>x\<in>set (inflight k). map_of (slots (lk_mux k)) (snd x) \<in> {Some slot.Pending, Some slot.Answered}) \<and>
     (\<forall>n frame t. (n, Inr (frame, t)) \<in> set (lk_answers k) \<longrightarrow>
        (\<exists>i line. (n, i, line) \<in> set (lk_lines k) \<and> (i, Reply frame t) \<in> set (sent (lk_mux k)))) \<and>
     (terminal (lk_mux k) \<noteq> None \<longrightarrow>
        (\<forall>i j. pending (lk_mux k) i \<and> pending (lk_mux k) j \<longrightarrow> i = j) \<and>
        (cleared k \<longrightarrow> (\<forall>i. \<not> pending (lk_mux k) i)))"

lemma reply_invD:
  assumes "reply_inv from_str k"
  shows "mux_inv (lk_mux k)" "sent_ok from_str (lk_mux k)"
    and "x \<in> set (inflight k) \<Longrightarrow> map_of (slots (lk_mux k)) (snd x) \<in> {Some slot.Pending, Some slot.Answered}"
    and "(n, Inr (frame, t)) \<in> set (lk_answers k) \<Longrightarrow>
        \<exists>i line. (n, i, line) \<in> set (lk_lines k) \<and> (i, Reply frame t) \<in> set (sent (lk_mux k))"
    and "terminal (lk_mux k) \<noteq> None \<Longrightarrow> pending (lk_mux k) i \<Longrightarrow> pending (lk_mux k) j \<Longrightarrow> i = j"
    and "terminal (lk_mux k) \<noteq> None \<Longrightarrow> cleared k \<Longrightarrow> \<not> pending (lk_mux k) i"
  using assms unfolding reply_inv_def by blast+

text \<open>A step of the reader, the supervisor or the handle.\<close>

lemma reply_inv_advance:
  assumes "reply_inv from_str k" "advances from_str (lk_mux k) (lk_mux k')" "inflight k' = inflight k"
    "lk_answers k' = lk_answers k" "lk_lines k' = lk_lines k" "cleared k' = cleared k"
  shows "reply_inv from_str k'"
proof -
  note a = assms(2) [unfolded advances_def]
  have p: "pending (lk_mux k) i" if "pending (lk_mux k') i" for i
    using that a unfolding pending_def by (metis option.inject slot.distinct(3))
  have t: "terminal (lk_mux k) \<noteq> None \<or> (\<forall>i. \<not> pending (lk_mux k') i)" if "terminal (lk_mux k') \<noteq> None"
    using that a by (cases "terminal (lk_mux k) = None") simp_all
  have s: "map_of (slots (lk_mux k')) (snd x) \<in> {Some slot.Pending, Some slot.Answered}" if "x \<in> set (inflight k)" for x
  proof -
    have "map_of (slots (lk_mux k')) (snd x) = map_of (slots (lk_mux k)) (snd x) \<or>
        map_of (slots (lk_mux k')) (snd x) = Some slot.Answered" using a by blast
    then show ?thesis using reply_invD(3) [OF assms(1) that] by auto
  qed
  have r: "\<exists>i line. (n, i, line) \<in> set (lk_lines k) \<and> (i, Reply frame t) \<in> set (sent (lk_mux k'))"
    if "(n, Inr (frame, t)) \<in> set (lk_answers k)" for n frame t
    using reply_invD(4) [OF assms(1) that] a by (meson set_mono_prefix subsetD)
  have e: "i = j" if "terminal (lk_mux k') \<noteq> None" "pending (lk_mux k') i" "pending (lk_mux k') j" for i j
    using t [OF that(1)] reply_invD(5) [OF assms(1)] p that(2,3) by blast
  have c: "\<not> pending (lk_mux k') i" if "terminal (lk_mux k') \<noteq> None" "cleared k" for i
    using t [OF that(1)] reply_invD(6) [OF assms(1) _ that(2)] p by blast
  have "mux_inv (lk_mux k')" "sent_ok from_str (lk_mux k')" using a reply_invD(1,2) [OF assms(1)] by blast+
  then show ?thesis using s r e c unfolding reply_inv_def assms(3-6) by blast
qed

text \<open>A step that leaves the multiplexer alone, or answers without a reply.\<close>

lemma reply_inv_same:
  assumes "reply_inv from_str k" "lk_mux k' = lk_mux k" "set (inflight k') \<subseteq> set (inflight k)"
    "lk_lines k' = lk_lines k" "cleared k' \<longrightarrow> cleared k \<or> terminal (lk_mux k) = None"
    "\<And>n f t. (n, Inr (f, t)) \<in> set (lk_answers k') \<Longrightarrow> (n, Inr (f, t)) \<in> set (lk_answers k) \<or>
       (\<exists>i line. (n, i, line) \<in> set (lk_lines k) \<and> (i, Reply f t) \<in> set (sent (lk_mux k)))"
  shows "reply_inv from_str k'"
proof -
  have "map_of (slots (lk_mux k)) (snd x) \<in> {Some slot.Pending, Some slot.Answered}" if "x \<in> set (inflight k')" for x
    using reply_invD(3) [OF assms(1)] assms(3) that by blast
  moreover have "\<not> pending (lk_mux k) i" if "terminal (lk_mux k) \<noteq> None" "cleared k'" for i
    using reply_invD(6) [OF assms(1) that(1)] assms(5) that by blast
  ultimately show ?thesis
    using reply_invD(1,2,4,5) [OF assms(1)] assms(6) unfolding reply_inv_def assms(2,4) by blast
qed

lemma reply_start: "reply_inv from_str k \<Longrightarrow> reply_inv from_str (call_start rq k)"
  by (erule reply_inv_same) (auto simp: call_start_def Let_def places link_fields split: option.splits)

lemma reply_enqueue: "reply_inv from_str k \<Longrightarrow> reply_inv from_str (call_enqueue k)"
  by (erule reply_inv_same) (auto simp: call_enqueue_def places split: list.splits if_splits)

lemma reply_failed: "reply_inv from_str k \<Longrightarrow> reply_inv from_str (call_failed x k)"
  by (erule reply_inv_same) (auto simp: call_failed_def places link_fields split: if_splits)

lemma reply_take: "reply_inv from_str k \<Longrightarrow> reply_inv from_str (pump_take expired k)"
  by (erule reply_inv_same)
    (auto simp: pump_take_def Let_def places link_fields split: list.splits pump_state.splits option.splits)

lemma reply_close: "reply_inv from_str k \<Longrightarrow> reply_inv from_str (pump_close k)"
  by (erule reply_inv_same) (auto simp: pump_close_def places split: if_splits)

lemma admit_none: "pump_admit expired m = None \<Longrightarrow> terminal m = None"
  by (simp add: pump_admit_def split: option.splits)

lemma reply_permit: "reply_inv from_str k \<Longrightarrow> reply_inv from_str (pump_permit expired k)"
  by (erule reply_inv_same)
    (auto simp: pump_permit_def places link_fields dest: admit_none split: pump_state.splits option.splits if_splits)

lemma reply_raise: "reply_inv from_str k \<Longrightarrow> reply_inv from_str (raise_limit n k)"
  by (erule reply_inv_same) (auto simp: raise_limit_def Let_def places)

lemma reply_line:
  assumes "lines_inv to_text k" "reply_inv from_str k"
  shows "reply_inv from_str (pump_line to_text k)"
proof (cases "lk_pump k")
  case (PumpChecked n rq)
  let ?k = "pump_line to_text k" and ?m = "lk_mux k"
  obtain res m where p: "pump_issue to_text rq ?m = (res, m)" by fastforce
  have k': "lk_mux ?k = m" "set (inflight ?k) \<subseteq> set (inflight k) \<union> {(n, next_id ?m)}" "set (lk_lines k) \<subseteq> set (lk_lines ?k)"
    "\<not> cleared ?k" "\<And>n r. (n, Inr r) \<in> set (lk_answers ?k) \<Longrightarrow> (n, Inr r) \<in> set (lk_answers k)"
    using p by (cases rule: issue_cases [of ?m];
      auto simp: pump_line_def PumpChecked places link_fields pump_issue_def split: sum.splits)+
  show ?thesis
  proof (cases rule: issue_cases [of ?m])
    case 1
    then have r: "m = ?m" "res = Inl IdsExhausted" using p by (auto simp: pump_issue_def)
    then have "lk_lines ?k = lk_lines k" "set (inflight ?k) \<subseteq> set (inflight k)"
      using p by (simp_all add: pump_line_def PumpChecked places link_fields)
    then show ?thesis using k' assms(2) by (elim reply_inv_same) (simp_all add: r)
  next
    case (2 i m')
    then have m: "m = m'" using p by (auto simp: pump_issue_def split: sum.splits)
    have slots: "map_of (slots m) j = (if j = i then Some slot.Pending else map_of (slots ?m) j)" for j
      using 2(4) by (simp add: m)
    have frame: "terminal m = terminal ?m" "sent m = sent ?m" using 2 by (simp_all add: m)
    have "mux_inv m" using issue_inv [OF reply_invD(1) [OF assms(2)]] 2(1) by (simp add: m)
    moreover have "sent_ok from_str m" using reply_invD(2) [OF assms(2)] by (simp add: sent_ok_def frame)
    moreover have "map_of (slots m) (snd x) \<in> {Some slot.Pending, Some slot.Answered}" if "x \<in> set (inflight ?k)" for x
      using that k'(2) reply_invD(3) [OF assms(2), of x] 2(2) by (auto simp: slots)
    moreover have "\<exists>i line. (n, i, line) \<in> set (lk_lines ?k) \<and> (i, Reply f t) \<in> set (sent m)"
      if "(n, Inr (f, t)) \<in> set (lk_answers ?k)" for n f t
      using reply_invD(4) [OF assms(2) k'(5) [OF that]] k'(3) unfolding frame by blast
    moreover have "j = i" if "terminal m \<noteq> None" "pending m j" for j
      using that reply_invD(6) [OF assms(2), of j] PumpChecked unfolding frame
      by (auto simp: pending_def slots cleared_def split: if_splits)
    ultimately show ?thesis unfolding reply_inv_def k'(1) using k'(4) by blast
  qed
qed (use assms in \<open>simp_all add: pump_line_def\<close>)

lemma tombstone_slots:
  "map_of (slots (tombstone i m)) j = (if j = i \<and> pending m i then Some slot.Tombstoned else map_of (slots m) j)"
  by (simp add: tombstone_def pending_def)

lemma tombstone_frame [simp]: "terminal (tombstone i m) = terminal m" "sent (tombstone i m) = sent m"
  by (simp_all add: tombstone_def)

text \<open>Giving up on a request nobody waits for any more.\<close>

lemma reply_inv_tombstone:
  assumes "reply_inv from_str k" "lk_mux k' = tombstone i (lk_mux k)"
    "\<And>x. x \<in> set (inflight k') \<Longrightarrow> x \<in> set (inflight k) \<and> snd x \<noteq> i"
    "lk_lines k' = lk_lines k" "cleared k' = cleared k"
    "\<And>n r. (n, Inr r) \<in> set (lk_answers k') \<Longrightarrow> (n, Inr r) \<in> set (lk_answers k)"
  shows "reply_inv from_str k'"
proof -
  have p: "pending (lk_mux k) j" if "pending (lk_mux k') j" for j
    using that by (auto simp: pending_def assms(2) tombstone_slots split: if_splits)
  have "sent_ok from_str (lk_mux k')" using reply_invD(2) [OF assms(1)] by (simp add: sent_ok_def assms(2))
  moreover have "map_of (slots (lk_mux k')) (snd x) \<in> {Some slot.Pending, Some slot.Answered}"
    if "x \<in> set (inflight k')" for x
    using reply_invD(3) [OF assms(1), of x] assms(3) [OF that] by (simp add: assms(2) tombstone_slots)
  moreover have "terminal (lk_mux k') = terminal (lk_mux k)" "sent (lk_mux k') = sent (lk_mux k)"
    by (simp_all add: assms(2))
  ultimately show ?thesis
    using reply_invD(1,4,5,6) [OF assms(1)] tombstone_inv [of "lk_mux k" i] p assms(6) unfolding reply_inv_def assms(4,5)
    by (metis assms(2))
qed

lemma inflight_ids:
  assumes "calls_inv k" "lines_inv to_text k"
  shows "distinct (map snd (inflight k))" "distinct (map fst (inflight k))"
proof -
  show d: "distinct (map fst (inflight k))" using calls_invD(1) [OF assms(1)] by (simp add: outstanding_def)
  have "inj_on snd (set (inflight k))"
  proof (rule inj_onI)
    fix x y assume "x \<in> set (inflight k)" "y \<in> set (inflight k)" "snd x = snd y"
    then show "x = y"
      using lines_invD(4) [OF assms(2), of x] lines_invD(4) [OF assms(2), of y] same_id [OF assms(2)]
      by (metis prod.expand)
  qed
  then show "distinct (map snd (inflight k))" using d by (simp add: distinct_map)
qed

lemma reply_write:
  assumes "calls_inv k" "lines_inv to_text k" "reply_inv from_str k"
  shows "reply_inv from_str (pump_write w k)"
proof (cases "lk_pump k")
  case (PumpWriting n i)
  have ids: "distinct (i # map snd (lk_tasks k))"
    using inflight_ids(1) [OF assms(1,2)] by (simp add: inflight_def PumpWriting)
  show ?thesis
  proof (cases "w = WriteTimedOut")
    case True
    let ?k = "respond n (Inl Timeout)
        (set_mux (tombstone i (lk_mux k)) (k\<lparr>lk_pump := PumpEnded, lk_permits := lk_permits k + 1\<rparr>))"
    have "reply_inv from_str ?k"
      by (rule reply_inv_tombstone [OF assms(3), of _ i])
        (use ids in \<open>auto simp: places link_fields PumpWriting image_iff\<close>)
    then show ?thesis
      by (rule reply_inv_advance)
        (auto simp: pump_write_def PumpWriting True pump_written_def Let_def try_send_def places link_fields
          advances_finish)
  next
    case False
    then have "pump_write w k = k\<lparr>lk_pump := PumpIdle, lk_tasks := lk_tasks k @ [(n, i)]\<rparr>"
      by (cases w) (simp_all add: pump_write_def PumpWriting pump_written_def)
    then show ?thesis using assms(3) by (elim reply_inv_same) (auto simp: places PumpWriting)
  qed
qed (use assms in \<open>simp_all add: pump_write_def\<close>)

lemma reply_done:
  assumes "calls_inv k" "lines_inv to_text k" "reply_inv from_str k"
    and w: "w = Elapsed \<or> (\<exists>dl. w = Received dl \<and> (snd x, dl) \<in> set (sent (lk_mux k)))"
  shows "reply_inv from_str (task_done x w k)"
proof (cases "x \<in> set (lk_tasks k)")
  case True
  obtain res m where a: "await_reply (snd x) w (lk_mux k) = (res, m)" by fastforce
  have k': "lk_mux (task_done x w k) = m" "lk_lines (task_done x w k) = lk_lines k"
    "cleared (task_done x w k) = cleared k" "lk_answers (task_done x w k) = lk_answers k @ [(fst x, res)]"
    using True by (simp_all add: task_done_def a places link_fields)
  have inf: "set (inflight (task_done x w k)) \<subseteq> set (inflight k) - {x}"
  proof -
    have "distinct (inflight k)" using inflight_ids(2) [OF assms(1,2)] by (simp add: distinct_map)
    then show ?thesis using True by (auto simp: task_done_def a inflight_def link_fields split: pump_state.splits)
  qed
  have own: "\<exists>line. (fst x, snd x, line) \<in> set (lk_lines k)"
    using lines_invD(4) [OF assms(2), of x] True by (simp add: inflight_def)
  from a show ?thesis
  proof (cases rule: await_cases)
    case (1 frame t)
    then have "(snd x, Reply frame t) \<in> set (sent (lk_mux k))" using w by auto
    then show ?thesis using assms(3) own inf 1(2,3) by (elim reply_inv_same) (auto simp: k')
  next
    case (2 e)
    then show ?thesis using assms(3) inf by (elim reply_inv_same) (auto simp: k' simp del: split_paired_All)
  next
    case 3
    have "y \<in> set (inflight k) \<and> snd y \<noteq> snd x" if "y \<in> set (inflight (task_done x w k))" for y
    proof -
      have y: "y \<in> set (inflight k)" "y \<noteq> x" using that inf by blast+
      moreover have "x \<in> set (inflight k)" using True by (simp add: inflight_def)
      moreover have "inj_on snd (set (inflight k))" using inflight_ids(1) [OF assms(1,2)] by (simp add: distinct_map)
      ultimately show ?thesis by (metis inj_onD)
    qed
    then show ?thesis using 3(1,2) by (intro reply_inv_tombstone [OF assms(3), of _ "snd x"]) (auto simp: k')
  qed
qed (use assms in \<open>simp add: task_done_def\<close>)

section \<open>Every run\<close>

definition link_inv :: "(string \<Rightarrow> json option) \<Rightarrow> (json \<Rightarrow> string + string) \<Rightarrow> link \<Rightarrow> bool" where
  "link_inv from_str to_text k \<longleftrightarrow> calls_inv k \<and> lines_inv to_text k \<and> reply_inv from_str k"

lemma link_inv_new: "link_inv from_str to_text link_new"
proof -
  have "calls_inv link_new" by (simp add: calls_inv_def places link_new_def)
  moreover have "lines_inv to_text link_new" by (simp add: lines_inv_def places link_new_def)
  moreover have "reply_inv from_str link_new"
    using mux_inv_new by (simp add: reply_inv_def sent_ok_def places link_new_def mux_new_def)
  ultimately show ?thesis by (simp add: link_inv_def)
qed

lemma link_inv_advance:
  assumes "link_inv from_str to_text k" "advances from_str (lk_mux k) (lk_mux k')"
    "lk_calls k' = lk_calls k" "lk_senders k' = lk_senders k" "lk_queue k' = lk_queue k"
    "lk_pump k' = lk_pump k" "lk_permits k' = lk_permits k" "lk_tasks k' = lk_tasks k"
    "lk_answers k' = lk_answers k" "lk_limit k' = lk_limit k" "lk_lines k' = lk_lines k"
  shows "link_inv from_str to_text k'"
proof -
  have k: "calls_inv k" "lines_inv to_text k" "reply_inv from_str k" using assms(1) by (simp_all add: link_inv_def)
  have same: "waiting k' = waiting k" "inflight k' = inflight k" "cleared k' = cleared k"
    by (simp_all add: places assms(3-11))
  have id: "next_id (lk_mux k') = next_id (lk_mux k)" using assms(2) unfolding advances_def by blast
  have "calls_inv k'" using calls_inv_cong [OF assms(3-10)] k(1) by simp
  moreover have "lines_inv to_text k'" by (rule lines_inv_drop [OF k(2)]) (simp_all add: same id assms(3,11))
  moreover have "reply_inv from_str k'" by (rule reply_inv_advance [OF k(3) assms(2)]) (simp_all add: same assms(9,11))
  ultimately show ?thesis by (simp add: link_inv_def)
qed

lemma link_step_inv:
  assumes "link_step from_str clock to_text k k'" "link_inv from_str to_text k"
  shows "link_inv from_str to_text k'"
proof -
  have k: "calls_inv k" "lines_inv to_text k" "reply_inv from_str k" using assms(2) by (simp_all add: link_inv_def)
  from assms(1) show ?thesis
  proof cases
    case (Read e)
    obtain r c where r: "read_loop from_str clock [e] (lk_reader k, lk_conn k) = (r, c)" by fastforce
    show ?thesis using advances_read [OF r] assms(2) by (elim link_inv_advance) (simp_all add: Read reader_step_def r)
  next
    case (Exit code drained)
    then show ?thesis using assms(2) advances_supervise
      by (elim link_inv_advance) (auto simp: supervisor_exit_def)
  next
    case Kill
    then show ?thesis using assms(2) advances_supervise
      by (elim link_inv_advance) (auto simp: supervisor_kill_def)
  next
    case Close
    then show ?thesis using assms(2) by (elim link_inv_advance) (simp_all add: begin_close_def)
  next
    case (Late exited)
    then show ?thesis using assms(2) advances_supervise
      by (elim link_inv_advance) (simp_all add: close_timeout_def set_mux_def)
  next
    case Dropped
    then show ?thesis using assms(2) by (elim link_inv_advance) (simp_all add: drop_handle_def try_send_def)
  qed (use k in \<open>auto simp: link_inv_def calls_start lines_start reply_start calls_enqueue lines_enqueue reply_enqueue
      calls_failed lines_failed reply_failed calls_take lines_take reply_take calls_close lines_close reply_close
      calls_permit lines_permit reply_permit calls_line lines_line reply_line calls_write lines_write reply_write
      calls_done lines_done reply_done calls_raise lines_raise reply_raise\<close>)
qed

lemma link_steps_inv: "link_steps from_str clock to_text k k' \<Longrightarrow> link_inv from_str to_text k \<Longrightarrow> link_inv from_str to_text k'"
  by (induction rule: link_steps.induct) (simp_all add: link_step_inv)

lemma reachable_link_inv:
  assumes "link_steps from_str clock to_text link_new k"
  shows "calls_inv k" "lines_inv to_text k" "reply_inv from_str k"
  using link_steps_inv [OF assms link_inv_new] by (simp_all add: link_inv_def)

lemma link_steps_trans: "link_steps from_str clock to_text k' k'' \<Longrightarrow> link_steps from_str clock to_text k k' \<Longrightarrow>
   link_steps from_str clock to_text k k''"
  by (induction rule: link_steps.induct) (blast intro: link_steps.intros)+

lemma link_steps1: "link_step from_str clock to_text k k' \<Longrightarrow> link_steps from_str clock to_text k k'"
  by (blast intro: link_steps.intros)

section \<open>Nobody is stranded\<close>

text \<open>What is left to do before every call has its answer.\<close>

definition left_over :: "link \<Rightarrow> nat" where
  "left_over k = 2 * length (outstanding k) + length (lk_senders k) + of_bool (cleared k)"

definition closer :: "link \<Rightarrow> link \<Rightarrow> bool" where
  "closer k k' \<longleftrightarrow> left_over k' < left_over k \<and> lk_calls k' = lk_calls k \<and> prefix (lk_answers k) (lk_answers k')"

text \<open>
  The host alone, once every deadline has passed: the adapter sends nothing, takes nothing and does
  not exit, so no reply is received, no write succeeds and nobody is told that the connection is over.
  What is left are the steps of the callers, the pump and the tasks that wait, each with its deadline
  expired, where the step does something.
\<close>

inductive late_step :: "(json \<Rightarrow> string + string) \<Rightarrow> link \<Rightarrow> link \<Rightarrow> bool" for to_text where
  LateEnqueue: "call_enqueue k \<noteq> k \<Longrightarrow> late_step to_text k (call_enqueue k)"
| LateFailed: "call_failed x k \<noteq> k \<Longrightarrow> late_step to_text k (call_failed x k)"
| LateTake: "pump_take True k \<noteq> k \<Longrightarrow> late_step to_text k (pump_take True k)"
| LatePermit: "pump_permit True k \<noteq> k \<Longrightarrow> late_step to_text k (pump_permit True k)"
| LateLine: "pump_line to_text k \<noteq> k \<Longrightarrow> late_step to_text k (pump_line to_text k)"
| LateWrite: "pump_write WriteTimedOut k \<noteq> k \<Longrightarrow> late_step to_text k (pump_write WriteTimedOut k)"
| LateExpire: "task_done x Elapsed k \<noteq> k \<Longrightarrow> late_step to_text k (task_done x Elapsed k)"

lemma late_link_step: "late_step to_text k k' \<Longrightarrow> link_step from_str clock to_text k k'"
  by (erule late_step.cases) (auto intro: link_step.intros)

lemma admit_expired: "\<exists>e. pump_admit True m = Some e"
  by (cases "terminal m") (simp_all add: pump_admit_def)

lemma closer_enqueue: "call_enqueue k \<noteq> k \<Longrightarrow> closer k (call_enqueue k)"
  by (auto simp: call_enqueue_def closer_def left_over_def places split: list.splits if_splits pump_state.split)

lemma closer_failed: "call_failed x k \<noteq> k \<Longrightarrow> closer k (call_failed x k)"
proof -
  assume "call_failed x k \<noteq> k"
  then have x: "lk_pump k = PumpEnded" "x \<in> set (lk_senders k @ lk_queue k)"
    by (simp_all add: call_failed_def split: if_splits)
  have le: "length (remove1 x xs) \<le> length xs" for xs :: "(nat \<times> queued_request) list"
    by (simp add: length_remove1)
  have shorter: "length (remove1 x xs) < length xs" if "x \<in> set xs" for xs :: "(nat \<times> queued_request) list"
    using length_pos_if_in_set [OF that] that by (simp add: length_remove1)
  have "length (remove1 x (lk_queue k)) + length (remove1 x (lk_senders k)) < length (lk_queue k) + length (lk_senders k)"
    using x shorter add_less_le_mono [OF _ le] add_le_less_mono [OF le] by (metis Un_iff set_append)
  with le [of "lk_senders k"] show ?thesis
    using x by (auto simp: closer_def left_over_def call_failed_def places link_fields)
qed

lemma closer_take: "pump_take True k \<noteq> k \<Longrightarrow> closer k (pump_take True k)"
  using admit_expired [of "lk_mux k"]
  by (auto simp: pump_take_def Let_def closer_def left_over_def places link_fields
      split: list.splits pump_state.splits option.splits)

lemma closer_permit: "pump_permit True k \<noteq> k \<Longrightarrow> closer k (pump_permit True k)"
  using admit_expired [of "lk_mux k"]
  by (auto simp: pump_permit_def closer_def left_over_def places link_fields
      split: pump_state.splits option.splits if_splits)

lemma closer_line: "pump_line to_text k \<noteq> k \<Longrightarrow> closer k (pump_line to_text k)"
  by (auto simp: pump_line_def closer_def left_over_def places link_fields
      split: pump_state.splits prod.split sum.split)

lemma closer_write: "pump_write WriteTimedOut k \<noteq> k \<Longrightarrow> closer k (pump_write WriteTimedOut k)"
  by (auto simp: pump_write_def pump_written_def Let_def try_send_def closer_def left_over_def places link_fields
      split: pump_state.splits)

lemma closer_expire: "task_done x Elapsed k \<noteq> k \<Longrightarrow> closer k (task_done x Elapsed k)"
proof -
  assume "task_done x Elapsed k \<noteq> k"
  then have x: "x \<in> set (lk_tasks k)" unfolding task_done_def by (meson)
  then have "length (remove1 x (lk_tasks k)) < length (lk_tasks k)"
    using length_pos_if_in_set [OF x] by (simp add: length_remove1)
  with x show ?thesis
    by (simp add: closer_def left_over_def task_done_def await_reply_def places link_fields split: pump_state.split)
qed

lemma late_step_closer: "late_step to_text k k' \<Longrightarrow> closer k k'"
  by (erule late_step.cases)
    (simp_all add: closer_enqueue closer_failed closer_take closer_permit closer_line closer_write closer_expire)

lemma closer_changes: "closer k k' \<Longrightarrow> k' \<noteq> k"
  by (auto simp: closer_def)

text \<open>Progress: while a call is outstanding, one of the host's tasks has something to do.\<close>

lemma deadline_helps:
  assumes "calls_inv k" "outstanding k \<noteq> []"
  shows "\<exists>k'. late_step to_text k k'"
proof (cases "lk_tasks k")
  case (Cons x xs)
  then have "lk_tasks (task_done x Elapsed k) \<noteq> lk_tasks k"
    by (simp add: task_done_def await_reply_def link_fields)
  then have "task_done x Elapsed k \<noteq> k" by metis
  then show ?thesis by (blast intro: late_step.LateExpire)
next
  case Nil
  have permits: "lk_permits k \<noteq> 0" if "inflight k = []" "\<not> cleared k"
    using assms(1) that by (simp add: calls_inv_def)
  obtain e where e: "pump_admit True (lk_mux k) = Some e" using admit_expired by blast
  show ?thesis
  proof (cases "lk_pump k")
    case (PumpWriting n i)
    then have "lk_pump (pump_write WriteTimedOut k) \<noteq> lk_pump k"
      by (simp add: pump_write_def pump_written_def Let_def try_send_def link_fields)
    then have "pump_write WriteTimedOut k \<noteq> k" by metis
    then show ?thesis by (blast intro: late_step.LateWrite)
  next
    case (PumpChecked n rq)
    then have "lk_pump (pump_line to_text k) \<noteq> lk_pump k"
      by (simp add: pump_line_def link_fields split: prod.split sum.split)
    then have "pump_line to_text k \<noteq> k" by metis
    then show ?thesis by (blast intro: late_step.LateLine)
  next
    case (PumpWaiting n rq)
    then have "lk_pump (pump_permit True k) \<noteq> lk_pump k"
      using permits Nil e by (simp add: pump_permit_def places link_fields)
    then have "pump_permit True k \<noteq> k" by metis
    then show ?thesis by (blast intro: late_step.LatePermit)
  next
    case PumpIdle
    show ?thesis
    proof (cases "lk_queue k")
      case (Cons x xs)
      then have "lk_queue (pump_take True k) \<noteq> lk_queue k"
        using PumpIdle e by (cases x) (simp add: pump_take_def Let_def link_fields)
      then have "pump_take True k \<noteq> k" by metis
    then show ?thesis by (blast intro: late_step.LateTake)
    next
      case no_queue: Nil
      then obtain x xs where "lk_senders k = x # xs"
        using assms(2) Nil PumpIdle by (cases "lk_senders k") (simp_all add: places)
      then have "lk_senders (call_enqueue k) \<noteq> lk_senders k"
        using PumpIdle no_queue by (simp add: call_enqueue_def OUTBOUND_QUEUE_CAPACITY_def)
      then have "call_enqueue k \<noteq> k" by metis
    then show ?thesis by (blast intro: late_step.LateEnqueue)
    qed
  next
    case PumpEnded
    then have "lk_queue k @ lk_senders k \<noteq> []" using assms(2) Nil by (auto simp: places)
    then obtain x where x: "x \<in> set (lk_senders k @ lk_queue k)" by (cases "lk_senders k @ lk_queue k") auto
    then have "lk_answers (call_failed x k) \<noteq> lk_answers k" using PumpEnded by (simp add: call_failed_def link_fields)
    then have "call_failed x k \<noteq> k" by metis
    then show ?thesis by (blast intro: late_step.LateFailed)
  qed
qed

text \<open>A run of the host alone is at most three steps a call and one more long.\<close>

lemma late_steps_closer:
  "(late_step to_text ^^ n) k k' \<Longrightarrow> n + left_over k' \<le> left_over k \<and> lk_calls k' = lk_calls k \<and>
   prefix (lk_answers k) (lk_answers k')"
proof (induction n arbitrary: k')
  case (Suc n)
  then obtain k1 where k1: "(late_step to_text ^^ n) k k1" "late_step to_text k1 k'" by auto
  show ?case using Suc.IH [OF k1(1)] late_step_closer [OF k1(2)]
    by (auto simp: closer_def intro: prefix_order.order_trans)
qed simp

lemma late_steps_reach:
  assumes "(late_step to_text ^^ n) k k'" "link_steps from_str clock to_text link_new k"
  shows "link_steps from_str clock to_text link_new k'"
  using assms
proof (induction n arbitrary: k')
  case (Suc n)
  then obtain k1 where k1: "(late_step to_text ^^ n) k k1" "late_step to_text k1 k'" by auto
  show ?case using link_steps.Step [OF Suc.IH [OF k1(1) Suc.prems(2)] late_link_step [OF k1(2)]] .
qed simp

lemma left_over_bound: "left_over k \<le> 3 * length (outstanding k) + 1"
  by (simp add: left_over_def places split: pump_state.split)

section \<open>Two runs\<close>

text \<open>A hello that is answered, and a connection that ends while the pump holds a checked request.\<close>

definition sample_from_str :: "string \<Rightarrow> json option" where
  "sample_from_str = map_of [(''r'', JObj [(''id'', JInt 0), (''ok'', JNull)])]"

definition sample_clock :: "nat \<Rightarrow> rfc3339" where
  "sample_clock n = Rfc3339 ''t''"

definition sample_to_text :: "json \<Rightarrow> string + string" where
  "sample_to_text j = Inr ''q''"

definition sample_checked :: link where
  "sample_checked =
     pump_permit False (pump_take False (call_enqueue (call_start \<lparr>qr_op = ''hello'', qr_params = JNull\<rparr> link_new)))"

definition sample_answered :: link where
  "sample_answered =
     task_done (0, 0) (Received (Reply ''r'' (sample_clock 0)))
       (reader_step sample_from_str sample_clock (Bytes [CHR ''r'', LF])
         (pump_write Written (pump_line sample_to_text sample_checked)))"

definition sample_late :: link where
  "sample_late =
     pump_line sample_to_text
       (supervisor_exit (Some 1) True (reader_step sample_from_str sample_clock Eof sample_checked))"

lemma sample_push:
  "push (is_json_of sample_from_str) [CHR ''r'', LF] decoder_new [] = (decoder_new, [''r''], Inr ())"
proof -
  have "utf8 ''r''" by code_simp
  moreover have "(CHR ''r'') \<noteq> LF" by code_simp
  ultimately show ?thesis
    by (simp add: push_def decoder_new_def MAX_FRAME_BYTES_def decode_frame_def is_json_of_def sample_from_str_def)
qed

lemma sample_reply: "lk_answers sample_answered = [(0, Inr (''r'', sample_clock 0))] \<and>
  sent (lk_mux sample_answered) = [(0, Reply ''r'' (sample_clock 0))]"
proof -
  have "pump_write Written (pump_line sample_to_text sample_checked) =
      link_new\<lparr>lk_conn := \<lparr>cn_mux = snd (issue mux_new), cn_kill = None\<rparr>,
        lk_calls := [\<lparr>qr_op = ''hello'', qr_params = JNull\<rparr>], lk_permits := 0, lk_tasks := [(0, 0)],
        lk_lines := [(0, 0, [CHR ''q'', LF])]\<rparr>"
    by code_simp
  moreover have "on_frame sample_from_str False ''r'' (sample_clock 0) (snd (issue mux_new)) =
      (True, Inr (), snd (deliver 0 ''r'' (sample_clock 0) (snd (issue mux_new))))"
    by code_simp
  ultimately show ?thesis
    by (simp add: sample_answered_def reader_step_def link_new_def reader_new_def sample_push task_done_def
        await_reply_def link_fields)
      (simp add: issue_def mux_new_def deliver_def)
qed

lemma sample_end:
  "pending (lk_mux sample_late) 0 \<and> terminal (lk_mux sample_late) = Some (Crashed (Some 1))"
  by code_simp

lemma sample_runs:
  "link_steps sample_from_str sample_clock sample_to_text link_new sample_answered"
  "link_steps sample_from_str sample_clock sample_to_text link_new sample_late"
proof -
  have c: "link_steps sample_from_str sample_clock sample_to_text link_new sample_checked"
    unfolding sample_checked_def
    by (rule link_steps.Step [OF link_steps.Step [OF link_steps.Step [OF link_steps1 [OF link_step.Call] link_step.Enqueue]
          link_step.Take] link_step.Permit]) (simp add: link_new_def)
  let ?k = "reader_step sample_from_str sample_clock (Bytes [CHR ''r'', LF])
      (pump_write Written (pump_line sample_to_text sample_checked))"
  have "link_steps sample_from_str sample_clock sample_to_text link_new ?k"
    by (rule link_steps.Step [OF link_steps.Step [OF link_steps.Step [OF c link_step.Line] link_step.Write] link_step.Read])
  moreover have "sent (lk_mux sample_answered) = sent (lk_mux ?k)"
    by (simp add: sample_answered_def task_done_def await_reply_def link_fields)
  then have e: "sent (lk_mux ?k) = [(0, Reply ''r'' (sample_clock 0))]" using sample_reply by metis
  have "(snd (0, 0), Reply ''r'' (sample_clock 0)) \<in> set (sent (lk_mux ?k))" unfolding e by simp
  ultimately show "link_steps sample_from_str sample_clock sample_to_text link_new sample_answered"
    unfolding sample_answered_def by (rule link_steps.Step [OF _ link_step.Receive])
  show "link_steps sample_from_str sample_clock sample_to_text link_new sample_late"
    unfolding sample_late_def
    by (rule link_steps.Step [OF link_steps.Step [OF link_steps.Step [OF c link_step.Read] link_step.Exit] link_step.Line])
qed

section \<open>The properties\<close>

text \<open>
  C10. Whatever the adapter writes and however the tasks of the connection interleave, every call
  made is either outstanding or answered, in exactly one place, and never answered twice. An answer
  with a reply is the reply to the caller's own request: its frame names the id under which that
  request, with its op and parameters, was sent, and no other call's request was sent under it.
\<close>

theorem answers_are_ones_own:
  assumes "link_steps from_str clock to_text link_new k"
  shows "distinct (outstanding k @ map fst (lk_answers k)) \<and>
    set (outstanding k @ map fst (lk_answers k)) = {..<length (lk_calls k)} \<and>
    list_all (\<lambda>(n, result). case result of
        Inl _ \<Rightarrow> True
      | Inr (frame, t) \<Rightarrow>
          \<exists>i line. (n, i, line) \<in> set (lk_lines k) \<and> frame_id from_str frame = Some i \<and>
            build_frame to_text i (qr_op (lk_calls k ! n)) (qr_params (lk_calls k ! n)) = Inr line \<and>
            filter (\<lambda>x. fst (snd x) = i) (lk_lines k) = [(n, i, line)]) (lk_answers k)"
proof -
  note inv = reachable_link_inv [OF assms]
  have own: "\<exists>i line. (n, i, line) \<in> set (lk_lines k) \<and> frame_id from_str frame = Some i \<and>
      build_frame to_text i (qr_op (lk_calls k ! n)) (qr_params (lk_calls k ! n)) = Inr line \<and>
      filter (\<lambda>x. fst (snd x) = i) (lk_lines k) = [(n, i, line)]"
    if answer: "(n, Inr (frame, t)) \<in> set (lk_answers k)" for n frame t
  proof -
    obtain i line where i: "(n, i, line) \<in> set (lk_lines k)" "(i, Reply frame t) \<in> set (sent (lk_mux k))"
      using reply_invD(4) [OF inv(3) answer] by blast
    have "distinct (map (fst \<circ> snd) (lk_lines k))" using lines_invD(2) [OF inv(2)] strict_sorted_iff by auto
    from filter_key [OF this i(1)] have "filter (\<lambda>x. fst (snd x) = i) (lk_lines k) = [(n, i, line)]" by simp
    moreover have "frame_id from_str frame = Some i" using reply_invD(2) [OF inv(3)] i(2) unfolding sent_ok_def by blast
    ultimately show ?thesis using i(1) lines_invD(3) [OF inv(2) i(1)] by blast
  qed
  show ?thesis
    using calls_invD(1,2) [OF inv(1)] own by (auto simp: list_all_iff split: sum.split)
qed

theorem answers_are_ones_own_witness:
  "lk_answers sample_answered = [(0, Inr (''r'', sample_clock 0))] \<and> frame_id sample_from_str ''r'' = Some 0 \<and>
   distinct (outstanding sample_answered @ map fst (lk_answers sample_answered))"
proof -
  have "frame_id sample_from_str ''r'' = Some 0" by code_simp
  with answers_are_ones_own [OF sample_runs(1)] sample_reply show ?thesis by blast
qed

text \<open>
  C13. Requests go to the adapter in the order of the calls and under increasing ids; the queue holds
  at most 64 of them; and no more are in flight than the adapter declared, and one before its hello
  has been answered.
\<close>

theorem sent_in_order_within_limits:
  assumes "link_steps from_str clock to_text link_new k"
  shows "sorted_wrt (<) (map fst (lk_lines k)) \<and> sorted_wrt (<) (map (fst \<circ> snd) (lk_lines k)) \<and>
    length (lk_queue k) \<le> OUTBOUND_QUEUE_CAPACITY \<and>
    length (inflight k) \<le> (case lk_limit k of Some max_in_flight \<Rightarrow> max_in_flight | None \<Rightarrow> 1)"
proof -
  note inv = reachable_link_inv [OF assms]
  show ?thesis
    using lines_invD(1,2) [OF inv(2)] inv(1) by (simp add: sorted_wrt_append calls_inv_def limit_of_def)
qed

theorem sent_in_order_within_limits_witness:
  "length (inflight sample_late) \<le> 1 \<and> lk_lines sample_late = [(0, 0, [CHR ''q'', LF])]"
proof -
  have "lk_limit sample_late = None" "lk_lines sample_late = [(0, 0, [CHR ''q'', LF])]" by code_simp+
  with sent_in_order_within_limits [OF sample_runs(2)] show ?thesis by simp
qed

text \<open>
  C11. No call is ever stranded. Take any state a connection can get into, and let the adapter go
  silent: nothing is read, no write is taken, the process does not exit, and every deadline passes.
  Then every run of the host's own tasks ends, after at most three steps for each outstanding call
  and one more, and where it ends, so that no task has anything left to do, every call has its answer.
  No answer already given has changed.
\<close>

theorem every_call_ends:
  assumes "link_steps from_str clock to_text link_new k" "(late_step to_text ^^ n) k k'"
  shows "n \<le> 3 * length (outstanding k) + 1 \<and> lk_calls k' = lk_calls k \<and>
    prefix (lk_answers k) (lk_answers k') \<and>
    (Ex (late_step to_text k') \<or> set (map fst (lk_answers k')) = {..<length (lk_calls k)})"
proof (intro conjI)
  show "n \<le> 3 * length (outstanding k) + 1" "lk_calls k' = lk_calls k" "prefix (lk_answers k) (lk_answers k')"
    using late_steps_closer [OF assms(2)] left_over_bound [of k] by auto
  note inv = reachable_link_inv(1) [OF late_steps_reach [OF assms(2,1)]]
  show "Ex (late_step to_text k') \<or> set (map fst (lk_answers k')) = {..<length (lk_calls k)}"
  proof (cases "outstanding k' = []")
    case True
    then show ?thesis using calls_invD(2) [OF inv] \<open>lk_calls k' = lk_calls k\<close> by simp
  qed (use deadline_helps [OF inv] in blast)
qed

theorem every_call_ends_witness:
  "(late_step sample_to_text ^^ 1) sample_late (pump_write WriteTimedOut sample_late) \<and>
   prefix (lk_answers sample_late) (lk_answers (pump_write WriteTimedOut sample_late)) \<and>
   (Ex (late_step sample_to_text (pump_write WriteTimedOut sample_late)) \<or>
    map fst (lk_answers (pump_write WriteTimedOut sample_late)) = [0])"
proof -
  have e: "map fst (lk_answers (pump_write WriteTimedOut sample_late)) = [0]" "lk_answers sample_late = []"
    by code_simp+
  then have "pump_write WriteTimedOut sample_late \<noteq> sample_late" by (metis list.simps(3) list.simps(8))
  then have "(late_step sample_to_text ^^ 1) sample_late (pump_write WriteTimedOut sample_late)"
    unfolding relpowp_1 by (rule late_step.LateWrite)
  with every_call_ends [OF sample_runs(2) this] e show ?thesis by simp
qed

text \<open>
  C12. The end of a connection answers every request that was in flight, with one exception. Once
  the terminal reason is latched, every request in flight has been sent its own reply or that
  reason, once, but at most one; and there is no such one before the pump has issued the id of a
  request it had checked the connection for before the end came.
\<close>

theorem end_answers_all_but_one:
  assumes "link_steps from_str clock to_text link_new k" "terminal (lk_mux k) = Some t"
  shows "length (filter (\<lambda>(n, i). i \<notin> fst ` set (sent (lk_mux k))) (inflight k)) \<le> of_bool (\<not> cleared k) \<and>
    distinct (map fst (sent (lk_mux k))) \<and>
    (\<forall>(i, d)\<in>set (sent (lk_mux k)).
       (\<exists>frame received. d = Reply frame received \<and> frame_id from_str frame = Some i) \<or> d = delivery_of t)"
proof -
  let ?m = "lk_mux k"
  note inv = reachable_link_inv [OF assms(1)]
  have m: "mux_inv ?m" by (rule reply_invD(1) [OF inv(3)])
  have silent: "pending ?m (snd x)" if "x \<in> set (inflight k)" "snd x \<notin> fst ` set (sent ?m)" for x
    using reply_invD(3) [OF inv(3) that(1)] mux_invD(4) [OF m, of "snd x"] that(2)
    by (auto simp: pending_def answered_ids_def)
  let ?xs = "filter (\<lambda>x. snd x \<notin> fst ` set (sent ?m)) (inflight k)"
  have one: "snd x = snd y" "\<not> cleared k" if "x \<in> set ?xs" "y \<in> set ?xs" for x y
    using that silent [of x] silent [of y] reply_invD(5,6) [OF inv(3)] assms(2) by auto
  have d: "distinct (map snd ?xs)" using inflight_ids(1) [OF inv(1,2)] by (simp add: distinct_map_filter)
  have "length ?xs \<le> of_bool (\<not> cleared k)"
  proof (cases ?xs)
    case (Cons x xs)
    have mem: "x \<in> set ?xs" "\<And>y. y \<in> set xs \<Longrightarrow> y \<in> set ?xs" unfolding Cons by simp_all
    have "xs = []" using d [unfolded Cons] one(1) [OF mem(1) mem(2)] by (cases xs) auto
    moreover have "\<not> cleared k" using one(2) [OF mem(1) mem(1)] .
    ultimately show ?thesis unfolding Cons by simp
  qed simp
  moreover have "(\<exists>frame received. d = Reply frame received \<and> frame_id from_str frame = Some i) \<or> d = delivery_of t"
    if "(i, d) \<in> set (sent ?m)" for i d
  proof -
    have "(\<exists>frame t. d = Reply frame t) \<or> d = delivery_of t"
      using reply_invD(2) [OF inv(3)] that assms(2) unfolding sent_ok_def by fastforce
    moreover have "frame_id from_str frame = Some i" if "d = Reply frame t" for frame t
      using reply_invD(2) [OF inv(3)] \<open>(i, d) \<in> set (sent ?m)\<close> that unfolding sent_ok_def by blast
    ultimately show ?thesis by blast
  qed
  then have "\<forall>p\<in>set (sent ?m). (\<exists>frame received. snd p = Reply frame received \<and>
      frame_id from_str frame = Some (fst p)) \<or> snd p = delivery_of t" by simp
  ultimately show ?thesis using mux_invD(3) [OF m] unfolding case_prod_beta by simp
qed

theorem end_answers_all_but_one_witness:
  "terminal (lk_mux sample_late) = Some (Crashed (Some 1)) \<and>
   length (filter (\<lambda>(n, i). i \<notin> fst ` set (sent (lk_mux sample_late))) (inflight sample_late)) = 1"
proof -
  note t = conjunct2 [OF sample_end]
  have "length (filter (\<lambda>(n, i). i \<notin> fst ` set (sent (lk_mux sample_late))) (inflight sample_late)) = 1"
    by code_simp
  with end_answers_all_but_one [OF sample_runs(2) t] t show ?thesis by blast
qed

end
