(* ===== verification/Spec2Isabelle.thy ===== *)
theory Spec2Isabelle
  imports Money_Correct Timestamp_Correct Framing_Correct Observation_Correct Envelope_Correct Revisions_Correct Mux_Correct Host_Correct Ingest_Correct Refresh_Correct
    Bitcoin_Paging
    Sha256
    Rust_Text
    Esplora
    Wallet
    Seen
    Bitcoin_Adapter
    Bitcoin_Sync
    Value_Stable
    Bitcoin_Replies
    Bitcoin_Adapter_Correct
    Bitcoin_Crawl
    Bitcoin_Balances
    Seen_Correct
    Compare
    Ledger
    Handle
    Judge
    Expect
    Crawl_Run
    Runner
    Judge_Correct
    Crawl_Correct
    Runner_Correct
    Suite
    Suite_Correct
    Render
    Cli
    Freshness
    Cli_Correct
    Connection
    Connection_Correct
begin

text \<open>
  sumer reads accounts through adapters. An adapter is a process of its own that speaks JSON Lines
  on its pipes; the host multiplexes requests over one connection and stamps what it receives; the
  store folds the stamped observations into revision chains, sweeps each resource page by page and
  concludes from a complete sweep which records are gone; the conformance suite runs an adapter
  against fixtures. The Bitcoin adapter is the one adapter of the repository that talks to a
  provider. This development models these parts from the sources under \<open>src/\<close>, in the order the
  program has them, and proves what makes each of them correct. Theories named \<open>..._Correct\<close> (and
  the few others listed with them) hold the lemmas, the rest the definitions.

  \<^bold>\<open>Shared vocabulary.\<close> \<open>Prelude\<close>: results as sums (\<open>res_bind\<close> is \<open>?\<close>), text as UTF-8 bytes, decimal
  numerals, hash maps as association lists with distinct keys, and four interfaces: \<open>roundtrip\<close> and
  \<open>exact_codec\<close> for a writer with its reader, \<open>latch\<close> for a cell the first writer wins, and
  \<open>incremental\<close> for a consumer of chunks. \<open>Ordered_Map\<close>: \<open>BTreeMap\<close> and \<open>BTreeSet\<close> as sorted lists.
  \<open>Json\<close>: serde's data model, an object being its members in the order they were read, so that
  repeated keys stay visible. \<open>Rust_Text\<close>: operations of the standard library on text.

  \<^bold>\<open>Values.\<close> \<open>Money\<close> (\<open>core/money\<close>): asset ids, exact decimals within 40 digits, their parser, printer,
  arithmetic. \<open>Timestamp\<close> (\<open>core/wire/src/observation.rs\<close>, \<open>core/host/src/time.rs\<close>): the RFC 3339
  validator, the calendar, instants, the clock stamp. \<open>Money_Correct\<close>, \<open>Timestamp_Correct\<close> and
  \<open>Calendar_Correct\<close> show the accepted grammars, exactness of arithmetic and comparison, agreement of
  equality and hash, and that the calendar functions are inverse to each other.

  \<^bold>\<open>The wire.\<close> \<open>Framing\<close> (\<open>core/wire/src/codec.rs\<close>): the incremental decoder of frames;
  \<open>Framing_Correct\<close> refines a specification on the whole stream and bounds the buffer. \<open>Observation\<close>
  and \<open>Envelope\<close> (\<open>observation.rs\<close>, \<open>envelope.rs\<close>, \<open>ops.rs\<close>, \<open>shape.rs\<close>): every type of the contract
  with its hand-written or derived reader and writer; their \<open>_Correct\<close> theories show round trips and
  what readers refuse.

  \<^bold>\<open>The host.\<close> \<open>Mux\<close> (\<open>core/host/src/mux.rs\<close>, \<open>process.rs\<close>): request ids and their slots, the terminal
  and the verdict, the reader, the steps of the pump, the supervisor. A method that takes a lock,
  runs and releases it is one step on the state, and what the runtime decides is an argument of the
  step; \<open>Mux_Correct\<close> proves invariants of every reachable state by rule induction. \<open>Connection\<close> puts them
  together: callers, queue, pump, permits, waiting tasks, reader and supervisor as an inductive step
  relation, and the environment of the child; \<open>Connection_Correct\<close> shows of every run that an answer is
  the caller's own, that limits and order are kept, that the end of a connection answers what is in
  flight but possibly one request, and, for the host's own tasks once every deadline has passed (the
  relation \<open>late_step\<close>), that they come to rest with every call answered. \<open>Host\<close> and
  \<open>Handle\<close> (\<open>lib.rs\<close>): the handshake, the typed reads with their checks and stamps, the transcript;
  \<open>Host_Correct\<close> says when a read succeeds and what it returns. \<open>Revisions\<close> (\<open>fold.rs\<close>, \<open>paging.rs\<close>):
  the fold into chains and the resume state, with an interface \<open>keyed_log\<close> that \<open>Revisions_Correct\<close>
  interprets.

  \<^bold>\<open>The store.\<close> \<open>Content\<close> (\<open>hash.rs\<close>), \<open>Store\<close> (\<open>store.rs\<close>, \<open>schema.rs\<close>): the tables as lists of
  records, each SQL statement as the function it computes, with its constraint errors. \<open>Sweep\<close>
  (\<open>sweep.rs\<close>): one sweep with its gate of nine conditions and the retractions it earns. \<open>Refresh\<close>
  (\<open>refresh.rs\<close>): the sweeps and balances of every connected adapter. \<open>Store_Correct\<close> shows that rows
  are read back as written; \<open>Sweep_Steps\<close>, \<open>Sweep_Correct\<close> and \<open>Ingest_Correct\<close> that a sweep keeps the
  database consistent, writes exactly the rows that the specification \<open>page_news\<close> gives for a page and
  retracts exactly what it should; \<open>Confined\<close>
  and \<open>Refresh_Correct\<close> that a refresh only appends, for its own adapters, and that a connection
  that broke the contract earns nothing.

  \<^bold>\<open>The Bitcoin adapter.\<close> \<open>Bitcoin_Map\<close> (\<open>map.rs\<close>): payloads, net deltas, the cursor, the plan of a crawl
  and its cut into pages. \<open>Esplora\<close> (\<open>source.rs\<close>): fetching with its paging loop, replay and recording.
  \<open>Wallet\<close>, \<open>Sha256\<close> (\<open>wallet.rs\<close>) and \<open>Seen\<close> (\<open>seen.rs\<close>): the wallet file, the sync, the digest of
  an address set, the balance cache and its atomic write. \<open>Bitcoin_Adapter\<close> (\<open>main.rs\<close>): the five
  operations, the byte budget of a reply, the snapshots and the stdin loop. \<open>Bitcoin_Sync\<close>,
  \<open>Bitcoin_Map_Correct\<close>, \<open>Bitcoin_Paging\<close>, \<open>Bitcoin_Replies\<close>, \<open>Value_Stable\<close>, \<open>Bitcoin_Adapter_Correct\<close>,
  \<open>Bitcoin_Crawl\<close>, \<open>Bitcoin_Balances\<close> and \<open>Seen_Correct\<close> show that the fetch loop ends on a provider that
  pages a fixed listing (and that it need not on others), when a sync succeeds, with which error it
  ends and when it does not return (\<open>stops_at\<close>), that a crawl delivers every transaction
  once, that replies are well formed and fit a frame, and compose both programs: what the host
  returns to its caller when this adapter answers, which is what the relations \<open>history_answer\<close> (the
  pages of the snapshots) and \<open>figures\<close> (the sums of what the provider answered, the saved figures, or
  nothing) say of the request.

  \<^bold>\<open>The conformance suite.\<close> \<open>Compare\<close> (\<open>conformance/src/assert.rs\<close>), \<open>Ledger\<close> (\<open>ledger.rs\<close>), \<open>Judge\<close>,
  \<open>Expect\<close>, \<open>Crawl_Run\<close> (\<open>exec.rs\<close>), \<open>Runner\<close> (\<open>runner.rs\<close>), \<open>Suite\<close> (\<open>main.rs\<close>). A function returns the
  failures it pushes; the text of a failure is a structured value. \<open>Judge_Correct\<close>, \<open>Crawl_Correct\<close>,
  \<open>Runner_Correct\<close> and \<open>Suite_Correct\<close> state what a clean judgement means, that ledger and live set hold
  exactly what the drains of the recorded transcript carried (\<open>drains_of\<close> reads them off it), and what
  exit code 0 certifies of the executions of the two processes launched for each fixture.

  \<^bold>\<open>The store's command line.\<close> \<open>Render\<close> is \<open>render.rs\<close>: a balance line with its source and freshness, a
  history row, the chain of a record, the line of a sweep. \<open>Cli\<close> is \<open>main.rs\<close> and \<open>profile.rs\<close> of the
  store with \<open>Store::init\<close> and \<open>Store::open\<close>: the profile, its writer lock, seven commands, standard
  output that may close, the exit code. A command maps the database file of its profile to what it
  prints, how it ends and the file it leaves; the locale \<open>careful_command\<close> of \<open>Cli_Correct\<close> states what
  all of them promise (nothing recorded is lost, nothing is written without the lock) and is
  interpreted on each. \<open>Cli_Correct\<close> also says what \<open>connect\<close> registers and in which order \<open>show\<close>
  prints; \<open>Freshness\<close> follows the figures of an adapter through a whole refresh to the printed line.

  \<^bold>\<open>Bounds and fuel.\<close> The page loops of the code carry limits of their own, which the model has: 100000
  pages of a sweep (\<open>MAX_PAGES\<close>) and 500 of a conformance crawl (\<open>MAX_CRAWL_PAGES\<close>), where running
  out is the code's own outcome. The fetch loop of the adapter has none, so it is a partial function
  whose \<open>None\<close> is not returning, and returning is proved where it holds. A crawl over the adapter is
  given one step more than it has items, which is shown to be enough. Splitting a text at white space
  is bounded by the length of the text, which is shown never to be what ends it. The poll of the
  conformance suite for a violation has the number of polls its three seconds allow as a parameter.

  \<^bold>\<open>Parameters.\<close> Code outside the repository is an argument of the definitions that use it: serde_json's
  parser and writer on text, the HTTP client, the clock, SHA-256 where the store calls the crate, the
  outcomes of file operations, what a launched process answers. A law assumed of one of them is a
  hypothesis of the theorem that needs it.

  \<^bold>\<open>Not modelled.\<close> The runtime itself: channels, the semaphore, the scheduler, the
  clock of deadlines, the creation of processes and the draining of their stderr; that a deadline has
  passed or a process has exited is an argument of a step. Texts that only go to stderr, the lock file
  and the modes of files.
\<close>

end
